(* ===== verification/Prelude.thy ===== *)
theory Prelude
  imports Main "HOL-Library.Word" "HOL-Library.Signed_Division" "HOL-Library.Monad_Syntax"
begin

text \<open>
  Vocabulary shared by every component of the LameOS model.

  \<^item> Machine integers keep the width the i686 compiler gives them: \<open>uint8_t\<close> and
    \<open>char\<close> are \<open>8 word\<close>, \<open>uint16_t\<close> is \<open>16 word\<close>, and \<open>int\<close>, \<open>size_t\<close>,
    \<open>uint32_t\<close> and every pointer are \<open>32 word\<close>. A signed comparison of the source is
    \<open><s\<close> or \<open>\<le>s\<close>, a signed division goes through \<open>sint\<close> and truncates.
  \<^item> Physical memory is a function from 32-bit addresses to bytes (\<open>mem\<close>).
  \<^item> The status codes of \<open>src/status.h\<close> and the constants of \<open>src/config.h\<close> keep
    their names in lower case.
  \<^item> A kernel routine that does not return to its caller (a panic, an endless loop, a
    dereference of a null or dangling pointer) is a value of \<open>halt\<close>; a routine that can
    fail to return has a result of type \<open>halt + 'a\<close>, chained by \<open>and_then\<close>.
\<close>

unbundle bit_operations_syntax

section \<open>Machine types\<close>

type_synonym u8 = "8 word"
type_synonym u16 = "16 word"
type_synonym u32 = "32 word"
type_synonym i32 = "32 word"
type_synonym ptr = "32 word"
type_synonym mem = "32 word \<Rightarrow> 8 word"

section \<open>Status codes\<close>

definition lameos_ok :: i32 where "lameos_ok = 0"
definition eio :: i32 where "eio = 1"
definition einvarg :: i32 where "einvarg = 2"
definition enomem :: i32 where "enomem = 3"
definition ebadpath :: i32 where "ebadpath = 4"
definition efsnotus :: i32 where "efsnotus = 5"
definition erdonly :: i32 where "erdonly = 6"
definition eunimp :: i32 where "eunimp = 7"
definition eistkn :: i32 where "eistkn = 8"

lemmas status_defs = lameos_ok_def eio_def einvarg_def enomem_def ebadpath_def
  efsnotus_def erdonly_def eunimp_def eistkn_def

section \<open>Kernel configuration\<close>

definition heap_size_bytes :: i32 where "heap_size_bytes = 104857600"
definition heap_block_size :: u32 where "heap_block_size = 4096"
definition heap_address :: ptr where "heap_address = 0x01000000"
definition heap_table_address :: ptr where "heap_table_address = 0x00007E00"
definition max_path :: i32 where "max_path = 108"

lemmas config_defs = heap_size_bytes_def heap_block_size_def heap_address_def
  heap_table_address_def max_path_def

section \<open>Routines that do not return\<close>

datatype halt =
    Panic string      \<comment> \<open>\<open>panic (msg)\<close>: the message is printed, then \<open>while (1)\<close>\<close>
  | Diverges          \<comment> \<open>a loop of the source that never meets its exit condition\<close>
  | Bad_Pointer ptr   \<comment> \<open>an access through a null or dangling pointer, to a page that is not there, or past an array\<close>

definition and_then :: "halt + 'a \<Rightarrow> ('a \<Rightarrow> halt + 'b) \<Rightarrow> halt + 'b" where
  "and_then r k = (case r of Inl h \<Rightarrow> Inl h | Inr x \<Rightarrow> k x)"

lemma and_then_simps [simp]:
  "and_then (Inl h) k = Inl h"
  "and_then (Inr x) k = k x"
  by (simp_all add: and_then_def)

lemma and_then_Inr_iff:
  "and_then r k = Inr y \<longleftrightarrow> (\<exists>x. r = Inr x \<and> k x = Inr y)"
  by (cases r) auto

lemma and_then_assoc: "and_then (and_then r k) l = and_then r (\<lambda>x. and_then (k x) l)"
  by (cases r) auto

definition terminating :: "'a option \<Rightarrow> halt + 'a" where
  "terminating r = (case r of None \<Rightarrow> Inl Diverges | Some x \<Rightarrow> Inr x)"

lemma terminating_simps [simp]:
  "terminating None = Inl Diverges"
  "terminating (Some x) = Inr x"
  by (simp_all add: terminating_def)

definition deref :: "(ptr \<rightharpoonup> 'a) \<Rightarrow> ptr \<Rightarrow> halt + 'a" where
  "deref store p = (case store p of None \<Rightarrow> Inl (Bad_Pointer p) | Some x \<Rightarrow> Inr x)"

lemma deref_Some [simp]: "store p = Some x \<Longrightarrow> deref store p = Inr x"
  by (simp add: deref_def)

lemma deref_None [simp]: "store p = None \<Longrightarrow> deref store p = Inl (Bad_Pointer p)"
  by (simp add: deref_def)

section \<open>Regions of the address space\<close>

text \<open>
  A region of \<open>n\<close> bytes at address \<open>a\<close> holds the addresses \<open>x\<close> with \<open>x - a < n\<close> in
  32-bit arithmetic, so it may wrap around the end of memory as pointer arithmetic does.
  Two regions are apart when neither start lies within the other one.
\<close>

definition in_region :: "ptr \<Rightarrow> u32 \<Rightarrow> ptr \<Rightarrow> bool" where
  "in_region a n x \<longleftrightarrow> x - a < n"

definition apart :: "ptr \<Rightarrow> u32 \<Rightarrow> ptr \<Rightarrow> u32 \<Rightarrow> bool" where
  "apart a n b k \<longleftrightarrow> n \<le> b - a \<and> k \<le> a - b"

lemma apart_sym: "apart a n b k \<longleftrightarrow> apart b k a n"
  by (auto simp: apart_def)

lemma apart_not_in: "apart a n b k \<Longrightarrow> in_region b k x \<Longrightarrow> \<not> in_region a n x"
  unfolding apart_def in_region_def by uint_arith

lemma apart_not_in2: "apart a n b k \<Longrightarrow> in_region a n x \<Longrightarrow> \<not> in_region b k x"
  unfolding apart_def in_region_def by uint_arith

lemma apart_subregion:
  "apart a n b k \<Longrightarrow> n' \<le> n \<Longrightarrow> k' \<le> k \<Longrightarrow> apart a n' b k'"
  unfolding apart_def by auto

lemma not_in_region_empty [simp]: "\<not> in_region a 0 x"
  by (simp add: in_region_def)

lemma in_region_mono: "in_region a n x \<Longrightarrow> n \<le> k \<Longrightarrow> in_region a k x"
  by (simp add: in_region_def)

lemma in_region_start [simp]: "in_region a n a \<longleftrightarrow> 0 < n"
  by (simp add: in_region_def)

lemma in_region_step:
  "n \<noteq> 0 \<Longrightarrow> in_region a n x \<longleftrightarrow> x = a \<or> in_region (a + 1) (n - 1) x"
  unfolding in_region_def by (cases "x = a") (simp add: word_neq_0_conv, uint_arith)

lemma start_not_in_tail [simp]: "\<not> in_region (a + 1) n a"
  by (simp add: in_region_def)

section \<open>Generic lemmas\<close>

text \<open>Offsets from one base address: distinct offsets below \<open>2 ^ 32\<close> give distinct
  addresses.\<close>

lemma of_nat_word_inj:
  "i < 2 ^ 32 \<Longrightarrow> j < 2 ^ 32 \<Longrightarrow> (of_nat i :: u32) = of_nat j \<longleftrightarrow> i = j"
  by (simp add: word_of_nat_eq_iff take_bit_nat_eq_self)

text \<open>The offset in a page and the page of an address.\<close>

lemma and_low12: "a AND 0xFFF = take_bit 12 a" for a :: u32
  by (simp add: take_bit_eq_mask mask_eq_exp_minus_1)

lemma low12_mod: "unat (a AND 0xFFF) = unat a mod 4096" for a :: u32
  by (simp add: and_low12 take_bit_eq_mod unat_mod_distrib)

lemma bit_FFF: "bit (0xFFF :: int) n \<longleftrightarrow> n < 12"
proof -
  have "(0xFFF :: int) = mask 12" by (simp add: mask_eq_exp_minus_1)
  then show ?thesis by (simp only: bit_mask_iff) auto
qed

lemma bit_FFFFF000: "bit (0xFFFFF000 :: int) n \<longleftrightarrow> 12 \<le> n \<and> n < 32"
proof -
  have "(0xFFFFF000 :: int) = push_bit 12 (mask 20)" by (simp add: mask_eq_exp_minus_1)
  then show ?thesis by (simp only: bit_push_bit_iff bit_mask_iff) (auto simp: possible_bit_def)
qed

lemma page_or:
  fixes t f :: u32
  assumes "t AND 0xFFF = 0" and "f AND 0xFFFFF000 = 0"
  shows "(t OR f) AND 0xFFFFF000 = t"
  using assms by (auto simp: bit_eq_iff bit_simps bit_FFF bit_FFFFF000)

lemma ucast_page: "(ucast (b :: u8) :: u32) AND 0xFFFFF000 = 0"
  by (auto simp: bit_eq_iff bit_simps bit_FFFFF000 dest: bit_imp_le_length)

lemma sint_add_u32:
  "- (2 ^ 31) \<le> sint a + sint b \<Longrightarrow> sint a + sint b < 2 ^ 31 \<Longrightarrow>
   sint (a + b) = sint a + sint b" for a b :: i32
  by (simp add: sint_word_ariths signed_take_bit_int_eq_self)

lemma sint_sub_u32:
  "- (2 ^ 31) \<le> sint a - sint b \<Longrightarrow> sint a - sint b < 2 ^ 31 \<Longrightarrow>
   sint (a - b) = sint a - sint b" for a b :: i32
  by (simp add: sint_word_ariths signed_take_bit_int_eq_self)

lemma sint_range_u32: "- (2 ^ 31) \<le> sint a" "sint a < 2 ^ 31" for a :: i32
  using sint_ge [of a] sint_lt [of a] by simp_all

lemma unat_range_u32: "unat a < 2 ^ 32" for a :: u32
  using unsigned_less [of a, where 'a = nat] by simp

lemma sint_pred: "0 <s count \<Longrightarrow> sint (count - 1) = sint count - 1" for count :: i32
  using sint_range_u32 [of count] by (simp add: sint_sub_u32 word_sless_alt)

lemma sint_succ: "i <s n \<Longrightarrow> sint (i + 1) = sint i + 1" for i n :: i32
  using sint_range_u32 [of i] sint_range_u32 [of n] by (simp add: sint_add_u32 word_sless_alt)

lemma unat_of_nat_u32 [simp]: "i < 2 ^ 32 \<Longrightarrow> unat (of_nat i :: u32) = i"
  by (simp add: unat_of_nat take_bit_nat_eq_self)

lemma unat_eq_of_nat: "unat w = k \<Longrightarrow> w = of_nat k" for w :: u32
  by auto

text \<open>Ranges at distinct offsets from one base that do not overlap are apart.\<close>

lemma apart_offsets:
  assumes "a + n \<le> b \<or> b + k \<le> a" and "a \<noteq> b" and "a + n < 2 ^ 31" and "b + k < 2 ^ 31"
  shows "apart (e + of_nat a) (of_nat n) (e + of_nat b) (of_nat k)"
proof -
  have u: "unat (of_nat a :: u32) = a" "unat (of_nat b :: u32) = b"
    "unat (of_nat n :: u32) = n" "unat (of_nat k :: u32) = k"
    using assms(3,4) by simp_all
  have "e + of_nat b - (e + of_nat a) = (of_nat b - of_nat a :: u32)"
    and "e + of_nat a - (e + of_nat b) = (of_nat a - of_nat b :: u32)" by simp_all
  then show ?thesis
    using assms by (auto simp: apart_def word_le_nat_alt unat_sub_if' u)
qed

end
