(* ===== verification/Memory.thy ===== *)
theory Memory
  imports Prelude
begin

text \<open>
  \<open>src/memory/memory.c\<close>: \<open>memset\<close>, \<open>memcmp\<close> and \<open>memcpy\<close> over the byte-addressed
  physical memory, and the little-endian 16-bit and 32-bit accesses with which the
  compiled code reads and writes words. The loops are the source's loops, with their
  counters at their width; each has a closed characterisation as a lemma.
\<close>

section \<open>Word accesses\<close>

definition load16 :: "mem \<Rightarrow> ptr \<Rightarrow> u16" where
  "load16 m a = ucast (m a) OR push_bit 8 (ucast (m (a + 1)))"

definition store16 :: "mem \<Rightarrow> ptr \<Rightarrow> u16 \<Rightarrow> mem" where
  "store16 m a v = m(a := ucast v, a + 1 := ucast (drop_bit 8 v))"

definition load32 :: "mem \<Rightarrow> ptr \<Rightarrow> u32" where
  "load32 m a = ucast (m a) OR push_bit 8 (ucast (m (a + 1)))
     OR push_bit 16 (ucast (m (a + 2))) OR push_bit 24 (ucast (m (a + 3)))"

definition store32 :: "mem \<Rightarrow> ptr \<Rightarrow> u32 \<Rightarrow> mem" where
  "store32 m a v = m(a := ucast v, a + 1 := ucast (drop_bit 8 v),
     a + 2 := ucast (drop_bit 16 v), a + 3 := ucast (drop_bit 24 v))"

lemma bytes_join16:
  "(ucast (ucast v :: u8) :: u16) OR push_bit 8 (ucast (ucast (drop_bit 8 v) :: u8)) = v"
proof (rule bit_word_eqI)
  fix n assume "n < LENGTH(16)"
  then consider "n < 8" | "8 \<le> n" "n < 16" by force
  then show "bit ((ucast (ucast v :: u8) :: u16)
      OR push_bit 8 (ucast (ucast (drop_bit 8 v) :: u8))) n = bit v n"
    by cases (auto simp add: bit_simps)
qed

lemma bytes_join32:
  "(ucast (ucast v :: u8) :: u32) OR push_bit 8 (ucast (ucast (drop_bit 8 v) :: u8))
     OR push_bit 16 (ucast (ucast (drop_bit 16 v) :: u8))
     OR push_bit 24 (ucast (ucast (drop_bit 24 v) :: u8)) = v"
proof (rule bit_word_eqI)
  fix n assume "n < LENGTH(32)"
  then consider "n < 8" | "8 \<le> n" "n < 16" | "16 \<le> n" "n < 24" | "24 \<le> n" "n < 32"
    by force
  then show "bit ((ucast (ucast v :: u8) :: u32)
      OR push_bit 8 (ucast (ucast (drop_bit 8 v) :: u8))
      OR push_bit 16 (ucast (ucast (drop_bit 16 v) :: u8))
      OR push_bit 24 (ucast (ucast (drop_bit 24 v) :: u8))) n = bit v n"
    by cases (auto simp add: bit_simps)
qed

lemma load16_store16 [simp]: "load16 (store16 m a v) a = v"
  using bytes_join16 [of v] by (simp add: load16_def store16_def)

lemma load32_store32 [simp]: "load32 (store32 m a v) a = v"
  using bytes_join32 [of v] by (simp add: load32_def store32_def)

lemma store16_other: "\<not> in_region a 2 x \<Longrightarrow> store16 m a v x = m x"
  by (auto simp: store16_def in_region_def word_less_nat_alt)

lemma store32_other: "\<not> in_region a 4 x \<Longrightarrow> store32 m a v x = m x"
  by (auto simp: store32_def in_region_def word_less_nat_alt)

lemma load16_cong:
  "(\<And>x. in_region a 2 x \<Longrightarrow> m x = m' x) \<Longrightarrow> load16 m a = load16 m' a"
  by (simp add: load16_def in_region_def word_less_nat_alt)

lemma load32_cong:
  "(\<And>x. in_region a 4 x \<Longrightarrow> m x = m' x) \<Longrightarrow> load32 m a = load32 m' a"
  by (simp add: load32_def in_region_def word_less_nat_alt)

lemma load32_store32_apart: "apart a 4 b 4 \<Longrightarrow> load32 (store32 m a v) b = load32 m b"
  by (rule load32_cong) (simp add: store32_other apart_not_in)

lemma load16_store16_apart: "apart a 2 b 2 \<Longrightarrow> load16 (store16 m a v) b = load16 m b"
  by (rule load16_cong) (simp add: store16_other apart_not_in)

section \<open>Byte buffers as lists\<close>

definition bytes_at :: "mem \<Rightarrow> ptr \<Rightarrow> nat \<Rightarrow> u8 list" where
  "bytes_at m p n = map (\<lambda>i. m (p + of_nat i)) [0..<n]"

lemma length_bytes_at [simp]: "length (bytes_at m p n) = n"
  by (simp add: bytes_at_def)

lemma nth_bytes_at [simp]: "i < n \<Longrightarrow> bytes_at m p n ! i = m (p + of_nat i)"
  by (simp add: bytes_at_def)

lemma bytes_at_0 [simp]: "bytes_at m p 0 = []"
  by (simp add: bytes_at_def)

lemma bytes_at_Suc: "bytes_at m p (Suc n) = m p # bytes_at m (p + 1) n"
  by (rule nth_equalityI) (auto simp: nth_Cons' add.assoc)

lemma bytes_at_numeral [simp]:
  "bytes_at m p (numeral n) = m p # bytes_at m (p + 1) (pred_numeral n)"
  "bytes_at m p (Suc 0) = [m p]"
  by (simp_all add: numeral_eq_Suc bytes_at_Suc)

lemma bytes_at_cong:
  "(\<And>i. i < n \<Longrightarrow> m (p + of_nat i) = m' (p + of_nat i)) \<Longrightarrow> bytes_at m p n = bytes_at m' p n"
  by (simp add: bytes_at_def)

lemma in_region_of_nat: "i < 2 ^ 32 \<Longrightarrow> in_region p n (p + of_nat i) \<longleftrightarrow> i < unat n"
  by (simp add: in_region_def word_less_nat_alt)

text \<open>Writing a list of bytes from an address on, the closed form of the copy loops.\<close>

fun put_bytes :: "ptr \<Rightarrow> u8 list \<Rightarrow> mem \<Rightarrow> mem" where
  "put_bytes p [] m = m"
| "put_bytes p (b # bs) m = put_bytes (p + 1) bs (m(p := b))"

lemma put_bytes_append:
  "put_bytes p (bs @ cs) m = put_bytes (p + of_nat (length bs)) cs (put_bytes p bs m)"
  by (induction bs arbitrary: p m) (auto simp: add.assoc)

lemma put_bytes_apply:
  "length bs < 2 ^ 32 \<Longrightarrow>
   put_bytes p bs m x =
     (if in_region p (of_nat (length bs)) x then bs ! unat (x - p) else m x)"
proof (induction bs arbitrary: p m)
  case (Cons b bs)
  have n: "(of_nat (length (b # bs)) :: u32) \<noteq> 0"
    using Cons.prems of_nat_word_inj [of "length (b # bs)" 0] by simp
  have n1: "(of_nat (length (b # bs)) :: u32) - 1 = of_nat (length bs)" by simp
  have IH: "put_bytes (p + 1) bs (m(p := b)) x =
      (if in_region (p + 1) (of_nat (length bs)) x then bs ! unat (x - (p + 1))
       else (m(p := b)) x)"
    using Cons.prems by (intro Cons.IH) simp
  show ?case
  proof (cases "x = p")
    case True
    then show ?thesis using IH n by (simp add: word_neq_0_conv)
  next
    case False
    then have "x - p \<noteq> 0" by simp
    then have "unat (x - p) = Suc (unat (x - (p + 1)))" by unat_arith
    moreover have "in_region p (of_nat (length (b # bs))) x \<longleftrightarrow>
        x = p \<or> in_region (p + 1) (of_nat (length bs)) x"
      using in_region_step [OF n, of p x] n1 by simp
    ultimately show ?thesis using IH False by simp
  qed
qed simp

lemma put_bytes_out:
  "length bs < 2 ^ 32 \<Longrightarrow> \<not> in_region p (of_nat (length bs)) x \<Longrightarrow> put_bytes p bs m x = m x"
  by (simp add: put_bytes_apply)

lemma put_bytes_nth:
  "length bs < 2 ^ 32 \<Longrightarrow> i < length bs \<Longrightarrow> put_bytes p bs m (p + of_nat i) = bs ! i"
  by (simp add: put_bytes_apply in_region_of_nat)

lemma bytes_at_put_bytes:
  "length bs < 2 ^ 32 \<Longrightarrow> bytes_at (put_bytes p bs m) p (length bs) = bs"
  by (rule nth_equalityI) (simp_all add: put_bytes_nth)

lemma in_region_offset:
  assumes "i < 2 ^ 32" and "p + k < 2 ^ 32"
  shows "in_region (e + of_nat p) (of_nat k) (e + of_nat i) \<longleftrightarrow> p \<le> i \<and> i < p + k"
proof -
  have u: "unat (of_nat i :: u32) = i" "unat (of_nat p :: u32) = p" "unat (of_nat k :: u32) = k"
    using assms by simp_all
  have "e + of_nat i - (e + of_nat p) = (of_nat i - of_nat p :: u32)" by simp
  then show ?thesis
    using assms by (auto simp: in_region_def word_less_nat_alt unat_sub_if' u)
qed

lemma bytes_at_put_within:
  assumes "p + length bs \<le> n" and "n < 2 ^ 32"
  shows "bytes_at (put_bytes (e + of_nat p) bs m) e n =
    take p (bytes_at m e n) @ bs @ drop (p + length bs) (bytes_at m e n)"
proof (rule nth_equalityI)
  fix i assume "i < length (bytes_at (put_bytes (e + of_nat p) bs m) e n)"
  then have i: "i < n" by simp
  have reg: "in_region (e + of_nat p) (of_nat (length bs)) (e + of_nat i) \<longleftrightarrow>
      p \<le> i \<and> i < p + length bs"
    by (rule in_region_offset) (use assms i in simp_all)
  have off: "unat (of_nat i - of_nat p :: u32) = i - p" if "p \<le> i"
    using that i assms by (simp add: unat_sub_if')
  show "bytes_at (put_bytes (e + of_nat p) bs m) e n ! i =
      (take p (bytes_at m e n) @ bs @ drop (p + length bs) (bytes_at m e n)) ! i"
    using i assms by (auto simp: put_bytes_apply reg off nth_append min_def)
qed (use assms in simp)

lemma put_bytes_same: "put_bytes p (bytes_at m p n) m = m"
proof (induction n arbitrary: p)
  case (Suc n)
  then show ?case by (simp add: bytes_at_Suc)
qed simp

lemma put_bytes_bytes_at_eq:
  "length bs = n \<Longrightarrow> n < 2 ^ 32 \<Longrightarrow> bytes_at m p n = cs \<Longrightarrow> put_bytes p cs (put_bytes p bs m) = m"
  by (rule ext) (auto simp: put_bytes_apply in_region_def word_less_nat_alt)

section \<open>Tables of words\<close>

lemma in_region_table:
  assumes "i < n" and "n \<le> 2 ^ 30 - 1" and "in_region (p + 4 * of_nat i) 4 x"
  shows "in_region p (of_nat (4 * n)) x"
proof -
  have u: "unat (of_nat (4 * i) :: u32) = 4 * i" "unat (of_nat (4 * n) :: u32) = 4 * n"
    using assms(1,2) by (intro unat_of_nat_u32; simp)+
  define d where "d = x - (p + 4 * of_nat i)"
  have x: "x - p = d + of_nat (4 * i)" by (simp add: d_def)
  have "unat d < 4" using assms(3) by (simp add: in_region_def word_less_nat_alt d_def)
  then have "unat (x - p) < 4 * i + 4"
    unfolding x using assms(1,2) u by (simp add: unat_word_ariths del: of_nat_mult)
  then show ?thesis
    using assms(1) by (simp add: in_region_def word_less_nat_alt u del: of_nat_mult)
qed

lemma words_apart:
  assumes "i \<noteq> j" and "i < 2 ^ 30" and "j < 2 ^ 30"
  shows "apart (p + 4 * of_nat i) 4 (p + 4 * of_nat j) 4"
proof -
  have u: "unat (of_nat (4 * i) :: u32) = 4 * i" "unat (of_nat (4 * j) :: u32) = 4 * j"
    using assms(2,3) by (intro unat_of_nat_u32; simp)+
  have "p + 4 * of_nat j - (p + 4 * of_nat i) = (of_nat (4 * j) - of_nat (4 * i) :: u32)"
    and "p + 4 * of_nat i - (p + 4 * of_nat j) = (of_nat (4 * i) - of_nat (4 * j) :: u32)" by simp_all
  then show ?thesis
    using assms by (auto simp: apart_def word_le_nat_alt unat_sub_if' u simp del: of_nat_mult)
qed

text \<open>A loop that fills a table of words.\<close>

definition fill_words :: "ptr \<Rightarrow> (nat \<Rightarrow> u32) \<Rightarrow> nat \<Rightarrow> mem \<Rightarrow> mem" where
  "fill_words p f n = fold (\<lambda>b m. store32 m (p + 4 * of_nat b) (f b)) [0..<n]"

lemma fill_words_Suc:
  "fill_words p f (Suc n) m = store32 (fill_words p f n m) (p + 4 * of_nat n) (f n)"
  by (simp add: fill_words_def)

lemma load32_fill_words:
  "n \<le> 2 ^ 30 \<Longrightarrow> i < 2 ^ 30 \<Longrightarrow>
   load32 (fill_words p f n m) (p + 4 * of_nat i) =
     (if i < n then f i else load32 m (p + 4 * of_nat i))"
proof (induction n)
  case 0
  then show ?case by (simp add: fill_words_def)
next
  case (Suc n)
  show ?case
  proof (cases "i = n")
    case False
    then have "apart (p + 4 * of_nat n) 4 (p + 4 * of_nat i) 4"
      using Suc.prems by (intro words_apart) auto
    then show ?thesis using Suc False by (simp add: fill_words_Suc load32_store32_apart)
  qed (simp add: fill_words_Suc)
qed

lemma fill_words_out:
  "n \<le> 2 ^ 30 - 1 \<Longrightarrow> \<not> in_region p (of_nat (4 * n)) x \<Longrightarrow> fill_words p f n m x = m x"
proof -
  assume n: "n \<le> 2 ^ 30 - 1" and out: "\<not> in_region p (of_nat (4 * n)) x"
  have "k \<le> n \<Longrightarrow> fill_words p f k m x = m x" for k
  proof (induction k)
    case (Suc k)
    then have "\<not> in_region (p + 4 * of_nat k) 4 x"
      using in_region_table [of k n p x] n out by auto
    with Suc show ?case by (simp add: fill_words_Suc store32_other)
  qed (simp add: fill_words_def)
  then show ?thesis by simp
qed

text \<open>A word inside a region.\<close>

definition word_in :: "ptr \<Rightarrow> u32 \<Rightarrow> ptr \<Rightarrow> bool" where
  "word_in p k a \<longleftrightarrow> (\<forall>x. in_region a 4 x \<longrightarrow> in_region p k x)"

lemma table_word: "i < 1024 \<Longrightarrow> word_in p 4096 (p + 4 * of_nat i)"
  using in_region_table [of i 1024 p] by (simp add: word_in_def)

lemma load32_word_in:
  "word_in p k a \<Longrightarrow> (\<And>x. in_region p k x \<Longrightarrow> m x = m' x) \<Longrightarrow> load32 m a = load32 m' a"
  by (rule load32_cong) (simp add: word_in_def)

lemma page_word: "word_in p 4096 p"
  using table_word [of 0 p] by simp

section \<open>Fields of a struct\<close>

text \<open>Two different word-aligned offsets from one base.\<close>

lemma offsets_apart:
  assumes "unat x mod 4 = 0" and "unat y mod 4 = 0" and "x \<noteq> y"
  shows "apart (p + x) 4 (p + y) 4"
proof -
  have ge: "4 \<le> b - a" if "unat a mod 4 = 0" "unat b mod 4 = 0" "a \<noteq> b" for a b :: u32
  proof -
    have "unat (b - a) mod 4 = 0"
    proof (cases "unat a \<le> unat b")
      case True
      then show ?thesis using that by (simp add: unat_sub_if' mod_eq_0_iff_dvd dvd_diff_nat)
    next
      case False
      have "4 dvd unat b + 2 ^ 32" using that by (intro dvd_add) (simp_all add: mod_eq_0_iff_dvd)
      then have "4 dvd unat b + 2 ^ 32 - unat a" using that by (intro dvd_diff_nat) (simp_all add: mod_eq_0_iff_dvd)
      then show ?thesis using False by (simp add: unat_sub_if' mod_eq_0_iff_dvd)
    qed
    moreover have "unat (b - a) \<noteq> 0" using that(3) by (simp add: unat_eq_0)
    ultimately show ?thesis by (cases "unat (b - a) < 4") (auto simp: word_le_nat_alt)
  qed
  show ?thesis using ge [OF assms] ge [OF assms(2,1)] assms(3) by (simp add: apart_def)
qed

text \<open>Storing a list of fields: each reads back, and the bytes outside the struct are kept.\<close>

definition store_fields :: "ptr \<Rightarrow> (u32 \<times> u32) list \<Rightarrow> mem \<Rightarrow> mem" where
  "store_fields p fs = fold (\<lambda>(f, v) m. store32 m (p + f) v) fs"

definition field_list :: "(u32 \<times> u32) list \<Rightarrow> bool" where
  "field_list fs \<longleftrightarrow> distinct (map fst fs) \<and> list_all (\<lambda>(f, v). unat f mod 4 = 0) fs"

lemma store_fields_simps [simp]:
  "store_fields p [] m = m"
  "store_fields p ((f, v) # fs) m = store_fields p fs (store32 m (p + f) v)"
  by (simp_all add: store_fields_def)

lemma load_store_fields_other:
  "field_list fs \<Longrightarrow> unat f mod 4 = 0 \<Longrightarrow> f \<notin> fst ` set fs \<Longrightarrow>
   load32 (store_fields p fs m) (p + f) = load32 m (p + f)"
proof (induction fs arbitrary: m)
  case (Cons g fs)
  then show ?case
    by (cases g) (auto simp: field_list_def load32_store32_apart offsets_apart)
qed simp

lemma load_store_fields:
  "field_list fs \<Longrightarrow> (f, v) \<in> set fs \<Longrightarrow> load32 (store_fields p fs m) (p + f) = v"
proof (induction fs arbitrary: m)
  case (Cons g fs)
  show ?case
  proof (cases "g = (f, v)")
    case True
    then have "load32 (store_fields p fs (store32 m (p + f) v)) (p + f) = load32 (store32 m (p + f) v) (p + f)"
      using Cons.prems(1) by (intro load_store_fields_other) (auto simp: field_list_def image_iff)
    then show ?thesis using True by simp
  next
    case False
    then show ?thesis using Cons by (cases g) (auto simp: field_list_def)
  qed
qed simp

lemma store_fields_out:
  "(\<And>f v. (f, v) \<in> set fs \<Longrightarrow> \<not> in_region (p + f) 4 x) \<Longrightarrow> store_fields p fs m x = m x"
proof (induction fs arbitrary: m)
  case (Cons g fs)
  have "store_fields p fs m' x = m' x" for m'
    by (rule Cons.IH) (use Cons.prems in auto)
  then show ?case using Cons.prems [of "fst g" "snd g"] by (cases g) (simp add: store32_other)
qed simp

text \<open>Fields with offsets below \<open>n\<close> lie in the first \<open>n\<close> bytes of a struct.\<close>

lemma field_in_struct:
  assumes "unat f + 4 \<le> unat n" and "in_region (p + f) 4 x"
  shows "in_region p n x"
proof -
  define d where "d = x - (p + f)"
  have x: "x - p = d + f" by (simp add: d_def)
  have d: "unat d < 4" using assms(2) by (simp add: in_region_def word_less_nat_alt d_def)
  have "unat f + 4 < 2 ^ 32" using assms(1) unat_range_u32 [of n] by linarith
  then have "unat (x - p) = unat d + unat f"
    unfolding x using d by (simp add: unat_word_ariths)
  then show ?thesis using assms(1) d by (simp add: in_region_def word_less_nat_alt)
qed

lemma store_fields_struct:
  "(\<And>f v. (f, v) \<in> set fs \<Longrightarrow> unat f + 4 \<le> unat n) \<Longrightarrow> \<not> in_region p n x \<Longrightarrow>
   store_fields p fs m x = m x"
  by (rule store_fields_out) (metis field_in_struct)

lemma load32_struct:
  "unat f + 4 \<le> unat n \<Longrightarrow> (\<And>x. in_region p n x \<Longrightarrow> m x = m' x) \<Longrightarrow>
   load32 m (p + f) = load32 m' (p + f)"
  by (rule load32_cong) (metis field_in_struct)

section \<open>memset\<close>

text \<open>\<open>for (int i = 0; i < size; i++) c_ptr[i] = (char)c;\<close>: \<open>size\<close> is a \<open>size_t\<close>, so
  the comparison is unsigned.\<close>

function memset_loop :: "ptr \<Rightarrow> u8 \<Rightarrow> u32 \<Rightarrow> i32 \<Rightarrow> mem \<Rightarrow> mem" where
  "memset_loop p c sz i m =
     (if i < sz then memset_loop p c sz (i + 1) (m(p + i := c)) else m)"
  by pat_completeness auto
termination
  by (relation "measure (\<lambda>(p, c, sz, i, m). unat sz - unat i)") (auto, unat_arith)

declare memset_loop.simps [simp del]

definition memset :: "ptr \<Rightarrow> i32 \<Rightarrow> u32 \<Rightarrow> mem \<Rightarrow> mem" where
  "memset p c sz m = memset_loop p (ucast c) sz 0 m"

lemma memset_loop_apply:
  "i \<le> sz \<Longrightarrow>
   memset_loop p c sz i m x = (if i \<le> x - p \<and> x - p < sz then c else m x)"
proof (induction p c sz i m rule: memset_loop.induct)
  case (1 p c sz i m)
  show ?case
  proof (cases "i < sz")
    case True
    then have "i + 1 \<le> sz" and split: "\<And>y. i \<le> y \<longleftrightarrow> y = i \<or> i + 1 \<le> y"
      by uint_arith+
    have "memset_loop p c sz i m x = memset_loop p c sz (i + 1) (m(p + i := c)) x"
      using True by (simp only: memset_loop.simps [of p c sz i m] if_True)
    also have "\<dots> = (if i + 1 \<le> x - p \<and> x - p < sz then c else (m(p + i := c)) x)"
      by (rule "1.IH" [OF True \<open>i + 1 \<le> sz\<close>])
    also have "\<dots> = (if i \<le> x - p \<and> x - p < sz then c else m x)"
      using True by (auto simp: split [of "x - p"] eq_diff_eq add.commute)
    finally show ?thesis .
  next
    case False
    with "1.prems" have "i = sz" by simp
    then show ?thesis by (subst memset_loop.simps) auto
  qed
qed

lemma memset_apply: "memset p c sz m x = (if in_region p sz x then ucast c else m x)"
  by (simp add: memset_def memset_loop_apply in_region_def)

lemma memset_in [simp]: "in_region p sz x \<Longrightarrow> memset p c sz m x = ucast c"
  and memset_out [simp]: "\<not> in_region p sz x \<Longrightarrow> memset p c sz m x = m x"
  by (simp_all add: memset_apply)

section \<open>memcmp\<close>

text \<open>\<open>count\<close> is a signed \<open>int\<close>, and \<open>char\<close> is signed: the result orders the first
  two different bytes as signed bytes.\<close>

function memcmp :: "mem \<Rightarrow> ptr \<Rightarrow> ptr \<Rightarrow> i32 \<Rightarrow> i32" where
  "memcmp m c1 c2 count =
     (if 0 <s count
      then (if m c1 \<noteq> m c2 then (if m c1 <s m c2 then - 1 else 1)
            else memcmp m (c1 + 1) (c2 + 1) (count - 1))
      else 0)"
  by pat_completeness auto

termination memcmp
  by (relation "measure (\<lambda>(m, c1, c2, count). nat (sint count))")
     (auto simp: sint_pred word_sless_alt)

declare memcmp.simps [simp del]

lemma memcmp_loop_iff:
  "memcmp m a b count = 0 \<longleftrightarrow>
     (\<forall>i < nat (sint count). m (a + of_nat i) = m (b + of_nat i))"
proof (induction m a b count rule: memcmp.induct)
  case (1 m a b count)
  show ?case
  proof (cases "0 <s count \<and> m a = m b")
    case True
    then have n: "nat (sint count) = Suc (nat (sint (count - 1)))"
      by (auto simp: sint_pred word_sless_alt)
    have "memcmp m a b count = memcmp m (a + 1) (b + 1) (count - 1)"
      using True by (subst memcmp.simps) simp
    then show ?thesis
      using "1.IH" True unfolding n All_less_Suc2 by (simp add: add.assoc)
  next
    case False
    then show ?thesis
      by (subst memcmp.simps) (auto simp: word_sless_alt intro: exI [of _ 0])
  qed
qed

section \<open>memcpy\<close>

text \<open>\<open>while (len--) *d++ = *s++;\<close>: the loop tests \<open>len\<close> against zero, so a negative
  length counts down through the whole 32-bit range.\<close>

function memcpy :: "ptr \<Rightarrow> ptr \<Rightarrow> i32 \<Rightarrow> mem \<Rightarrow> mem" where
  "memcpy d s len m =
     (if len = 0 then m else memcpy (d + 1) (s + 1) (len - 1) (m(d := m s)))"
  by pat_completeness auto
termination
  by (relation "measure (\<lambda>(d, s, len, m). unat len)") (auto, unat_arith)

declare memcpy.simps [simp del]

text \<open>The bytes are copied forwards, so the copy is exact when the destination does not
  start inside the source; an overlap from below is harmless.\<close>

lemma memcpy_apply:
  "d = s \<or> len \<le> d - s \<Longrightarrow>
   memcpy d s len m x = (if in_region d len x then m (s + (x - d)) else m x)"
proof (induction d s len m rule: memcpy.induct)
  case (1 d s len m)
  show ?case
  proof (cases "len = 0")
    case True
    then show ?thesis by (simp add: memcpy.simps)
  next
    case False
    have pre: "d + 1 = s + 1 \<or> len - 1 \<le> d + 1 - (s + 1)"
      using "1.prems" False by (auto, uint_arith)
    have step: "memcpy d s len m x = memcpy (d + 1) (s + 1) (len - 1) (m(d := m s)) x"
      using False by (simp only: memcpy.simps [of d s len m] if_False)
    also have "\<dots> = (if in_region (d + 1) (len - 1) x
        then (m(d := m s)) (s + 1 + (x - (d + 1))) else (m(d := m s)) x)"
      by (rule "1.IH" [OF False pre])
    also have "\<dots> = (if in_region d len x then m (s + (x - d)) else m x)"
    proof (cases "in_region (d + 1) (len - 1) x")
      case True
      then have "in_region d len x" using False by (simp add: in_region_step)
      moreover have "s + (x - d) = d \<Longrightarrow> d = s"
      proof -
        assume "s + (x - d) = d"
        then have "x - d = d - s" by (simp add: eq_diff_eq add.commute)
        with "1.prems" \<open>in_region d len x\<close> show "d = s"
          by (auto simp: in_region_def)
      qed
      ultimately show ?thesis using True by (auto simp: algebra_simps)
    next
      case False
      then show ?thesis using \<open>len \<noteq> 0\<close> by (auto simp: in_region_step)
    qed
    finally show ?thesis .
  qed
qed

end
