(* ===== verification/CString.thy ===== *)
theory CString
  imports Memory
begin

text \<open>
  \<open>src/string/string.c\<close>: the string routines over byte memory. A \<open>char\<close> is a signed
  byte. The routines without a length argument (\<open>strlen\<close>, \<open>strcpy\<close>) walk to a NUL
  byte and need not return, so their loops are partial functions with value \<open>None\<close> when
  the walk never ends; the bounded ones are total. \<open>cstr_at m p s\<close> says that the NUL
  terminated string \<open>s\<close> stands at address \<open>p\<close>: the lemmas state what each routine
  computes on such strings.
\<close>

section \<open>Strings in memory\<close>

fun cstr_at :: "mem \<Rightarrow> ptr \<Rightarrow> u8 list \<Rightarrow> bool" where
  "cstr_at m p [] \<longleftrightarrow> m p = 0"
| "cstr_at m p (c # cs) \<longleftrightarrow> c \<noteq> 0 \<and> m p = c \<and> cstr_at m (p + 1) cs"

lemma cstr_at_iff:
  "cstr_at m p s \<longleftrightarrow>
     (\<forall>i < length s. m (p + of_nat i) = s ! i \<and> s ! i \<noteq> 0) \<and> m (p + of_nat (length s)) = 0"
proof (induction s arbitrary: p)
  case (Cons c cs)
  show ?case
    unfolding cstr_at.simps Cons.IH length_Cons All_less_Suc2
    by (auto simp: add.assoc)
qed simp

lemma cstr_at_unique: "cstr_at m p s \<Longrightarrow> cstr_at m p t \<Longrightarrow> s = t"
proof (induction s arbitrary: p t)
  case Nil
  then show ?case by (cases t) auto
next
  case (Cons c cs)
  then show ?case by (cases t) auto
qed

lemma cstr_at_no_nul: "cstr_at m p s \<Longrightarrow> 0 \<notin> set s"
  by (induction s arbitrary: p) auto

lemma cstr_at_cong:
  "(\<And>i. i \<le> length s \<Longrightarrow> m (p + of_nat i) = m' (p + of_nat i)) \<Longrightarrow> cstr_at m p s = cstr_at m' p s"
  by (auto simp: cstr_at_iff)

lemma cstr_at_append:
  "cstr_at m p (s @ t) \<Longrightarrow> cstr_at m (p + of_nat (length s)) t"
  by (induction s arbitrary: p) (auto simp flip: add.assoc)

section \<open>Characters\<close>

definition tolower :: "u8 \<Rightarrow> u8" where
  "tolower s1 = (if 65 \<le>s s1 \<and> s1 \<le>s 90 then s1 + 32 else s1)"

definition isdigit :: "u8 \<Rightarrow> bool" where
  "isdigit c \<longleftrightarrow> 48 \<le>s c \<and> c \<le>s 57"

definition tonumericdigit :: "u8 \<Rightarrow> i32" where
  "tonumericdigit c = scast c - 48"

lemma isdigit_iff: "isdigit c \<longleftrightarrow> (\<exists>d < 10. c = 48 + of_nat d)"
proof
  assume "isdigit c"
  then have "48 \<le> sint c" "sint c \<le> 57" by (simp_all add: isdigit_def word_sle_eq)
  then have "c = 48 + of_nat (nat (sint c - 48))" and "nat (sint c - 48) < 10"
    by (auto simp: of_nat_nat)
  then show "\<exists>d < 10. c = 48 + of_nat d" by blast
next
  assume "\<exists>d < 10. c = 48 + of_nat d"
  then obtain d where "d < (10::nat)" and c: "c = 48 + of_nat d" by blast
  then have "d \<in> {0, 1, 2, 3, 4, 5, 6, 7, 8, 9}" by auto
  then show "isdigit c" by (auto simp: c isdigit_def)
qed

lemma tonumericdigit_digit: "d < 10 \<Longrightarrow> tonumericdigit (48 + of_nat d) = of_nat d"
proof -
  assume "d < 10"
  then have "d \<in> {0, 1, 2, 3, 4, 5, 6, 7, 8, 9}" by auto
  then show ?thesis by (auto simp: tonumericdigit_def)
qed

section \<open>Lengths\<close>

partial_function (option) strlen_loop :: "mem \<Rightarrow> ptr \<Rightarrow> i32 \<Rightarrow> i32 option" where
  "strlen_loop m p i = (if m p \<noteq> 0 then strlen_loop m (p + 1) (i + 1) else Some i)"

definition strlen :: "mem \<Rightarrow> ptr \<Rightarrow> i32 option" where
  "strlen m p = strlen_loop m p 0"

lemma strlen_loop_cstr: "cstr_at m p s \<Longrightarrow> strlen_loop m p i = Some (i + of_nat (length s))"
  by (induction s arbitrary: p i) (simp_all add: strlen_loop.simps add.assoc)

lemma strlen_cstr: "cstr_at m p s \<Longrightarrow> strlen m p = Some (of_nat (length s))"
  by (simp add: strlen_def strlen_loop_cstr)

function strnlen_loop :: "mem \<Rightarrow> ptr \<Rightarrow> i32 \<Rightarrow> i32 \<Rightarrow> i32" where
  "strnlen_loop m p lim i =
     (if i <s lim \<and> m (p + i) \<noteq> 0 then strnlen_loop m p lim (i + 1) else i)"
  by pat_completeness auto
termination
  by (relation "measure (\<lambda>(m, p, lim, i). nat (sint lim - sint i))")
     (auto simp: sint_succ word_sless_alt)

declare strnlen_loop.simps [simp del]

definition strnlen :: "mem \<Rightarrow> ptr \<Rightarrow> i32 \<Rightarrow> i32" where
  "strnlen m p lim = strnlen_loop m p lim 0"

function strnlen_terminator_loop :: "mem \<Rightarrow> ptr \<Rightarrow> i32 \<Rightarrow> u8 \<Rightarrow> i32 \<Rightarrow> i32" where
  "strnlen_terminator_loop m str lim terminator i =
     (if i <s lim \<and> \<not> (m (str + i) = 0 \<or> m (str + i) = terminator)
      then strnlen_terminator_loop m str lim terminator (i + 1) else i)"
  by pat_completeness auto
termination
  by (relation "measure (\<lambda>(m, str, lim, terminator, i). nat (sint lim - sint i))")
     (auto simp: sint_succ word_sless_alt)

declare strnlen_terminator_loop.simps [simp del]

definition strnlen_terminator :: "mem \<Rightarrow> ptr \<Rightarrow> i32 \<Rightarrow> u8 \<Rightarrow> i32" where
  "strnlen_terminator m str lim terminator = strnlen_terminator_loop m str lim terminator 0"

lemma strnlen_eq_terminator: "strnlen m p lim = strnlen_terminator m p lim 0"
proof -
  have "strnlen_loop m p lim i = strnlen_terminator_loop m p lim 0 i" for i
  proof (induction m p lim i rule: strnlen_loop.induct)
    case (1 m p lim i)
    then show ?case
      by (subst strnlen_loop.simps, subst strnlen_terminator_loop.simps) simp
  qed
  then show ?thesis by (simp add: strnlen_def strnlen_terminator_def)
qed

lemma strnlen_terminator_loop_eq:
  "0 \<le>s i \<Longrightarrow> i \<le>s lim \<Longrightarrow>
   strnlen_terminator_loop m str lim t i =
     i + of_nat (length (takeWhile (\<lambda>c. c \<noteq> 0 \<and> c \<noteq> t)
           (bytes_at m (str + i) (nat (sint lim - sint i)))))"
proof (induction m str lim t i rule: strnlen_terminator_loop.induct)
  case (1 m str lim t i)
  show ?case
  proof (cases "i <s lim \<and> \<not> (m (str + i) = 0 \<or> m (str + i) = t)")
    case True
    then have si: "sint (i + 1) = sint i + 1" using sint_succ [of i lim] by simp
    then have n: "nat (sint lim - sint i) = Suc (nat (sint lim - sint (i + 1)))"
    proof -
      have "sint i < sint lim" using True by (simp add: word_sless_alt)
      then show ?thesis using si by arith
    qed
    have "0 \<le>s i + 1" "i + 1 \<le>s lim"
      using "1.prems" True si by (simp_all add: word_sle_eq word_sless_alt)
    from "1.IH" [OF True this] True show ?thesis
      by (subst strnlen_terminator_loop.simps) (simp add: n bytes_at_Suc add.assoc)
  next
    case False
    have "takeWhile (\<lambda>c. c \<noteq> 0 \<and> c \<noteq> t) (bytes_at m (str + i) (nat (sint lim - sint i))) = []"
    proof (cases "i <s lim")
      case True
      then have "0 < nat (sint lim - sint i)" by (simp add: word_sless_alt)
      then obtain k where "nat (sint lim - sint i) = Suc k" by (auto simp: gr0_conv_Suc)
      with True False show ?thesis by (auto simp: bytes_at_Suc)
    next
      case False
      then show ?thesis using "1.prems" by (simp add: word_sless_alt word_sle_eq)
    qed
    moreover have "strnlen_terminator_loop m str lim t i = i"
      using False by (subst strnlen_terminator_loop.simps) (simp only: if_False)
    ultimately show ?thesis by simp
  qed
qed

lemma strnlen_terminator_eq:
  "0 \<le>s lim \<Longrightarrow> strnlen_terminator m str lim t =
     of_nat (length (takeWhile (\<lambda>c. c \<noteq> 0 \<and> c \<noteq> t) (bytes_at m str (nat (sint lim)))))"
  by (simp add: strnlen_terminator_def strnlen_terminator_loop_eq)

lemma bytes_at_cstr:
  "cstr_at m p s \<Longrightarrow> n \<le> length s \<Longrightarrow> bytes_at m p n = take n s"
  by (rule nth_equalityI) (auto simp: cstr_at_iff)

lemma takeWhile_bytes_at_cstr:
  "cstr_at m p s \<Longrightarrow> length s < n \<Longrightarrow> takeWhile (\<lambda>c. c \<noteq> 0) (bytes_at m p n) = s"
proof (induction s arbitrary: p n)
  case Nil
  then show ?case by (cases n) (auto simp: bytes_at_Suc)
next
  case (Cons c cs)
  then show ?case by (cases n) (auto simp: bytes_at_Suc)
qed

lemma strnlen_cstr:
  assumes "cstr_at m p s" and "0 \<le>s lim"
  shows "strnlen m p lim = of_nat (min (length s) (nat (sint lim)))"
proof (cases "length s < nat (sint lim)")
  case True
  with assms show ?thesis
    by (simp add: strnlen_eq_terminator strnlen_terminator_eq takeWhile_bytes_at_cstr)
next
  case False
  then have b: "bytes_at m p (nat (sint lim)) = take (nat (sint lim)) s"
    using assms by (simp add: bytes_at_cstr)
  have nul: "takeWhile (\<lambda>c. c \<noteq> 0) (take (nat (sint lim)) s) = take (nat (sint lim)) s"
    using cstr_at_no_nul [OF assms(1)]
    by (metis (mono_tags, lifting) in_set_takeD takeWhile_eq_all_conv)
  have "min (length s) (nat (sint lim)) = length (take (nat (sint lim)) s)"
    using False by simp
  then show ?thesis
    using assms(2) by (simp only: strnlen_eq_terminator strnlen_terminator_eq b nul conj_absorb)
qed

section \<open>Comparison\<close>

text \<open>\<open>u1\<close> and \<open>u2\<close> are unsigned, \<open>tolower\<close> compares them as signed bytes.\<close>

function strncmp :: "mem \<Rightarrow> ptr \<Rightarrow> ptr \<Rightarrow> i32 \<Rightarrow> i32" where
  "strncmp m str1 str2 n =
     (if 0 <s n
      then (if m str1 \<noteq> m str2 then ucast (m str1) - ucast (m str2)
            else if m str1 = 0 then 0
            else strncmp m (str1 + 1) (str2 + 1) (n - 1))
      else 0)"
  by pat_completeness auto
termination
  by (relation "measure (\<lambda>(m, str1, str2, n). nat (sint n))")
     (auto simp: sint_pred word_sless_alt)

declare strncmp.simps [simp del]

function istrncmp :: "mem \<Rightarrow> ptr \<Rightarrow> ptr \<Rightarrow> i32 \<Rightarrow> i32" where
  "istrncmp m s1 s2 n =
     (if 0 <s n
      then (if m s1 \<noteq> m s2 \<and> tolower (m s1) \<noteq> tolower (m s2)
            then ucast (m s1) - ucast (m s2)
            else if m s1 = 0 then 0
            else istrncmp m (s1 + 1) (s2 + 1) (n - 1))
      else 0)"
  by pat_completeness auto
termination
  by (relation "measure (\<lambda>(m, s1, s2, n). nat (sint n))")
     (auto simp: sint_pred word_sless_alt)

declare istrncmp.simps [simp del]

lemma ucast_u8_inj [simp]: "(ucast (a :: u8) :: i32) = ucast b \<longleftrightarrow> a = b"
proof
  assume "(ucast a :: i32) = ucast b"
  then have "(ucast (ucast a :: i32) :: u8) = ucast (ucast b :: i32)" by simp
  then show "a = b" by (simp add: ucast_up_ucast_id is_up)
qed simp

lemma ucast_u8_eq_0 [simp]: "(ucast (a :: u8) :: i32) = 0 \<longleftrightarrow> a = 0"
  using ucast_u8_inj [of a 0] by (simp del: ucast_u8_inj)

lemma tolower_eq_0 [simp]: "tolower c = 0 \<longleftrightarrow> c = 0"
proof
  assume "tolower c = 0"
  show "c = 0"
  proof (cases "65 \<le>s c \<and> c \<le>s 90")
    case True
    with \<open>tolower c = 0\<close> have "c = - 32"
      by (simp add: tolower_def eq_neg_iff_add_eq_0)
    with True show ?thesis by simp
  next
    case False
    with \<open>tolower c = 0\<close> show ?thesis by (auto simp: tolower_def)
  qed
qed (simp add: tolower_def word_sle_eq)

lemma tolower_eq_tolower_0 [simp]:
  "tolower c = tolower 0 \<longleftrightarrow> c = 0" "tolower 0 = tolower c \<longleftrightarrow> c = 0"
  by (metis tolower_eq_0)+

lemma nat_sint_cases:
  fixes n :: i32
  obtains "\<not> 0 <s n" "nat (sint n) = 0"
  | k where "0 <s n" "nat (sint n) = Suc k" "nat (sint (n - 1)) = k"
proof (cases "0 <s n")
  case True
  then have "0 < sint n" by (simp add: word_sless_alt)
  then have "nat (sint n) = Suc (nat (sint (n - 1)))"
    using sint_pred [OF True] by arith
  with True show ?thesis by (rule that(2)) simp
next
  case False
  then show ?thesis by (intro that(1)) (simp_all add: word_sless_alt)
qed

lemma strncmp_cstr:
  "cstr_at m p s \<Longrightarrow> cstr_at m q t \<Longrightarrow>
   strncmp m p q n = 0 \<longleftrightarrow> take (nat (sint n)) s = take (nat (sint n)) t"
proof (induction m p q n arbitrary: s t rule: strncmp.induct)
  case (1 m p q n)
  show ?case
  proof (cases n rule: nat_sint_cases)
    case 1
    then show ?thesis by (subst strncmp.simps) simp
  next
    case (2 k)
    with "1.prems" show ?thesis
      by (cases s; cases t; subst strncmp.simps) (auto simp: "1.IH")
  qed
qed

lemma istrncmp_cstr:
  "cstr_at m p s \<Longrightarrow> cstr_at m q t \<Longrightarrow>
   istrncmp m p q n = 0 \<longleftrightarrow>
     take (nat (sint n)) (map tolower s) = take (nat (sint n)) (map tolower t)"
proof (induction m p q n arbitrary: s t rule: istrncmp.induct)
  case (1 m p q n)
  show ?case
  proof (cases n rule: nat_sint_cases)
    case 1
    then show ?thesis by (subst istrncmp.simps) simp
  next
    case (2 k)
    with "1.prems" show ?thesis
      by (cases s; cases t; subst istrncmp.simps) (auto simp: "1.IH")
  qed
qed

section \<open>Copying\<close>

text \<open>\<open>strncpy\<close> copies at most \<open>count - 1\<close> characters and always terminates the
  destination, also when \<open>count\<close> is zero.\<close>

function strncpy_loop :: "ptr \<Rightarrow> ptr \<Rightarrow> i32 \<Rightarrow> i32 \<Rightarrow> mem \<Rightarrow> i32 \<times> mem" where
  "strncpy_loop dest src count i m =
     (if i <s count - 1 \<and> m (src + i) \<noteq> 0
      then strncpy_loop dest src count (i + 1) (m(dest + i := m (src + i)))
      else (i, m))"
  by pat_completeness auto
termination
  by (relation "measure (\<lambda>(dest, src, count, i, m). nat (sint (count - 1) - sint i))")
     (auto simp: sint_succ word_sless_alt)

declare strncpy_loop.simps [simp del]

definition strncpy :: "ptr \<Rightarrow> ptr \<Rightarrow> i32 \<Rightarrow> mem \<Rightarrow> mem" where
  "strncpy dest src count m = (case strncpy_loop dest src count 0 m of (i, m') \<Rightarrow> m'(dest + i := 0))"

partial_function (option) strcpy :: "ptr \<Rightarrow> ptr \<Rightarrow> mem \<Rightarrow> mem option" where
  "strcpy dest src m =
     (if m src \<noteq> 0 then strcpy (dest + 1) (src + 1) (m(dest := m src))
      else Some (m(dest := 0)))"

text \<open>Both copies write the prefix of the source string and a NUL, byte by byte, when the
  destination does not run into the part of the source still to be read.\<close>

lemma fun_upd_cstr_at:
  assumes "cstr_at m q s" and "\<not> in_region q (of_nat (Suc (length s))) d"
    and "length s < 2 ^ 31"
  shows "cstr_at (m(d := c)) q s"
proof (rule cstr_at_cong [THEN iffD1, OF _ assms(1)])
  fix i assume "i \<le> length s"
  then have "i < 2 ^ 32" and "i < unat (of_nat (Suc (length s)) :: u32)"
    using assms(3) by (simp_all del: of_nat_Suc)
  then have "in_region q (of_nat (Suc (length s))) (q + of_nat i)"
    by (simp add: in_region_of_nat)
  with assms(2) show "m (q + of_nat i) = (m(d := c)) (q + of_nat i)"
    by (auto simp del: of_nat_Suc)
qed

lemma apart_of_nat_not_in:
  assumes "apart d (of_nat (Suc k)) a n" and "j \<le> k" and "k < 2 ^ 31"
  shows "\<not> in_region a n (d + of_nat j)"
proof (rule apart_not_in2 [OF assms(1)])
  show "in_region d (of_nat (Suc k)) (d + of_nat j)"
    using assms(2,3) by (simp add: in_region_of_nat del: of_nat_Suc)
qed

lemma sint_of_nat_u32: "n < 2 ^ 31 \<Longrightarrow> sint (of_nat n :: i32) = int n"
  by (simp add: signed_of_nat signed_take_bit_int_eq_self)

lemma strncpy_loop_cstr:
  "\<lbrakk> i = of_nat j; j \<le> k; cstr_at m src s; length s < 2 ^ 31;
     k = min (nat (sint (count - 1))) (length s);
     apart dest (of_nat (Suc k)) src (of_nat (Suc (length s))) \<rbrakk> \<Longrightarrow>
   strncpy_loop dest src count i m = (of_nat k, put_bytes (dest + i) (drop j (take k s)) m)"
proof (induction dest src count i m arbitrary: j rule: strncpy_loop.induct)
  case (1 dest src count i m)
  have k: "k < 2 ^ 31" and j: "sint i = int j"
    using "1.prems" by (simp_all add: sint_of_nat_u32)
  have more: "m (src + i) \<noteq> 0 \<longleftrightarrow> j < length s"
  proof (cases "j = length s")
    case True
    then show ?thesis using "1.prems"(1,3) by (simp add: cstr_at_iff)
  next
    case False
    then have "j < length s" using "1.prems"(2,5) by simp
    then show ?thesis using "1.prems"(1,3) by (simp add: cstr_at_iff)
  qed
  have guard: "i <s count - 1 \<and> m (src + i) \<noteq> 0 \<longleftrightarrow> j < k"
    unfolding more word_sless_alt j using "1.prems" by (auto simp: zless_nat_eq_int_zless)
  show ?case
  proof (cases "j < k")
    case True
    let ?m = "m(dest + i := m (src + i))"
    have "\<not> in_region src (of_nat (Suc (length s))) (dest + i)"
      unfolding "1.prems"(1) by (rule apart_of_nat_not_in [OF "1.prems"(6) _ k]) (use True in simp)
    then have src': "cstr_at ?m src s"
      by (intro fun_upd_cstr_at "1.prems")
    have "strncpy_loop dest src count i m = strncpy_loop dest src count (i + 1) ?m"
      using guard True by (subst strncpy_loop.simps) (simp only: simp_thms if_True)
    also have "\<dots> = (of_nat k, put_bytes (dest + (i + 1)) (drop (Suc j) (take k s)) ?m)"
      by (rule "1.IH" [OF guard [THEN iffD2, OF True] _ _ src'])
         (use True "1.prems" in simp_all)
    also have "put_bytes (dest + (i + 1)) (drop (Suc j) (take k s)) ?m =
        put_bytes (dest + i) (drop j (take k s)) m"
    proof -
      have "drop j (take k s) = s ! j # drop (Suc j) (take k s)"
        using True "1.prems"(5) by (simp flip: Cons_nth_drop_Suc)
      moreover have "m (src + i) = s ! j"
        using True "1.prems"(1,3,5) by (simp add: cstr_at_iff)
      ultimately show ?thesis by (simp add: add.assoc)
    qed
    finally show ?thesis .
  next
    case False
    with "1.prems"(1,2) have "j = k" "i = of_nat k" by auto
    have "strncpy_loop dest src count i m = (i, m)"
      using guard False by (subst strncpy_loop.simps) (simp only: simp_thms if_False)
    then show ?thesis using \<open>j = k\<close> \<open>i = of_nat k\<close> by simp
  qed
qed

lemma strncpy_cstr:
  assumes "cstr_at m src s" and "length s < 2 ^ 31"
    and "k = min (nat (sint (count - 1))) (length s)"
    and "apart dest (of_nat (Suc k)) src (of_nat (Suc (length s)))"
  shows "strncpy dest src count m = put_bytes dest (take k s @ [0]) m"
proof -
  have "strncpy_loop dest src count 0 m = (of_nat k, put_bytes dest (take k s) m)"
    using strncpy_loop_cstr [of 0 0 k m src s count dest] assms by simp
  moreover have "length (take k s) = k" using assms(3) by simp
  ultimately show ?thesis by (simp add: strncpy_def put_bytes_append)
qed

lemma strcpy_cstr:
  "\<lbrakk> cstr_at m src s; length s < 2 ^ 30;
     apart dest (of_nat (Suc (length s))) src (of_nat (Suc (length s))) \<rbrakk> \<Longrightarrow>
   strcpy dest src m = Some (put_bytes dest (s @ [0]) m)"
proof (induction s arbitrary: dest src m)
  case Nil
  then show ?case by (subst strcpy.simps) simp
next
  case (Cons c cs)
  let ?m = "m(dest := m src)"
  have len: "Suc (length (c # cs)) < 2 ^ 31" using Cons.prems by simp
  have "\<not> in_region src (of_nat (Suc (length (c # cs)))) (dest + of_nat 0)"
    by (rule apart_of_nat_not_in [OF Cons.prems(3)]) (use Cons.prems in simp_all)
  then have "cstr_at ?m src (c # cs)"
    using Cons.prems by (intro fun_upd_cstr_at) simp_all
  then have src': "cstr_at ?m (src + 1) cs" by (simp only: cstr_at.simps)
  have away: "apart (dest + 1) (of_nat (Suc (length cs))) (src + 1) (of_nat (Suc (length cs)))"
  proof -
    have "(of_nat (Suc (length cs)) :: u32) \<le> of_nat (Suc (length (c # cs)))"
      using len by (simp add: word_le_nat_alt del: of_nat_Suc)
    with Cons.prems(3) show ?thesis unfolding apart_def by (auto simp del: of_nat_Suc)
  qed
  have "strcpy (dest + 1) (src + 1) ?m = Some (put_bytes (dest + 1) (cs @ [0]) ?m)"
    by (rule Cons.IH [OF src' _ away]) (use Cons.prems(2) in simp)
  then show ?case using Cons.prems(1) by (subst strcpy.simps) simp
qed

end
