(* ===== verification/Terminal.thy ===== *)
theory Terminal
  imports CString
begin

text \<open>
  The text console of \<open>src/kernel.c\<close>: the VGA framebuffer at \<open>video_mem\<close>, one 16-bit
  cell per character, and the cursor in the globals \<open>term_row\<close> and \<open>term_col\<close>. The
  globals are fields of the record \<open>terminal\<close>, which extends the machine's memory; every
  later component extends it further, so the operations are polymorphic in the rest of the
  kernel state.
\<close>

record machine =
  phys :: mem

record terminal = machine +
  video_mem :: ptr
  term_row :: u16
  term_col :: u16

definition vga_width :: nat where "vga_width = 80"
definition vga_height :: nat where "vga_height = 25"

section \<open>Operations\<close>

text \<open>\<open>(color << 8) | c\<close> on two signed \<open>char\<close>s, computed as \<open>int\<close> and cut to 16 bits.\<close>

definition term_make_char :: "u8 \<Rightarrow> u8 \<Rightarrow> u16" where
  "term_make_char c color = ucast (push_bit 8 (scast color :: i32) OR scast c)"

definition term_putchar :: "i32 \<Rightarrow> i32 \<Rightarrow> u8 \<Rightarrow> u8 \<Rightarrow> 'a terminal_scheme \<Rightarrow> 'a terminal_scheme" where
  "term_putchar x y c color s =
     s\<lparr>phys := store16 (phys s) (video_mem s + 2 * (y * of_nat vga_width + x))
                 (term_make_char c color)\<rparr>"

definition term_initialize :: "'a terminal_scheme \<Rightarrow> 'a terminal_scheme" where
  "term_initialize s =
     fold (\<lambda>y. fold (\<lambda>x. term_putchar (of_nat x) (of_nat y) 0x20 0) [0..<vga_width])
       [0..<vga_height]
       (s\<lparr>term_row := 0, term_col := 0, video_mem := 0xB8000\<rparr>)"

definition term_writechar :: "u8 \<Rightarrow> u8 \<Rightarrow> 'a terminal_scheme \<Rightarrow> 'a terminal_scheme" where
  "term_writechar c color s =
     (if c = 10 then s\<lparr>term_row := term_row s + 1, term_col := 0\<rparr>
      else
        let s1 = term_putchar (ucast (term_col s)) (ucast (term_row s)) c color s;
            s2 = s1\<lparr>term_col := term_col s1 + 1\<rparr>
        in if of_nat vga_width \<le> term_col s2
           then s2\<lparr>term_col := 0, term_row := term_row s2 + 1\<rparr>
           else s2)"

function print_loop :: "ptr \<Rightarrow> u32 \<Rightarrow> i32 \<Rightarrow> 'a terminal_scheme \<Rightarrow> 'a terminal_scheme" where
  "print_loop str len i s =
     (if i < len then print_loop str len (i + 1) (term_writechar (phys s (str + i)) 15 s)
      else s)"
  by pat_completeness auto
termination
  by (relation "measure (\<lambda>(str, len, i, s). unat len - unat i)") (auto, unat_arith)

declare print_loop.simps [simp del]

definition print :: "ptr \<Rightarrow> 'a terminal_scheme \<Rightarrow> 'a terminal_scheme option" where
  "print str s = (case strlen (phys s) str of None \<Rightarrow> None | Some len \<Rightarrow> Some (print_loop str len 0 s))"

text \<open>\<open>print\<close> of a string constant of the kernel image: the loop over its characters.\<close>

definition write_bytes :: "u8 list \<Rightarrow> 'a terminal_scheme \<Rightarrow> 'a terminal_scheme" where
  "write_bytes t = fold (\<lambda>c. term_writechar c 15) t"

definition print_literal :: "string \<Rightarrow> 'a terminal_scheme \<Rightarrow> 'a terminal_scheme" where
  "print_literal str = write_bytes (map of_char str)"

text \<open>\<open>panic\<close> prints its message and then loops forever: it never returns a state.\<close>

definition panic :: "string \<Rightarrow> 'a terminal_scheme \<Rightarrow> halt + 'a terminal_scheme" where
  "panic msg s = Inl (Panic msg)"

lemma write_bytes_simps [simp]:
  "write_bytes [] s = s"
  "write_bytes (c # t) s = write_bytes t (term_writechar c 15 s)"
  by (simp_all add: write_bytes_def)

section \<open>Characters\<close>

lemma bit_scast_u8: "bit (scast (c :: u8) :: i32) n \<longleftrightarrow> n < 32 \<and> bit c (min n 7)"
  by (auto simp add: bit_simps min_def)

lemma term_make_char_low: "ucast (term_make_char c color) = c"
proof (rule bit_word_eqI)
  fix n assume "n < LENGTH(8)"
  then have "n < 7 \<or> n = 7" by auto
  then show "bit (ucast (term_make_char c color) :: u8) n = bit c n"
    by (auto simp add: term_make_char_def bit_simps bit_scast_u8 min_def)
qed

text \<open>The attribute byte is the colour only for a character below 128: a negative \<open>char\<close>
  sets every bit of it.\<close>

lemma term_make_char_high:
  "ucast (drop_bit 8 (term_make_char c color)) = (if bit c 7 then - 1 else color)"
proof (rule bit_word_eqI)
  fix n assume "n < LENGTH(8)"
  then have "n < 7 \<or> n = 7" by auto
  then show "bit (ucast (drop_bit 8 (term_make_char c color)) :: u8) n =
      bit (if bit c 7 then - 1 else color) n"
    by (auto simp add: term_make_char_def bit_simps bit_scast_u8 min_def)
qed

section \<open>The cursor\<close>

text \<open>The cursor as a position in the framebuffer, and the cells of the framebuffer.\<close>

definition cursor :: "'a terminal_scheme \<Rightarrow> nat" where
  "cursor s = unat (term_row s) * vga_width + unat (term_col s)"

definition cell_addr :: "'a terminal_scheme \<Rightarrow> nat \<Rightarrow> ptr" where
  "cell_addr s k = video_mem s + of_nat (2 * k)"

definition cell :: "'a terminal_scheme \<Rightarrow> nat \<Rightarrow> u16" where
  "cell s k = load16 (phys s) (cell_addr s k)"

lemma putchar_cursor:
  "term_putchar (ucast (term_col s)) (ucast (term_row s)) c color s =
     s\<lparr>phys := store16 (phys s) (cell_addr s (cursor s)) (term_make_char c color)\<rparr>"
  by (simp add: term_putchar_def cell_addr_def cursor_def vga_width_def)

text \<open>A character advances the cursor by one cell and writes exactly the cell it leaves; a
  newline moves it to the start of the next row.\<close>

lemma writechar_col:
  "unat (term_col s) < vga_width \<Longrightarrow> unat (term_col (term_writechar c color s)) < vga_width"
  by (auto simp: term_writechar_def term_putchar_def vga_width_def Let_def word_le_nat_alt)

lemma writechar_video_mem [simp]: "video_mem (term_writechar c color s) = video_mem s"
  by (simp add: term_writechar_def term_putchar_def Let_def)

lemma writechar_newline: "term_writechar 10 color s = s\<lparr>term_row := term_row s + 1, term_col := 0\<rparr>"
  by (simp add: term_writechar_def)

lemma writechar_phys:
  "c \<noteq> 10 \<Longrightarrow> phys (term_writechar c color s) =
     store16 (phys s) (cell_addr s (cursor s)) (term_make_char c color)"
  by (simp add: term_writechar_def putchar_cursor Let_def)

lemma writechar_cursor:
  assumes "c \<noteq> 10" and "unat (term_col s) < vga_width" and "unat (term_row s) < 2 ^ 16 - 1"
  shows "cursor (term_writechar c color s) = Suc (cursor s)"
proof -
  have col: "unat (term_col s + 1) = Suc (unat (term_col s))"
    using assms(2) by (simp add: vga_width_def unat_word_ariths)
  have row: "unat (term_row s + 1) = Suc (unat (term_row s))"
    using assms(3) by (simp add: unat_word_ariths)
  show ?thesis
    using assms(1,2) 
    by (auto simp: term_writechar_def putchar_cursor Let_def cursor_def col row vga_width_def
        word_le_nat_alt)
qed

section \<open>Printing a string\<close>

definition fb_cells :: nat where
  "fb_cells = vga_width * vga_height"

definition in_framebuffer :: "'a terminal_scheme \<Rightarrow> ptr \<Rightarrow> bool" where
  "in_framebuffer s x \<longleftrightarrow> in_region (video_mem s) (of_nat (2 * fb_cells)) x"

lemma fb_cells [simp]: "fb_cells = 2000"
  by (simp add: fb_cells_def vga_width_def vga_height_def)

lemma cells_apart:
  assumes "k \<noteq> l" and "k < 2 ^ 30" and "l < 2 ^ 30"
  shows "apart (cell_addr s k) 2 (cell_addr s l) 2"
proof -
  have "unat (of_nat (2 * k) :: u32) = 2 * k" "unat (of_nat (2 * l) :: u32) = 2 * l"
    using assms(2,3) by (intro unat_of_nat_u32; simp)+
  then show ?thesis
    using assms by (auto simp: apart_def cell_addr_def word_le_nat_alt unat_sub_if' simp del: of_nat_mult)
qed

lemma cell_writechar:
  assumes "c \<noteq> 10" and "cursor s < 2 ^ 30" and "k < 2 ^ 30"
  shows "cell (term_writechar c color s) k =
    (if k = cursor s then term_make_char c color else cell s k)"
proof (cases "k = cursor s")
  case True
  then show ?thesis
    using assms(1) by (simp add: cell_def writechar_phys cell_addr_def)
next
  case False
  then have "apart (cell_addr s (cursor s)) 2 (cell_addr s k) 2"
    using cells_apart [of "cursor s" k s] assms by simp
  then show ?thesis
    using assms(1) False by (simp add: cell_def writechar_phys load16_store16_apart cell_addr_def)
qed

lemma cell_in_framebuffer:
  assumes "k < fb_cells" and "in_region (cell_addr s k) 2 x"
  shows "in_framebuffer s x"
proof -
  have k: "unat (of_nat (2 * k) :: u32) = 2 * k"
    using assms(1) by (intro unat_of_nat_u32) simp
  define d where "d = x - cell_addr s k"
  have x: "x - video_mem s = d + of_nat (2 * k)"
    by (simp add: cell_addr_def d_def)
  have "unat d < 2"
    using assms(2) by (simp add: in_region_def word_less_nat_alt d_def)
  then have "unat (x - video_mem s) < 2 * k + 2"
    unfolding x using k assms(1) by (simp add: unat_word_ariths del: of_nat_mult)
  then show ?thesis
    using assms(1) by (simp add: in_framebuffer_def in_region_def word_less_nat_alt)
qed

lemma writechar_outside:
  assumes "c \<noteq> 10" and "cursor s < fb_cells" and "\<not> in_framebuffer s x"
  shows "phys (term_writechar c color s) x = phys s x"
proof -
  have "\<not> in_region (cell_addr s (cursor s)) 2 x"
    using assms(2,3) cell_in_framebuffer by blast
  then show ?thesis using assms(1) by (simp add: writechar_phys store16_other)
qed

lemma in_framebuffer_writechar [simp]:
  "in_framebuffer (term_writechar c color s) x = in_framebuffer s x"
  by (simp add: in_framebuffer_def)

text \<open>The string is printed as long as it stands outside the framebuffer, has no newline
  and ends before the framebuffer does.\<close>

definition fits :: "'a terminal_scheme \<Rightarrow> nat \<Rightarrow> bool" where
  "fits s n \<longleftrightarrow> unat (term_col s) < vga_width \<and> cursor s + n \<le> fb_cells"

lemma fits_Suc:
  assumes "fits s (Suc n)" and "c \<noteq> 10"
  shows "cursor (term_writechar c color s) = Suc (cursor s)"
    and "fits (term_writechar c color s) n"
proof -
  have "unat (term_row s) < 2 ^ 16 - 1"
    using assms(1) by (simp add: fits_def cursor_def vga_width_def)
  then show "cursor (term_writechar c color s) = Suc (cursor s)"
    using assms by (intro writechar_cursor) (simp_all add: fits_def)
  then show "fits (term_writechar c color s) n"
    using assms writechar_col [of s c color] by (simp add: fits_def)
qed

text \<open>What a run of \<open>print\<close> over the characters \<open>t\<close> leaves behind.\<close>

definition printed :: "u8 list \<Rightarrow> 'a terminal_scheme \<Rightarrow> 'a terminal_scheme \<Rightarrow> bool" where
  "printed t s s' \<longleftrightarrow> cursor s' = cursor s + length t \<and> video_mem s' = video_mem s \<and>
    (\<forall>k < fb_cells. cell s' k =
       (if cursor s \<le> k \<and> k < cursor s + length t
        then term_make_char (t ! (k - cursor s)) 15 else cell s k)) \<and>
    (\<forall>x. \<not> in_framebuffer s x \<longrightarrow> phys s' x = phys s x)"

lemma printed_Nil: "printed [] s s"
  by (auto simp: printed_def)

lemma printed_Cons:
  assumes "c \<noteq> 10" and "fits s (Suc (length t))" and "printed t (term_writechar c 15 s) s'"
  shows "printed (c # t) s s'"
proof -
  let ?s = "term_writechar c 15 s"
  have cur: "cursor ?s = Suc (cursor s)" by (rule fits_Suc [OF assms(2,1)])
  have here: "cursor s < fb_cells" using assms(2) by (simp add: fits_def)
  have "cell s' k = (if cursor s \<le> k \<and> k < cursor s + length (c # t)
      then term_make_char ((c # t) ! (k - cursor s)) 15 else cell s k)" if "k < fb_cells" for k
  proof (cases "k = cursor s")
    case True
    then show ?thesis
      using assms(1,3) that here by (simp add: printed_def cur cell_writechar)
  next
    case False
    then have "cell ?s k = cell s k" using assms(1) that here by (simp add: cell_writechar)
    then show ?thesis
      using assms(3) that False by (auto simp: printed_def cur nth_Cons' Suc_le_eq)
  qed
  then show ?thesis
    using assms(3) writechar_outside [OF assms(1) here] by (simp add: printed_def cur)
qed

lemma write_bytes_printed:
  "\<lbrakk> fits s (length t); 10 \<notin> set t \<rbrakk> \<Longrightarrow> printed t s (write_bytes t s)"
proof (induction t arbitrary: s)
  case (Cons c t)
  then have c: "c \<noteq> 10" and fits: "fits s (Suc (length t))" by auto
  have "printed t (term_writechar c 15 s) (write_bytes t (term_writechar c 15 s))"
    using Cons.prems fits_Suc(2) [OF fits c] by (intro Cons.IH) simp_all
  then show ?case by (simp add: printed_Cons [OF c fits])
qed (simp add: printed_Nil)

text \<open>The loop of \<open>print\<close> writes the bytes of the string, if they stand outside the
  framebuffer.\<close>

lemma print_loop_write:
  assumes "n < 2 ^ 31"
  shows "\<lbrakk> j + length t = n; fits s (length t); 10 \<notin> set t;
     \<forall>k < length t. phys s (str + of_nat (j + k)) = t ! k \<and>
       \<not> in_framebuffer s (str + of_nat (j + k)) \<rbrakk> \<Longrightarrow>
   print_loop str (of_nat n) (of_nat j) s = write_bytes t s"
proof (induction t arbitrary: j s)
  case Nil
  then show ?case by (subst print_loop.simps) simp
next
  case (Cons c t)
  let ?s = "term_writechar c 15 s"
  have c: "c \<noteq> 10" and fits: "fits s (Suc (length t))" using Cons.prems by auto
  then have here: "cursor s < fb_cells" by (simp add: fits_def)
  have "phys s (str + of_nat j) = c" using Cons.prems(4) by (auto dest: spec [of _ 0])
  moreover have "(of_nat j :: u32) < of_nat n"
    using Cons.prems(1) assms by (simp add: word_less_nat_alt)
  ultimately have step: "print_loop str (of_nat n) (of_nat j) s =
      print_loop str (of_nat n) (of_nat (Suc j)) ?s"
    by (subst print_loop.simps) (simp add: add.commute)
  have "\<forall>k < length t. phys ?s (str + of_nat (Suc j + k)) = t ! k \<and>
      \<not> in_framebuffer ?s (str + of_nat (Suc j + k))"
  proof (intro allI impI)
    fix k assume "k < length t"
    then show "phys ?s (str + of_nat (Suc j + k)) = t ! k \<and>
        \<not> in_framebuffer ?s (str + of_nat (Suc j + k))"
      using Cons.prems(4) [rule_format, of "Suc k"] writechar_outside [OF c here] by simp
  qed
  then have "print_loop str (of_nat n) (of_nat (Suc j)) ?s = write_bytes t ?s"
    using Cons.prems fits_Suc(2) [OF fits c] by (intro Cons.IH) simp_all
  then show ?case unfolding step by simp
qed

lemma print_write:
  assumes "cstr_at (phys s) str t" and "10 \<notin> set t" and "fits s (length t)"
    and "\<forall>k < length t. \<not> in_framebuffer s (str + of_nat k)"
  shows "print str s = Some (write_bytes t s)"
proof -
  have "length t < 2 ^ 31" using assms(3) by (simp add: fits_def)
  then have "print_loop str (of_nat (length t)) (of_nat 0) s = write_bytes t s"
    using assms by (intro print_loop_write) (simp_all add: cstr_at_iff)
  then show ?thesis using strlen_cstr [OF assms(1)] by (simp add: print_def)
qed

text \<open>Nothing stops the writes at the end of the framebuffer: in the cells of two bytes that follow it
  the characters go on.\<close>

lemma writechar_cell_only:
  "c \<noteq> 10 \<Longrightarrow> \<not> in_region (cell_addr s (cursor s)) 2 x \<Longrightarrow> phys (term_writechar c color s) x = phys s x"
  by (simp add: writechar_phys store16_other)

lemma cell_addr_writechar [simp]: "cell_addr (term_writechar c color s) k = cell_addr s k"
  by (simp add: cell_addr_def)

lemma write_bytes_cells:
  "\<lbrakk> unat (term_col s) < vga_width; cursor s + length t \<le> 2 ^ 20; 10 \<notin> set t \<rbrakk> \<Longrightarrow>
   cursor (write_bytes t s) = cursor s + length t \<and>
   (\<forall>k < 2 ^ 30. cell (write_bytes t s) k =
      (if cursor s \<le> k \<and> k < cursor s + length t then term_make_char (t ! (k - cursor s)) 15 else cell s k))"
proof (induction t arbitrary: s)
  case (Cons c t)
  let ?s = "term_writechar c 15 s"
  have c: "c \<noteq> 10" using Cons.prems(3) by auto
  have "unat (term_row s) < 2 ^ 16 - 1" using Cons.prems(2) by (simp add: cursor_def vga_width_def)
  then have cur: "cursor ?s = Suc (cursor s)" by (rule writechar_cursor [OF c Cons.prems(1)])
  have "cursor ?s + length t \<le> 2 ^ 20" using Cons.prems(2) cur by simp
  note IH = Cons.IH [OF writechar_col [OF Cons.prems(1)] this]
  have here: "cell ?s k = (if k = cursor s then term_make_char c 15 else cell s k)" if "k < 2 ^ 30" for k
    by (rule cell_writechar [OF c _ that]) (use Cons.prems(2) in simp)
  show ?case
    using IH Cons.prems(3) here by (auto simp: cur nth_Cons' Suc_le_eq)
qed auto

lemma print_loop_cells:
  assumes "n < 2 ^ 31"
  shows "\<lbrakk> j + length t = n; unat (term_col s) < vga_width; cursor s + length t \<le> 2 ^ 20; 10 \<notin> set t;
     \<forall>i < length t. phys s (str + of_nat (j + i)) = t ! i \<and>
       (\<forall>k. cursor s \<le> k \<longrightarrow> k < cursor s + length t \<longrightarrow> \<not> in_region (cell_addr s k) 2 (str + of_nat (j + i))) \<rbrakk> \<Longrightarrow>
   print_loop str (of_nat n) (of_nat j) s = write_bytes t s"
proof (induction t arbitrary: j s)
  case Nil
  then show ?case by (subst print_loop.simps) simp
next
  case (Cons c t)
  let ?s = "term_writechar c 15 s"
  have c: "c \<noteq> 10" using Cons.prems by auto
  have "unat (term_row s) < 2 ^ 16 - 1" using Cons.prems(3) by (simp add: cursor_def vga_width_def)
  then have cur: "cursor ?s = Suc (cursor s)" by (rule writechar_cursor [OF c Cons.prems(2)])
  have "phys s (str + of_nat j) = c" using Cons.prems(5) by (auto dest: spec [of _ 0])
  moreover have "(of_nat j :: u32) < of_nat n"
    using Cons.prems(1) assms by (simp add: word_less_nat_alt)
  ultimately have step: "print_loop str (of_nat n) (of_nat j) s = print_loop str (of_nat n) (of_nat (Suc j)) ?s"
    by (subst print_loop.simps) (simp add: add.commute)
  have "print_loop str (of_nat n) (of_nat (Suc j)) ?s = write_bytes t ?s"
  proof (rule Cons.IH)
    show "\<forall>i < length t. phys ?s (str + of_nat (Suc j + i)) = t ! i \<and>
       (\<forall>k. cursor ?s \<le> k \<longrightarrow> k < cursor ?s + length t \<longrightarrow> \<not> in_region (cell_addr ?s k) 2 (str + of_nat (Suc j + i)))"
    proof (intro allI impI)
      fix i assume i: "i < length t"
      then have "phys s (str + of_nat (j + Suc i)) = t ! i"
        "\<forall>k. cursor s \<le> k \<longrightarrow> k < cursor s + length (c # t) \<longrightarrow> \<not> in_region (cell_addr s k) 2 (str + of_nat (j + Suc i))"
        using Cons.prems(5) [rule_format, of "Suc i"] by simp_all
      then show "phys ?s (str + of_nat (Suc j + i)) = t ! i \<and>
         (\<forall>k. cursor ?s \<le> k \<longrightarrow> k < cursor ?s + length t \<longrightarrow> \<not> in_region (cell_addr ?s k) 2 (str + of_nat (Suc j + i)))"
        using writechar_cell_only [OF c, of s "str + of_nat (j + Suc i)"] by (simp add: cur)
    qed
  qed (use Cons.prems cur writechar_col in simp_all)
  then show ?case unfolding step by simp
qed

text \<open>A screen write leaves every field but the memory and the cursor alone.\<close>

lemma writechar_more [simp]: "terminal.more (term_writechar c color s) = terminal.more s"
  by (simp add: term_writechar_def term_putchar_def Let_def)

section \<open>Properties\<close>

text \<open>A screen whose cursor stands at column 78 of the first row, and the string "ok" in
  memory.\<close>

definition sample_screen :: terminal where
  "sample_screen = \<lparr>phys = (\<lambda>_. 0)(0x500 := 0x6F, 0x501 := 0x6B), video_mem = 0xB8000,
     term_row = 0, term_col = 78\<rparr>"

text \<open>C14. Printing a string that stands outside the framebuffer, has no newline and ends
  before the framebuffer does: \<open>print\<close> returns, advances the cursor by the length of the
  string across line ends, writes its characters in white into the cells it passes, and
  changes no other cell and no byte outside the framebuffer.\<close>

theorem print_correct:
  assumes "cstr_at (phys s) str t" and "10 \<notin> set t" and "fits s (length t)"
    and "\<forall>k < length t. \<not> in_framebuffer s (str + of_nat k)"
  shows "\<exists>s'. print str s = Some s' \<and> cursor s' = cursor s + length t \<and>
    (\<forall>k < fb_cells. cell s' k =
       (if cursor s \<le> k \<and> k < cursor s + length t
        then term_make_char (t ! (k - cursor s)) 15 else cell s k)) \<and>
    (\<forall>x. \<not> in_framebuffer s x \<longrightarrow> phys s' x = phys s x)"
  using print_write [OF assms] write_bytes_printed [OF assms(3,2)] by (simp add: printed_def)

theorem print_correct_witness:
  "\<exists>s'. print 0x500 sample_screen = Some s' \<and> cursor s' = 80 \<and>
     cell s' 79 = term_make_char 0x6B 15"
proof -
  have "cstr_at (phys sample_screen) 0x500 [0x6F, 0x6B]"
    by (simp add: sample_screen_def)
  moreover have "fits sample_screen (length [0x6F, 0x6B :: u8])"
    and c: "cursor sample_screen = 78"
    by (simp_all add: sample_screen_def fits_def cursor_def vga_width_def)
  moreover have "\<forall>k < length [0x6F, 0x6B :: u8]. \<not> in_framebuffer sample_screen (0x500 + of_nat k)"
    by (simp add: in_framebuffer_def sample_screen_def All_less_Suc in_region_def)
  ultimately obtain s' where s': "print 0x500 sample_screen = Some s'" "cursor s' = 80"
    "\<forall>k < fb_cells. cell s' k = (if 78 \<le> k \<and> k < 80
        then term_make_char ([0x6F, 0x6B] ! (k - 78)) 15 else cell sample_screen k)"
    using print_correct [of sample_screen "0x500" "[0x6F, 0x6B]"] by auto
  from s'(3) have "cell s' 79 = term_make_char 0x6B 15" by simp
  with s' show ?thesis by blast
qed

text \<open>C15. There is no scrolling and no bound: a string without newlines that starts on or runs past the last
  cell is written on behind the framebuffer. \<open>print\<close> returns, every character of the string is in the
  word it comes to, counted from the start of the framebuffer, and the bytes of those words from
  number 2000 on lie outside the framebuffer.\<close>

theorem print_past_screen:
  assumes "cstr_at (phys s) str t" and "10 \<notin> set t" and "unat (term_col s) < vga_width"
    and "fb_cells < cursor s + length t" and "cursor s + length t \<le> 2 ^ 20"
    and "\<forall>i < length t. \<forall>k. cursor s \<le> k \<longrightarrow> k < cursor s + length t \<longrightarrow> \<not> in_region (cell_addr s k) 2 (str + of_nat i)"
  shows "\<exists>s'. print str s = Some s' \<and> cursor s' = cursor s + length t \<and>
    (\<forall>i < length t. load16 (phys s') (cell_addr s (cursor s + i)) = term_make_char (t ! i) 15) \<and>
    (\<forall>k x. fb_cells \<le> k \<longrightarrow> k < cursor s + length t \<longrightarrow> in_region (cell_addr s k) 2 x \<longrightarrow> \<not> in_framebuffer s x)"
proof -
  have len: "length t < 2 ^ 31" using assms(5) by simp
  have "print_loop str (of_nat (length t)) (of_nat 0) s = write_bytes t s"
    by (rule print_loop_cells [OF len]) (use assms in \<open>simp_all add: cstr_at_iff\<close>)
  then have run: "print str s = Some (write_bytes t s)" using strlen_cstr [OF assms(1)] by (simp add: print_def)
  note w = write_bytes_cells [OF assms(3,5,2)]
  have vm: "video_mem (write_bytes t s) = video_mem s" by (induction t arbitrary: s) simp_all
  have "load16 (phys (write_bytes t s)) (cell_addr s (cursor s + i)) = term_make_char (t ! i) 15" if "i < length t" for i
  proof -
    have "cell (write_bytes t s) (cursor s + i) = term_make_char (t ! i) 15" using w that assms(5) by simp
    then show ?thesis by (simp add: cell_def cell_addr_def vm)
  qed
  moreover have "\<not> in_framebuffer s x"
    if "fb_cells \<le> k" "k < cursor s + length t" "in_region (cell_addr s k) 2 x" for k x
  proof -
    have k: "unat (of_nat (2 * k) :: u32) = 2 * k" using that(2) assms(5) by (intro unat_of_nat_u32) simp
    define d where "d = x - cell_addr s k"
    have d: "unat d < 2" using that(3) by (simp add: in_region_def word_less_nat_alt d_def)
    have "x - video_mem s = d + of_nat (2 * k)" by (simp add: cell_addr_def d_def)
    then have "unat (x - video_mem s) = unat d + 2 * k"
      using d k that(2) assms(5) by (simp only: unat_word_ariths) simp
    then show ?thesis using that(1) by (simp add: in_framebuffer_def in_region_def word_less_nat_alt)
  qed
  ultimately show ?thesis using run w by blast
qed

text \<open>The cursor on the last cell.\<close>

theorem print_past_screen_witness:
  "\<exists>s'. print 0x500 (sample_screen\<lparr>term_row := 24, term_col := 79\<rparr>) = Some s' \<and> load16 (phys s') 0xB8FA0 = term_make_char 0x6B 15"
proof -
  let ?s = "sample_screen\<lparr>term_row := 24, term_col := 79\<rparr>"
  have c: "cursor ?s = 1999" "video_mem ?s = 0xB8000" by (simp_all add: cursor_def vga_width_def sample_screen_def)
  have str: "cstr_at (phys ?s) 0x500 [0x6F, 0x6B]" by (simp add: sample_screen_def)
  have away: "\<not> in_region (cell_addr ?s k) 2 (0x500 + of_nat i)" if "i < 2" "1999 \<le> k" "k < 2001" for i k
  proof -
    have "k = 1999 \<or> k = 2000" "i = 0 \<or> i = 1" using that by auto
    then show ?thesis by (auto simp: cell_addr_def c in_region_def word_less_nat_alt)
  qed
  have "\<exists>s'. print 0x500 ?s = Some s' \<and> cursor s' = cursor ?s + length [0x6F, 0x6B :: u8] \<and>
    (\<forall>i < length [0x6F, 0x6B :: u8]. load16 (phys s') (cell_addr ?s (cursor ?s + i)) = term_make_char ([0x6F, 0x6B] ! i) 15) \<and>
    (\<forall>k x. fb_cells \<le> k \<longrightarrow> k < cursor ?s + length [0x6F, 0x6B :: u8] \<longrightarrow> in_region (cell_addr ?s k) 2 x \<longrightarrow> \<not> in_framebuffer ?s x)"
    by (rule print_past_screen [OF str]) (use away in \<open>simp_all add: c vga_width_def\<close>)
  then show ?thesis by (auto simp: c cell_addr_def dest: spec [of _ 1])
qed

text \<open>The cell \<open>term_make_char\<close> builds: the low byte is the character, the high byte the
  colour, except that a character of 128 or more, a negative \<open>char\<close>, sets every bit of
  the colour byte.\<close>

theorem term_make_char_cell:
  "ucast (term_make_char c color) = c \<and>
   ucast (drop_bit 8 (term_make_char c color)) = (if bit c 7 then 0xFF else color)"
  by (simp add: term_make_char_low term_make_char_high)

end
