(* ===== verification/Heap.thy ===== *)
theory Heap
  imports Terminal
begin

text \<open>
  \<open>src/memory/heap/heap.c\<close>: the block allocator. The table is a byte array in physical
  memory at \<open>entries\<close>, one byte per 4096-byte block, exactly where the code keeps it; the
  operations read and write that memory.

  The abstract view of a table is a list of chunks, each a free block or an allocation of
  one or more blocks; \<open>encode\<close> is the byte table of a chunk list. The refinement lemmas
  say that the code's scans and marking loops compute first-fit allocation and release on
  chunk lists.
\<close>

section \<open>Data\<close>

record heap_table =
  entries :: ptr
  total :: u32

record heap =
  table :: heap_table
  saddr :: ptr

definition heap_block_table_entry_taken :: u8 where "heap_block_table_entry_taken = 0x01"
definition heap_block_table_entry_free :: u8 where "heap_block_table_entry_free = 0x00"
definition heap_block_has_next :: u8 where "heap_block_has_next = 0x80"
definition heap_block_is_first :: u8 where "heap_block_is_first = 0x40"

lemmas entry_defs = heap_block_table_entry_taken_def heap_block_table_entry_free_def
  heap_block_has_next_def heap_block_is_first_def

section \<open>Operations\<close>

definition heap_check_table :: "ptr \<Rightarrow> ptr \<Rightarrow> heap_table \<Rightarrow> i32" where
  "heap_check_table p end tab =
     (let table_size = end - p; total_blocks = table_size div heap_block_size
      in if total tab \<noteq> total_blocks then - einvarg else 0)"

definition heap_check_alignment :: "ptr \<Rightarrow> bool" where
  "heap_check_alignment p \<longleftrightarrow> p mod heap_block_size = 0"

text \<open>Returns the result code, the heap object and the memory; the heap object is only
  touched when both ends are aligned.\<close>

definition heap_create :: "heap \<Rightarrow> ptr \<Rightarrow> ptr \<Rightarrow> heap_table \<Rightarrow> mem \<Rightarrow> i32 \<times> heap \<times> mem" where
  "heap_create heap p end tab m =
     (if \<not> heap_check_alignment p \<or> \<not> heap_check_alignment end then (- einvarg, heap, m)
      else
        let heap' = \<lparr>table = tab, saddr = p\<rparr>;
            res = heap_check_table p end tab
        in if res <s 0 then (res, heap', m)
           else (res, heap', memset (entries tab) (ucast heap_block_table_entry_free) (total tab) m))"

definition heap_align_value_to_upper :: "u32 \<Rightarrow> u32" where
  "heap_align_value_to_upper val =
     (if val mod heap_block_size = 0 then val
      else (val - val mod heap_block_size) + heap_block_size)"

definition heap_get_entry_type :: "u8 \<Rightarrow> i32" where
  "heap_get_entry_type entry = ucast (entry AND 0x0F)"

text \<open>The scan for free blocks: \<open>bc\<close> counts the consecutive free blocks seen, \<open>bs\<close> is
  where they start, or \<open>-1\<close>.\<close>

function start_block_loop :: "mem \<Rightarrow> heap_table \<Rightarrow> u32 \<Rightarrow> u32 \<Rightarrow> i32 \<Rightarrow> i32 \<Rightarrow> i32" where
  "start_block_loop m tab total_blocks i bc bs =
     (if i < total tab then
        if heap_get_entry_type (m (entries tab + i)) \<noteq> ucast heap_block_table_entry_free
        then start_block_loop m tab total_blocks (i + 1) 0 (- 1)
        else
          let bs' = (if bs = - 1 then i else bs); bc' = bc + 1
          in if bc' = total_blocks then bs'
             else start_block_loop m tab total_blocks (i + 1) bc' bs'
      else bs)"
  by pat_completeness auto
termination
  by (relation "measure (\<lambda>(m, tab, n, i, bc, bs). unat (total tab) - unat i)")
     (auto, (unat_arith)+)

declare start_block_loop.simps [simp del]

definition heap_get_start_block :: "heap \<Rightarrow> u32 \<Rightarrow> mem \<Rightarrow> i32" where
  "heap_get_start_block heap total_blocks m =
     (let bs = start_block_loop m (table heap) total_blocks 0 0 (- 1)
      in if bs = - 1 then - enomem else bs)"

definition heap_block_to_address :: "heap \<Rightarrow> u32 \<Rightarrow> ptr" where
  "heap_block_to_address heap block = saddr heap + block * heap_block_size"

text \<open>The loop counter \<open>int i\<close> cannot overflow in C; it is an unbounded integer here, and
  the block index \<open>table->entries[i]\<close> is the address \<open>entries + i\<close>.\<close>

function mark_taken_loop :: "heap \<Rightarrow> int \<Rightarrow> int \<Rightarrow> u8 \<Rightarrow> mem \<Rightarrow> mem" where
  "mark_taken_loop heap i end_block entry m =
     (if i \<le> end_block then
        mark_taken_loop heap (i + 1) end_block
          (if i \<noteq> end_block - 1 then heap_block_table_entry_taken OR heap_block_has_next
           else heap_block_table_entry_taken)
          (m(entries (table heap) + word_of_int i := entry))
      else m)"
  by pat_completeness auto
termination
  by (relation "measure (\<lambda>(heap, i, end_block, entry, m). nat (end_block + 1 - i))") auto

declare mark_taken_loop.simps [simp del]

definition heap_mark_blocks_taken :: "heap \<Rightarrow> i32 \<Rightarrow> i32 \<Rightarrow> mem \<Rightarrow> mem" where
  "heap_mark_blocks_taken heap start_block total_blocks m =
     (let end_block = (start_block + total_blocks) - 1;
          entry = heap_block_table_entry_taken OR heap_block_is_first;
          entry' = (if 1 <s total_blocks then entry OR heap_block_has_next else entry)
      in mark_taken_loop heap (sint start_block) (sint end_block) entry' m)"

definition heap_malloc_blocks :: "heap \<Rightarrow> u32 \<Rightarrow> mem \<Rightarrow> ptr \<times> mem" where
  "heap_malloc_blocks heap total_blocks m =
     (let start_block = heap_get_start_block heap total_blocks m
      in if start_block <s 0 then (0, m)
         else (heap_block_to_address heap start_block,
               heap_mark_blocks_taken heap start_block total_blocks m))"

function mark_free_loop :: "heap \<Rightarrow> int \<Rightarrow> mem \<Rightarrow> mem" where
  "mark_free_loop heap i m =
     (if i < sint (total (table heap)) then
        let a = entries (table heap) + word_of_int i;
            entry = m a;
            m' = m(a := heap_block_table_entry_free)
        in if entry AND heap_block_has_next = 0 then m'
           else mark_free_loop heap (i + 1) m'
      else m)"
  by pat_completeness auto
termination
  by (relation "measure (\<lambda>(heap, i, m). nat (sint (total (table heap)) - i))") auto

declare mark_free_loop.simps [simp del]

definition heap_mark_blocks_free :: "heap \<Rightarrow> i32 \<Rightarrow> mem \<Rightarrow> mem" where
  "heap_mark_blocks_free heap start_block m = mark_free_loop heap (sint start_block) m"

text \<open>A signed division, truncating towards zero.\<close>

definition heap_address_to_block :: "heap \<Rightarrow> ptr \<Rightarrow> i32" where
  "heap_address_to_block heap address =
     word_of_int (sint (address - saddr heap) sdiv sint heap_block_size)"

definition heap_malloc :: "heap \<Rightarrow> u32 \<Rightarrow> mem \<Rightarrow> ptr \<times> mem" where
  "heap_malloc heap sz m =
     (let aligned_size = heap_align_value_to_upper sz;
          total_blocks = aligned_size div heap_block_size
      in heap_malloc_blocks heap total_blocks m)"

definition heap_free :: "heap \<Rightarrow> ptr \<Rightarrow> mem \<Rightarrow> mem" where
  "heap_free heap p m = heap_mark_blocks_free heap (heap_address_to_block heap p) m"

section \<open>Sizes\<close>

lemma unat_block_size [simp]: "unat heap_block_size = 4096"
  by (simp add: heap_block_size_def)

text \<open>A size is rounded up to whole blocks, except in the last page of the 32-bit range,
  where the sum wraps and the result is zero.\<close>

lemma heap_align_value_to_upper_eq:
  "unat (heap_align_value_to_upper val) =
     (if unat val \<le> 4294963200 then 4096 * ((unat val + 4095) div 4096) else 0)"
proof -
  define q r where "q = unat val div 4096" and "r = unat val mod 4096"
  have v: "unat val = 4096 * q + r" and r: "r < 4096"
    by (simp_all add: q_def r_def)
  have lt: "unat val < 4294967296" using unat_range_u32 [of val] by simp
  have um: "unat (val mod heap_block_size) = r"
    by (simp add: unat_mod_distrib r_def)
  show ?thesis
  proof (cases "r = 0")
    case True
    then have "heap_align_value_to_upper val = val"
      using um by (simp add: heap_align_value_to_upper_def word_unat_eq_iff)
    moreover have "q < 1048576" using v lt True by simp
    ultimately show ?thesis using v True by simp
  next
    case False
    then have a: "heap_align_value_to_upper val = (val - val mod heap_block_size) + heap_block_size"
      using um by (simp add: heap_align_value_to_upper_def word_unat_eq_iff)
    have "unat (val - val mod heap_block_size) = 4096 * q"
      using um v by (simp add: unat_sub_if')
    then have b: "unat (heap_align_value_to_upper val) = (4096 * q + 4096) mod 4294967296"
      by (simp add: a unat_word_ariths)
    have c: "(unat val + 4095) div 4096 = q + 1"
      using v r False by simp
    show ?thesis
    proof (cases "q < 1048575")
      case True
      then have "unat val \<le> 4294963200" using v r by simp
      then show ?thesis using True by (simp add: b c)
    next
      case False
      then have "q = 1048575" using v lt by simp
      then show ?thesis using v \<open>r \<noteq> 0\<close> by (simp add: b)
    qed
  qed
qed

lemma blocks_of_size:
  "unat sz \<le> 4294963200 \<Longrightarrow>
   unat (heap_align_value_to_upper sz div heap_block_size) = (unat sz + 4095) div 4096"
  by (simp add: unat_div_distrib heap_align_value_to_upper_eq)

section \<open>The scan\<close>

text \<open>A block is free when the low nibble of its entry is zero. The scan is described on the
  list of these flags: \<open>first_fit n fs\<close> is the first index of \<open>n\<close> free blocks in a row, and
  \<open>trailing fs\<close> counts the free blocks at the end of the table.\<close>

definition is_free :: "u8 \<Rightarrow> bool" where
  "is_free e \<longleftrightarrow> e AND 0x0F = 0"

lemma entry_type_free:
  "heap_get_entry_type e = ucast heap_block_table_entry_free \<longleftrightarrow> is_free e"
  using ucast_u8_eq_0 [of "e AND 0x0F"]
  by (simp add: heap_get_entry_type_def is_free_def heap_block_table_entry_free_def)

definition run_at :: "nat \<Rightarrow> bool list \<Rightarrow> bool" where
  "run_at n fs \<longleftrightarrow> n \<le> length fs \<and> take n fs = replicate n True"

fun first_fit :: "nat \<Rightarrow> bool list \<Rightarrow> nat option" where
  "first_fit n [] = (if n = 0 then Some 0 else None)"
| "first_fit n (f # fs) =
     (if run_at n (f # fs) then Some 0 else map_option Suc (first_fit n fs))"

definition trailing :: "bool list \<Rightarrow> nat" where
  "trailing fs = length (takeWhile (\<lambda>f. f) (rev fs))"

text \<open>What the scan returns: the first fit (none for a request of zero blocks, whose count is
  never reached), or else the start of the free blocks at the end
  of the table, or nothing when the table does not end in a free block.\<close>

definition start_block :: "nat \<Rightarrow> bool list \<Rightarrow> nat option" where
  "start_block n fs = (case (if n = 0 then None else first_fit n fs) of Some p \<Rightarrow> Some p
     | None \<Rightarrow> if trailing fs = 0 then None else Some (length fs - trailing fs))"

lemma run_at_Suc: "run_at (Suc n) (f # fs) \<longleftrightarrow> f \<and> run_at n fs"
  by (auto simp: run_at_def)

lemma run_at_0 [simp]: "run_at 0 fs"
  by (simp add: run_at_def)

lemma run_at_short: "c < n \<Longrightarrow> \<not> run_at n (replicate c True @ False # fs)"
proof (induction c arbitrary: n)
  case 0
  then show ?case by (cases n) (auto simp: run_at_Suc)
next
  case (Suc c)
  then show ?case by (cases n) (auto simp: run_at_Suc)
qed

lemma first_fit_short: "c < n \<Longrightarrow> first_fit n (replicate c True) = None"
  by (induction c) (auto simp: run_at_def)

lemma first_fit_skip:
  "c < n \<Longrightarrow> first_fit n (replicate c True @ False # fs) = map_option (\<lambda>p. Suc c + p) (first_fit n fs)"
proof (induction c)
  case 0
  then show ?case using run_at_short [of 0 n fs] by (simp add: option.map_comp comp_def)
next
  case (Suc c)
  then show ?case
    using run_at_short [of "Suc c" n fs] by (simp add: option.map_comp comp_def)
qed

lemma trailing_replicate: "trailing (replicate c True) = c"
  by (simp add: trailing_def)

lemma trailing_Nil [simp]: "trailing [] = 0"
  by (simp add: trailing_def)

lemma trailing_le: "trailing fs \<le> length fs"
  using length_takeWhile_le [of "\<lambda>f. f" "rev fs"] by (simp add: trailing_def)

lemma trailing_run:
  assumes "n \<le> trailing fs"
  shows "run_at n (drop (length fs - trailing fs) fs)"
proof -
  have "drop (length fs - trailing fs) fs = rev (take (trailing fs) (rev fs))"
    by (simp add: rev_take trailing_le)
  also have "take (trailing fs) (rev fs) = replicate (trailing fs) True"
    unfolding trailing_def takeWhile_eq_take [symmetric]
    by (metis (mono_tags, lifting) replicate_eqI set_takeWhileD)
  finally show ?thesis using assms by (simp add: run_at_def)
qed

lemma trailing_append_False: "trailing (xs @ False # fs) = trailing fs"
  unfolding trailing_def
  by (simp add: takeWhile_append) (metis length_rev set_rev takeWhile_eq_all_conv)

lemma first_fit_le: "first_fit n fs = Some p \<Longrightarrow> p + n \<le> length fs"
  by (induction fs arbitrary: p) (auto simp: run_at_def split: if_splits)

lemma start_block_le: "start_block n fs = Some p \<Longrightarrow> p \<le> length fs"
  by (auto simp: start_block_def dest: first_fit_le split: option.splits if_splits)

lemma start_block_taken:
  "c < n \<or> n = 0 \<Longrightarrow> start_block n (replicate c True @ False # fs) =
     map_option (\<lambda>p. Suc c + p) (start_block n fs)"
  using trailing_le [of fs]
  by (auto simp: start_block_def first_fit_skip trailing_append_False split: option.splits)

lemma start_block_found:
  "Suc c = n \<Longrightarrow> start_block n (replicate (Suc c) True @ fs) = Some 0"
  by (auto simp: start_block_def run_at_def replicate_app_Cons_same)

lemma start_block_end:
  "c < n \<or> n = 0 \<Longrightarrow> start_block n (replicate c True) = (if c = 0 then None else Some 0)"
  by (auto simp: start_block_def first_fit_short trailing_replicate)

lemma of_nat_not_minus_1: "i < 2 ^ 31 \<Longrightarrow> (of_nat i :: i32) \<noteq> - 1"
  using sint_of_nat_u32 [of i] by auto

lemma start_block_loop_eq:
  assumes "unat (total tab) < 2 ^ 31" and "n = unat total_blocks"
  shows "\<lbrakk> fs = map is_free (bytes_at m (entries tab + of_nat i) (unat (total tab) - i));
      i \<le> unat (total tab); c \<le> i; c < n \<or> n = 0 \<rbrakk> \<Longrightarrow>
    start_block_loop m tab total_blocks (of_nat i) (of_nat c)
      (if c = 0 then - 1 else of_nat (i - c)) =
    (case start_block n (replicate c True @ fs) of None \<Rightarrow> - 1 | Some p \<Rightarrow> of_nat (i - c + p))"
proof (induction fs arbitrary: i c)
  case Nil
  then have "i = unat (total tab)"
    by (metis diff_is_0_eq le_antisym length_0_conv length_bytes_at length_map)
  then have "\<not> (of_nat i :: u32) < total tab"
    by simp
  then have "start_block_loop m tab total_blocks (of_nat i) (of_nat c)
      (if c = 0 then - 1 else of_nat (i - c)) = (if c = 0 then - 1 else of_nat (i - c))"
    by (subst start_block_loop.simps) (simp only: if_False)
  then show ?case using Nil.prems(4) by (simp add: start_block_end)
next
  case (Cons f fs)
  have "length (f # fs) = unat (total tab) - i" by (simp add: Cons.prems(1))
  then have i: "i < unat (total tab)" by simp
  then have k: "unat (total tab) - i = Suc (unat (total tab) - Suc i)" by simp
  then have fs: "fs = map is_free (bytes_at m (entries tab + of_nat (Suc i)) (unat (total tab) - Suc i))"
    and f: "f = is_free (m (entries tab + of_nat i))"
    using Cons.prems(1) unfolding k bytes_at_Suc by (simp_all add: ac_simps)
  have lt: "(of_nat i :: u32) < total tab"
    using i assms(1) by (simp add: word_less_nat_alt)
  note unfold = start_block_loop.simps [of m tab total_blocks "of_nat i" "of_nat c"
      "if c = 0 then - 1 else of_nat (i - c)"]
  show ?case
  proof (cases f)
    case False
    have "start_block_loop m tab total_blocks (of_nat i) (of_nat c)
        (if c = 0 then - 1 else of_nat (i - c)) =
      start_block_loop m tab total_blocks (of_nat (Suc i)) (of_nat 0) (- 1)"
      unfolding unfold using lt f False by (simp add: entry_type_free add.commute)
    also have "\<dots> = (case start_block n fs of None \<Rightarrow> - 1 | Some p \<Rightarrow> of_nat (Suc i + p))"
    proof -
      have "0 < n \<or> n = 0" using neq0_conv by blast
      with Cons.IH [OF fs, of 0] i show ?thesis
        by (simp cong: option.case_cong)
    qed
    finally show ?thesis
      using False Cons.prems(3,4)
      by (cases "start_block n fs") (simp_all add: start_block_taken)
  next
    case True
    have bs: "(if (if c = 0 then - 1 else of_nat (i - c)) = (- 1 :: i32) then of_nat i
        else if c = 0 then - 1 else of_nat (i - c)) = (of_nat (i - c) :: i32)"
      using i assms(1) of_nat_not_minus_1 [of "i - c"] by auto
    have bc: "(of_nat c :: i32) + 1 = total_blocks \<longleftrightarrow> Suc c = n"
    proof -
      have "unat (of_nat (Suc c) :: i32) = Suc c"
        using i Cons.prems(3) assms(1) by (intro unat_of_nat_u32) simp
      then show ?thesis using assms(2) by (auto simp: word_unat_eq_iff add.commute)
    qed
    have "start_block_loop m tab total_blocks (of_nat i) (of_nat c)
        (if c = 0 then - 1 else of_nat (i - c)) =
      (if Suc c = n then of_nat (i - c)
       else start_block_loop m tab total_blocks (of_nat (Suc i)) (of_nat (Suc c)) (of_nat (i - c)))"
      unfolding unfold Let_def bs bc using lt f True
      by (simp add: entry_type_free add.commute)
    also have "\<dots> = (case start_block n (replicate (Suc c) True @ fs) of
        None \<Rightarrow> - 1 | Some p \<Rightarrow> of_nat (i - c + p))"
    proof (cases "Suc c = n")
      case True
      moreover have "start_block n (replicate (Suc c) True @ fs) = Some 0"
        by (rule start_block_found [OF True])
      ultimately show ?thesis by (simp del: replicate_Suc)
    next
      case False
      have "Suc c < n \<or> n = 0" using False Cons.prems(4) by auto
      with Cons.IH [OF fs, of "Suc c"] i Cons.prems(3) False show ?thesis
        by (simp del: replicate_Suc of_nat_Suc cong: option.case_cong)
    qed
    finally show ?thesis using True by (simp add: replicate_app_Cons_same)
  qed
qed

definition table_of :: "heap_table \<Rightarrow> mem \<Rightarrow> u8 list" where
  "table_of tab m = bytes_at m (entries tab) (unat (total tab))"

lemma length_table_of [simp]: "length (table_of tab m) = unat (total tab)"
  by (simp add: table_of_def)

lemma heap_get_start_block_eq:
  assumes "unat (total (table heap)) < 2 ^ 31"
  shows "heap_get_start_block heap n m =
    (case start_block (unat n) (map is_free (table_of (table heap) m)) of
       None \<Rightarrow> - enomem | Some p \<Rightarrow> of_nat p)"
proof -
  let ?fs = "map is_free (table_of (table heap) m)"
  have "start_block_loop m (table heap) n 0 0 (- 1) =
      (case start_block (unat n) ?fs of None \<Rightarrow> - 1 | Some p \<Rightarrow> of_nat p)"
  proof -
    have "0 < unat n \<or> unat n = 0" using neq0_conv by blast
    with start_block_loop_eq [OF assms refl, of ?fs m 0 0 n] show ?thesis
      by (simp add: table_of_def cong: option.case_cong)
  qed
  moreover have "p < 2 ^ 31" if "start_block (unat n) ?fs = Some p" for p
    using start_block_le [OF that] assms by simp
  ultimately show ?thesis
    using of_nat_not_minus_1
    by (auto simp: heap_get_start_block_def Let_def split: option.splits)
qed

section \<open>Marking\<close>

text \<open>The entries of an allocation of \<open>n\<close> blocks.\<close>

definition taken_run :: "nat \<Rightarrow> u8 list" where
  "taken_run n = (if n = 0 then [] else if n = 1 then [0x41]
     else 0xC1 # replicate (n - 2) 0x81 @ [0x01])"

lemma length_taken_run [simp]: "length (taken_run n) = n"
  by (auto simp: taken_run_def)

text \<open>In the loop after the first entry, \<open>n\<close> entries are still to be written, the last one
  without the has-next bit.\<close>

lemma taken_run_nonzero: "x \<in> set (taken_run n) \<Longrightarrow> x \<noteq> 0"
  by (auto simp: taken_run_def split: if_splits)

lemma mark_taken_loop_tail:
  "end_block = i + int n \<Longrightarrow>
   mark_taken_loop heap i end_block (if n = 0 then 0x01 else 0x81) m =
     put_bytes (entries (table heap) + word_of_int i) (replicate n 0x81 @ [0x01]) m"
proof (induction n arbitrary: i m)
  case 0
  then show ?case
    by (subst mark_taken_loop.simps, subst mark_taken_loop.simps) (simp add: entry_defs)
next
  case (Suc n)
  let ?m = "m(entries (table heap) + word_of_int i := 0x81)"
  have "(if i \<noteq> end_block - 1 then heap_block_table_entry_taken OR heap_block_has_next
      else heap_block_table_entry_taken) = (if n = 0 then 0x01 else 0x81)"
    using Suc.prems by (simp add: entry_defs)
  then have "mark_taken_loop heap i end_block (if Suc n = 0 then 0x01 else 0x81) m =
      mark_taken_loop heap (i + 1) end_block (if n = 0 then 0x01 else 0x81) ?m"
    using Suc.prems by (subst mark_taken_loop.simps) simp
  also have "\<dots> = put_bytes (entries (table heap) + word_of_int (i + 1))
      (replicate n 0x81 @ [0x01]) ?m"
    by (rule Suc.IH) (use Suc.prems in simp)
  finally show ?case by (simp add: add.assoc)
qed

lemma mark_taken_loop_run:
  assumes "end_block = i + int n - 1"
    and "entry = (if 1 < n then 0xC1 else 0x41)"
  shows "mark_taken_loop heap i end_block entry m =
    put_bytes (entries (table heap) + word_of_int i) (taken_run n) m"
proof -
  consider "n = 0" | "n = 1" | k where "n = Suc (Suc k)"
    by (metis One_nat_def not0_implies_Suc)
  then show ?thesis
  proof cases
    case 1
    then show ?thesis
      using assms(1) by (subst mark_taken_loop.simps) (simp add: taken_run_def)
  next
    case 2
    then show ?thesis
      using assms by (subst mark_taken_loop.simps, subst mark_taken_loop.simps)
        (simp add: taken_run_def)
  next
    case (3 k)
    have "(if i \<noteq> end_block - 1 then heap_block_table_entry_taken OR heap_block_has_next
        else heap_block_table_entry_taken) = (if k = 0 then 0x01 else 0x81)"
      using 3 assms(1) by (simp add: entry_defs)
    then show ?thesis
      using 3 assms by (subst mark_taken_loop.simps)
        (simp add: mark_taken_loop_tail taken_run_def algebra_simps)
  qed
qed

lemma heap_mark_blocks_taken_eq:
  assumes "p + n < 2 ^ 31"
  shows "heap_mark_blocks_taken heap (of_nat p) (of_nat n) m =
    put_bytes (entries (table heap) + of_nat p) (taken_run n) m"
proof -
  have "sint ((of_nat p :: i32) + of_nat n - 1) = int p + int n - 1"
    using assms by (simp add: sint_sub_u32 sint_of_nat_u32 flip: of_nat_add)
  moreover have "1 <s (of_nat n :: i32) \<longleftrightarrow> 1 < n"
    using assms by (simp add: word_sless_alt sint_of_nat_u32)
  ultimately show ?thesis
    using assms by (simp add: heap_mark_blocks_taken_def Let_def mark_taken_loop_run
        sint_of_nat_u32 entry_defs)
qed

text \<open>Freeing walks the allocation from its first block to the entry without the has-next
  bit and clears it.\<close>

lemma mark_free_loop_tail:
  "\<lbrakk> bytes_at m (entries (table heap) + word_of_int i) (Suc n) = replicate n 0x81 @ [0x01];
     i + int n < sint (total (table heap)); n < 2 ^ 31 \<rbrakk> \<Longrightarrow>
   mark_free_loop heap i m =
     put_bytes (entries (table heap) + word_of_int i) (replicate (Suc n) 0) m"
proof (induction n arbitrary: i m)
  case 0
  then show ?case
    by (subst mark_free_loop.simps) (simp add: bytes_at_Suc entry_defs)
next
  case (Suc n)
  let ?a = "entries (table heap) + word_of_int i"
  let ?m = "m(?a := 0)"
  have e: "m ?a = 0x81"
    and rest: "bytes_at m (?a + 1) (Suc n) = replicate n 0x81 @ [0x01]"
    using Suc.prems(1) by (simp_all add: bytes_at_Suc [of m ?a "Suc n"])
  have "bytes_at ?m (?a + 1) (Suc n) = bytes_at m (?a + 1) (Suc n)"
  proof (rule bytes_at_cong)
    fix j assume "j < Suc n"
    then have "(of_nat (Suc j) :: u32) \<noteq> 0"
      using Suc.prems(3) of_nat_word_inj [of "Suc j" 0] by simp
    then show "?m (?a + 1 + of_nat j) = m (?a + 1 + of_nat j)" by (simp add: add.assoc)
  qed
  with rest have rest': "bytes_at ?m (entries (table heap) + word_of_int (i + 1)) (Suc n) =
      replicate n 0x81 @ [0x01]"
    by (simp add: add.assoc)
  have "mark_free_loop heap i m = mark_free_loop heap (i + 1) ?m"
    using Suc.prems(2) e by (subst mark_free_loop.simps) (simp add: Let_def entry_defs)
  also have "\<dots> = put_bytes (entries (table heap) + word_of_int (i + 1)) (replicate (Suc n) 0) ?m"
    by (rule Suc.IH [OF rest']) (use Suc.prems in simp_all)
  finally show ?case by (simp add: add.assoc)
qed

lemma heap_mark_blocks_free_eq:
  assumes run: "bytes_at m (entries (table heap) + of_nat p) n = taken_run n" and "0 < n"
    and "p + n \<le> unat (total (table heap))" and tot: "unat (total (table heap)) < 2 ^ 31"
  shows "heap_mark_blocks_free heap (of_nat p) m =
    put_bytes (entries (table heap) + of_nat p) (replicate n 0) m"
proof -
  let ?a = "entries (table heap) + of_nat p"
  have t: "sint (total (table heap)) = int (unat (total (table heap)))"
    using sint_of_nat_u32 [OF tot] by simp
  have p: "sint (of_nat p :: i32) = int p"
    using assms(2-4) by (intro sint_of_nat_u32) simp
  obtain k where n: "n = Suc k" using \<open>0 < n\<close> by (cases n) auto
  have lt: "int p < sint (total (table heap))" using t assms(3) n by linarith
  show ?thesis
  proof (cases k)
    case 0
    then have "m ?a = 0x41" using run by (simp add: n bytes_at_Suc taken_run_def)
    then show ?thesis
      using lt by (simp add: heap_mark_blocks_free_def p n 0)
        (subst mark_free_loop.simps, simp add: Let_def entry_defs)
  next
    case (Suc l)
    let ?m = "m(?a := 0)"
    have e: "m ?a = 0xC1" and rest: "bytes_at m (?a + 1) (Suc l) = replicate l 0x81 @ [0x01]"
      using run by (simp_all add: n Suc bytes_at_Suc [of m ?a] taken_run_def)
    have "bytes_at ?m (?a + 1) (Suc l) = bytes_at m (?a + 1) (Suc l)"
    proof (rule bytes_at_cong)
      fix j assume "j < Suc l"
      then have "(of_nat (Suc j) :: u32) \<noteq> 0"
        using assms(3) tot n Suc of_nat_word_inj [of "Suc j" 0] by simp
      then show "?m (?a + 1 + of_nat j) = m (?a + 1 + of_nat j)" by (simp add: add.assoc)
    qed
    with rest have rest': "bytes_at ?m (entries (table heap) + word_of_int (int p + 1)) (Suc l) =
        replicate l 0x81 @ [0x01]"
      by (simp add: add.assoc)
    have "heap_mark_blocks_free heap (of_nat p) m = mark_free_loop heap (int p + 1) ?m"
      using lt e by (simp add: heap_mark_blocks_free_def p)
        (subst mark_free_loop.simps, simp add: Let_def entry_defs)
    also have "\<dots> = put_bytes (entries (table heap) + word_of_int (int p + 1)) (replicate (Suc l) 0) ?m"
    proof (rule mark_free_loop_tail [OF rest'])
      show "int p + 1 + int l < sint (total (table heap))" using t assms(3) n Suc by linarith
      show "l < 2 ^ 31" using assms(3) tot n Suc by linarith
    qed
    finally show ?thesis by (simp add: n Suc add.assoc)
  qed
qed

section \<open>The abstract allocator\<close>

text \<open>A chunk is a free block, or an allocation of \<open>Suc k\<close> blocks; the table of a heap is
  the concatenation of the entries of its chunks.\<close>

datatype chunk = Free | Used nat

fun blocks :: "chunk \<Rightarrow> nat" where
  "blocks Free = 1"
| "blocks (Used k) = Suc k"

fun chunk_entries :: "chunk \<Rightarrow> u8 list" where
  "chunk_entries Free = [0]"
| "chunk_entries (Used k) = taken_run (Suc k)"

definition encode :: "chunk list \<Rightarrow> u8 list" where
  "encode cs = concat (map chunk_entries cs)"

definition size_of :: "chunk list \<Rightarrow> nat" where
  "size_of cs = sum_list (map blocks cs)"

text \<open>First-fit allocation of \<open>n\<close> blocks: the index of the first block and the new chunks.\<close>

fun spec_alloc :: "nat \<Rightarrow> chunk list \<Rightarrow> (nat \<times> chunk list) option" where
  "spec_alloc n [] = None"
| "spec_alloc n (c # cs) =
     (if n \<le> length (c # cs) \<and> take n (c # cs) = replicate n Free
      then Some (0, Used (n - 1) # drop n (c # cs))
      else map_option (\<lambda>(p, ds). (blocks c + p, c # ds)) (spec_alloc n cs))"

text \<open>Release of the allocation that starts at block \<open>p\<close>.\<close>

fun spec_free :: "nat \<Rightarrow> chunk list \<Rightarrow> chunk list option" where
  "spec_free p [] = None"
| "spec_free p (c # cs) =
     (if p = 0 then (case c of Free \<Rightarrow> None | Used k \<Rightarrow> Some (replicate (Suc k) Free @ cs))
      else if blocks c \<le> p then map_option ((#) c) (spec_free (p - blocks c) cs)
      else None)"

text \<open>The live allocations: first block and number of blocks, from block \<open>i\<close> on.\<close>

fun allocs :: "nat \<Rightarrow> chunk list \<Rightarrow> (nat \<times> nat) list" where
  "allocs i [] = []"
| "allocs i (Free # cs) = allocs (Suc i) cs"
| "allocs i (Used k # cs) = (i, Suc k) # allocs (i + Suc k) cs"

lemma encode_simps [simp]:
  "encode [] = []"
  "encode (c # cs) = chunk_entries c @ encode cs"
  "encode (cs @ ds) = encode cs @ encode ds"
  by (simp_all add: encode_def)

lemma encode_replicate_Free [simp]: "encode (replicate n Free) = replicate n 0"
  by (induction n) simp_all

lemma size_of_simps [simp]:
  "size_of [] = 0"
  "size_of (c # cs) = blocks c + size_of cs"
  "size_of (cs @ ds) = size_of cs + size_of ds"
  by (simp_all add: size_of_def)

lemma size_of_replicate_Free [simp]: "size_of (replicate n Free) = n"
  by (induction n) simp_all

lemma length_chunk_entries [simp]: "length (chunk_entries c) = blocks c"
  by (cases c) simp_all

lemma length_encode [simp]: "length (encode cs) = size_of cs"
  by (induction cs) simp_all

lemma is_free_0 [simp]: "is_free 0"
  by (simp add: is_free_def)

lemma is_free_taken_run [simp]: "map is_free (taken_run n) = replicate n False"
proof -
  have "x \<in> set (taken_run n) \<Longrightarrow> \<not> is_free x" for x
    by (auto simp: taken_run_def is_free_def split: if_splits)
  then show ?thesis
    by (intro nth_equalityI) simp_all
qed

text \<open>Splitting off the chunk list at an allocation or a release.\<close>

lemma spec_alloc_split:
  "spec_alloc n cs = Some (p, ds) \<Longrightarrow>
   \<exists>pre post. cs = pre @ replicate n Free @ post \<and> ds = pre @ Used (n - 1) # post \<and>
     size_of pre = p"
proof (induction cs arbitrary: p ds)
  case (Cons c cs)
  show ?case
  proof (cases "n \<le> length (c # cs) \<and> take n (c # cs) = replicate n Free")
    case True
    then have "p = 0" "ds = Used (n - 1) # drop n (c # cs)"
      using Cons.prems by (simp_all del: take_Cons' drop_Cons')
    moreover have "c # cs = replicate n Free @ drop n (c # cs)"
      using True by (metis append_take_drop_id)
    ultimately show ?thesis
      by (intro exI [of _ "[]"] exI [of _ "drop n (c # cs)"]) simp
  next
    case False
    then obtain q es where q: "spec_alloc n cs = Some (q, es)" "p = blocks c + q" "ds = c # es"
      using Cons.prems by (auto simp only: spec_alloc.simps if_False map_option_eq_Some)
    from Cons.IH [OF q(1)] obtain pre post where
      "cs = pre @ replicate n Free @ post" "es = pre @ Used (n - 1) # post" "size_of pre = q"
      by blast
    with q show ?thesis by (intro exI [of _ "c # pre"] exI [of _ post]) simp
  qed
qed simp

lemma spec_free_split:
  "spec_free p cs = Some ds \<Longrightarrow>
   \<exists>pre k post. cs = pre @ Used k # post \<and> ds = pre @ replicate (Suc k) Free @ post \<and>
     size_of pre = p"
proof (induction cs arbitrary: p ds)
  case (Cons c cs)
  show ?case
  proof (cases "p = 0")
    case True
    with Cons.prems obtain k where "c = Used k" "ds = replicate (Suc k) Free @ cs"
      by (cases c) auto
    with True show ?thesis by (intro exI [of _ "[]"]) simp
  next
    case False
    with Cons.prems obtain es where
      es: "blocks c \<le> p" "spec_free (p - blocks c) cs = Some es" "ds = c # es"
      by (auto split: if_splits)
    from Cons.IH [OF es(2)] obtain pre k post where
      "cs = pre @ Used k # post" "es = pre @ replicate (Suc k) Free @ post"
      "size_of pre = p - blocks c" by blast
    with es show ?thesis by (intro exI [of _ "c # pre"]) simp
  qed
qed simp

lemma blocks_pos [simp]: "0 < blocks c"
  by (cases c) simp_all

lemma spec_free_join:
  "spec_free (size_of pre) (pre @ Used k # post) = Some (pre @ replicate (Suc k) Free @ post)"
  by (induction pre) (simp_all del: replicate_Suc add: less_not_refl2)

lemma allocs_append [simp]: "allocs i (cs @ ds) = allocs i cs @ allocs (i + size_of cs) ds"
  by (induction i cs rule: allocs.induct) (simp_all add: add.assoc)

lemma allocs_replicate_Free [simp]: "allocs i (replicate n Free) = []"
  by (induction n arbitrary: i) simp_all

lemma allocs_split:
  "(p, n) \<in> set (allocs i cs) \<Longrightarrow>
   \<exists>pre k post. cs = pre @ Used k # post \<and> p = i + size_of pre \<and> n = Suc k"
proof (induction i cs rule: allocs.induct)
  case (2 i cs)
  then obtain pre k post where "cs = pre @ Used k # post" "p = Suc i + size_of pre" "n = Suc k"
    by auto
  then show ?case by (intro exI [of _ "Free # pre"]) simp
next
  case (3 i l cs)
  show ?case
  proof (cases "(p, n) = (i, Suc l)")
    case True
    then show ?thesis by (intro exI [of _ "[]"]) simp
  next
    case False
    with 3 obtain pre k post where
      "cs = pre @ Used k # post" "p = i + Suc l + size_of pre" "n = Suc k"
      by auto
    then show ?thesis by (intro exI [of _ "Used l # pre"]) simp
  qed
qed simp

lemma allocs_range: "(p, n) \<in> set (allocs i cs) \<Longrightarrow> i \<le> p \<and> p + n \<le> i + size_of cs \<and> 0 < n"
  by (auto dest: allocs_split)

text \<open>Live allocations do not overlap.\<close>

lemma allocs_disjoint:
  "\<lbrakk> (p, n) \<in> set (allocs i cs); (q, k) \<in> set (allocs i cs); p \<noteq> q \<rbrakk> \<Longrightarrow>
   p + n \<le> q \<or> q + k \<le> p"
  by (induction i cs rule: allocs.induct) (auto dest: allocs_range)

lemma allocs_functional:
  "\<lbrakk> (p, n) \<in> set (allocs i cs); (p, k) \<in> set (allocs i cs) \<rbrakk> \<Longrightarrow> n = k"
  by (induction i cs rule: allocs.induct) (auto dest: allocs_range)

lemma allocs_distinct: "distinct (allocs i cs)"
  by (induction i cs rule: allocs.induct) (auto dest: allocs_range)

section \<open>The scan finds the first fit\<close>

lemma run_at_encode:
  "run_at n (map is_free (encode cs)) \<longleftrightarrow> n \<le> length cs \<and> take n cs = replicate n Free"
proof (induction cs arbitrary: n)
  case Nil
  then show ?case by (auto simp: run_at_def)
next
  case (Cons c cs)
  show ?case
    by (cases n; cases c) (auto simp: run_at_Suc Cons.IH)
qed

lemma first_fit_used:
  "0 < n \<Longrightarrow> first_fit n (replicate k False @ fs) = map_option ((+) k) (first_fit n fs)"
proof (induction k)
  case 0
  then show ?case by (simp add: option.map_ident)
next
  case (Suc k)
  moreover obtain l where "n = Suc l" using Suc.prems by (cases n) auto
  ultimately show ?case by (simp add: run_at_Suc option.map_comp comp_def)
qed

lemma first_fit_encode:
  "0 < n \<Longrightarrow> first_fit n (map is_free (encode cs)) = map_option fst (spec_alloc n cs)"
proof (induction cs)
  case (Cons c cs)
  have here: "run_at n (map is_free (encode (c # cs))) \<longleftrightarrow>
      n \<le> length (c # cs) \<and> take n (c # cs) = replicate n Free"
    by (rule run_at_encode)
  show ?case
  proof (cases c)
    case Free
    then have "map is_free (encode (c # cs)) = True # map is_free (encode cs)"
      by simp
    with here Cons.IH [OF Cons.prems] Free show ?thesis
      by (simp add: option.map_comp comp_def case_prod_beta)
  next
    case (Used k)
    then have "\<not> (n \<le> length (c # cs) \<and> take n (c # cs) = replicate n Free)"
      using Cons.prems by (cases n) auto
    then have "spec_alloc n (c # cs) = map_option (\<lambda>(p, ds). (blocks c + p, c # ds)) (spec_alloc n cs)"
      by (simp only: spec_alloc.simps if_False)
    then show ?thesis
      using Cons.IH [OF Cons.prems] Used first_fit_used [OF Cons.prems, of "Suc k"]
      by (simp add: option.map_comp comp_def case_prod_beta
          del: replicate_Suc)
  qed
qed simp

section \<open>Refinement\<close>

text \<open>The table in memory represents the chunks \<open>cs\<close>.\<close>

definition heap_repr :: "heap \<Rightarrow> chunk list \<Rightarrow> mem \<Rightarrow> bool" where
  "heap_repr heap cs m \<longleftrightarrow> unat (total (table heap)) < 2 ^ 31 \<and> table_of (table heap) m = encode cs"

definition in_table :: "heap \<Rightarrow> ptr \<Rightarrow> bool" where
  "in_table heap x \<longleftrightarrow> in_region (entries (table heap)) (total (table heap)) x"

lemma heap_repr_size: "heap_repr heap cs m \<Longrightarrow> size_of cs = unat (total (table heap))"
  by (metis heap_repr_def length_encode length_table_of)

lemma heap_repr_cong:
  "(\<And>x. in_table heap x \<Longrightarrow> m x = m' x) \<Longrightarrow> heap_repr heap cs m \<longleftrightarrow> heap_repr heap cs m'"
proof -
  assume same: "\<And>x. in_table heap x \<Longrightarrow> m x = m' x"
  have "table_of (table heap) m = table_of (table heap) m'"
    unfolding table_of_def
  proof (rule bytes_at_cong)
    fix i assume i: "i < unat (total (table heap))"
    then have "i < 2 ^ 32" using unat_range_u32 [of "total (table heap)"] by simp
    with i show "m (entries (table heap) + of_nat i) = m' (entries (table heap) + of_nat i)"
      by (intro same) (simp add: in_table_def in_region_of_nat)
  qed
  then show ?thesis by (simp add: heap_repr_def)
qed

text \<open>Overwriting the entries of a part of the chunks by those of other chunks.\<close>

lemma heap_repr_put:
  assumes "heap_repr heap (pre @ mid @ post) m" and "size_of mid' = size_of mid"
    and "bs = encode mid'" and "p = size_of pre"
  shows "heap_repr heap (pre @ mid' @ post) (put_bytes (entries (table heap) + of_nat p) bs m)"
proof -
  have tab: "table_of (table heap) m = encode pre @ encode mid @ encode post"
    and tot: "unat (total (table heap)) < 2 ^ 31"
    using assms(1) by (simp_all add: heap_repr_def)
  have "size_of pre + size_of mid + size_of post = unat (total (table heap))"
    using heap_repr_size [OF assms(1)] by simp
  then have "table_of (table heap) (put_bytes (entries (table heap) + of_nat p) bs m) =
      take p (table_of (table heap) m) @ bs @ drop (p + length bs) (table_of (table heap) m)"
    unfolding table_of_def using assms(2-4) unat_range_u32 [of "total (table heap)"]
    by (intro bytes_at_put_within) simp_all
  then show ?thesis
    using assms(2-4) tot by (simp add: heap_repr_def tab)
qed

lemma put_in_table:
  assumes "p + length bs \<le> unat (total (table heap))" and "\<not> in_table heap x"
  shows "put_bytes (entries (table heap) + of_nat p) bs m x = m x"
proof (rule put_bytes_out)
  have t: "unat (total (table heap)) < 2 ^ 32" by (rule unat_range_u32)
  then show "length bs < 2 ^ 32" using assms(1) by simp
  define i where "i = unat (x - entries (table heap))"
  have x: "x = entries (table heap) + of_nat i" by (simp add: i_def)
  have i: "i < 2 ^ 32" unfolding i_def by (rule unat_range_u32)
  have "\<not> i < unat (total (table heap))"
    using assms(2) by (simp add: in_table_def in_region_def word_less_nat_alt i_def)
  then show "\<not> in_region (entries (table heap) + of_nat p) (of_nat (length bs)) x"
    unfolding x using assms(1) t i by (subst in_region_offset) auto
qed

text \<open>The size in blocks of a request in bytes.\<close>

definition blocks_for :: "u32 \<Rightarrow> nat" where
  "blocks_for sz = (unat sz + 4095) div 4096"

lemma blocks_for_pos: "0 < sz \<Longrightarrow> 0 < blocks_for sz"
  by (simp add: blocks_for_def word_less_nat_alt div_greater_zero_iff)

definition block_addr :: "heap \<Rightarrow> nat \<Rightarrow> ptr" where
  "block_addr heap p = saddr heap + of_nat (4096 * p)"

lemma heap_block_to_address_eq: "heap_block_to_address heap (of_nat p) = block_addr heap p"
  by (simp add: heap_block_to_address_def block_addr_def heap_block_size_def)

lemma heap_malloc_unfold:
  assumes "unat sz \<le> 4294963200" and "unat (total (table heap)) < 2 ^ 31"
  shows "heap_malloc heap sz m =
    (case start_block (blocks_for sz) (map is_free (table_of (table heap) m)) of
       None \<Rightarrow> (0, m)
     | Some p \<Rightarrow> (block_addr heap p,
         heap_mark_blocks_taken heap (of_nat p) (of_nat (blocks_for sz)) m))"
proof -
  let ?sb = "start_block (blocks_for sz) (map is_free (table_of (table heap) m))"
  have n: "unat (heap_align_value_to_upper sz div heap_block_size) = blocks_for sz"
    using assms(1) by (simp add: blocks_of_size blocks_for_def)
  then have nw: "heap_align_value_to_upper sz div heap_block_size = of_nat (blocks_for sz)"
    unfolding n [symmetric] by simp
  have "p < 2 ^ 31" if "?sb = Some p" for p
    using start_block_le [OF that] assms(2) by simp
  then show ?thesis
    unfolding heap_malloc_def heap_malloc_blocks_def Let_def
      heap_get_start_block_eq [OF assms(2)] n
    by (auto simp: nw heap_block_to_address_eq word_sless_alt sint_of_nat_u32 enomem_def
        split: option.splits)
qed

text \<open>A request that fits is served by first fit: the address of the first block is
  returned, the table represents the new chunks, and no other memory changes.\<close>

lemma heap_malloc_fit:
  assumes repr: "heap_repr heap cs m" and sz: "0 < sz" "unat sz \<le> 4294963200"
    and alloc: "spec_alloc (blocks_for sz) cs = Some (p, ds)"
  defines "m' \<equiv> put_bytes (entries (table heap) + of_nat p) (taken_run (blocks_for sz)) m"
  shows "heap_malloc heap sz m = (block_addr heap p, m')"
    and "heap_repr heap ds m'"
    and "\<not> in_table heap x \<Longrightarrow> m' x = m x"
    and "p + blocks_for sz \<le> unat (total (table heap))"
proof -
  let ?n = "blocks_for sz"
  have n: "0 < ?n" by (rule blocks_for_pos [OF sz(1)])
  have tot: "unat (total (table heap)) < 2 ^ 31" and tab: "table_of (table heap) m = encode cs"
    using repr by (simp_all add: heap_repr_def)
  obtain pre post where cs: "cs = pre @ replicate ?n Free @ post"
    and ds: "ds = pre @ [Used (?n - 1)] @ post" and p: "size_of pre = p"
    using spec_alloc_split [OF alloc] by auto
  show fit: "p + ?n \<le> unat (total (table heap))"
    using heap_repr_size [OF repr] cs p by simp
  have "start_block ?n (map is_free (table_of (table heap) m)) = Some p"
    using n first_fit_encode [OF n, of cs] alloc by (simp add: start_block_def tab)
  then show "heap_malloc heap sz m = (block_addr heap p, m')"
    using heap_malloc_unfold [OF sz(2) tot] fit tot
    by (simp add: heap_mark_blocks_taken_eq m'_def)
  show "heap_repr heap ds m'"
    unfolding m'_def ds
    by (rule heap_repr_put [OF repr [unfolded cs]]) (use n p in simp_all)
  show "\<not> in_table heap x \<Longrightarrow> m' x = m x"
    unfolding m'_def using fit by (intro put_in_table) simp_all
qed

text \<open>Releasing an allocation turns its blocks into free ones.\<close>

lemma heap_address_to_block_eq:
  assumes "4096 * p < 2 ^ 31"
  shows "heap_address_to_block heap (block_addr heap p) = of_nat p"
proof -
  have "sint (block_addr heap p - saddr heap) = int (4096 * p)"
    using sint_of_nat_u32 [OF assms] by (simp add: block_addr_def)
  moreover have "int (4096 * p) sdiv 4096 = int p"
    by (cases p) (simp_all add: signed_divide_int_def sgn_if)
  ultimately show ?thesis
    by (simp add: heap_address_to_block_def heap_block_size_def)
qed

lemma heap_free_live:
  assumes repr: "heap_repr heap cs m" and live: "spec_free p cs = Some ds"
    and addr: "4096 * unat (total (table heap)) < 2 ^ 31"
  defines "m' \<equiv> heap_free heap (block_addr heap p) m"
  shows "heap_repr heap ds m'" and "\<not> in_table heap x \<Longrightarrow> m' x = m x"
    and "\<exists>n. (p, n) \<in> set (allocs 0 cs) \<and>
      m' = put_bytes (entries (table heap) + of_nat p) (replicate n 0) m"
proof -
  have tot: "unat (total (table heap)) < 2 ^ 31" and tab: "table_of (table heap) m = encode cs"
    using repr by (simp_all add: heap_repr_def)
  obtain pre k post where cs: "cs = pre @ [Used k] @ post"
    and ds: "ds = pre @ replicate (Suc k) Free @ post" and p: "size_of pre = p"
    using spec_free_split [OF live] by auto
  have fit: "p + Suc k \<le> unat (total (table heap))"
    using heap_repr_size [OF repr] cs p by simp
  have "bytes_at m (entries (table heap) + of_nat p) (Suc k) =
      take (Suc k) (drop p (table_of (table heap) m))"
    using fit by (intro nth_equalityI) (simp_all add: table_of_def ac_simps)
  then have run: "bytes_at m (entries (table heap) + of_nat p) (Suc k) = taken_run (Suc k)"
    by (simp add: tab cs flip: p)
  have "4096 * p < 2 ^ 31" using addr fit by simp
  then have m': "m' = put_bytes (entries (table heap) + of_nat p) (replicate (Suc k) 0) m"
    unfolding m'_def heap_free_def
    by (simp add: heap_address_to_block_eq heap_mark_blocks_free_eq [OF run _ fit tot] del: replicate_Suc)
  show "heap_repr heap ds m'"
    unfolding m' ds
    by (rule heap_repr_put [OF repr [unfolded cs]]) (use p in simp_all)
  show "\<not> in_table heap x \<Longrightarrow> m' x = m x"
    unfolding m' using fit by (intro put_in_table) simp_all
  show "\<exists>n. (p, n) \<in> set (allocs 0 cs) \<and>
      m' = put_bytes (entries (table heap) + of_nat p) (replicate n 0) m"
    by (intro exI [of _ "Suc k"]) (simp add: cs p m' del: replicate_Suc)
qed

section \<open>Reading a table back\<close>

fun decode :: "u8 list \<Rightarrow> chunk list option" where
  "decode [] = Some []"
| "decode (x # xs) =
     (if x = 0 then map_option ((#) Free) (decode xs)
      else if x = 0x41 then map_option ((#) (Used 0)) (decode xs)
      else if x = 0xC1 then
        (let n = length (takeWhile (\<lambda>y. y = 0x81) xs)
         in if n < length xs \<and> xs ! n = 0x01
            then map_option ((#) (Used (Suc n))) (decode (drop (Suc n) xs))
            else None)
      else None)"

lemma takeWhile_replicate_append:
  "y \<noteq> x \<Longrightarrow> takeWhile (\<lambda>z. z = x) (replicate n x @ y # ys) = replicate n x"
  by (induction n) simp_all

lemma decode_encode: "decode (encode cs) = Some cs"
proof (induction cs)
  case (Cons c cs)
  show ?case
  proof (cases c)
    case (Used k)
    then show ?thesis
    proof (cases k)
      case (Suc l)
      have "encode (c # cs) = 0xC1 # replicate l 0x81 @ 0x01 # encode cs"
        by (simp add: Used Suc taken_run_def)
      then show ?thesis
        using Cons.IH by (simp add: Let_def takeWhile_replicate_append nth_append Used Suc)
    qed (simp add: taken_run_def Cons.IH)
  qed (simp add: Cons.IH)
qed simp

lemma takeWhile_eq_replicate: "takeWhile (\<lambda>z. z = x) xs = replicate (length (takeWhile (\<lambda>z. z = x) xs)) x"
  by (induction xs) simp_all

lemma encode_decode: "decode t = Some cs \<Longrightarrow> encode cs = t"
proof (induction t arbitrary: cs rule: decode.induct)
  case (2 x xs)
  let ?n = "length (takeWhile (\<lambda>y. y = 0x81) xs)"
  consider "x = 0" | "x = 0x41" | "x = 0xC1" "?n < length xs" "xs ! ?n = 0x01"
    using "2.prems" by (auto simp: Let_def split: if_splits)
  then show ?case
  proof cases
    case 3
    then obtain ds where ds: "decode (drop (Suc ?n) xs) = Some ds" "cs = Used (Suc ?n) # ds"
      using "2.prems" by (auto simp: Let_def)
    have "encode ds = drop (Suc ?n) xs"
      by (rule "2.IH"(3)) (use 3 ds in simp_all)
    moreover have "xs = replicate ?n 0x81 @ 0x01 # drop (Suc ?n) xs"
    proof -
      have "xs = take ?n xs @ drop ?n xs" by simp
      also have "take ?n xs = replicate ?n 0x81"
        using takeWhile_eq_replicate [of "0x81" xs] takeWhile_eq_take [of "\<lambda>y. y = 0x81" xs] by simp
      also have "drop ?n xs = 0x01 # drop (Suc ?n) xs"
        using 3 by (metis Cons_nth_drop_Suc)
      finally show ?thesis .
    qed
    ultimately show ?thesis by (simp add: ds 3 taken_run_def)
  qed (use 2 in \<open>auto simp: taken_run_def\<close>)
qed simp

definition chunks :: "heap \<Rightarrow> mem \<Rightarrow> chunk list option" where
  "chunks heap m = decode (table_of (table heap) m)"

lemma chunks_iff:
  "unat (total (table heap)) < 2 ^ 31 \<Longrightarrow> chunks heap m = Some cs \<longleftrightarrow> heap_repr heap cs m"
  by (auto simp: chunks_def heap_repr_def decode_encode dest: encode_decode)

section \<open>First fit is the least fit\<close>

lemma first_fit_Some_iff:
  "first_fit n fs = Some p \<Longrightarrow>
   p \<le> length fs \<and> run_at n (drop p fs) \<and> (\<forall>q < p. \<not> run_at n (drop q fs))"
proof (induction fs arbitrary: p)
  case Nil
  then show ?case by (auto simp: run_at_def split: if_splits)
next
  case (Cons f fs)
  show ?case
  proof (cases "run_at n (f # fs)")
    case True
    with Cons.prems show ?thesis by auto
  next
    case False
    then obtain q where "first_fit n fs = Some q" "p = Suc q"
      using Cons.prems by auto
    with Cons.IH [of q] False show ?thesis by (auto simp: less_Suc_eq_0_disj)
  qed
qed

lemma first_fit_None_iff: "first_fit n fs = None \<Longrightarrow> \<not> run_at n (drop q fs)"
proof (induction fs arbitrary: q)
  case Nil
  then show ?case by (auto simp: run_at_def split: if_splits)
next
  case (Cons f fs)
  then show ?case by (cases q) (auto split: if_splits)
qed

section \<open>Properties\<close>

text \<open>A heap with a four-block table and a second one whose first two blocks are taken, the
  concrete inputs of the witnesses.\<close>

definition small_heap :: heap where
  "small_heap = \<lparr>table = \<lparr>entries = 0x7E00, total = 4\<rparr>, saddr = 0x1000000\<rparr>"

definition small_mem :: mem where
  "small_mem = (\<lambda>_. 0)(0x7E00 := 0xC1, 0x7E01 := 0x01)"

lemma small_repr:
  "heap_repr small_heap [Free, Free, Free, Free] (\<lambda>_. 0)"
  "heap_repr small_heap [Used 1, Free, Free] small_mem"
  by (simp_all add: heap_repr_def table_of_def small_heap_def small_mem_def taken_run_def)

text \<open>C3. \<open>heap_malloc\<close> refines first-fit allocation. When the table represents the chunks
  \<open>cs\<close> and the abstract allocator places the request at block \<open>p\<close>, the code returns the
  address of block \<open>p\<close>, the new table represents the abstract result, and no byte outside
  the table changes.\<close>

theorem heap_malloc_first_fit:
  assumes "heap_repr heap cs m" and "0 < sz" and "unat sz \<le> 4294963200"
    and "spec_alloc (blocks_for sz) cs = Some (p, ds)"
  shows "\<exists>m'. heap_malloc heap sz m = (block_addr heap p, m') \<and> heap_repr heap ds m' \<and>
    (\<forall>x. \<not> in_table heap x \<longrightarrow> m' x = m x)"
  using heap_malloc_fit [OF assms] by blast

theorem heap_malloc_first_fit_witness:
  "\<exists>m'. heap_malloc small_heap 5000 small_mem = (0x1002000, m') \<and>
     heap_repr small_heap [Used 1, Used 1] m'"
proof -
  have b: "blocks_for 5000 = 2" by (simp add: blocks_for_def)
  have "spec_alloc (blocks_for 5000) [Used 1, Free, Free] = Some (2, [Used 1, Used 1])"
    unfolding b by code_simp
  moreover have "block_addr small_heap 2 = 0x1002000"
    by (simp add: block_addr_def small_heap_def)
  ultimately show ?thesis
    using heap_malloc_first_fit [OF small_repr(2), of 5000 2 "[Used 1, Used 1]"] by auto
qed

text \<open>C12. \<open>heap_malloc\<close> when no run of free blocks is long enough. If the last block is
  taken, it returns NULL and changes nothing. If the table ends in \<open>k\<close> free blocks, too few
  for the request, it returns their address instead of NULL and marks the whole request from
  there: the entry just past the table is overwritten.\<close>

theorem heap_malloc_no_fit:
  assumes "heap_repr heap cs m" and "0 < sz" and "unat sz \<le> 4294963200"
    and "spec_alloc (blocks_for sz) cs = None" and "k = trailing (map is_free (encode cs))"
    and "unat (total (table heap)) \<le> 2 ^ 20"
  shows "(k = 0 \<longrightarrow> heap_malloc heap sz m = (0, m)) \<and>
    (0 < k \<longrightarrow> k < blocks_for sz \<and>
      heap_malloc heap sz m = (block_addr heap (size_of cs - k),
        put_bytes (entries (table heap) + of_nat (size_of cs - k)) (taken_run (blocks_for sz)) m) \<and>
      snd (heap_malloc heap sz m) (entries (table heap) + total (table heap)) \<noteq> 0)"
proof -
  let ?n = "blocks_for sz" and ?p = "size_of cs - k"
  have n: "0 < ?n" by (rule blocks_for_pos [OF assms(2)])
  have tot: "unat (total (table heap)) < 2 ^ 31" and tab: "table_of (table heap) m = encode cs"
    using assms(1) by (simp_all add: heap_repr_def)
  have size: "size_of cs = unat (total (table heap))" by (rule heap_repr_size [OF assms(1)])
  have kle: "k \<le> size_of cs" using trailing_le [of "map is_free (encode cs)"] assms(5) by simp
  have none: "first_fit ?n (map is_free (encode cs)) = None"
    using first_fit_encode [OF n] assms(4) by simp
  have k: "k < ?n"
  proof (rule ccontr)
    assume "\<not> k < ?n"
    then have "run_at ?n (drop ?p (map is_free (encode cs)))"
      using trailing_run [of ?n "map is_free (encode cs)"] assms(5) by simp
    with first_fit_None_iff [OF none] show False by blast
  qed
  have nb: "?n \<le> 2 ^ 20" using assms(3) by (simp add: blocks_for_def)
  have sb: "start_block ?n (map is_free (encode cs)) = (if k = 0 then None else Some ?p)"
    using n none assms(5) by (simp add: start_block_def)
  have m: "heap_malloc heap sz m = (block_addr heap ?p,
      put_bytes (entries (table heap) + of_nat ?p) (taken_run ?n) m)" if "0 < k"
  proof -
    have "?p + ?n < 2 ^ 31" using nb assms(6) size by simp
    then show ?thesis
      using heap_malloc_unfold [OF assms(3) tot] that sb
      by (simp add: tab heap_mark_blocks_taken_eq del: of_nat_diff)
  qed
  have past: "entries (table heap) + total (table heap) =
      entries (table heap) + of_nat ?p + of_nat k"
    using kle size by (simp flip: of_nat_add)
  have "put_bytes (entries (table heap) + of_nat ?p) (taken_run ?n) m
      (entries (table heap) + total (table heap)) \<noteq> 0"
    unfolding past using k nb taken_run_nonzero [OF nth_mem, of k ?n] by (simp add: put_bytes_nth)
  with k m show ?thesis
    using heap_malloc_unfold [OF assms(3) tot] sb by (simp add: tab)
qed

theorem heap_malloc_no_fit_witness:
  "heap_malloc small_heap 12288 small_mem =
     (0x1002000, put_bytes 0x7E02 (taken_run 3) small_mem) \<and>
   snd (heap_malloc small_heap 12288 small_mem) 0x7E04 \<noteq> 0"
proof -
  have b: "blocks_for 12288 = 3" by (simp add: blocks_for_def)
  have s: "spec_alloc (blocks_for 12288) [Used 1, Free, Free] = None"
    "trailing (map is_free (encode [Used 1, Free, Free])) = 2"
    unfolding b by code_simp+
  have t: "entries (table small_heap) = 0x7E00" "total (table small_heap) = 4"
    "size_of [Used 1, Free, Free] = 4" "block_addr small_heap 2 = 0x1002000"
    by (simp_all add: small_heap_def block_addr_def)
  have "unat (12288 :: u32) \<le> 4294963200" and "unat (total (table small_heap)) \<le> 2 ^ 20"
    by (simp_all add: t)
  from heap_malloc_no_fit [OF small_repr(2) _ this(1) s(1) s(2) [symmetric] this(2)]
  show ?thesis unfolding b t(1,2,3) by (simp add: t(4) taken_run_def)
qed

text \<open>C4. \<open>heap_free\<close> on the address of a live allocation refines the abstract release: the
  allocation's blocks become free chunks, every other chunk stays, and no byte outside the
  table changes.\<close>

theorem heap_free_releases:
  assumes "heap_repr heap (pre @ Used k # post) m"
    and "4096 * unat (total (table heap)) < 2 ^ 31"
  shows "heap_repr heap (pre @ replicate (Suc k) Free @ post)
           (heap_free heap (block_addr heap (size_of pre)) m) \<and>
    (\<forall>x. \<not> in_table heap x \<longrightarrow> heap_free heap (block_addr heap (size_of pre)) m x = m x)"
  using heap_free_live [OF assms(1) spec_free_join assms(2)] by blast

theorem heap_free_releases_witness:
  "heap_repr small_heap [Free, Free, Free, Free] (heap_free small_heap 0x1000000 small_mem)"
  using heap_free_releases [of small_heap "[]" 1 "[Free, Free]" small_mem] small_repr(2)
  by (simp add: small_heap_def block_addr_def)

text \<open>Allocating and freeing at once restores the memory exactly, table included.\<close>

theorem heap_malloc_free_roundtrip:
  assumes "heap_repr heap cs m" and "0 < sz" and "unat sz \<le> 4294963200"
    and "spec_alloc (blocks_for sz) cs \<noteq> None"
    and "4096 * unat (total (table heap)) < 2 ^ 31"
  shows "(case heap_malloc heap sz m of (p, m') \<Rightarrow> heap_free heap p m') = m"
proof -
  let ?n = "blocks_for sz"
  obtain p ds where alloc: "spec_alloc ?n cs = Some (p, ds)"
    using assms(4) by auto
  define m' where "m' = put_bytes (entries (table heap) + of_nat p) (taken_run ?n) m"
  note fit = heap_malloc_fit [OF assms(1-3) alloc, folded m'_def]
  have n: "0 < ?n" by (rule blocks_for_pos [OF assms(2)])
  obtain pre post where cs: "cs = pre @ replicate ?n Free @ post"
    and ds: "ds = pre @ Used (?n - 1) # post" and p: "size_of pre = p"
    using spec_alloc_split [OF alloc] by auto
  have "spec_free p ds = Some (pre @ replicate (Suc (?n - 1)) Free @ post)"
    unfolding ds p [symmetric] by (rule spec_free_join)
  then obtain l where l: "(p, l) \<in> set (allocs 0 ds)"
    and free: "heap_free heap (block_addr heap p) m' =
      put_bytes (entries (table heap) + of_nat p) (replicate l 0) m'"
    using heap_free_live(3) [OF fit(2) _ assms(5)] by blast
  have "(p, ?n) \<in> set (allocs 0 ds)" using n by (simp add: ds p)
  with l have "l = ?n" by (rule allocs_functional)
  moreover have "bytes_at m (entries (table heap) + of_nat p) ?n = replicate ?n 0"
  proof -
    have "bytes_at m (entries (table heap) + of_nat p) ?n =
        take ?n (drop p (table_of (table heap) m))"
      using fit(4) by (intro nth_equalityI) (simp_all add: table_of_def ac_simps)
    also have "table_of (table heap) m = encode cs"
      using assms(1) by (simp add: heap_repr_def)
    finally show ?thesis by (simp add: cs flip: p)
  qed
  moreover have "?n < 2 ^ 32"
    using fit(4) unat_range_u32 [of "total (table heap)"] by simp
  ultimately have "put_bytes (entries (table heap) + of_nat p) (replicate l 0) m' = m"
    unfolding m'_def by (intro put_bytes_bytes_at_eq [of _ ?n]) simp_all
  then have "heap_free heap (block_addr heap p) m' = m" unfolding free .
  then show ?thesis using fit(1) by simp
qed

theorem heap_malloc_free_roundtrip_witness:
  "(case heap_malloc small_heap 5000 small_mem of (p, m') \<Rightarrow> heap_free small_heap p m') = small_mem"
proof (rule heap_malloc_free_roundtrip [OF small_repr(2)])
  have b: "blocks_for 5000 = 2" by (simp add: blocks_for_def)
  show "spec_alloc (blocks_for 5000) [Used 1, Free, Free] \<noteq> None" unfolding b by code_simp
qed (simp_all add: small_heap_def)

text \<open>\<open>heap_get_start_block\<close>, for a request of at least one block: when the table holds a
  run of free blocks of the requested length it returns the first such run; otherwise it
  returns the start of the free blocks at the end of the table, and \<open>-ENOMEM\<close> only when the
  last block is taken.\<close>

theorem heap_get_start_block_least:
  fixes heap n m
  defines "fs \<equiv> map is_free (table_of (table heap) m)"
  assumes "unat (total (table heap)) < 2 ^ 31" and "0 < n"
  shows "(\<exists>p. heap_get_start_block heap n m = of_nat p \<and> p \<le> length fs \<and>
            run_at (unat n) (drop p fs) \<and> (\<forall>q < p. \<not> run_at (unat n) (drop q fs))) \<or>
    (\<forall>q. \<not> run_at (unat n) (drop q fs)) \<and>
      heap_get_start_block heap n m =
        (if trailing fs = 0 then - enomem else of_nat (length fs - trailing fs))"
proof -
  have "unat n \<noteq> 0" using assms(3) by (simp add: word_less_nat_alt)
  then have eq: "heap_get_start_block heap n m =
      (case first_fit (unat n) fs of Some p \<Rightarrow> of_nat p
       | None \<Rightarrow> if trailing fs = 0 then - enomem else of_nat (length fs - trailing fs))"
    unfolding heap_get_start_block_eq [OF assms(2)] fs_def start_block_def
    by (simp split: option.splits)
  show ?thesis
  proof (cases "first_fit (unat n) fs")
    case None
    with eq first_fit_None_iff [OF None] show ?thesis by simp
  next
    case (Some p)
    with eq first_fit_Some_iff [OF Some] show ?thesis by auto
  qed
qed

theorem heap_get_start_block_least_witness:
  "(\<exists>p. heap_get_start_block small_heap 2 small_mem = of_nat p \<and> p \<le> 4 \<and>
     run_at 2 (drop p [False, False, True, True]) \<and>
     (\<forall>q < p. \<not> run_at 2 (drop q [False, False, True, True])))"
proof -
  define fs where "fs = [False, False, True, True]"
  have f: "map is_free (table_of (table small_heap) small_mem) = fs"
    by (simp add: small_heap_def small_mem_def table_of_def is_free_def fs_def)
  have r: "run_at 2 (drop 2 fs)" unfolding fs_def by code_simp
  have u: "unat (2 :: u32) = 2" "length fs = 4" by (simp_all add: fs_def)
  have "unat (total (table small_heap)) < 2 ^ 31" by (simp add: small_heap_def)
  note w = heap_get_start_block_least [OF this, of 2 small_mem, unfolded f u]
  show ?thesis
    unfolding fs_def [symmetric] by (rule disjE [OF w]) (simp, assumption, use r in blast)
qed

text \<open>\<open>heap_create\<close> accepts exactly the aligned ranges whose table has one entry per
  block; it then leaves an all-free table and changes no byte outside it. In every other case
  it returns \<open>-EINVARG\<close> and leaves the memory alone.\<close>

theorem heap_create_correct:
  assumes "unat (total tab) < 2 ^ 31"
  shows "case heap_create heap p end tab m of (res, heap', m') \<Rightarrow>
    (res = 0 \<longleftrightarrow> 4096 dvd unat p \<and> 4096 dvd unat end \<and>
       unat (total tab) = unat (end - p) div 4096) \<and>
    (res \<noteq> 0 \<longrightarrow> res = - einvarg \<and> m' = m) \<and>
    (res = 0 \<longrightarrow> saddr heap' = p \<and> table heap' = tab \<and>
       heap_repr heap' (replicate (unat (total tab)) Free) m' \<and>
       (\<forall>x. \<not> in_table heap' x \<longrightarrow> m' x = m x))"
proof -
  have al: "heap_check_alignment q \<longleftrightarrow> 4096 dvd unat q" for q
    by (simp add: heap_check_alignment_def word_unat_eq_iff unat_mod_distrib dvd_eq_mod_eq_0)
  have ct: "heap_check_table p end tab = (if unat (total tab) = unat (end - p) div 4096 then 0 else - einvarg)"
    by (simp add: heap_check_table_def Let_def word_unat_eq_iff unat_div_distrib)
  let ?m = "memset (entries tab) (ucast heap_block_table_entry_free) (total tab) m"
  have "bytes_at ?m (entries tab) (unat (total tab)) = replicate (unat (total tab)) 0"
  proof (rule nth_equalityI)
    fix i assume "i < length (bytes_at ?m (entries tab) (unat (total tab)))"
    then show "bytes_at ?m (entries tab) (unat (total tab)) ! i = replicate (unat (total tab)) 0 ! i"
      using assms by (simp add: memset_apply in_region_of_nat heap_block_table_entry_free_def)
  qed simp
  moreover have "- einvarg <s 0" "- einvarg \<noteq> 0" by (simp_all add: einvarg_def word_sless_alt)
  ultimately show ?thesis
    using assms by (auto simp: heap_create_def al ct Let_def heap_repr_def table_of_def in_table_def)
qed

theorem heap_create_correct_witness:
  "case heap_create small_heap 0x1000000 0x1004000 \<lparr>entries = 0x7E00, total = 4\<rparr> small_mem of
     (res, heap', m') \<Rightarrow> res = 0 \<longrightarrow> heap_repr heap' (replicate 4 Free) m'"
proof -
  have "unat (total \<lparr>entries = 0x7E00, total = 4\<rparr>) < 2 ^ 31" by simp
  from heap_create_correct [OF this]
  show ?thesis by (simp add: case_prod_beta)
qed

text \<open>C13. A request of zero bytes, and a request in the last page of the 32-bit range, whose
  rounded size wraps to zero: \<open>heap_malloc\<close> reserves nothing. It returns the address of the
  free blocks at the end of the table, which a later request gets too, or NULL when the last
  block is taken.\<close>

theorem heap_malloc_zero_blocks:
  assumes "heap_repr heap cs m" and "sz = 0 \<or> 4294963200 < unat sz"
  shows "heap_malloc heap sz m =
    (let k = trailing (map is_free (encode cs))
     in (if k = 0 then 0 else block_addr heap (size_of cs - k), m))"
proof -
  have tot: "unat (total (table heap)) < 2 ^ 31" and tab: "table_of (table heap) m = encode cs"
    using assms(1) by (simp_all add: heap_repr_def)
  have size: "size_of cs < 2 ^ 31" using heap_repr_size [OF assms(1)] tot by simp
  have "heap_align_value_to_upper sz = 0"
    using assms(2) heap_align_value_to_upper_eq [of sz] by (auto simp: word_unat_eq_iff)
  then have n: "heap_align_value_to_upper sz div heap_block_size = 0" by simp
  have mark: "heap_mark_blocks_taken heap (of_nat p) 0 m = m" if "p < 2 ^ 31" for p
    using heap_mark_blocks_taken_eq [of p 0 heap m] that by (simp add: taken_run_def)
  define k where "k = trailing (map is_free (encode cs))"
  have sb: "start_block 0 (map is_free (encode cs)) = (if k = 0 then None else Some (size_of cs - k))"
    by (simp add: start_block_def k_def)
  show ?thesis
    unfolding heap_malloc_def heap_malloc_blocks_def Let_def n heap_get_start_block_eq [OF tot]
      tab unat_0 sb k_def [symmetric]
    using size mark [of "size_of cs - k"]
    by (simp add: heap_block_to_address_eq word_sless_alt sint_of_nat_u32 enomem_def del: of_nat_diff)
qed

theorem heap_malloc_zero_blocks_witness:
  "heap_malloc small_heap 0 small_mem = (0x1002000, small_mem)"
proof -
  have t: "trailing (map is_free (encode [Used (Suc 0), Free, Free])) = 2" by code_simp
  have z: "heap_malloc small_heap 0 small_mem =
      (let k = trailing (map is_free (encode [Used (Suc 0), Free, Free]))
       in (if k = 0 then 0 else block_addr small_heap (size_of [Used 1, Free, Free] - k), small_mem))"
    using heap_malloc_zero_blocks [OF small_repr(2), of 0] by simp
  show ?thesis
    unfolding z t by (simp add: block_addr_def small_heap_def)
qed

end
