(* ===== verification/KHeap.thy ===== *)
theory KHeap
  imports Heap
begin

text \<open>
  \<open>src/memory/heap/kheap.c\<close>: the kernel heap, the two global objects and the four
  operations over them. The locales \<open>allocator\<close>, \<open>page_allocator\<close> and
  \<open>zeroing_allocator\<close> are the contract the rest of the kernel relies on: live blocks never
  overlap, an operation keeps the bytes of every other live block, a released block is no
  longer live. They are interpreted on \<open>kmalloc\<close>, \<open>kzalloc\<close> and \<open>kfree\<close>.
\<close>

record kheap = terminal +
  kernel_heap_table :: heap_table
  kernel_heap :: heap

section \<open>Operations\<close>

text \<open>The heap object holds a pointer to the table object, which nothing changes after
  \<open>kheap_init\<close>: here the heap holds the table object itself.\<close>

definition kheap_init :: "'a kheap_scheme \<Rightarrow> 'a kheap_scheme" where
  "kheap_init s =
     (let total_table_entries = word_of_int (sint heap_size_bytes sdiv sint heap_block_size);
          tab = \<lparr>entries = heap_table_address, total = total_table_entries\<rparr>;
          end = heap_address + heap_size_bytes;
          (res, heap, m) = heap_create (kernel_heap s) heap_address end tab (phys s);
          s' = s\<lparr>kernel_heap_table := tab, kernel_heap := heap, phys := m\<rparr>
      in if res <s 0 then print_literal (''Failed to create heap'' @ [CHR 0x0A]) s' else s')"

definition kmalloc :: "u32 \<Rightarrow> 'a kheap_scheme \<Rightarrow> ptr \<times> 'a kheap_scheme" where
  "kmalloc sz s =
     (let (p, m) = heap_malloc (kernel_heap s) sz (phys s) in (p, s\<lparr>phys := m\<rparr>))"

definition kzalloc :: "u32 \<Rightarrow> 'a kheap_scheme \<Rightarrow> ptr \<times> 'a kheap_scheme" where
  "kzalloc sz s =
     (let (p, s') = kmalloc sz s
      in if p = 0 then (0, s') else (p, s'\<lparr>phys := memset p 0 sz (phys s')\<rparr>))"

definition kfree :: "ptr \<Rightarrow> 'a kheap_scheme \<Rightarrow> 'a kheap_scheme" where
  "kfree p s = s\<lparr>phys := heap_free (kernel_heap s) p (phys s)\<rparr>"

section \<open>The contract of an allocator\<close>

text \<open>\<open>live s\<close> holds the address and the length of every live block; \<open>room n s\<close> says that
  a request for \<open>n\<close> bytes can be served; \<open>byte\<close> reads and \<open>poke\<close> writes a byte.\<close>

locale allocator =
  fixes alloc :: "u32 \<Rightarrow> 's \<Rightarrow> ptr \<times> 's"
    and release :: "ptr \<Rightarrow> 's \<Rightarrow> 's"
    and inv :: "'s \<Rightarrow> bool"
    and live :: "'s \<Rightarrow> (ptr \<times> u32) set"
    and room :: "u32 \<Rightarrow> 's \<Rightarrow> bool"
    and byte :: "'s \<Rightarrow> ptr \<Rightarrow> u8"
    and poke :: "ptr \<Rightarrow> u8 \<Rightarrow> 's \<Rightarrow> 's"
  assumes alloc_inv: "\<lbrakk> inv s; room n s \<rbrakk> \<Longrightarrow> inv (snd (alloc n s))"
    and alloc_live: "\<lbrakk> inv s; room n s \<rbrakk> \<Longrightarrow>
      \<exists>k. n \<le> k \<and> (fst (alloc n s), k) \<notin> live s \<and>
        live (snd (alloc n s)) = insert (fst (alloc n s), k) (live s)"
    and alloc_byte: "\<lbrakk> inv s; room n s; (p, k) \<in> live s; in_region p k x \<rbrakk> \<Longrightarrow>
      byte (snd (alloc n s)) x = byte s x"
    and release_inv: "\<lbrakk> inv s; (p, k) \<in> live s \<rbrakk> \<Longrightarrow> inv (release p s)"
    and release_live: "\<lbrakk> inv s; (p, k) \<in> live s \<rbrakk> \<Longrightarrow> live (release p s) = live s - {(p, k)}"
    and release_byte: "\<lbrakk> inv s; (p, k) \<in> live s; (q, l) \<in> live s; in_region q l x \<rbrakk> \<Longrightarrow>
      byte (release p s) x = byte s x"
    and live_apart: "\<lbrakk> inv s; (p, k) \<in> live s; (q, l) \<in> live s; (p, k) \<noteq> (q, l) \<rbrakk> \<Longrightarrow>
      apart p k q l"
    and live_nonnull: "\<lbrakk> inv s; (p, k) \<in> live s \<rbrakk> \<Longrightarrow> p \<noteq> 0 \<and> 0 < k"
    and poke_inv: "\<lbrakk> inv s; (p, k) \<in> live s; in_region p k x \<rbrakk> \<Longrightarrow> inv (poke x b s)"
    and poke_live: "\<lbrakk> inv s; (p, k) \<in> live s; in_region p k x \<rbrakk> \<Longrightarrow> live (poke x b s) = live s"
    and poke_byte: "byte (poke x b s) y = (if y = x then b else byte s y)"
begin

text \<open>A new block is not NULL and lies apart from every block that was live.\<close>

lemma alloc_nonnull: "\<lbrakk> inv s; room n s \<rbrakk> \<Longrightarrow> fst (alloc n s) \<noteq> 0"
  by (metis alloc_inv alloc_live insertI1 live_nonnull)

lemma alloc_apart:
  assumes "inv s" and "room n s" and "(q, l) \<in> live s"
  shows "apart (fst (alloc n s)) n q l"
proof -
  obtain k where k: "n \<le> k" "(fst (alloc n s), k) \<notin> live s"
    "live (snd (alloc n s)) = insert (fst (alloc n s), k) (live s)"
    using alloc_live [OF assms(1,2)] by blast
  with assms(3) have ne: "(fst (alloc n s), k) \<noteq> (q, l)" by blast
  have "apart (fst (alloc n s)) k q l"
    by (rule live_apart [OF alloc_inv [OF assms(1,2)] _ _ ne]) (use k assms(3) in blast)+
  then show ?thesis using k(1) by (rule apart_subregion) simp
qed

text \<open>Releasing the block just allocated gives back the live set, and the blocks that were
  live keep their contents through the pair.\<close>

lemma alloc_release:
  assumes "inv s" and "room n s"
  defines "p \<equiv> fst (alloc n s)" and "s' \<equiv> snd (alloc n s)"
  shows "inv (release p s')" and "live (release p s') = live s"
    and "\<lbrakk> (q, l) \<in> live s; in_region q l x \<rbrakk> \<Longrightarrow> byte (release p s') x = byte s x"
proof -
  obtain k where k: "(p, k) \<notin> live s" "live s' = insert (p, k) (live s)"
    using alloc_live [OF assms(1,2)] unfolding p_def s'_def by blast
  have inv': "inv s'" using alloc_inv [OF assms(1,2)] by (simp add: s'_def)
  have pk: "(p, k) \<in> live s'" using k by blast
  show "inv (release p s')" by (rule release_inv [OF inv' pk])
  show "live (release p s') = live s" using release_live [OF inv' pk] k by blast
  assume "(q, l) \<in> live s" "in_region q l x"
  then show "byte (release p s') x = byte s x"
    using release_byte [OF inv' pk, of q l x] k alloc_byte [OF assms(1,2)] by (auto simp: s'_def)
qed

text \<open>A write into one live block is not seen in another.\<close>

lemma poke_other:
  assumes "inv s" and "(p, k) \<in> live s" and "(q, l) \<in> live s" and "(p, k) \<noteq> (q, l)"
    and "in_region p k x" and "in_region q l y"
  shows "byte (poke x b s) y = byte s y"
proof -
  have "y \<noteq> x" using live_apart [OF assms(1-4)] assms(5,6) apart_not_in2 by blast
  then show ?thesis by (simp add: poke_byte)
qed

end

text \<open>An allocator that counts the blocks of one page it can still serve.\<close>

locale page_allocator = allocator +
  fixes pages :: "'a \<Rightarrow> nat"
  assumes page_room: "\<lbrakk> inv s; 0 < pages s; 0 < n; n \<le> 4096 \<rbrakk> \<Longrightarrow> room n s"
    and alloc_pages: "\<lbrakk> inv s; 0 < pages s; 0 < n; n \<le> 4096 \<rbrakk> \<Longrightarrow>
      Suc (pages (snd (alloc n s))) = pages s"
    and alloc_page: "\<lbrakk> inv s; 0 < pages s; 0 < n; n \<le> 4096 \<rbrakk> \<Longrightarrow>
      live (snd (alloc n s)) = insert (fst (alloc n s), 4096) (live s)"
    and release_page: "\<lbrakk> inv s; (p, 4096) \<in> live s \<rbrakk> \<Longrightarrow> pages (release p s) = Suc (pages s)"
    and live_aligned: "\<lbrakk> inv s; (p, k) \<in> live s \<rbrakk> \<Longrightarrow> p AND 0xFFF = 0"
begin

text \<open>The address of a new page is the address of no live block.\<close>

lemma page_fresh:
  assumes "inv s" and "0 < pages s" and "0 < n" and "n \<le> 4096"
  shows "(fst (alloc n s), l) \<notin> live s"
proof
  assume "(fst (alloc n s), l) \<in> live s"
  from alloc_apart [OF assms(1) page_room [OF assms] this]
  have "n \<le> 0" by (simp add: apart_def)
  with assms(3) show False by simp
qed

end

text \<open>Requests in a row, each of its own size: the addresses returned and the last state.\<close>

fun alloc_many :: "(u32 \<Rightarrow> 's \<Rightarrow> ptr \<times> 's) \<Rightarrow> u32 list \<Rightarrow> 's \<Rightarrow> ptr list \<times> 's" where
  "alloc_many f [] s = ([], s)"
| "alloc_many f (n # ns) s =
     (let (p, s') = f n s; (ps, s'') = alloc_many f ns s' in (p # ps, s''))"

context page_allocator
begin

text \<open>While pages remain, every request is served: the addresses are distinct, none is NULL,
  every one has a new live block of the size asked for, and what was live is kept with its contents.\<close>

lemma alloc_many_pages:
  "\<lbrakk> inv s; length ns \<le> pages s; \<forall>n \<in> set ns. 0 < n \<and> n \<le> 4096; alloc_many alloc ns s = (ps, s') \<rbrakk> \<Longrightarrow>
   inv s' \<and> pages s' + length ns = pages s \<and> distinct ps \<and> 0 \<notin> set ps \<and> live s \<subseteq> live s' \<and>
   list_all2 (\<lambda>n p. (\<forall>l. (p, l) \<notin> live s) \<and> (\<exists>l \<ge> n. (p, l) \<in> live s')) ns ps \<and>
   (\<forall>q l x. (q, l) \<in> live s \<longrightarrow> in_region q l x \<longrightarrow> byte s' x = byte s x)"
proof (induction ns arbitrary: s ps)
  case (Cons n ns)
  define p s1 where "p = fst (alloc n s)" and "s1 = snd (alloc n s)"
  obtain ps' where rest: "alloc_many alloc ns s1 = (ps', s')" and ps: "ps = p # ps'"
    using Cons.prems(4) by (auto simp: p_def s1_def split: prod.splits)
  have pos: "0 < pages s" and n: "0 < n" "n \<le> 4096" using Cons.prems(2,3) by auto
  have room: "room n s" by (rule page_room [OF Cons.prems(1) pos n])
  obtain l where l: "n \<le> l" "(p, l) \<notin> live s" "live s1 = insert (p, l) (live s)"
    using alloc_live [OF Cons.prems(1) room] unfolding p_def s1_def by blast
  have inv1: "inv s1" unfolding s1_def by (rule alloc_inv [OF Cons.prems(1) room])
  have pages1: "Suc (pages s1) = pages s"
    unfolding s1_def by (rule alloc_pages [OF Cons.prems(1) pos n])
  have byte1: "byte s1 x = byte s x" if "(q, l) \<in> live s" "in_region q l x" for q l x
    unfolding s1_def by (rule alloc_byte [OF Cons.prems(1) room that])
  have fresh: "(p, l') \<notin> live s" for l'
    unfolding p_def by (rule page_fresh [OF Cons.prems(1) pos n])
  have "length ns \<le> pages s1" "\<forall>n \<in> set ns. 0 < n \<and> n \<le> 4096" using pages1 Cons.prems(2,3) by simp_all
  note IH = Cons.IH [OF inv1 this rest]
  then have all: "list_all2 (\<lambda>n p. (\<forall>l. (p, l) \<notin> live s1) \<and> (\<exists>l \<ge> n. (p, l) \<in> live s')) ns ps'" by blast
  have "p \<notin> set ps'"
    using all l(3) by (auto simp: list_all2_conv_all_nth in_set_conv_nth)
  moreover have "p \<noteq> 0" unfolding p_def by (rule alloc_nonnull [OF Cons.prems(1) room])
  moreover have "list_all2 (\<lambda>n p. (\<forall>l. (p, l) \<notin> live s) \<and> (\<exists>l \<ge> n. (p, l) \<in> live s')) ns ps'"
    by (rule list_all2_mono [OF all]) (use l(3) in blast)
  moreover have "(p, l) \<in> live s'" using IH l(3) by blast
  ultimately show ?case
    using IH pages1 l fresh byte1 unfolding ps by auto
qed simp

end

text \<open>An allocator whose new blocks are zero.\<close>

locale zeroing_allocator = allocator +
  assumes alloc_zero: "\<lbrakk> inv s; room n s; in_region (fst (alloc n s)) n x \<rbrakk> \<Longrightarrow>
    byte (snd (alloc n s)) x = 0"

section \<open>The kernel heap meets the contract\<close>

text \<open>The heap \<open>kheap_init\<close> sets up: 25600 blocks from 16 MiB on, the table at
  \<open>0x7E00\<close>.\<close>

definition boot_heap :: heap where
  "boot_heap = \<lparr>table = \<lparr>entries = 0x7E00, total = 25600\<rparr>, saddr = 0x1000000\<rparr>"

definition kchunks :: "'a kheap_scheme \<Rightarrow> chunk list" where
  "kchunks s = the (chunks (kernel_heap s) (phys s))"

definition kheap_inv :: "'a kheap_scheme \<Rightarrow> bool" where
  "kheap_inv s \<longleftrightarrow> kernel_heap s = boot_heap \<and> chunks boot_heap (phys s) \<noteq> None"

definition live_of :: "chunk list \<Rightarrow> (ptr \<times> u32) set" where
  "live_of cs = (\<lambda>(p, n). (block_addr boot_heap p, of_nat (4096 * n))) ` set (allocs 0 cs)"

definition kheap_live :: "'a kheap_scheme \<Rightarrow> (ptr \<times> u32) set" where
  "kheap_live s = live_of (kchunks s)"

definition kheap_room :: "u32 \<Rightarrow> 'a kheap_scheme \<Rightarrow> bool" where
  "kheap_room n s \<longleftrightarrow> 0 < n \<and> unat n \<le> 4294963200 \<and> spec_alloc (blocks_for n) (kchunks s) \<noteq> None"

definition kheap_pages :: "'a kheap_scheme \<Rightarrow> nat" where
  "kheap_pages s = count_list (kchunks s) Free"

definition kheap_poke :: "ptr \<Rightarrow> u8 \<Rightarrow> 'a kheap_scheme \<Rightarrow> 'a kheap_scheme" where
  "kheap_poke x b s = s\<lparr>phys := (phys s)(x := b)\<rparr>"

lemma boot_heap_simps [simp]:
  "entries (table boot_heap) = 0x7E00" "total (table boot_heap) = 25600"
  "saddr boot_heap = 0x1000000"
  by (simp_all add: boot_heap_def)

lemma boot_chunks_iff: "chunks boot_heap m = Some cs \<longleftrightarrow> heap_repr boot_heap cs m"
  by (rule chunks_iff) simp

lemma kheap_repr_iff:
  "kernel_heap s = boot_heap \<Longrightarrow>
   heap_repr boot_heap cs (phys s) \<longleftrightarrow> kheap_inv s \<and> kchunks s = cs"
  unfolding boot_chunks_iff [symmetric] by (auto simp: kheap_inv_def kchunks_def)

lemma kheap_inv_repr:
  "kheap_inv s \<Longrightarrow> kernel_heap s = boot_heap \<and> heap_repr boot_heap (kchunks s) (phys s)"
  unfolding boot_chunks_iff [symmetric] by (auto simp: kheap_inv_def kchunks_def)

lemma kheap_inv_size:
  assumes "kheap_inv s"
  shows "size_of (kchunks s) = 25600"
proof -
  have "heap_repr boot_heap (kchunks s) (phys s)" using kheap_inv_repr [OF assms] by blast
  from heap_repr_size [OF this] show ?thesis by simp
qed

text \<open>The state enters only through the table.\<close>

lemma kheap_same_table:
  assumes "kheap_inv s" and "kernel_heap s' = boot_heap"
    and "\<And>x. in_table boot_heap x \<Longrightarrow> phys s' x = phys s x"
  shows "kheap_inv s'" and "kchunks s' = kchunks s"
proof -
  have "heap_repr boot_heap (kchunks s) (phys s')"
    using kheap_inv_repr [OF assms(1)] heap_repr_cong [of boot_heap "phys s'" "phys s"] assms(3)
    by simp
  with kheap_repr_iff [OF assms(2)] show "kheap_inv s'" and "kchunks s' = kchunks s" by blast+
qed

subsection \<open>Blocks and addresses\<close>

lemma block_addr_boot: "block_addr boot_heap p = 0x1000000 + of_nat (4096 * p)"
  by (simp add: block_addr_def)

lemma block_addr_inj:
  "p < 25600 \<Longrightarrow> q < 25600 \<Longrightarrow> block_addr boot_heap p = block_addr boot_heap q \<longleftrightarrow> p = q"
  using of_nat_word_inj [of "4096 * p" "4096 * q"] by (simp add: block_addr_boot del: of_nat_mult)

lemma live_of_iff:
  "(a, k) \<in> live_of cs \<longleftrightarrow>
     (\<exists>p n. (p, n) \<in> set (allocs 0 cs) \<and> a = block_addr boot_heap p \<and> k = of_nat (4096 * n))"
  by (auto simp: live_of_def)

lemma live_of_apart:
  assumes "size_of cs = 25600" and "(a, k) \<in> live_of cs" and "(b, l) \<in> live_of cs"
    and "(a, k) \<noteq> (b, l)"
  shows "apart a k b l"
proof -
  obtain p n q r where pn: "(p, n) \<in> set (allocs 0 cs)" "a = block_addr boot_heap p"
      "k = of_nat (4096 * n)"
    and qr: "(q, r) \<in> set (allocs 0 cs)" "b = block_addr boot_heap q" "l = of_nat (4096 * r)"
    using assms(2,3) unfolding live_of_iff by blast
  have "p \<noteq> q"
    using allocs_functional [OF pn(1)] qr pn assms(4) by blast
  then have "p + n \<le> q \<or> q + r \<le> p" by (rule allocs_disjoint [OF pn(1) qr(1)])
  moreover have "p + n \<le> 25600" "q + r \<le> 25600"
    using allocs_range [OF pn(1)] allocs_range [OF qr(1)] assms(1) by simp_all
  ultimately show ?thesis
    using \<open>p \<noteq> q\<close> unfolding pn qr block_addr_boot by (intro apart_offsets) auto
qed

text \<open>A live block lies above the table.\<close>

lemma live_not_in_table:
  assumes "size_of cs = 25600" and "(a, k) \<in> live_of cs" and "in_region a k x"
  shows "\<not> in_table boot_heap x"
proof -
  obtain p n where pn: "(p, n) \<in> set (allocs 0 cs)" "a = block_addr boot_heap p"
      "k = of_nat (4096 * n)"
    using assms(2) unfolding live_of_iff by blast
  have le: "p + n \<le> 25600" using allocs_range [OF pn(1)] assms(1) by simp
  have "apart (0x7E00 + of_nat 0) (of_nat 25600) (0x7E00 + of_nat (0x1000000 - 0x7E00 + 4096 * p)) (of_nat (4096 * n))"
    by (rule apart_offsets) (use le in simp_all)
  then have "apart 0x7E00 25600 a k"
    by (simp add: pn block_addr_boot)
  then show ?thesis
    using assms(3) apart_not_in [of "0x7E00" 25600 a k x] by (simp add: in_table_def)
qed

lemma live_nonnull_of:
  assumes "size_of cs = 25600" and "(a, k) \<in> live_of cs"
  shows "a \<noteq> 0 \<and> 0 < k"
proof -
  obtain p n where pn: "(p, n) \<in> set (allocs 0 cs)" "a = block_addr boot_heap p"
      "k = of_nat (4096 * n)"
    using assms(2) unfolding live_of_iff by blast
  have le: "p + n \<le> 25600" "0 < n" using allocs_range [OF pn(1)] assms(1) by simp_all
  then have "unat (of_nat (0x1000000 + 4096 * p) :: u32) = 0x1000000 + 4096 * p"
    and "unat k = 4096 * n"
    unfolding pn by (intro unat_of_nat_u32; simp)+
  then show ?thesis
    using le by (auto simp: pn block_addr_boot word_less_nat_alt)
qed

lemma live_of_inj:
  assumes "size_of cs = 25600"
  shows "inj_on (\<lambda>(p, n). (block_addr boot_heap p, of_nat (4096 * n) :: u32)) (set (allocs 0 cs))"
proof (rule inj_onI, clarify)
  fix p n q r
  assume pn: "(p, n) \<in> set (allocs 0 cs)" and qr: "(q, r) \<in> set (allocs 0 cs)"
    and "block_addr boot_heap p = block_addr boot_heap q"
  moreover have "p < 25600" "q < 25600"
    using allocs_range [OF pn] allocs_range [OF qr] assms by simp_all
  ultimately have "p = q" by (simp add: block_addr_inj)
  then show "p = q \<and> n = r" using allocs_functional [OF pn] qr by blast
qed

lemma blocks_for_le:
  assumes "blocks_for n \<le> 25600"
  shows "n \<le> of_nat (4096 * blocks_for n)"
proof -
  have "unat n \<le> 4096 * blocks_for n" by (simp add: blocks_for_def)
  moreover have "unat (of_nat (4096 * blocks_for n) :: u32) = 4096 * blocks_for n"
    using assms by (intro unat_of_nat_u32) simp
  ultimately show ?thesis by (simp add: word_le_nat_alt del: of_nat_mult)
qed

subsection \<open>Allocation\<close>

lemma kmalloc_served:
  assumes "kheap_inv s" and "kheap_room n s"
  obtains p ds where "spec_alloc (blocks_for n) (kchunks s) = Some (p, ds)"
    and "fst (kmalloc n s) = block_addr boot_heap p"
    and "kheap_inv (snd (kmalloc n s))" and "kchunks (snd (kmalloc n s)) = ds"
    and "\<And>x. \<not> in_table boot_heap x \<Longrightarrow> phys (snd (kmalloc n s)) x = phys s x"
proof -
  have heap: "kernel_heap s = boot_heap" and repr: "heap_repr boot_heap (kchunks s) (phys s)"
    using kheap_inv_repr [OF assms(1)] by blast+
  have n: "0 < n" "unat n \<le> 4294963200" using assms(2) by (simp_all add: kheap_room_def)
  obtain p ds where alloc: "spec_alloc (blocks_for n) (kchunks s) = Some (p, ds)"
    using assms(2) by (auto simp: kheap_room_def)
  let ?m = "put_bytes (entries (table boot_heap) + of_nat p) (taken_run (blocks_for n)) (phys s)"
  note fit = heap_malloc_fit [OF repr n alloc]
  have res: "kmalloc n s = (block_addr boot_heap p, s\<lparr>phys := ?m\<rparr>)"
    by (simp add: kmalloc_def heap fit(1) del: boot_heap_simps)
  have "kernel_heap (s\<lparr>phys := ?m\<rparr>) = boot_heap" using heap by simp
  from kheap_repr_iff [OF this, of ds] fit(2)
  have "kheap_inv (s\<lparr>phys := ?m\<rparr>)" "kchunks (s\<lparr>phys := ?m\<rparr>) = ds" by (simp_all del: boot_heap_simps)
  with alloc res fit(3) show ?thesis by (intro that) (simp_all del: boot_heap_simps)
qed

lemma live_of_alloc:
  assumes "spec_alloc n cs = Some (p, ds)" and "0 < n" and "size_of cs = 25600"
  shows "live_of ds = insert (block_addr boot_heap p, of_nat (4096 * n)) (live_of cs)"
    and "(block_addr boot_heap p, of_nat (4096 * n)) \<notin> live_of cs"
    and "n \<le> 25600" and "size_of ds = 25600"
proof -
  let ?f = "\<lambda>(p, n). (block_addr boot_heap p, of_nat (4096 * n) :: u32)"
  obtain pre post where cs: "cs = pre @ replicate n Free @ post"
    and ds: "ds = pre @ Used (n - 1) # post" and p: "size_of pre = p"
    using spec_alloc_split [OF assms(1)] by blast
  have live: "set (allocs 0 ds) = insert (p, n) (set (allocs 0 cs))"
    using assms(2) by (auto simp: cs ds p add.assoc)
  then show "live_of ds = insert (block_addr boot_heap p, of_nat (4096 * n)) (live_of cs)"
    by (simp add: live_of_def)
  show size: "size_of ds = 25600" using assms(2,3) by (simp add: cs ds)
  show "n \<le> 25600" using assms(3) by (simp add: cs)
  have "(p, n) \<notin> set (allocs 0 cs)"
    using allocs_distinct [of 0 ds] assms(2) by (auto simp: cs ds p add.assoc)
  moreover have "?f (p, n) \<in> ?f ` set (allocs 0 cs) \<longleftrightarrow> (p, n) \<in> set (allocs 0 cs)"
    by (rule inj_on_image_mem_iff [OF live_of_inj [OF size]]) (use live in auto)
  ultimately show "(block_addr boot_heap p, of_nat (4096 * n)) \<notin> live_of cs"
    by (simp add: live_of_def del: of_nat_mult)
qed

lemma kmalloc_live:
  assumes "kheap_inv s" and "kheap_room n s"
  shows "\<exists>k. n \<le> k \<and> (fst (kmalloc n s), k) \<notin> kheap_live s \<and>
    kheap_live (snd (kmalloc n s)) = insert (fst (kmalloc n s), k) (kheap_live s)"
proof -
  obtain p ds where alloc: "spec_alloc (blocks_for n) (kchunks s) = Some (p, ds)"
    "fst (kmalloc n s) = block_addr boot_heap p" "kchunks (snd (kmalloc n s)) = ds"
    by (rule kmalloc_served [OF assms]) blast
  have "0 < blocks_for n" using assms(2) by (simp add: kheap_room_def blocks_for_pos)
  note live = live_of_alloc [OF alloc(1) this kheap_inv_size [OF assms(1)]]
  show ?thesis
    using live blocks_for_le [OF live(3)] by (auto simp: kheap_live_def alloc)
qed

text \<open>The bytes of live blocks are outside the table.\<close>

lemma kheap_live_not_in_table:
  "\<lbrakk> kheap_inv s; (q, l) \<in> kheap_live s; in_region q l x \<rbrakk> \<Longrightarrow> \<not> in_table boot_heap x"
  unfolding kheap_live_def by (rule live_not_in_table [OF kheap_inv_size])

lemma kmalloc_byte:
  assumes "kheap_inv s" and "kheap_room n s" and "(q, l) \<in> kheap_live s" and "in_region q l x"
  shows "phys (snd (kmalloc n s)) x = phys s x"
  using kmalloc_served [OF assms(1,2)] kheap_live_not_in_table [OF assms(1,3,4)] by metis

subsection \<open>Release\<close>

lemma kfree_served:
  assumes "kheap_inv s" and "(a, k) \<in> kheap_live s"
  shows "kheap_inv (kfree a s)" and "kheap_live (kfree a s) = kheap_live s - {(a, k)}"
    and "\<not> in_table boot_heap x \<Longrightarrow> phys (kfree a s) x = phys s x"
    and "k = 4096 \<Longrightarrow> kheap_pages (kfree a s) = Suc (kheap_pages s)"
proof -
  have heap: "kernel_heap s = boot_heap" and repr: "heap_repr boot_heap (kchunks s) (phys s)"
    using kheap_inv_repr [OF assms(1)] by blast+
  obtain p n where pn: "(p, n) \<in> set (allocs 0 (kchunks s))" "a = block_addr boot_heap p"
      "k = of_nat (4096 * n)"
    using assms(2) unfolding kheap_live_def live_of_iff by blast
  from allocs_split [OF pn(1)] obtain pre j post where
    cs: "kchunks s = pre @ Used j # post" and p: "p = size_of pre" and n: "n = Suc j"
    by auto
  let ?ds = "pre @ replicate (Suc j) Free @ post"
  have free: "spec_free p (kchunks s) = Some ?ds" unfolding cs p by (rule spec_free_join)
  have "4096 * unat (total (table boot_heap)) < 2 ^ 31" by simp
  note freed = heap_free_live [OF repr free this]
  have ph: "phys (kfree a s) = heap_free boot_heap (block_addr boot_heap p) (phys s)"
    "kernel_heap (kfree a s) = boot_heap"
    by (simp_all add: kfree_def heap pn(2))
  have "heap_repr boot_heap ?ds (phys (kfree a s))" unfolding ph by (rule freed(1))
  then have ds: "kheap_inv (kfree a s)" "kchunks (kfree a s) = ?ds"
    unfolding kheap_repr_iff [OF ph(2)] by blast+
  show "kheap_inv (kfree a s)" by (rule ds(1))
  have "set (allocs 0 ?ds) = set (allocs 0 (kchunks s)) - {(p, n)}"
    using allocs_distinct [of 0 "kchunks s"] by (auto simp: cs p n simp del: replicate_Suc)
  then show "kheap_live (kfree a s) = kheap_live s - {(a, k)}"
    using inj_on_image_set_diff [OF live_of_inj [OF kheap_inv_size [OF assms(1)]],
        of "set (allocs 0 (kchunks s))" "{(p, n)}"] pn
    unfolding kheap_live_def ds live_of_def by simp
  show "\<not> in_table boot_heap x \<Longrightarrow> phys (kfree a s) x = phys s x"
    unfolding ph by (rule freed(2))
  assume "k = 4096"
  then have "(of_nat (4096 * n) :: u32) = of_nat 4096" using pn(3) by simp
  moreover have "n \<le> 25600"
    using allocs_range [OF pn(1)] kheap_inv_size [OF assms(1)] by simp
  ultimately have "n = 1" by (subst (asm) of_nat_word_inj) simp_all
  then have "j = 0" by (simp add: n)
  then show "kheap_pages (kfree a s) = Suc (kheap_pages s)"
    by (simp add: kheap_pages_def ds(2) cs)
qed

lemma kheap_poke_same:
  assumes "kheap_inv s" and "(p, k) \<in> kheap_live s" and "in_region p k x"
  shows "kheap_inv (kheap_poke x b s)" and "kchunks (kheap_poke x b s) = kchunks s"
proof -
  have nt: "\<not> in_table boot_heap x" by (rule kheap_live_not_in_table [OF assms])
  have heap: "kernel_heap (kheap_poke x b s) = boot_heap"
    using kheap_inv_repr [OF assms(1)] by (simp add: kheap_poke_def)
  have "phys (kheap_poke x b s) y = phys s y" if "in_table boot_heap y" for y
    using nt that by (auto simp: kheap_poke_def)
  from kheap_same_table [OF assms(1) heap this]
  show "kheap_inv (kheap_poke x b s)" and "kchunks (kheap_poke x b s) = kchunks s" by blast+
qed

lemma kheap_poke_live:
  "\<lbrakk> kheap_inv s; (p, k) \<in> kheap_live s; in_region p k x \<rbrakk> \<Longrightarrow>
   kheap_live (kheap_poke x b s) = kheap_live s"
  by (simp add: kheap_live_def kheap_poke_same(2) [unfolded kheap_live_def])

lemma kheap_poke_byte: "phys (kheap_poke x b s) y = (if y = x then b else phys s y)"
  by (simp add: kheap_poke_def)

subsection \<open>Pages\<close>

lemma spec_alloc_one: "spec_alloc 1 cs \<noteq> None \<longleftrightarrow> Free \<in> set cs"
proof (induction cs)
  case (Cons c cs)
  then show ?case by (cases c) auto
qed simp

lemma blocks_for_page: "0 < n \<Longrightarrow> n \<le> 4096 \<Longrightarrow> blocks_for n = 1"
  by (simp add: blocks_for_def word_le_nat_alt word_less_nat_alt)

lemma kheap_page_room:
  assumes "0 < kheap_pages s" and "0 < n" and "n \<le> 4096"
  shows "kheap_room n s"
proof -
  have "Free \<in> set (kchunks s)"
  proof (rule ccontr)
    assume "Free \<notin> set (kchunks s)"
    then show False using assms(1) by (simp add: kheap_pages_def)
  qed
  then have "spec_alloc (blocks_for n) (kchunks s) \<noteq> None"
    unfolding blocks_for_page [OF assms(2,3)] spec_alloc_one .
  moreover have "unat n \<le> 4096" using assms(3) by (simp add: word_le_nat_alt)
  ultimately show ?thesis using assms(2) by (simp add: kheap_room_def)
qed

lemma kmalloc_pages:
  assumes "kheap_inv s" and "0 < kheap_pages s" and "0 < n" and "n \<le> 4096"
  shows "Suc (kheap_pages (snd (kmalloc n s))) = kheap_pages s"
proof -
  obtain p ds where alloc: "spec_alloc (blocks_for n) (kchunks s) = Some (p, ds)"
    "kchunks (snd (kmalloc n s)) = ds"
    by (rule kmalloc_served [OF assms(1) kheap_page_room [OF assms(2-4)]]) blast
  from spec_alloc_split [OF this(1)] alloc(2) show ?thesis
    by (auto simp: kheap_pages_def blocks_for_page [OF assms(3,4)])
qed

lemma kmalloc_page:
  assumes "kheap_inv s" and "0 < kheap_pages s" and "0 < n" and "n \<le> 4096"
  shows "kheap_live (snd (kmalloc n s)) = insert (fst (kmalloc n s), 4096) (kheap_live s)"
proof -
  obtain p ds where alloc: "spec_alloc (blocks_for n) (kchunks s) = Some (p, ds)"
    "fst (kmalloc n s) = block_addr boot_heap p" "kchunks (snd (kmalloc n s)) = ds"
    by (rule kmalloc_served [OF assms(1) kheap_page_room [OF assms(2-4)]]) blast
  have "0 < blocks_for n" by (rule blocks_for_pos [OF assms(3)])
  from live_of_alloc(1) [OF alloc(1) this kheap_inv_size [OF assms(1)]] show ?thesis
    by (simp add: kheap_live_def alloc(2,3) blocks_for_page [OF assms(3,4), unfolded One_nat_def])
qed

lemma kheap_live_aligned: "(p, k) \<in> kheap_live s \<Longrightarrow> p AND 0xFFF = 0"
proof -
  assume "(p, k) \<in> kheap_live s"
  then obtain q where p: "p = block_addr boot_heap q"
    unfolding kheap_live_def live_of_iff by blast
  have "p = push_bit 12 (0x1000 + of_nat q)"
    unfolding p block_addr_boot by (simp add: push_bit_eq_mult)
  then show ?thesis by (simp add: and_low12 take_bit_push_bit)
qed

text \<open>A change of memory inside one live block keeps the invariant and the chunks.\<close>

lemma kheap_write_live:
  assumes "kheap_inv s" and "(p, k) \<in> kheap_live s"
    and "\<And>x. \<not> in_region p k x \<Longrightarrow> m x = phys s x"
  shows "kheap_inv (s\<lparr>phys := m\<rparr>)" and "kchunks (s\<lparr>phys := m\<rparr>) = kchunks s"
proof -
  have heap: "kernel_heap (s\<lparr>phys := m\<rparr>) = boot_heap"
    using kheap_inv_repr [OF assms(1)] by simp
  have "phys (s\<lparr>phys := m\<rparr>) x = phys s x" if "in_table boot_heap x" for x
    using kheap_live_not_in_table [OF assms(1,2)] assms(3) that by auto
  from kheap_same_table [OF assms(1) heap this]
  show "kheap_inv (s\<lparr>phys := m\<rparr>)" and "kchunks (s\<lparr>phys := m\<rparr>) = kchunks s" by blast+
qed

section \<open>Interpretations\<close>

interpretation kmalloc_heap: allocator kmalloc kfree kheap_inv kheap_live kheap_room phys kheap_poke
proof
  fix s :: "'a kheap_scheme" and n p k q l x b y
  show "kheap_inv s \<Longrightarrow> kheap_room n s \<Longrightarrow> kheap_inv (snd (kmalloc n s))"
    by (rule kmalloc_served)
  show "kheap_inv s \<Longrightarrow> (p, k) \<in> kheap_live s \<Longrightarrow> (q, l) \<in> kheap_live s \<Longrightarrow>
      in_region q l x \<Longrightarrow> phys (kfree p s) x = phys s x"
    by (rule kfree_served(3)) (simp_all add: kheap_live_not_in_table)
  show "kheap_inv s \<Longrightarrow> (p, k) \<in> kheap_live s \<Longrightarrow> (q, l) \<in> kheap_live s \<Longrightarrow>
      (p, k) \<noteq> (q, l) \<Longrightarrow> apart p k q l"
    unfolding kheap_live_def by (rule live_of_apart [OF kheap_inv_size])
  show "kheap_inv s \<Longrightarrow> (p, k) \<in> kheap_live s \<Longrightarrow> p \<noteq> 0 \<and> 0 < k"
    unfolding kheap_live_def by (rule live_nonnull_of [OF kheap_inv_size])
qed (simp_all add: kmalloc_live kmalloc_byte kfree_served kheap_poke_same(1) kheap_poke_live
    kheap_poke_byte)

interpretation kmalloc_pages: page_allocator kmalloc kfree kheap_inv kheap_live kheap_room phys
    kheap_poke kheap_pages
  by unfold_locales
    (simp_all add: kheap_page_room kmalloc_pages kmalloc_page kfree_served(4) kheap_live_aligned)

text \<open>\<open>kzalloc\<close> clears the block \<open>kmalloc\<close> returns; the cleared bytes lie in no other live
  block and outside the table.\<close>

lemma kzalloc_served:
  assumes "kheap_inv s" and "kheap_room n s"
  shows "kzalloc n s = (fst (kmalloc n s),
      (snd (kmalloc n s))\<lparr>phys := memset (fst (kmalloc n s)) 0 n (phys (snd (kmalloc n s)))\<rparr>)"
  using kmalloc_heap.alloc_nonnull [OF assms] by (simp add: kzalloc_def case_prod_beta)

lemma kzalloc_state:
  assumes "kheap_inv s" and "kheap_room n s"
  shows "fst (kzalloc n s) = fst (kmalloc n s)" and "kheap_inv (snd (kzalloc n s))"
    and "kchunks (snd (kzalloc n s)) = kchunks (snd (kmalloc n s))"
    and "(q, l) \<in> kheap_live s \<Longrightarrow> in_region q l x \<Longrightarrow> phys (snd (kzalloc n s)) x = phys s x"
    and "in_region (fst (kzalloc n s)) n x \<Longrightarrow> phys (snd (kzalloc n s)) x = 0"
proof -
  let ?p = "fst (kmalloc n s)" and ?s = "snd (kmalloc n s)"
  have inv: "kheap_inv ?s" by (rule kmalloc_heap.alloc_inv [OF assms])
  obtain k where k: "n \<le> k" "(?p, k) \<in> kheap_live ?s"
    using kmalloc_live [OF assms] by blast
  have nt: "\<not> in_table boot_heap y" if "in_region ?p n y" for y
    using kheap_live_not_in_table [OF inv k(2)] that k(1) by (simp add: in_region_def)
  show fst_eq: "fst (kzalloc n s) = fst (kmalloc n s)"
    by (simp add: kzalloc_served [OF assms])
  have heap: "kernel_heap (snd (kzalloc n s)) = boot_heap"
    using kheap_inv_repr [OF inv] by (simp add: kzalloc_served [OF assms])
  have ph: "phys (snd (kzalloc n s)) y = (if in_region ?p n y then 0 else phys ?s y)" for y
    by (simp add: kzalloc_served [OF assms] memset_apply)
  have "phys (snd (kzalloc n s)) y = phys ?s y" if "in_table boot_heap y" for y
    using nt [of y] that by (auto simp: ph)
  from kheap_same_table [OF inv heap this]
  show "kheap_inv (snd (kzalloc n s))" and "kchunks (snd (kzalloc n s)) = kchunks ?s" by blast+
  show "in_region (fst (kzalloc n s)) n x \<Longrightarrow> phys (snd (kzalloc n s)) x = 0"
    by (simp add: ph fst_eq)
  assume q: "(q, l) \<in> kheap_live s" "in_region q l x"
  then have "\<not> in_region ?p n x"
    using kmalloc_heap.alloc_apart [OF assms q(1)] apart_not_in by blast
  then show "phys (snd (kzalloc n s)) x = phys s x"
    using kmalloc_byte [OF assms q] by (simp add: ph)
qed

lemma kzalloc_live:
  assumes "kheap_inv s" and "kheap_room n s"
  shows "\<exists>k. n \<le> k \<and> (fst (kzalloc n s), k) \<notin> kheap_live s \<and>
    kheap_live (snd (kzalloc n s)) = insert (fst (kzalloc n s), k) (kheap_live s)"
  using kmalloc_live [OF assms] kzalloc_state(1,3) [OF assms] by (simp add: kheap_live_def)

interpretation kzalloc_heap: zeroing_allocator kzalloc kfree kheap_inv kheap_live kheap_room phys
    kheap_poke
  by (unfold_locales; (rule kzalloc_live; assumption)?;
    simp add: kzalloc_state kmalloc_heap.release_inv kmalloc_heap.release_live
      kmalloc_heap.release_byte kmalloc_heap.live_apart kmalloc_heap.live_nonnull
      kmalloc_heap.poke_inv kmalloc_heap.poke_live kmalloc_heap.poke_byte)

interpretation kzalloc_pages: page_allocator kzalloc kfree kheap_inv kheap_live kheap_room phys
    kheap_poke kheap_pages
proof
  fix s :: "'a kheap_scheme" and n :: u32
  assume "kheap_inv s" "0 < kheap_pages s" "0 < n" "n \<le> 4096"
  then show "Suc (kheap_pages (snd (kzalloc n s))) = kheap_pages s"
    using kmalloc_pages [of s n] kzalloc_state(3) [of s n] kheap_page_room [of s n]
    by (simp add: kheap_pages_def)
next
  fix s :: "'a kheap_scheme" and n :: u32
  assume "kheap_inv s" "0 < kheap_pages s" "0 < n" "n \<le> 4096"
  then show "kheap_live (snd (kzalloc n s)) = insert (fst (kzalloc n s), 4096) (kheap_live s)"
    using kmalloc_page [of s n] kzalloc_state(1,3) [of s n] kheap_page_room [of s n]
    by (simp add: kheap_live_def)
qed (rule kheap_page_room, assumption+, rule kfree_served(4), assumption+, rule refl,
    rule kheap_live_aligned)

text \<open>What an allocation leaves alone: every field but the memory.\<close>

lemma kmalloc_more [simp]:
  "kheap.more (snd (kmalloc n s)) = kheap.more s" "video_mem (snd (kmalloc n s)) = video_mem s"
  by (simp_all add: kmalloc_def case_prod_beta)

lemma kzalloc_more [simp]:
  "kheap.more (snd (kzalloc n s)) = kheap.more s" "video_mem (snd (kzalloc n s)) = video_mem s"
  by (simp_all add: kzalloc_def kmalloc_def case_prod_beta Let_def)

definition memory_only :: "'a kheap_scheme \<Rightarrow> 'a kheap_scheme \<Rightarrow> bool" where
  "memory_only s s' \<longleftrightarrow> (\<exists>m. s' = s\<lparr>phys := m\<rparr>)"

lemma memory_only_refl [simp]: "memory_only s s"
  by (auto simp: memory_only_def intro: exI [of _ "phys s"])

lemma memory_only_set [simp]: "memory_only s (s'\<lparr>phys := m\<rparr>) \<longleftrightarrow> memory_only s s'"
proof
  assume "memory_only s (s'\<lparr>phys := m\<rparr>)"
  then obtain k where "s'\<lparr>phys := m\<rparr> = s\<lparr>phys := k\<rparr>" by (auto simp: memory_only_def)
  then have "(s'\<lparr>phys := m\<rparr>)\<lparr>phys := phys s'\<rparr> = s\<lparr>phys := k\<rparr>\<lparr>phys := phys s'\<rparr>" by (simp only:)
  then show "memory_only s s'" by (auto simp: memory_only_def)
qed (auto simp: memory_only_def)

lemma memory_only_trans: "memory_only s s' \<Longrightarrow> memory_only s' s'' \<Longrightarrow> memory_only s s''"
  by (auto simp: memory_only_def)

lemma memory_only_kzalloc: "kzalloc n s = (p, s') \<Longrightarrow> memory_only s s'"
  by (auto simp: kzalloc_def kmalloc_def case_prod_beta Let_def memory_only_def split: if_splits)

lemma memory_only_kfree: "memory_only s (kfree p s)"
  by (simp add: kfree_def)

lemma kheap_init_eq:
  "kheap_init s = s\<lparr>kernel_heap_table := \<lparr>entries = heap_table_address, total = 25600\<rparr>, kernel_heap := boot_heap,
     phys := memset 0x7E00 0 25600 (phys s)\<rparr>"
proof -
  let ?tab = "\<lparr>entries = heap_table_address, total = 25600\<rparr>"
  have n: "word_of_int (sint heap_size_bytes sdiv sint heap_block_size) = (25600 :: u32)"
    by (simp add: config_defs signed_divide_int_def)
  obtain res heap m where c: "heap_create (kernel_heap s) heap_address
      (heap_address + heap_size_bytes) ?tab (phys s) = (res, heap, m)"
    by (cases "heap_create (kernel_heap s) heap_address
      (heap_address + heap_size_bytes) ?tab (phys s)") blast
  have al: "heap_check_alignment heap_address" "heap_check_alignment (heap_address + heap_size_bytes)"
    "heap_check_table heap_address (heap_address + heap_size_bytes) ?tab = 0"
    by (simp_all add: heap_check_alignment_def heap_check_table_def config_defs)
  have heap: "res = 0" "heap = boot_heap" "m = memset 0x7E00 0 25600 (phys s)"
    using c by (simp_all add: heap_create_def al Let_def boot_heap_def heap_block_table_entry_free_def)
      (simp_all add: config_defs)
  show ?thesis unfolding kheap_init_def n c Let_def by (simp add: heap c)
qed

lemma kheap_init_state:
  "kheap_inv (kheap_init s) \<and> kchunks (kheap_init s) = replicate 25600 Free \<and>
   kheap_live (kheap_init s) = {} \<and> kheap_pages (kheap_init s) = 25600 \<and>
   (\<forall>x. \<not> in_table boot_heap x \<longrightarrow> phys (kheap_init s) x = phys s x)"
proof -
  define m where "m = memset 0x7E00 0 25600 (phys s)"
  note init = kheap_init_eq [of s, folded m_def]
  have "bytes_at m 0x7E00 25600 = replicate 25600 0"
  proof (rule nth_equalityI)
    fix i assume "i < length (bytes_at m 0x7E00 25600)"
    then have "i < 25600" by (simp only: length_bytes_at)
    then show "bytes_at m 0x7E00 25600 ! i = replicate 25600 0 ! i"
      by (simp add: m_def memset_apply in_region_of_nat del: bytes_at_numeral)
  qed (simp only: length_bytes_at length_replicate)
  then have "heap_repr boot_heap (replicate 25600 Free) m"
    by (simp add: heap_repr_def table_of_def del: bytes_at_numeral)
  then have r: "kheap_inv (kheap_init s) \<and> kchunks (kheap_init s) = replicate 25600 Free"
    using kheap_repr_iff [of "kheap_init s" "replicate 25600 Free"] by (simp add: init)
  then have "kheap_live (kheap_init s) = {}" and "kheap_pages (kheap_init s) = 25600"
    by (simp_all add: kheap_live_def live_of_def kheap_pages_def count_list_eq_length_filter)
  with r show ?thesis
    by (simp add: init m_def memset_apply in_table_def)
qed

lemma kheap_init_inv [simp]: "kheap_inv (kheap_init s)"
  and kheap_init_chunks: "kchunks (kheap_init s) = replicate 25600 Free"
  and kheap_init_live [simp]: "kheap_live (kheap_init s) = {}"
  and kheap_init_pages [simp]: "kheap_pages (kheap_init s) = 25600"
  using kheap_init_state [of s] by blast+

section \<open>Bytes an allocation keeps\<close>

text \<open>The addresses of the heap's blocks. A byte is stable when it lies outside the table and
  outside every block that could be handed out: then \<open>kmalloc\<close>, \<open>kzalloc\<close> and \<open>kfree\<close> of other
  blocks keep it.\<close>

definition in_heap :: "ptr \<Rightarrow> bool" where
  "in_heap x \<longleftrightarrow> in_region 0x1000000 104857600 x"

definition kheap_stable :: "'a kheap_scheme \<Rightarrow> ptr \<Rightarrow> bool" where
  "kheap_stable s x \<longleftrightarrow> \<not> in_table boot_heap x \<and>
     (\<not> in_heap x \<or> (\<exists>q l. (q, l) \<in> kheap_live s \<and> in_region q l x))"

lemma live_in_heap:
  assumes "kheap_inv s" and "(a, k) \<in> kheap_live s" and "in_region a k x"
  shows "in_heap x"
proof -
  obtain p n where pn: "(p, n) \<in> set (allocs 0 (kchunks s))" "a = block_addr boot_heap p"
      "k = of_nat (4096 * n)"
    using assms(2) unfolding kheap_live_def live_of_iff by blast
  have le: "p + n \<le> 25600" using allocs_range [OF pn(1)] kheap_inv_size [OF assms(1)] by simp
  have u: "unat (of_nat (4096 * p) :: u32) = 4096 * p" "unat k = 4096 * n"
    unfolding pn using le by (intro unat_of_nat_u32; simp)+
  define d where "d = x - a"
  have d: "unat d < 4096 * n" using assms(3) u by (simp add: in_region_def word_less_nat_alt d_def)
  have x: "x - 0x1000000 = d + of_nat (4096 * p)" by (simp add: d_def pn block_addr_boot)
  have "unat (x - 0x1000000) = unat d + 4096 * p"
    unfolding x using d u le by (simp add: unat_word_ariths del: of_nat_mult)
  then show ?thesis using d le by (simp add: in_heap_def in_region_def word_less_nat_alt)
qed

lemma stable_live: "\<lbrakk> kheap_inv s; (q, l) \<in> kheap_live s; in_region q l x \<rbrakk> \<Longrightarrow> kheap_stable s x"
  by (auto simp: kheap_stable_def kheap_live_not_in_table)

lemma stable_mono: "kheap_live s \<subseteq> kheap_live s' \<Longrightarrow> kheap_stable s x \<Longrightarrow> kheap_stable s' x"
  by (auto simp: kheap_stable_def)

lemma stable_not_new:
  assumes "kheap_inv s'" and "(p, k) \<in> kheap_live s'" and "(p, k) \<notin> kheap_live s"
    and "kheap_live s \<subseteq> kheap_live s'" and "kheap_stable s x"
  shows "\<not> in_region p k x"
proof
  assume x: "in_region p k x"
  from live_in_heap [OF assms(1,2) x] assms(5) obtain q l where
    q: "(q, l) \<in> kheap_live s" "in_region q l x" by (auto simp: kheap_stable_def)
  then have "(p, k) \<noteq> (q, l)" using assms(3) by blast
  from kmalloc_heap.live_apart [OF assms(1,2) _ this] q assms(4) have "apart p k q l" by blast
  with x q(2) show False using apart_not_in by blast
qed

lemma kfree_stable:
  assumes "kheap_inv s" and "(p, k) \<in> kheap_live s" and "kheap_stable s x"
  shows "phys (kfree p s) x = phys s x"
  using kfree_served(3) [OF assms(1,2)] assms(3) by (simp add: kheap_stable_def)

text \<open>Everything one page-sized \<open>kzalloc\<close> guarantees.\<close>

lemma kzalloc_page_facts:
  assumes inv: "kheap_inv s" and pos: "0 < kheap_pages s" and n: "0 < n" "n \<le> 4096"
    and alloc: "kzalloc n s = (p, s')"
  shows "kheap_inv s'" and "kheap_live s' = insert (p, 4096) (kheap_live s)"
    and "Suc (kheap_pages s') = kheap_pages s" and "\<And>l. (p, l) \<notin> kheap_live s" and "p \<noteq> 0"
    and "\<And>x. kheap_stable s x \<Longrightarrow> phys s' x = phys s x"
    and "\<And>x. in_region p n x \<Longrightarrow> phys s' x = 0"
    and "\<And>x. kheap_stable s x \<Longrightarrow> \<not> in_region p 4096 x"
proof -
  note room = kheap_page_room [OF pos n]
  show inv': "kheap_inv s'" and live: "kheap_live s' = insert (p, 4096) (kheap_live s)"
    and "Suc (kheap_pages s') = kheap_pages s" and fresh: "\<And>l. (p, l) \<notin> kheap_live s" and "p \<noteq> 0"
    and "\<And>x. in_region p n x \<Longrightarrow> phys s' x = 0"
    using kzalloc_heap.alloc_inv [OF inv room] kzalloc_pages.alloc_page [OF inv pos n]
      kzalloc_pages.alloc_pages [OF inv pos n] kzalloc_pages.page_fresh [OF inv pos n]
      kzalloc_heap.alloc_nonnull [OF inv room] kzalloc_heap.alloc_zero [OF inv room]
    by (simp_all add: alloc)
  show out: "\<not> in_region p 4096 x" if "kheap_stable s x" for x
    using stable_not_new [OF inv' _ fresh _ that] live by blast
  fix x assume st: "kheap_stable s x"
  have "n \<le> 4096" by (rule n(2))
  then have "\<not> in_region p n x" using out [OF st] by (auto simp: in_region_def)
  then have "phys s' x = phys (snd (kmalloc n s)) x"
    using kzalloc_served [OF inv room] alloc by (simp add: memset_apply)
  moreover have "\<not> in_table boot_heap x" using st by (simp add: kheap_stable_def)
  moreover have "\<And>x. \<not> in_table boot_heap x \<Longrightarrow> phys (snd (kmalloc n s)) x = phys s x"
    by (rule kmalloc_served [OF inv room]) blast
  ultimately show "phys s' x = phys s x" by simp
qed

text \<open>Releasing one page \<open>t\<close> of a set of pages.\<close>

lemma free_live_page:
  assumes "kheap_inv u" and "kheap_live u = (\<lambda>p. (p, 4096)) ` insert t S \<union> L" and "t \<notin> S"
    and "\<And>l. (t, l) \<notin> L"
  shows "kheap_inv (kfree t u)" and "kheap_live (kfree t u) = (\<lambda>p. (p, 4096)) ` S \<union> L"
    and "\<And>q l x. (q, l) \<in> (\<lambda>p. (p, 4096)) ` S \<union> L \<Longrightarrow> in_region q l x \<Longrightarrow>
      phys (kfree t u) x = phys u x"
proof -
  have t: "(t, 4096) \<in> kheap_live u" using assms(2) by auto
  show "kheap_inv (kfree t u)" by (rule kmalloc_heap.release_inv [OF assms(1) t])
  show "kheap_live (kfree t u) = (\<lambda>p. (p, 4096)) ` S \<union> L"
    using kmalloc_heap.release_live [OF assms(1) t] assms(2-4) by auto
  fix q l x
  assume "(q, l) \<in> (\<lambda>p. (p, 4096)) ` S \<union> L" "in_region q l x"
  then show "phys (kfree t u) x = phys u x"
    using kmalloc_heap.release_byte [OF assms(1) t] assms(2) by auto
qed

section \<open>Properties\<close>

text \<open>The state before \<open>kheap_init\<close> in the witnesses: all memory zero.\<close>

definition cold_kernel :: kheap where
  "cold_kernel = \<lparr>phys = (\<lambda>_. 0), video_mem = 0xB8000, term_row = 0, term_col = 0,
     kernel_heap_table = \<lparr>entries = 0, total = 0\<rparr>,
     kernel_heap = \<lparr>table = \<lparr>entries = 0, total = 0\<rparr>, saddr = 0\<rparr>\<rparr>"

text \<open>\<open>kheap_init\<close> never fails: the configured sizes are aligned and agree with the
  table. It establishes the heap invariant with all 25600 blocks free and nothing live, and
  changes no byte outside the table.\<close>

theorem kheap_init_ok:
  "kheap_inv (kheap_init s) \<and> kchunks (kheap_init s) = replicate 25600 Free \<and>
   kheap_live (kheap_init s) = {} \<and> kheap_pages (kheap_init s) = 25600 \<and>
   (\<forall>x. \<not> in_table boot_heap x \<longrightarrow> phys (kheap_init s) x = phys s x)"
  by (rule kheap_init_state)

theorem kheap_init_ok_witness: "phys (kheap_init cold_kernel) 0x500 = 0"
proof -
  have "\<not> in_table boot_heap 0x500" by (simp add: in_table_def in_region_def)
  with kheap_init_ok [of cold_kernel] show ?thesis by (simp add: cold_kernel_def)
qed

text \<open>C1. \<open>kmalloc\<close> of a request that fits, with any number of blocks live: the new block is
  not NULL, has room for the request, lies apart from every live block, and every live
  block stays live with its contents.\<close>

theorem kmalloc_fresh:
  assumes "kheap_inv s" and "kheap_room n s" and "kmalloc n s = (p, s')"
  shows "kheap_inv s' \<and> p \<noteq> 0 \<and>
    (\<exists>k \<ge> n. kheap_live s' = insert (p, k) (kheap_live s)) \<and>
    (\<forall>(q, l) \<in> kheap_live s. apart p n q l \<and> (\<forall>x. in_region q l x \<longrightarrow> phys s' x = phys s x))"
proof -
  have p: "p = fst (kmalloc n s)" "s' = snd (kmalloc n s)" by (simp_all add: assms(3))
  show ?thesis
    unfolding p
    using kmalloc_heap.alloc_inv [OF assms(1,2)] kmalloc_heap.alloc_nonnull [OF assms(1,2)]
      kmalloc_heap.alloc_live [OF assms(1,2)] kmalloc_heap.alloc_apart [OF assms(1,2)]
      kmalloc_heap.alloc_byte [OF assms(1,2)]
    by blast
qed

theorem kmalloc_fresh_witness:
  "\<exists>k \<ge> 100. kheap_live (snd (kmalloc 100 (kheap_init cold_kernel))) =
     {(fst (kmalloc 100 (kheap_init cold_kernel)), k)}"
proof -
  have "kheap_room 100 (kheap_init cold_kernel)"
    by (rule kheap_page_room) simp_all
  from kmalloc_fresh [OF kheap_init_inv this, of "fst (kmalloc 100 (kheap_init cold_kernel))"
      "snd (kmalloc 100 (kheap_init cold_kernel))"]
  show ?thesis by simp
qed

text \<open>\<open>kfree\<close> of a live block releases exactly that block: the others stay live with
  their contents. Releasing the block just allocated gives back the live set before.\<close>

theorem kfree_exact:
  assumes "kheap_inv s" and "(p, k) \<in> kheap_live s"
  shows "kheap_inv (kfree p s) \<and> kheap_live (kfree p s) = kheap_live s - {(p, k)} \<and>
    (\<forall>(q, l) \<in> kheap_live s. \<forall>x. in_region q l x \<longrightarrow> phys (kfree p s) x = phys s x)"
  using kmalloc_heap.release_inv [OF assms] kmalloc_heap.release_live [OF assms]
    kmalloc_heap.release_byte [OF assms] by blast

theorem kfree_exact_witness:
  "\<exists>p. kheap_live (kfree p (snd (kmalloc 100 (kheap_init cold_kernel)))) = {}"
proof -
  let ?s = "kheap_init cold_kernel"
  have room: "kheap_room 100 ?s" by (rule kheap_page_room) simp_all
  obtain k where k: "kheap_live (snd (kmalloc 100 ?s)) = {(fst (kmalloc 100 ?s), k)}"
    using kmalloc_heap.alloc_live [OF kheap_init_inv room] by auto
  with kfree_exact [OF kmalloc_heap.alloc_inv [OF kheap_init_inv room], of "fst (kmalloc 100 ?s)" k]
  show ?thesis by auto
qed

text \<open>C11. From boot on, any sequence of up to 25600 requests, each of one byte to a page in any mix of
  sizes, is served by \<open>kzalloc\<close>: the addresses are distinct and not NULL, each has a live block of
  at least the size asked for, and each request takes one page.\<close>

theorem kzalloc_serves_all_pages:
  assumes "length ns \<le> 25600" and "\<forall>n \<in> set ns. 0 < n \<and> n \<le> 4096"
    and "alloc_many kzalloc ns (kheap_init s) = (ps, s')"
  shows "distinct ps \<and> 0 \<notin> set ps \<and> kheap_inv s' \<and> kheap_pages s' + length ns = 25600 \<and>
    list_all2 (\<lambda>n p. \<exists>l \<ge> n. (p, l) \<in> kheap_live s') ns ps"
proof -
  have "length ns \<le> kheap_pages (kheap_init s)" using assms(1) by simp
  note h = kzalloc_pages.alloc_many_pages [OF kheap_init_inv this assms(2,3)]
  then have "list_all2 (\<lambda>n p. (\<forall>l. (p, l) \<notin> kheap_live (kheap_init s)) \<and> (\<exists>l \<ge> n. (p, l) \<in> kheap_live s')) ns ps" by blast
  then have "list_all2 (\<lambda>n p. \<exists>l \<ge> n. (p, l) \<in> kheap_live s') ns ps" by (rule list_all2_mono) blast
  with h show ?thesis by simp
qed

theorem kzalloc_serves_all_pages_witness:
  "\<exists>p q ps s'. alloc_many kzalloc [1, 4096, 100] (kheap_init cold_kernel) = (p # q # ps, s') \<and> p \<noteq> q"
proof -
  obtain ps and s' :: kheap where r: "alloc_many kzalloc [1, 4096, 100] (kheap_init cold_kernel) = (ps, s')"
    by (cases "alloc_many kzalloc [1, 4096, 100] (kheap_init cold_kernel)") blast
  have "length [1, 4096, 100 :: u32] \<le> 25600" "\<forall>n \<in> set [1, 4096, 100 :: u32]. 0 < n \<and> n \<le> 4096" by simp_all
  from kzalloc_serves_all_pages [OF this r] have "distinct ps" "length ps = 3" by (auto dest!: list_all2_lengthD)
  then obtain p q u where "ps = [p, q, u]" "p \<noteq> q" by (auto simp: numeral_3_eq_3 length_Suc_conv)
  with r show ?thesis by blast
qed

end
