(* ===== verification/HeapRun.thy ===== *)
theory HeapRun
  imports KHeap
begin

text \<open>
  The kernel heap over its life, from \<open>kheap_init\<close> on: a step relation for the calls of
  \<open>src/memory/heap/kheap.c\<close> in any order, with the writes of the owners of the blocks between them.
  What the trace says is outstanding is what is live, and a kernel that releases everything it
  allocated has the heap it started with.
\<close>

section \<open>Steps\<close>

datatype heap_event = Kmalloc u32 ptr | Kzalloc u32 ptr | Kfree ptr | Owner_Write ptr u8

text \<open>A request is served when it fits, a block is released once, and the owner of a block writes
  inside it.\<close>

inductive heap_step :: "kheap \<Rightarrow> heap_event \<Rightarrow> kheap \<Rightarrow> bool" where
  kmalloc: "\<lbrakk> kheap_room n s; kmalloc n s = (p, s') \<rbrakk> \<Longrightarrow> heap_step s (Kmalloc n p) s'"
| kzalloc: "\<lbrakk> kheap_room n s; kzalloc n s = (p, s') \<rbrakk> \<Longrightarrow> heap_step s (Kzalloc n p) s'"
| kfree: "(p, k) \<in> kheap_live s \<Longrightarrow> heap_step s (Kfree p) (kfree p s)"
| owner_write: "\<lbrakk> (p, k) \<in> kheap_live s; in_region p k x \<rbrakk> \<Longrightarrow> heap_step s (Owner_Write x b) (kheap_poke x b s)"

inductive heap_run :: "kheap \<Rightarrow> heap_event list \<Rightarrow> kheap \<Rightarrow> bool" where
  start: "heap_run s [] s"
| snoc: "\<lbrakk> heap_run s es s'; heap_step s' e s'' \<rbrakk> \<Longrightarrow> heap_run s (es @ [e]) s''"

text \<open>The addresses a trace has allocated and not yet released.\<close>

fun outstanding :: "heap_event list \<Rightarrow> ptr set \<Rightarrow> ptr set" where
  "outstanding [] P = P"
| "outstanding (Kmalloc n p # es) P = outstanding es (insert p P)"
| "outstanding (Kzalloc n p # es) P = outstanding es (insert p P)"
| "outstanding (Kfree p # es) P = outstanding es (P - {p})"
| "outstanding (Owner_Write x b # es) P = outstanding es P"

lemma outstanding_append: "outstanding (es @ fs) P = outstanding fs (outstanding es P)"
  by (induction es P rule: outstanding.induct) simp_all

section \<open>The invariant\<close>

definition heap_sound :: "kheap \<Rightarrow> bool" where
  "heap_sound s \<longleftrightarrow> kheap_inv s \<and>
     (\<forall>p k q l. (p, k) \<in> kheap_live s \<longrightarrow> (q, l) \<in> kheap_live s \<longrightarrow> (p, k) \<noteq> (q, l) \<longrightarrow> apart p k q l) \<and>
     (\<forall>p k x. (p, k) \<in> kheap_live s \<longrightarrow> in_region p k x \<longrightarrow> in_heap x)"

lemma heap_sound_inv: "heap_sound s \<longleftrightarrow> kheap_inv s"
  unfolding heap_sound_def using kmalloc_heap.live_apart live_in_heap by blast

lemma live_fun: "\<lbrakk> kheap_inv s; (p, k) \<in> kheap_live s; (p, l) \<in> kheap_live s \<rbrakk> \<Longrightarrow> k = l"
  using kmalloc_heap.live_apart [of s p k p l] kmalloc_heap.live_nonnull [of s p k]
  by (cases "k = l") (auto simp: apart_def)

lemma heap_step_live:
  assumes "heap_step s e s'" and "kheap_inv s"
  shows "kheap_inv s'" and "fst ` kheap_live s' = outstanding [e] (fst ` kheap_live s)"
proof -
  have "kheap_inv s' \<and> fst ` kheap_live s' = outstanding [e] (fst ` kheap_live s)"
    using assms
  proof (cases rule: heap_step.cases)
    case (kmalloc n p)
    then show ?thesis
      using kmalloc_heap.alloc_inv [OF assms(2), of n] kmalloc_heap.alloc_live [OF assms(2), of n] by force
  next
    case (kzalloc n p)
    then show ?thesis
      using kzalloc_heap.alloc_inv [OF assms(2), of n] kzalloc_heap.alloc_live [OF assms(2), of n] by force
  next
    case (kfree p k)
    have "fst ` (kheap_live s - {(p, k)}) = fst ` kheap_live s - {p}"
      using live_fun [OF assms(2) kfree(3)] by force
    then show ?thesis
      using kfree kmalloc_heap.release_inv [OF assms(2) kfree(3)] kmalloc_heap.release_live [OF assms(2) kfree(3)]
      by simp
  next
    case (owner_write p k x b)
    then show ?thesis
      using kmalloc_heap.poke_inv [OF assms(2)] kmalloc_heap.poke_live [OF assms(2)] by simp
  qed
  then show "kheap_inv s'" "fst ` kheap_live s' = outstanding [e] (fst ` kheap_live s)" by blast+
qed

lemma heap_run_live:
  "heap_run s es s' \<Longrightarrow> kheap_inv s \<Longrightarrow>
   kheap_inv s' \<and> fst ` kheap_live s' = outstanding es (fst ` kheap_live s)"
proof (induction rule: heap_run.induct)
  case (snoc s es s' e s'')
  then show ?case using heap_step_live [OF snoc.hyps(2)] by (simp add: outstanding_append)
qed simp

section \<open>An empty heap\<close>

lemma allocs_empty: "allocs i cs = [] \<Longrightarrow> cs = replicate (length cs) Free \<and> size_of cs = length cs"
proof (induction cs arbitrary: i)
  case (Cons c cs)
  then show ?case by (cases c) auto
qed simp

lemma empty_heap:
  assumes "kheap_inv s" and "kheap_live s = {}"
  shows "kchunks s = replicate 25600 Free"
proof -
  have "allocs 0 (kchunks s) = []" using assms(2) by (simp add: kheap_live_def live_of_def)
  from allocs_empty [OF this] show ?thesis using kheap_inv_size [OF assms(1)] by metis
qed

lemma same_chunks_same_table:
  assumes "kheap_inv s" and "kheap_inv s'" and "kchunks s = kchunks s'" and "in_table boot_heap x"
  shows "phys s x = phys s' x"
proof -
  have t: "bytes_at (phys s) 0x7E00 25600 = bytes_at (phys s') 0x7E00 25600"
    using kheap_inv_repr [OF assms(1)] kheap_inv_repr [OF assms(2)] assms(3)
    by (simp add: heap_repr_def table_of_def del: bytes_at_numeral)
  define i where "i = unat (x - 0x7E00)"
  have "i < 25600" using assms(4) by (simp add: in_table_def in_region_def word_less_nat_alt i_def)
  moreover have "x = 0x7E00 + of_nat i" by (simp add: i_def)
  ultimately show ?thesis using arg_cong [OF t, of "\<lambda>bs. bs ! i"] by (simp del: bytes_at_numeral)
qed

section \<open>Properties\<close>

text \<open>C2. In every state the kernel's heap reaches from \<open>kheap_init\<close> by calls that fit, releases of live
  blocks and writes of owners into their blocks, in any order: the invariant holds, the live blocks
  are pairwise disjoint and inside the heap, and they are exactly those the trace has allocated and
  not released. When nothing is outstanding all 25600 blocks are free and the block table is byte
  for byte the one \<open>kheap_init\<close> wrote.\<close>

theorem heap_run_sound:
  assumes "heap_run (kheap_init s0) es s"
  shows "heap_sound s \<and> fst ` kheap_live s = outstanding es {} \<and>
    (outstanding es {} = {} \<longrightarrow> kheap_pages s = 25600 \<and>
       (\<forall>x. in_table boot_heap x \<longrightarrow> phys s x = phys (kheap_init s0) x))"
proof -
  note run = heap_run_live [OF assms kheap_init_inv]
  then have live: "fst ` kheap_live s = outstanding es {}" by simp
  have "kheap_pages s = 25600 \<and> (\<forall>x. in_table boot_heap x \<longrightarrow> phys s x = phys (kheap_init s0) x)"
    if "outstanding es {} = {}"
  proof -
    have "kchunks s = replicate 25600 Free" using run live that by (intro empty_heap) auto
    moreover from this have "phys s x = phys (kheap_init s0) x" if "in_table boot_heap x" for x
      by (intro same_chunks_same_table [OF _ kheap_init_inv _ that]) (simp_all add: run kheap_init_chunks)
    ultimately show ?thesis by (simp add: kheap_pages_def count_list_eq_length_filter)
  qed
  with run live show ?thesis by (simp add: heap_sound_inv)
qed

text \<open>Two blocks are allocated, one is written to, and they are released in the order of allocation.\<close>

theorem heap_run_sound_witness:
  "\<exists>p q s. heap_run (kheap_init cold_kernel) [Kzalloc 100 p, Kzalloc 4096 q, Owner_Write p 7, Kfree p, Kfree q] s \<and>
     p \<noteq> q \<and> kheap_pages s = 25600"
proof -
  let ?s0 = "kheap_init cold_kernel"
  obtain p s1 where a1: "kzalloc 100 ?s0 = (p, s1)" by (cases "kzalloc 100 ?s0")
  obtain q s2 where a2: "kzalloc 4096 s1 = (q, s2)" by (cases "kzalloc 4096 s1")
  have n1: "0 < kheap_pages ?s0" "(0 :: u32) < 100" "(100 :: u32) \<le> 4096" by simp_all
  note f1 = kzalloc_page_facts [OF kheap_init_inv n1 a1]
  have n2: "0 < kheap_pages s1" "(0 :: u32) < 4096" "(4096 :: u32) \<le> 4096" using f1(3) by simp_all
  note f2 = kzalloc_page_facts [OF f1(1) n2 a2]
  define s3 where "s3 = kheap_poke p 7 s2"
  have l2: "kheap_live s2 = {(q, 4096), (p, 4096)}" using f1(2) f2(2) by simp
  have pq: "p \<noteq> q" using f2(4) f1(2) by auto
  have i3: "kheap_inv s3" and l3: "kheap_live s3 = kheap_live s2"
    using kmalloc_heap.poke_inv [OF f2(1), of p 4096 p] kmalloc_heap.poke_live [OF f2(1), of p 4096 p]
    by (simp_all add: l2 s3_def)
  define s4 where "s4 = kfree p s3"
  have l4: "kheap_live s4 = {(q, 4096)}"
    unfolding s4_def using kmalloc_heap.release_live [OF i3, of p 4096] l3 l2 pq by auto
  define s5 where "s5 = kfree q s4"
  have live: "(p, 4096) \<in> kheap_live s2" "(p, 4096) \<in> kheap_live s3" "(q, 4096) \<in> kheap_live s4" "in_region p 4096 p"
    by (simp_all add: l2 l3 l4)
  note steps = heap_step.kzalloc [OF kheap_page_room [OF n1] a1] heap_step.kzalloc [OF kheap_page_room [OF n2] a2]
    heap_step.owner_write [OF live(1,4), of 7, folded s3_def] heap_step.kfree [OF live(2), folded s4_def]
    heap_step.kfree [OF live(3), folded s5_def]
  have "heap_run ?s0 (((([] @ [Kzalloc 100 p]) @ [Kzalloc 4096 q]) @ [Owner_Write p 7]) @ [Kfree p] @ [Kfree q]) s5"
    using heap_run.snoc [OF heap_run.snoc [OF heap_run.snoc [OF heap_run.snoc [OF heap_run.snoc [OF heap_run.start
      steps(1)] steps(2)] steps(3)] steps(4)] steps(5)] by simp
  then have run: "heap_run ?s0 [Kzalloc 100 p, Kzalloc 4096 q, Owner_Write p 7, Kfree p, Kfree q] s5" by simp
  have "outstanding [Kzalloc 100 p, Kzalloc 4096 q, Owner_Write p 7, Kfree p, Kfree q] {} = {}" by auto
  with heap_run_sound [OF run] have "kheap_pages s5 = 25600" by simp
  with run pq show ?thesis by blast
qed

end
