(* ===== verification/PathParser.thy ===== *)
theory PathParser
  imports KHeap
begin

text \<open>
  \<open>src/fs/pparser.c\<close>: parsing of paths such as \<open>0:/dir/file\<close> into a linked list of parts. The
  nodes are structs in physical memory, allocated by \<open>kzalloc\<close>; a pointer argument
  \<open>const char **path\<close> is a value passed in and returned updated. A loop over a string that
  need not end is \<open>partial_function (option)\<close>: \<open>None\<close> is a run that never ends.

  The abstract view of a path is the list of its parts (\<open>path_parts\<close>), of a list in memory the
  predicate \<open>path_list\<close>.
\<close>

section \<open>Data\<close>

text \<open>The fields of \<open>struct path_root\<close> and \<open>struct path_part\<close>, two words each.\<close>

definition path_root_drive_no :: "mem \<Rightarrow> ptr \<Rightarrow> i32" where
  "path_root_drive_no m root = load32 m root"

definition path_root_first :: "mem \<Rightarrow> ptr \<Rightarrow> ptr" where
  "path_root_first m root = load32 m (root + 4)"

definition path_part_part :: "mem \<Rightarrow> ptr \<Rightarrow> ptr" where
  "path_part_part m part = load32 m part"

definition path_part_next :: "mem \<Rightarrow> ptr \<Rightarrow> ptr" where
  "path_part_next m part = load32 m (part + 4)"

section \<open>Operations\<close>

text \<open>\<open>memcmp (&filename[1], ":/", 2) == 0\<close> compares the two bytes with the literal.\<close>

definition pathparser_path_valid_format :: "ptr \<Rightarrow> mem \<Rightarrow> bool" where
  "pathparser_path_valid_format filename m =
     (let len = strnlen m filename max_path
      in 3 \<le>s len \<and> isdigit (m filename) \<and> m (filename + 1) = 0x3A \<and> m (filename + 2) = 0x2F)"

definition pathparser_get_drive_by_path :: "ptr \<Rightarrow> mem \<Rightarrow> i32 \<times> ptr" where
  "pathparser_get_drive_by_path path m =
     (if \<not> pathparser_path_valid_format path m then (- ebadpath, path)
      else (tonumericdigit (m path), path + 3))"

definition pathparser_create_root :: "i32 \<Rightarrow> 'a kheap_scheme \<Rightarrow> ptr \<times> 'a kheap_scheme" where
  "pathparser_create_root drive_number s =
     (let (path_r, s1) = kzalloc 8 s;
          m1 = store32 (phys s1) path_r drive_number;
          m2 = store32 m1 (path_r + 4) 0
      in (path_r, s1\<lparr>phys := m2\<rparr>))"

partial_function (option) path_part_loop :: "ptr \<Rightarrow> ptr \<Rightarrow> i32 \<Rightarrow> mem \<Rightarrow> (ptr \<times> i32 \<times> mem) option" where
  "path_part_loop result_path_part path i m =
     (if m path \<noteq> 0x2F \<and> m path \<noteq> 0
      then path_part_loop result_path_part (path + 1) (i + 1) (m(result_path_part + i := m path))
      else Some (path, i, m))"

text \<open>The part, or NULL for an empty one, and the rest of the path.\<close>

definition pathparser_get_path_part ::
  "ptr \<Rightarrow> 'a kheap_scheme \<Rightarrow> (ptr \<times> ptr \<times> 'a kheap_scheme) option" where
  "pathparser_get_path_part path s =
     (let (result_path_part, s1) = kzalloc (ucast max_path) s
      in do {
        (path', i, m) \<leftarrow> path_part_loop result_path_part path 0 (phys s1);
        let s2 = s1\<lparr>phys := m\<rparr>;
        let path'' = (if m path' = 0x2F then path' + 1 else path');
        Some (if i = 0 then (0, path'', kfree result_path_part s2)
              else (result_path_part, path'', s2))
      })"

definition pathparser_parse_path_part ::
  "ptr \<Rightarrow> ptr \<Rightarrow> 'a kheap_scheme \<Rightarrow> (ptr \<times> ptr \<times> 'a kheap_scheme) option" where
  "pathparser_parse_path_part last_part path s = do {
     (path_part_str, path', s1) \<leftarrow> pathparser_get_path_part path s;
     if path_part_str = 0 then Some (0, path', s1)
     else
       let (part, s2) = kzalloc 8 s1;
           m1 = store32 (phys s2) part path_part_str;
           m2 = store32 m1 (part + 4) 0;
           m3 = (if last_part \<noteq> 0 then store32 m2 (last_part + 4) part else m2)
       in Some (part, path', s2\<lparr>phys := m3\<rparr>)
   }"

partial_function (option) parse_loop :: "ptr \<Rightarrow> ptr \<Rightarrow> 'a kheap_scheme \<Rightarrow> 'a kheap_scheme option" where
  "parse_loop part tmp_path s =
     (if part \<noteq> 0 then do {
        (part', tmp_path', s') \<leftarrow> pathparser_parse_path_part part tmp_path s;
        parse_loop part' tmp_path' s'
      } else Some s)"

definition pathparser_parse :: "ptr \<Rightarrow> ptr \<Rightarrow> 'a kheap_scheme \<Rightarrow> (ptr \<times> 'a kheap_scheme) option" where
  "pathparser_parse path current_directory_path s = do {
     len \<leftarrow> strlen (phys s) path;
     if max_path <s len then Some (0, s)
     else
       let (res, tmp_path) = pathparser_get_drive_by_path path (phys s)
       in if res <s 0 then Some (0, s)
          else
            let (path_root, s1) = pathparser_create_root res s
            in if path_root = 0 then Some (path_root, s1)
               else do {
                 (first_part, tmp_path1, s2) \<leftarrow> pathparser_parse_path_part 0 tmp_path s1;
                 if first_part = 0 then Some (path_root, s2)
                 else do {
                   let s3 = s2\<lparr>phys := store32 (phys s2) (path_root + 4) first_part\<rparr>;
                   (part, tmp_path2, s4) \<leftarrow> pathparser_parse_path_part first_part tmp_path1 s3;
                   s5 \<leftarrow> parse_loop part tmp_path2 s4;
                   Some (path_root, s5)
                 }
               }
   }"

partial_function (option) path_free_loop :: "ptr \<Rightarrow> 'a kheap_scheme \<Rightarrow> 'a kheap_scheme option" where
  "path_free_loop part s =
     (if part \<noteq> 0 then
        let next_part = path_part_next (phys s) part;
            s1 = kfree (path_part_part (phys s) part) s;
            s2 = kfree part s1
        in path_free_loop next_part s2
      else Some s)"

definition pathparser_free :: "ptr \<Rightarrow> 'a kheap_scheme \<Rightarrow> 'a kheap_scheme option" where
  "pathparser_free root s = do {
     s' \<leftarrow> path_free_loop (path_root_first (phys s) root) s;
     Some (kfree root s')
   }"

section \<open>Paths\<close>

text \<open>The parts of a path after the drive: the names between slashes, up to the first empty
  one.\<close>

function path_parts :: "u8 list \<Rightarrow> u8 list list" where
  "path_parts t =
     (let w = takeWhile (\<lambda>c. c \<noteq> 0x2F) t
      in if w = [] then [] else w # path_parts (drop (Suc (length w)) t))"
  by pat_completeness auto
termination
  by (relation "measure length") (auto simp: Let_def takeWhile_eq_Nil_iff split: list.splits)

declare path_parts.simps [simp del]

definition path_valid :: "u8 list \<Rightarrow> bool" where
  "path_valid t \<longleftrightarrow> 3 \<le> length t \<and> length t \<le> 108 \<and> isdigit (t ! 0) \<and> t ! 1 = 0x3A \<and> t ! 2 = 0x2F"

fun path_list :: "mem \<Rightarrow> ptr \<Rightarrow> u8 list list \<Rightarrow> bool" where
  "path_list m p [] \<longleftrightarrow> p = 0"
| "path_list m p (w # ws) \<longleftrightarrow>
     p \<noteq> 0 \<and> cstr_at m (path_part_part m p) w \<and> path_list m (path_part_next m p) ws"

section \<open>One part\<close>

abbreviation upto_slash :: "u8 list \<Rightarrow> u8 list" where
  "upto_slash t \<equiv> takeWhile (\<lambda>c. c \<noteq> 0x2F) t"

lemma cstr_at_drop: "cstr_at m p t \<Longrightarrow> k \<le> length t \<Longrightarrow> cstr_at m (p + of_nat k) (drop k t)"
  using cstr_at_append [of m p "take k t" "drop k t"] by simp

text \<open>How far one part takes the path pointer: past the part and a slash, not past the end.\<close>

definition part_len :: "u8 list \<Rightarrow> nat" where
  "part_len t = min (Suc (length (upto_slash t))) (length t)"

lemma drop_part_len [simp]: "drop (part_len t) t = drop (Suc (length (upto_slash t))) t"
  by (auto simp: part_len_def min_def)

lemma part_len_le: "part_len t \<le> length t"
  by (simp add: part_len_def)

lemma path_part_loop_eq:
  "\<lbrakk> cstr_at m p t; \<forall>j \<le> length t. \<forall>k < length (upto_slash t). p + of_nat j \<noteq> b + of_nat (i + k) \<rbrakk> \<Longrightarrow>
   path_part_loop b p (of_nat i) m =
     Some (p + of_nat (length (upto_slash t)), of_nat (i + length (upto_slash t)),
       put_bytes (b + of_nat i) (upto_slash t) m)"
proof (induction t arbitrary: p i m)
  case Nil
  then show ?case by (simp add: path_part_loop.simps)
next
  case (Cons c t)
  show ?case
  proof (cases "c = 0x2F")
    case True
    then show ?thesis using Cons.prems(1) by (simp add: path_part_loop.simps)
  next
    case False
    define m1 where "m1 = m(b + of_nat i := c)"
    have c: "m p = c" "c \<noteq> 0" using Cons.prems(1) by simp_all
    have ne: "p + of_nat j \<noteq> b + of_nat (i + k)"
      if "j \<le> length (c # t)" "k < Suc (length (upto_slash t))" for j k
      using Cons.prems(2) that False by simp
    have "cstr_at m1 (p + 1) t = cstr_at m (p + 1) t"
    proof (rule cstr_at_cong)
      fix j assume "j \<le> length t"
      then have "p + of_nat (Suc j) \<noteq> b + of_nat (i + 0)" by (intro ne) simp_all
      then show "m1 (p + 1 + of_nat j) = m (p + 1 + of_nat j)" by (simp add: m1_def add.assoc)
    qed
    then have at: "cstr_at m1 (p + 1) t" using Cons.prems(1) by simp
    have "\<forall>j \<le> length t. \<forall>k < length (upto_slash t). p + 1 + of_nat j \<noteq> b + of_nat (Suc i + k)"
    proof (intro allI impI)
      fix j k assume "j \<le> length t" "k < length (upto_slash t)"
      then have "p + of_nat (Suc j) \<noteq> b + of_nat (i + Suc k)" by (intro ne) simp_all
      then show "p + 1 + of_nat j \<noteq> b + of_nat (Suc i + k)" by (simp add: add.assoc)
    qed
    from Cons.IH [OF at this] have "path_part_loop b (p + 1) (of_nat i + 1) m1 =
        Some (p + 1 + of_nat (length (upto_slash t)), of_nat (Suc i + length (upto_slash t)),
          put_bytes (b + of_nat (Suc i)) (upto_slash t) m1)"
      by (simp add: add.commute)
    then show ?thesis
      using False c by (simp add: path_part_loop.simps [of b p "of_nat i" m] m1_def [symmetric] ac_simps)
  qed
qed

lemma set_upto_slash: "cstr_at m p t \<Longrightarrow> 0 \<notin> set (upto_slash t)"
  using cstr_at_no_nul [of m p t] by (auto dest: set_takeWhileD)

text \<open>A string written into a cleared buffer.\<close>

lemma put_bytes_cstr:
  assumes "0 \<notin> set w" and "length w < n" and "n < 2 ^ 31"
    and "\<And>x. in_region b (of_nat n) x \<Longrightarrow> m x = 0"
  shows "cstr_at (put_bytes b w m) b w"
proof -
  have "in_region b (of_nat n) (b + of_nat (length w))"
    using assms(2,3) by (simp add: in_region_of_nat)
  then have "m (b + of_nat (length w)) = 0" by (rule assms(4))
  moreover have "\<not> in_region b (of_nat (length w)) (b + of_nat (length w))"
    using assms(2,3) by (simp add: in_region_of_nat)
  ultimately show ?thesis
    using assms by (auto simp: cstr_at_iff put_bytes_nth put_bytes_out in_set_conv_nth)
qed

lemma get_path_part:
  assumes inv: "kheap_inv s" and pos: "0 < kheap_pages s" and path: "cstr_at (phys s) p t"
    and stable: "\<And>j. j \<le> length t \<Longrightarrow> kheap_stable s (p + of_nat j)"
    and len: "length (upto_slash t) < 108"
  shows "\<exists>b s'. pathparser_get_path_part p s =
      Some (if upto_slash t = [] then 0 else b, p + of_nat (part_len t), s') \<and>
    kheap_inv s' \<and>
    (\<forall>x. kheap_stable s x \<longrightarrow> phys s' x = phys s x) \<and>
    (if upto_slash t = [] then kheap_live s' = kheap_live s \<and> kheap_pages s' = kheap_pages s
     else b \<noteq> 0 \<and> kheap_live s' = insert (b, 4096) (kheap_live s) \<and>
       (\<forall>l. (b, l) \<notin> kheap_live s) \<and> Suc (kheap_pages s') = kheap_pages s \<and>
       cstr_at (phys s') b (upto_slash t))"
proof -
  let ?w = "upto_slash t"
  obtain b s1 where alloc: "kzalloc 108 s = (b, s1)" by (cases "kzalloc 108 s") blast
  have n: "(0 :: u32) < 108" "(108 :: u32) \<le> 4096" by simp_all
  note new = kzalloc_page_facts [OF inv pos n alloc]
  define m where "m = put_bytes b ?w (phys s1)"
  let ?s2 = "s1\<lparr>phys := m\<rparr>"
  have lw: "length ?w < 2 ^ 32" using len by simp
  have reg: "in_region b 4096 (b + of_nat k)" if "k < 108" for k
    using that by (simp add: in_region_of_nat)
  have m_out: "m x = phys s1 x" if "\<not> in_region b 4096 x" for x
  proof -
    have "\<not> in_region b (of_nat (length ?w)) x"
      using that len by (simp add: in_region_def word_less_nat_alt)
    then show ?thesis unfolding m_def by (rule put_bytes_out [OF lw])
  qed
  have "(b, 4096) \<in> kheap_live s1" using new(2) by simp
  note w = kheap_write_live [OF new(1) this m_out]
  have live2: "kheap_live ?s2 = insert (b, 4096) (kheap_live s)"
    and pages2: "kheap_pages ?s2 = kheap_pages s1"
    using w(2) new(2) by (simp_all add: kheap_live_def kheap_pages_def)
  have keep: "m x = phys s x" if "kheap_stable s x" for x
    using m_out new(6,8) that by simp
  have path1: "cstr_at (phys s1) p t"
    using path new(6) stable by (simp add: cstr_at_cong [of t "phys s1" p "phys s"])
  have path2: "cstr_at m p t"
    using path keep stable by (simp add: cstr_at_cong [of t m p "phys s"])
  have "p + of_nat j \<noteq> b + of_nat (0 + k)" if "j \<le> length t" "k < length ?w" for j k
    using new(8) [OF stable [OF that(1)]] reg [of k] that(2) len by auto
  from path_part_loop_eq [OF path1, of b 0] this
  have loop: "path_part_loop b p 0 (phys s1) = Some (p + of_nat (length ?w), of_nat (length ?w), m)"
    by (simp add: m_def)
  have zero: "(of_nat (length ?w) :: i32) = 0 \<longleftrightarrow> ?w = []"
    using of_nat_word_inj [OF lw, of 0] by simp
  have next_char: "m (p + of_nat (length ?w)) = 0x2F \<longleftrightarrow> length ?w < length t"
  proof (cases "length ?w < length t")
    case True
    then have "t ! length ?w = 0x2F" using nth_length_takeWhile [OF True] by simp
    moreover have "m (p + of_nat (length ?w)) = t ! length ?w"
      using True path2 unfolding cstr_at_iff by blast
    ultimately show ?thesis using True by simp
  next
    case False
    then have "length ?w = length t" using length_takeWhile_le [of "\<lambda>c. c \<noteq> 0x2F" t] by linarith
    moreover have "m (p + of_nat (length t)) = 0" using path2 unfolding cstr_at_iff by blast
    ultimately show ?thesis by (simp only:) simp
  qed
  have adv: "(if m (p + of_nat (length ?w)) = 0x2F then p + of_nat (length ?w) + 1
      else p + of_nat (length ?w)) = p + of_nat (part_len t)"
    using length_takeWhile_le [of "\<lambda>c. c \<noteq> 0x2F" t]
    by (auto simp: next_char part_len_def min_def not_less add.assoc)
  have res: "pathparser_get_path_part p s =
      Some (if ?w = [] then (0, p + of_nat (part_len t), kfree b ?s2)
            else (b, p + of_nat (part_len t), ?s2))"
    by (simp add: pathparser_get_path_part_def max_path_def alloc loop zero adv)
  show ?thesis
  proof (cases "?w = []")
    case True
    have b: "(b, 4096) \<in> kheap_live ?s2" using live2 by simp
    have "phys (kfree b ?s2) x = phys s x" if "kheap_stable s x" for x
    proof -
      have "kheap_stable ?s2 x" using stable_mono [OF _ that] live2 by blast
      then show ?thesis using kfree_stable [OF w(1) b] keep [OF that] by simp
    qed
    moreover have "kheap_live (kfree b ?s2) = kheap_live s"
      using kmalloc_heap.release_live [OF w(1) b] live2 new(4) by auto
    moreover have "kheap_pages (kfree b ?s2) = kheap_pages s"
      using kmalloc_pages.release_page [OF w(1) b] pages2 new(3) by simp
    moreover have "kheap_inv (kfree b ?s2)" by (rule kmalloc_heap.release_inv [OF w(1) b])
    ultimately show ?thesis using True res by auto
  next
    case False
    have "cstr_at m b ?w"
      unfolding m_def using set_upto_slash [OF path] len new(7) by (intro put_bytes_cstr [of _ 108]) simp_all
    with False res w(1) keep live2 pages2 new(3,4,5) show ?thesis by auto
  qed
qed

lemma node_words: "word_in n 4096 n" "word_in n 4096 (n + 4)"
  using page_word [of n] table_word [of 1 n] by simp_all

lemma parse_part:
  assumes inv: "kheap_inv s" and pages: "2 \<le> kheap_pages s" and path: "cstr_at (phys s) p t"
    and stable: "\<And>j. j \<le> length t \<Longrightarrow> kheap_stable s (p + of_nat j)"
    and len: "length (upto_slash t) < 108"
    and prev: "prev \<noteq> 0 \<Longrightarrow> (prev, 4096) \<in> kheap_live s"
  shows "\<exists>n b s'. pathparser_parse_path_part prev p s =
      Some (if upto_slash t = [] then 0 else n, p + of_nat (part_len t), s') \<and>
    kheap_inv s' \<and>
    (\<forall>x. kheap_stable s x \<and> (prev \<noteq> 0 \<longrightarrow> \<not> in_region (prev + 4) 4 x) \<longrightarrow> phys s' x = phys s x) \<and>
    (if upto_slash t = [] then kheap_live s' = kheap_live s \<and> kheap_pages s' = kheap_pages s \<and>
       (\<forall>x. kheap_stable s x \<longrightarrow> phys s' x = phys s x)
     else n \<noteq> 0 \<and> n \<noteq> b \<and> kheap_live s' = insert (n, 4096) (insert (b, 4096) (kheap_live s)) \<and>
       (\<forall>l. (n, l) \<notin> kheap_live s) \<and> (\<forall>l. (b, l) \<notin> kheap_live s) \<and>
       kheap_pages s' + 2 = kheap_pages s \<and>
       path_part_part (phys s') n = b \<and> path_part_next (phys s') n = 0 \<and>
       cstr_at (phys s') b (upto_slash t) \<and>
       (prev \<noteq> 0 \<longrightarrow> path_part_next (phys s') prev = n))"
proof -
  let ?w = "upto_slash t"
  have pos: "0 < kheap_pages s" using pages by simp
  obtain b s1 where g: "pathparser_get_path_part p s =
      Some (if ?w = [] then 0 else b, p + of_nat (part_len t), s1)" and inv1: "kheap_inv s1"
    and keep1: "\<And>x. kheap_stable s x \<Longrightarrow> phys s1 x = phys s x"
    and c: "if ?w = [] then kheap_live s1 = kheap_live s \<and> kheap_pages s1 = kheap_pages s
     else b \<noteq> 0 \<and> kheap_live s1 = insert (b, 4096) (kheap_live s) \<and>
       (\<forall>l. (b, l) \<notin> kheap_live s) \<and> Suc (kheap_pages s1) = kheap_pages s \<and> cstr_at (phys s1) b ?w"
    using get_path_part [OF inv pos path stable len] by auto
  show ?thesis
  proof (cases "?w = []")
    case True
    then show ?thesis using g inv1 keep1 c by (simp add: pathparser_parse_path_part_def)
  next
    case False
    then have b: "b \<noteq> 0" "\<And>l. (b, l) \<notin> kheap_live s" and live1: "kheap_live s1 = insert (b, 4096) (kheap_live s)"
      and pages1: "Suc (kheap_pages s1) = kheap_pages s" and str1: "cstr_at (phys s1) b ?w"
      using c by simp_all
    have pos1: "0 < kheap_pages s1" using pages1 pages by simp
    obtain n s2 where alloc: "kzalloc 8 s1 = (n, s2)" by (cases "kzalloc 8 s1") blast
    have n8: "(0 :: u32) < 8" "(8 :: u32) \<le> 4096" by simp_all
    note new = kzalloc_page_facts [OF inv1 pos1 n8 alloc]
    define m2 where "m2 = store32 (store32 (phys s2) n b) (n + 4) 0"
    define m3 where "m3 = (if prev \<noteq> 0 then store32 m2 (prev + 4) n else m2)"
    have st1: "kheap_stable s1 x" if "kheap_stable s x" for x
      using stable_mono [OF _ that] live1 by blast
    have m2_out: "m2 x = phys s2 x" if "\<not> in_region n 4096 x" for x
    proof -
      have "\<not> in_region n 4 x" "\<not> in_region (n + 4) 4 x"
        using that node_words [of n] unfolding word_in_def by blast+
      then show ?thesis by (simp add: m2_def store32_other)
    qed
    have n2: "(n, 4096) \<in> kheap_live s2" using new(2) by simp
    note w2 = kheap_write_live [OF new(1) n2 m2_out]
    let ?s2 = "s2\<lparr>phys := m2\<rparr>"
    have live2: "kheap_live ?s2 = insert (n, 4096) (insert (b, 4096) (kheap_live s))"
      using w2(2) new(2) live1 by (simp add: kheap_live_def)
    have m3_out: "m3 x = m2 x" if "prev \<noteq> 0 \<longrightarrow> \<not> in_region (prev + 4) 4 x" for x
      using that by (auto simp: m3_def store32_other)
    have w3: "kheap_inv (s2\<lparr>phys := m3\<rparr>)" "kchunks (s2\<lparr>phys := m3\<rparr>) = kchunks s2"
    proof -
      have "kheap_inv (?s2\<lparr>phys := m3\<rparr>) \<and> kchunks (?s2\<lparr>phys := m3\<rparr>) = kchunks ?s2"
      proof (cases "prev = 0")
        case True
        then show ?thesis using w2 by (simp add: m3_def)
      next
        case False
        then have l: "(prev, 4096) \<in> kheap_live ?s2" using prev live2 by simp
        have "m3 x = phys ?s2 x" if "\<not> in_region prev 4096 x" for x
        proof -
          have "\<not> in_region (prev + 4) 4 x" using that node_words(2) [of prev] unfolding word_in_def by blast
          then show ?thesis using m3_out by simp
        qed
        with kheap_write_live [OF w2(1) l] show ?thesis by blast
      qed
      then show "kheap_inv (s2\<lparr>phys := m3\<rparr>)" "kchunks (s2\<lparr>phys := m3\<rparr>) = kchunks s2"
        using w2(2) by simp_all
    qed
    have keep3: "m3 x = phys s x" if "kheap_stable s x" "prev \<noteq> 0 \<longrightarrow> \<not> in_region (prev + 4) 4 x" for x
      using m3_out [OF that(2)] m2_out new(6,8) [OF st1 [OF that(1)]] keep1 [OF that(1)] by simp
    have not_last: "\<not> in_region (prev + 4) 4 x"
      if "prev \<noteq> 0" "(q, 4096) \<in> kheap_live ?s2" "\<And>l. (q, l) \<notin> kheap_live s" "in_region q 4096 x" for q x
    proof -
      have l: "(prev, 4096) \<in> kheap_live s" using prev that(1) by simp
      then have "(prev, 4096) \<noteq> (q, 4096)" using that(3) by blast
      moreover have "(prev, 4096) \<in> kheap_live ?s2" using l live2 by simp
      ultimately have "apart prev 4096 q 4096"
        using kmalloc_heap.live_apart [OF w2(1) _ that(2)] by blast
      then have "\<not> in_region prev 4096 x" using apart_not_in that(4) by blast
      then show ?thesis using node_words(2) [of prev] by (auto simp: word_in_def)
    qed
    have n_fresh: "\<And>l. (n, l) \<notin> kheap_live s" using new(4) live1 by simp
    have nb: "n \<noteq> b" using new(4) live1 by auto
    have n_same: "m3 x = m2 x" if "in_region n 4096 x" for x
      using m3_out not_last [OF _ _ n_fresh that] live2 by blast
    have "load32 m3 n = load32 m2 n" "load32 m3 (n + 4) = load32 m2 (n + 4)"
      using n_same by (intro load32_word_in [OF node_words(1)] load32_word_in [OF node_words(2)]; simp)+
    moreover have "apart (n + 4) 4 n 4" using words_apart [of 1 0 n] by simp
    ultimately have node: "path_part_part m3 n = b" "path_part_next m3 n = 0"
      by (simp_all add: path_part_part_def path_part_next_def m2_def load32_store32_apart)
    have b_same: "m3 x = phys s1 x" if "in_region b 4096 x" for x
    proof -
      have "kheap_stable s1 x" using stable_live [OF inv1 _ that] live1 by simp
      then have "m2 x = phys s1 x" using m2_out new(6,8) by simp
      moreover have "m3 x = m2 x" using m3_out not_last [OF _ _ b(2) that] live2 by blast
      ultimately show ?thesis by simp
    qed
    have "cstr_at m3 b ?w = cstr_at (phys s1) b ?w"
    proof (rule cstr_at_cong)
      fix i assume "i \<le> length ?w"
      then show "m3 (b + of_nat i) = phys s1 (b + of_nat i)"
        using len by (intro b_same) (simp add: in_region_of_nat)
    qed
    with str1 have str3: "cstr_at m3 b ?w" by simp
    have "pathparser_parse_path_part prev p s = Some (n, p + of_nat (part_len t), s2\<lparr>phys := m3\<rparr>)"
      using g False b(1) alloc by (simp add: pathparser_parse_path_part_def m3_def m2_def)
    moreover have "path_part_next m3 prev = n" if "prev \<noteq> 0"
      using that by (simp add: m3_def path_part_next_def)
    ultimately show ?thesis
      using False w3 live2 pages1 new(3,5) n_fresh nb b node str3 keep3 new(2) live1
      by (auto simp: kheap_live_def kheap_pages_def)
  qed
qed

section \<open>The list of parts\<close>

text \<open>The nodes of a list in memory: the address of the struct, of its string, and the name.\<close>

type_synonym node = "ptr \<times> ptr \<times> u8 list"

fun nodes_at :: "mem \<Rightarrow> ptr \<Rightarrow> node list \<Rightarrow> bool" where
  "nodes_at m p [] \<longleftrightarrow> p = 0"
| "nodes_at m p ((n, b, w) # ns) \<longleftrightarrow> p = n \<and> n \<noteq> 0 \<and> path_part_part m n = b \<and> b \<noteq> n \<and>
     length w < 108 \<and> cstr_at m b w \<and> nodes_at m (path_part_next m n) ns"

fun node_blocks :: "node list \<Rightarrow> ptr list" where
  "node_blocks [] = []"
| "node_blocks ((n, b, w) # ns) = n # b # node_blocks ns"

lemma length_node_blocks [simp]: "length (node_blocks ns) = 2 * length ns"
  by (induction ns rule: node_blocks.induct) simp_all

lemma nodes_at_list: "nodes_at m p ns \<Longrightarrow> path_list m p (map (snd \<circ> snd) ns)"
  by (induction m p ns rule: nodes_at.induct) simp_all

lemma cstr_at_page:
  assumes "length w < 108" and "\<And>x. in_region b 4096 x \<Longrightarrow> m x = m' x"
  shows "cstr_at m b w = cstr_at m' b w"
proof (rule cstr_at_cong)
  fix i assume "i \<le> length w"
  then show "m (b + of_nat i) = m' (b + of_nat i)"
    using assms(1) by (intro assms(2)) (simp add: in_region_of_nat)
qed

lemma nodes_at_cong:
  "(\<And>q x. q \<in> set (node_blocks ns) \<Longrightarrow> in_region q 4096 x \<Longrightarrow> m x = m' x) \<Longrightarrow>
   nodes_at m p ns = nodes_at m' p ns"
proof (induction m p ns rule: nodes_at.induct)
  case (2 m p n b w ns)
  have n: "\<And>x. in_region n 4096 x \<Longrightarrow> m x = m' x" and b: "\<And>x. in_region b 4096 x \<Longrightarrow> m x = m' x"
    using "2.prems" by auto
  have "path_part_part m n = path_part_part m' n"
    using load32_word_in [OF node_words(1) n] by (simp add: path_part_part_def)
  moreover have nx: "path_part_next m n = path_part_next m' n"
    using load32_word_in [OF node_words(2) n] by (simp add: path_part_next_def)
  moreover have "nodes_at m (path_part_next m n) ns = nodes_at m' (path_part_next m n) ns"
    using "2.IH" "2.prems" by auto
  ultimately show ?case using cstr_at_page [of w b m m'] b by auto
qed simp

text \<open>The loop that parses the parts after \<open>prev\<close>.\<close>

definition parse_rest :: "ptr \<Rightarrow> ptr \<Rightarrow> 'a kheap_scheme \<Rightarrow> 'a kheap_scheme option" where
  "parse_rest prev p s = do {
     (part, p', s') \<leftarrow> pathparser_parse_path_part prev p s;
     parse_loop part p' s'
   }"

lemma parse_loop_unfold: "parse_loop part p s = (if part \<noteq> 0 then parse_rest part p s else Some s)"
  by (subst parse_loop.simps) (simp add: parse_rest_def)

text \<open>What a run of the loop adds to a state: the nodes \<open>ns\<close> after \<open>prev\<close>, each in two new
  pages. Only the next field of \<open>prev\<close> changes among the stable bytes.\<close>

definition parts_added :: "'a kheap_scheme \<Rightarrow> ptr \<Rightarrow> node list \<Rightarrow> 'a kheap_scheme \<Rightarrow> bool" where
  "parts_added s prev ns s' \<longleftrightarrow> kheap_inv s' \<and> nodes_at (phys s') (path_part_next (phys s') prev) ns \<and>
     kheap_live s' = (\<lambda>q. (q, 4096)) ` set (node_blocks ns) \<union> kheap_live s \<and>
     distinct (node_blocks ns) \<and> (\<forall>q \<in> set (node_blocks ns). \<forall>l. (q, l) \<notin> kheap_live s) \<and>
     kheap_pages s' + 2 * length ns = kheap_pages s \<and>
     (\<forall>x. kheap_stable s x \<and> \<not> in_region (prev + 4) 4 x \<longrightarrow> phys s' x = phys s x)"

lemma parse_rest_ok:
  "\<lbrakk> kheap_inv s; 2 * length (path_parts t) + 2 \<le> kheap_pages s; cstr_at (phys s) p t;
     \<forall>j \<le> length t. kheap_stable s (p + of_nat j) \<and> \<not> in_region (prev + 4) 4 (p + of_nat j);
     length t < 108; prev \<noteq> 0; (prev, 4096) \<in> kheap_live s; path_part_next (phys s) prev = 0 \<rbrakk> \<Longrightarrow>
   \<exists>ns s'. parse_rest prev p s = Some s' \<and> map (snd \<circ> snd) ns = path_parts t \<and> parts_added s prev ns s'"
proof (induction "length t" arbitrary: t prev p s rule: less_induct)
  case (less t)
  let ?w = "upto_slash t"
  have lw: "length ?w < 108" using less.prems(5) length_takeWhile_le le_less_trans by blast
  have pages: "2 \<le> kheap_pages s" using less.prems(2) by simp
  obtain n b s1 where g: "pathparser_parse_path_part prev p s =
      Some (if ?w = [] then 0 else n, p + of_nat (part_len t), s1)" and inv1: "kheap_inv s1"
    and keep1: "\<And>x. kheap_stable s x \<Longrightarrow> \<not> in_region (prev + 4) 4 x \<Longrightarrow> phys s1 x = phys s x"
    and c: "if ?w = [] then kheap_live s1 = kheap_live s \<and> kheap_pages s1 = kheap_pages s \<and>
       (\<forall>x. kheap_stable s x \<longrightarrow> phys s1 x = phys s x)
     else n \<noteq> 0 \<and> n \<noteq> b \<and> kheap_live s1 = insert (n, 4096) (insert (b, 4096) (kheap_live s)) \<and>
       (\<forall>l. (n, l) \<notin> kheap_live s) \<and> (\<forall>l. (b, l) \<notin> kheap_live s) \<and>
       kheap_pages s1 + 2 = kheap_pages s \<and>
       path_part_part (phys s1) n = b \<and> path_part_next (phys s1) n = 0 \<and>
       cstr_at (phys s1) b ?w \<and> (prev \<noteq> 0 \<longrightarrow> path_part_next (phys s1) prev = n)"
    using parse_part [OF less.prems(1) pages less.prems(3) _ lw, of prev] less.prems(4,7) by auto
  show ?case
  proof (cases "?w = []")
    case True
    have same: "\<And>x. kheap_stable s x \<Longrightarrow> phys s1 x = phys s x" using c True by simp
    have "load32 (phys s1) (prev + 4) = load32 (phys s) (prev + 4)"
      using same stable_live [OF less.prems(1,7)] by (intro load32_word_in [OF node_words(2)]) simp
    then have "path_part_next (phys s1) prev = 0"
      using less.prems(8) by (simp add: path_part_next_def)
    then have "parts_added s prev [] s1" using True c inv1 by (simp add: parts_added_def)
    moreover have "path_parts t = []" using True by (subst path_parts.simps) (simp add: Let_def)
    moreover have "parse_rest prev p s = Some s1"
      using g True by (simp add: parse_rest_def parse_loop_unfold)
    ultimately show ?thesis by (intro exI [of _ "[]"] exI [of _ s1]) simp
  next
    case False
    let ?t = "drop (Suc (length ?w)) t" and ?p = "p + of_nat (part_len t)"
    have n: "n \<noteq> 0" "n \<noteq> b" and live1: "kheap_live s1 = insert (n, 4096) (insert (b, 4096) (kheap_live s))"
      and nf: "\<And>l. (n, l) \<notin> kheap_live s" and bf: "\<And>l. (b, l) \<notin> kheap_live s"
      and pages1: "kheap_pages s1 + 2 = kheap_pages s"
      and node: "path_part_part (phys s1) n = b" "path_part_next (phys s1) n = 0"
      and str: "cstr_at (phys s1) b ?w" and prev: "path_part_next (phys s1) prev = n"
      using c False less.prems(6) by simp_all
    have parts: "path_parts t = ?w # path_parts ?t"
      using False by (subst path_parts.simps) (simp add: Let_def)
    have st1: "kheap_stable s1 x" if "kheap_stable s x" for x
      using stable_mono [OF _ that] live1 by blast
    have n1: "(n, 4096) \<in> kheap_live s1" and b1: "(b, 4096) \<in> kheap_live s1"
      and sub1: "kheap_live s \<subseteq> kheap_live s1"
      using live1 by auto
    have not_n: "\<not> in_region (n + 4) 4 x" if "kheap_stable s x" for x
      using stable_not_new [OF inv1 n1 nf sub1 that] node_words(2) [of n] by (auto simp: word_in_def)
    have path': "p + of_nat (part_len t) + of_nat j = p + of_nat (part_len t + j)" for j
      by (simp add: add.assoc)
    have le: "part_len t + j \<le> length t" if "j \<le> length ?t" for j
    proof -
      have "length ?t = length t - part_len t" by (simp flip: drop_part_len)
      then show ?thesis using that part_len_le [of t] by linarith
    qed
    have "cstr_at (phys s1) p t = cstr_at (phys s) p t"
      using keep1 less.prems(4) by (intro cstr_at_cong) simp
    then have "cstr_at (phys s1) ?p (drop (part_len t) t)"
      using less.prems(3) by (intro cstr_at_drop part_len_le) simp
    then have at1: "cstr_at (phys s1) ?p ?t" by simp
    have lt: "length ?t < length t" using False by (cases t) auto
    have st': "\<forall>j \<le> length ?t. kheap_stable s1 (?p + of_nat j) \<and> \<not> in_region (n + 4) 4 (?p + of_nat j)"
      using less.prems(4) le st1 not_n unfolding path' by blast
    have "2 * length (path_parts ?t) + 2 \<le> kheap_pages s1" using less.prems(2) pages1 parts by simp
    from less.hyps [OF lt inv1 this at1 st' _ n(1) n1 node(2)] less.prems(5) lt
    obtain ns s' where rest: "parse_rest n ?p s1 = Some s'" and names: "map (snd \<circ> snd) ns = path_parts ?t"
      and added: "parts_added s1 n ns s'" by auto
    have keep2: "phys s' x = phys s1 x" if "kheap_stable s1 x" "\<not> in_region (n + 4) 4 x" for x
      using added that by (simp add: parts_added_def)
    have b_same: "phys s' x = phys s1 x" if "in_region b 4096 x" for x
    proof (rule keep2)
      show "kheap_stable s1 x" by (rule stable_live [OF inv1 b1 that])
      have "apart n 4096 b 4096" using kmalloc_heap.live_apart [OF inv1 n1 b1] n(2) by blast
      then show "\<not> in_region (n + 4) 4 x"
        using apart_not_in that node_words(2) [of n] by (auto simp: word_in_def)
    qed
    have "load32 (phys s') n = load32 (phys s1) n"
    proof (rule load32_cong)
      fix x assume x: "in_region n 4 x"
      then have "in_region n 4096 x" using node_words(1) by (simp add: word_in_def)
      moreover have "apart (n + 4) 4 n 4" using words_apart [of 1 0 n] by simp
      ultimately show "phys s' x = phys s1 x"
        using x stable_live [OF inv1 n1] apart_not_in by (intro keep2) blast+
    qed
    then have part': "path_part_part (phys s') n = b" using node(1) by (simp add: path_part_part_def)
    have "load32 (phys s') (prev + 4) = load32 (phys s1) (prev + 4)"
    proof (rule load32_word_in [OF node_words(2)])
      fix x assume x: "in_region prev 4096 x"
      have "kheap_stable s x" by (rule stable_live [OF less.prems(1,7) x])
      then show "phys s' x = phys s1 x" using keep2 st1 not_n by blast
    qed
    then have next': "path_part_next (phys s') prev = n" using prev by (simp add: path_part_next_def)
    have str': "cstr_at (phys s') b ?w" using str cstr_at_page [OF lw, of b "phys s'" "phys s1"] b_same by simp
    have nodes: "nodes_at (phys s') (path_part_next (phys s') prev) ((n, b, ?w) # ns)"
      using added n part' next' str' lw by (simp add: parts_added_def)
    have keep: "phys s' x = phys s x" if "kheap_stable s x" "\<not> in_region (prev + 4) 4 x" for x
      using keep2 [OF st1 not_n] keep1 that by simp
    have "parts_added s prev ((n, b, ?w) # ns) s'"
      using added nodes keep live1 nf bf n(2) pages1 unfolding parts_added_def by auto
    moreover have "parse_rest prev p s = Some s'"
      using g False rest n(1) by (simp add: parse_rest_def [of prev] parse_loop_unfold)
    ultimately show ?thesis
      using names parts by (intro exI [of _ "(n, b, ?w) # ns"] exI [of _ s']) simp
  qed
qed

section \<open>The whole path\<close>

text \<open>\<open>path_root->first\<close> and \<open>part->next\<close> are both the second word of their struct: storing the
  first part in the root is what the parser does for a part after a previous one.\<close>

lemma parse_first:
  assumes "r \<noteq> 0"
    and alloc: "\<And>b p1 s1. pathparser_get_path_part p s = Some (b, p1, s1) \<Longrightarrow> b \<noteq> 0 \<Longrightarrow>
      fst (kzalloc 8 s1) \<noteq> 0"
  shows "do {
      (first_part, tmp_path1, s2) \<leftarrow> pathparser_parse_path_part 0 p s;
      if first_part = 0 then Some (r, s2)
      else do {
        let s3 = s2\<lparr>phys := store32 (phys s2) (r + 4) first_part\<rparr>;
        (part, tmp_path2, s4) \<leftarrow> pathparser_parse_path_part first_part tmp_path1 s3;
        s5 \<leftarrow> parse_loop part tmp_path2 s4;
        Some (r, s5)
      }
    } = do { s' \<leftarrow> parse_rest r p s; Some (r, s') }"
proof (cases "pathparser_get_path_part p s")
  case (Some g)
  obtain b p1 s1 where g: "g = (b, p1, s1)" by (cases g) blast
  obtain n s2 where k: "kzalloc 8 s1 = (n, s2)" by (cases "kzalloc 8 s1") blast
  show ?thesis
  proof (cases "b = 0")
    case False
    have "n \<noteq> 0" using alloc [of b p1 s1] False by (simp add: Some g k)
    then show ?thesis
      using assms(1) False
      by (simp add: parse_rest_def [of r] parse_loop_unfold pathparser_parse_path_part_def [of 0]
          pathparser_parse_path_part_def [of r] Some g k parse_rest_def [of n] case_prod_beta
          split: option.splits bind_splits)
  qed (simp add: assms(1) parse_rest_def parse_loop_unfold pathparser_parse_path_part_def Some g)
qed (simp add: parse_rest_def pathparser_parse_path_part_def)

lemma path_valid_format:
  assumes "cstr_at m p t" and "length t \<le> 108"
  shows "pathparser_path_valid_format p m \<longleftrightarrow> path_valid t"
proof -
  have len: "strnlen m p max_path = of_nat (length t)"
    using strnlen_cstr [OF assms(1), of max_path] assms(2) by (simp add: max_path_def word_sle_eq min_def)
  have three: "3 \<le>s (of_nat (length t) :: i32) \<longleftrightarrow> 3 \<le> length t"
    using assms(2) by (simp add: word_sle_eq sint_of_nat_u32)
  have at: "m p = t ! 0" "m (p + 1) = t ! 1" "m (p + 2) = t ! 2" if "3 \<le> length t"
  proof -
    have "m (p + of_nat i) = t ! i" if "i < 3" for i
      using assms(1) that \<open>3 \<le> length t\<close> by (simp add: cstr_at_iff)
    from this [of 0] this [of 1] this [of 2]
    show "m p = t ! 0" "m (p + 1) = t ! 1" "m (p + 2) = t ! 2" by simp_all
  qed
  show ?thesis
    unfolding pathparser_path_valid_format_def Let_def len three path_valid_def
    using at assms(2) by auto
qed

lemma digit_value:
  assumes "isdigit c"
  shows "tonumericdigit c = of_nat (unat c - 48)" and "\<not> tonumericdigit c <s 0"
proof -
  obtain d :: nat where d: "d < 10" "c = 48 + of_nat d" using assms isdigit_iff by blast
  have "unat c = 48 + d" using d by (simp add: unat_word_ariths unat_of_nat take_bit_nat_eq_self)
  with d tonumericdigit_digit [OF d(1)] show "tonumericdigit c = of_nat (unat c - 48)" by simp
  show "\<not> tonumericdigit c <s 0"
    using d tonumericdigit_digit [OF d(1)] by (simp add: word_sless_alt sint_of_nat_u32)
qed

text \<open>A path that is too long or has no drive prefix.\<close>

lemma parse_invalid:
  assumes "cstr_at (phys s) p t" and "length t < 2 ^ 31" and "\<not> path_valid t"
  shows "pathparser_parse p cdp s = Some (0, s)"
proof -
  have len: "strlen (phys s) p = Some (of_nat (length t))" by (rule strlen_cstr [OF assms(1)])
  have long: "max_path <s (of_nat (length t) :: i32) \<longleftrightarrow> 108 < length t"
    using assms(2) by (simp add: word_sless_alt sint_of_nat_u32 max_path_def)
  have neg: "- ebadpath <s 0" by (simp add: ebadpath_def word_sless_alt)
  show ?thesis
  proof (cases "108 < length t")
    case False
    then have "\<not> pathparser_path_valid_format p (phys s)"
      using path_valid_format [OF assms(1)] assms(3) by simp
    then show ?thesis
      using False by (simp add: pathparser_parse_def len long pathparser_get_drive_by_path_def neg)
  qed (simp add: pathparser_parse_def len long)
qed

text \<open>What a successful parse leaves behind.\<close>

definition path_parsed :: "'a kheap_scheme \<Rightarrow> ptr \<Rightarrow> node list \<Rightarrow> 'a kheap_scheme \<Rightarrow> bool" where
  "path_parsed s root ns s' \<longleftrightarrow> kheap_inv s' \<and> root \<noteq> 0 \<and> root \<notin> set (node_blocks ns) \<and>
     (\<forall>l. (root, l) \<notin> kheap_live s) \<and> nodes_at (phys s') (path_root_first (phys s') root) ns \<and>
     kheap_live s' = (\<lambda>q. (q, 4096)) ` insert root (set (node_blocks ns)) \<union> kheap_live s \<and>
     distinct (node_blocks ns) \<and> (\<forall>q \<in> set (node_blocks ns). \<forall>l. (q, l) \<notin> kheap_live s) \<and>
     Suc (kheap_pages s' + 2 * length ns) = kheap_pages s \<and>
     (\<forall>x. kheap_stable s x \<longrightarrow> phys s' x = phys s x)"

lemma parse_valid:
  assumes inv: "kheap_inv s" and path: "cstr_at (phys s) p t" and valid: "path_valid t"
    and stable: "\<forall>j \<le> length t. kheap_stable s (p + of_nat j)"
    and pages: "2 * length (path_parts (drop 3 t)) + 3 \<le> kheap_pages s"
  shows "\<exists>root ns s'. pathparser_parse p cdp s = Some (root, s') \<and> path_parsed s root ns s' \<and>
    path_root_drive_no (phys s') root = of_nat (unat (t ! 0) - 48) \<and>
    map (snd \<circ> snd) ns = path_parts (drop 3 t)"
proof -
  have len: "3 \<le> length t" "length t \<le> 108" and dig: "isdigit (t ! 0)"
    using valid by (simp_all add: path_valid_def)
  have p0: "phys s p = t ! 0" using path len unfolding cstr_at_iff by (auto dest: spec [of _ 0])
  have sl: "strlen (phys s) p = Some (of_nat (length t))" by (rule strlen_cstr [OF path])
  have short: "\<not> max_path <s (of_nat (length t) :: i32)"
    using len by (simp add: word_sless_alt sint_of_nat_u32 max_path_def)
  have drive: "pathparser_get_drive_by_path p (phys s) = (tonumericdigit (t ! 0), p + 3)"
    using path_valid_format [OF path len(2)] valid p0 by (simp add: pathparser_get_drive_by_path_def)
  obtain r s1 where alloc: "kzalloc 8 s = (r, s1)" by (cases "kzalloc 8 s") blast
  have n8: "(0 :: u32) < 8" "(8 :: u32) \<le> 4096" and pos: "0 < kheap_pages s" using pages by simp_all
  note new = kzalloc_page_facts [OF inv pos n8 alloc]
  define m where "m = store32 (store32 (phys s1) r (tonumericdigit (t ! 0))) (r + 4) 0"
  let ?s1 = "s1\<lparr>phys := m\<rparr>"
  have m_out: "m x = phys s1 x" if "\<not> in_region r 4096 x" for x
  proof -
    have "\<not> in_region r 4 x" "\<not> in_region (r + 4) 4 x"
      using that node_words [of r] unfolding word_in_def by blast+
    then show ?thesis by (simp add: m_def store32_other)
  qed
  have r1: "(r, 4096) \<in> kheap_live s1" using new(2) by simp
  note w = kheap_write_live [OF new(1) r1 m_out]
  have live1: "kheap_live ?s1 = insert (r, 4096) (kheap_live s)" and pages1: "Suc (kheap_pages ?s1) = kheap_pages s"
    using w(2) new(2,3) by (simp_all add: kheap_live_def kheap_pages_def)
  have root: "pathparser_create_root (tonumericdigit (t ! 0)) s = (r, ?s1)"
    by (simp add: pathparser_create_root_def alloc m_def)
  have keep1: "m x = phys s x" if "kheap_stable s x" for x
    using m_out new(6,8) that by simp
  have "cstr_at m p t = cstr_at (phys s) p t" using keep1 stable by (intro cstr_at_cong) simp
  then have "cstr_at m (p + of_nat 3) (drop 3 t)" using path len by (intro cstr_at_drop) simp_all
  then have at1: "cstr_at (phys ?s1) (p + 3) (drop 3 t)" by simp
  have not_r: "\<not> in_region (r + 4) 4 x" if "kheap_stable s x" for x
    using new(8) [OF that] node_words(2) [of r] unfolding word_in_def by blast
  have st1: "kheap_stable ?s1 x" if "kheap_stable s x" for x
    using stable_mono [OF _ that] live1 by blast
  have st: "\<forall>j \<le> length (drop 3 t). kheap_stable ?s1 (p + 3 + of_nat j) \<and> \<not> in_region (r + 4) 4 (p + 3 + of_nat j)"
  proof (intro allI impI)
    fix j assume "j \<le> length (drop 3 t)"
    then have "3 + j \<le> length t" using len by simp
    with stable have "kheap_stable s (p + of_nat (3 + j))" by blast
    then have "kheap_stable s (p + 3 + of_nat j)" by (simp add: add.assoc)
    with st1 not_r show "kheap_stable ?s1 (p + 3 + of_nat j) \<and> \<not> in_region (r + 4) 4 (p + 3 + of_nat j)"
      by blast
  qed
  have rl: "(r, 4096) \<in> kheap_live ?s1" using live1 by simp
  have "apart (r + 4) 4 r 4" using words_apart [of 1 0 r] by simp
  then have rnext: "path_part_next (phys ?s1) r = 0" and rdrive: "load32 (phys ?s1) r = tonumericdigit (t ! 0)"
    by (simp_all add: path_part_next_def m_def load32_store32_apart)
  have pg: "2 * length (path_parts (drop 3 t)) + 2 \<le> kheap_pages ?s1" using pages pages1 by simp
  have l3: "length (drop 3 t) < 108" using len by simp
  from parse_rest_ok [OF w(1) pg at1 st l3 new(5) rl rnext]
  obtain ns s' where rest: "parse_rest r (p + 3) ?s1 = Some s'"
    and names: "map (snd \<circ> snd) ns = path_parts (drop 3 t)" and added: "parts_added ?s1 r ns s'"
    by blast
  have nz: "fst (kzalloc 8 u) \<noteq> 0"
    if g: "pathparser_get_path_part (p + 3) ?s1 = Some (b, p1, u)" and b: "b \<noteq> 0" for b p1 u
  proof -
    have lw: "length (upto_slash (drop 3 t)) < 108" using l3 length_takeWhile_le le_less_trans by blast
    have pos1: "0 < kheap_pages ?s1" using pg by simp
    from get_path_part [OF w(1) pos1 at1 _ lw] st g b
    have "kheap_inv u" "kheap_pages ?s1 \<le> Suc (kheap_pages u)" by (auto split: if_splits)
    then have "0 < kheap_pages u" using pg by simp
    from kzalloc_page_facts(5) [OF \<open>kheap_inv u\<close> this n8] show ?thesis
      by (cases "kzalloc 8 u") simp
  qed
  have parse: "pathparser_parse p cdp s = Some (r, s')"
    using parse_first [OF new(5) nz] rest new(5)
    by (simp add: pathparser_parse_def sl short drive digit_value(2) [OF dig] root cong: if_cong)
  have keep: "phys s' x = phys s x" if "kheap_stable s x" for x
    using added st1 [OF that] not_r [OF that] keep1 [OF that] by (simp add: parts_added_def)
  have fresh: "q \<noteq> r \<and> (\<forall>l. (q, l) \<notin> kheap_live s)" if "q \<in> set (node_blocks ns)" for q
    using added that live1 by (auto simp: parts_added_def)
  have "load32 (phys s') r = load32 (phys ?s1) r"
  proof (rule load32_cong)
    fix x assume x: "in_region r 4 x"
    then have "in_region r 4096 x" using node_words(1) unfolding word_in_def by blast
    then have "kheap_stable ?s1 x" using stable_live [OF w(1) rl, of x] by blast
    moreover have "\<not> in_region (r + 4) 4 x" using \<open>apart (r + 4) 4 r 4\<close> apart_not_in x by blast
    ultimately show "phys s' x = phys ?s1 x" using added by (simp add: parts_added_def)
  qed
  then have d: "path_root_drive_no (phys s') r = of_nat (unat (t ! 0) - 48)"
    using rdrive digit_value(1) [OF dig] by (simp add: path_root_drive_no_def)
  have "path_parsed s r ns s'"
    using added new(4,5) fresh live1 pages1 keep
    unfolding path_parsed_def parts_added_def path_root_first_def path_part_next_def by auto
  with parse d names show ?thesis by blast
qed

section \<open>Releasing a path\<close>

lemma path_free_loop_ok:
  "\<lbrakk> kheap_inv s; nodes_at (phys s) p ns; kheap_live s = (\<lambda>q. (q, 4096)) ` set (node_blocks ns) \<union> L;
     distinct (node_blocks ns); \<forall>q \<in> set (node_blocks ns). \<forall>l. (q, l) \<notin> L \<rbrakk> \<Longrightarrow>
   \<exists>s'. path_free_loop p s = Some s' \<and> kheap_inv s' \<and> kheap_live s' = L \<and>
     (\<forall>x. kheap_stable s' x \<longrightarrow> phys s' x = phys s x)"
proof (induction ns arbitrary: p s)
  case Nil
  then show ?case by (simp add: path_free_loop.simps)
next
  case (Cons node ns)
  obtain n b w where node: "node = (n, b, w)" by (cases node)
  let ?S = "set (node_blocks ns)"
  have at: "p = n" "n \<noteq> 0" "path_part_part (phys s) n = b" "nodes_at (phys s) (path_part_next (phys s) n) ns"
    using Cons.prems(2) by (simp_all add: node)
  have dist: "n \<noteq> b" "n \<notin> ?S" "b \<notin> ?S" "distinct (node_blocks ns)"
    using Cons.prems(4) by (auto simp: node)
  have fresh: "\<And>l. (n, l) \<notin> L" "\<And>l. (b, l) \<notin> L" "\<forall>q \<in> ?S. \<forall>l. (q, l) \<notin> L"
    using Cons.prems(5) by (auto simp: node)
  have live: "kheap_live s = (\<lambda>q. (q, 4096)) ` insert b (insert n ?S) \<union> L"
    using Cons.prems(3) by (auto simp: node)
  have "b \<notin> insert n ?S" using dist by auto
  note k1 = free_live_page [OF Cons.prems(1) live this fresh(2)]
  note k2 = free_live_page [OF k1(1) k1(2) dist(2) fresh(1)]
  let ?s1 = "kfree b s" and ?s2 = "kfree n (kfree b s)"
  have keep: "phys ?s2 x = phys s x" if "kheap_stable ?s2 x" for x
  proof -
    have st1: "kheap_stable ?s1 x" using k1(2) k2(2) by (intro stable_mono [OF _ that]) auto
    then have "kheap_stable s x" using k1(2) live by (intro stable_mono [OF _ st1]) auto
    then show ?thesis
      using kfree_stable [OF Cons.prems(1), of b 4096 x] kfree_stable [OF k1(1), of n 4096 x] st1 live k1(2)
      by simp
  qed
  have "phys ?s2 x = phys s x" if "q \<in> ?S" "in_region q 4096 x" for q x
    using keep stable_live [OF k2(1) _ that(2)] that(1) k2(2) by blast
  then have "nodes_at (phys ?s2) (path_part_next (phys s) n) ns"
    using at(4) nodes_at_cong [of ns "phys ?s2" "phys s"] by blast
  from Cons.IH [OF k2(1) this k2(2) dist(4) fresh(3)] obtain s' where
    s': "path_free_loop (path_part_next (phys s) n) ?s2 = Some s'" "kheap_inv s'" "kheap_live s' = L"
    "\<And>x. kheap_stable s' x \<Longrightarrow> phys s' x = phys ?s2 x" by blast
  have "phys s' x = phys s x" if "kheap_stable s' x" for x
  proof -
    have "kheap_stable ?s2 x" using k2(2) s'(3) by (intro stable_mono [OF _ that]) auto
    then show ?thesis using keep s'(4) [OF that] by simp
  qed
  moreover have "path_free_loop p s = Some s'"
    using at s'(1) by (simp add: path_free_loop.simps [of n] Let_def)
  ultimately show ?case using s'(2,3) by blast
qed

lemma path_free_ok:
  assumes parsed: "path_parsed s0 root ns s"
  shows "\<exists>s'. pathparser_free root s = Some s' \<and> kheap_inv s' \<and> kheap_live s' = kheap_live s0 \<and>
    (\<forall>x. kheap_stable s0 x \<longrightarrow> phys s' x = phys s0 x)"
proof -
  let ?S = "set (node_blocks ns)"
  have inv: "kheap_inv s" and at: "nodes_at (phys s) (path_root_first (phys s) root) ns"
    and dist: "distinct (node_blocks ns)" and root: "root \<notin> ?S" "\<And>l. (root, l) \<notin> kheap_live s0"
    and keep: "\<And>x. kheap_stable s0 x \<Longrightarrow> phys s x = phys s0 x"
    using parsed by (simp_all add: path_parsed_def)
  have live: "kheap_live s = (\<lambda>q. (q, 4096)) ` ?S \<union> insert (root, 4096) (kheap_live s0)"
    and fresh: "\<forall>q \<in> ?S. \<forall>l. (q, l) \<notin> insert (root, 4096) (kheap_live s0)"
    using parsed root by (auto simp: path_parsed_def)
  from path_free_loop_ok [OF inv at live dist fresh] obtain s1 where
    s1: "path_free_loop (path_root_first (phys s) root) s = Some s1" "kheap_inv s1"
      "kheap_live s1 = insert (root, 4096) (kheap_live s0)"
      "\<And>x. kheap_stable s1 x \<Longrightarrow> phys s1 x = phys s x" by blast
  have l1: "kheap_live s1 = (\<lambda>q. (q, 4096)) ` insert root {} \<union> kheap_live s0" using s1(3) by simp
  note k = free_live_page [OF s1(2) l1 _ root(2), simplified]
  have "phys (kfree root s1) x = phys s0 x" if st: "kheap_stable s0 x" for x
  proof -
    have "kheap_stable s1 x" using s1(3) by (intro stable_mono [OF _ st]) auto
    with kfree_stable [OF s1(2), of root 4096 x] s1(3,4) keep [OF st] show ?thesis by simp
  qed
  with k(1,2) s1(1) show ?thesis by (simp add: pathparser_free_def)
qed

section \<open>Frame\<close>

text \<open>Parsing changes the memory only.\<close>

lemma kfree_more [simp]: "kheap.more (kfree p s) = kheap.more s"
  by (simp add: kfree_def)

lemma kzalloc_more_eq: "kzalloc n s = (p, s') \<Longrightarrow> kheap.more s' = kheap.more s"
  using kzalloc_more(1) [of n s] by simp

lemma get_path_part_more:
  "pathparser_get_path_part path s = Some (b, p', s') \<Longrightarrow> kheap.more s' = kheap.more s"
  using kzalloc_more_eq
  by (fastforce simp: pathparser_get_path_part_def Let_def bind_eq_Some_conv split: prod.splits if_splits)

lemma parse_path_part_more:
  "pathparser_parse_path_part q path s = Some (n, p', s') \<Longrightarrow> kheap.more s' = kheap.more s"
  using kzalloc_more_eq get_path_part_more
  by (fastforce simp: pathparser_parse_path_part_def Let_def bind_eq_Some_conv split: prod.splits if_splits)

lemma parse_loop_more:
  assumes "parse_loop part path s = Some s'"
  shows "kheap.more s' = kheap.more s"
  using assms
proof (induction part path s s' rule: parse_loop.raw_induct [rotated, consumes 1])
  case (1 loop part path s s')
  show ?case
  proof (cases "part = 0")
    case False
    then obtain n p1 s1 where "pathparser_parse_path_part part path s = Some (n, p1, s1)"
      and "loop n p1 s1 = Some s'"
      using 1(2) by (auto simp: bind_eq_Some_conv)
    then show ?thesis using 1(1) parse_path_part_more by metis
  qed (use 1(2) in simp)
qed

lemma create_root_more: "pathparser_create_root d s = (r, s') \<Longrightarrow> kheap.more s' = kheap.more s"
  using kzalloc_more_eq by (auto simp: pathparser_create_root_def Let_def split: prod.splits)

lemma pathparser_parse_more:
  assumes "pathparser_parse path cdp s = Some (root, s')"
  shows "kheap.more s' = kheap.more s"
proof -
  obtain d p0 where d: "pathparser_get_drive_by_path path (phys s) = (d, p0)" by fastforce
  obtain r s1 where r: "pathparser_create_root d s = (r, s1)" by fastforce
  have m1: "kheap.more s1 = kheap.more s" by (rule create_root_more [OF r])
  consider "s' = s" | "s' = s1"
    | n p1 s2 where "pathparser_parse_path_part 0 p0 s1 = Some (n, p1, s2)" "s' = s2"
    | n p1 s2 m k p2 s4 where "pathparser_parse_path_part 0 p0 s1 = Some (n, p1, s2)"
        "pathparser_parse_path_part n p1 (s2\<lparr>phys := m\<rparr>) = Some (k, p2, s4)" "parse_loop k p2 s4 = Some s'"
    using assms by (auto simp: pathparser_parse_def d r bind_eq_Some_conv split: if_splits)
  then show ?thesis
  proof cases
    case (4 n p1 s2 m k p2 s4)
    have "kheap.more s4 = kheap.more s2" using parse_path_part_more [OF 4(2)] by simp
    then show ?thesis using m1 parse_path_part_more [OF 4(1)] parse_loop_more [OF 4(3)] by simp
  next
    case 3
    then show ?thesis using m1 parse_path_part_more [OF 3(1)] by simp
  qed (use m1 in simp_all)
qed

section \<open>Properties\<close>

text \<open>The string \<open>0:/a/b\<close> at \<open>0x500\<close> after boot.\<close>

definition sample_path :: "u8 list" where
  "sample_path = [0x30, 0x3A, 0x2F, 0x61, 0x2F, 0x62]"

definition path_kernel :: kheap where
  "path_kernel = kheap_init (cold_kernel\<lparr>phys := put_bytes 0x500 sample_path (\<lambda>_. 0)\<rparr>)"

lemma path_kernel_facts:
  "kheap_inv path_kernel" "kheap_pages path_kernel = 25600" "cstr_at (phys path_kernel) 0x500 sample_path"
  "\<forall>j \<le> length sample_path. kheap_stable path_kernel (0x500 + of_nat j)"
  "path_parts (drop 3 sample_path) = [[0x61], [0x62]]" "path_valid sample_path"
proof -
  show "kheap_inv path_kernel" "kheap_pages path_kernel = 25600" by (simp_all add: path_kernel_def)
  have j: "j \<in> {0, 1, 2, 3, 4, 5, 6}" if "j \<le> length sample_path" for j
    using that by (auto simp: sample_path_def)
  have nt: "\<not> in_table boot_heap (0x500 + of_nat j) \<and> \<not> in_heap (0x500 + of_nat j)"
    if "j \<le> length sample_path" for j
    using j [OF that] by (auto simp: in_table_def in_heap_def in_region_def)
  then show "\<forall>j \<le> length sample_path. kheap_stable path_kernel (0x500 + of_nat j)"
    by (simp add: kheap_stable_def)
  let ?s = "cold_kernel\<lparr>phys := put_bytes 0x500 sample_path (\<lambda>_. 0)\<rparr>"
  have "cstr_at (phys path_kernel) 0x500 sample_path = cstr_at (phys ?s) 0x500 sample_path"
    using kheap_init_state [of ?s] nt unfolding path_kernel_def by (intro cstr_at_cong) simp
  also have "\<dots>" by (simp add: sample_path_def)
  finally show "cstr_at (phys path_kernel) 0x500 sample_path" by simp
  show "path_parts (drop 3 sample_path) = [[0x61], [0x62]]"
    by (simp add: sample_path_def path_parts.simps Let_def)
  show "path_valid sample_path" by (simp add: path_valid_def sample_path_def isdigit_def word_sle_eq)
qed

text \<open>C18. \<open>pathparser_parse\<close> of a string in stable memory, with enough free pages, always returns. A
  valid path gives a root with the drive number and a linked list of exactly the parts up to
  the first empty one; anything else gives NULL and changes nothing.\<close>

theorem pathparser_parse_correct:
  assumes "kheap_inv s" and "cstr_at (phys s) p t" and "length t < 2 ^ 31"
    and "\<forall>j \<le> length t. kheap_stable s (p + of_nat j)"
    and "2 * length (path_parts (drop 3 t)) + 3 \<le> kheap_pages s"
  shows "(\<not> path_valid t \<longrightarrow> pathparser_parse p cdp s = Some (0, s)) \<and>
    (path_valid t \<longrightarrow> (\<exists>root s'. pathparser_parse p cdp s = Some (root, s') \<and> root \<noteq> 0 \<and> kheap_inv s' \<and>
       path_root_drive_no (phys s') root = of_nat (unat (t ! 0) - 48) \<and>
       path_list (phys s') (path_root_first (phys s') root) (path_parts (drop 3 t)) \<and>
       (\<forall>x. kheap_stable s x \<longrightarrow> phys s' x = phys s x)))"
proof (intro conjI impI)
  show "pathparser_parse p cdp s = Some (0, s)" if "\<not> path_valid t"
    by (rule parse_invalid [OF assms(2,3) that])
  assume valid: "path_valid t"
  from parse_valid [OF assms(1,2) valid assms(4,5), of cdp] obtain root ns s' where
    s': "pathparser_parse p cdp s = Some (root, s')" "path_parsed s root ns s'"
      "path_root_drive_no (phys s') root = of_nat (unat (t ! 0) - 48)"
      "map (snd \<circ> snd) ns = path_parts (drop 3 t)" by blast
  have "nodes_at (phys s') (path_root_first (phys s') root) ns" using s'(2) by (simp add: path_parsed_def)
  from nodes_at_list [OF this] s' show "\<exists>root s'. pathparser_parse p cdp s = Some (root, s') \<and> root \<noteq> 0 \<and>
      kheap_inv s' \<and> path_root_drive_no (phys s') root = of_nat (unat (t ! 0) - 48) \<and>
      path_list (phys s') (path_root_first (phys s') root) (path_parts (drop 3 t)) \<and>
      (\<forall>x. kheap_stable s x \<longrightarrow> phys s' x = phys s x)"
    by (auto simp: path_parsed_def)
qed

theorem pathparser_parse_correct_witness:
  "\<exists>root s'. pathparser_parse 0x500 0 path_kernel = Some (root, s') \<and> root \<noteq> 0 \<and>
     path_list (phys s') (path_root_first (phys s') root) [[0x61], [0x62]]"
proof -
  note k = path_kernel_facts
  have "length sample_path < 2 ^ 31" by (simp add: sample_path_def)
  moreover have "2 * length (path_parts (drop 3 sample_path)) + 3 \<le> kheap_pages path_kernel"
    by (simp add: k(2,5))
  ultimately show ?thesis
    using pathparser_parse_correct [OF k(1,3) _ k(4), of 0] k(5,6) by auto
qed

text \<open>C19. \<open>pathparser_free\<close> of a parsed path returns and releases every block the parse
  allocated, nodes and strings: the live blocks are the ones before the parse, with their
  contents.\<close>

theorem pathparser_free_roundtrip:
  assumes "kheap_inv s" and "cstr_at (phys s) p t" and "path_valid t"
    and "\<forall>j \<le> length t. kheap_stable s (p + of_nat j)"
    and "2 * length (path_parts (drop 3 t)) + 3 \<le> kheap_pages s"
    and "pathparser_parse p cdp s = Some (root, s')"
  shows "\<exists>s''. pathparser_free root s' = Some s'' \<and> kheap_inv s'' \<and> kheap_live s'' = kheap_live s \<and>
    (\<forall>x. kheap_stable s x \<longrightarrow> phys s'' x = phys s x)"
proof -
  from parse_valid [OF assms(1-5), of cdp] assms(6) obtain ns where "path_parsed s root ns s'" by auto
  then show ?thesis by (rule path_free_ok)
qed

theorem pathparser_free_roundtrip_witness:
  "\<exists>root s' s''. pathparser_parse 0x500 0 path_kernel = Some (root, s') \<and>
     pathparser_free root s' = Some s'' \<and> kheap_live s'' = {}"
proof -
  note k = path_kernel_facts
  have pg: "2 * length (path_parts (drop 3 sample_path)) + 3 \<le> kheap_pages path_kernel"
    by (simp add: k(2,5))
  from parse_valid [OF k(1,3,6,4) pg, of 0] obtain root s' where
    p: "pathparser_parse 0x500 0 path_kernel = Some (root, s')" by blast
  have "kheap_live path_kernel = {}" by (simp add: path_kernel_def)
  with pathparser_free_roundtrip [OF k(1,3,6,4) pg p] p show ?thesis by auto
qed

end
