(* ===== verification/HeapSpace.thy ===== *)
theory HeapSpace
  imports KHeap
begin

text \<open>
  The free blocks of the kernel heap as a set of numbers that the live blocks determine: how many there
  are, when a request fits, and which runs survive a few allocations.
\<close>

section \<open>Free blocks\<close>

definition free_blocks :: "'a kheap_scheme \<Rightarrow> nat set" where
  "free_blocks s = {i. i < 25600 \<and> (\<forall>(a, k) \<in> kheap_live s. \<not> in_region a k (block_addr boot_heap i))}"

text \<open>\<open>n\<close> free blocks in a row.\<close>

definition free_run :: "nat \<Rightarrow> 'a kheap_scheme \<Rightarrow> bool" where
  "free_run n s \<longleftrightarrow> (\<exists>p. {p..<p + n} \<subseteq> free_blocks s)"

lemma block_in_block:
  assumes "p + n \<le> 25600" and "i < 25600"
  shows "in_region (block_addr boot_heap p) (of_nat (4096 * n)) (block_addr boot_heap i) \<longleftrightarrow> p \<le> i \<and> i < p + n"
proof -
  have d: "block_addr boot_heap i - block_addr boot_heap p = of_nat (4096 * i) - of_nat (4096 * p)"
    by (simp add: block_addr_boot)
  have u: "unat (of_nat (4096 * j) :: u32) = 4096 * j" if "j \<le> 25600" for j
    using that by (intro unat_of_nat_u32) simp
  show ?thesis
    using assms u [of n] u [of i] u [of p]
    by (auto simp: in_region_def d word_less_nat_alt unat_sub_if' simp del: of_nat_mult)
qed

lemma allocs_free:
  "i < size_of cs \<Longrightarrow> is_free (encode cs ! i) \<longleftrightarrow> (\<forall>(p, n) \<in> set (allocs b cs). \<not> (p \<le> b + i \<and> b + i < p + n))"
proof (induction b cs arbitrary: i rule: allocs.induct)
  case (2 b cs)
  show ?case
  proof (cases i)
    case 0
    then show ?thesis using allocs_range [of _ _ "Suc b" cs] by fastforce
  qed (use 2 in \<open>auto simp: is_free_def\<close>)
next
  case (3 b k cs)
  show ?case
  proof (cases "i < Suc k")
    case True
    have "map is_free (taken_run (Suc k)) ! i = is_free (taken_run (Suc k) ! i)" by (rule nth_map) (use True in simp)
    then have "\<not> is_free (taken_run (Suc k) ! i)" using True unfolding is_free_taken_run by (simp del: replicate_Suc)
    then show ?thesis using True by (simp add: nth_append)
  next
    case False
    then have "is_free (encode (Used k # cs) ! i) \<longleftrightarrow> is_free (encode cs ! (i - Suc k))" by (simp add: nth_append)
    then show ?thesis using False "3.IH" [of "i - Suc k"] "3.prems" by auto
  qed
qed simp

lemma free_blocks_iff:
  assumes "kheap_inv s"
  shows "i \<in> free_blocks s \<longleftrightarrow> i < 25600 \<and> is_free (encode (kchunks s) ! i)"
proof (cases "i < 25600")
  case True
  note size = kheap_inv_size [OF assms]
  have "in_region (block_addr boot_heap p) (of_nat (4096 * n)) (block_addr boot_heap i) \<longleftrightarrow> p \<le> i \<and> i < p + n"
    if "(p, n) \<in> set (allocs 0 (kchunks s))" for p n
    using block_in_block [OF _ True, of p n] allocs_range [OF that] size by simp
  then have "(\<forall>(a, k) \<in> kheap_live s. \<not> in_region a k (block_addr boot_heap i)) \<longleftrightarrow>
      (\<forall>(p, n) \<in> set (allocs 0 (kchunks s)). \<not> (p \<le> i \<and> i < p + n))"
    by (force simp: kheap_live_def live_of_def)
  then show ?thesis using allocs_free [of i "kchunks s" 0] True size by (simp add: free_blocks_def)
qed (simp add: free_blocks_def)

lemma free_blocks_finite [simp]: "finite (free_blocks s)"
  by (rule finite_subset [of _ "{..<25600}"]) (auto simp: free_blocks_def)

lemma free_blocks_mono: "kheap_live s \<subseteq> kheap_live s' \<Longrightarrow> free_blocks s' \<subseteq> free_blocks s"
  by (auto simp: free_blocks_def)

lemma kheap_pages_card:
  assumes "kheap_inv s"
  shows "kheap_pages s = card (free_blocks s)"
proof -
  have "filter is_free (taken_run n) = []" for n
  proof -
    have "\<not> is_free x" if "x \<in> set (taken_run n)" for x
      using is_free_taken_run [of n] that by (metis in_set_replicate list.set_map imageI)
    then show ?thesis by simp
  qed
  then have "length (filter is_free (encode cs)) = count_list cs Free" for cs
    by (induction cs) (simp_all split: chunk.split, metis chunk.exhaust chunk_entries.simps)
  then have "kheap_pages s = card {i. i < length (encode (kchunks s)) \<and> is_free (encode (kchunks s) ! i)}"
    by (simp only: kheap_pages_def flip: length_filter_conv_card)
  also have "{i. i < length (encode (kchunks s)) \<and> is_free (encode (kchunks s) ! i)} = free_blocks s"
    using free_blocks_iff [OF assms] kheap_inv_size [OF assms] by auto
  finally show ?thesis .
qed

lemma kheap_pages_mono:
  "kheap_inv s \<Longrightarrow> kheap_inv s' \<Longrightarrow> kheap_live s \<subseteq> kheap_live s' \<Longrightarrow> kheap_pages s' \<le> kheap_pages s"
  by (simp add: kheap_pages_card card_mono free_blocks_mono)

text \<open>A request of that many blocks is served.\<close>

lemma free_run_room:
  assumes inv: "kheap_inv s" and n: "0 < n" "unat n \<le> 4294963200" and run: "free_run (blocks_for n) s"
  shows "kheap_room n s"
proof -
  let ?k = "blocks_for n" and ?fs = "map is_free (encode (kchunks s))"
  have k: "0 < ?k" by (rule blocks_for_pos [OF n(1)])
  obtain p where p: "{p..<p + ?k} \<subseteq> free_blocks s" using run by (auto simp: free_run_def)
  then have "p + ?k - 1 \<in> free_blocks s" using k by auto
  then have "p + ?k - 1 < 25600" by (simp add: free_blocks_def)
  then have fit: "p + ?k \<le> length ?fs" using kheap_inv_size [OF inv] k by simp
  have "take ?k (drop p ?fs) = replicate ?k True"
  proof (rule nth_equalityI)
    fix i assume "i < length (take ?k (drop p ?fs))"
    then have "p + i \<in> free_blocks s" "i < ?k" using p by auto
    then show "take ?k (drop p ?fs) ! i = replicate ?k True ! i" using fit free_blocks_iff [OF inv] by simp
  qed (use fit in simp)
  then have "run_at ?k (drop p ?fs)" using fit by (simp add: run_at_def)
  then have "first_fit ?k ?fs \<noteq> None" using first_fit_None_iff by blast
  then show ?thesis using first_fit_encode [OF k, of "kchunks s"] n by (auto simp: kheap_room_def)
qed

text \<open>After at most \<open>K\<close> blocks are taken, one of \<open>K + 1\<close> runs is still free.\<close>

lemma free_run_survives:
  assumes inv: "kheap_inv s" "kheap_inv s'" and live: "kheap_live s \<subseteq> kheap_live s'"
    and few: "kheap_pages s \<le> kheap_pages s' + K" and run: "free_run ((K + 1) * n) s"
  shows "free_run n s'"
proof (rule ccontr)
  assume none: "\<not> free_run n s'"
  obtain p where p: "{p..<p + (K + 1) * n} \<subseteq> free_blocks s" using run by (auto simp: free_run_def)
  let ?T = "free_blocks s - free_blocks s'"
  have "\<exists>x. x \<in> {p + j * n..<p + j * n + n} \<and> x \<in> ?T" if "j < K + 1" for j
  proof -
    have "j * n + n \<le> (K + 1) * n" using mult_le_mono1 [of "Suc j" "K + 1" n] that by simp
    then have "{p + j * n..<p + j * n + n} \<subseteq> {p..<p + (K + 1) * n}" by auto
    then have "{p + j * n..<p + j * n + n} \<subseteq> free_blocks s" using p by blast
    moreover have "\<not> {p + j * n..<p + j * n + n} \<subseteq> free_blocks s'" using none unfolding free_run_def by blast
    ultimately show ?thesis by blast
  qed
  then obtain g where g: "\<And>j. j < K + 1 \<Longrightarrow> g j \<in> {p + j * n..<p + j * n + n} \<and> g j \<in> ?T" by metis
  have "inj_on g {..<K + 1}"
  proof (rule inj_onI)
    fix i j assume ij: "i \<in> {..<K + 1}" "j \<in> {..<K + 1}" "g i = g j"
    have "\<not> i < j" "\<not> j < i"
      using g [of i] g [of j] ij mult_le_mono1 [of "Suc i" j n] mult_le_mono1 [of "Suc j" i n] by auto
    then show "i = j" by simp
  qed
  then have "card (g ` {..<K + 1}) = K + 1" by (simp add: card_image)
  moreover have "card (g ` {..<K + 1}) \<le> card ?T" by (rule card_mono) (use g in auto)
  moreover have "card ?T = card (free_blocks s) - card (free_blocks s')"
    by (rule card_Diff_subset) (use free_blocks_mono [OF live] in simp_all)
  ultimately show False using few kheap_pages_card [OF inv(1)] kheap_pages_card [OF inv(2)] by simp
qed

section \<open>Allocation\<close>

lemma kzalloc_count:
  assumes "kheap_inv s" and "kheap_room n s"
  shows "kheap_pages (snd (kzalloc n s)) + blocks_for n = kheap_pages s"
proof -
  obtain p ds where alloc: "spec_alloc (blocks_for n) (kchunks s) = Some (p, ds)" "kchunks (snd (kmalloc n s)) = ds"
    by (rule kmalloc_served [OF assms]) blast
  then have "kchunks (snd (kzalloc n s)) = ds" using kzalloc_state(3) [OF assms] by simp
  moreover have "count_list (replicate j Free) Free = j" for j by (induction j) simp_all
  ultimately show ?thesis using spec_alloc_split [OF alloc(1)] by (auto simp: kheap_pages_def)
qed

lemma free_run_init: "free_run 25600 (kheap_init s)"
proof -
  have "kheap_live (kheap_init s) = {}" using kheap_init_state [of s] by blast
  then show ?thesis unfolding free_run_def free_blocks_def by (intro exI [of _ 0]) auto
qed

lemma free_run_less:
  assumes "free_run n s" and "k \<le> n"
  shows "free_run k s"
proof -
  obtain p where "{p..<p + n} \<subseteq> free_blocks s" using assms(1) by (auto simp: free_run_def)
  moreover have "{p..<p + k} \<subseteq> {p..<p + n}" using assms(2) by auto
  ultimately show ?thesis unfolding free_run_def by blast
qed

lemma free_run_cong: "kheap_live s' = kheap_live s \<Longrightarrow> free_run n s' = free_run n s"
  by (simp add: free_run_def free_blocks_def)

lemma free_run_pages:
  assumes "kheap_inv s" and "free_run n s"
  shows "n \<le> kheap_pages s"
proof -
  obtain p where "{p..<p + n} \<subseteq> free_blocks s" using assms(2) by (auto simp: free_run_def)
  from card_mono [OF free_blocks_finite this] show ?thesis by (simp add: kheap_pages_card [OF assms(1)])
qed

text \<open>A page comes from the first free block.\<close>

lemma first_page:
  assumes inv: "kheap_inv s" and pos: "0 < kheap_pages s" and n: "0 < n" "n \<le> 4096" and alloc: "kzalloc n s = (a, s')"
  obtains p where "a = block_addr boot_heap p" and "p < 25600" and "\<forall>i \<in> free_blocks s. p \<le> i" and "free_blocks s' = free_blocks s - {p}"
proof -
  note room = kheap_page_room [OF pos n]
  have one: "blocks_for n = 1" using blocks_for_page n by simp
  obtain p ds where p: "spec_alloc (blocks_for n) (kchunks s) = Some (p, ds)" "fst (kmalloc n s) = block_addr boot_heap p"
    by (rule kmalloc_served [OF inv room]) blast
  have a: "a = block_addr boot_heap p" using kzalloc_state(1) [OF inv room] p(2) alloc by simp
  have fit: "first_fit 1 (map is_free (encode (kchunks s))) = Some p" using first_fit_encode [of 1 "kchunks s"] p(1) one by simp
  have p25: "p < 25600" using first_fit_le [OF fit] kheap_inv_size [OF inv] by simp
  have min: "p \<le> i" if "i \<in> free_blocks s" for i
  proof (rule ccontr)
    assume "\<not> p \<le> i"
    then have "\<not> run_at 1 (drop i (map is_free (encode (kchunks s))))" using first_fit_Some_iff [OF fit] by simp
    moreover have "i < length (map is_free (encode (kchunks s)))" "is_free (encode (kchunks s) ! i)"
      using that free_blocks_iff [OF inv] kheap_inv_size [OF inv] by simp_all
    then have "run_at 1 (drop i (map is_free (encode (kchunks s))))"
      by (simp add: run_at_def take_Suc_conv_app_nth hd_drop_conv_nth take_Suc)
    ultimately show False by simp
  qed
  have live: "kheap_live s' = insert (a, 4096) (kheap_live s)" by (rule kzalloc_page_facts(2) [OF inv pos n alloc])
  have "in_region a 4096 (block_addr boot_heap i) \<longleftrightarrow> i = p" if "i < 25600" for i
    using block_in_block [of p 1 i] that p25 a by auto
  then have "free_blocks s' = free_blocks s - {p}" unfolding free_blocks_def live by auto
  then show thesis using a p25 min by (intro that) auto
qed

lemma free_run_page:
  assumes "kheap_inv s" and "0 < kheap_pages s" and "0 < n" and "n \<le> 4096" and "kzalloc n s = (a, s')" and "free_run (Suc r) s"
  shows "free_run r s'"
proof -
  obtain p where p: "\<forall>i \<in> free_blocks s. p \<le> i" "free_blocks s' = free_blocks s - {p}"
    by (rule first_page [OF assms(1-5)]) blast
  obtain q where q: "{q..<q + Suc r} \<subseteq> free_blocks s" using assms(6) by (auto simp: free_run_def)
  then have "q \<in> free_blocks s" by auto
  then have "p \<le> q" using p(1) by blast
  then have "{Suc q..<Suc q + r} \<subseteq> free_blocks s'" using q p(2) by auto
  then show ?thesis unfolding free_run_def by blast
qed

end
