(* ===== verification/Paging.thy ===== *)
theory Paging
  imports HeapSpace
begin

text \<open>
  \<open>src/memory/paging/paging.c\<close> and \<open>paging.asm\<close>: two-level page tables. Directories and
  tables are tables of 32-bit words in physical memory, allocated by \<open>kzalloc\<close>; a
  \<open>struct paging_4gb_chunk *\<close> is the address of the word that holds the directory's address.
  The kernel runs on the identity map, so its own loads and stores are physical.

  The locale \<open>page_map\<close> is the contract of the two accessors; it is interpreted on
  \<open>paging_set\<close> and \<open>paging_get\<close>, and the lemmas about mapping a range of pages are proved
  in it.
\<close>

record paging = kheap +
  current_directory :: ptr
  cr0 :: u32
  cr3 :: u32

definition paging_is_writeable :: u32 where "paging_is_writeable = 0x02"
definition paging_total_entries_per_table :: u32 where "paging_total_entries_per_table = 1024"
definition paging_page_size :: u32 where "paging_page_size = 4096"

lemmas paging_consts = paging_is_writeable_def paging_total_entries_per_table_def
  paging_page_size_def

section \<open>Operations\<close>

text \<open>The inner loop of \<open>paging_new_4gb\<close> fills one table, the outer loop allocates the
  tables; \<open>offset\<close> is an \<open>int\<close> that wraps around in the second half of the address space. The
  results of \<open>kzalloc\<close> are not tested.\<close>

definition fill_table :: "ptr \<Rightarrow> i32 \<Rightarrow> u8 \<Rightarrow> mem \<Rightarrow> mem" where
  "fill_table entry offset flags =
     fill_words entry (\<lambda>b. (offset + of_nat b * paging_page_size) OR ucast flags)
       (unat paging_total_entries_per_table)"

definition new_table :: "ptr \<Rightarrow> u8 \<Rightarrow> nat \<Rightarrow> i32 \<times> 'a kheap_scheme \<Rightarrow> i32 \<times> 'a kheap_scheme" where
  "new_table directory flags i = (\<lambda>(offset, s).
     let (entry, s1) = kzalloc (4 * paging_total_entries_per_table) s;
         m = fill_table entry offset flags (phys s1)
     in (offset + paging_total_entries_per_table * paging_page_size,
         s1\<lparr>phys := store32 m (directory + 4 * of_nat i)
              (entry OR ucast flags OR paging_is_writeable)\<rparr>))"

definition paging_new_4gb :: "u8 \<Rightarrow> 'a kheap_scheme \<Rightarrow> ptr \<times> 'a kheap_scheme" where
  "paging_new_4gb flags s =
     (let (directory, s1) = kzalloc (4 * paging_total_entries_per_table) s;
          (_, s2) = fold (new_table directory flags) [0..<unat paging_total_entries_per_table] (0, s1);
          (chunk_4gb, s3) = kzalloc 4 s2
      in (chunk_4gb, s3\<lparr>phys := store32 (phys s3) chunk_4gb directory\<rparr>))"

definition paging_4gb_chunk_get_directory :: "ptr \<Rightarrow> mem \<Rightarrow> ptr" where
  "paging_4gb_chunk_get_directory chunk m = load32 m chunk"

definition paging_load_directory :: "ptr \<Rightarrow> 'a paging_scheme \<Rightarrow> 'a paging_scheme" where
  "paging_load_directory directory s = s\<lparr>cr3 := directory\<rparr>"

definition enable_paging :: "'a paging_scheme \<Rightarrow> 'a paging_scheme" where
  "enable_paging s = s\<lparr>cr0 := cr0 s OR 0x80000000\<rparr>"

definition paging_switch :: "ptr \<Rightarrow> 'a paging_scheme \<Rightarrow> 'a paging_scheme" where
  "paging_switch chunk s =
     (let directory = load32 (phys s) chunk
      in (paging_load_directory directory s)\<lparr>current_directory := directory\<rparr>)"

definition free_table :: "ptr \<Rightarrow> nat \<Rightarrow> 'a kheap_scheme \<Rightarrow> 'a kheap_scheme" where
  "free_table chunk i s =
     (let entry = load32 (phys s) (load32 (phys s) chunk + 4 * of_nat i)
      in kfree (entry AND 0xFFFFF000) s)"

definition paging_free_4gb :: "ptr \<Rightarrow> 'a kheap_scheme \<Rightarrow> 'a kheap_scheme" where
  "paging_free_4gb chunk s =
     (let s1 = fold (free_table chunk) [0..<1024] s;
          s2 = kfree (load32 (phys s1) chunk) s1
      in kfree chunk s2)"

definition paging_is_aligned :: "ptr \<Rightarrow> bool" where
  "paging_is_aligned addr \<longleftrightarrow> addr mod paging_page_size = 0"

text \<open>The result code and the two output arguments.\<close>

definition paging_get_indices :: "ptr \<Rightarrow> u32 \<Rightarrow> u32 \<Rightarrow> i32 \<times> u32 \<times> u32" where
  "paging_get_indices virtual_address directory_index_out table_index_out =
     (if \<not> paging_is_aligned virtual_address
      then (- einvarg, directory_index_out, table_index_out)
      else (0, virtual_address div (paging_total_entries_per_table * paging_page_size),
            virtual_address mod (paging_total_entries_per_table * paging_page_size)
              div paging_page_size))"

definition paging_align_address :: "ptr \<Rightarrow> ptr" where
  "paging_align_address p =
     (if p mod paging_page_size \<noteq> 0 then p + paging_page_size - p mod paging_page_size else p)"

definition paging_set :: "ptr \<Rightarrow> ptr \<Rightarrow> u32 \<Rightarrow> mem \<Rightarrow> i32 \<times> mem" where
  "paging_set directory virt val m =
     (if \<not> paging_is_aligned virt then (- einvarg, m)
      else
        let (res, directory_index, table_index) = paging_get_indices virt 0 0
        in if res <s 0 then (res, m)
           else
             let entry = load32 m (directory + 4 * directory_index);
                 table = entry AND 0xFFFFF000
             in (res, store32 m (table + 4 * table_index) val))"

definition paging_get :: "ptr \<Rightarrow> ptr \<Rightarrow> mem \<Rightarrow> u32" where
  "paging_get directory virt m =
     (let (_, directory_index, table_index) = paging_get_indices virt 0 0;
          entry = load32 m (directory + 4 * directory_index);
          table = entry AND 0xFFFFF000
      in load32 m (table + 4 * table_index))"

definition paging_map :: "ptr \<Rightarrow> ptr \<Rightarrow> ptr \<Rightarrow> i32 \<Rightarrow> mem \<Rightarrow> i32 \<times> mem" where
  "paging_map chunk virt physical flags m =
     (if virt mod paging_page_size \<noteq> 0 \<or> physical mod paging_page_size \<noteq> 0 then (- einvarg, m)
      else paging_set (load32 m chunk) virt (physical OR flags) m)"

function map_range_loop :: "ptr \<Rightarrow> ptr \<Rightarrow> ptr \<Rightarrow> i32 \<Rightarrow> i32 \<Rightarrow> i32 \<Rightarrow> i32 \<Rightarrow> mem \<Rightarrow> i32 \<times> mem" where
  "map_range_loop chunk virt physical count flags i res m =
     (if i <s count then
        let (res', m') = paging_map chunk virt physical flags m
        in if res' <s 0 then (res', m')
           else map_range_loop chunk (virt + paging_page_size) (physical + paging_page_size) count
                  flags (i + 1) res' m'
      else (res, m))"
  by pat_completeness auto
termination
  by (relation "measure (\<lambda>(chunk, virt, physical, count, flags, i, res, m). nat (sint count - sint i))")
     (auto simp: sint_succ word_sless_alt)

declare map_range_loop.simps [simp del]

definition paging_map_range :: "ptr \<Rightarrow> ptr \<Rightarrow> ptr \<Rightarrow> i32 \<Rightarrow> i32 \<Rightarrow> mem \<Rightarrow> i32 \<times> mem" where
  "paging_map_range chunk virt physical count flags m = map_range_loop chunk virt physical count flags 0 0 m"

definition paging_map_to :: "ptr \<Rightarrow> ptr \<Rightarrow> ptr \<Rightarrow> ptr \<Rightarrow> i32 \<Rightarrow> mem \<Rightarrow> i32 \<times> mem" where
  "paging_map_to chunk virt physical physical_end flags m =
     (if virt mod paging_page_size \<noteq> 0 then (- einvarg, m)
      else if physical mod paging_page_size \<noteq> 0 then (- einvarg, m)
      else if physical_end mod paging_page_size \<noteq> 0 then (- einvarg, m)
      else if physical_end < physical then (- einvarg, m)
      else
        let total_bytes = physical_end - physical; total_pages = total_bytes div paging_page_size
        in paging_map_range chunk virt physical total_pages flags m)"

section \<open>Pages and indices\<close>

text \<open>A page number below \<open>2 ^ 20\<close> stands for the aligned address \<open>page_addr n\<close>.\<close>

definition page_addr :: "nat \<Rightarrow> ptr" where
  "page_addr n = of_nat (4096 * n)"

lemma unat_page_addr: "n < 2 ^ 20 \<Longrightarrow> unat (page_addr n) = 4096 * n"
  unfolding page_addr_def by (intro unat_of_nat_u32) simp

lemma page_addr_inj: "n < 2 ^ 20 \<Longrightarrow> k < 2 ^ 20 \<Longrightarrow> page_addr n = page_addr k \<longleftrightarrow> n = k"
  by (auto simp: word_unat_eq_iff unat_page_addr)

lemma aligned_iff: "paging_is_aligned p \<longleftrightarrow> unat p mod 4096 = 0"
  by (simp add: paging_is_aligned_def paging_page_size_def word_unat_eq_iff unat_mod_distrib)

lemma aligned_page_addr:
  "paging_is_aligned p \<longleftrightarrow> (\<exists>n < 2 ^ 20. p = page_addr n)"
proof
  assume "paging_is_aligned p"
  then have "unat p = 4096 * (unat p div 4096)" by (auto simp: aligned_iff)
  moreover have "unat p div 4096 < 2 ^ 20" using unat_range_u32 [of p] by simp
  ultimately have "p = page_addr (unat p div 4096)"
    using unat_page_addr [of "unat p div 4096"] by (simp add: word_unat_eq_iff)
  then show "\<exists>n < 2 ^ 20. p = page_addr n" using \<open>unat p div 4096 < 2 ^ 20\<close> by blast
qed (auto simp: aligned_iff unat_page_addr)

lemma page_addr_aligned [simp]: "n < 2 ^ 20 \<Longrightarrow> paging_is_aligned (page_addr n)"
  by (auto simp: aligned_page_addr)

lemma mod_page_size: "p mod paging_page_size = 0 \<longleftrightarrow> paging_is_aligned p"
  by (simp add: paging_is_aligned_def)

lemma indices_page_addr:
  assumes "n < 2 ^ 20"
  shows "paging_get_indices (page_addr n) d t = (0, of_nat (n div 1024), of_nat (n mod 1024))"
proof -
  have c: "paging_total_entries_per_table * paging_page_size = (0x400000 :: u32)"
    by (simp add: paging_consts)
  have "unat (page_addr n div 0x400000) = n div 1024"
    using assms div_mult_mult1 [of 4096 n 1024] by (simp add: unat_div_distrib unat_page_addr)
  moreover have "unat (page_addr n mod 0x400000 div paging_page_size) = n mod 1024"
    using assms mult_mod_right [of 4096 n 1024]
    by (simp add: unat_div_distrib unat_mod_distrib unat_page_addr paging_page_size_def)
  ultimately have "page_addr n div 0x400000 = of_nat (n div 1024)"
    and "page_addr n mod 0x400000 div paging_page_size = of_nat (n mod 1024)"
    by (auto dest: unat_eq_of_nat)
  then show ?thesis using assms by (simp add: paging_get_indices_def c)
qed

section \<open>Address spaces\<close>

text \<open>Table \<open>i\<close> of a directory, and the entry of page \<open>n\<close>. A directory is usable when it and
  its 1024 tables occupy pairwise disjoint pages.\<close>

definition dir_table :: "mem \<Rightarrow> ptr \<Rightarrow> nat \<Rightarrow> ptr" where
  "dir_table m directory i = load32 m (directory + 4 * of_nat i) AND 0xFFFFF000"

definition entry_addr :: "mem \<Rightarrow> ptr \<Rightarrow> nat \<Rightarrow> ptr" where
  "entry_addr m directory n = dir_table m directory (n div 1024) + 4 * of_nat (n mod 1024)"

definition space_ok :: "ptr \<Rightarrow> mem \<Rightarrow> bool" where
  "space_ok directory m \<longleftrightarrow>
     (\<forall>i < 1024. apart directory 4096 (dir_table m directory i) 4096) \<and>
     (\<forall>i < 1024. \<forall>j < 1024. i \<noteq> j \<longrightarrow>
        apart (dir_table m directory i) 4096 (dir_table m directory j) 4096)"

lemma paging_get_page:
  "n < 2 ^ 20 \<Longrightarrow> paging_get directory (page_addr n) m = load32 m (entry_addr m directory n)"
  by (simp add: paging_get_def indices_page_addr entry_addr_def dir_table_def)

lemma paging_set_page:
  "n < 2 ^ 20 \<Longrightarrow>
   paging_set directory (page_addr n) val m = (0, store32 m (entry_addr m directory n) val)"
  by (simp add: paging_set_def indices_page_addr entry_addr_def dir_table_def)

lemma paging_set_unaligned: "\<not> paging_is_aligned virt \<Longrightarrow> paging_set directory virt val m = (- einvarg, m)"
  by (simp add: paging_set_def)

text \<open>The bytes of an entry lie in its table.\<close>

lemma entry_in_table:
  "n < 2 ^ 20 \<Longrightarrow> in_region (entry_addr m directory n) 4 x \<Longrightarrow>
   in_region (dir_table m directory (n div 1024)) 4096 x"
  using in_region_table [of "n mod 1024" 1024] by (simp add: entry_addr_def)

text \<open>Writing an entry leaves the directory and every other entry alone.\<close>

lemma apart_from_regions:
  assumes "apart p k q l" and "\<And>x. in_region a 4 x \<Longrightarrow> in_region p k x"
    and "\<And>x. in_region b 4 x \<Longrightarrow> in_region q l x"
  shows "load32 (store32 m a v) b = load32 m b"
proof (rule load32_cong)
  fix x assume "in_region b 4 x"
  then have "\<not> in_region a 4 x" using apart_not_in2 [OF assms(1)] assms(2,3) by blast
  then show "store32 m a v x = m x" by (rule store32_other)
qed

lemma dir_word_set:
  assumes "space_ok directory m" and "n < 2 ^ 20" and "i < 1024"
  shows "load32 (store32 m (entry_addr m directory n) v) (directory + 4 * of_nat i) =
    load32 m (directory + 4 * of_nat i)"
proof -
  have "n div 1024 < 1024" using assms(2) by simp
  then have "apart (dir_table m directory (n div 1024)) 4096 directory 4096"
    using assms(1) by (simp add: space_ok_def apart_sym)
  then show ?thesis
    by (rule apart_from_regions)
      (use entry_in_table [OF assms(2)] in_region_table [of i 1024 directory] assms(3) in simp_all)
qed

lemma dir_table_set:
  "\<lbrakk> space_ok directory m; n < 2 ^ 20; i < 1024 \<rbrakk> \<Longrightarrow>
   dir_table (store32 m (entry_addr m directory n) v) directory i = dir_table m directory i"
  by (simp add: dir_table_def dir_word_set)

lemma entry_addr_set:
  assumes "space_ok directory m" and "n < 2 ^ 20" and "k < 2 ^ 20"
  shows "entry_addr (store32 m (entry_addr m directory n) v) directory k = entry_addr m directory k"
  using dir_table_set [OF assms(1,2), of "k div 1024"] assms(3) by (simp add: entry_addr_def)

lemma space_ok_set:
  assumes "space_ok directory m" and "n < 2 ^ 20"
  shows "space_ok directory (store32 m (entry_addr m directory n) v)"
  using assms(1) dir_table_set [OF assms] by (simp add: space_ok_def)

lemma load_entry_set:
  assumes "space_ok directory m" and "n < 2 ^ 20" and "k < 2 ^ 20" and "n \<noteq> k"
  shows "load32 (store32 m (entry_addr m directory n) v) (entry_addr m directory k) =
    load32 m (entry_addr m directory k)"
proof (cases "n div 1024 = k div 1024")
  case True
  then have "n mod 1024 \<noteq> k mod 1024" using assms(4) by (metis div_mult_mod_eq)
  moreover have "n mod 1024 < 2 ^ 30" "k mod 1024 < 2 ^ 30"
    by (rule order.strict_trans [OF mod_less_divisor]; simp)+
  ultimately show ?thesis
    unfolding entry_addr_def True by (intro load32_store32_apart words_apart)
next
  case False
  moreover have "n div 1024 < 1024" "k div 1024 < 1024" using assms(2,3) by simp_all
  ultimately have "apart (dir_table m directory (n div 1024)) 4096 (dir_table m directory (k div 1024)) 4096"
    using assms(1) by (simp add: space_ok_def)
  then show ?thesis
    by (rule apart_from_regions) (use entry_in_table assms(2,3) in blast)+
qed

section \<open>The contract of a page map\<close>

text \<open>\<open>map_page v p flags\<close> maps the page at \<open>v\<close> to the frame at \<open>p\<close>; \<open>lookup v\<close> is the entry
  of the page at \<open>v\<close>. Both arguments of a successful mapping are aligned.\<close>

locale page_map =
  fixes map_page :: "ptr \<Rightarrow> ptr \<Rightarrow> i32 \<Rightarrow> 's \<Rightarrow> i32 \<times> 's"
    and lookup :: "ptr \<Rightarrow> 's \<Rightarrow> u32"
    and inv :: "'s \<Rightarrow> bool"
  assumes map_ok: "\<lbrakk> inv s; paging_is_aligned v; paging_is_aligned p \<rbrakk> \<Longrightarrow> fst (map_page v p f s) = 0"
    and map_inv: "\<lbrakk> inv s; paging_is_aligned v; paging_is_aligned p \<rbrakk> \<Longrightarrow>
      inv (snd (map_page v p f s))"
    and map_unaligned: "\<not> paging_is_aligned v \<or> \<not> paging_is_aligned p \<Longrightarrow>
      map_page v p f s = (- einvarg, s)"
    and lookup_map: "\<lbrakk> inv s; paging_is_aligned v; paging_is_aligned p; paging_is_aligned w \<rbrakk> \<Longrightarrow>
      lookup w (snd (map_page v p f s)) = (if w = v then p OR f else lookup w s)"

text \<open>The pages \<open>n, \<dots>, n + k - 1\<close> mapped to the frames \<open>q, \<dots>, q + k - 1\<close>, in order.\<close>

fun map_pages :: "(ptr \<Rightarrow> ptr \<Rightarrow> i32 \<Rightarrow> 's \<Rightarrow> i32 \<times> 's) \<Rightarrow> nat \<Rightarrow> nat \<Rightarrow> nat \<Rightarrow> i32 \<Rightarrow> 's \<Rightarrow> 's" where
  "map_pages mp 0 n q f s = s"
| "map_pages mp (Suc k) n q f s = map_pages mp k (Suc n) (Suc q) f (snd (mp (page_addr n) (page_addr q) f s))"

context page_map
begin

lemma map_pages_correct:
  "\<lbrakk> inv s; n + k \<le> 2 ^ 20; q + k \<le> 2 ^ 20; i < 2 ^ 20 \<rbrakk> \<Longrightarrow>
   inv (map_pages map_page k n q f s) \<and>
   lookup (page_addr i) (map_pages map_page k n q f s) =
     (if n \<le> i \<and> i < n + k then page_addr (q + (i - n)) OR f else lookup (page_addr i) s)"
proof (induction k arbitrary: n q s)
  case (Suc k)
  let ?s = "snd (map_page (page_addr n) (page_addr q) f s)"
  have al: "paging_is_aligned (page_addr n)" "paging_is_aligned (page_addr q)"
    "paging_is_aligned (page_addr i)"
    using Suc.prems by simp_all
  have inv: "inv ?s" by (rule map_inv [OF Suc.prems(1) al(1,2)])
  have "lookup (page_addr i) ?s = (if i = n then page_addr q OR f else lookup (page_addr i) s)"
    using lookup_map [OF Suc.prems(1) al] page_addr_inj [of i n] Suc.prems by simp
  with Suc.IH [OF inv, of "Suc n" "Suc q"] Suc.prems show ?case
    by (auto simp: Suc_diff_Suc Suc_le_eq)
qed auto

end

text \<open>A chunk is usable when its directory is and the word that holds it is in no table.\<close>

definition chunk_ok :: "ptr \<Rightarrow> mem \<Rightarrow> bool" where
  "chunk_ok chunk m \<longleftrightarrow> space_ok (load32 m chunk) m \<and>
     (\<forall>i < 1024. apart (dir_table m (load32 m chunk) i) 4096 chunk 4)"

definition chunk_lookup :: "ptr \<Rightarrow> ptr \<Rightarrow> mem \<Rightarrow> u32" where
  "chunk_lookup chunk v m = paging_get (load32 m chunk) v m"

lemma paging_map_page:
  "n < 2 ^ 20 \<Longrightarrow> q < 2 ^ 20 \<Longrightarrow> paging_map chunk (page_addr n) (page_addr q) f m =
     (0, store32 m (entry_addr m (load32 m chunk) n) (page_addr q OR f))"
  by (simp add: paging_map_def mod_page_size paging_set_page)

lemma load_chunk_set:
  assumes "chunk_ok chunk m" and "n < 2 ^ 20"
  shows "load32 (store32 m (entry_addr m (load32 m chunk) n) v) chunk = load32 m chunk"
proof -
  have "n div 1024 < 1024" using assms(2) by simp
  then have "apart (dir_table m (load32 m chunk) (n div 1024)) 4096 chunk 4"
    using assms(1) by (simp add: chunk_ok_def)
  then show ?thesis
    by (rule apart_from_regions) (use entry_in_table [OF assms(2)] in blast)+
qed

lemma chunk_ok_set:
  assumes "chunk_ok chunk m" and "n < 2 ^ 20"
  shows "chunk_ok chunk (store32 m (entry_addr m (load32 m chunk) n) v)"
  using assms(1) space_ok_set [OF _ assms(2)] dir_table_set [OF _ assms(2)]
  by (simp add: chunk_ok_def load_chunk_set [OF assms])

interpretation chunk_map: page_map "paging_map chunk" "chunk_lookup chunk" "chunk_ok chunk" for chunk
proof
  fix s v p f w
  assume "chunk_ok chunk s" "paging_is_aligned v" "paging_is_aligned p"
  then obtain n q where n: "n < 2 ^ 20" "v = page_addr n" and q: "q < 2 ^ 20" "p = page_addr q"
    and ok: "chunk_ok chunk s"
    by (auto simp: aligned_page_addr)
  show "fst (paging_map chunk v p f s) = 0"
    using n q by (simp add: paging_map_page)
  show "chunk_ok chunk (snd (paging_map chunk v p f s))"
    using n q chunk_ok_set [OF ok n(1)] by (simp add: paging_map_page)
  assume "paging_is_aligned w"
  then obtain k where k: "k < 2 ^ 20" "w = page_addr k" by (auto simp: aligned_page_addr)
  have space: "space_ok (load32 s chunk) s" using ok by (simp add: chunk_ok_def)
  show "chunk_lookup chunk w (snd (paging_map chunk v p f s)) =
      (if w = v then p OR f else chunk_lookup chunk w s)"
    using load_entry_set [OF space n(1) k(1)] n q k
    by (auto simp: paging_map_page chunk_lookup_def load_chunk_set [OF ok n(1)] paging_get_page
        entry_addr_set [OF space n(1) k(1)] page_addr_inj)
next
  fix v p f s
  assume "\<not> paging_is_aligned v \<or> \<not> paging_is_aligned p"
  then show "paging_map chunk v p f s = (- einvarg, s)"
    by (auto simp: paging_map_def mod_page_size)
qed

lemma map_range_loop_eq:
  assumes "k < 2 ^ 31"
  shows "\<lbrakk> chunk_ok chunk m; j \<le> k; n + (k - j) \<le> 2 ^ 20; q + (k - j) \<le> 2 ^ 20 \<rbrakk> \<Longrightarrow>
   map_range_loop chunk (page_addr n) (page_addr q) (of_nat k) f (of_nat j) 0 m =
     (0, map_pages (paging_map chunk) (k - j) n q f m)"
proof (induction "k - j" arbitrary: j n q m)
  case 0
  then have "j = k" by simp
  then show ?case by (subst map_range_loop.simps) (simp add: word_sless_alt)
next
  case (Suc d)
  let ?m = "snd (paging_map chunk (page_addr n) (page_addr q) f m)"
  have lt: "(of_nat j :: i32) <s of_nat k"
    using Suc.hyps(2) Suc.prems(2) assms by (simp add: word_sless_alt sint_of_nat_u32)
  have nq: "n < 2 ^ 20" "q < 2 ^ 20" using Suc.hyps(2) Suc.prems by linarith+
  have step: "paging_page_size + page_addr n = page_addr (Suc n)" for n
    by (simp add: page_addr_def paging_page_size_def)
  have "map_range_loop chunk (page_addr n) (page_addr q) (of_nat k) f (of_nat j) 0 m =
      map_range_loop chunk (page_addr (Suc n)) (page_addr (Suc q)) (of_nat k) f (of_nat (Suc j)) 0 ?m"
    by (subst map_range_loop.simps)
      (simp add: lt paging_map_page [OF nq] step add.commute)
  also have "\<dots> = (0, map_pages (paging_map chunk) (k - Suc j) (Suc n) (Suc q) f ?m)"
  proof (rule Suc.hyps(1))
    show "d = k - Suc j" "Suc j \<le> k" "Suc n + (k - Suc j) \<le> 2 ^ 20" "Suc q + (k - Suc j) \<le> 2 ^ 20"
      using Suc.hyps(2) Suc.prems by linarith+
    show "chunk_ok chunk ?m"
      using chunk_ok_set [OF Suc.prems(1) nq(1)] by (simp add: paging_map_page [OF nq])
  qed
  also have "map_pages (paging_map chunk) (k - Suc j) (Suc n) (Suc q) f ?m =
      map_pages (paging_map chunk) (k - j) n q f m"
  proof -
    have "k - j = Suc (k - Suc j)" using Suc.hyps(2) by linarith
    then show ?thesis by simp
  qed
  finally show ?case .
qed

section \<open>Building an address space\<close>

lemma fill_table_out: "\<not> in_region t 4096 x \<Longrightarrow> fill_table t offset flags m x = m x"
  using fill_words_out [of 1024 t x] by (simp add: fill_table_def paging_total_entries_per_table_def)

lemma load_fill_table:
  "b < 1024 \<Longrightarrow> load32 (fill_table t offset flags m) (t + 4 * of_nat b) =
     (offset + of_nat b * 4096) OR ucast flags"
  using load32_fill_words [of 1024 b]
  by (simp add: fill_table_def paging_total_entries_per_table_def paging_page_size_def)

text \<open>The state after \<open>length ts\<close> rounds of the outer loop: the tables \<open>ts\<close> and the directory
  are the blocks allocated since \<open>s0\<close>, the first entries of the directory lead to them and
  map their part of the address space to itself.\<close>

definition tables_built :: "'a kheap_scheme \<Rightarrow> u8 \<Rightarrow> ptr \<Rightarrow> ptr list \<Rightarrow> 'a kheap_scheme \<Rightarrow> bool" where
  "tables_built s0 flags dir ts s \<longleftrightarrow>
     kheap_inv s \<and> kheap_pages s + Suc (length ts) = kheap_pages s0 \<and> distinct (dir # ts) \<and>
     kheap_live s = (\<lambda>p. (p, 4096)) ` set (dir # ts) \<union> kheap_live s0 \<and>
     (\<forall>p \<in> set (dir # ts). \<forall>l. (p, l) \<notin> kheap_live s0) \<and>
     (\<forall>i < length ts. load32 (phys s) (dir + 4 * of_nat i) =
        ts ! i OR ucast flags OR paging_is_writeable) \<and>
     (\<forall>i < length ts. \<forall>b < 1024. load32 (phys s) (ts ! i + 4 * of_nat b) =
        (of_nat i * 0x400000 + of_nat b * 4096) OR ucast flags) \<and>
     (\<forall>x. kheap_stable s0 x \<longrightarrow> phys s x = phys s0 x) \<and>
     (\<forall>r. free_run (r + Suc (length ts)) s0 \<longrightarrow> free_run r s)"

lemma new_table_step:
  assumes built: "tables_built s0 flags dir ts s" and pos: "0 < kheap_pages s"
    and len: "length ts < 1024"
  shows "\<exists>t s'. new_table dir flags (length ts) (of_nat (length ts) * 0x400000, s) =
      (of_nat (Suc (length ts)) * 0x400000, s') \<and> tables_built s0 flags dir (ts @ [t]) s'"
proof -
  let ?i = "length ts" and ?off = "of_nat (length ts) * 0x400000 :: i32"
  obtain t s1 where alloc: "kzalloc 4096 s = (t, s1)" by (cases "kzalloc 4096 s") blast
  define m1 where "m1 = fill_table t ?off flags (phys s1)"
  define m2 where "m2 = store32 m1 (dir + 4 * of_nat ?i) (t OR ucast flags OR paging_is_writeable)"
  let ?s = "s1\<lparr>phys := m2\<rparr>"
  have inv: "kheap_inv s" and live: "kheap_live s = (\<lambda>p. (p, 4096)) ` set (dir # ts) \<union> kheap_live s0"
    and dist: "distinct (dir # ts)"
    using built by (simp_all add: tables_built_def)
  have n: "(0 :: u32) < 4096" "(4096 :: u32) \<le> 4096" by simp_all
  have room: "kheap_room 4096 s" by (rule kheap_page_room [OF pos n])
  have inv1: "kheap_inv s1" and live1: "kheap_live s1 = insert (t, 4096) (kheap_live s)"
    and pages1: "Suc (kheap_pages s1) = kheap_pages s" and fresh: "\<And>l. (t, l) \<notin> kheap_live s"
    and keep1: "\<And>q l x. (q, l) \<in> kheap_live s \<Longrightarrow> in_region q l x \<Longrightarrow> phys s1 x = phys s x"
    using kzalloc_heap.alloc_inv [OF inv room] kzalloc_pages.alloc_page [OF inv pos n]
      kzalloc_pages.alloc_pages [OF inv pos n] kzalloc_pages.page_fresh [OF inv pos n]
      kzalloc_heap.alloc_byte [OF inv room] by (simp_all add: alloc)
  have t1: "(t, 4096) \<in> kheap_live s1" and d1: "(dir, 4096) \<in> kheap_live s1"
    using live live1 by auto
  have m1_out: "m1 x = phys s1 x" if "\<not> in_region t 4096 x" for x
    using that by (simp add: m1_def fill_table_out)
  have m2_out: "m2 x = m1 x" if "\<not> in_region dir 4096 x" for x
    using that table_word [OF len, of dir] by (auto simp: m2_def word_in_def intro: store32_other)
  have w1: "kheap_inv (s1\<lparr>phys := m1\<rparr>)" "kchunks (s1\<lparr>phys := m1\<rparr>) = kchunks s1"
    using kheap_write_live [OF inv1 t1] m1_out by blast+
  then have "(dir, 4096) \<in> kheap_live (s1\<lparr>phys := m1\<rparr>)" using d1 by (simp add: kheap_live_def)
  from kheap_write_live [OF w1(1) this, of m2] m2_out w1(2)
  have w2: "kheap_inv ?s" "kchunks ?s = kchunks s1" by simp_all
  have apart1: "\<not> in_region p' k' x"
    if "(p', k') \<in> kheap_live s1" "(q, l) \<in> kheap_live s1" "(p', k') \<noteq> (q, l)" "in_region q l x"
    for p' k' q l x
    using kzalloc_heap.live_apart [OF inv1 that(1-3)] apart_not_in that(4) by blast
  have m1_keep: "m1 x = phys s x" if "(q, l) \<in> kheap_live s" "in_region q l x" for q l x
  proof -
    have "(t, 4096) \<noteq> (q, l)" using fresh that(1) by blast
    then have "\<not> in_region t 4096 x" using apart1 [OF t1 _ _ that(2)] that(1) live1 by blast
    then show ?thesis using m1_out keep1 [OF that] by simp
  qed
  have m2_keep: "m2 x = phys s x" if "(q, l) \<in> kheap_live s" "(q, l) \<noteq> (dir, 4096)" "in_region q l x"
    for q l x
  proof -
    have "\<not> in_region dir 4096 x" using apart1 [OF d1 _ _ that(3)] that(1,2) live1 by blast
    then show ?thesis using m2_out m1_keep [OF that(1,3)] by simp
  qed
  have dir_live: "(dir, 4096) \<in> kheap_live s" using live by auto
  have "t \<noteq> dir" using fresh dir_live by blast
  have m2_t: "m2 x = m1 x" if "in_region t 4096 x" for x
    using m2_out apart1 [OF d1 t1 _ that] \<open>t \<noteq> dir\<close> by blast
  have entry: "load32 m2 (dir + 4 * of_nat i) = (ts @ [t]) ! i OR ucast flags OR paging_is_writeable"
    if "i < Suc ?i" for i
  proof (cases "i = ?i")
    case True
    then show ?thesis by (simp add: m2_def)
  next
    case False
    then have i: "i < ?i" using that by simp
    then have "load32 m2 (dir + 4 * of_nat i) = load32 m1 (dir + 4 * of_nat i)"
      unfolding m2_def using len by (intro load32_store32_apart words_apart) simp_all
    also have "\<dots> = load32 (phys s) (dir + 4 * of_nat i)"
      using i len by (intro load32_word_in [OF table_word] m1_keep [OF dir_live]) simp_all
    finally show ?thesis using built i by (simp add: tables_built_def nth_append)
  qed
  have tab: "load32 m2 ((ts @ [t]) ! i + 4 * of_nat b) =
      (of_nat i * 0x400000 + of_nat b * 4096) OR ucast flags" if "i < Suc ?i" "b < 1024" for i b
  proof (cases "i = ?i")
    case True
    have "load32 m2 (t + 4 * of_nat b) = load32 m1 (t + 4 * of_nat b)"
      by (intro load32_word_in [OF table_word [OF that(2)]] m2_t)
    then show ?thesis using that(2) True by (simp add: m1_def load_fill_table)
  next
    case False
    then have i: "i < ?i" using that by simp
    then have "(ts ! i, 4096) \<in> kheap_live s" "ts ! i \<noteq> dir" using live dist by auto
    then have "load32 m2 (ts ! i + 4 * of_nat b) = load32 (phys s) (ts ! i + 4 * of_nat b)"
      by (intro load32_word_in [OF table_word [OF that(2)]] m2_keep) auto
    then show ?thesis using built i that(2) by (simp add: tables_built_def nth_append)
  qed
  have "phys ?s x = phys s0 x" if st: "kheap_stable s0 x" for x
  proof -
    have sub: "kheap_live s0 \<subseteq> kheap_live s" and new: "(dir, 4096) \<notin> kheap_live s0" using built by (auto simp: tables_built_def)
    note st' = stable_mono [OF sub st]
    have "\<not> in_region dir 4096 x" by (rule stable_not_new [OF inv dir_live new sub st])
    moreover have "\<not> in_region t 4096 x" by (rule kzalloc_page_facts(8) [OF inv pos n alloc st'])
    moreover have "phys s1 x = phys s x" by (rule kzalloc_page_facts(6) [OF inv pos n alloc st'])
    moreover have "phys s x = phys s0 x" using built st by (simp add: tables_built_def)
    ultimately show ?thesis using m1_out m2_out by simp
  qed
  moreover have "free_run r ?s" if "free_run (r + Suc (Suc ?i)) s0" for r
  proof -
    have "free_run (Suc r) s" using built that by (simp add: tables_built_def)
    then have "free_run r s1" by (rule free_run_page [OF inv pos n alloc])
    then show ?thesis using free_run_cong [of ?s s1] w2(2) by (simp add: kheap_live_def)
  qed
  moreover have "t \<notin> set ts" using fresh live by auto
  ultimately have "tables_built s0 flags dir (ts @ [t]) ?s"
    using \<open>t \<noteq> dir\<close> built w2 entry tab live live1 pages1 fresh
    by (auto simp: tables_built_def kheap_live_def kheap_pages_def)
  moreover have "new_table dir flags ?i (?off, s) = (of_nat (Suc ?i) * 0x400000, ?s)"
    by (simp add: new_table_def paging_total_entries_per_table_def paging_page_size_def alloc
        m1_def m2_def algebra_simps)
  ultimately show ?thesis by blast
qed

lemma tables_built_loop:
  assumes "tables_built s0 flags dir [] s" and "1024 \<le> kheap_pages s"
  shows "i \<le> 1024 \<Longrightarrow> \<exists>ts s'. length ts = i \<and> tables_built s0 flags dir ts s' \<and>
    fold (new_table dir flags) [0..<i] (0, s) = (of_nat i * 0x400000, s')"
proof (induction i)
  case 0
  then show ?case using assms(1) by (intro exI [of _ "[]"] exI [of _ s]) simp
next
  case (Suc i)
  then obtain ts s1 where ts: "length ts = i" and built: "tables_built s0 flags dir ts s1"
    and fold: "fold (new_table dir flags) [0..<i] (0, s) = (of_nat i * 0x400000, s1)"
    by auto
  have "kheap_pages s = kheap_pages s1 + length ts"
    using assms(1) built by (simp add: tables_built_def)
  then have "0 < kheap_pages s1" using assms(2) Suc.prems ts by simp
  moreover have "length ts < 1024" using Suc.prems ts by simp
  ultimately obtain t s' where "new_table dir flags (length ts) (of_nat (length ts) * 0x400000, s1) =
      (of_nat (Suc (length ts)) * 0x400000, s')" and "tables_built s0 flags dir (ts @ [t]) s'"
    using new_table_step [OF built] by blast
  then show ?case
    using ts fold by (intro exI [of _ "ts @ [t]"] exI [of _ s']) simp
qed

text \<open>What \<open>paging_new_4gb\<close> leaves behind: a chunk, a directory and 1024 tables, all new
  pages.\<close>

definition space_built :: "'a kheap_scheme \<Rightarrow> u8 \<Rightarrow> ptr \<Rightarrow> ptr \<Rightarrow> ptr list \<Rightarrow> 'a kheap_scheme \<Rightarrow> bool" where
  "space_built s0 flags chunk dir ts s \<longleftrightarrow>
     kheap_inv s \<and> kheap_pages s + 1026 = kheap_pages s0 \<and> length ts = 1024 \<and>
     distinct (chunk # dir # ts) \<and>
     kheap_live s = (\<lambda>p. (p, 4096)) ` set (chunk # dir # ts) \<union> kheap_live s0 \<and>
     (\<forall>p \<in> set (chunk # dir # ts). \<forall>l. (p, l) \<notin> kheap_live s0) \<and>
     load32 (phys s) chunk = dir \<and>
     (\<forall>i < 1024. load32 (phys s) (dir + 4 * of_nat i) = ts ! i OR ucast flags OR paging_is_writeable) \<and>
     (\<forall>i < 1024. \<forall>b < 1024. load32 (phys s) (ts ! i + 4 * of_nat b) =
        (of_nat i * 0x400000 + of_nat b * 4096) OR ucast flags) \<and>
     (\<forall>x. kheap_stable s0 x \<longrightarrow> phys s x = phys s0 x) \<and>
     (\<forall>r. free_run (r + 1026) s0 \<longrightarrow> free_run r s)"

lemma space_built_kept:
  assumes "kheap_inv s0" and "space_built s0 flags chunk dir ts s" and "(q, l) \<in> kheap_live s0" and "in_region q l x"
  shows "phys s x = phys s0 x"
  using assms(2) stable_live [OF assms(1,3,4)] by (simp add: space_built_def)

lemma paging_new_4gb_built:
  assumes inv: "kheap_inv s" and pages: "1026 \<le> kheap_pages s"
  shows "\<exists>chunk dir ts s'. paging_new_4gb flags s = (chunk, s') \<and> space_built s flags chunk dir ts s'"
proof -
  obtain dir s1 where alloc1: "kzalloc 4096 s = (dir, s1)" by (cases "kzalloc 4096 s") blast
  have pos: "0 < kheap_pages s" using pages by simp
  have n: "(0 :: u32) < 4096" "(4096 :: u32) \<le> 4096" "(0 :: u32) < 4" "(4 :: u32) \<le> 4096" by simp_all
  note room = kheap_page_room [OF pos n(1,2)]
  have built0: "tables_built s flags dir [] s1"
    using kzalloc_heap.alloc_inv [OF inv room] kzalloc_pages.alloc_page [OF inv pos n(1,2)]
      kzalloc_pages.alloc_pages [OF inv pos n(1,2)] kzalloc_pages.page_fresh [OF inv pos n(1,2)]
      kzalloc_page_facts(6) [OF inv pos n(1,2) alloc1] free_run_page [OF inv pos n(1,2) alloc1]
    by (auto simp: tables_built_def alloc1)
  moreover have "1024 \<le> kheap_pages s1" using built0 pages by (simp add: tables_built_def)
  ultimately obtain ts s2 where ts: "length ts = 1024" and built: "tables_built s flags dir ts s2"
    and loop: "fold (new_table dir flags) [0..<1024] (0, s1) = (of_nat 1024 * 0x400000, s2)"
    using tables_built_loop [of s flags dir s1 1024] by auto
  obtain chunk s3 where alloc3: "kzalloc 4 s2 = (chunk, s3)" by (cases "kzalloc 4 s2") blast
  define m where "m = store32 (phys s3) chunk dir"
  have inv2: "kheap_inv s2" and pos2: "0 < kheap_pages s2"
    using built ts pages by (simp_all add: tables_built_def)
  note room2 = kheap_page_room [OF pos2 n(3,4)]
  have inv3: "kheap_inv s3" and live3: "kheap_live s3 = insert (chunk, 4096) (kheap_live s2)"
    and pages3: "Suc (kheap_pages s3) = kheap_pages s2" and fresh: "\<And>l. (chunk, l) \<notin> kheap_live s2"
    and keep: "\<And>q l x. (q, l) \<in> kheap_live s2 \<Longrightarrow> in_region q l x \<Longrightarrow> phys s3 x = phys s2 x"
    using kzalloc_heap.alloc_inv [OF inv2 room2] kzalloc_pages.alloc_page [OF inv2 pos2 n(3,4)]
      kzalloc_pages.alloc_pages [OF inv2 pos2 n(3,4)] kzalloc_pages.page_fresh [OF inv2 pos2 n(3,4)]
      kzalloc_heap.alloc_byte [OF inv2 room2] by (simp_all add: alloc3)
  have m_out: "m x = phys s3 x" if "\<not> in_region chunk 4096 x" for x
    using that page_word [of chunk] by (auto simp: m_def word_in_def intro: store32_other)
  have c3: "(chunk, 4096) \<in> kheap_live s3" using live3 by simp
  have w: "kheap_inv (s3\<lparr>phys := m\<rparr>)" "kchunks (s3\<lparr>phys := m\<rparr>) = kchunks s3"
    using kheap_write_live [OF inv3 c3] m_out by blast+
  have m_keep: "m x = phys s2 x" if "(q, l) \<in> kheap_live s2" "in_region q l x" for q l x
  proof -
    have "(chunk, 4096) \<noteq> (q, l)" using fresh that(1) by blast
    then have "apart chunk 4096 q l"
      using kzalloc_heap.live_apart [OF inv3 c3] that(1) live3 by blast
    then have "\<not> in_region chunk 4096 x" using apart_not_in that(2) by blast
    then show ?thesis using m_out keep [OF that] by simp
  qed
  have live2: "kheap_live s2 = (\<lambda>p. (p, 4096)) ` set (dir # ts) \<union> kheap_live s"
    using built by (simp add: tables_built_def)
  have "load32 m (dir + 4 * of_nat i) = load32 (phys s2) (dir + 4 * of_nat i)" if "i < 1024" for i
    using live2 by (intro load32_word_in [OF table_word [OF that]] m_keep) auto
  moreover have "load32 m (ts ! i + 4 * of_nat b) = load32 (phys s2) (ts ! i + 4 * of_nat b)"
    if "i < 1024" "b < 1024" for i b
    using live2 that(1) ts by (intro load32_word_in [OF table_word [OF that(2)]] m_keep) auto
  moreover have "chunk \<notin> set (dir # ts)" "\<And>l. (chunk, l) \<notin> kheap_live s"
    using fresh live2 by auto
  moreover have "m x = phys s x" if st: "kheap_stable s x" for x
  proof -
    have sub: "kheap_live s \<subseteq> kheap_live s2" using live2 by blast
    note f = kzalloc_page_facts(6,8) [OF inv2 pos2 n(3,4) alloc3 stable_mono [OF sub st]]
    show ?thesis using f m_out [of x] built st by (simp add: tables_built_def)
  qed
  moreover have "free_run r (s3\<lparr>phys := m\<rparr>)" if "free_run (r + 1026) s" for r
  proof -
    have "\<forall>r. free_run (r + 1025) s \<longrightarrow> free_run r s2" using built ts by (simp add: tables_built_def)
    from this [rule_format, of "Suc r"] that have "free_run (Suc r) s2" by (simp add: add.commute)
    then have "free_run r s3" by (rule free_run_page [OF inv2 pos2 n(3,4) alloc3])
    then show ?thesis using free_run_cong [of "s3\<lparr>phys := m\<rparr>" s3] w(2) by (simp add: kheap_live_def)
  qed
  moreover have "load32 m chunk = dir" by (simp add: m_def)
  ultimately have "space_built s flags chunk dir ts (s3\<lparr>phys := m\<rparr>)"
    using built w live2 live3 pages3 ts
    by (simp add: space_built_def tables_built_def kheap_live_def kheap_pages_def)
  moreover have "paging_new_4gb flags s = (chunk, s3\<lparr>phys := m\<rparr>)"
    using loop by (simp add: paging_new_4gb_def paging_total_entries_per_table_def alloc1 alloc3 m_def)
  ultimately show ?thesis by blast
qed

lemma entry_page:
  fixes flags :: u8
  assumes "t AND 0xFFF = 0"
  shows "(t OR ucast flags OR paging_is_writeable) AND 0xFFFFF000 = t"
proof -
  have "(ucast flags OR paging_is_writeable) AND 0xFFFFF000 = 0"
    by (simp add: bit.conj_disj_distrib2 ucast_page paging_is_writeable_def)
  from page_or [OF assms this] show ?thesis by (simp add: or.assoc)
qed

lemma space_built_tables:
  assumes "space_built s0 flags chunk dir ts s" and "i < 1024"
  shows "dir_table (phys s) dir i = ts ! i"
proof -
  have "(ts ! i, 4096) \<in> kheap_live s"
    using assms by (auto simp: space_built_def)
  from entry_page [OF kheap_live_aligned [OF this]] assms show ?thesis
    by (simp add: space_built_def dir_table_def)
qed

lemma space_built_apart:
  assumes "space_built s0 flags chunk dir ts s" and "p \<in> set (chunk # dir # ts)"
    and "q \<in> set (chunk # dir # ts)" and "p \<noteq> q"
  shows "apart p 4096 q 4096"
proof (rule kzalloc_heap.live_apart)
  show "kheap_inv s" "(p, 4096) \<in> kheap_live s" "(q, 4096) \<in> kheap_live s" "(p, 4096) \<noteq> (q, 4096)"
    using assms by (auto simp: space_built_def)
qed

lemma space_built_chunk_ok:
  assumes built: "space_built s0 flags chunk dir ts s"
  shows "chunk_ok chunk (phys s)" and "load32 (phys s) chunk = dir"
proof -
  have len: "length ts = 1024" and dist: "distinct (chunk # dir # ts)" and
    ld: "load32 (phys s) chunk = dir"
    using built by (simp_all add: space_built_def)
  show "load32 (phys s) chunk = dir" by (rule ld)
  note tab = space_built_tables [OF built]
  have el: "ts ! i \<in> set ts" if "i < 1024" for i using that len by simp
  have "apart dir 4096 (ts ! i) 4096" if "i < 1024" for i
    using el [OF that] dist by (intro space_built_apart [OF built]) auto
  moreover have "apart (ts ! i) 4096 (ts ! j) 4096" if "i < 1024" "j < 1024" "i \<noteq> j" for i j
    using el that dist len nth_eq_iff_index_eq [of ts i j] by (intro space_built_apart [OF built]) auto
  moreover have "apart (ts ! i) 4096 chunk 4" if "i < 1024" for i
  proof -
    have "apart (ts ! i) 4096 chunk 4096"
      using el [OF that] dist by (intro space_built_apart [OF built]) auto
    then show ?thesis by (rule apart_subregion) simp_all
  qed
  ultimately show "chunk_ok chunk (phys s)"
    by (simp add: chunk_ok_def space_ok_def ld tab)
qed

lemma space_built_lookup:
  assumes built: "space_built s0 flags chunk dir ts s" and n: "n < 2 ^ 20"
  shows "chunk_lookup chunk (page_addr n) (phys s) = page_addr n OR ucast flags"
proof -
  have i: "n div 1024 < 1024" using n by simp
  have split: "page_addr (1024 * i + b) = of_nat i * 0x400000 + of_nat b * 4096" for i b
    by (simp add: page_addr_def algebra_simps)
  have "1024 * (n div 1024) + n mod 1024 = n" by simp
  with split [of "n div 1024" "n mod 1024"]
  have "page_addr n = of_nat (n div 1024) * 0x400000 + of_nat (n mod 1024) * 4096" by (simp only:)
  moreover have "chunk_lookup chunk (page_addr n) (phys s) =
      load32 (phys s) (ts ! (n div 1024) + 4 * of_nat (n mod 1024))"
    using space_built_tables [OF built i] space_built_chunk_ok(2) [OF built]
    by (simp add: chunk_lookup_def paging_get_page [OF n] entry_addr_def)
  ultimately show ?thesis
    using built i by (simp add: space_built_def)
qed

text \<open>Freeing an address space: round \<open>i\<close> of the loop releases table \<open>i\<close>.\<close>

definition tables_freed :: "'a kheap_scheme \<Rightarrow> ptr \<Rightarrow> ptr \<Rightarrow> ptr list \<Rightarrow> 'a kheap_scheme \<Rightarrow> 'a kheap_scheme \<Rightarrow> bool" where
  "tables_freed s0 chunk dir ts s u \<longleftrightarrow>
     kheap_inv u \<and> kheap_live u = (\<lambda>p. (p, 4096)) ` set (chunk # dir # ts) \<union> kheap_live s0 \<and>
     (\<forall>x. in_region chunk 4096 x \<or> in_region dir 4096 x \<longrightarrow> phys u x = phys s x) \<and>
     (\<forall>q l x. (q, l) \<in> kheap_live s0 \<longrightarrow> in_region q l x \<longrightarrow> phys u x = phys s0 x)"

lemma free_table_step:
  assumes built: "space_built s0 flags chunk dir ts s" and i: "i < 1024"
    and freed: "tables_freed s0 chunk dir (drop i ts) s u"
  shows "tables_freed s0 chunk dir (drop (Suc i) ts) s (free_table chunk i u)"
proof -
  have len: "length ts = 1024" and dist: "distinct (chunk # dir # ts)"
    using built by (simp_all add: space_built_def)
  have old: "(p, l) \<notin> kheap_live s0" if "p \<in> set ts" for p l
    using built that by (simp add: space_built_def)
  have same: "phys u x = phys s x" if "in_region chunk 4096 x \<or> in_region dir 4096 x" for x
    using freed that unfolding tables_freed_def by blast
  have "load32 (phys u) chunk = dir"
    using load32_word_in [OF page_word, of chunk "phys u" "phys s"] same
      space_built_chunk_ok(2) [OF built] by simp
  moreover have "load32 (phys u) (dir + 4 * of_nat i) = load32 (phys s) (dir + 4 * of_nat i)"
    using same by (intro load32_word_in [OF table_word [OF i]]) simp
  ultimately have step: "free_table chunk i u = kfree (ts ! i) u"
    using space_built_tables [OF built i] by (simp add: free_table_def dir_table_def)
  define S where "S = set (chunk # dir # drop (Suc i) ts)"
  have drop: "drop i ts = ts ! i # drop (Suc i) ts" using i len by (simp add: Cons_nth_drop_Suc)
  have "ts ! i \<notin> set (drop (Suc i) ts)" using dist drop distinct_drop [of ts i] by simp
  then have fresh: "ts ! i \<notin> S" using dist i len unfolding S_def by auto
  have liveu: "kheap_live u = (\<lambda>p. (p, 4096)) ` insert (ts ! i) S \<union> kheap_live s0"
    using freed unfolding tables_freed_def drop S_def by auto
  have oldi: "\<And>l. (ts ! i, l) \<notin> kheap_live s0" using old i len by simp
  have "kheap_inv u" using freed by (simp add: tables_freed_def)
  note k = free_live_page [OF this liveu fresh oldi]
  have "phys (kfree (ts ! i) u) x = phys s x" if "in_region chunk 4096 x \<or> in_region dir 4096 x" for x
    using k(3) [of chunk 4096 x] k(3) [of dir 4096 x] that same by (auto simp: S_def)
  moreover have "phys (kfree (ts ! i) u) x = phys s0 x"
    if "(q, l) \<in> kheap_live s0" "in_region q l x" for q l x
    using k(3) [of q l x] that freed unfolding tables_freed_def by simp
  ultimately show ?thesis
    using k(1,2) unfolding step tables_freed_def S_def by blast
qed

lemma free_tables_loop:
  assumes inv: "kheap_inv s0" and built: "space_built s0 flags chunk dir ts s"
  shows "i \<le> 1024 \<Longrightarrow> tables_freed s0 chunk dir (drop i ts) s (fold (free_table chunk) [0..<i] s)"
proof (induction i)
  case 0
  have "\<forall>q l x. (q, l) \<in> kheap_live s0 \<longrightarrow> in_region q l x \<longrightarrow> phys s x = phys s0 x"
    using space_built_kept [OF inv built] by blast
  then show ?case using built by (simp add: tables_freed_def space_built_def)
next
  case (Suc i)
  then show ?case using free_table_step [OF built, of i] by simp
qed

lemma paging_free_built:
  assumes inv: "kheap_inv s0" and built: "space_built s0 flags chunk dir ts s"
  defines "u \<equiv> paging_free_4gb chunk s"
  shows "kheap_inv u" and "kheap_live u = kheap_live s0"
    and "\<And>q l x. (q, l) \<in> kheap_live s0 \<Longrightarrow> in_region q l x \<Longrightarrow> phys u x = phys s0 x"
proof -
  let ?u1 = "fold (free_table chunk) [0..<1024] s"
  have freed: "tables_freed s0 chunk dir [] s ?u1"
    using free_tables_loop [OF inv built, of 1024] built by (simp add: space_built_def)
  have dist: "chunk \<noteq> dir" and old: "\<And>l. (chunk, l) \<notin> kheap_live s0" "\<And>l. (dir, l) \<notin> kheap_live s0"
    using built by (simp_all add: space_built_def)
  have "load32 (phys ?u1) chunk = dir"
    using load32_word_in [OF page_word, of chunk "phys ?u1" "phys s"] freed
      space_built_chunk_ok(2) [OF built] by (simp add: tables_freed_def)
  then have u: "u = kfree chunk (kfree dir ?u1)"
    by (simp add: u_def paging_free_4gb_def)
  have live1: "kheap_live ?u1 = (\<lambda>p. (p, 4096)) ` insert dir {chunk} \<union> kheap_live s0"
    using freed by (auto simp: tables_freed_def)
  have inv1: "kheap_inv ?u1" using freed by (simp add: tables_freed_def)
  have "dir \<notin> {chunk}" using dist by simp
  note k2 = free_live_page [OF inv1 live1 this old(2)]
  have live2: "kheap_live (kfree dir ?u1) = (\<lambda>p. (p, 4096)) ` insert chunk {} \<union> kheap_live s0"
    using k2(2) by simp
  note k3 = free_live_page [OF k2(1) live2 _ old(1), simplified]
  show "kheap_inv u" "kheap_live u = kheap_live s0" unfolding u using k3(1,2) by simp_all
  fix q l x
  assume q: "(q, l) \<in> kheap_live s0" "in_region q l x"
  then have "phys u x = phys ?u1 x" unfolding u using k3(3) [OF q] k2(3) [of q l x] by simp
  then show "phys u x = phys s0 x" using freed q by (simp add: tables_freed_def)
qed

lemma map_range_pages:
  assumes "chunk_ok chunk m" and "n + k \<le> 2 ^ 20" and "q + k \<le> 2 ^ 20"
  shows "case paging_map_range chunk (page_addr n) (page_addr q) (of_nat k) flags m of (res, m') \<Rightarrow>
    res = 0 \<and> chunk_ok chunk m' \<and>
    (\<forall>i < 2 ^ 20. chunk_lookup chunk (page_addr i) m' =
       (if n \<le> i \<and> i < n + k then page_addr (q + (i - n)) OR flags
        else chunk_lookup chunk (page_addr i) m))"
proof -
  have "k < 2 ^ 31" using assms(2) by simp
  then have "paging_map_range chunk (page_addr n) (page_addr q) (of_nat k) flags m =
      (0, map_pages (paging_map chunk) k n q flags m)"
    using map_range_loop_eq [of k chunk m 0 n q flags] assms by (simp add: paging_map_range_def)
  then show ?thesis
    using chunk_map.map_pages_correct [OF assms, of 0 flags] chunk_map.map_pages_correct [OF assms, of _ flags] by simp
qed

lemma paging_map_to_pages:
  assumes "chunk_ok chunk m" and "q \<le> r" and "r < 2 ^ 20" and "n + (r - q) \<le> 2 ^ 20" and "n < 2 ^ 20"
  shows "paging_map_to chunk (page_addr n) (page_addr q) (page_addr r) flags m =
    (0, map_pages (paging_map chunk) (r - q) n q flags m)"
proof -
  have q: "q < 2 ^ 20" using assms(2,3) by linarith
  have "unat (page_addr r - page_addr q) = 4096 * (r - q)"
    using assms(2) unat_page_addr [OF q] unat_page_addr [OF assms(3)] by (simp add: unat_sub_if' diff_mult_distrib2)
  then have pages: "(page_addr r - page_addr q) div paging_page_size = of_nat (r - q)"
    by (intro unat_eq_of_nat) (simp add: unat_div_distrib paging_page_size_def)
  have "\<not> page_addr r < page_addr q"
    using assms(2) unat_page_addr [OF q] unat_page_addr [OF assms(3)] by (simp add: word_less_nat_alt)
  then have "paging_map_to chunk (page_addr n) (page_addr q) (page_addr r) flags m =
      paging_map_range chunk (page_addr n) (page_addr q) (of_nat (r - q)) flags m"
    using page_addr_aligned [OF assms(5)] page_addr_aligned [OF q] page_addr_aligned [OF assms(3)]
    by (simp add: paging_map_to_def mod_page_size pages del: page_addr_aligned of_nat_diff)
  moreover have "r - q < 2 ^ 31" "q + (r - q) \<le> 2 ^ 20" using assms(2,3) by simp_all
  ultimately show ?thesis
    using map_range_loop_eq [of "r - q" chunk m 0 n q flags] assms(1,4) by (simp add: paging_map_range_def)
qed

text \<open>Nothing but memory changes.\<close>

lemma new_tables_memory:
  "memory_only s (snd (fold (new_table directory flags) is (offset, s)))"
proof (induction "is" arbitrary: offset s)
  case (Cons i "is")
  obtain o' s' where n: "new_table directory flags i (offset, s) = (o', s')"
    by (cases "new_table directory flags i (offset, s)")
  then have "memory_only s s'"
    by (auto simp: new_table_def Let_def memory_only_kzalloc split: prod.splits)
  from memory_only_trans [OF this Cons.IH [of s' o']] n show ?case by simp
qed simp

lemma paging_new_4gb_memory: "paging_new_4gb flags s = (chunk, s') \<Longrightarrow> memory_only s s'"
  unfolding paging_new_4gb_def Let_def
  by (auto split: prod.splits dest!: memory_only_kzalloc)
     (metis memory_only_trans new_tables_memory snd_conv)

text \<open>Rounding up to a page.\<close>

lemma unat_paging_align_address:
  "unat (paging_align_address p) =
     (if unat p \<le> 4294963200 then 4096 * ((unat p + 4095) div 4096) else 0)"
proof -
  have "paging_align_address p = heap_align_value_to_upper p"
    by (simp add: paging_align_address_def heap_align_value_to_upper_def paging_page_size_def
        heap_block_size_def algebra_simps)
  then show ?thesis by (simp add: heap_align_value_to_upper_eq)
qed

lemma paging_align_address_page:
  assumes "q + (unat k + 4095) div 4096 < 2 ^ 20"
  shows "paging_align_address (page_addr q + k) = page_addr (q + (unat k + 4095) div 4096)"
proof -
  have "unat k + 4095 = 4096 * ((unat k + 4095) div 4096) + (unat k + 4095) mod 4096" by simp
  moreover have "(unat k + 4095) mod 4096 < 4096" by simp
  moreover have "q + (unat k + 4095) div 4096 < 1048576" using assms by simp
  ultimately have "4096 * q + unat k \<le> 4294963200" by linarith
  moreover have "q < 2 ^ 20" using assms by linarith
  ultimately have "unat (page_addr q + k) = 4096 * q + unat k"
    by (simp add: unat_word_ariths unat_page_addr)
  moreover have "(4096 * q + unat k + 4095) div 4096 = q + (unat k + 4095) div 4096"
    by (simp add: add.assoc)
  ultimately show ?thesis
    using \<open>4096 * q + unat k \<le> 4294963200\<close> assms
    by (simp add: word_unat_eq_iff unat_paging_align_address unat_page_addr)
qed

section \<open>Properties\<close>

text \<open>C16. \<open>paging_new_4gb\<close>, when 1026 pages are free, returns a chunk of a usable address space
  that maps every one of the \<open>2 ^ 20\<close> pages to itself with the given flags; the heap
  invariant is kept, exactly 1026 pages are used, and every block that was live keeps its
  contents.\<close>

theorem paging_new_4gb_identity:
  assumes "kheap_inv s" and "1026 \<le> kheap_pages s" and "paging_new_4gb flags s = (chunk, s')"
  shows "chunk_ok chunk (phys s') \<and> kheap_inv s' \<and> kheap_pages s' + 1026 = kheap_pages s \<and>
    (\<forall>v. paging_is_aligned v \<longrightarrow>
       paging_get (paging_4gb_chunk_get_directory chunk (phys s')) v (phys s') = v OR ucast flags) \<and>
    (\<forall>(q, l) \<in> kheap_live s. \<forall>x. in_region q l x \<longrightarrow> phys s' x = phys s x)"
proof -
  obtain dir ts where built: "space_built s flags chunk dir ts s'"
    using paging_new_4gb_built [OF assms(1,2), of flags] assms(3) by auto
  have "paging_get (paging_4gb_chunk_get_directory chunk (phys s')) v (phys s') = v OR ucast flags"
    if al: "paging_is_aligned v" for v
  proof -
    from al obtain n where n: "n < 2 ^ 20" and v: "v = page_addr n"
      unfolding aligned_page_addr by blast
    from space_built_lookup [OF built n] show ?thesis
      by (simp add: v chunk_lookup_def paging_4gb_chunk_get_directory_def)
  qed
  with space_built_chunk_ok(1) [OF built] space_built_kept [OF assms(1) built] built show ?thesis
    unfolding space_built_def by blast
qed

theorem paging_new_4gb_identity_witness:
  "chunk_ok (fst (paging_new_4gb 7 (kheap_init cold_kernel)))
     (phys (snd (paging_new_4gb 7 (kheap_init cold_kernel))))"
  using paging_new_4gb_identity [OF kheap_init_inv, of cold_kernel 7] by simp

text \<open>C17. An address space is released as it was built: after \<open>paging_new_4gb\<close> and
  \<open>paging_free_4gb\<close> the set of live blocks is the one before, and their contents are
  unchanged: nothing leaks and nothing is freed twice.\<close>

theorem paging_free_4gb_roundtrip:
  assumes "kheap_inv s" and "1026 \<le> kheap_pages s" and "paging_new_4gb flags s = (chunk, s')"
  shows "kheap_inv (paging_free_4gb chunk s') \<and>
    kheap_live (paging_free_4gb chunk s') = kheap_live s \<and>
    (\<forall>(q, l) \<in> kheap_live s. \<forall>x. in_region q l x \<longrightarrow> phys (paging_free_4gb chunk s') x = phys s x)"
proof -
  obtain dir ts where built: "space_built s flags chunk dir ts s'"
    using paging_new_4gb_built [OF assms(1,2), of flags] assms(3) by auto
  from paging_free_built [OF assms(1) built] show ?thesis by blast
qed

theorem paging_free_4gb_roundtrip_witness:
  "kheap_live (paging_free_4gb (fst (paging_new_4gb 7 (kheap_init cold_kernel)))
     (snd (paging_new_4gb 7 (kheap_init cold_kernel)))) = {}"
  using paging_free_4gb_roundtrip [OF kheap_init_inv, of cold_kernel 7] by simp

text \<open>\<open>paging_set\<close> and \<open>paging_get\<close> are the update and the lookup of a map from pages to
  entries: after setting the entry of one aligned address, \<open>paging_get\<close> returns the new value
  there and the old one at every other aligned address, and the directory stays usable.\<close>

theorem paging_set_get:
  assumes "space_ok dir m" and "paging_is_aligned v" and "paging_is_aligned w"
  shows "case paging_set dir v val m of (res, m') \<Rightarrow>
    res = 0 \<and> space_ok dir m' \<and> paging_get dir w m' = (if w = v then val else paging_get dir w m)"
proof -
  from assms(2,3) obtain n k where n: "n < 2 ^ 20" "v = page_addr n" and k: "k < 2 ^ 20" "w = page_addr k"
    unfolding aligned_page_addr by blast
  show ?thesis
    using space_ok_set [OF assms(1) n(1)] load_entry_set [OF assms(1) n(1) k(1)]
    by (auto simp: n(2) k(2) paging_set_page [OF n(1)] paging_get_page [OF k(1)]
        entry_addr_set [OF assms(1) n(1) k(1)] page_addr_inj [OF n(1) k(1)] page_addr_inj [OF k(1) n(1)])
qed

text \<open>A directory at 4 MiB whose tables follow it, for the witnesses.\<close>

definition sample_dir :: mem where
  "sample_dir = fill_words 0x400000 (\<lambda>i. of_nat (4096 * (i + 1025)) OR 3) 1024 (\<lambda>_. 0)"

lemma sample_dir_table:
  assumes "i < 1024"
  shows "dir_table sample_dir 0x400000 i = of_nat (4096 * (i + 1025))"
proof -
  have "(of_nat (4096 * (i + 1025)) :: u32) AND 0xFFF = 0"
    using low12_mod [of "of_nat (4096 * (i + 1025))"] assms
    by (simp add: word_unat_eq_iff del: of_nat_mult of_nat_add)
  then have "(of_nat (4096 * (i + 1025)) OR 3) AND 0xFFFFF000 = (of_nat (4096 * (i + 1025)) :: u32)"
    by (rule page_or) simp
  then show ?thesis
    using assms load32_fill_words [of 1024 i "0x400000"] by (simp add: sample_dir_def dir_table_def)
qed

lemma sample_dir_ok: "space_ok 0x400000 sample_dir"
proof -
  have pages: "apart (0 + of_nat (4096 * a)) (of_nat 4096) (0 + of_nat (4096 * b)) (of_nat 4096)"
    if "a \<noteq> b" "a < 4096" "b < 4096" for a b
    using that by (intro apart_offsets) auto
  have "apart 0x400000 4096 (of_nat (4096 * (i + 1025))) 4096" if "i < 1024" for i
    using pages [of 1024 "i + 1025"] that by simp
  moreover have "apart (of_nat (4096 * (i + 1025))) 4096 (of_nat (4096 * (j + 1025))) 4096"
    if "i < 1024" "j < 1024" "i \<noteq> j" for i j
    using pages [of "i + 1025" "j + 1025"] that by simp
  ultimately show ?thesis
    by (simp add: space_ok_def sample_dir_table del: of_nat_mult of_nat_add)
qed

theorem paging_set_get_witness:
  "paging_get 0x400000 0x3000 (snd (paging_set 0x400000 0x3000 0x5007 sample_dir)) = 0x5007"
proof -
  have "paging_is_aligned 0x3000" by (simp add: paging_is_aligned_def paging_page_size_def)
  from paging_set_get [OF sample_dir_ok this this, of "0x5007"] show ?thesis
    by (simp add: case_prod_beta)
qed

text \<open>\<open>paging_map_range\<close> maps \<open>count\<close> pages in order: it returns 0, the page \<open>n + i\<close> then leads
  to the frame \<open>q + i\<close> with the flags, every other page keeps its entry, and the chunk stays
  usable.\<close>

theorem paging_map_range_correct:
  assumes "chunk_ok chunk m" and "n + k \<le> 2 ^ 20" and "q + k \<le> 2 ^ 20"
  shows "case paging_map_range chunk (page_addr n) (page_addr q) (of_nat k) flags m of (res, m') \<Rightarrow>
    res = 0 \<and> chunk_ok chunk m' \<and>
    (\<forall>i < 2 ^ 20. chunk_lookup chunk (page_addr i) m' =
       (if n \<le> i \<and> i < n + k then page_addr (q + (i - n)) OR flags
        else chunk_lookup chunk (page_addr i) m))"
  by (rule map_range_pages [OF assms])

text \<open>The chunk word of the sample directory, at \<open>0x3FF000\<close>.\<close>

definition sample_chunk :: mem where
  "sample_chunk = store32 sample_dir 0x3FF000 0x400000"

lemma sample_pages_apart:
  assumes "a \<noteq> b" "a < 4096" "b < 4096"
  shows "apart (of_nat (4096 * a)) 4096 (of_nat (4096 * b)) 4096"
proof -
  have "apart (0 + of_nat (4096 * a)) (of_nat 4096) (0 + of_nat (4096 * b)) (of_nat 4096)"
    using assms by (intro apart_offsets) auto
  then show ?thesis by simp
qed

lemma sample_chunk_table:
  assumes "i < 1024"
  shows "dir_table sample_chunk 0x400000 i = of_nat (4096 * (i + 1025))"
    and "load32 sample_chunk (0x400000 + 4 * of_nat i) = of_nat (4096 * (i + 1025)) OR 3"
proof -
  have "sample_chunk x = sample_dir x" if "in_region 0x400000 4096 x" for x
  proof -
    have "apart 0x400000 4096 0x3FF000 4096" using sample_pages_apart [of 1024 1023] by simp
    then have "\<not> in_region 0x3FF000 4096 x" using apart_not_in2 that by blast
    then have "\<not> in_region 0x3FF000 4 x" using page_word by (auto simp: word_in_def)
    then show ?thesis by (simp add: sample_chunk_def store32_other)
  qed
  then have w: "load32 sample_chunk (0x400000 + 4 * of_nat i) = load32 sample_dir (0x400000 + 4 * of_nat i)"
    by (rule load32_word_in [OF table_word [OF assms]])
  then show "dir_table sample_chunk 0x400000 i = of_nat (4096 * (i + 1025))"
    using sample_dir_table [OF assms] by (simp add: dir_table_def)
  show "load32 sample_chunk (0x400000 + 4 * of_nat i) = of_nat (4096 * (i + 1025)) OR 3"
    using assms w load32_fill_words [of 1024 i "0x400000"] by (simp add: sample_dir_def)
qed

lemma sample_chunk_ok: "chunk_ok 0x3FF000 sample_chunk"
proof -
  have "apart (of_nat (4096 * (i + 1025))) 4096 0x3FF000 4" if "i < 1024" for i
    using apart_subregion [OF sample_pages_apart [of "i + 1025" 1023], of 4096 4] that by simp
  moreover have "load32 sample_chunk 0x3FF000 = 0x400000" by (simp add: sample_chunk_def)
  ultimately show ?thesis
    using sample_dir_ok
    by (simp add: chunk_ok_def space_ok_def sample_chunk_table sample_dir_table del: of_nat_mult of_nat_add)
qed

theorem paging_map_range_correct_witness:
  "fst (paging_map_range 0x3FF000 (page_addr 5) (page_addr 9) 3 7 sample_chunk) = 0"
  using paging_map_range_correct [OF sample_chunk_ok, of 5 3 9 7] by (simp add: case_prod_beta)

text \<open>\<open>paging_map_to\<close> returns \<open>-EINVARG\<close> and changes nothing when one of its three addresses is
  not a page address or the range is empty backwards; otherwise it maps exactly the pages of
  \<open>[physical, physical_end)\<close>.\<close>

theorem paging_map_to_correct:
  assumes "chunk_ok chunk m"
  shows "(\<not> paging_is_aligned v \<or> \<not> paging_is_aligned p \<or> \<not> paging_is_aligned p_end \<or> p_end < p \<longrightarrow>
      paging_map_to chunk v p p_end flags m = (- einvarg, m)) \<and>
    (\<forall>n q r. v = page_addr n \<and> p = page_addr q \<and> p_end = page_addr r \<and> q \<le> r \<and> r < 2 ^ 20 \<and>
        n + (r - q) \<le> 2 ^ 20 \<and> n < 2 ^ 20 \<longrightarrow>
      (\<exists>m'. paging_map_to chunk v p p_end flags m = (0, m') \<and> chunk_ok chunk m' \<and>
        (\<forall>i < 2 ^ 20. chunk_lookup chunk (page_addr i) m' =
          (if n \<le> i \<and> i < n + (r - q) then page_addr (q + (i - n)) OR flags
           else chunk_lookup chunk (page_addr i) m))))"
proof (intro conjI allI impI)
  assume "\<not> paging_is_aligned v \<or> \<not> paging_is_aligned p \<or> \<not> paging_is_aligned p_end \<or> p_end < p"
  then show "paging_map_to chunk v p p_end flags m = (- einvarg, m)"
    by (auto simp: paging_map_to_def mod_page_size)
next
  fix n q r
  assume a: "v = page_addr n \<and> p = page_addr q \<and> p_end = page_addr r \<and> q \<le> r \<and> r < 2 ^ 20 \<and>
    n + (r - q) \<le> 2 ^ 20 \<and> n < 2 ^ 20"
  then have v: "v = page_addr n" "p = page_addr q" "p_end = page_addr r"
    and range: "q \<le> r" "r < 2 ^ 20" "n + (r - q) \<le> 2 ^ 20" "n < 2 ^ 20"
    by blast+
  have to: "paging_map_to chunk v p p_end flags m =
      (0, map_pages (paging_map chunk) (r - q) n q flags m)"
    unfolding v by (rule paging_map_to_pages [OF assms range])
  have "n + (r - q) \<le> 2 ^ 20" "q + (r - q) \<le> 2 ^ 20" using a by linarith+
  note mp = chunk_map.map_pages_correct [OF assms this, of _ flags]
  show "\<exists>m'. paging_map_to chunk v p p_end flags m = (0, m') \<and> chunk_ok chunk m' \<and>
      (\<forall>i < 2 ^ 20. chunk_lookup chunk (page_addr i) m' =
        (if n \<le> i \<and> i < n + (r - q) then page_addr (q + (i - n)) OR flags
         else chunk_lookup chunk (page_addr i) m))"
    unfolding to using mp mp [of 0] by auto
qed

theorem paging_map_to_correct_witness:
  "paging_map_to 0x3FF000 0x1001 0x2000 0x3000 7 sample_chunk = (- einvarg, sample_chunk)"
proof -
  have "\<not> paging_is_aligned 0x1001" by (simp add: paging_is_aligned_def paging_page_size_def)
  with paging_map_to_correct [OF sample_chunk_ok, of "0x1001" "0x2000" "0x3000" 7] show ?thesis
    by blast
qed

text \<open>\<open>paging_align_address\<close> rounds up to the least page address not below its argument; only
  the last, partial page of the address space wraps to 0.\<close>

theorem paging_align_address_least:
  "paging_is_aligned (paging_align_address p) \<and>
   (unat p \<le> 2 ^ 32 - 4096 \<longrightarrow> p \<le> paging_align_address p \<and>
      (\<forall>q. paging_is_aligned q \<and> p \<le> q \<longrightarrow> paging_align_address p \<le> q)) \<and>
   (2 ^ 32 - 4096 < unat p \<longrightarrow> paging_align_address p = 0)"
proof -
  note up = unat_paging_align_address [of p]
  have "unat (paging_align_address p) \<le> unat q"
    if "unat p \<le> 4294963200" "unat q mod 4096 = 0" "unat p \<le> unat q" for q :: ptr
  proof -
    from that(2) obtain k where k: "unat q = 4096 * k"
      unfolding mod_eq_0_iff_dvd by (rule dvdE)
    then have "(unat p + 4095) div 4096 \<le> k" using that(3) by linarith
    then show ?thesis using up that(1) k by simp
  qed
  then show ?thesis
    using up by (auto simp: aligned_iff word_le_nat_alt word_unat_eq_iff)
qed

theorem paging_align_address_least_witness: "paging_align_address 0x1001 \<le> 0x2000"
proof -
  have "paging_is_aligned 0x2000" by (simp add: paging_is_aligned_def paging_page_size_def)
  with paging_align_address_least [of "0x1001"] show ?thesis by simp
qed

end
