(* ===== verification/Disk.thy ===== *)
theory Disk
  imports Paging
begin

text \<open>
  \<open>src/disk/disk.c\<close>: reading sectors of the primary ATA disk by programmed I/O. The device
  behind the ports is not code of the repository: its state is the type parameter \<open>'d\<close> and
  the three port instructions of \<open>src/io/io.asm\<close> are the fields of a record \<open>ports\<close>, an
  argument of every operation. \<open>ata\<close> states the documented behaviour of an ATA disk the
  reads rely on; \<open>image_ports\<close> is a concrete device that has it.
\<close>

section \<open>Data\<close>

text \<open>The struct and the global of the same name; \<open>filesystem\<close> and \<open>fs_private\<close> are addresses.\<close>

record disk =
  disk_type :: u32
  sector_size :: i32
  disk_id :: i32
  disk_filesystem :: ptr
  fs_private :: ptr

record 'd disk_io = paging +
  device :: 'd
  the_disk :: disk

text \<open>The port instructions, and the address the linker gives the global \<open>disk\<close>.\<close>

record 'd ports =
  p_insb :: "u16 \<Rightarrow> 'd \<Rightarrow> u8 \<times> 'd"
  p_insw :: "u16 \<Rightarrow> 'd \<Rightarrow> u16 \<times> 'd"
  p_outb :: "u16 \<Rightarrow> u8 \<Rightarrow> 'd \<Rightarrow> 'd"
  disk_addr :: ptr

definition lameos_disk_type_real :: u32 where "lameos_disk_type_real = 0"
definition lameos_sector_size :: i32 where "lameos_sector_size = 512"

section \<open>Operations\<close>

text \<open>\<open>char c = insb (0x1F7); while (!(c & 0x08)) c = insb (0x1F7);\<close>\<close>

partial_function (option) disk_wait :: "'d ports \<Rightarrow> 'd \<Rightarrow> 'd option" where
  "disk_wait io d =
     (let (c, d') = p_insb io 0x1F7 d in if c AND 0x08 = 0 then disk_wait io d' else Some d')"

fun read_words :: "'d ports \<Rightarrow> nat \<Rightarrow> ptr \<Rightarrow> mem \<Rightarrow> 'd \<Rightarrow> ptr \<times> mem \<times> 'd" where
  "read_words io 0 p m d = (p, m, d)"
| "read_words io (Suc k) p m d =
     (let (w, d') = p_insw io 0x1F0 d in read_words io k (p + 2) (store16 m p w) d')"

fun read_sectors :: "'d ports \<Rightarrow> nat \<Rightarrow> ptr \<Rightarrow> mem \<Rightarrow> 'd \<Rightarrow> (mem \<times> 'd) option" where
  "read_sectors io 0 p m d = Some (m, d)"
| "read_sectors io (Suc k) p m d = do {
     d1 \<leftarrow> disk_wait io d;
     let (p', m', d2) = read_words io 256 p m d1;
     read_sectors io k p' m' d2
   }"

definition disk_read_sector ::
  "'d ports \<Rightarrow> i32 \<Rightarrow> i32 \<Rightarrow> ptr \<Rightarrow> ('d, 'a) disk_io_scheme \<Rightarrow> (i32 \<times> ('d, 'a) disk_io_scheme) option" where
  "disk_read_sector io lba total_sectors buf s = do {
     let d1 = p_outb io 0x1F6 (ucast (signed_drop_bit 24 lba OR 0xE0)) (device s);
     let d2 = p_outb io 0x1F2 (ucast total_sectors) d1;
     let d3 = p_outb io 0x1F3 (ucast (lba AND 0xFF)) d2;
     let d4 = p_outb io 0x1F4 (ucast (signed_drop_bit 8 lba)) d3;
     let d5 = p_outb io 0x1F5 (ucast (signed_drop_bit 16 lba)) d4;
     let d6 = p_outb io 0x1F7 0x20 d5;
     (m, d7) \<leftarrow> read_sectors io (nat (sint total_sectors)) buf (phys s) d6;
     Some (0, s\<lparr>phys := m, device := d7\<rparr>)
   }"

definition disk_get :: "'d ports \<Rightarrow> i32 \<Rightarrow> ptr" where
  "disk_get io index = (if index \<noteq> 0 then 0 else disk_addr io)"

definition disk_read_block ::
  "'d ports \<Rightarrow> ptr \<Rightarrow> u32 \<Rightarrow> i32 \<Rightarrow> ptr \<Rightarrow> ('d, 'a) disk_io_scheme \<Rightarrow> (i32 \<times> ('d, 'a) disk_io_scheme) option" where
  "disk_read_block io idisk lba total_sectors buf s =
     (if idisk \<noteq> disk_addr io then Some (- eio, s) else disk_read_sector io lba total_sectors buf s)"

section \<open>An ATA disk\<close>

text \<open>What the reads rely on, over a view of the device: \<open>regs\<close> are the task file registers,
  \<open>pending\<close> the words the device has ready, \<open>polls\<close> a bound on the status reads until it sets
  the data request bit, and \<open>img\<close> the bytes of the disk.\<close>

definition lba28 :: "(u16 \<Rightarrow> u8) \<Rightarrow> nat" where
  "lba28 r = unat (r 0x1F3) + 2 ^ 8 * unat (r 0x1F4) + 2 ^ 16 * unat (r 0x1F5)
     + 2 ^ 24 * (unat (r 0x1F6) mod 16)"

definition disk_word :: "(nat \<Rightarrow> u8) \<Rightarrow> nat \<Rightarrow> u16" where
  "disk_word img i = ucast (img (2 * i)) OR push_bit 8 (ucast (img (2 * i + 1)))"

fun disk_words :: "(nat \<Rightarrow> u8) \<Rightarrow> nat \<Rightarrow> nat \<Rightarrow> u16 list" where
  "disk_words img i 0 = []"
| "disk_words img i (Suc k) = disk_word img i # disk_words img (Suc i) k"

definition ata :: "'d ports \<Rightarrow> ('d \<Rightarrow> u16 \<Rightarrow> u8) \<Rightarrow> ('d \<Rightarrow> u16 list) \<Rightarrow> ('d \<Rightarrow> nat) \<Rightarrow> (nat \<Rightarrow> u8) \<Rightarrow> bool" where
  "ata io regs pending polls img \<longleftrightarrow>
     (\<forall>d p v. p \<in> {0x1F2, 0x1F3, 0x1F4, 0x1F5, 0x1F6} \<longrightarrow> regs (p_outb io p v d) = (regs d)(p := v)) \<and>
     (\<forall>d. regs d 0x1F2 \<noteq> 0 \<longrightarrow>
        pending (p_outb io 0x1F7 0x20 d) = disk_words img (256 * lba28 (regs d)) (256 * unat (regs d 0x1F2))) \<and>
     (\<forall>d c d'. pending d \<noteq> [] \<and> p_insb io 0x1F7 d = (c, d') \<longrightarrow>
        pending d' = pending d \<and> (c AND 0x08 = 0 \<longrightarrow> polls d' < polls d)) \<and>
     (\<forall>d w ws. pending d = w # ws \<longrightarrow> fst (p_insw io 0x1F0 d) = w \<and> pending (snd (p_insw io 0x1F0 d)) = ws)"

lemma ata_wait:
  assumes "ata io regs pending polls img"
  shows "pending d \<noteq> [] \<Longrightarrow> \<exists>d'. disk_wait io d = Some d' \<and> pending d' = pending d"
proof (induction "polls d" arbitrary: d rule: less_induct)
  case less
  obtain c d1 where i: "p_insb io 0x1F7 d = (c, d1)" by (cases "p_insb io 0x1F7 d")
  then have p: "pending d1 = pending d" and b: "c AND 0x08 = 0 \<longrightarrow> polls d1 < polls d"
    using assms less.prems unfolding ata_def by blast+
  show ?case
  proof (cases "c AND 0x08 = 0")
    case True
    with less.hyps [of d1] p b less.prems obtain d' where "disk_wait io d1 = Some d'" "pending d' = pending d"
      by auto
    with True i show ?thesis by (subst disk_wait.simps) simp
  next
    case False
    with i p show ?thesis by (subst disk_wait.simps) simp
  qed
qed

text \<open>The bytes of a run of words.\<close>

fun disk_bytes :: "(nat \<Rightarrow> u8) \<Rightarrow> nat \<Rightarrow> nat \<Rightarrow> u8 list" where
  "disk_bytes img i 0 = []"
| "disk_bytes img i (Suc k) = img i # disk_bytes img (Suc i) k"

lemma length_disk_bytes [simp]: "length (disk_bytes img i n) = n"
  by (induction img i n rule: disk_bytes.induct) simp_all

lemma nth_disk_bytes [simp]: "j < n \<Longrightarrow> disk_bytes img i n ! j = img (i + j)"
  by (induction img i n arbitrary: j rule: disk_bytes.induct) (auto simp: nth_Cons')

lemma disk_bytes_add: "disk_bytes img i (n + k) = disk_bytes img i n @ disk_bytes img (i + n) k"
  by (induction img i n rule: disk_bytes.induct) simp_all

lemma disk_words_add: "disk_words img i (n + k) = disk_words img i n @ disk_words img (i + n) k"
  by (induction img i n rule: disk_words.induct) simp_all

lemma store16_disk_word: "store16 m p (disk_word img i) = put_bytes p [img (2 * i), img (2 * i + 1)] m"
proof -
  have "(ucast (disk_word img i) :: u8) = img (2 * i)"
    and "(ucast (drop_bit 8 (disk_word img i)) :: u8) = img (2 * i + 1)"
    unfolding disk_word_def by (rule bit_word_eqI; auto simp: bit_simps dest: bit_imp_le_length)+
  then show ?thesis by (simp add: store16_def)
qed

lemma read_words_eq:
  assumes "ata io regs pending polls img"
  shows "pending d = disk_words img i k @ rest \<Longrightarrow>
    \<exists>d'. read_words io k p m d = (p + of_nat (2 * k), put_bytes p (disk_bytes img (2 * i) (2 * k)) m, d') \<and>
      pending d' = rest"
proof (induction k arbitrary: i p m d)
  case (Suc k)
  obtain w d1 where w: "p_insw io 0x1F0 d = (w, d1)" by (cases "p_insw io 0x1F0 d")
  have "pending d = disk_word img i # (disk_words img (Suc i) k @ rest)" using Suc.prems by simp
  then have "w = disk_word img i" "pending d1 = disk_words img (Suc i) k @ rest"
    using assms w unfolding ata_def by (metis fst_conv snd_conv)+
  note w1 = this
  define m1 where "m1 = store16 m p w"
  obtain d' where d': "read_words io k (p + 2) m1 d1 =
      (p + 2 + of_nat (2 * k), put_bytes (p + 2) (disk_bytes img (2 * Suc i) (2 * k)) m1, d')"
    "pending d' = rest"
    using Suc.IH [OF w1(2)] by blast
  have m1: "put_bytes (p + 2) bs m1 = put_bytes p (img (2 * i) # img (Suc (2 * i)) # bs) m" for bs
    by (simp add: m1_def w1(1) store16_disk_word add.assoc)
  have "read_words io (Suc k) p m d =
      (p + of_nat (2 * Suc k), put_bytes p (disk_bytes img (2 * i) (2 * Suc k)) m, d')"
    using w d'(1) by (simp add: m1_def [symmetric] m1 add.assoc)
  with d'(2) show ?case by blast
qed simp

lemma read_sectors_eq:
  assumes "ata io regs pending polls img"
  shows "pending d = disk_words img (256 * lba) (256 * k) \<Longrightarrow>
    \<exists>d'. read_sectors io k p m d = Some (put_bytes p (disk_bytes img (512 * lba) (512 * k)) m, d')"
proof (induction k arbitrary: lba p m d)
  case (Suc k)
  have split: "disk_words img (256 * lba) (256 * Suc k) =
      disk_words img (256 * lba) 256 @ disk_words img (256 * Suc lba) (256 * k)"
    using disk_words_add [of img "256 * lba" 256 "256 * k"] by (simp add: add.commute)
  have "disk_words img (256 * lba) 256 \<noteq> []" by (simp add: numeral_eq_Suc)
  then have "pending d \<noteq> []" using Suc.prems unfolding split by simp
  then obtain d1 where d1: "disk_wait io d = Some d1" "pending d1 = pending d"
    using ata_wait [OF assms] by blast
  then have "pending d1 = disk_words img (256 * lba) 256 @ disk_words img (256 * Suc lba) (256 * k)"
    using Suc.prems split by simp
  from read_words_eq [OF assms this, of p m] obtain d2 where
    d2: "read_words io 256 p m d1 = (p + 512, put_bytes p (disk_bytes img (512 * lba) 512) m, d2)"
      "pending d2 = disk_words img (256 * Suc lba) (256 * k)" by auto
  have "put_bytes p (disk_bytes img (512 * lba) (512 * Suc k)) m =
      put_bytes (p + 512) (disk_bytes img (512 * Suc lba) (512 * k)) (put_bytes p (disk_bytes img (512 * lba) 512) m)"
    using disk_bytes_add [of img "512 * lba" 512 "512 * k"]
    by (simp add: put_bytes_append add.commute)
  with Suc.IH [OF d2(2), of "p + 512"] d1(1) d2(1) show ?case by auto
qed simp

section \<open>Reading a sector\<close>

text \<open>The registers hold the block address and the count when the command is written.\<close>

lemma ucast_sdrop: "k \<le> 24 \<Longrightarrow> (ucast (signed_drop_bit k v) :: u8) = ucast (drop_bit k v)" for v :: i32
  by (rule bit_word_eqI) (auto simp: bit_simps)

lemma unat_byte: "unat (ucast (drop_bit k v) :: u8) = unat v div 2 ^ k mod 256" for v :: i32
  unfolding unsigned_ucast_eq unat_drop_bit_eq by (simp add: drop_bit_eq_div take_bit_eq_mod)

lemma unat_byte0: "unat (ucast (v AND 0xFF) :: u8) = unat v mod 256" for v :: i32
proof -
  have "v AND 0xFF = take_bit 8 v" by (simp add: take_bit_eq_mask mask_eq_exp_minus_1)
  then show ?thesis by (simp add: unsigned_ucast_eq take_bit_eq_mod unat_mod_distrib)
qed

lemma unat_drive: "unat (ucast (signed_drop_bit 24 v OR 0xE0) :: u8) mod 16 = unat v div 2 ^ 24 mod 16" for v :: i32
proof -
  have "(ucast (signed_drop_bit 24 v OR 0xE0) :: u8) = ucast (drop_bit 24 v) OR 0xE0"
    by (rule bit_word_eqI) (auto simp: bit_simps)
  moreover have "unat (x OR 0xE0) mod 16 = unat x mod 16" for x :: u8
  proof -
    have "take_bit 4 (x OR 0xE0) = take_bit 4 x" by (simp add: take_bit_or)
    then have "unat (take_bit 4 (x OR 0xE0)) = unat (take_bit 4 x)" by simp
    then show ?thesis by (simp add: take_bit_eq_mod unat_mod_distrib)
  qed
  ultimately show ?thesis by (simp add: unat_byte mod_mod_cancel)
qed

lemma join28: "lba < 2 ^ 28 \<Longrightarrow>
   lba mod 256 + 2 ^ 8 * (lba div 2 ^ 8 mod 256)
     + 2 ^ 16 * (lba div 2 ^ 16 mod 256) + 2 ^ 24 * (lba div 2 ^ 24 mod 16) = (lba::nat)"
proof -
  assume l: "lba < 2 ^ 28"
  define a b c where "a = lba div 2 ^ 8" and "b = a div 2 ^ 8" and "c = b div 2 ^ 8"
  have "lba div 2 ^ 16 = b" "lba div 2 ^ 24 = c"
    by (simp_all add: a_def b_def c_def flip: div_mult2_eq)
  moreover have "lba = 2 ^ 8 * a + lba mod 256" "a = 2 ^ 8 * b + a mod 256" "b = 2 ^ 8 * c + b mod 256" "lba div 2 ^ 8 = a"
    by (simp_all add: a_def b_def c_def)
  moreover have "c < 16" using l by (simp add: a_def b_def c_def flip: div_mult2_eq)
  ultimately show ?thesis by simp
qed

lemma disk_read_sector_eq:
  assumes dev: "ata io regs pending polls img" and lba: "lba < 2 ^ 28" and n: "0 < n" "n < 256"
  shows "\<exists>d. disk_read_sector io (of_nat lba) (of_nat n) buf s =
    Some (0, s\<lparr>phys := put_bytes buf (disk_bytes img (512 * lba) (512 * n)) (phys s), device := d\<rparr>)"
proof -
  define v :: i32 where "v = of_nat lba"
  have v: "unat v = lba" using lba unfolding v_def by (intro unat_of_nat_u32) simp
  define d5 where "d5 = p_outb io 0x1F5 (ucast (signed_drop_bit 16 v))
    (p_outb io 0x1F4 (ucast (signed_drop_bit 8 v)) (p_outb io 0x1F3 (ucast (v AND 0xFF))
      (p_outb io 0x1F2 (ucast (of_nat n :: i32)) (p_outb io 0x1F6 (ucast (signed_drop_bit 24 v OR 0xE0)) (device s)))))"
  have reg: "regs (p_outb io p b d) = (regs d)(p := b)" if "p \<in> {0x1F2, 0x1F3, 0x1F4, 0x1F5, 0x1F6}" for p b d
    using dev that unfolding ata_def by blast
  have cnt: "unat (ucast (of_nat n :: i32) :: u8) = n"
    using n(2) by (simp add: unsigned_ucast_eq take_bit_nat_eq_self)
  have "lba div 2 ^ 24 mod 16 = lba div 2 ^ 24" using lba by simp
  note join = join28 [OF lba] join28 [OF lba, unfolded this]
  have r: "regs d5 0x1F2 = ucast (of_nat n :: i32)" and a: "lba28 (regs d5) = lba"
    using join
    by (simp_all add: d5_def reg lba28_def ucast_sdrop unat_byte unat_byte0 unat_drive v)
  have "regs d5 0x1F2 \<noteq> 0" using cnt n(1) by (auto simp: r word_unat_eq_iff)
  with dev have "pending (p_outb io 0x1F7 0x20 d5) = disk_words img (256 * lba28 (regs d5)) (256 * unat (regs d5 0x1F2))"
    unfolding ata_def by blast
  then have "pending (p_outb io 0x1F7 0x20 d5) = disk_words img (256 * lba) (256 * n)"
    by (simp only: a r cnt)
  from read_sectors_eq [OF dev this, of buf "phys s"] obtain d' where
    "read_sectors io n buf (phys s) (p_outb io 0x1F7 0x20 d5) =
      Some (put_bytes buf (disk_bytes img (512 * lba) (512 * n)) (phys s), d')" by blast
  moreover have "nat (sint (of_nat n :: i32)) = n" using n(2) by (simp add: sint_of_nat_u32)
  ultimately have "disk_read_sector io v (of_nat n) buf s =
      Some (0, s\<lparr>phys := put_bytes buf (disk_bytes img (512 * lba) (512 * n)) (phys s), device := d'\<rparr>)"
    by (simp add: disk_read_sector_def d5_def)
  then show ?thesis unfolding v_def by blast
qed

section \<open>Properties\<close>

text \<open>A device that behaves as \<open>ata\<close> demands: it has data ready at the second status read.\<close>

record sample_device =
  s_regs :: "u16 \<Rightarrow> u8"
  s_pending :: "u16 list"
  s_polls :: nat

definition image_ports :: "(nat \<Rightarrow> u8) \<Rightarrow> sample_device ports" where
  "image_ports img = \<lparr>
     p_insb = (\<lambda>p d. (if s_polls d = 0 then 0x08 else 0, d\<lparr>s_polls := s_polls d - 1\<rparr>)),
     p_insw = (\<lambda>p d. case s_pending d of [] \<Rightarrow> (0, d) | w # ws \<Rightarrow> (w, d\<lparr>s_pending := ws\<rparr>)),
     p_outb = (\<lambda>p v d. if p = 0x1F7
       then d\<lparr>s_polls := 1,
              s_pending := disk_words img (256 * lba28 (s_regs d)) (256 * unat (s_regs d 0x1F2))\<rparr>
       else d\<lparr>s_regs := (s_regs d)(p := v)\<rparr>),
     disk_addr = 0x200000\<rparr>"

lemma image_ata: "ata (image_ports img) s_regs s_pending s_polls img"
  by (auto simp: ata_def image_ports_def split: if_splits)

definition sample_image :: "nat \<Rightarrow> u8" where
  "sample_image i = of_nat i"

abbreviation sample_ports :: "sample_device ports" where
  "sample_ports \<equiv> image_ports sample_image"

lemmas sample_ports_def = image_ports_def
lemmas sample_ata = image_ata [of sample_image]

definition disk_kernel :: "sample_device disk_io" where
  "disk_kernel = kheap.extend (kheap_init cold_kernel)
     \<lparr>current_directory = 0, cr0 = 0, cr3 = 0, device = \<lparr>s_regs = \<lambda>_. 0, s_pending = [], s_polls = 0\<rparr>,
      the_disk = \<lparr>disk_type = 0, sector_size = 512, disk_id = 0, disk_filesystem = 0, fs_private = 0\<rparr>\<rparr>"

text \<open>C20. \<open>disk_read_block\<close> on an ATA disk returns 0 with exactly the bytes of the requested sectors
  in the buffer and every other byte of memory unchanged, for any 28-bit block address and
  up to 255 sectors; the status loop ends. Any other disk object gives \<open>-EIO\<close> and no I/O.\<close>

theorem disk_read_block_correct:
  assumes "ata io regs pending polls img" and "lba < 2 ^ 28" and "0 < n" and "n < 256"
  shows "(idisk \<noteq> disk_addr io \<longrightarrow> disk_read_block io idisk (of_nat lba) (of_nat n) buf s = Some (- eio, s)) \<and>
    (idisk = disk_addr io \<longrightarrow> (\<exists>s'. disk_read_block io idisk (of_nat lba) (of_nat n) buf s = Some (0, s') \<and>
       (\<forall>i < 512 * n. phys s' (buf + of_nat i) = img (512 * lba + i)) \<and>
       (\<forall>x. \<not> in_region buf (of_nat (512 * n)) x \<longrightarrow> phys s' x = phys s x)))"
proof (intro conjI impI)
  assume "idisk = disk_addr io"
  moreover obtain d where "disk_read_sector io (of_nat lba) (of_nat n) buf s =
      Some (0, s\<lparr>phys := put_bytes buf (disk_bytes img (512 * lba) (512 * n)) (phys s), device := d\<rparr>)"
    using disk_read_sector_eq [OF assms, of buf s] by blast
  moreover have "length (disk_bytes img (512 * lba) (512 * n)) < 2 ^ 32" using assms(4) by simp
  ultimately show "\<exists>s'. disk_read_block io idisk (of_nat lba) (of_nat n) buf s = Some (0, s') \<and>
       (\<forall>i < 512 * n. phys s' (buf + of_nat i) = img (512 * lba + i)) \<and>
       (\<forall>x. \<not> in_region buf (of_nat (512 * n)) x \<longrightarrow> phys s' x = phys s x)"
    by (auto simp: disk_read_block_def put_bytes_nth put_bytes_out simp del: of_nat_mult)
qed (simp add: disk_read_block_def)

theorem disk_read_block_correct_witness:
  "\<exists>s'. disk_read_block sample_ports 0x200000 3 1 0x600 disk_kernel = Some (0, s') \<and>
     phys s' 0x601 = 1"
proof -
  have a: "disk_addr sample_ports = 0x200000" by (simp add: sample_ports_def)
  from disk_read_block_correct [OF sample_ata, of 3 1 "0x200000" "0x600" disk_kernel]
  obtain s' where s': "disk_read_block sample_ports 0x200000 3 1 0x600 disk_kernel = Some (0, s')"
    "\<forall>i < 512. phys s' (0x600 + of_nat i) = sample_image (1536 + i)"
    by (auto simp: a)
  from s'(2) [rule_format, of 1]
  have "phys s' 0x601 = 1" by (simp add: sample_image_def)
  with s'(1) show ?thesis by blast
qed

end
