(* ===== verification/Streamer.thy ===== *)
theory Streamer
  imports Disk
begin

text \<open>
  \<open>src/disk/streamer.c\<close>: byte streams over the disk. A \<open>struct disk_stream\<close> is two words in
  memory, the position and the address of the disk. The sector buffer of
  \<open>diskstreamer_read\<close> is a local array: \<open>frame k\<close> is its address in the \<open>k\<close>-th nested call, a
  choice of the compiler, and an access past its end reads the memory above it.
\<close>

section \<open>Operations\<close>

definition diskstreamer_new :: "'d ports \<Rightarrow> i32 \<Rightarrow> ('d, 'a) disk_io_scheme \<Rightarrow> ptr \<times> ('d, 'a) disk_io_scheme" where
  "diskstreamer_new io dsk_id s =
     (let dsk = disk_get io dsk_id
      in if dsk = 0 then (0, s)
         else
           let (streamer, s1) = kzalloc 8 s;
               m1 = store32 (phys s1) streamer 0;
               m2 = store32 m1 (streamer + 4) dsk
           in (streamer, s1\<lparr>phys := m2\<rparr>))"

definition diskstreamer_seek :: "ptr \<Rightarrow> i32 \<Rightarrow> 'a machine_scheme \<Rightarrow> i32 \<times> 'a machine_scheme" where
  "diskstreamer_seek stream pos s = (0, s\<lparr>phys := store32 (phys s) stream pos\<rparr>)"

text \<open>\<open>for (i = 0; i < total_to_read; i++) *(char *)out++ = buf[offset + i];\<close>\<close>

fun copy_out :: "ptr \<Rightarrow> ptr \<Rightarrow> nat \<Rightarrow> mem \<Rightarrow> mem" where
  "copy_out src out 0 m = m"
| "copy_out src out (Suc k) m = copy_out (src + 1) (out + 1) k (m(out := m src))"

function diskstreamer_read ::
  "'d ports \<Rightarrow> (nat \<Rightarrow> ptr) \<Rightarrow> nat \<Rightarrow> ptr \<Rightarrow> ptr \<Rightarrow> i32 \<Rightarrow> ('d, 'a) disk_io_scheme \<Rightarrow>
   (i32 \<times> ('d, 'a) disk_io_scheme) option" where
  "diskstreamer_read io frame k stream out sz s = do {
     let pos = load32 (phys s) stream;
     let sector = word_of_int (sint pos sdiv sint lameos_sector_size);
     let offset = word_of_int (sint pos smod sint lameos_sector_size);
     let buf = frame k;
     (res, s1) \<leftarrow> disk_read_block io (load32 (phys s) (stream + 4)) sector 1 buf s;
     if res <s 0 then Some (res, s1)
     else
       let total_to_read = (if lameos_sector_size <s sz then lameos_sector_size else sz);
           m1 = copy_out (buf + offset) out (nat (sint total_to_read)) (phys s1);
           m2 = store32 m1 stream (load32 m1 stream + total_to_read);
           s2 = s1\<lparr>phys := m2\<rparr>
       in if lameos_sector_size <s sz
          then diskstreamer_read io frame (Suc k) stream (out + lameos_sector_size) (sz - lameos_sector_size) s2
          else Some (res, s2)
   }"
  by pat_completeness auto
termination
proof (relation "measure (\<lambda>(io, frame, k, stream, out, sz, s). nat (sint sz))", simp, goal_cases)
  case (1 io frame k stream out sz s)
  then have "512 < sint sz" by (simp add: lameos_sector_size_def word_sless_alt)
  then have "sint (sz - 512) = sint sz - 512"
    using sint_range_u32 [of sz] by (subst sint_sub_u32) simp_all
  then show ?case using \<open>512 < sint sz\<close> by (simp add: lameos_sector_size_def)
qed

declare diskstreamer_read.simps [simp del]

definition diskstreamer_close :: "ptr \<Rightarrow> 'a kheap_scheme \<Rightarrow> 'a kheap_scheme" where
  "diskstreamer_close stream s = kfree stream s"

section \<open>One sector\<close>

lemma copy_out_eq:
  "\<lbrakk> n < 2 ^ 31; \<forall>i < n. \<forall>j < n. src + of_nat i \<noteq> out + of_nat j \<rbrakk> \<Longrightarrow>
   copy_out src out n m = put_bytes out (bytes_at m src n) m"
proof (induction n arbitrary: src out m)
  case (Suc n)
  define m1 where "m1 = m(out := m src)"
  have "src + 1 + of_nat i \<noteq> out + 1 + of_nat j" if "i < n" "j < n" for i j
    using Suc.prems(2) [rule_format, of "Suc i" "Suc j"] that by (simp add: add.assoc)
  then have "copy_out (src + 1) (out + 1) n m1 = put_bytes (out + 1) (bytes_at m1 (src + 1) n) m1"
    using Suc.prems(1) by (intro Suc.IH) auto
  also have "bytes_at m1 (src + 1) n = bytes_at m (src + 1) n"
  proof (rule bytes_at_cong)
    fix i assume "i < n"
    then have "src + of_nat (Suc i) \<noteq> out + of_nat 0" using Suc.prems(2) by blast
    then show "m1 (src + 1 + of_nat i) = m (src + 1 + of_nat i)" by (simp add: m1_def add.assoc)
  qed
  finally show ?case by (simp add: bytes_at_Suc m1_def [symmetric])
qed simp

lemma pos_split:
  assumes "p < 2 ^ 31"
  shows "word_of_int (sint (of_nat p :: i32) sdiv sint lameos_sector_size) = (of_nat (p div 512) :: i32)"
    and "word_of_int (sint (of_nat p :: i32) smod sint lameos_sector_size) = (of_nat (p mod 512) :: i32)"
proof -
  have "int p sdiv 512 = int (p div 512)" "int p smod 512 = int (p mod 512)"
    by (simp_all add: signed_divide_int_def signed_modulo_int_def sgn_if zdiv_int zmod_int minus_mult_div_eq_mod)
  with assms show "word_of_int (sint (of_nat p :: i32) sdiv sint lameos_sector_size) = (of_nat (p div 512) :: i32)"
    and "word_of_int (sint (of_nat p :: i32) smod sint lameos_sector_size) = (of_nat (p mod 512) :: i32)"
    by (simp_all add: sint_of_nat_u32 lameos_sector_size_def)
qed

text \<open>The memory after one sector: the buffer, the copied bytes and the position.\<close>

definition after_sector :: "(nat \<Rightarrow> u8) \<Rightarrow> ptr \<Rightarrow> ptr \<Rightarrow> ptr \<Rightarrow> nat \<Rightarrow> nat \<Rightarrow> mem \<Rightarrow> mem" where
  "after_sector img buf stream out p n m =
     (let m1 = put_bytes buf (disk_bytes img (512 * (p div 512)) 512) m;
          m2 = copy_out (buf + of_nat (p mod 512)) out n m1
      in store32 m2 stream (load32 m2 stream + of_nat n))"

lemma read_unfold:
  assumes dev: "ata io regs pending polls img"
    and dsk: "load32 (phys s) (stream + 4) = disk_addr io"
    and pos: "load32 (phys s) stream = of_nat p" "p < 2 ^ 31" and n: "n < 2 ^ 31"
  shows "\<exists>d. diskstreamer_read io frame k stream out (of_nat n) s =
    (if 512 < n then
       diskstreamer_read io frame (Suc k) stream (out + 512) (of_nat (n - 512))
         (s\<lparr>device := d, phys := after_sector img (frame k) stream out p 512 (phys s)\<rparr>)
     else Some (0, s\<lparr>device := d, phys := after_sector img (frame k) stream out p n (phys s)\<rparr>))"
proof -
  have "p div 512 < 2 ^ 28" using pos(2) by simp
  then obtain d where rd: "disk_read_sector io (of_nat (p div 512)) (of_nat 1) (frame k) s =
      Some (0, s\<lparr>phys := put_bytes (frame k) (disk_bytes img (512 * (p div 512)) (512 * 1)) (phys s), device := d\<rparr>)"
    using disk_read_sector_eq [OF dev, of "p div 512" 1 "frame k" s] by auto
  have lt: "lameos_sector_size <s (of_nat n :: i32) \<longleftrightarrow> 512 < n"
    using n by (simp add: word_sless_alt sint_of_nat_u32 lameos_sector_size_def)
  have sub: "(of_nat n :: i32) - 512 = of_nat (n - 512)" if "512 < n"
    using that by (simp add: of_nat_diff)
  let ?m = "put_bytes (frame k) (disk_bytes img (512 * (p div 512)) 512) (phys s)"
  have rb: "disk_read_block io (load32 (phys s) (stream + 4)) (of_nat (p div 512)) 1 (frame k) s =
      Some (0, s\<lparr>phys := ?m, device := d\<rparr>)"
    using rd by (simp add: disk_read_block_def dsk)
  show ?thesis
  proof (cases "512 < n")
    case True
    then have "diskstreamer_read io frame k stream out (of_nat n) s =
        diskstreamer_read io frame (Suc k) stream (out + 512) (of_nat n - 512)
          (s\<lparr>device := d, phys := after_sector img (frame k) stream out p 512 (phys s)\<rparr>)"
      by (subst diskstreamer_read.simps)
        (simp add: pos(1) pos_split [OF pos(2)] rb lt Let_def after_sector_def, simp add: lameos_sector_size_def)
    with True sub [OF True] show ?thesis by auto
  next
    case False
    then have "diskstreamer_read io frame k stream out (of_nat n) s =
        Some (0, s\<lparr>device := d, phys := after_sector img (frame k) stream out p n (phys s)\<rparr>)"
      using n by (subst diskstreamer_read.simps)
        (simp add: pos(1) pos_split [OF pos(2)] rb lt Let_def after_sector_def sint_of_nat_u32)
    with False show ?thesis by auto
  qed
qed

text \<open>\<open>e\<close> bytes from the start of the buffer on are used: the bytes up to 512 are the sector, the
  rest is the memory above the buffer.\<close>

lemma after_sector:
  fixes img :: "nat \<Rightarrow> u8" and m :: mem
  assumes n: "n \<le> 512" and e: "512 \<le> e" "p mod 512 + n \<le> e" "e \<le> 1024"
    and sep: "apart buf (of_nat e) stream 8" "apart buf (of_nat e) out (of_nat n)" "apart stream 8 out (of_nat n)"
  defines "m' \<equiv> after_sector img buf stream out p n m"
  shows "i < n \<Longrightarrow> m' (out + of_nat i) =
      (if p mod 512 + i < 512 then img (p + i) else m (buf + of_nat (p mod 512 + i)))"
    and "load32 m' stream = load32 m stream + of_nat n"
    and "load32 m' (stream + 4) = load32 m (stream + 4)"
    and "\<not> in_region buf 512 x \<Longrightarrow> \<not> in_region out (of_nat n) x \<Longrightarrow> \<not> in_region stream 4 x \<Longrightarrow> m' x = m x"
proof -
  let ?o = "p mod 512" and ?b = "disk_bytes img (512 * (p div 512)) 512"
  define m1 where "m1 = put_bytes buf ?b m"
  define m2 where "m2 = put_bytes out (bytes_at m1 (buf + of_nat ?o) n) m1"
  have in_buf: "in_region buf (of_nat e) (buf + of_nat j)" if "j < e" for j
    using that e(3) by (simp add: in_region_of_nat)
  have in_out: "in_region out (of_nat n) (out + of_nat j)" if "j < n" for j
    using that n by (simp add: in_region_of_nat)
  have m1_out: "m1 y = m y" if "\<not> in_region buf 512 y" for y
    using that by (simp add: m1_def put_bytes_out)
  have m2_out: "m2 y = m1 y" if "\<not> in_region out (of_nat n) y" for y
    using that n by (simp add: m2_def put_bytes_out)
  have buf512: "in_region buf 512 y \<Longrightarrow> in_region buf (of_nat e) y" for y
    using e(1,3) by (simp add: in_region_def word_less_nat_alt)
  have "buf + of_nat ?o + of_nat i \<noteq> out + of_nat j" if "i < n" "j < n" for i j
  proof -
    have "in_region buf (of_nat e) (buf + of_nat (?o + i))" using that(1) e(2) by (intro in_buf) simp
    then have "\<not> in_region out (of_nat n) (buf + of_nat (?o + i))"
      using sep(2) apart_not_in2 by blast
    then show ?thesis using in_out [OF that(2)] by (auto simp: add.assoc)
  qed
  then have copy: "copy_out (buf + of_nat ?o) out n m1 = m2"
    using n by (subst copy_out_eq) (simp_all add: m2_def)
  define m3 where "m3 = store32 m2 stream (load32 m2 stream + of_nat n)"
  have m': "m' = m3"
    by (simp add: m'_def after_sector_def m1_def [symmetric] copy m3_def Let_def)
  have s8: "in_region stream 4 y \<Longrightarrow> in_region stream 8 y" "in_region (stream + 4) 4 y \<Longrightarrow> in_region stream 8 y" for y
    using in_region_table [of 0 2 stream y] in_region_table [of 1 2 stream y] by simp_all
  have m2_stream: "m2 y = m y" if "in_region stream 8 y" for y
  proof -
    have "\<not> in_region buf (of_nat e) y" "\<not> in_region out (of_nat n) y"
      using sep(1,3) that apart_not_in apart_not_in2 by blast+
    then show ?thesis using m1_out m2_out buf512 by metis
  qed
  have "load32 m2 stream = load32 m stream" "load32 m2 (stream + 4) = load32 m (stream + 4)"
    using m2_stream s8 by (intro load32_cong; blast)+
  moreover have "apart stream 4 (stream + 4) 4" using words_apart [of 0 1 stream] by simp
  ultimately show "load32 m' stream = load32 m stream + of_nat n" "load32 m' (stream + 4) = load32 m (stream + 4)"
    by (simp_all add: m' m3_def load32_store32_apart)
  show "m' x = m x" if "\<not> in_region buf 512 x" "\<not> in_region out (of_nat n) x" "\<not> in_region stream 4 x"
    using that m1_out m2_out by (simp add: m' m3_def store32_other)
  assume i: "i < n"
  have "\<not> in_region stream 4 (out + of_nat i)"
    using in_out [OF i] sep(3) apart_not_in s8(1) by blast
  then have "m' (out + of_nat i) = m2 (out + of_nat i)" by (simp add: m' m3_def store32_other)
  also have "\<dots> = m1 (buf + of_nat (?o + i))"
    using i n by (simp add: m2_def put_bytes_nth add.assoc)
  also have "\<dots> = (if ?o + i < 512 then img (p + i) else m (buf + of_nat (?o + i)))"
  proof (cases "?o + i < 512")
    case True
    have "512 * (p div 512) + (?o + i) = p + i" by simp
    with True show ?thesis by (simp add: m1_def put_bytes_nth del: of_nat_add)
  next
    case False
    have "?o + i < 2 ^ 32" using i n by (simp add: less_imp_le_nat trans_less_add1)
    then have "\<not> in_region buf 512 (buf + of_nat (?o + i))"
      using False by (subst in_region_of_nat) simp_all
    with False m1_out show ?thesis by simp
  qed
  finally show "m' (out + of_nat i) = (if ?o + i < 512 then img (p + i) else m (buf + of_nat (?o + i)))" .
qed

section \<open>A whole read\<close>

text \<open>The regions a read of \<open>n\<close> bytes uses: the stream object, the output and the frames.\<close>

definition read_apart :: "(nat \<Rightarrow> ptr) \<Rightarrow> ptr \<Rightarrow> ptr \<Rightarrow> nat \<Rightarrow> bool" where
  "read_apart frame stream out n \<longleftrightarrow> apart stream 8 out (of_nat n) \<and>
     (\<forall>k. apart (frame k) 512 stream 8 \<and> apart (frame k) 512 out (of_nat n))"

lemma sub_region:
  assumes "k \<le> n" and "n < 2 ^ 31"
  shows "in_region (out + of_nat k) (of_nat (n - k)) x \<Longrightarrow> in_region out (of_nat n) x"
    and "in_region out (of_nat k) x \<Longrightarrow> in_region out (of_nat n) x"
proof -
  define i where "i = unat (x - out)"
  have x: "x = out + of_nat i" by (simp add: i_def)
  have i: "i < 2 ^ 32" unfolding i_def by (rule unat_range_u32)
  show "in_region (out + of_nat k) (of_nat (n - k)) x \<Longrightarrow> in_region out (of_nat n) x"
    and "in_region out (of_nat k) x \<Longrightarrow> in_region out (of_nat n) x"
    using assms i unfolding x by (simp_all add: in_region_offset in_region_of_nat del: of_nat_diff)
qed

lemma apart_iff: "apart a n b k \<longleftrightarrow> \<not> in_region a n b \<and> \<not> in_region b k a"
  by (auto simp: apart_def in_region_def)

lemma apart_prefix:
  assumes "apart a l out (of_nat n)" and "k \<le> n" and "n < 2 ^ 31"
  shows "apart a l out (of_nat k)"
proof (rule apart_subregion [OF assms(1)])
  show "(of_nat k :: u32) \<le> of_nat n" using assms(2,3) by (simp add: word_le_nat_alt)
qed simp

lemma apart_suffix:
  assumes "apart a l out (of_nat n)" and "k < n" and "n < 2 ^ 31" and "0 < l"
  shows "apart a l (out + of_nat k) (of_nat (n - k))"
proof -
  have "in_region out (of_nat n) (out + of_nat k)" using assms(2,3) by (simp add: in_region_of_nat)
  then have "\<not> in_region a l (out + of_nat k)" using assms(1) apart_not_in by blast
  moreover have "\<not> in_region (out + of_nat k) (of_nat (n - k)) a"
  proof
    assume "in_region (out + of_nat k) (of_nat (n - k)) a"
    then have "in_region out (of_nat n) a" by (rule sub_region(1) [OF less_imp_le [OF assms(2)] assms(3)])
    then show False using assms(1,4) apart_not_in [of a l out "of_nat n" a] by simp
  qed
  ultimately show ?thesis by (simp add: apart_iff)
qed

lemma read_apart_step:
  assumes "read_apart frame stream out n" and "512 < n" and "n < 2 ^ 31"
  shows "read_apart frame stream (out + 512) (n - 512)" and "read_apart frame stream out 512"
  using assms apart_suffix [of _ _ out n 512] apart_prefix [of _ _ out n 512]
  by (simp_all add: read_apart_def del: of_nat_diff)

lemma read_exact:
  assumes dev: "ata io regs pending polls img"
  shows "\<lbrakk> load32 (phys s) (stream + 4) = disk_addr io; load32 (phys s) stream = of_nat p;
      p + n < 2 ^ 31; p mod 512 = 0 \<or> p mod 512 + n \<le> 512; read_apart frame stream out n \<rbrakk> \<Longrightarrow>
    \<exists>s'. diskstreamer_read io frame k stream out (of_nat n) s = Some (0, s') \<and>
      (\<forall>i < n. phys s' (out + of_nat i) = img (p + i)) \<and> load32 (phys s') stream = of_nat (p + n) \<and>
      load32 (phys s') (stream + 4) = disk_addr io \<and> s' = s\<lparr>device := device s', phys := phys s'\<rparr> \<and>
      (\<forall>x. \<not> in_region out (of_nat n) x \<and> \<not> in_region stream 4 x \<and> (\<forall>j. \<not> in_region (frame j) 512 x) \<longrightarrow>
         phys s' x = phys s x)"
proof (induction n arbitrary: k out p s rule: less_induct)
  case (less n)
  have bounds: "p < 2 ^ 31" "n < 2 ^ 31" using less.prems(3) by simp_all
  note unfold = read_unfold [OF dev less.prems(1,2) bounds, of frame k out]
  show ?case
  proof (cases "512 < n")
    case False
    then have n: "n \<le> 512" "p mod 512 + n \<le> 512" using less.prems(4) by auto
    have sep: "apart (frame k) (of_nat 512) stream 8" "apart (frame k) (of_nat 512) out (of_nat n)"
      "apart stream 8 out (of_nat n)"
      using less.prems(5) by (simp_all add: read_apart_def)
    note a = after_sector [OF n(1) _ n(2) _ sep, where img = img and m = "phys s"]
    obtain d where "diskstreamer_read io frame k stream out (of_nat n) s =
        Some (0, s\<lparr>device := d, phys := after_sector img (frame k) stream out p n (phys s)\<rparr>)"
      using unfold False by auto
    then show ?thesis
      using a n less.prems(1,2) by auto
  next
    case True
    then have p0: "p mod 512 = 0" using less.prems(4) by auto
    note ra = read_apart_step [OF less.prems(5) True bounds(2)]
    have sep: "apart (frame k) (of_nat 512) stream 8" "apart (frame k) (of_nat 512) out (of_nat 512)"
      "apart stream 8 out (of_nat 512)"
      using ra(2) by (simp_all add: read_apart_def)
    define m' where "m' = after_sector img (frame k) stream out p 512 (phys s)"
    have a: "i < 512 \<Longrightarrow> m' (out + of_nat i) = img (p + i)" "load32 m' stream = load32 (phys s) stream + of_nat 512"
      "load32 m' (stream + 4) = load32 (phys s) (stream + 4)"
      "\<not> in_region (frame k) 512 x \<Longrightarrow> \<not> in_region out 512 x \<Longrightarrow> \<not> in_region stream 4 x \<Longrightarrow> m' x = phys s x"
      for i x
      using after_sector(1) [of 512 512 p, OF _ _ _ _ sep, where i = i and img = img and m = "phys s"]
        after_sector(2,3) [of 512 512 p, OF _ _ _ _ sep, where img = img and m = "phys s"]
        after_sector(4) [of 512 512 p, OF _ _ _ _ sep, where x = x and img = img and m = "phys s"] p0 by (simp_all add: m'_def)
    obtain d where rd: "diskstreamer_read io frame k stream out (of_nat n) s =
        diskstreamer_read io frame (Suc k) stream (out + 512) (of_nat (n - 512)) (s\<lparr>device := d, phys := m'\<rparr>)"
      using unfold True by (auto simp: m'_def)
    let ?s = "s\<lparr>device := d, phys := m'\<rparr>"
    have "\<exists>s'. diskstreamer_read io frame (Suc k) stream (out + 512) (of_nat (n - 512)) ?s = Some (0, s') \<and>
      (\<forall>i < n - 512. phys s' (out + 512 + of_nat i) = img (p + 512 + i)) \<and>
      load32 (phys s') stream = of_nat (p + 512 + (n - 512)) \<and>
      load32 (phys s') (stream + 4) = disk_addr io \<and> s' = ?s\<lparr>device := device s', phys := phys s'\<rparr> \<and>
      (\<forall>x. \<not> in_region (out + 512) (of_nat (n - 512)) x \<and> \<not> in_region stream 4 x \<and>
         (\<forall>j. \<not> in_region (frame j) 512 x) \<longrightarrow> phys s' x = phys ?s x)"
      using True less.prems(1,2,3) p0 a(2,3) ra(1) by (intro less.IH) simp_all
    then obtain s' where s': "diskstreamer_read io frame (Suc k) stream (out + 512) (of_nat (n - 512)) ?s = Some (0, s')"
      "\<And>i. i < n - 512 \<Longrightarrow> phys s' (out + 512 + of_nat i) = img (p + 512 + i)"
      "load32 (phys s') stream = of_nat (p + 512 + (n - 512))" "load32 (phys s') (stream + 4) = disk_addr io"
      "s' = ?s\<lparr>device := device s', phys := phys s'\<rparr>"
      "\<And>x. \<not> in_region (out + 512) (of_nat (n - 512)) x \<Longrightarrow> \<not> in_region stream 4 x \<Longrightarrow>
         (\<And>j. \<not> in_region (frame j) 512 x) \<Longrightarrow> phys s' x = m' x"
      by auto
    have "phys s' (out + of_nat i) = img (p + i)" if i: "i < n" for i
    proof (cases "i < 512")
      case True
      have io: "in_region out (of_nat n) (out + of_nat i)" using i bounds by (simp add: in_region_of_nat)
      have "\<not> in_region (out + of_nat 512) (of_nat (n - 512)) (out + of_nat i)"
        using True i bounds \<open>512 < n\<close> by (subst in_region_offset) simp_all
      moreover have "in_region stream 4 y \<Longrightarrow> in_region stream 8 y" for y
        using in_region_table [of 0 2 stream y] by simp
      then have "\<not> in_region stream 4 (out + of_nat i)"
        using less.prems(5) io apart_not_in unfolding read_apart_def by blast
      moreover have "\<not> in_region (frame j) 512 (out + of_nat i)" for j
        using less.prems(5) io apart_not_in unfolding read_apart_def by blast
      ultimately have "phys s' (out + of_nat i) = m' (out + of_nat i)" by (intro s'(6)) simp_all
      with a(1) [OF True] show ?thesis by simp
    next
      case False
      then have "phys s' (out + 512 + of_nat (i - 512)) = img (p + 512 + (i - 512))"
        using i by (intro s'(2)) simp
      then show ?thesis using False by (simp add: add.assoc of_nat_diff)
    qed
    moreover have "phys s' x = phys s x"
      if "\<not> in_region out (of_nat n) x" "\<not> in_region stream 4 x" "\<And>j. \<not> in_region (frame j) 512 x" for x
    proof -
      have "\<not> in_region (out + of_nat 512) (of_nat (n - 512)) x" "\<not> in_region out (of_nat 512) x"
        using sub_region [of 512 n out x] True bounds that(1) by (auto simp del: of_nat_diff)
      then show ?thesis using s'(6) [of x] a(4) [of x] that(2,3) by (simp del: of_nat_diff)
    qed
    moreover have "s' = s\<lparr>device := device s', phys := phys s'\<rparr>"
      by (subst s'(5)) simp
    ultimately show ?thesis
      using rd s'(1,3,4) True by auto
  qed
qed

section \<open>Properties\<close>

text \<open>A stream at \<open>0x600\<close> over the sample disk, at position \<open>p\<close>, and a stack at \<open>0x80000\<close>.\<close>

definition stream_kernel :: "nat \<Rightarrow> sample_device disk_io" where
  "stream_kernel p = disk_kernel\<lparr>phys := store32 (store32 (phys disk_kernel) 0x600 (of_nat p)) 0x604 0x200000\<rparr>"

lemma stream_kernel_fields:
  "load32 (phys (stream_kernel p)) 0x600 = of_nat p"
  "load32 (phys (stream_kernel p)) (0x600 + 4) = disk_addr sample_ports"
proof -
  have "apart 0x604 4 0x600 (4 :: u32)" by (simp add: apart_def)
  then show "load32 (phys (stream_kernel p)) 0x600 = of_nat p"
    by (simp add: stream_kernel_def load32_store32_apart)
  show "load32 (phys (stream_kernel p)) (0x600 + 4) = disk_addr sample_ports"
    by (simp add: stream_kernel_def sample_ports_def)
qed

text \<open>C21. \<open>diskstreamer_read\<close> of any length from a sector boundary, or within one sector, returns 0:
  the output holds exactly the bytes of the disk from the stream's position on, the position
  has advanced by the length, and nothing but the output, the position and the stack
  buffers has changed.\<close>

theorem diskstreamer_read_exact:
  assumes "ata io regs pending polls img" and "load32 (phys s) (stream + 4) = disk_addr io"
    and "load32 (phys s) stream = of_nat p" and "p + n < 2 ^ 31"
    and "p mod 512 = 0 \<or> p mod 512 + n \<le> 512" and "read_apart frame stream out n"
  shows "\<exists>s'. diskstreamer_read io frame k stream out (of_nat n) s = Some (0, s') \<and>
    (\<forall>i < n. phys s' (out + of_nat i) = img (p + i)) \<and> load32 (phys s') stream = of_nat (p + n) \<and>
    (\<forall>x. \<not> in_region out (of_nat n) x \<and> \<not> in_region stream 4 x \<and> (\<forall>j. \<not> in_region (frame j) 512 x) \<longrightarrow>
       phys s' x = phys s x)"
  using read_exact [OF assms(1) assms(2-6), of k] by blast

theorem diskstreamer_read_exact_witness:
  "\<exists>s'. diskstreamer_read sample_ports (\<lambda>_. 0x80000) 0 0x600 0x700 4 (stream_kernel 513) = Some (0, s') \<and>
     phys s' 0x702 = 3"
proof -
  have "read_apart (\<lambda>_. 0x80000) 0x600 0x700 4" by (simp add: read_apart_def apart_def)
  from diskstreamer_read_exact [OF sample_ata stream_kernel_fields(2,1), of 513 4 "\<lambda>_. 0x80000" "0x700" 0] this
  obtain s' where s': "diskstreamer_read sample_ports (\<lambda>_. 0x80000) 0 0x600 0x700 4 (stream_kernel 513) = Some (0, s')"
    "\<forall>i < 4. phys s' (0x700 + of_nat i) = sample_image (513 + i)" by auto
  from s'(2) [rule_format, of 2] have "phys s' 0x702 = 3" by (simp add: sample_image_def)
  with s'(1) show ?thesis by blast
qed

text \<open>C22. A read of at most 512 bytes that crosses a sector boundary does not fetch the second
  sector: it still returns 0, but the bytes past the boundary are the memory above the
  512-byte stack buffer.\<close>

theorem diskstreamer_read_overread:
  assumes "ata io regs pending polls img" and "load32 (phys s) (stream + 4) = disk_addr io"
    and "load32 (phys s) stream = of_nat p" and "p < 2 ^ 31" and "n \<le> 512"
    and "512 < p mod 512 + n"
    and "apart (frame k) 1024 stream 8" and "apart (frame k) 1024 out (of_nat n)"
    and "apart stream 8 out (of_nat n)"
  shows "\<exists>s'. diskstreamer_read io frame k stream out (of_nat n) s = Some (0, s') \<and>
    (\<forall>i < n. phys s' (out + of_nat i) =
       (if p mod 512 + i < 512 then img (p + i) else phys s (frame k + of_nat (p mod 512 + i))))"
proof -
  have "n < 2 ^ 31" "\<not> 512 < n" "p mod 512 + n \<le> 1024" using assms(5) by simp_all
  moreover have sep: "apart (frame k) (of_nat 1024) stream 8" "apart (frame k) (of_nat 1024) out (of_nat n)"
    using assms(7,8) by simp_all
  ultimately show ?thesis
    using read_unfold [OF assms(1-4) \<open>n < 2 ^ 31\<close>, of frame k out]
      after_sector(1) [OF assms(5) _ _ _ sep assms(9), where img = img and m = "phys s"] by auto
qed

theorem diskstreamer_read_overread_witness:
  "\<exists>s'. diskstreamer_read sample_ports (\<lambda>_. 0x80000) 0 0x600 0x700 4 (stream_kernel 510) = Some (0, s') \<and>
     phys s' 0x701 = 0xFF \<and> phys s' 0x702 = phys (stream_kernel 510) 0x80200"
proof -
  from diskstreamer_read_overread [OF sample_ata stream_kernel_fields(2,1), of 510 4 "\<lambda>_. 0x80000" 0 "0x700"]
  obtain s' where s': "diskstreamer_read sample_ports (\<lambda>_. 0x80000) 0 0x600 0x700 4 (stream_kernel 510) = Some (0, s')"
    "\<forall>i < 4. phys s' (0x700 + of_nat i) = (if 510 + i < 512 then sample_image (510 + i)
       else phys (stream_kernel 510) (0x80000 + of_nat (510 + i)))"
    by (auto simp: apart_def)
  from s'(2) [rule_format, of 1] s'(2) [rule_format, of 2]
  have "phys s' 0x701 = 0xFF" "phys s' 0x702 = phys (stream_kernel 510) 0x80200"
    by (simp_all add: sample_image_def)
  with s'(1) show ?thesis by blast
qed

end
