(* ===== verification/Frame.thy ===== *)
theory Frame
  imports Streamer
begin

text \<open>
  What an operation leaves alone: the bytes it may write (\<open>changed_only\<close>), and steps that keep the heap, its
  live blocks and every stable byte but those of a set (\<open>kept\<close>). Client code over the heap and the
  streams composes its steps with these two.
\<close>

section \<open>Writes to a set of bytes\<close>

definition changed_only :: "(ptr \<Rightarrow> bool) \<Rightarrow> ('d, 'a) disk_io_scheme \<Rightarrow> ('d, 'a) disk_io_scheme \<Rightarrow> bool" where
  "changed_only w s s' \<longleftrightarrow>
     (\<exists>d m. s' = s\<lparr>device := d, phys := m\<rparr> \<and> (\<forall>x. \<not> w x \<longrightarrow> m x = phys s x))"

lemma changed_onlyI:
  "s' = s\<lparr>device := d, phys := m\<rparr> \<Longrightarrow> (\<And>x. \<not> w x \<Longrightarrow> m x = phys s x) \<Longrightarrow> changed_only w s s'"
  by (auto simp: changed_only_def)

lemma changed_only_trans:
  assumes "changed_only w s s1" and "changed_only w s1 s2"
  shows "changed_only w s s2"
proof -
  obtain d m where "s1 = s\<lparr>device := d, phys := m\<rparr>" "\<forall>x. \<not> w x \<longrightarrow> m x = phys s x"
    using assms(1) by (auto simp: changed_only_def)
  moreover obtain d' m' where "s2 = s1\<lparr>device := d', phys := m'\<rparr>" "\<forall>x. \<not> w x \<longrightarrow> m' x = phys s1 x"
    using assms(2) by (auto simp: changed_only_def)
  ultimately show ?thesis by (intro changed_onlyI [where d = d' and m = m']) simp_all
qed

lemma changed_only_mono: "changed_only w s s' \<Longrightarrow> (\<And>x. w x \<Longrightarrow> v x) \<Longrightarrow> changed_only v s s'"
  by (auto simp: changed_only_def)

lemma changed_only_disk: "changed_only w s s' \<Longrightarrow> the_disk s' = the_disk s"
  by (auto simp: changed_only_def)

lemma changed_only_same: "changed_only w s s' \<Longrightarrow> \<not> w x \<Longrightarrow> phys s' x = phys s x"
  by (auto simp: changed_only_def)

definition off_heap :: "ptr \<Rightarrow> u32 \<Rightarrow> bool" where
  "off_heap a n \<longleftrightarrow> (\<forall>x. in_region a n x \<longrightarrow> \<not> in_heap x \<and> \<not> in_table boot_heap x)"

lemma off_heap_live:
  assumes "off_heap a n" and "0 < n" and "kheap_inv s" and "(p, k) \<in> kheap_live s"
  shows "apart a n p k"
proof -
  have "0 < k" using kmalloc_heap.live_nonnull [OF assms(3,4)] by simp
  then have "in_heap p" using live_in_heap [OF assms(3,4), of p] by simp
  then have "\<not> in_region a n p" using assms(1) by (auto simp: off_heap_def)
  moreover have "\<not> in_region p k a"
    using live_in_heap [OF assms(3,4), of a] assms(1,2) by (auto simp: off_heap_def)
  ultimately show ?thesis by (simp add: apart_iff)
qed

lemma off_heap_not_in: "off_heap a n \<Longrightarrow> in_region a n x \<Longrightarrow> \<not> in_heap x"
  by (simp add: off_heap_def)

section \<open>Steps that keep the heap\<close>

text \<open>A step keeps the heap and everything stable but the bytes of \<open>w\<close>.\<close>

definition kept :: "(ptr \<Rightarrow> bool) \<Rightarrow> ('d, 'a) disk_io_scheme \<Rightarrow> ('d, 'a) disk_io_scheme \<Rightarrow> bool" where
  "kept w s s' \<longleftrightarrow> kheap_inv s' \<and> kheap_live s \<subseteq> kheap_live s' \<and> changed_only (\<lambda>_. True) s s' \<and>
     (\<forall>x. kheap_stable s x \<longrightarrow> \<not> w x \<longrightarrow> phys s' x = phys s x)"

lemma keptD:
  assumes "kept w s s'"
  shows "kheap_inv s'" and "kheap_live s \<subseteq> kheap_live s'" and "changed_only (\<lambda>_. True) s s'" and "the_disk s' = the_disk s"
    and "\<lbrakk> kheap_stable s x; \<not> w x \<rbrakk> \<Longrightarrow> phys s' x = phys s x"
    and "kheap_stable s x \<Longrightarrow> kheap_stable s' x"
  using assms stable_mono [of s s'] by (auto simp: kept_def changed_only_disk)

lemma kept_trans:
  assumes "kept w s s1" and "kept v s1 s2" and "\<And>x. kheap_stable s x \<Longrightarrow> v x \<Longrightarrow> w x"
  shows "kept w s s2"
  unfolding kept_def
proof (intro conjI allI impI)
  show "kheap_live s \<subseteq> kheap_live s2" using keptD(2) [OF assms(1)] keptD(2) [OF assms(2)] by blast
  show "changed_only (\<lambda>_. True) s s2" by (rule changed_only_trans [OF keptD(3) [OF assms(1)] keptD(3) [OF assms(2)]])
  show "phys s2 x = phys s x" if "kheap_stable s x" "\<not> w x" for x
    using keptD(5) [OF assms(1) that] keptD(5) [OF assms(2) keptD(6) [OF assms(1) that(1)]] assms(3) that by metis
qed (rule keptD(1) [OF assms(2)])

lemma kept_mono: "kept w s s' \<Longrightarrow> (\<And>x. w x \<Longrightarrow> v x) \<Longrightarrow> kept v s s'"
  unfolding kept_def by blast

lemma kept_changed:
  assumes "kheap_inv s" and "changed_only w s s'" and "\<And>x. w x \<Longrightarrow> \<not> in_table boot_heap x"
  shows "kept w s s'" and "kchunks s' = kchunks s" and "kheap_live s' = kheap_live s"
proof -
  obtain d m where s': "s' = s\<lparr>device := d, phys := m\<rparr>" "\<forall>x. \<not> w x \<longrightarrow> m x = phys s x"
    using assms(2) by (auto simp: changed_only_def)
  have "kernel_heap s' = boot_heap" using kheap_inv_repr [OF assms(1)] by (simp add: s'(1))
  from kheap_same_table [OF assms(1) this] have k: "kheap_inv s'" "kchunks s' = kchunks s"
    using assms(3) s' by auto
  show "kchunks s' = kchunks s" by (rule k(2))
  show "kheap_live s' = kheap_live s" using k(2) by (simp add: kheap_live_def)
  then show "kept w s s'"
    using k(1) changed_only_same [OF assms(2)] changed_only_mono [OF assms(2)] by (simp add: kept_def)
qed

lemma changed_only_write: "(\<And>x. \<not> w x \<Longrightarrow> m x = phys s x) \<Longrightarrow> changed_only w s (s\<lparr>phys := m\<rparr>)"
  by (rule changed_onlyI [where d = "device s" and m = m]) simp_all

lemma kept_kzalloc:
  assumes "kheap_inv s" and "kheap_room n s" and "kzalloc n s = (p, s')"
  obtains k where "kept (\<lambda>_. False) s s'" and "kheap_live s' = insert (p, k) (kheap_live s)"
    and "n \<le> k" and "(p, k) \<notin> kheap_live s" and "p \<noteq> 0" and "\<And>x. in_region p n x \<Longrightarrow> phys s' x = 0"
    and "\<And>x. kheap_stable s x \<Longrightarrow> \<not> in_region p k x"
proof -
  note z = kzalloc_heap.alloc_inv [OF assms(1,2)] kzalloc_heap.alloc_zero [OF assms(1,2)]
    kzalloc_heap.alloc_nonnull [OF assms(1,2)]
  obtain k where k: "n \<le> k" "(p, k) \<notin> kheap_live s" "kheap_live s' = insert (p, k) (kheap_live s)"
    using kzalloc_heap.alloc_live [OF assms(1,2)] by (auto simp: assms(3))
  have inv': "kheap_inv s'" using z(1) by (simp add: assms(3))
  have new: "\<not> in_region p k x" if "kheap_stable s x" for x
    by (rule stable_not_new [OF inv' _ k(2) _ that]) (auto simp: k(3))
  have "changed_only (\<lambda>_. True) s s'"
    using memory_only_kzalloc [OF assms(3)] changed_only_write [of "\<lambda>_. True"] by (auto simp: memory_only_def)
  moreover have "phys s' x = phys s x" if "kheap_stable s x" for x
  proof -
    have "\<not> in_region p n x" using new [OF that] k(1) by (auto simp: in_region_def)
    then have "phys s' x = phys (snd (kmalloc n s)) x"
      using kzalloc_served [OF assms(1,2)] assms(3) by (simp add: memset_apply)
    moreover have "\<And>y. \<not> in_table boot_heap y \<Longrightarrow> phys (snd (kmalloc n s)) y = phys s y"
      by (rule kmalloc_served [OF assms(1,2)]) blast
    ultimately show ?thesis using that by (simp add: kheap_stable_def)
  qed
  ultimately have "kept (\<lambda>_. False) s s'" using inv' k(3) by (auto simp: kept_def)
  then show thesis using k z(2,3) new by (intro that) (auto simp: assms(3))
qed

lemma disk_frame [simp]:
  "kheap_inv (s\<lparr>the_disk := d\<rparr>) = kheap_inv s" "kchunks (s\<lparr>the_disk := d\<rparr>) = kchunks s"
  "kheap_live (s\<lparr>the_disk := d\<rparr>) = kheap_live s" "kheap_pages (s\<lparr>the_disk := d\<rparr>) = kheap_pages s"
  "kheap_stable (s\<lparr>the_disk := d\<rparr>) x = kheap_stable s x"
  by (simp_all add: kheap_inv_def kheap_live_def kheap_pages_def kchunks_def kheap_stable_def)

lemma page_word_kept:
  assumes "kheap_inv s" and "(p, 4096) \<in> kheap_live s" and "kept w s s'" and "unat f + 4 \<le> 4096"
    and "\<And>x. w x \<Longrightarrow> \<not> in_region (p + f) 4 x"
  shows "load32 (phys s') (p + f) = load32 (phys s) (p + f)"
proof (rule load32_cong)
  fix x assume x: "in_region (p + f) 4 x"
  then have "in_region p 4096 x" using field_in_struct [of f 4096 p x] assms(4) by simp
  then show "phys s' x = phys s x"
    using keptD(5) [OF assms(3) stable_live [OF assms(1,2)]] assms(5) x by blast
qed

lemma kept_page_write:
  assumes "kheap_inv s" and "(p, 4096) \<in> kheap_live s" and "\<And>x. \<not> w x \<Longrightarrow> m x = phys s x"
    and "\<And>x. w x \<Longrightarrow> in_region p 4096 x"
  shows "kept w s (s\<lparr>phys := m\<rparr>)" and "kchunks (s\<lparr>phys := m\<rparr>) = kchunks s"
    and "kheap_live (s\<lparr>phys := m\<rparr>) = kheap_live s" and "kheap_pages (s\<lparr>phys := m\<rparr>) = kheap_pages s"
proof -
  have off: "\<not> in_table boot_heap x" if "w x" for x
    using kheap_live_not_in_table [OF assms(1,2) assms(4) [OF that]] .
  note k = kept_changed [OF assms(1) changed_only_write [OF assms(3)] off]
  show "kept w s (s\<lparr>phys := m\<rparr>)" "kchunks (s\<lparr>phys := m\<rparr>) = kchunks s" "kheap_live (s\<lparr>phys := m\<rparr>) = kheap_live s"
    by (rule k; assumption)+
  then show "kheap_pages (s\<lparr>phys := m\<rparr>) = kheap_pages s" by (simp add: kheap_pages_def)
qed

section \<open>Pages\<close>

lemma page_field:
  assumes "unat f + 4 \<le> 4096" and "\<And>x. in_region p 4096 x \<Longrightarrow> m x = m' x"
  shows "load32 m (p + f) = load32 m' (p + f)"
  by (rule load32_cong) (use assms field_in_struct [of f 4096 p] in auto)

lemma two_pages:
  assumes "kheap_inv s" and "(p, 4096) \<in> kheap_live s" and "(q, 4096) \<in> kheap_live s" and "p \<noteq> q"
    and "in_region p 4096 x"
  shows "\<not> in_region q 4096 x"
  using kmalloc_heap.live_apart [OF assms(1-3)] assms(4,5) apart_not_in2 by blast

text \<open>Only the device, memory and the disk's struct may differ.\<close>

definition disk_only :: "('d, 'a) disk_io_scheme \<Rightarrow> ('d, 'a) disk_io_scheme \<Rightarrow> bool" where
  "disk_only s s' \<longleftrightarrow> (\<exists>d m k. s' = s\<lparr>device := d, phys := m, the_disk := k\<rparr>)"

lemma disk_only_kept: "kept w s s' \<Longrightarrow> disk_only s s'"
  using keptD(3) [of w s s'] by (cases s) (auto simp: changed_only_def disk_only_def)

lemma disk_only_memory: "memory_only s s' \<Longrightarrow> disk_only s s'"
  by (cases s) (auto simp: memory_only_def disk_only_def)

lemma disk_only_disk: "disk_only s (s\<lparr>the_disk := k\<rparr>)"
  by (cases s) (auto simp: disk_only_def)

lemma disk_only_trans: "disk_only s s1 \<Longrightarrow> disk_only s1 s2 \<Longrightarrow> disk_only s s2"
  unfolding disk_only_def by (elim exE) (simp, blast)

lemma kept_refl: "kheap_inv s \<Longrightarrow> kept w s s"
  unfolding kept_def by (auto intro: changed_onlyI [where d = "device s" and m = "phys s"])

end
