(* ===== verification/File.thy ===== *)
theory File
  imports PathParser Frame
begin

text \<open>
  \<open>src/fs/file.c\<close>: the virtual file layer. The two global tables are lists of addresses; a
  \<open>struct file_descriptor\<close> is four words in memory. A \<open>struct filesystem\<close> is a static object of
  function pointers: the argument \<open>fss\<close> maps the address of each object the kernel is linked
  with to its operations, and a call through any other address is \<open>Bad_Pointer\<close>.
\<close>

section \<open>Data\<close>

record 'd files = "'d disk_io" +
  filesystems :: "ptr list"
  file_descriptors :: "ptr list"

definition lameos_max_filesystems :: nat where "lameos_max_filesystems = 12"
definition lameos_max_file_descriptors :: nat where "lameos_max_file_descriptors = 512"

datatype file_mode = FILE_MODE_READ | FILE_MODE_WRITE | FILE_MODE_APPEND | FILE_MODE_INVALID

text \<open>The enumeration values, and the order they give the modes.\<close>

fun file_mode_value :: "file_mode \<Rightarrow> nat" where
  "file_mode_value FILE_MODE_READ = 0"
| "file_mode_value FILE_MODE_WRITE = 1"
| "file_mode_value FILE_MODE_APPEND = 2"
| "file_mode_value FILE_MODE_INVALID = 3"

instantiation file_mode :: linorder
begin
definition less_eq_file_mode :: "file_mode \<Rightarrow> file_mode \<Rightarrow> bool" where
  "a \<le> b \<longleftrightarrow> file_mode_value a \<le> file_mode_value b"
definition less_file_mode :: "file_mode \<Rightarrow> file_mode \<Rightarrow> bool" where
  "a < b \<longleftrightarrow> file_mode_value a < file_mode_value b"
instance
proof
  fix a b :: file_mode
  show "a \<le> b \<Longrightarrow> b \<le> a \<Longrightarrow> a = b"
    by (cases a; cases b) (simp_all add: less_eq_file_mode_def)
qed (auto simp: less_eq_file_mode_def less_file_mode_def)
end

record 's filesystem =
  fs_resolve_op :: "ptr \<Rightarrow> 's \<Rightarrow> halt + i32 \<times> 's"
  fs_open_op :: "ptr \<Rightarrow> ptr \<Rightarrow> file_mode \<Rightarrow> 's \<Rightarrow> halt + ptr \<times> 's"
  fs_read_op :: "ptr \<Rightarrow> ptr \<Rightarrow> u32 \<Rightarrow> u32 \<Rightarrow> ptr \<Rightarrow> 's \<Rightarrow> halt + i32 \<times> 's"
  fs_seek_op :: "ptr \<Rightarrow> u32 \<Rightarrow> u32 \<Rightarrow> 's \<Rightarrow> halt + i32 \<times> 's"
  fs_stat_op :: "ptr \<Rightarrow> ptr \<Rightarrow> ptr \<Rightarrow> 's \<Rightarrow> halt + i32 \<times> 's"
  fs_close_op :: "ptr \<Rightarrow> 's \<Rightarrow> halt + i32 \<times> 's"

text \<open>The fields of \<open>struct file_descriptor\<close>.\<close>

definition fd_index :: "mem \<Rightarrow> ptr \<Rightarrow> i32" where "fd_index m desc = load32 m desc"
definition fd_filesystem :: "mem \<Rightarrow> ptr \<Rightarrow> ptr" where "fd_filesystem m desc = load32 m (desc + 4)"
definition fd_private :: "mem \<Rightarrow> ptr \<Rightarrow> ptr" where "fd_private m desc = load32 m (desc + 8)"
definition fd_disk :: "mem \<Rightarrow> ptr \<Rightarrow> ptr" where "fd_disk m desc = load32 m (desc + 12)"

text \<open>\<open>ISERR\<close> and \<open>ERROR_I\<close> of \<open>kernel.h\<close>: a pointer is an error when it is negative as an
  \<open>int\<close>.\<close>

definition iserr :: "ptr \<Rightarrow> bool" where "iserr p \<longleftrightarrow> p <s 0"

section \<open>Filesystems\<close>

text \<open>The index of the first free slot.\<close>

fun first_zero :: "nat \<Rightarrow> ptr list \<Rightarrow> nat option" where
  "first_zero i [] = None"
| "first_zero i (p # ps) = (if p = 0 then Some i else first_zero (Suc i) ps)"

definition fs_get_free_filesystem :: "('d, 'a) files_scheme \<Rightarrow> nat option" where
  "fs_get_free_filesystem s = first_zero 0 (filesystems s)"

text \<open>With no free slot the message is printed and the kernel loops forever.\<close>

definition fs_insert_filesystem :: "ptr \<Rightarrow> ('d, 'a) files_scheme \<Rightarrow> halt + ('d, 'a) files_scheme" where
  "fs_insert_filesystem fsp s =
     (case fs_get_free_filesystem s of None \<Rightarrow> Inl Diverges
      | Some i \<Rightarrow> Inr (s\<lparr>filesystems := (filesystems s)[i := fsp]\<rparr>))"

fun resolve_loop ::
  "(ptr \<rightharpoonup> ('d, 'a) files_scheme filesystem) \<Rightarrow> ptr \<Rightarrow> ptr list \<Rightarrow> ('d, 'a) files_scheme \<Rightarrow>
   halt + ptr \<times> ('d, 'a) files_scheme" where
  "resolve_loop fss dsk [] s = Inr (0, s)"
| "resolve_loop fss dsk (p # ps) s =
     (if p = 0 then resolve_loop fss dsk ps s
      else and_then (deref fss p) (\<lambda>ops. and_then (fs_resolve_op ops dsk s) (\<lambda>(res, s').
        if res = 0 then Inr (p, s') else resolve_loop fss dsk ps s')))"

definition fs_resolve ::
  "(ptr \<rightharpoonup> ('d, 'a) files_scheme filesystem) \<Rightarrow> ptr \<Rightarrow> ('d, 'a) files_scheme \<Rightarrow>
   halt + ptr \<times> ('d, 'a) files_scheme" where
  "fs_resolve fss dsk s = resolve_loop fss dsk (filesystems s) s"

text \<open>\<open>disk_search_and_init\<close> of \<open>src/disk/disk.c\<close>.\<close>

definition disk_search_and_init ::
  "'d ports \<Rightarrow> (ptr \<rightharpoonup> ('d, 'a) files_scheme filesystem) \<Rightarrow> ('d, 'a) files_scheme \<Rightarrow> halt + ('d, 'a) files_scheme" where
  "disk_search_and_init io fss s =
     (let s1 = s\<lparr>the_disk := \<lparr>disk_type = lameos_disk_type_real, sector_size = lameos_sector_size,
            disk_id = 0, disk_filesystem = 0, fs_private = 0\<rparr>\<rparr>
      in and_then (fs_resolve fss (disk_addr io) s1) (\<lambda>(fsp, s2).
           Inr (s2\<lparr>the_disk := (the_disk s2)\<lparr>disk_filesystem := fsp\<rparr>\<rparr>)))"

section \<open>Descriptors\<close>

text \<open>A write outside the table is a write through a bad pointer.\<close>

definition file_free_descriptor :: "ptr \<Rightarrow> ('d, 'a) files_scheme \<Rightarrow> halt + ('d, 'a) files_scheme" where
  "file_free_descriptor desc s =
     (let i = unat (fd_index (phys s) desc - 1)
      in if i < lameos_max_file_descriptors
         then Inr (kfree desc (s\<lparr>file_descriptors := (file_descriptors s)[i := 0]\<rparr>))
         else Inl (Bad_Pointer desc))"

text \<open>The result code, the new descriptor (0 with an error code) and the state.\<close>

definition file_new_descriptor :: "('d, 'a) files_scheme \<Rightarrow> i32 \<times> ptr \<times> ('d, 'a) files_scheme" where
  "file_new_descriptor s =
     (case first_zero 0 (file_descriptors s) of None \<Rightarrow> (- enomem, 0, s)
      | Some i \<Rightarrow>
          let (desc, s1) = kzalloc 16 s
          in (0, desc, s1\<lparr>phys := store32 (phys s1) desc (of_nat (i + 1)),
                file_descriptors := (file_descriptors s1)[i := desc]\<rparr>))"

definition file_get_descriptor :: "i32 \<Rightarrow> ('d, 'a) files_scheme \<Rightarrow> ptr" where
  "file_get_descriptor fd s =
     (if fd \<le>s 0 \<or> of_nat lameos_max_file_descriptors \<le>s fd then 0
      else file_descriptors s ! unat (fd - 1))"

section \<open>Files\<close>

text \<open>\<open>strncmp (str, "r", 1)\<close> compares one byte with the literal's (\<open>strncmp_one\<close> below).\<close>

definition file_mode_get_by_string :: "ptr \<Rightarrow> mem \<Rightarrow> file_mode" where
  "file_mode_get_by_string str m =
     (if m str = 0x72 then FILE_MODE_READ
      else if m str = 0x77 then FILE_MODE_WRITE
      else if m str = 0x61 then FILE_MODE_APPEND
      else FILE_MODE_INVALID)"

text \<open>The body of \<open>fopen\<close> up to its label; errors are negative.\<close>

definition fopen_body ::
  "'d ports \<Rightarrow> (ptr \<rightharpoonup> ('d, 'a) files_scheme filesystem) \<Rightarrow> ptr \<Rightarrow> ptr \<Rightarrow> ('d, 'a) files_scheme \<Rightarrow>
   halt + i32 \<times> ('d, 'a) files_scheme" where
  "fopen_body io fss filename mode_str s =
     and_then (terminating (pathparser_parse filename 0 s)) (\<lambda>(root_path, s1).
       if root_path = 0 then Inr (- einvarg, s1)
       else if path_root_first (phys s1) root_path = 0 then Inr (- einvarg, s1)
       else
         let dsk = disk_get io (path_root_drive_no (phys s1) root_path)
         in if dsk = 0 then Inr (- eio, s1)
            else if disk_filesystem (the_disk s1) = 0 then Inr (- eio, s1)
            else
              let mode = file_mode_get_by_string mode_str (phys s1)
              in if mode = FILE_MODE_INVALID then Inr (- einvarg, s1)
                 else
                   and_then (deref fss (disk_filesystem (the_disk s1))) (\<lambda>ops.
                   and_then (fs_open_op ops dsk (path_root_first (phys s1) root_path) mode s1)
                     (\<lambda>(private, s2).
                       if iserr private then Inr (private, s2)
                       else
                         let (res, desc, s3) = file_new_descriptor s2
                         in if res <s 0 then Inr (res, s3)
                            else
                              let m1 = store32 (phys s3) (desc + 4) (disk_filesystem (the_disk s3));
                                  m2 = store32 m1 (desc + 8) private;
                                  m3 = store32 m2 (desc + 12) dsk
                              in Inr (fd_index m3 desc, s3\<lparr>phys := m3\<rparr>))))"

definition fopen ::
  "'d ports \<Rightarrow> (ptr \<rightharpoonup> ('d, 'a) files_scheme filesystem) \<Rightarrow> ptr \<Rightarrow> ptr \<Rightarrow> ('d, 'a) files_scheme \<Rightarrow>
   halt + i32 \<times> ('d, 'a) files_scheme" where
  "fopen io fss filename mode_str s =
     and_then (fopen_body io fss filename mode_str s) (\<lambda>(res, s'). Inr (if res <s 0 then 0 else res, s'))"

definition fstat ::
  "(ptr \<rightharpoonup> ('d, 'a) files_scheme filesystem) \<Rightarrow> i32 \<Rightarrow> ptr \<Rightarrow> ('d, 'a) files_scheme \<Rightarrow>
   halt + i32 \<times> ('d, 'a) files_scheme" where
  "fstat fss fd stat s =
     (let desc = file_get_descriptor fd s
      in if desc = 0 then Inr (- eio, s)
         else and_then (deref fss (fd_filesystem (phys s) desc)) (\<lambda>ops.
           fs_stat_op ops (fd_disk (phys s) desc) (fd_private (phys s) desc) stat s))"

text \<open>\<open>if (!fd)\<close> tests the number, not the descriptor: with no descriptor the code reads
  through the null pointer.\<close>

definition fclose ::
  "(ptr \<rightharpoonup> ('d, 'a) files_scheme filesystem) \<Rightarrow> i32 \<Rightarrow> ('d, 'a) files_scheme \<Rightarrow>
   halt + i32 \<times> ('d, 'a) files_scheme" where
  "fclose fss fd s =
     (let desc = file_get_descriptor fd s
      in if fd = 0 then Inr (- eio, s)
         else and_then (deref fss (fd_filesystem (phys s) desc)) (\<lambda>ops.
           and_then (fs_close_op ops (fd_private (phys s) desc) s) (\<lambda>(res, s1).
             if res = lameos_ok then and_then (file_free_descriptor desc s1) (\<lambda>s2. Inr (res, s2))
             else Inr (res, s1))))"

definition fseek ::
  "(ptr \<rightharpoonup> ('d, 'a) files_scheme filesystem) \<Rightarrow> i32 \<Rightarrow> i32 \<Rightarrow> u32 \<Rightarrow> ('d, 'a) files_scheme \<Rightarrow>
   halt + i32 \<times> ('d, 'a) files_scheme" where
  "fseek fss fd offset whence s =
     (let desc = file_get_descriptor fd s
      in if desc = 0 then Inr (- eio, s)
         else and_then (deref fss (fd_filesystem (phys s) desc)) (\<lambda>ops.
           fs_seek_op ops (fd_private (phys s) desc) offset whence s))"

definition fread ::
  "(ptr \<rightharpoonup> ('d, 'a) files_scheme filesystem) \<Rightarrow> ptr \<Rightarrow> u32 \<Rightarrow> u32 \<Rightarrow> i32 \<Rightarrow> ('d, 'a) files_scheme \<Rightarrow>
   halt + i32 \<times> ('d, 'a) files_scheme" where
  "fread fss p sz nmemb fd s =
     (if sz = 0 \<or> nmemb = 0 \<or> fd <s 1 then Inr (- einvarg, s)
      else
        let desc = file_get_descriptor fd s
        in if desc = 0 then Inr (- einvarg, s)
           else and_then (deref fss (fd_filesystem (phys s) desc)) (\<lambda>ops.
             fs_read_op ops (fd_disk (phys s) desc) (fd_private (phys s) desc) sz nmemb p s))"

lemma strncmp_one: "m lit = c \<Longrightarrow> strncmp m str lit 1 = 0 \<longleftrightarrow> m str = c"
  by (simp add: strncmp.simps [of m str] strncmp.simps [of _ _ _ 0] word_sless_alt)

section \<open>The descriptor table\<close>

lemma first_zero_None: "first_zero k ps = None \<longleftrightarrow> 0 \<notin> set ps"
  by (induction ps arbitrary: k) auto

lemma first_zero_Some:
  "first_zero k ps = Some i \<Longrightarrow>
   \<exists>j < length ps. i = k + j \<and> ps ! j = 0 \<and> (\<forall>l < j. ps ! l \<noteq> 0)"
proof (induction ps arbitrary: k)
  case (Cons p ps)
  show ?case
  proof (cases "p = 0")
    case False
    with Cons obtain j where "j < length ps" "i = Suc k + j" "ps ! j = 0" "\<forall>l < j. ps ! l \<noteq> 0"
      by fastforce
    with False show ?thesis by (intro exI [of _ "Suc j"]) (auto simp: less_Suc_eq_0_disj)
  qed (use Cons.prems in \<open>auto intro: exI [of _ 0]\<close>)
qed simp

lemma files_frame [simp]:
  "kheap_inv (s\<lparr>file_descriptors := t\<rparr>) = kheap_inv s"
  "kchunks (s\<lparr>file_descriptors := t\<rparr>) = kchunks s"
  "kheap_live (s\<lparr>file_descriptors := t\<rparr>) = kheap_live s"
  "kheap_pages (s\<lparr>file_descriptors := t\<rparr>) = kheap_pages s"
  by (simp_all add: kheap_inv_def kheap_live_def kheap_pages_def kchunks_def)

lemma files_kept [simp]:
  "file_descriptors (snd (kzalloc n s)) = file_descriptors s"
  "filesystems (snd (kzalloc n s)) = filesystems s"
  "the_disk (snd (kzalloc n s)) = the_disk s"
  "file_descriptors (kfree p s) = file_descriptors s"
  "filesystems (kfree p s) = filesystems s"
  "the_disk (kfree p s) = the_disk s"
  by (simp_all add: kzalloc_def kmalloc_def kfree_def case_prod_beta Let_def)

text \<open>The table invariant: a used slot holds a live page of its own, whose index names the
  slot.\<close>

definition fds_ok :: "('d, 'a) files_scheme \<Rightarrow> bool" where
  "fds_ok s \<longleftrightarrow> kheap_inv s \<and> length (file_descriptors s) = lameos_max_file_descriptors \<and>
     (\<forall>i < lameos_max_file_descriptors. file_descriptors s ! i \<noteq> 0 \<longrightarrow>
        (file_descriptors s ! i, 4096) \<in> kheap_live s \<and>
        fd_index (phys s) (file_descriptors s ! i) = of_nat (i + 1))"

lemma fds_okD:
  assumes "fds_ok s"
  shows "kheap_inv s" and "length (file_descriptors s) = 512"
    and "\<lbrakk> i < 512; file_descriptors s ! i \<noteq> 0 \<rbrakk> \<Longrightarrow> (file_descriptors s ! i, 4096) \<in> kheap_live s"
    and "\<lbrakk> i < 512; file_descriptors s ! i \<noteq> 0 \<rbrakk> \<Longrightarrow>
      fd_index (phys s) (file_descriptors s ! i) = of_nat (i + 1)"
  using assms by (simp_all add: fds_ok_def lameos_max_file_descriptors_def)

lemma fds_distinct:
  assumes "fds_ok s" and "i < 512" and "j < 512" and "file_descriptors s ! i = file_descriptors s ! j"
    and "file_descriptors s ! i \<noteq> 0"
  shows "i = j"
proof -
  have "(of_nat (i + 1) :: i32) = of_nat (j + 1)"
    using fds_okD(4) [OF assms(1,2)] fds_okD(4) [OF assms(1,3)] assms(4,5) by simp
  then show ?thesis using assms(2,3) by (subst (asm) of_nat_word_inj) simp_all
qed

text \<open>A word in a live page is a word of stable bytes.\<close>

text \<open>Only memory, the device and the table of descriptors may differ.\<close>

definition outside_files :: "('d, 'a) files_scheme \<Rightarrow> ('d, 'a) files_scheme \<Rightarrow> bool" where
  "outside_files s s' \<longleftrightarrow> files.more s' = files.more s \<and> cr0 s' = cr0 s \<and> cr3 s' = cr3 s \<and>
     current_directory s' = current_directory s \<and> the_disk s' = the_disk s \<and> filesystems s' = filesystems s"

lemma outside_trans: "outside_files s s1 \<Longrightarrow> outside_files s1 s2 \<Longrightarrow> outside_files s s2"
  by (simp add: outside_files_def)

lemma outside_more:
  assumes "kheap.more s' = kheap.more s"
  shows "outside_files s s'"
  unfolding outside_files_def using assms by (cases s; cases s'; simp)

lemma live_word:
  assumes "kheap_inv s" and "(p, 4096) \<in> kheap_live s" and "\<And>x. kheap_stable s x \<Longrightarrow> m x = phys s x"
  shows "load32 m p = load32 (phys s) p"
proof (rule load32_cong)
  fix x assume "in_region p 4 x"
  then have "in_region p 4096 x" using page_word unfolding word_in_def by blast
  from stable_live [OF assms(1,2) this] show "m x = phys s x" by (rule assms(3))
qed

lemma new_descriptor_ok:
  assumes ok: "fds_ok s" and pages: "0 < kheap_pages s"
    and slot: "first_zero 0 (file_descriptors s) = Some i"
  obtains desc s' where "file_new_descriptor s = (0, desc, s')" and "fds_ok s'"
    and "file_descriptors s' = (file_descriptors s)[i := desc]" and "i < 512"
    and "kheap_live s' = insert (desc, 4096) (kheap_live s)" and "\<And>l. (desc, l) \<notin> kheap_live s"
    and "desc \<noteq> 0" and "fd_index (phys s') desc = of_nat (i + 1)"
    and "\<And>x. kheap_stable s x \<Longrightarrow> phys s' x = phys s x"
    and "Suc (kheap_pages s') = kheap_pages s" and "the_disk s' = the_disk s"
    and "filesystems s' = filesystems s" and "outside_files s s'"
proof -
  have i: "i < 512" using first_zero_Some [OF slot] fds_okD(2) [OF ok] by auto
  obtain desc s1 where alloc: "kzalloc 16 s = (desc, s1)" by (cases "kzalloc 16 s") blast
  have s1: "s1 = snd (kzalloc 16 s)" by (simp add: alloc)
  have n16: "(0 :: u32) < 16" "(16 :: u32) \<le> 4096" by simp_all
  note new = kzalloc_page_facts [OF fds_okD(1) [OF ok] pages n16 alloc]
  define m where "m = store32 (phys s1) desc (of_nat (i + 1))"
  have m_out: "m x = phys s1 x" if "\<not> in_region desc 4096 x" for x
    using that page_word [of desc] unfolding word_in_def m_def by (intro store32_other) blast
  have d1: "(desc, 4096) \<in> kheap_live s1" using new(2) by simp
  note w = kheap_write_live [OF new(1) d1 m_out]
  define s' where "s' = s1\<lparr>phys := m, file_descriptors := (file_descriptors s1)[i := desc]\<rparr>"
  have ph: "phys s' = m" by (simp add: s'_def)
  have keep: "phys s' x = phys s x" if "kheap_stable s x" for x
    using m_out new(6,8) [OF that] by (simp add: ph)
  have inv': "kheap_inv s'" using w(1) by (simp add: s'_def kheap_inv_def)
  have live': "kheap_live s' = insert (desc, 4096) (kheap_live s)"
    using w(2) new(2) by (simp add: s'_def kheap_live_def kchunks_def)
  have pages': "Suc (kheap_pages s') = kheap_pages s"
    using w(2) new(3) by (simp add: s'_def kheap_pages_def kchunks_def)
  have idx: "fd_index (phys s') desc = of_nat (i + 1)" by (simp add: ph m_def fd_index_def)
  have tab: "file_descriptors s' = (file_descriptors s)[i := desc]" by (simp add: s'_def s1)
  have "fds_ok s'"
    unfolding fds_ok_def lameos_max_file_descriptors_def
  proof (intro conjI allI impI)
    fix j assume j: "j < 512" "file_descriptors s' ! j \<noteq> 0"
    have "(file_descriptors s' ! j, 4096) \<in> kheap_live s' \<and>
        fd_index (phys s') (file_descriptors s' ! j) = of_nat (j + 1)"
    proof (cases "j = i")
      case True
      then show ?thesis using idx live' j fds_okD(2) [OF ok] by (simp add: tab)
    next
      case False
      then have q: "file_descriptors s' ! j = file_descriptors s ! j" by (simp add: tab)
      with j have l: "(file_descriptors s ! j, 4096) \<in> kheap_live s" using fds_okD(3) [OF ok] by simp
      have "fd_index (phys s') (file_descriptors s ! j) = fd_index (phys s) (file_descriptors s ! j)"
        unfolding fd_index_def by (rule live_word [OF fds_okD(1) [OF ok] l keep])
      then show ?thesis using l j q fds_okD(4) [OF ok, of j] by (simp add: live')
    qed
    then show "(file_descriptors s' ! j, 4096) \<in> kheap_live s'"
      "fd_index (phys s') (file_descriptors s' ! j) = of_nat (j + 1)" by blast+
  qed (use inv' tab fds_okD(2) [OF ok] in simp_all)
  moreover have "file_new_descriptor s = (0, desc, s')"
    by (simp add: file_new_descriptor_def slot alloc s'_def m_def)
  ultimately show thesis
    using tab i live' new(4,5) idx keep pages' outside_more [OF kzalloc_more_eq [OF alloc]]
    by (intro that [of desc s']) (simp_all add: s'_def s1 outside_files_def)
qed

lemma get_descriptor_eq:
  "file_get_descriptor fd s =
     (if 0 < sint fd \<and> sint fd < 512 then file_descriptors s ! (nat (sint fd) - 1) else 0)"
proof (cases "0 < sint fd \<and> sint fd < 512")
  case True
  define n where "n = nat (sint fd)"
  have "word_of_int (int n) = fd" and n: "0 < n" "n < 512" "sint fd = int n" using True by (auto simp: n_def)
  then have "fd - 1 = of_nat (n - 1)" by (cases n) auto
  with n(2) have "unat (fd - 1) = n - 1" by simp
  then show ?thesis using n
    by (simp add: file_get_descriptor_def lameos_max_file_descriptors_def word_sle_eq)
next
  case False
  then show ?thesis
    by (auto simp: file_get_descriptor_def lameos_max_file_descriptors_def word_sle_eq)
qed

lemma get_descriptor_of_nat:
  "file_get_descriptor (of_nat (i + 1)) s = (if i < 511 then file_descriptors s ! i else 0)" if "i < 512"
  using that by (auto simp: get_descriptor_eq sint_of_nat_u32 simp del: of_nat_Suc of_nat_add)

lemma free_descriptor_ok:
  assumes ok: "fds_ok s" and i: "i < 512" and desc: "file_descriptors s ! i = desc" "desc \<noteq> 0"
  obtains s' where "file_free_descriptor desc s = Inr s'" and "fds_ok s'"
    and "file_descriptors s' = (file_descriptors s)[i := 0]"
    and "kheap_live s' = kheap_live s - {(desc, 4096)}"
    and "kheap_pages s' = Suc (kheap_pages s)"
    and "\<And>x. kheap_stable s x \<Longrightarrow> phys s' x = phys s x"
    and "the_disk s' = the_disk s" and "filesystems s' = filesystems s" and "outside_files s s'"
proof -
  have live: "(desc, 4096) \<in> kheap_live s" and idx: "fd_index (phys s) desc = of_nat (i + 1)"
    using fds_okD(3,4) [OF ok i] desc by simp_all
  define u where "u = s\<lparr>file_descriptors := (file_descriptors s)[i := 0]\<rparr>"
  have u: "kheap_inv u" "kheap_live u = kheap_live s" "kheap_pages u = kheap_pages s" "phys u = phys s"
    "the_disk u = the_disk s" "filesystems u = filesystems s"
    "file_descriptors u = (file_descriptors s)[i := 0]"
    using fds_okD(1) [OF ok] by (simp_all add: u_def)
  have lu: "(desc, 4096) \<in> kheap_live u" using live by (simp add: u)
  define s' where "s' = kfree desc u"
  have "unat (fd_index (phys s) desc - 1) = i" using idx i by simp
  then have "file_free_descriptor desc s = Inr s'"
    using i by (simp add: file_free_descriptor_def s'_def u_def lameos_max_file_descriptors_def)
  moreover have live': "kheap_live s' = kheap_live s - {(desc, 4096)}" and inv': "kheap_inv s'"
    and pages': "kheap_pages s' = Suc (kheap_pages s)"
    using kfree_served(1,2,4) [OF u(1) lu] by (simp_all add: s'_def u)
  moreover have keep: "phys s' x = phys s x" if "kheap_stable s x" for x
  proof -
    have "kheap_stable u x" using that by (simp add: kheap_stable_def u)
    from kfree_stable [OF u(1) lu this] show ?thesis by (simp add: s'_def u)
  qed
  moreover have tab: "file_descriptors s' = (file_descriptors s)[i := 0]"
    "the_disk s' = the_disk s" "filesystems s' = filesystems s" by (simp_all add: s'_def u)
  moreover have "outside_files s s'" using outside_more [of s' u] by (simp add: s'_def u_def outside_files_def)
  moreover have "fds_ok s'"
    unfolding fds_ok_def lameos_max_file_descriptors_def
  proof (intro conjI allI impI)
    fix j assume j: "j < 512" "file_descriptors s' ! j \<noteq> 0"
    then have q: "j \<noteq> i" "file_descriptors s' ! j = file_descriptors s ! j"
      using fds_okD(2) [OF ok] by (cases "j = i"; simp add: tab)+
    then have l: "(file_descriptors s ! j, 4096) \<in> kheap_live s" using j fds_okD(3) [OF ok] by simp
    have "file_descriptors s ! j \<noteq> desc"
      using fds_distinct [OF ok j(1) i] q(1) j(2) q(2) desc(1) by auto
    then show "(file_descriptors s' ! j, 4096) \<in> kheap_live s'" using l by (simp add: live' q)
    have "fd_index (phys s') (file_descriptors s ! j) = fd_index (phys s) (file_descriptors s ! j)"
      unfolding fd_index_def by (rule live_word [OF fds_okD(1) [OF ok] l keep])
    then show "fd_index (phys s') (file_descriptors s' ! j) = of_nat (j + 1)"
      using fds_okD(4) [OF ok j(1)] j(2) by (simp add: q)
  qed (use inv' tab fds_okD(2) [OF ok] in simp_all)
  ultimately show thesis by (intro that)
qed

text \<open>Steps that leave the table alone.\<close>

lemma fds_ok_step:
  assumes ok: "fds_ok s" and inv: "kheap_inv s'" and tab: "file_descriptors s' = file_descriptors s"
    and live: "kheap_live s \<subseteq> kheap_live s'" and keep: "\<And>x. kheap_stable s x \<Longrightarrow> phys s' x = phys s x"
  shows "fds_ok s'"
  unfolding fds_ok_def lameos_max_file_descriptors_def
proof (intro conjI allI impI)
  fix j assume j: "j < 512" "file_descriptors s' ! j \<noteq> 0"
  then have l: "(file_descriptors s ! j, 4096) \<in> kheap_live s" using fds_okD(3) [OF ok] by (simp add: tab)
  then show "(file_descriptors s' ! j, 4096) \<in> kheap_live s'" using live by (auto simp: tab)
  have "fd_index (phys s') (file_descriptors s ! j) = fd_index (phys s) (file_descriptors s ! j)"
    unfolding fd_index_def by (rule live_word [OF fds_okD(1) [OF ok] l keep])
  then show "fd_index (phys s') (file_descriptors s' ! j) = of_nat (j + 1)"
    using fds_okD(4) [OF ok j(1)] j(2) by (simp add: tab)
qed (use inv fds_okD(2) [OF ok] in \<open>simp_all add: tab\<close>)

lemma fds_ok_fill:
  assumes ok: "fds_ok s" and i: "i < 512" and desc: "file_descriptors s ! i = desc" "desc \<noteq> 0"
    and out: "\<And>x. \<not> in_region desc 4096 x \<Longrightarrow> m x = phys s x"
    and idx: "fd_index m desc = fd_index (phys s) desc"
  shows "fds_ok (s\<lparr>phys := m\<rparr>)" and "kheap_live (s\<lparr>phys := m\<rparr>) = kheap_live s"
    and "kheap_pages (s\<lparr>phys := m\<rparr>) = kheap_pages s"
proof -
  have live: "(desc, 4096) \<in> kheap_live s" using fds_okD(3) [OF ok i] desc by simp
  note w = kheap_write_live [OF fds_okD(1) [OF ok] live out]
  show live': "kheap_live (s\<lparr>phys := m\<rparr>) = kheap_live s" and "kheap_pages (s\<lparr>phys := m\<rparr>) = kheap_pages s"
    using w(2) by (simp_all add: kheap_live_def kheap_pages_def)
  show "fds_ok (s\<lparr>phys := m\<rparr>)"
    unfolding fds_ok_def lameos_max_file_descriptors_def
  proof (intro conjI allI impI)
    fix j assume j: "j < 512" "file_descriptors (s\<lparr>phys := m\<rparr>) ! j \<noteq> 0"
    let ?q = "file_descriptors s ! j"
    have l: "(?q, 4096) \<in> kheap_live s" using j fds_okD(3) [OF ok] by simp
    then show "(file_descriptors (s\<lparr>phys := m\<rparr>) ! j, 4096) \<in> kheap_live (s\<lparr>phys := m\<rparr>)"
      by (simp add: live')
    have "fd_index m ?q = fd_index (phys s) ?q"
    proof (cases "?q = desc")
      case False
      then have "(?q, 4096) \<noteq> (desc, 4096 :: u32)" by simp
      from kmalloc_heap.live_apart [OF fds_okD(1) [OF ok] l live this]
      have "\<not> in_region desc 4096 x" if "in_region ?q 4096 x" for x
        using that apart_not_in2 by blast
      then show ?thesis unfolding fd_index_def by (intro load32_word_in [OF page_word]) (simp add: out)
    qed (simp add: idx)
    then show "fd_index (phys (s\<lparr>phys := m\<rparr>)) (file_descriptors (s\<lparr>phys := m\<rparr>) ! j) = of_nat (j + 1)"
      using fds_okD(4) [OF ok j(1)] j(2) by simp
  qed (use w(1) fds_okD(2) [OF ok] in simp_all)
qed

section \<open>Opening\<close>

lemma more_files:
  assumes "kheap.more s' = kheap.more s"
  shows "file_descriptors s' = file_descriptors s" and "filesystems s' = filesystems s"
    and "the_disk s' = the_disk s" and "device s' = device s"
  using assms by (cases s; cases s'; simp)+

lemma kept_files:
  fixes s s' :: "('d, 'a) files_scheme"
  shows "kept w s s' \<Longrightarrow> file_descriptors s' = file_descriptors s"
  using keptD(3) [of w s s'] by (auto simp: changed_only_def)

lemma disk_only_files:
  fixes s s' :: "('d, 'a) files_scheme"
  assumes "disk_only s s'"
  shows "file_descriptors s' = file_descriptors s" and "filesystems s' = filesystems s" and "files.more s' = files.more s"
    and "cr0 s' = cr0 s" and "cr3 s' = cr3 s" and "current_directory s' = current_directory s"
  using assms by (auto simp: disk_only_def)

lemma changed_outside:
  fixes s s' :: "('d, 'a) files_scheme"
  shows "changed_only w s s' \<Longrightarrow> outside_files s s'"
  by (auto simp: changed_only_def outside_files_def)

lemma kept_outside:
  fixes s s' :: "('d, 'a) files_scheme"
  shows "kept w s s' \<Longrightarrow> outside_files s s'"
  using changed_outside [OF keptD(3)] by blast

lemma fd_words:
  fixes d a b c :: ptr and m :: mem
  defines "m' \<equiv> store32 (store32 (store32 m (d + 4) a) (d + 8) b) (d + 12) c"
  shows "fd_index m' d = fd_index m d" and "fd_filesystem m' d = a" and "fd_private m' d = b"
    and "fd_disk m' d = c" and "\<not> in_region d 4096 x \<Longrightarrow> m' x = m x"
proof -
  have ap: "apart (d + 4) 4 d 4" "apart (d + 8) 4 d 4" "apart (d + 12) 4 d 4"
    "apart (d + 8) 4 (d + 4) 4" "apart (d + 12) 4 (d + 4) 4" "apart (d + 12) 4 (d + 8) 4"
    by (simp_all add: apart_def)
  then show "fd_index m' d = fd_index m d" and "fd_filesystem m' d = a" and "fd_private m' d = b"
    and "fd_disk m' d = c"
    by (simp_all add: m'_def fd_index_def fd_filesystem_def fd_private_def fd_disk_def load32_store32_apart)
  assume x: "\<not> in_region d 4096 x"
  have "word_in d 4096 (d + 4)" "word_in d 4096 (d + 8)" "word_in d 4096 (d + 12)"
    using table_word [of 1 d] table_word [of 2 d] table_word [of 3 d] by simp_all
  with x have "\<not> in_region (d + 4) 4 x" "\<not> in_region (d + 8) 4 x" "\<not> in_region (d + 12) 4 x"
    unfolding word_in_def by blast+
  then show "m' x = m x" by (simp add: m'_def store32_other)
qed

text \<open>What a driver's \<open>open\<close> promises for a path with the parts \<open>names\<close>: with more than \<open>k\<close> free
  pages it returns private data, keeps the descriptor table and leaves a page.\<close>

definition driver_opens ::
  "('d, 'a) files_scheme filesystem \<Rightarrow> ptr \<Rightarrow> file_mode \<Rightarrow> u8 list list \<Rightarrow> nat \<Rightarrow> bool" where
  "driver_opens ops dsk mode names k \<longleftrightarrow>
     (\<forall>s q. fds_ok s \<and> k < kheap_pages s \<and> path_list (phys s) q names \<longrightarrow>
        (\<exists>p s'. fs_open_op ops dsk q mode s = Inr (p, s') \<and> \<not> iserr p \<and> fds_ok s' \<and>
           0 < kheap_pages s' \<and> file_descriptors s' = file_descriptors s \<and> the_disk s' = the_disk s))"

text \<open>What \<open>fopen\<close> does with the private data of the driver, or its error.\<close>

definition fopen_finish ::
  "ptr \<Rightarrow> ptr \<Rightarrow> ('d, 'a) files_scheme \<Rightarrow> i32 \<times> ('d, 'a) files_scheme" where
  "fopen_finish dsk priv s =
     (if iserr priv then (0, s)
      else
        let (res, desc, s3) = file_new_descriptor s
        in if res <s 0 then (0, s3)
           else
             let m3 = store32 (store32 (store32 (phys s3) (desc + 4) (disk_filesystem (the_disk s3)))
                        (desc + 8) priv) (desc + 12) dsk
             in (if fd_index m3 desc <s 0 then 0 else fd_index m3 desc, s3\<lparr>phys := m3\<rparr>))"

text \<open>A valid path with at least one part on drive 0, up to the driver.\<close>

lemma fopen_parsed:
  assumes inv: "kheap_inv s" and path: "cstr_at (phys s) filename t" and valid: "path_valid t"
    and drive: "t ! 0 = 0x30" and parts: "path_parts (drop 3 t) = names" "names \<noteq> []"
    and stable: "\<forall>j \<le> length t. kheap_stable s (filename + of_nat j)"
    and mode: "file_mode_get_by_string mode_str (phys s) = mode" "mode \<noteq> FILE_MODE_INVALID"
      "kheap_stable s mode_str"
    and disk: "disk_addr io \<noteq> 0" "disk_filesystem (the_disk s) = fsp" "fsp \<noteq> 0" "fss fsp = Some ops"
    and pages: "2 * length names + 3 \<le> kheap_pages s"
  obtains root ns s1 where "path_parsed s root ns s1" and "map (snd \<circ> snd) ns = names" and "kheap.more s1 = kheap.more s"
    and "fopen io fss filename mode_str s =
      and_then (fs_open_op ops (disk_addr io) (path_root_first (phys s1) root) mode s1)
        (\<lambda>(priv, s2). Inr (fopen_finish (disk_addr io) priv s2))"
proof -
  have pg: "2 * length (path_parts (drop 3 t)) + 3 \<le> kheap_pages s" using pages parts by simp
  from parse_valid [OF inv path valid stable pg, of 0] obtain root ns s1 where
    parse: "pathparser_parse filename 0 s = Some (root, s1)" and parsed: "path_parsed s root ns s1"
    and dno: "path_root_drive_no (phys s1) root = of_nat (unat (t ! 0) - 48)"
    and names: "map (snd \<circ> snd) ns = names" using parts(1) by blast
  note p = parsed [unfolded path_parsed_def] and more = pathparser_parse_more [OF parse]
  note same = more_files [OF more]
  let ?q = "path_root_first (phys s1) root"
  have "nodes_at (phys s1) ?q ns" using p by blast
  from nodes_at_list [OF this] have "path_list (phys s1) ?q names" by (simp add: names)
  then have first: "?q \<noteq> 0" using parts(2) by (cases names) auto
  have ph: "phys s1 mode_str = phys s mode_str" using p mode(3) by blast
  have dget: "disk_get io (path_root_drive_no (phys s1) root) = disk_addr io"
    using drive by (simp add: dno disk_get_def)
  have mode1: "file_mode_get_by_string mode_str (phys s1) = mode"
    using mode(1) unfolding file_mode_get_by_string_def ph .
  have "(if iserr priv then Inr (priv, s2) else k) = Inr (priv, s2)" if "iserr priv" for priv :: ptr and s2 k
    using that by simp
  then have "fopen io fss filename mode_str s =
      and_then (fs_open_op ops (disk_addr io) ?q mode s1) (\<lambda>(priv, s2). Inr (fopen_finish (disk_addr io) priv s2))"
    using p first disk mode(2)
    by (cases "fs_open_op ops (disk_addr io) ?q mode s1")
       (auto simp: fopen_def fopen_body_def parse dget mode1 same fopen_finish_def Let_def iserr_def split: prod.splits)
  with parsed names more show thesis by (rule that)
qed

text \<open>A new descriptor for private data.\<close>

lemma fopen_finish_ok:
  assumes ok: "fds_ok s" and pages: "0 < kheap_pages s" and slot: "first_zero 0 (file_descriptors s) = Some i"
    and priv: "\<not> iserr priv"
  obtains desc s' where "fopen_finish dsk priv s = (of_nat (i + 1), s')" and "fds_ok s'"
    and "file_descriptors s' = (file_descriptors s)[i := desc]" and "i < 512" and "desc \<noteq> 0"
    and "kheap_live s' = insert (desc, 4096) (kheap_live s)" and "\<And>l. (desc, l) \<notin> kheap_live s"
    and "fd_filesystem (phys s') desc = disk_filesystem (the_disk s)" and "fd_private (phys s') desc = priv"
    and "fd_disk (phys s') desc = dsk" and "the_disk s' = the_disk s"
    and "\<And>x. kheap_stable s x \<Longrightarrow> phys s' x = phys s x" and "Suc (kheap_pages s') = kheap_pages s"
    and "outside_files s s'"
proof -
  obtain desc s3 where
    new: "file_new_descriptor s = (0, desc, s3)" "fds_ok s3" "file_descriptors s3 = (file_descriptors s)[i := desc]" "i < 512"
      "kheap_live s3 = insert (desc, 4096) (kheap_live s)" "\<And>l. (desc, l) \<notin> kheap_live s" "desc \<noteq> 0"
      "fd_index (phys s3) desc = of_nat (i + 1)" "\<And>x. kheap_stable s x \<Longrightarrow> phys s3 x = phys s x"
      "Suc (kheap_pages s3) = kheap_pages s" "the_disk s3 = the_disk s" "filesystems s3 = filesystems s" "outside_files s s3"
    by (rule new_descriptor_ok [OF ok pages slot]) (rule that; assumption)
  have slot3: "file_descriptors s3 ! i = desc" using new(3,4) fds_okD(2) [OF ok] by simp
  let ?fsp = "disk_filesystem (the_disk s)"
  define m where "m = store32 (store32 (store32 (phys s3) (desc + 4) ?fsp) (desc + 8) priv) (desc + 12) dsk"
  note w = fd_words [where d = desc and a = "?fsp" and b = priv and c = dsk and m = "phys s3", folded m_def]
  have fill: "fds_ok (s3\<lparr>phys := m\<rparr>)" "kheap_live (s3\<lparr>phys := m\<rparr>) = kheap_live s3"
    "kheap_pages (s3\<lparr>phys := m\<rparr>) = kheap_pages s3"
    by (rule fds_ok_fill [OF new(2,4) slot3 new(7)]; use w in auto)+
  have "\<not> (of_nat (i + 1) :: i32) <s 0"
    using new(4) by (simp add: word_sless_alt sint_of_nat_u32 del: of_nat_Suc of_nat_add)
  then have op: "fopen_finish dsk priv s = (of_nat (i + 1), s3\<lparr>phys := m\<rparr>)"
    using priv new(1,8) by (simp add: fopen_finish_def new(11) m_def [symmetric] w(1) Let_def del: of_nat_Suc of_nat_add)
  have d3: "(desc, 4096) \<in> kheap_live s3" using new(5) by simp
  have "phys (s3\<lparr>phys := m\<rparr>) x = phys s x" if "kheap_stable s x" for x
  proof -
    have "\<not> in_region desc 4096 x"
      by (rule stable_not_new [OF fds_okD(1) [OF new(2)] d3 _ _ that]) (use new(5,6) in auto)
    then show ?thesis using w(5) new(9) [OF that] by simp
  qed
  with op fill new(3-7,10,11,13) w(2-4) show thesis
    by (intro that [of "s3\<lparr>phys := m\<rparr>" desc]) (simp_all add: outside_files_def)
qed

lemma fopen_ok:
  fixes s :: "('d, 'a) files_scheme"
  assumes ok: "fds_ok s" and path: "cstr_at (phys s) filename t" and valid: "path_valid t"
    and drive: "t ! 0 = 0x30" and parts: "path_parts (drop 3 t) = names" "names \<noteq> []"
    and stable: "\<forall>j \<le> length t. kheap_stable s (filename + of_nat j)"
    and mode: "file_mode_get_by_string mode_str (phys s) = mode" "mode \<noteq> FILE_MODE_INVALID"
      "kheap_stable s mode_str"
    and disk: "disk_addr io \<noteq> 0" "disk_filesystem (the_disk s) = fsp" "fsp \<noteq> 0" "fss fsp = Some ops"
    and driver: "driver_opens ops (disk_addr io) mode names k"
    and pages: "2 * length names + k + 2 \<le> kheap_pages s" "2 * length names + 3 \<le> kheap_pages s"
    and slot: "first_zero 0 (file_descriptors s) = Some i"
  shows "\<exists>p desc s'. fopen io fss filename mode_str s = Inr (of_nat (i + 1), s') \<and> fds_ok s' \<and>
    file_descriptors s' = (file_descriptors s)[i := desc] \<and> desc \<noteq> 0 \<and>
    fd_filesystem (phys s') desc = fsp \<and> fd_private (phys s') desc = p \<and>
    fd_disk (phys s') desc = disk_addr io \<and> \<not> iserr p \<and> the_disk s' = the_disk s \<and> i < 512 \<and>
    (\<exists>q s1 s2. path_list (phys s1) q names \<and> fs_open_op ops (disk_addr io) q mode s1 = Inr (p, s2))"
proof -
  obtain root ns s1 where parsed: "path_parsed s root ns s1" and names: "map (snd \<circ> snd) ns = names"
    and more: "kheap.more s1 = kheap.more s"
    and op: "fopen io fss filename mode_str s = and_then (fs_open_op ops (disk_addr io) (path_root_first (phys s1) root) mode s1)
        (\<lambda>(private, s2). Inr (fopen_finish (disk_addr io) private s2))"
    by (rule fopen_parsed [where fss = fss, OF fds_okD(1) [OF ok] path valid drive parts stable mode disk pages(2)])
  note p = parsed [unfolded path_parsed_def] and same = more_files [OF more]
  let ?q = "path_root_first (phys s1) root"
  have "nodes_at (phys s1) ?q ns" using p by blast
  from nodes_at_list [OF this] have list: "path_list (phys s1) ?q names" by (simp add: names)
  have ok1: "fds_ok s1" by (rule fds_ok_step [OF ok]) (use p same in auto)
  have "length ns = length names" using names by auto
  then have pages1: "k < kheap_pages s1" using p pages by simp
  obtain priv s2 where o: "fs_open_op ops (disk_addr io) ?q mode s1 = Inr (priv, s2)" "\<not> iserr priv"
    and ok2: "fds_ok s2" and pages2: "0 < kheap_pages s2" and tab2: "file_descriptors s2 = file_descriptors s1"
    and disk2: "the_disk s2 = the_disk s1"
    using driver [unfolded driver_opens_def, rule_format, of s1 ?q] ok1 pages1 list by blast
  have slot2: "first_zero 0 (file_descriptors s2) = Some i" using slot by (simp add: tab2 same)
  obtain desc s' where fin: "fopen_finish (disk_addr io) priv s2 = (of_nat (i + 1), s')" "fds_ok s'"
    "file_descriptors s' = (file_descriptors s2)[i := desc]" "i < 512" "desc \<noteq> 0"
    "fd_filesystem (phys s') desc = disk_filesystem (the_disk s2)" "fd_private (phys s') desc = priv"
    "fd_disk (phys s') desc = disk_addr io" "the_disk s' = the_disk s2"
    by (rule fopen_finish_ok [OF ok2 pages2 slot2 o(2)]) blast
  then show ?thesis
    using op o list tab2 disk2 same disk(2)
    by (intro exI [of _ priv] exI [of _ desc] exI [of _ s']) (auto simp del: of_nat_Suc of_nat_add)
qed

text \<open>Every other path is rejected.\<close>

lemma fopen_rejected:
  assumes inv: "kheap_inv s" and path: "cstr_at (phys s) filename t" "length t < 2 ^ 31"
    and stable: "\<forall>j \<le> length t. kheap_stable s (filename + of_nat j)" "kheap_stable s mode_str"
    and pages: "2 * length (path_parts (drop 3 t)) + 3 \<le> kheap_pages s"
    and bad: "\<not> path_valid t \<or> path_parts (drop 3 t) = [] \<or> t ! 0 \<noteq> 0x30 \<or> disk_filesystem (the_disk s) = 0 \<or>
      file_mode_get_by_string mode_str (phys s) = FILE_MODE_INVALID"
  obtains s' where "fopen io fss filename mode_str s = Inr (0, s')" and "kheap.more s' = kheap.more s" and "kheap_inv s'"
    and "kheap_live s \<subseteq> kheap_live s'" and "\<And>x. kheap_stable s x \<Longrightarrow> phys s' x = phys s x"
proof -
  have neg: "- einvarg <s 0" "- eio <s 0" by (simp_all add: einvarg_def eio_def word_sless_alt)
  show thesis
  proof (cases "path_valid t")
    case False
    from parse_invalid [OF path this] show ?thesis
      using inv neg by (intro that [of s]) (simp_all add: fopen_def fopen_body_def)
  next
    case valid: True
    from parse_valid [OF inv path(1) this stable(1) pages, of 0] obtain root ns s1 where
      parse: "pathparser_parse filename 0 s = Some (root, s1)" and parsed: "path_parsed s root ns s1"
      and dno: "path_root_drive_no (phys s1) root = of_nat (unat (t ! 0) - 48)"
      and names: "map (snd \<circ> snd) ns = path_parts (drop 3 t)" by blast
    note p = parsed [unfolded path_parsed_def] and more = pathparser_parse_more [OF parse]
    note same = more_files [OF more]
    have keep: "\<And>x. kheap_stable s x \<Longrightarrow> phys s1 x = phys s x" using p by blast
    have "path_root_first (phys s1) root = 0" if "path_parts (drop 3 t) = []"
      using p names that by (cases ns) auto
    moreover have "disk_get io (path_root_drive_no (phys s1) root) = 0" if t0: "t ! 0 \<noteq> 0x30"
    proof -
      have "isdigit (t ! 0)" using valid by (simp add: path_valid_def)
      then obtain d :: nat where d: "d < 10" "t ! 0 = 48 + of_nat d" using isdigit_iff by blast
      then have "d \<noteq> 0" using t0 by (cases "d = 0") simp_all
      moreover have "unat (t ! 0) = 48 + d" using d by (simp add: unat_word_ariths unat_of_nat take_bit_nat_eq_self)
      ultimately show ?thesis using d(1) of_nat_word_inj [of d 0] by (simp add: dno disk_get_def)
    qed
    moreover have "file_mode_get_by_string mode_str (phys s1) = file_mode_get_by_string mode_str (phys s)"
      using keep [OF stable(2)] by (simp add: file_mode_get_by_string_def)
    ultimately have "fopen io fss filename mode_str s = Inr (0, s1)"
      using bad valid p neg unfolding fopen_def fopen_body_def parse
      by (auto simp: same Let_def)
    then show ?thesis by (rule that) (use more p in auto)
  qed
qed

section \<open>Resolving\<close>

lemma resolve_loop_first:
  assumes "\<And>p s. p \<in> set ps \<Longrightarrow> p \<noteq> 0 \<Longrightarrow> I s \<Longrightarrow>
      \<exists>ops s'. fss p = Some ops \<and> fs_resolve_op ops dsk s = Inr (r p, s') \<and> I s'"
    and "I s"
  shows "\<exists>s'. resolve_loop fss dsk ps s =
      Inr (case find (\<lambda>p. p \<noteq> 0 \<and> r p = 0) ps of None \<Rightarrow> 0 | Some p \<Rightarrow> p, s') \<and> I s'"
  using assms
proof (induction ps arbitrary: s)
  case (Cons p ps)
  have IH: "\<exists>s'. resolve_loop fss dsk ps u =
      Inr (case find (\<lambda>p. p \<noteq> 0 \<and> r p = 0) ps of None \<Rightarrow> 0 | Some p \<Rightarrow> p, s') \<and> I s'" if "I u" for u
    using that by (rule Cons.IH [rotated]) (use Cons.prems(1) in simp)
  show ?case
  proof (cases "p = 0")
    case True
    then show ?thesis using IH [OF Cons.prems(2)] by simp
  next
    case False
    from Cons.prems(1) [OF _ False Cons.prems(2)] obtain ops s' where
      o: "fss p = Some ops" "fs_resolve_op ops dsk s = Inr (r p, s')" "I s'" by auto
    then show ?thesis using False IH [OF o(3)] by auto
  qed
qed simp

section \<open>Properties\<close>

text \<open>A driver that accepts every path, for the witnesses: its private data is \<open>0x1234\<close> and it
  keeps the state.\<close>

definition sample_driver :: "('d, 'a) files_scheme filesystem" where
  "sample_driver = \<lparr>fs_resolve_op = \<lambda>_ s. Inr (0, s), fs_open_op = \<lambda>_ _ _ s. Inr (0x1234, s),
     fs_read_op = \<lambda>_ _ _ _ _ s. Inr (1, s), fs_seek_op = \<lambda>_ _ _ s. Inr (0, s),
     fs_stat_op = \<lambda>_ _ _ s. Inr (0, s), fs_close_op = \<lambda>_ s. Inr (0, s)\<rparr>"

text \<open>The kernel after boot with the driver at \<open>0x2000\<close>, the path \<open>0:/a/b\<close> at \<open>0x500\<close> and the mode
  \<open>r\<close> at \<open>0x600\<close>.\<close>

definition file_memory :: mem where
  "file_memory = (put_bytes 0x500 sample_path (\<lambda>_. 0)) (0x600 := 0x72)"

definition file_kernel :: "sample_device files" where
  "file_kernel = kheap.extend (kheap_init (cold_kernel\<lparr>phys := file_memory\<rparr>))
     \<lparr>current_directory = 0, cr0 = 0, cr3 = 0, device = \<lparr>s_regs = \<lambda>_. 0, s_pending = [], s_polls = 0\<rparr>,
      the_disk = \<lparr>disk_type = 0, sector_size = 512, disk_id = 0, disk_filesystem = 0x2000, fs_private = 0\<rparr>,
      filesystems = 0x2000 # replicate 11 0, file_descriptors = replicate 512 0\<rparr>"

lemma kheap_extend:
  fixes k :: kheap and e :: 'b
  shows "kheap_inv (kheap.extend k e) = kheap_inv k" and "kheap_live (kheap.extend k e) = kheap_live k"
    and "kheap_pages (kheap.extend k e) = kheap_pages k" and "kheap_stable (kheap.extend k e) x = kheap_stable k x"
    and "phys (kheap.extend k e) = phys k"
  by (simp_all add: kheap_inv_def kheap_live_def kheap_pages_def kheap_stable_def kchunks_def kheap.extend_def)

lemma file_kernel_facts:
  "fds_ok file_kernel" "kheap_pages file_kernel = 25600" "cstr_at (phys file_kernel) 0x500 sample_path"
  "\<forall>j \<le> length sample_path. kheap_stable file_kernel (0x500 + of_nat j)"
  "file_mode_get_by_string 0x600 (phys file_kernel) = FILE_MODE_READ" "kheap_stable file_kernel 0x600"
  "disk_filesystem (the_disk file_kernel) = 0x2000" "file_descriptors file_kernel = replicate 512 0"
proof -
  let ?k = "kheap_init (cold_kernel\<lparr>phys := file_memory\<rparr>)"
  have low: "\<not> in_table boot_heap x \<and> \<not> in_heap x" if "x < 0x700" for x
    using that unfolding in_table_def in_heap_def in_region_def boot_heap_simps by uint_arith (auto simp: linorder_not_less)
  then have st: "kheap_stable file_kernel x" and ph: "phys file_kernel x = file_memory x" if "x < 0x700" for x
    using that kheap_init_state [of "cold_kernel\<lparr>phys := file_memory\<rparr>"]
    unfolding file_kernel_def kheap_extend by (simp_all add: kheap_stable_def)
  have tab: "file_descriptors file_kernel = replicate 512 0"
    and dsk: "disk_filesystem (the_disk file_kernel) = 0x2000"
    by (simp_all add: file_kernel_def kheap.extend_def)
  show "file_descriptors file_kernel = replicate 512 0" "disk_filesystem (the_disk file_kernel) = 0x2000"
    by (rule tab dsk)+
  show "fds_ok file_kernel"
    by (simp add: fds_ok_def tab lameos_max_file_descriptors_def) (simp add: file_kernel_def kheap_extend)
  show "kheap_pages file_kernel = 25600" by (simp add: file_kernel_def kheap_extend)
  show "kheap_stable file_kernel 0x600" by (simp add: st)
  show "file_mode_get_by_string 0x600 (phys file_kernel) = FILE_MODE_READ"
    by (simp add: file_mode_get_by_string_def ph file_memory_def)
  have j: "0x500 + of_nat j < (0x600 :: u32)" if "j \<le> length sample_path" for j
  proof -
    have "j \<in> {0, 1, 2, 3, 4, 5, 6}" using that by (auto simp: sample_path_def)
    then show ?thesis by auto
  qed
  show "\<forall>j \<le> length sample_path. kheap_stable file_kernel (0x500 + of_nat j)"
  proof (intro allI impI)
    fix i assume "i \<le> length sample_path"
    have "0x500 + of_nat i < (0x700 :: u32)"
      by (rule order_less_trans [OF j [OF \<open>i \<le> length sample_path\<close>]]) simp
    then show "kheap_stable file_kernel (0x500 + of_nat i)" by (rule st)
  qed
  have "cstr_at (phys file_kernel) 0x500 sample_path = cstr_at (put_bytes 0x500 sample_path (\<lambda>_. 0)) 0x500 sample_path"
  proof (rule cstr_at_cong)
    fix i assume "i \<le> length sample_path"
    from j [OF this] show "phys file_kernel (0x500 + of_nat i) = put_bytes 0x500 sample_path (\<lambda>_. 0) (0x500 + of_nat i)"
      using order_less_trans [of _ "0x600 :: u32" "0x700"] by (subst ph) (auto simp: file_memory_def)
  qed
  also have "\<dots>" by (simp add: sample_path_def)
  finally show "cstr_at (phys file_kernel) 0x500 sample_path" by simp
qed

lemma file_kernel_open:
  "fss 0x2000 = Some sample_driver \<Longrightarrow> \<exists>s'. fopen sample_ports fss 0x500 0x600 file_kernel = Inr (1, s') \<and>
     fds_ok s' \<and> file_descriptors s' ! 0 \<noteq> 0 \<and> fd_filesystem (phys s') (file_descriptors s' ! 0) = 0x2000"
proof -
  assume d: "fss 0x2000 = Some sample_driver"
  note k = file_kernel_facts and pk = path_kernel_facts(5,6)
  have dr: "driver_opens sample_driver (disk_addr sample_ports) FILE_MODE_READ [[0x61], [0x62]] 0"
    by (simp add: driver_opens_def sample_driver_def iserr_def word_sless_alt)
  have slot: "first_zero 0 (file_descriptors file_kernel) = Some 0"
    unfolding k(8) by (simp add: numeral_eq_Suc)
  have "sample_path ! 0 = 0x30" by (simp add: sample_path_def)
  moreover have "disk_addr sample_ports \<noteq> 0" by (simp add: sample_ports_def)
  ultimately show ?thesis
    using fopen_ok [where fss = fss, OF k(1,3) pk(2) _ pk(1) _ k(4,5) _ k(6) _ k(7) _ _ dr _ _ slot] d
    by (auto simp: k(2,8))
qed

text \<open>C24. With the table well-formed and a page free, \<open>file_new_descriptor\<close> takes the first free slot:
  it returns a new, non-null descriptor whose index is the slot's number counted from 1, keeps the
  table well-formed and every stable byte. With every slot taken it returns \<open>-ENOMEM\<close> and
  changes nothing.\<close>

theorem file_new_descriptor_correct:
  assumes "fds_ok s" and "0 < kheap_pages s"
  shows "(0 \<notin> set (file_descriptors s) \<longrightarrow> file_new_descriptor s = (- enomem, 0, s)) \<and>
    (0 \<in> set (file_descriptors s) \<longrightarrow>
       (\<exists>i desc s'. i < 512 \<and> file_descriptors s ! i = 0 \<and> (\<forall>j < i. file_descriptors s ! j \<noteq> 0) \<and>
          file_new_descriptor s = (0, desc, s') \<and> desc \<noteq> 0 \<and> (\<forall>l. (desc, l) \<notin> kheap_live s) \<and>
          file_descriptors s' = (file_descriptors s)[i := desc] \<and> fd_index (phys s') desc = of_nat (i + 1) \<and>
          fds_ok s' \<and> (\<forall>x. kheap_stable s x \<longrightarrow> phys s' x = phys s x)))"
proof (intro conjI impI)
  assume "0 \<notin> set (file_descriptors s)"
  then have "first_zero 0 (file_descriptors s) = None" by (simp add: first_zero_None)
  then show "file_new_descriptor s = (- enomem, 0, s)" by (simp add: file_new_descriptor_def)
next
  assume "0 \<in> set (file_descriptors s)"
  then obtain i where i: "first_zero 0 (file_descriptors s) = Some i"
    using first_zero_None [of 0 "file_descriptors s"] by auto
  with first_zero_Some [OF i] new_descriptor_ok [OF assms i]
  show "\<exists>i desc s'. i < 512 \<and> file_descriptors s ! i = 0 \<and> (\<forall>j < i. file_descriptors s ! j \<noteq> 0) \<and>
      file_new_descriptor s = (0, desc, s') \<and> desc \<noteq> 0 \<and> (\<forall>l. (desc, l) \<notin> kheap_live s) \<and>
      file_descriptors s' = (file_descriptors s)[i := desc] \<and> fd_index (phys s') desc = of_nat (i + 1) \<and>
      fds_ok s' \<and> (\<forall>x. kheap_stable s x \<longrightarrow> phys s' x = phys s x)"
    by (metis add_0)
qed

theorem file_new_descriptor_correct_witness:
  "\<exists>desc s'. file_new_descriptor file_kernel = (0, desc, s') \<and> desc \<noteq> 0 \<and> fds_ok s'"
proof -
  have "0 \<in> set (file_descriptors file_kernel)" by (simp add: file_kernel_facts(8))
  moreover have "0 < kheap_pages file_kernel" by (simp add: file_kernel_facts(2))
  ultimately show ?thesis
    using file_new_descriptor_correct [OF file_kernel_facts(1)] by blast
qed

text \<open>Opening and releasing a descriptor is the identity: the table and the live blocks are the
  ones before, with their contents.\<close>

theorem descriptor_roundtrip:
  assumes "fds_ok s" and "0 < kheap_pages s" and "file_new_descriptor s = (0, desc, s')"
  shows "\<exists>s''. file_free_descriptor desc s' = Inr s'' \<and> fds_ok s'' \<and>
    file_descriptors s'' = file_descriptors s \<and> kheap_live s'' = kheap_live s \<and>
    kheap_pages s'' = kheap_pages s \<and> (\<forall>x. kheap_stable s x \<longrightarrow> phys s'' x = phys s x)"
proof -
  obtain i where i: "first_zero 0 (file_descriptors s) = Some i"
    using assms(3) by (auto simp: file_new_descriptor_def enomem_def split: option.splits)
  obtain d u where u: "file_new_descriptor s = (0, d, u)" "fds_ok u"
    "file_descriptors u = (file_descriptors s)[i := d]" "i < 512" "d \<noteq> 0"
    "kheap_live u = insert (d, 4096) (kheap_live s)" "(d, 4096) \<notin> kheap_live s"
    "\<And>x. kheap_stable s x \<Longrightarrow> phys u x = phys s x" "Suc (kheap_pages u) = kheap_pages s"
    by (rule new_descriptor_ok [OF assms(1,2) i]) blast
  then have "d = desc" "u = s'" using assms(3) by simp_all
  note s' = u(2-) [unfolded this]
  have slot: "file_descriptors s' ! i = desc" using s'(2,3) fds_okD(2) [OF assms(1)] by simp
  have old: "(file_descriptors s)[i := 0] = file_descriptors s"
    using first_zero_Some [OF i] by (simp add: list_update_same_conv)
  have st: "kheap_stable s' x" if "kheap_stable s x" for x
    using stable_mono [OF _ that] s'(5) by blast
  obtain s'' where
    "file_free_descriptor desc s' = Inr s''" "fds_ok s''" "file_descriptors s'' = (file_descriptors s')[i := 0]"
    "kheap_live s'' = kheap_live s' - {(desc, 4096)}" "kheap_pages s'' = Suc (kheap_pages s')"
    "\<And>x. kheap_stable s' x \<Longrightarrow> phys s'' x = phys s' x"
    by (rule free_descriptor_ok [OF s'(1,3) slot s'(4)]) blast
  with s' st old show ?thesis by (intro exI [of _ s'']) auto
qed

theorem descriptor_roundtrip_witness:
  "\<exists>desc s' s''. file_new_descriptor file_kernel = (0, desc, s') \<and>
     file_free_descriptor desc s' = Inr s'' \<and> file_descriptors s'' = replicate 512 0"
proof -
  have p: "0 < kheap_pages file_kernel" by (simp add: file_kernel_facts(2))
  have "first_zero 0 (file_descriptors file_kernel) = Some 0"
    unfolding file_kernel_facts(8) by (simp add: numeral_eq_Suc)
  from new_descriptor_ok [OF file_kernel_facts(1) p this] obtain desc s' where
    "file_new_descriptor file_kernel = (0, desc, s')" by metis
  with descriptor_roundtrip [OF file_kernel_facts(1) p this] show ?thesis
    by (auto simp: file_kernel_facts(8))
qed

text \<open>The number stored in an open descriptor finds it again, except for the last slot of the
  table: \<open>file_new_descriptor\<close> hands out 512 for it, and \<open>file_get_descriptor\<close> rejects 512, so that
  descriptor can be neither used nor closed.\<close>

theorem file_get_descriptor_index:
  assumes "fds_ok s" and "i < 512" and "file_descriptors s ! i \<noteq> 0"
  shows "file_get_descriptor (fd_index (phys s) (file_descriptors s ! i)) s =
    (if i = 511 then 0 else file_descriptors s ! i)"
  using get_descriptor_of_nat [OF assms(2), of s] fds_okD(4) [OF assms] assms(2) by auto

theorem file_get_descriptor_index_witness:
  "\<exists>desc s' :: sample_device files. file_new_descriptor file_kernel = (0, desc, s') \<and>
     file_get_descriptor (fd_index (phys s') desc) s' = desc"
proof -
  have p: "0 < kheap_pages file_kernel" by (simp add: file_kernel_facts(2))
  have "first_zero 0 (file_descriptors file_kernel) = Some 0"
    unfolding file_kernel_facts(8) by (simp add: numeral_eq_Suc)
  from new_descriptor_ok [OF file_kernel_facts(1) p this] obtain desc s' where
    "file_new_descriptor file_kernel = (0, desc, s')" "fds_ok s'" "file_descriptors s' ! 0 = desc" "desc \<noteq> 0"
    by (metis file_kernel_facts(8) length_replicate nth_list_update_eq)
  with file_get_descriptor_index [of s' 0] show ?thesis by auto
qed

text \<open>\<open>fopen\<close> of a path on drive 0 with at least one part and a valid mode, on a disk whose
  driver opens it, returns the number of the first free slot. The slot's descriptor records the
  driver, its private data and the disk; below 512 the number finds the descriptor.\<close>

theorem fopen_correct:
  assumes "fds_ok s" and "cstr_at (phys s) filename t" and "path_valid t" and "t ! 0 = 0x30"
    and "path_parts (drop 3 t) = names" and "names \<noteq> []"
    and "\<forall>j \<le> length t. kheap_stable s (filename + of_nat j)"
    and "file_mode_get_by_string mode_str (phys s) = mode" and "mode \<noteq> FILE_MODE_INVALID"
    and "kheap_stable s mode_str"
    and "disk_addr io \<noteq> 0" and "disk_filesystem (the_disk s) = fsp" and "fsp \<noteq> 0" and "fss fsp = Some ops"
    and "driver_opens ops (disk_addr io) mode names k"
    and "2 * length names + k + 2 \<le> kheap_pages s" and "2 * length names + 3 \<le> kheap_pages s"
    and "first_zero 0 (file_descriptors s) = Some i"
  shows "\<exists>p desc s'. fopen io fss filename mode_str s = Inr (of_nat (i + 1), s') \<and> fds_ok s' \<and>
    file_descriptors s' = (file_descriptors s)[i := desc] \<and> desc \<noteq> 0 \<and>
    (i < 511 \<longrightarrow> file_get_descriptor (of_nat (i + 1)) s' = desc) \<and>
    fd_filesystem (phys s') desc = fsp \<and> fd_disk (phys s') desc = disk_addr io \<and>
    fd_private (phys s') desc = p \<and>
    (\<exists>q s1 s2. path_list (phys s1) q names \<and> fs_open_op ops (disk_addr io) q mode s1 = Inr (p, s2))"
proof -
  obtain p desc s' where o: "fopen io fss filename mode_str s = Inr (of_nat (i + 1), s')" "fds_ok s'"
    "file_descriptors s' = (file_descriptors s)[i := desc]" "desc \<noteq> 0" "i < 512"
    "fd_filesystem (phys s') desc = fsp" "fd_disk (phys s') desc = disk_addr io" "fd_private (phys s') desc = p"
    "\<exists>q s1 s2. path_list (phys s1) q names \<and> fs_open_op ops (disk_addr io) q mode s1 = Inr (p, s2)"
    using fopen_ok [where fss = fss and ops = ops and i = i, OF assms] by blast
  moreover have "file_descriptors s' ! i = desc" using o(3,5) fds_okD(2) [OF assms(1)] by simp
  ultimately show ?thesis using get_descriptor_of_nat [OF o(5), of s'] by (metis (no_types))
qed

theorem fopen_correct_witness:
  "\<exists>s'. fopen sample_ports [0x2000 \<mapsto> sample_driver] 0x500 0x600 file_kernel = Inr (1, s') \<and>
     fd_private (phys s') (file_get_descriptor 1 s') = 0x1234"
proof -
  note k = file_kernel_facts and pk = path_kernel_facts(5,6)
  have dr: "driver_opens sample_driver (disk_addr sample_ports) FILE_MODE_READ [[0x61], [0x62]] 0"
    by (simp add: driver_opens_def sample_driver_def iserr_def word_sless_alt)
  have slot: "first_zero 0 (file_descriptors file_kernel) = Some 0"
    unfolding k(8) by (simp add: numeral_eq_Suc)
  have "sample_path ! 0 = 0x30" by (simp add: sample_path_def)
  moreover have "disk_addr sample_ports \<noteq> 0" by (simp add: sample_ports_def)
  ultimately show ?thesis
    using fopen_correct [where fss = "[0x2000 \<mapsto> sample_driver]", OF k(1,3) pk(2) _ pk(1) _ k(4,5) _ k(6) _ k(7) _ _ dr _ _ slot]
    by (auto simp: k(2) sample_driver_def)
qed

text \<open>\<open>fopen\<close> is never negative. It returns 0 and leaves the descriptor table as it was for a path
  that is not valid, that names only the drive or another drive than 0, without a filesystem on the
  disk, and for an unknown mode.\<close>

theorem fopen_rejects:
  assumes "fds_ok s" and "cstr_at (phys s) filename t" and "length t < 2 ^ 31"
    and "\<forall>j \<le> length t. kheap_stable s (filename + of_nat j)" and "kheap_stable s mode_str"
    and "2 * length (path_parts (drop 3 t)) + 3 \<le> kheap_pages s"
    and "\<not> path_valid t \<or> path_parts (drop 3 t) = [] \<or> t ! 0 \<noteq> 0x30 \<or> disk_filesystem (the_disk s) = 0 \<or>
      file_mode_get_by_string mode_str (phys s) = FILE_MODE_INVALID"
  shows "\<exists>s'. fopen io fss filename mode_str s = Inr (0, s') \<and> fds_ok s' \<and>
    file_descriptors s' = file_descriptors s \<and> (\<forall>x. kheap_stable s x \<longrightarrow> phys s' x = phys s x)"
proof -
  obtain s' where s': "fopen io fss filename mode_str s = Inr (0, s')" "kheap.more s' = kheap.more s" "kheap_inv s'"
    "kheap_live s \<subseteq> kheap_live s'" "\<And>x. kheap_stable s x \<Longrightarrow> phys s' x = phys s x"
    by (rule fopen_rejected [where io = io and fss = fss, OF fds_okD(1) [OF assms(1)] assms(2-7)]) (rule that; assumption)
  note same = more_files [OF s'(2)]
  have "fds_ok s'" by (rule fds_ok_step [OF assms(1) s'(3) same(1) s'(4)]) (rule s'(5))
  with s'(1,5) same(1) show ?thesis by blast
qed

theorem fopen_rejects_witness:
  "\<exists>s'. fopen sample_ports (\<lambda>_. None) 0x600 0x600 file_kernel = Inr (0, s')"
proof -
  note k = file_kernel_facts
  have nv: "\<not> path_valid [0x72]" by (simp add: path_valid_def)
  have ph: "phys file_kernel 0x600 = 0x72" "phys file_kernel 0x601 = 0"
    using kheap_init_state [of "cold_kernel\<lparr>phys := file_memory\<rparr>"]
    by (simp_all add: file_kernel_def kheap_extend file_memory_def sample_path_def in_table_def in_region_def)
  have "kheap_stable file_kernel 0x601"
    by (simp add: kheap_stable_def in_table_def in_heap_def in_region_def)
  then have st: "\<forall>j \<le> length [0x72 :: u8]. kheap_stable file_kernel (0x600 + of_nat j)"
    using k(6) by (auto simp: le_Suc_eq)
  show ?thesis
    using fopen_rejects [OF k(1) _ _ st k(6), of sample_ports "\<lambda>_. None"] nv ph
    by (auto simp: k(2) path_parts.simps)
qed

text \<open>\<open>fread\<close>, \<open>fseek\<close> and \<open>fstat\<close> of a number that finds a descriptor are exactly the driver's
  operation on the descriptor's disk and private data, results and state untouched; of any other
  number, or for an empty read, they return the error code and change nothing.\<close>

theorem file_operations_dispatch:
  assumes "file_get_descriptor fd s \<noteq> 0 \<Longrightarrow> fss (fd_filesystem (phys s) (file_get_descriptor fd s)) = Some ops"
  defines "desc \<equiv> file_get_descriptor fd s"
  shows "fseek fss fd offset whence s =
      (if desc = 0 then Inr (- eio, s) else fs_seek_op ops (fd_private (phys s) desc) offset whence s) \<and>
    fstat fss fd stat s =
      (if desc = 0 then Inr (- eio, s)
       else fs_stat_op ops (fd_disk (phys s) desc) (fd_private (phys s) desc) stat s) \<and>
    fread fss p sz nmemb fd s =
      (if desc = 0 \<or> sz = 0 \<or> nmemb = 0 then Inr (- einvarg, s)
       else fs_read_op ops (fd_disk (phys s) desc) (fd_private (phys s) desc) sz nmemb p s)"
proof -
  have "file_get_descriptor fd s = 0" if "fd <s 1"
    using that by (simp add: get_descriptor_eq word_sless_alt)
  with assms(1) show ?thesis
    by (auto simp: fseek_def fstat_def fread_def desc_def Let_def)
qed

theorem file_operations_dispatch_witness:
  "\<exists>s'. fopen sample_ports [0x2000 \<mapsto> sample_driver] 0x500 0x600 file_kernel = Inr (1, s') \<and>
     fread [0x2000 \<mapsto> sample_driver] 0x700 8 1 1 s' = Inr (1, s')"
proof -
  let ?fss = "[0x2000 \<mapsto> sample_driver] :: ptr \<rightharpoonup> sample_device files filesystem"
  have d: "?fss 0x2000 = Some sample_driver" by simp
  obtain s' where s': "fopen sample_ports ?fss 0x500 0x600 file_kernel = Inr (1, s')" "fds_ok s'"
    "file_descriptors s' ! 0 \<noteq> 0" "fd_filesystem (phys s') (file_descriptors s' ! 0) = 0x2000"
    using file_kernel_open [where fss = ?fss, OF d] by blast
  have g: "file_get_descriptor 1 s' = file_descriptors s' ! 0" using get_descriptor_of_nat [of 0 s'] by simp
  then have "?fss (fd_filesystem (phys s') (file_get_descriptor 1 s')) = Some sample_driver" using s' by simp
  from file_operations_dispatch [of 1 s' ?fss, OF this] show ?thesis using s' g by (auto simp: sample_driver_def)
qed

text \<open>\<open>fclose\<close> of an open descriptor calls the driver's \<open>close\<close> on its private data. When that
  succeeds the slot is empty afterwards, its page is free and no other descriptor is touched; an
  error of the driver keeps the descriptor open.\<close>

theorem fclose_correct:
  assumes "i < 511" and "file_descriptors s ! i = desc" and "desc \<noteq> 0"
    and "fss (fd_filesystem (phys s) desc) = Some ops"
    and "fs_close_op ops (fd_private (phys s) desc) s = Inr (res, s1)"
    and "fds_ok s1" and "file_descriptors s1 = file_descriptors s"
  shows "(res \<noteq> 0 \<longrightarrow> fclose fss (of_nat (i + 1)) s = Inr (res, s1)) \<and>
    (res = 0 \<longrightarrow> (\<exists>s'. fclose fss (of_nat (i + 1)) s = Inr (0, s') \<and> fds_ok s' \<and>
       file_descriptors s' = (file_descriptors s)[i := 0] \<and> file_get_descriptor (of_nat (i + 1)) s' = 0 \<and>
       kheap_live s' = kheap_live s1 - {(desc, 4096)} \<and> (\<forall>x. kheap_stable s1 x \<longrightarrow> phys s' x = phys s1 x)))"
proof -
  have i: "i < 512" using assms(1) by simp
  have nz: "(of_nat (i + 1) :: i32) \<noteq> 0" using of_nat_word_inj [of "i + 1" 0] i by simp
  have c: "fclose fss (of_nat (i + 1)) s = (if res = 0
      then and_then (file_free_descriptor desc s1) (\<lambda>s2. Inr (res, s2)) else Inr (res, s1))"
    using assms nz get_descriptor_of_nat [OF i, of s]
    by (simp add: fclose_def Let_def lameos_ok_def del: of_nat_Suc of_nat_add)
  obtain s' where s': "file_free_descriptor desc s1 = Inr s'" "fds_ok s'"
    "file_descriptors s' = (file_descriptors s1)[i := 0]" "kheap_live s' = kheap_live s1 - {(desc, 4096)}"
    "\<And>x. kheap_stable s1 x \<Longrightarrow> phys s' x = phys s1 x"
    by (rule free_descriptor_ok [OF assms(6) i, of desc]) (use assms(2,3,7) in auto)
  then have "file_get_descriptor (of_nat (i + 1)) s' = 0"
    using get_descriptor_of_nat [OF i, of s'] i fds_okD(2) [OF assms(6)] by simp
  then show ?thesis using s' c assms(7) by auto
qed

theorem fclose_correct_witness:
  "\<exists>s1 s2. fopen sample_ports [0x2000 \<mapsto> sample_driver] 0x500 0x600 file_kernel = Inr (1, s1) \<and>
     fclose [0x2000 \<mapsto> sample_driver] 1 s1 = Inr (0, s2) \<and> file_get_descriptor 1 s2 = 0"
proof -
  let ?fss = "[0x2000 \<mapsto> sample_driver] :: ptr \<rightharpoonup> sample_device files filesystem"
  have d: "?fss 0x2000 = Some sample_driver" by simp
  obtain s' where s': "fopen sample_ports ?fss 0x500 0x600 file_kernel = Inr (1, s')" "fds_ok s'"
    "file_descriptors s' ! 0 \<noteq> 0" "fd_filesystem (phys s') (file_descriptors s' ! 0) = 0x2000"
    using file_kernel_open [where fss = ?fss, OF d] by blast
  then have f: "?fss (fd_filesystem (phys s') (file_descriptors s' ! 0)) = Some sample_driver" by simp
  have c: "fs_close_op sample_driver (fd_private (phys s') (file_descriptors s' ! 0)) s' = Inr (0, s')"
    by (simp add: sample_driver_def)
  from fclose_correct [where i = 0 and fss = ?fss, OF _ refl s'(3) f c s'(2) refl] s'(1) show ?thesis by auto
qed

text \<open>\<open>fclose\<close> of a number without a descriptor is not rejected, as the other operations reject it:
  unless the number is 0 the code calls through the pointer it finds at address 4.\<close>

theorem fclose_unopened:
  assumes "file_get_descriptor fd s = 0" and "fd \<noteq> 0" and "fss (load32 (phys s) 4) = None"
  shows "fclose fss fd s = Inl (Bad_Pointer (load32 (phys s) 4)) \<and>
    fseek fss fd offset whence s = Inr (- eio, s) \<and> fstat fss fd stat s = Inr (- eio, s) \<and>
    fread fss p sz nmemb fd s = Inr (- einvarg, s)"
  using assms by (simp add: fclose_def fseek_def fstat_def fread_def fd_filesystem_def Let_def)

theorem fclose_unopened_witness:
  "fclose (\<lambda>_. None) 3 file_kernel = Inl (Bad_Pointer (load32 (phys file_kernel) 4))"
proof -
  have "file_get_descriptor 3 file_kernel = 0"
    using get_descriptor_of_nat [of 2 file_kernel] by (simp add: file_kernel_facts(8))
  from fclose_unopened [OF this, of "\<lambda>_. None"] show ?thesis by simp
qed

text \<open>\<open>fs_resolve\<close> returns the first registered filesystem whose \<open>resolve\<close> accepts the disk, or
  NULL when none does, whatever the \<open>resolve\<close> functions do to the state inside the invariant they
  keep.\<close>

theorem fs_resolve_first:
  assumes "\<And>p u. p \<in> set (filesystems s) \<Longrightarrow> p \<noteq> 0 \<Longrightarrow> I u \<Longrightarrow>
      \<exists>ops u'. fss p = Some ops \<and> fs_resolve_op ops dsk u = Inr (verdict p, u') \<and> I u'"
    and "I s"
  shows "\<exists>s'. fs_resolve fss dsk s =
    Inr (case find (\<lambda>p. p \<noteq> 0 \<and> verdict p = 0) (filesystems s) of None \<Rightarrow> 0 | Some p \<Rightarrow> p, s') \<and> I s'"
  unfolding fs_resolve_def by (rule resolve_loop_first [where I = I, OF assms])

theorem fs_resolve_first_witness:
  "\<exists>s'. fs_resolve [0x2000 \<mapsto> sample_driver] 0x9000 file_kernel = Inr (0x2000, s')"
proof -
  have f: "filesystems file_kernel = 0x2000 # replicate 11 0"
    by (simp add: file_kernel_def kheap.extend_def)
  have "\<exists>s'. fs_resolve [0x2000 \<mapsto> sample_driver] 0x9000 file_kernel =
    Inr (case find (\<lambda>p. p \<noteq> 0 \<and> (0 :: i32) = 0) (filesystems file_kernel) of None \<Rightarrow> 0 | Some p \<Rightarrow> p, s') \<and> True"
    by (rule fs_resolve_first) (auto simp: f sample_driver_def)
  then show ?thesis by (simp add: f)
qed

end
