(* ===== verification/Virtual.thy ===== *)
theory Virtual
  imports Paging
begin

text \<open>
  Memory as the processor sees it through the page tables of \<open>src/memory/paging\<close>: the page walk,
  byte and word loads at virtual addresses, and the \<open>strncpy\<close> of \<open>src/string/string.c\<close> run in an
  address space. The lemmas connect the walk with the entries \<open>paging_get\<close> reads: a new address
  space is the identity, and mapping a range changes the walk of exactly its pages.
\<close>

section \<open>The page walk\<close>

definition paging_is_present :: u32 where "paging_is_present = 0x01"
definition paging_access_from_all :: u32 where "paging_access_from_all = 0x04"

text \<open>The processor's page walk; a page that is not present faults.\<close>

definition translate :: "ptr \<Rightarrow> mem \<Rightarrow> ptr \<Rightarrow> ptr option" where
  "translate directory m va =
     (let pde = load32 m (directory + 4 * (va div 0x400000));
          pte = load32 m ((pde AND 0xFFFFF000) + 4 * (va mod 0x400000 div 0x1000))
      in if pde AND paging_is_present = 0 \<or> pte AND paging_is_present = 0 then None
         else Some ((pte AND 0xFFFFF000) OR (va AND 0xFFF)))"

definition virt_load :: "ptr \<Rightarrow> mem \<Rightarrow> ptr \<Rightarrow> u8 option" where
  "virt_load directory m va = (case translate directory m va of None \<Rightarrow> None | Some a \<Rightarrow> Some (m a))"

definition virt_load32 :: "ptr \<Rightarrow> mem \<Rightarrow> ptr \<Rightarrow> u32 option" where
  "virt_load32 directory m va = do {
     b0 \<leftarrow> virt_load directory m va;
     b1 \<leftarrow> virt_load directory m (va + 1);
     b2 \<leftarrow> virt_load directory m (va + 2);
     b3 \<leftarrow> virt_load directory m (va + 3);
     Some (ucast b0 OR push_bit 8 (ucast b1) OR push_bit 16 (ucast b2) OR push_bit 24 (ucast b3))
   }"

text \<open>\<open>strncpy\<close> run in an address space: both pointers are virtual.\<close>

function virt_strncpy_loop ::
  "ptr \<Rightarrow> ptr \<Rightarrow> ptr \<Rightarrow> i32 \<Rightarrow> i32 \<Rightarrow> mem \<Rightarrow> halt + i32 \<times> mem" where
  "virt_strncpy_loop directory dest src count i m =
     (if i <s count - 1 then
        case translate directory m (src + i) of None \<Rightarrow> Inl (Bad_Pointer (src + i))
        | Some a \<Rightarrow>
            if m a = 0 then Inr (i, m)
            else
              case translate directory m (dest + i) of None \<Rightarrow> Inl (Bad_Pointer (dest + i))
              | Some b \<Rightarrow> virt_strncpy_loop directory dest src count (i + 1) (m(b := m a))
      else Inr (i, m))"
  by pat_completeness auto
termination
  by (relation "measure (\<lambda>(directory, dest, src, count, i, m). nat (sint (count - 1) - sint i))")
     (auto simp: sint_succ word_sless_alt)

declare virt_strncpy_loop.simps [simp del]

definition virt_strncpy :: "ptr \<Rightarrow> ptr \<Rightarrow> ptr \<Rightarrow> i32 \<Rightarrow> mem \<Rightarrow> halt + mem" where
  "virt_strncpy directory dest src count m =
     and_then (virt_strncpy_loop directory dest src count 0 m) (\<lambda>(i, m').
       case translate directory m' (dest + i) of None \<Rightarrow> Inl (Bad_Pointer (dest + i))
       | Some b \<Rightarrow> Inr (m'(b := 0)))"

section \<open>The walk and the entries\<close>

lemma page_split: "unat va div 4096 < 2 ^ 20" for va :: ptr
  using unat_range_u32 [of va] by simp

lemma page_offset: "page_addr (unat va div 4096) + (va AND 0xFFF) = va"
proof -
  have "va AND 0xFFF = of_nat (unat va mod 4096)" using unat_eq_of_nat [OF low12_mod [of va]] .
  then have "page_addr (unat va div 4096) + (va AND 0xFFF) = of_nat (4096 * (unat va div 4096) + unat va mod 4096)"
    unfolding page_addr_def by (simp only: of_nat_add)
  also have "4096 * (unat va div 4096) + unat va mod 4096 = unat va" by simp
  finally show ?thesis by simp
qed

lemma page_addr_low: "n < 2 ^ 20 \<Longrightarrow> page_addr n AND 0xFFF = 0"
  using low12_mod [of "page_addr n"] by (simp add: word_unat_eq_iff unat_page_addr)

lemma page_or_offset:
  assumes "n < 2 ^ 20"
  shows "page_addr n OR (va AND 0xFFF) = page_addr n + (va AND 0xFFF)"
proof (rule disjunctive_add [symmetric])
  have high: "bit (page_addr n) k \<Longrightarrow> 12 \<le> k" for k
  proof -
    assume b: "bit (page_addr n) k"
    have "bit (page_addr n AND 0xFFF) k \<longleftrightarrow> bit (page_addr n) k \<and> k < 12"
      by (auto simp: bit_simps bit_FFF dest: bit_imp_le_length)
    then show ?thesis using b page_addr_low [OF assms] by (cases "k < 12") auto
  qed
  fix k
  show "\<not> bit (page_addr n) k \<or> \<not> bit (va AND 0xFFF) k"
    using high [of k] by (auto simp: bit_simps bit_FFF)
qed

text \<open>Every table of the directory is present.\<close>

definition tables_present :: "ptr \<Rightarrow> mem \<Rightarrow> bool" where
  "tables_present directory m \<longleftrightarrow>
     (\<forall>i < 1024. load32 m (directory + 4 * of_nat i) AND paging_is_present \<noteq> 0)"

lemma walk_indices:
  "va div 0x400000 = of_nat (unat va div 4096 div 1024)"
  "va mod 0x400000 div 0x1000 = of_nat (unat va div 4096 mod 1024)" for va :: ptr
proof -
  have "unat (va div 0x400000) = unat va div 4096 div 1024"
    by (simp add: unat_div_distrib div_mult2_eq)
  then show "va div 0x400000 = of_nat (unat va div 4096 div 1024)" by (rule unat_eq_of_nat)
  have "unat (va mod 0x400000 div 0x1000) = unat va mod 4194304 div 4096"
    by (simp add: unat_div_distrib unat_mod_distrib)
  also have "\<dots> = unat va div 4096 mod 1024"
    using mod_mult2_eq [of "unat va" 4096 1024] by simp
  finally show "va mod 0x400000 div 0x1000 = of_nat (unat va div 4096 mod 1024)" by (rule unat_eq_of_nat)
qed

lemma translate_eq:
  assumes "tables_present directory m"
  shows "translate directory m va =
    (let e = load32 m (entry_addr m directory (unat va div 4096))
     in if e AND paging_is_present = 0 then None else Some ((e AND 0xFFFFF000) OR (va AND 0xFFF)))"
proof -
  have "unat va div 4096 div 1024 < 1024" using page_split [of va] by simp
  then show ?thesis
    using assms by (simp add: translate_def walk_indices Let_def tables_present_def entry_addr_def dir_table_def)
qed

lemma translate_mapped:
  assumes "tables_present directory m" and "q < 2 ^ 20" and "flags AND 0xFFFFF000 = 0"
    and "flags AND paging_is_present \<noteq> 0"
    and "load32 m (entry_addr m directory (unat va div 4096)) = page_addr q OR flags"
  shows "translate directory m va = Some (page_addr q + (va AND 0xFFF))"
proof -
  have "(page_addr q OR flags) AND paging_is_present \<noteq> 0"
    using assms(4) by (auto simp: bit_eq_iff bit_simps)
  moreover have "(page_addr q OR flags) AND 0xFFFFF000 = page_addr q"
    by (rule page_or [OF page_addr_low [OF assms(2)] assms(3)])
  ultimately show ?thesis
    by (simp add: translate_eq [OF assms(1)] assms(5) Let_def page_or_offset [OF assms(2)])
qed

text \<open>A new address space is the identity.\<close>

lemma space_built_present:
  assumes "space_built s0 flags chunk dir ts s" and "bit flags 0"
  shows "tables_present dir (phys s)"
proof -
  have "(t OR ucast flags OR paging_is_writeable) AND paging_is_present \<noteq> 0" for t :: u32
  proof -
    have "bit ((t OR ucast flags OR paging_is_writeable) AND paging_is_present) 0"
      using assms(2) by (simp add: bit_simps paging_is_present_def)
    then show ?thesis by auto
  qed
  then show ?thesis using assms(1) by (simp add: space_built_def tables_present_def)
qed

lemma space_built_identity:
  assumes built: "space_built s0 flags chunk dir ts s" and bit: "bit flags 0"
  shows "translate dir (phys s) va = Some va"
proof -
  let ?n = "unat va div 4096"
  have "load32 (phys s) (entry_addr (phys s) dir ?n) = page_addr ?n OR ucast flags"
    using space_built_lookup [OF built page_split] space_built_chunk_ok(2) [OF built]
    by (simp add: chunk_lookup_def paging_get_page [OF page_split])
  moreover have "ucast flags AND paging_is_present \<noteq> 0"
  proof -
    have "bit (ucast flags AND paging_is_present) 0" using bit by (simp add: bit_simps paging_is_present_def)
    then show ?thesis by auto
  qed
  ultimately show ?thesis
    using translate_mapped [OF space_built_present [OF built bit] page_split ucast_page] page_offset by simp
qed

section \<open>Mapping a range\<close>

text \<open>\<open>same_space chunk m0 m\<close>: \<open>m\<close> differs from \<open>m0\<close> in the entries of the chunk's tables only.\<close>

definition same_space :: "ptr \<Rightarrow> mem \<Rightarrow> mem \<Rightarrow> bool" where
  "same_space chunk m0 m \<longleftrightarrow> load32 m chunk = load32 m0 chunk \<and>
     (\<forall>i < 1024. load32 m (load32 m0 chunk + 4 * of_nat i) = load32 m0 (load32 m0 chunk + 4 * of_nat i)) \<and>
     (\<forall>x. (\<forall>i < 1024. \<not> in_region (dir_table m0 (load32 m0 chunk) i) 4096 x) \<longrightarrow> m x = m0 x)"

lemma same_space_refl [simp]: "same_space chunk m m"
  by (simp add: same_space_def)

lemma same_space_table:
  "same_space chunk m0 m \<Longrightarrow> i < 1024 \<Longrightarrow>
   dir_table m (load32 m0 chunk) i = dir_table m0 (load32 m0 chunk) i"
  by (simp add: same_space_def dir_table_def)

lemma same_space_trans:
  assumes "same_space chunk m0 m1" and "same_space chunk m1 m2"
  shows "same_space chunk m0 m2"
  using assms same_space_table [OF assms(1)] unfolding same_space_def by simp

lemma same_space_set:
  assumes "chunk_ok chunk m" and "n < 2 ^ 20"
  shows "same_space chunk m (store32 m (entry_addr m (load32 m chunk) n) v)"
proof -
  have "space_ok (load32 m chunk) m" using assms(1) by (simp add: chunk_ok_def)
  note w = dir_word_set [OF this assms(2)]
  have "n div 1024 < 1024" using assms(2) by simp
  then have "store32 m (entry_addr m (load32 m chunk) n) v x = m x"
    if "\<forall>i < 1024. \<not> in_region (dir_table m (load32 m chunk) i) 4096 x" for x
    using that entry_in_table [OF assms(2)] by (intro store32_other) blast
  with w show ?thesis by (simp add: same_space_def load_chunk_set [OF assms])
qed

interpretation space_map: page_map "paging_map chunk" "chunk_lookup chunk"
    "\<lambda>m. chunk_ok chunk m \<and> same_space chunk m0 m" for chunk m0
proof
  fix s v p f w
  assume inv: "chunk_ok chunk s \<and> same_space chunk m0 s" and al: "paging_is_aligned v" "paging_is_aligned p"
  show "fst (paging_map chunk v p f s) = 0" using inv al chunk_map.map_ok by blast
  obtain n q where n: "n < 2 ^ 20" "v = page_addr n" and q: "q < 2 ^ 20" "p = page_addr q"
    using al by (auto simp: aligned_page_addr)
  have "same_space chunk s (snd (paging_map chunk v p f s))"
    using same_space_set [of chunk s n] inv n q by (simp add: paging_map_page)
  then show "chunk_ok chunk (snd (paging_map chunk v p f s)) \<and> same_space chunk m0 (snd (paging_map chunk v p f s))"
    using inv al chunk_map.map_inv same_space_trans by blast
  assume "paging_is_aligned w"
  then show "chunk_lookup chunk w (snd (paging_map chunk v p f s)) =
      (if w = v then p OR f else chunk_lookup chunk w s)"
    using inv al chunk_map.lookup_map by blast
qed (rule chunk_map.map_unaligned)

lemma map_to_space:
  assumes ok: "chunk_ok chunk m" and r: "q \<le> r" "r < 2 ^ 20" "n + (r - q) \<le> 2 ^ 20" "n < 2 ^ 20"
  obtains m' where "paging_map_to chunk (page_addr n) (page_addr q) (page_addr r) flags m = (0, m')"
    and "chunk_ok chunk m'" and "same_space chunk m m'"
    and "\<And>i. i < 2 ^ 20 \<Longrightarrow> chunk_lookup chunk (page_addr i) m' =
      (if n \<le> i \<and> i < n + (r - q) then page_addr (q + (i - n)) OR flags
       else chunk_lookup chunk (page_addr i) m)"
proof
  have inv: "chunk_ok chunk m \<and> same_space chunk m m" using ok by simp
  have le: "q + (r - q) \<le> 2 ^ 20" using r by linarith
  note mp = space_map.map_pages_correct [OF inv r(3) le]
  show "paging_map_to chunk (page_addr n) (page_addr q) (page_addr r) flags m =
      (0, map_pages (paging_map chunk) (r - q) n q flags m)"
    by (rule paging_map_to_pages [OF ok r])
  show "chunk_ok chunk (map_pages (paging_map chunk) (r - q) n q flags m)"
    "same_space chunk m (map_pages (paging_map chunk) (r - q) n q flags m)"
    using mp [of 0] by simp_all
  show "chunk_lookup chunk (page_addr i) (map_pages (paging_map chunk) (r - q) n q flags m) =
      (if n \<le> i \<and> i < n + (r - q) then page_addr (q + (i - n)) OR flags
       else chunk_lookup chunk (page_addr i) m)" if "i < 2 ^ 20" for i
    using mp [OF that] by simp
qed

text \<open>An address space is described by its chunk word and its directory alone.\<close>

lemma space_frame:
  assumes "\<And>x. in_region chunk 4 x \<Longrightarrow> m' x = m x" and "\<And>x. in_region (load32 m chunk) 4096 x \<Longrightarrow> m' x = m x"
  shows "load32 m' chunk = load32 m chunk"
    and "i < 1024 \<Longrightarrow> dir_table m' (load32 m chunk) i = dir_table m (load32 m chunk) i"
    and "chunk_ok chunk m' \<longleftrightarrow> chunk_ok chunk m"
    and "tables_present (load32 m chunk) m' \<longleftrightarrow> tables_present (load32 m chunk) m"
proof -
  show c: "load32 m' chunk = load32 m chunk" by (rule load32_cong) (rule assms(1))
  have w: "load32 m' (load32 m chunk + 4 * of_nat i) = load32 m (load32 m chunk + 4 * of_nat i)" if "i < 1024" for i
    by (rule load32_word_in [OF table_word [OF that] assms(2)])
  show "i < 1024 \<Longrightarrow> dir_table m' (load32 m chunk) i = dir_table m (load32 m chunk) i"
    by (simp add: dir_table_def w)
  show "chunk_ok chunk m' \<longleftrightarrow> chunk_ok chunk m" "tables_present (load32 m chunk) m' \<longleftrightarrow> tables_present (load32 m chunk) m"
    by (simp_all add: chunk_ok_def space_ok_def tables_present_def dir_table_def c w)
qed

text \<open>The walk after the mapping.\<close>

lemma translate_same:
  assumes "tables_present directory m" and "tables_present directory m'"
    and "load32 m' (entry_addr m' directory (unat va div 4096)) = load32 m (entry_addr m directory (unat va div 4096))"
  shows "translate directory m' va = translate directory m va"
  using assms(3) by (simp add: translate_eq [OF assms(1)] translate_eq [OF assms(2)])

lemma map_to_walk:
  assumes ok: "chunk_ok chunk m" and r: "q \<le> r" "r < 2 ^ 20" "n + (r - q) \<le> 2 ^ 20" "n < 2 ^ 20"
    and pr: "tables_present (load32 m chunk) m"
    and fl: "flags AND 0xFFFFF000 = 0" "flags AND paging_is_present \<noteq> 0"
  obtains m' where "paging_map_to chunk (page_addr n) (page_addr q) (page_addr r) flags m = (0, m')"
    and "chunk_ok chunk m'" and "same_space chunk m m'" and "tables_present (load32 m chunk) m'"
    and "\<And>va. translate (load32 m chunk) m' va =
      (if n \<le> unat va div 4096 \<and> unat va div 4096 < n + (r - q)
       then Some (page_addr (q + (unat va div 4096 - n)) + (va AND 0xFFF))
       else translate (load32 m chunk) m va)"
proof -
  obtain m' where m': "paging_map_to chunk (page_addr n) (page_addr q) (page_addr r) flags m = (0, m')"
    "chunk_ok chunk m'" "same_space chunk m m'"
    "\<And>i. i < 2 ^ 20 \<Longrightarrow> chunk_lookup chunk (page_addr i) m' =
      (if n \<le> i \<and> i < n + (r - q) then page_addr (q + (i - n)) OR flags
       else chunk_lookup chunk (page_addr i) m)"
    by (rule map_to_space [OF ok r]) blast
  let ?D = "load32 m chunk"
  have D: "load32 m' chunk = ?D" using m'(3) by (simp add: same_space_def)
  have pr': "tables_present ?D m'" using pr m'(3) by (simp add: same_space_def tables_present_def)
  have look: "load32 m' (entry_addr m' ?D i) = (if n \<le> i \<and> i < n + (r - q) then page_addr (q + (i - n)) OR flags
      else load32 m (entry_addr m ?D i))" if "i < 2 ^ 20" for i
    using m'(4) [OF that] that by (simp add: chunk_lookup_def D paging_get_page)
  have "translate ?D m' va = (if n \<le> unat va div 4096 \<and> unat va div 4096 < n + (r - q)
       then Some (page_addr (q + (unat va div 4096 - n)) + (va AND 0xFFF)) else translate ?D m va)" for va
  proof (cases "n \<le> unat va div 4096 \<and> unat va div 4096 < n + (r - q)")
    case True
    then have "q + (unat va div 4096 - n) < 2 ^ 20" using r by linarith
    moreover have "load32 m' (entry_addr m' ?D (unat va div 4096)) =
        page_addr (q + (unat va div 4096 - n)) OR flags"
      unfolding look [OF page_split] using True by (rule if_P)
    ultimately show ?thesis
      using True by (simp only: translate_mapped [OF pr' _ fl] if_True simp_thms)
  next
    case False
    then have "load32 m' (entry_addr m' ?D (unat va div 4096)) = load32 m (entry_addr m ?D (unat va div 4096))"
      unfolding look [OF page_split] by (rule if_not_P)
    then show ?thesis unfolding if_not_P [OF False] by (rule translate_same [OF pr pr'])
  qed
  with m' pr' show thesis by (intro that)
qed

section \<open>What a load reads\<close>

text \<open>The bytes that a byte load at a virtual address reads: those of the two entries of the walk
  and the byte itself.\<close>

definition entry_reads :: "ptr \<Rightarrow> mem \<Rightarrow> ptr \<Rightarrow> ptr \<Rightarrow> bool" where
  "entry_reads directory m va x \<longleftrightarrow>
     in_region (directory + 4 * (va div 0x400000)) 4 x \<or>
     in_region ((load32 m (directory + 4 * (va div 0x400000)) AND 0xFFFFF000) +
       4 * (va mod 0x400000 div 0x1000)) 4 x"

definition walk_reads :: "ptr \<Rightarrow> mem \<Rightarrow> ptr \<Rightarrow> ptr \<Rightarrow> bool" where
  "walk_reads directory m va x \<longleftrightarrow> entry_reads directory m va x \<or> translate directory m va = Some x"

lemma translate_cong:
  assumes "\<And>x. entry_reads directory m va x \<Longrightarrow> m' x = m x"
  shows "translate directory m' va = translate directory m va"
proof -
  let ?pde = "directory + 4 * (va div 0x400000)"
  have d: "load32 m' ?pde = load32 m ?pde"
    by (rule load32_cong, rule assms) (simp add: entry_reads_def)
  have "load32 m' ((load32 m ?pde AND 0xFFFFF000) + 4 * (va mod 0x400000 div 0x1000)) =
      load32 m ((load32 m ?pde AND 0xFFFFF000) + 4 * (va mod 0x400000 div 0x1000))"
    by (rule load32_cong, rule assms) (simp add: entry_reads_def)
  then show ?thesis unfolding translate_def d by (simp add: Let_def)
qed

lemma virt_load_cong:
  assumes "\<And>x. walk_reads directory m va x \<Longrightarrow> m' x = m x"
  shows "translate directory m' va = translate directory m va" "virt_load directory m' va = virt_load directory m va"
proof -
  show t: "translate directory m' va = translate directory m va"
    by (rule translate_cong) (simp add: assms walk_reads_def)
  show "virt_load directory m' va = virt_load directory m va"
    using assms by (simp add: virt_load_def t walk_reads_def split: option.split)
qed

definition word_reads :: "ptr \<Rightarrow> mem \<Rightarrow> ptr \<Rightarrow> ptr \<Rightarrow> bool" where
  "word_reads directory m va x \<longleftrightarrow> walk_reads directory m va x \<or> walk_reads directory m (va + 1) x \<or>
     walk_reads directory m (va + 2) x \<or> walk_reads directory m (va + 3) x"

lemma virt_load32_cong:
  assumes "\<And>x. word_reads directory m va x \<Longrightarrow> m' x = m x"
  shows "virt_load32 directory m' va = virt_load32 directory m va"
proof -
  have "virt_load directory m' w = virt_load directory m w" if "w \<in> {va, va + 1, va + 2, va + 3}" for w
    by (rule virt_load_cong, rule assms) (use that in \<open>auto simp: word_reads_def\<close>)
  then show ?thesis by (simp add: virt_load32_def)
qed

lemma virt_load32_at:
  assumes "translate directory m va = Some a" and "translate directory m (va + 1) = Some (a + 1)"
    and "translate directory m (va + 2) = Some (a + 2)" and "translate directory m (va + 3) = Some (a + 3)"
  shows "virt_load32 directory m va = Some (load32 m a)"
  by (simp add: virt_load32_def virt_load_def load32_def assms)

end
