(* ===== verification/Task.thy ===== *)
theory Task
  imports File Virtual
begin

text \<open>
  \<open>src/task/task.c\<close>, \<open>task.h\<close> and \<open>task.asm\<close>, with \<open>kernel_page\<close> and \<open>kernel_registers\<close> of the
  kernel. A \<open>struct task\<close> is 64 bytes of memory; the tasks form a list linked through their
  \<open>next\<close> and \<open>prev\<close> words. Accesses through a task's address space go through the page tables
  of the directory in \<open>cr3\<close>; the kernel's own data lie in identity-mapped pages.
\<close>

section \<open>Data\<close>

text \<open>\<open>data_segments\<close> is the selector in \<open>ds\<close>, \<open>es\<close>, \<open>fs\<close> and \<open>gs\<close>; \<open>kernel_chunk\<close> is a global of
  \<open>kernel.c\<close>.\<close>

record 'd tasks = "'d files" +
  data_segments :: u16
  kernel_chunk :: ptr
  current_task :: ptr
  task_tail :: ptr
  task_head :: ptr

record registers =
  r_edi :: u32
  r_esi :: u32
  r_ebp :: u32
  r_ebx :: u32
  r_edx :: u32
  r_ecx :: u32
  r_eax :: u32
  r_ip :: u32
  r_cs :: u32
  r_flags :: u32
  r_esp :: u32
  r_ss :: u32

definition lameos_program_virtual_address :: ptr where "lameos_program_virtual_address = 0x400000"
definition lameos_user_program_stack_size :: u32 where "lameos_user_program_stack_size = 16384"
definition lameos_program_virtual_stack_address_start :: ptr where
  "lameos_program_virtual_stack_address_start = 0x3FF000"
definition lameos_program_virtual_stack_address_end :: ptr where
  "lameos_program_virtual_stack_address_end =
     lameos_program_virtual_stack_address_start - lameos_user_program_stack_size"
definition user_data_segment :: u32 where "user_data_segment = 0x23"
definition user_code_segment :: u32 where "user_code_segment = 0x1B"

text \<open>\<open>struct task\<close>: the page directory, the twelve registers from offset 4 on, the process and the
  links.\<close>

definition sizeof_task :: u32 where "sizeof_task = 64"
definition task_page_directory :: "mem \<Rightarrow> ptr \<Rightarrow> ptr" where "task_page_directory m t = load32 m t"
definition task_registers :: "ptr \<Rightarrow> ptr" where "task_registers t = t + 4"
definition task_process :: "mem \<Rightarrow> ptr \<Rightarrow> ptr" where "task_process m t = load32 m (t + 52)"
definition task_next :: "mem \<Rightarrow> ptr \<Rightarrow> ptr" where "task_next m t = load32 m (t + 56)"
definition task_prev :: "mem \<Rightarrow> ptr \<Rightarrow> ptr" where "task_prev m t = load32 m (t + 60)"

text \<open>The offsets of \<open>ip\<close>, \<open>cs\<close>, \<open>flags\<close>, \<open>esp\<close>, \<open>ss\<close>, \<open>eax\<close>, \<open>ebp\<close>, \<open>ebx\<close>, \<open>ecx\<close>, \<open>edi\<close>, \<open>edx\<close> and
  \<open>esi\<close> in \<open>struct registers\<close> and in \<open>struct interrupt_frame\<close>, in the order of \<open>task_save_state\<close>.\<close>

definition saved_fields :: "(u32 \<times> u32) list" where
  "saved_fields = [(28, 32), (32, 36), (36, 40), (40, 44), (44, 48), (24, 28), (8, 8), (12, 16),
     (20, 24), (0, 0), (16, 20), (4, 4)]"

section \<open>Address spaces\<close>

definition kernel_registers :: "('d, 'a) tasks_scheme \<Rightarrow> ('d, 'a) tasks_scheme" where
  "kernel_registers s = s\<lparr>data_segments := 0x10\<rparr>"

definition user_registers :: "('d, 'a) tasks_scheme \<Rightarrow> ('d, 'a) tasks_scheme" where
  "user_registers s = s\<lparr>data_segments := 0x23\<rparr>"

definition kernel_page :: "('d, 'a) tasks_scheme \<Rightarrow> ('d, 'a) tasks_scheme" where
  "kernel_page s = paging_switch (kernel_chunk s) (kernel_registers s)"

definition task_switch :: "ptr \<Rightarrow> ('d, 'a) tasks_scheme \<Rightarrow> i32 \<times> ('d, 'a) tasks_scheme" where
  "task_switch task s = (0, paging_switch (task_page_directory (phys s) task) (s\<lparr>current_task := task\<rparr>))"

definition task_page :: "('d, 'a) tasks_scheme \<Rightarrow> i32 \<times> ('d, 'a) tasks_scheme" where
  "task_page s = (let (_, s') = task_switch (current_task s) (user_registers s) in (0, s'))"

definition task_page_task :: "ptr \<Rightarrow> ('d, 'a) tasks_scheme \<Rightarrow> i32 \<times> ('d, 'a) tasks_scheme" where
  "task_page_task task s =
     (let s1 = user_registers s in (0, paging_switch (task_page_directory (phys s1) task) s1))"

section \<open>The task list\<close>

definition task_get_next :: "('d, 'a) tasks_scheme \<Rightarrow> ptr" where
  "task_get_next s =
     (if task_next (phys s) (current_task s) = 0 then task_head s
      else task_next (phys s) (current_task s))"

definition task_list_remove :: "ptr \<Rightarrow> ('d, 'a) tasks_scheme \<Rightarrow> ('d, 'a) tasks_scheme" where
  "task_list_remove task s =
     (let s1 = (if task_prev (phys s) task \<noteq> 0
                then s\<lparr>phys := store32 (phys s) (task_prev (phys s) task + 56) (task_next (phys s) task)\<rparr>
                else s);
          s2 = (if task = task_head s1 then s1\<lparr>task_head := task_next (phys s1) task\<rparr> else s1);
          s3 = (if task = task_tail s2 then s2\<lparr>task_tail := task_prev (phys s2) task\<rparr> else s2)
      in if task = current_task s3 then s3\<lparr>current_task := task_get_next s3\<rparr> else s3)"

definition task_free :: "ptr \<Rightarrow> ('d, 'a) tasks_scheme \<Rightarrow> i32 \<times> ('d, 'a) tasks_scheme" where
  "task_free task s =
     (let s1 = paging_free_4gb (task_page_directory (phys s) task) s;
          s2 = task_list_remove task s1
      in (0, kfree task s2))"

definition task_init :: "ptr \<Rightarrow> ptr \<Rightarrow> ('d, 'a) tasks_scheme \<Rightarrow> i32 \<times> ('d, 'a) tasks_scheme" where
  "task_init task process s =
     (let s0 = s\<lparr>phys := memset task 0 sizeof_task (phys s)\<rparr>;
          (chunk, s1) = paging_new_4gb (ucast (paging_is_present OR paging_access_from_all)) s0;
          s2 = s1\<lparr>phys := store32 (phys s1) task chunk\<rparr>
      in if task_page_directory (phys s2) task = 0 then (- eio, s2)
         else
           let r = task_registers task;
               m1 = store32 (phys s2) (r + 28) lameos_program_virtual_address;
               m2 = store32 m1 (r + 44) user_data_segment;
               m3 = store32 m2 (r + 32) user_code_segment;
               m4 = store32 m3 (r + 40) lameos_program_virtual_stack_address_start;
               m5 = store32 m4 (task + 52) process
           in (0, s2\<lparr>phys := m5\<rparr>))"

text \<open>The result of \<open>task_new\<close> before its label.\<close>

definition task_new_body :: "ptr \<Rightarrow> ptr \<Rightarrow> ('d, 'a) tasks_scheme \<Rightarrow> i32 \<times> ('d, 'a) tasks_scheme" where
  "task_new_body task process s =
     (if task = 0 then (- enomem, s)
      else
        let (res, s1) = task_init task process s
        in if res \<noteq> lameos_ok then (res, s1)
           else if task_head s1 = 0
           then (res, s1\<lparr>task_head := task, task_tail := task, current_task := task\<rparr>)
           else
             let m1 = store32 (phys s1) (task_tail s1 + 56) task;
                 m2 = store32 m1 (task + 60) (task_tail s1)
             in (res, s1\<lparr>phys := m2, task_tail := task\<rparr>))"

definition task_new :: "ptr \<Rightarrow> ('d, 'a) tasks_scheme \<Rightarrow> ptr \<times> ('d, 'a) tasks_scheme" where
  "task_new process s =
     (let (task, s1) = kzalloc sizeof_task s;
          (res, s2) = task_new_body task process s1
      in if iserr res then (res, snd (task_free task s2)) else (task, s2))"

section \<open>Saved registers\<close>

definition task_save_state :: "ptr \<Rightarrow> ptr \<Rightarrow> mem \<Rightarrow> mem" where
  "task_save_state task frame =
     fold (\<lambda>(r, f) m. store32 m (task_registers task + r) (load32 m (frame + f))) saved_fields"

definition task_current_save_state :: "ptr \<Rightarrow> ('d, 'a) tasks_scheme \<Rightarrow> halt + ('d, 'a) tasks_scheme" where
  "task_current_save_state frame s =
     (if current_task s = 0 then Inl (Panic (''No current task to save.'' @ [CHR 0x0A]))
      else Inr (s\<lparr>phys := task_save_state (current_task s) frame (phys s)\<rparr>))"

text \<open>\<open>restore_general_purpose_registers\<close> pops \<open>ebp\<close> at its end, so the register keeps the value of
  its caller: in \<open>task_return\<close> the kernel's stack pointer \<open>kesp\<close>. The flags are the kernel's,
  \<open>kflags\<close>, with interrupts enabled. The result is what \<open>iretd\<close> leaves in the registers.\<close>

definition task_return ::
  "u32 \<Rightarrow> u32 \<Rightarrow> ptr \<Rightarrow> ('d, 'a) tasks_scheme \<Rightarrow> registers \<times> ('d, 'a) tasks_scheme" where
  "task_return kesp kflags regs s =
     (let m = phys s
      in (\<lparr>r_edi = load32 m regs, r_esi = load32 m (regs + 4), r_ebp = kesp,
           r_ebx = load32 m (regs + 12), r_edx = load32 m (regs + 16), r_ecx = load32 m (regs + 20),
           r_eax = load32 m (regs + 24), r_ip = load32 m (regs + 28), r_cs = load32 m (regs + 32),
           r_flags = kflags OR 0x200, r_esp = load32 m (regs + 40), r_ss = load32 m (regs + 44)\<rparr>,
          s\<lparr>data_segments := ucast (load32 m (regs + 44))\<rparr>))"

definition task_run_first_ever_task ::
  "u32 \<Rightarrow> u32 \<Rightarrow> ('d, 'a) tasks_scheme \<Rightarrow> halt + registers \<times> ('d, 'a) tasks_scheme" where
  "task_run_first_ever_task kesp kflags s =
     (if current_task s = 0 then Inl (Panic ''task_run_first_ever_task(): No current task exists!'')
      else
        let (_, s1) = task_switch (task_head s) s
        in Inr (task_return kesp kflags (task_registers (task_head s1)) s1))"

section \<open>Access to a task's memory\<close>

text \<open>The two \<open>strncpy\<close> calls: the first runs in the task's address space, the second in the
  kernel's.\<close>

definition copy_string_from_task ::
  "ptr \<Rightarrow> ptr \<Rightarrow> ptr \<Rightarrow> i32 \<Rightarrow> ('d, 'a) tasks_scheme \<Rightarrow> halt + i32 \<times> ('d, 'a) tasks_scheme" where
  "copy_string_from_task task virtual out max_len s =
     (if paging_page_size \<le>s max_len then Inr (- einvarg, s)
      else
        let (tmp, s1) = kzalloc max_len s
        in if tmp = 0 then Inr (- enomem, s1)
           else
             let task_directory = paging_4gb_chunk_get_directory (task_page_directory (phys s1) task) (phys s1);
                 old_entry = paging_get task_directory tmp (phys s1);
                 (_, m2) = paging_map (task_page_directory (phys s1) task) tmp tmp
                   (paging_is_writeable OR paging_is_present OR paging_access_from_all) (phys s1);
                 s2 = s1\<lparr>phys := m2\<rparr>;
                 s3 = paging_switch (task_page_directory (phys s2) task) s2
             in and_then (virt_strncpy (cr3 s3) tmp virtual max_len (phys s3)) (\<lambda>m4.
                  let s4 = kernel_page (s3\<lparr>phys := m4\<rparr>);
                      (res, m5) = paging_set task_directory tmp old_entry (phys s4)
                  in if res <s 0 then Inr (- eio, kfree tmp (s4\<lparr>phys := m5\<rparr>))
                     else Inr (res, kfree tmp (s4\<lparr>phys := strncpy out tmp max_len m5\<rparr>))))"

definition task_get_stack_item ::
  "ptr \<Rightarrow> i32 \<Rightarrow> ('d, 'a) tasks_scheme \<Rightarrow> halt + u32 \<times> ('d, 'a) tasks_scheme" where
  "task_get_stack_item task index s =
     (let sp_ptr = load32 (phys s) (task_registers task + 40);
          (_, s1) = task_page_task task s
      in case virt_load32 (cr3 s1) (phys s1) (sp_ptr + 4 * index) of
           None \<Rightarrow> Inl (Bad_Pointer (sp_ptr + 4 * index))
         | Some result \<Rightarrow> Inr (result, kernel_page s1))"

section \<open>Saving and restoring a context\<close>

lemma saved_fields_range:
  "(r, f) \<in> set saved_fields \<Longrightarrow> unat r + 4 \<le> 48 \<and> unat f + 4 \<le> 52"
  by (auto simp: saved_fields_def)

lemma save_fold:
  assumes "\<And>x. in_region frame 52 x \<Longrightarrow> \<not> in_region b 48 x"
    and "\<And>r f. (r, f) \<in> set fs \<Longrightarrow> unat r + 4 \<le> 48 \<and> unat f + 4 \<le> 52"
    and "\<And>x. in_region frame 52 x \<Longrightarrow> m x = m0 x"
  shows "fold (\<lambda>(r, f) m. store32 m (b + r) (load32 m (frame + f))) fs m =
    store_fields b (map (\<lambda>(r, f). (r, load32 m0 (frame + f))) fs) m"
  using assms(2,3)
proof (induction fs arbitrary: m)
  case (Cons g fs)
  obtain r f where g: "g = (r, f)" by (cases g)
  have rf: "unat r + 4 \<le> 48" "unat f + 4 \<le> 52" using Cons.prems(1) g by auto
  have v: "load32 m (frame + f) = load32 m0 (frame + f)"
    by (rule load32_struct [of _ 52]) (use rf Cons.prems(2) in auto)
  have "store32 m (b + r) (load32 m0 (frame + f)) x = m0 x" if "in_region frame 52 x" for x
  proof -
    have "\<not> in_region (b + r) 4 x" using field_in_struct [of r 48 b x] rf(1) assms(1) [OF that] by auto
    then show ?thesis using Cons.prems(2) [OF that] by (simp add: store32_other)
  qed
  then have "fold (\<lambda>(r, f) m. store32 m (b + r) (load32 m (frame + f))) fs
      (store32 m (b + r) (load32 m0 (frame + f))) =
      store_fields b (map (\<lambda>(r, f). (r, load32 m0 (frame + f))) fs) (store32 m (b + r) (load32 m0 (frame + f)))"
    by (intro Cons.IH) (use Cons.prems(1) in auto)
  then show ?case by (simp add: g v)
qed simp

definition frame_apart :: "ptr \<Rightarrow> ptr \<Rightarrow> bool" where
  "frame_apart frame task \<longleftrightarrow> (\<forall>x. in_region frame 52 x \<longrightarrow> \<not> in_region (task_registers task) 48 x)"

lemma task_save_state_eq:
  "frame_apart frame task \<Longrightarrow> task_save_state task frame m =
     store_fields (task_registers task) (map (\<lambda>(r, f). (r, load32 m (frame + f))) saved_fields) m"
  unfolding task_save_state_def by (rule save_fold) (auto simp: frame_apart_def dest: saved_fields_range)

lemma task_save_state_field:
  assumes "frame_apart frame task" and "(r, f) \<in> set saved_fields"
  shows "load32 (task_save_state task frame m) (task_registers task + r) = load32 m (frame + f)"
  unfolding task_save_state_eq [OF assms(1)]
proof (rule load_store_fields)
  show "field_list (map (\<lambda>(r, f). (r, load32 m (frame + f))) saved_fields)"
    by (simp add: field_list_def saved_fields_def)
  show "(r, load32 m (frame + f)) \<in> set (map (\<lambda>(r, f). (r, load32 m (frame + f))) saved_fields)"
    using assms(2) by force
qed

lemma task_save_state_out:
  assumes "frame_apart frame task" and "\<not> in_region (task_registers task) 48 x"
  shows "task_save_state task frame m x = m x"
  unfolding task_save_state_eq [OF assms(1)]
  by (rule store_fields_struct [of _ 48]) (use assms(2) in \<open>auto dest: saved_fields_range\<close>)

text \<open>The registers a frame in memory holds.\<close>

definition frame_registers :: "mem \<Rightarrow> ptr \<Rightarrow> registers" where
  "frame_registers m frame =
     \<lparr>r_edi = load32 m frame, r_esi = load32 m (frame + 4), r_ebp = load32 m (frame + 8),
      r_ebx = load32 m (frame + 16), r_edx = load32 m (frame + 20), r_ecx = load32 m (frame + 24),
      r_eax = load32 m (frame + 28), r_ip = load32 m (frame + 32), r_cs = load32 m (frame + 36),
      r_flags = load32 m (frame + 40), r_esp = load32 m (frame + 44), r_ss = load32 m (frame + 48)\<rparr>"

lemma task_return_saved:
  assumes "frame_apart frame task"
  shows "fst (task_return kesp kflags (task_registers task) (s\<lparr>phys := task_save_state task frame (phys s)\<rparr>)) =
    (frame_registers (phys s) frame)\<lparr>r_ebp := kesp, r_flags := kflags OR 0x200\<rparr>"
proof -
  note f = task_save_state_field [OF assms, of _ _ "phys s"]
  have "load32 (task_save_state task frame (phys s)) (task_registers task) = load32 (phys s) frame"
    using f [of 0 0] by (simp add: saved_fields_def)
  with f [of 4 4] f [of 12 16] f [of 16 20] f [of 20 24] f [of 24 28] f [of 28 32] f [of 32 36]
    f [of 40 44] f [of 44 48]
  show ?thesis by (simp add: task_return_def frame_registers_def saved_fields_def)
qed

section \<open>Reading a task's stack\<close>

lemma load_page_directory [simp]:
  "task_page_directory (phys (user_registers s)) t = task_page_directory (phys s) t"
  "phys (user_registers s) = phys s"
  by (simp_all add: user_registers_def)

text \<open>The address space of a task, and the state the kernel is in after reading from it.\<close>

definition task_space :: "mem \<Rightarrow> ptr \<Rightarrow> ptr" where
  "task_space m t = load32 m (task_page_directory m t)"

definition in_kernel :: "('d, 'a) tasks_scheme \<Rightarrow> ('d, 'a) tasks_scheme" where
  "in_kernel s = s\<lparr>cr3 := load32 (phys s) (kernel_chunk s),
     current_directory := load32 (phys s) (kernel_chunk s), data_segments := 0x10\<rparr>"

lemma kernel_page_eq: "kernel_page s = in_kernel s"
  by (simp add: kernel_page_def in_kernel_def paging_switch_def paging_load_directory_def
      kernel_registers_def Let_def)

lemma in_kernel_simps [simp]:
  "phys (in_kernel s) = phys s" "current_task (in_kernel s) = current_task s"
  "kernel_chunk (in_kernel s) = kernel_chunk s" "in_kernel (in_kernel s) = in_kernel s"
  by (simp_all add: in_kernel_def)

lemma task_get_stack_item_eq:
  assumes "virt_load32 (task_space (phys s) t) (phys s) (load32 (phys s) (task_registers t + 40) + 4 * i) = Some v"
  shows "task_get_stack_item t i s = Inr (v, in_kernel s)"
  using assms
  by (simp add: task_get_stack_item_def task_page_task_def kernel_page_eq paging_switch_def Let_def
      paging_load_directory_def task_space_def in_kernel_def user_registers_def)

lemma task_page_eq:
  "task_page s = (0, s\<lparr>cr3 := task_space (phys s) (current_task s),
     current_directory := task_space (phys s) (current_task s), data_segments := 0x23\<rparr>)"
  by (simp add: task_page_def task_switch_def user_registers_def paging_switch_def Let_def
      paging_load_directory_def task_space_def)

section \<open>Properties\<close>

text \<open>C25. Saving a task's registers from the interrupt frame and returning to the task restores
  every general register, the instruction and the stack pointer and the segments as they were in
  the frame, with two exceptions: \<open>ebp\<close> is the kernel's stack pointer, because
  \<open>restore_general_purpose_registers\<close> pops its own caller's \<open>ebp\<close> over the restored one, and the
  flags are the kernel's with interrupts enabled. Nothing but the saved registers changes.\<close>

theorem context_roundtrip:
  assumes "current_task s \<noteq> 0" and "frame_apart frame (current_task s)"
  shows "\<exists>s'. task_current_save_state frame s = Inr s' \<and> current_task s' = current_task s \<and>
    fst (task_return kesp kflags (task_registers (current_task s)) s') =
      (frame_registers (phys s) frame)\<lparr>r_ebp := kesp, r_flags := kflags OR 0x200\<rparr> \<and>
    (\<forall>x. \<not> in_region (task_registers (current_task s)) 48 x \<longrightarrow> phys s' x = phys s x)"
  using assms task_return_saved [OF assms(2)] task_save_state_out [OF assms(2)]
  by (simp add: task_current_save_state_def)

definition task_kernel :: "sample_device tasks" where
  "task_kernel = disk_io.extend (stream_kernel 0)
     \<lparr>filesystems = replicate 12 0, file_descriptors = replicate 512 0, data_segments = 0x10,
      kernel_chunk = 0, current_task = 0x1000000, task_tail = 0x1000000, task_head = 0x1000000\<rparr>"

theorem context_roundtrip_witness:
  "\<exists>s'. task_current_save_state 0x5FFFCC task_kernel = Inr s' \<and> current_task s' = 0x1000000 \<and>
     r_ebp (fst (task_return 7 0 (task_registers 0x1000000) s')) = 7"
proof -
  have c: "current_task task_kernel = 0x1000000" by (simp add: task_kernel_def disk_io.extend_def)
  have "frame_apart 0x5FFFCC 0x1000000"
    unfolding frame_apart_def task_registers_def in_region_def by uint_arith (auto simp: linorder_not_less)
  then show ?thesis using context_roundtrip [of task_kernel "0x5FFFCC" 7 0] by (auto simp: c)
qed

end
