(* ===== verification/Process.thy ===== *)
theory Process
  imports Task
begin

text \<open>
  \<open>src/task/process.c\<close>: loading a program into a process. A \<open>struct process\<close> is 4224 bytes of
  memory. The addresses of string constants and of a local \<open>struct file_stat\<close>, and two words the
  code reads without having written them, are parameters in the record \<open>process_frame\<close>.
\<close>

section \<open>Data\<close>

record 'd process_table = "'d tasks" +
  current_process :: ptr
  processes :: "ptr list"

record process_frame =
  stat_buffer :: ptr         \<comment> \<open>\<open>stat\<close> of \<open>process_load_binary\<close>\<close>
  mode_literal :: ptr        \<comment> \<open>the constant \<open>"r"\<close>\<close>
  after_processes :: ptr     \<comment> \<open>the word after the array \<open>processes\<close>\<close>
  uninitialised :: ptr       \<comment> \<open>\<open>_process\<close> of \<open>process_load_for_slot\<close> before its assignment\<close>

definition lameos_max_processes :: nat where "lameos_max_processes = 12"
definition lameos_max_program_allocations :: u32 where "lameos_max_program_allocations = 1024"
definition sizeof_process :: u32 where "sizeof_process = 128 + 4 * lameos_max_program_allocations"

definition process_id :: "mem \<Rightarrow> ptr \<Rightarrow> u16" where "process_id m p = load16 m p"
definition process_filename :: "ptr \<Rightarrow> ptr" where "process_filename p = p + 2"
definition process_task :: "mem \<Rightarrow> ptr \<Rightarrow> ptr" where "process_task m p = load32 m (p + 112)"
definition process_ptr :: "mem \<Rightarrow> ptr \<Rightarrow> ptr" where "process_ptr m p = load32 m (p + 4212)"
definition process_stack :: "mem \<Rightarrow> ptr \<Rightarrow> ptr" where "process_stack m p = load32 m (p + 4216)"
definition process_size :: "mem \<Rightarrow> ptr \<Rightarrow> u32" where "process_size m p = load32 m (p + 4220)"

section \<open>The table\<close>

definition process_init :: "ptr \<Rightarrow> mem \<Rightarrow> mem" where
  "process_init process = memset process 0 sizeof_process"

definition process_get :: "process_frame \<Rightarrow> i32 \<Rightarrow> ('d, 'a) process_table_scheme \<Rightarrow> ptr" where
  "process_get pf pid s =
     (if pid <s 0 \<or> of_nat lameos_max_processes <s pid then 0
      else if unat pid < length (processes s) then processes s ! unat pid
      else after_processes pf)"

definition process_get_free_slot :: "('d, 'a) process_table_scheme \<Rightarrow> i32" where
  "process_get_free_slot s =
     (case first_zero 0 (processes s) of None \<Rightarrow> - eistkn | Some i \<Rightarrow> of_nat i)"

section \<open>Loading\<close>

text \<open>The body of \<open>process_load_binary\<close> after \<open>fopen\<close>, up to the label.\<close>

definition load_binary_body ::
  "process_frame \<Rightarrow> (ptr \<rightharpoonup> ('d, 'a) process_table_scheme filesystem) \<Rightarrow> i32 \<Rightarrow> ptr \<Rightarrow>
   ('d, 'a) process_table_scheme \<Rightarrow> halt + i32 \<times> ('d, 'a) process_table_scheme" where
  "load_binary_body pf fss fd process s =
     (if fd = 0 then Inr (- eio, s)
      else
        and_then (fstat fss fd (stat_buffer pf) s) (\<lambda>(res, s1).
          if res \<noteq> lameos_ok then Inr (res, s1)
          else
            let filesize = load32 (phys s1) (stat_buffer pf + 4);
                (program_data_ptr, s2) = kzalloc filesize s1
            in if program_data_ptr = 0 then Inr (- enomem, s2)
               else
                 and_then (fread fss program_data_ptr filesize 1 fd s2) (\<lambda>(n, s3).
                   if n \<noteq> 1 then Inr (- eio, s3)
                   else
                     let m1 = store32 (phys s3) (process + 4212) program_data_ptr;
                         m2 = store32 m1 (process + 4220) filesize
                     in Inr (res, s3\<lparr>phys := m2\<rparr>))))"

definition process_load_binary ::
  "'d ports \<Rightarrow> process_frame \<Rightarrow> (ptr \<rightharpoonup> ('d, 'a) process_table_scheme filesystem) \<Rightarrow> ptr \<Rightarrow> ptr \<Rightarrow>
   ('d, 'a) process_table_scheme \<Rightarrow> halt + i32 \<times> ('d, 'a) process_table_scheme" where
  "process_load_binary io pf fss filename process s =
     and_then (fopen io fss filename (mode_literal pf) s) (\<lambda>(fd, s1).
     and_then (load_binary_body pf fss fd process s1) (\<lambda>(res, s2).
     and_then (fclose fss fd s2) (\<lambda>(_, s3). Inr (res, s3))))"

definition process_load_data ::
  "'d ports \<Rightarrow> process_frame \<Rightarrow> (ptr \<rightharpoonup> ('d, 'a) process_table_scheme filesystem) \<Rightarrow> ptr \<Rightarrow> ptr \<Rightarrow>
   ('d, 'a) process_table_scheme \<Rightarrow> halt + i32 \<times> ('d, 'a) process_table_scheme" where
  "process_load_data io pf fss filename process s = process_load_binary io pf fss filename process s"

definition user_page_flags :: u32 where
  "user_page_flags = paging_is_present OR paging_access_from_all OR paging_is_writeable"

text \<open>The result of \<open>paging_map_to\<close> is not used.\<close>

definition process_map_binary :: "ptr \<Rightarrow> mem \<Rightarrow> i32 \<times> mem" where
  "process_map_binary process m =
     (let (_, m') = paging_map_to (task_page_directory m (process_task m process))
            lameos_program_virtual_address (process_ptr m process)
            (paging_align_address (process_ptr m process + process_size m process)) user_page_flags m
      in (0, m'))"

definition process_map_memory :: "ptr \<Rightarrow> mem \<Rightarrow> i32 \<times> mem" where
  "process_map_memory process m =
     (let (res, m1) = process_map_binary process m
      in if res <s 0 then (res, m1)
         else
           let (_, m2) = paging_map_to (task_page_directory m1 (process_task m1 process))
                 lameos_program_virtual_stack_address_end (process_stack m1 process)
                 (paging_align_address (process_stack m1 process + lameos_user_program_stack_size))
                 user_page_flags m1
           in (res, m2))"

text \<open>The body of \<open>process_load_for_slot\<close> up to its label: the result, the local \<open>_process\<close>, the
  value of \<open>*process\<close> and the state. \<open>process_get\<close> lets negative slots and slot 12 through; the store at the
  end is then outside the array of processes.\<close>

definition load_for_slot_body ::
  "'d ports \<Rightarrow> process_frame \<Rightarrow> (ptr \<rightharpoonup> ('d, 'a) process_table_scheme filesystem) \<Rightarrow> ptr \<Rightarrow> ptr \<Rightarrow> i32 \<Rightarrow>
   ('d, 'a) process_table_scheme \<Rightarrow> halt + i32 \<times> ptr \<times> ptr \<times> ('d, 'a) process_table_scheme" where
  "load_for_slot_body io pf fss filename process process_slot s =
     (if process_get pf process_slot s \<noteq> 0 then Inr (- eistkn, uninitialised pf, process, s)
      else
        let (p, s1) = kzalloc sizeof_process s
        in if p = 0 then Inr (- enomem, p, process, s1)
           else
             let s2 = s1\<lparr>phys := process_init p (phys s1)\<rparr>
             in and_then (process_load_data io pf fss filename p s2) (\<lambda>(res, s3).
                  if res <s 0 then Inr (res, p, process, s3)
                  else
                    let (program_stack_ptr, s4) = kzalloc lameos_user_program_stack_size s3
                    in if program_stack_ptr = 0 then Inr (- enomem, p, process, s4)
                       else
                         let m1 = strncpy (process_filename p) filename max_path (phys s4);
                             m2 = store32 m1 (p + 4216) program_stack_ptr;
                             m3 = store16 m2 p (ucast process_slot);
                             (task, s5) = task_new p (s4\<lparr>phys := m3\<rparr>)
                         in if task = 0 then Inr (0, p, process, s5)
                            else
                              let m4 = store32 (phys s5) (p + 112) task;
                                  (res', m5) = process_map_memory p m4;
                                  s6 = s5\<lparr>phys := m5\<rparr>
                              in if res' <s 0 then Inr (res', p, process, s6)
                                 else if lameos_max_processes \<le> unat process_slot
                                 then Inl (Bad_Pointer process_slot)
                                 else Inr (res', p, p,
                                   s6\<lparr>processes := (processes s6)[unat process_slot := p]\<rparr>)))"

definition process_load_for_slot ::
  "'d ports \<Rightarrow> process_frame \<Rightarrow> (ptr \<rightharpoonup> ('d, 'a) process_table_scheme filesystem) \<Rightarrow> ptr \<Rightarrow> ptr \<Rightarrow> i32 \<Rightarrow>
   ('d, 'a) process_table_scheme \<Rightarrow> halt + i32 \<times> ptr \<times> ('d, 'a) process_table_scheme" where
  "process_load_for_slot io pf fss filename process process_slot s =
     and_then (load_for_slot_body io pf fss filename process process_slot s) (\<lambda>(res, p, process', s').
       if iserr res \<and> p \<noteq> 0 \<and> process_task (phys s') p \<noteq> 0
       then Inr (res, process', snd (task_free (process_task (phys s') p) s'))
       else Inr (res, process', s'))"

definition process_load ::
  "'d ports \<Rightarrow> process_frame \<Rightarrow> (ptr \<rightharpoonup> ('d, 'a) process_table_scheme filesystem) \<Rightarrow> ptr \<Rightarrow> ptr \<Rightarrow>
   ('d, 'a) process_table_scheme \<Rightarrow> halt + i32 \<times> ptr \<times> ('d, 'a) process_table_scheme" where
  "process_load io pf fss filename process s =
     (let process_slot = process_get_free_slot s
      in if process_slot <s 0 then Inr (- eistkn, process, s)
         else process_load_for_slot io pf fss filename process process_slot s)"

section \<open>The address space of a process\<close>

text \<open>What a process's struct and its task's struct say about its address space.\<close>

definition process_space :: "mem \<Rightarrow> ptr \<Rightarrow> ptr" where
  "process_space m process = task_space m (process_task m process)"

definition process_pages :: "mem \<Rightarrow> ptr \<Rightarrow> nat" where
  "process_pages m process = (unat (process_size m process) + 4095) div 4096"

text \<open>The bytes of both structs lie outside the tables of the address space.\<close>

definition process_apart :: "mem \<Rightarrow> ptr \<Rightarrow> bool" where
  "process_apart m process \<longleftrightarrow>
     (\<forall>x. in_region process 4224 x \<or> in_region (process_task m process) 4 x \<longrightarrow>
       (\<forall>i < 1024. \<not> in_region (dir_table m (process_space m process) i) 4096 x))"

lemma user_page_flags_ok:
  "user_page_flags AND 0xFFFFF000 = 0" "user_page_flags AND paging_is_present \<noteq> 0"
  by (simp_all add: user_page_flags_def paging_is_present_def paging_access_from_all_def
      paging_is_writeable_def)

lemma process_fields_same:
  assumes "process_apart m process" and "same_space (task_page_directory m (process_task m process)) m m'"
  shows "process_task m' process = process_task m process" "process_ptr m' process = process_ptr m process"
    "process_stack m' process = process_stack m process" "process_size m' process = process_size m process"
    "task_page_directory m' (process_task m process) = task_page_directory m (process_task m process)"
proof -
  have same: "m' x = m x" if "in_region process 4224 x \<or> in_region (process_task m process) 4 x" for x
    using that assms unfolding process_apart_def same_space_def process_space_def task_space_def by blast
  have f: "load32 m' (process + o') = load32 m (process + o')" if "unat o' + 4 \<le> 4224" for o'
    by (rule load32_struct [of _ 4224]) (use that same in auto)
  show "process_task m' process = process_task m process" "process_ptr m' process = process_ptr m process"
    "process_stack m' process = process_stack m process" "process_size m' process = process_size m process"
    by (simp_all add: process_task_def process_ptr_def process_stack_def process_size_def f)
  show "task_page_directory m' (process_task m process) = task_page_directory m (process_task m process)"
    unfolding task_page_directory_def by (rule load32_cong) (use same in blast)
qed

lemma page_addr_add: "page_addr (a + b) = page_addr a + page_addr b"
  by (simp add: page_addr_def algebra_simps)

text \<open>An address in a mapped range, relative to the start of the range.\<close>

lemma page_relative:
  assumes "n \<le> unat va div 4096"
  shows "page_addr (q + (unat va div 4096 - n)) + (va AND 0xFFF) = page_addr q + (va - page_addr n)"
proof -
  have "page_addr n + page_addr (unat va div 4096 - n) = page_addr (unat va div 4096)"
    using assms by (simp flip: page_addr_add)
  then have "va = page_addr n + page_addr (unat va div 4096 - n) + (va AND 0xFFF)"
    using page_offset [of va] by simp
  then show ?thesis by (simp add: page_addr_add algebra_simps)
qed

text \<open>The program, the stack and nothing else.\<close>

lemma map_memory_layout:
  assumes "chunk_ok (task_page_directory m (process_task m process)) m"
    and "tables_present (process_space m process) m" and "process_apart m process"
    and "process_ptr m process = page_addr q" and "q + process_pages m process < 2 ^ 20"
    and "0x400 + process_pages m process \<le> 2 ^ 20"
    and "process_stack m process = page_addr k" and "k + 4 < 2 ^ 20"
  shows "\<exists>m'. process_map_memory process m = (0, m') \<and>
    (\<forall>va. translate (process_space m process) m' va =
      (if 0x3FB \<le> unat va div 4096 \<and> unat va div 4096 < 0x3FF
       then Some (process_stack m process + (va - 0x3FB000))
       else if 0x400 \<le> unat va div 4096 \<and> unat va div 4096 < 0x400 + process_pages m process
       then Some (process_ptr m process + (va - 0x400000))
       else translate (process_space m process) m va)) \<and>
    same_space (task_page_directory m (process_task m process)) m m'"
proof -
  let ?c = "task_page_directory m (process_task m process)" and ?D = "process_space m process"
  let ?n = "process_pages m process"
  have D: "load32 m ?c = ?D" by (simp add: process_space_def task_space_def)
  have pr: "tables_present (load32 m ?c) m" using assms(2) by (simp add: D)
  have r: "q \<le> q + ?n" "q + ?n < 2 ^ 20" "0x400 + (q + ?n - q) \<le> 2 ^ 20" "0x400 < (2 :: nat) ^ 20"
    using assms(5,6) by simp_all
  obtain m1 where to1: "paging_map_to ?c (page_addr 0x400) (page_addr q) (page_addr (q + ?n)) user_page_flags m = (0, m1)"
    and ok1: "chunk_ok ?c m1" and same1: "same_space ?c m m1" and pr1: "tables_present (load32 m ?c) m1"
    and walk1: "\<And>va. translate (load32 m ?c) m1 va =
      (if 0x400 \<le> unat va div 4096 \<and> unat va div 4096 < 0x400 + (q + ?n - q)
       then Some (page_addr (q + (unat va div 4096 - 0x400)) + (va AND 0xFFF))
       else translate (load32 m ?c) m va)"
    by (rule map_to_walk [OF assms(1) r pr user_page_flags_ok]) blast
  note same_fields = process_fields_same [OF assms(3) same1]
  have D1: "load32 m1 ?c = ?D" using same1 by (simp add: same_space_def D)
  have pr1': "tables_present (load32 m1 ?c) m1" using pr1 by (simp add: D D1)
  have k: "k \<le> k + 4" "k + 4 < 2 ^ 20" "0x3FB + (k + 4 - k) \<le> 2 ^ 20" "0x3FB < (2 :: nat) ^ 20"
    using assms(8) by simp_all
  obtain m2 where to2: "paging_map_to ?c (page_addr 0x3FB) (page_addr k) (page_addr (k + 4)) user_page_flags m1 = (0, m2)"
    and same2: "same_space ?c m1 m2"
    and walk2: "\<And>va. translate (load32 m1 ?c) m2 va =
      (if 0x3FB \<le> unat va div 4096 \<and> unat va div 4096 < 0x3FB + (k + 4 - k)
       then Some (page_addr (k + (unat va div 4096 - 0x3FB)) + (va AND 0xFFF))
       else translate (load32 m1 ?c) m1 va)"
    by (rule map_to_walk [OF ok1 k pr1' user_page_flags_ok]) blast
  have end1: "paging_align_address (process_ptr m process + process_size m process) = page_addr (q + ?n)"
    using paging_align_address_page [of q "process_size m process"] assms(4,5) by (simp add: process_pages_def)
  have end2: "paging_align_address (process_stack m process + lameos_user_program_stack_size) = page_addr (k + 4)"
    using paging_align_address_page [of k 16384] assms(7,8) by (simp add: lameos_user_program_stack_size_def)
  have at: "lameos_program_virtual_address = page_addr 0x400"
    "lameos_program_virtual_stack_address_end = page_addr 0x3FB"
    by (simp_all add: lameos_program_virtual_address_def lameos_program_virtual_stack_address_end_def
        lameos_program_virtual_stack_address_start_def lameos_user_program_stack_size_def page_addr_def)
  have "process_map_binary process m = (0, m1)"
    unfolding process_map_binary_def end1 at by (simp add: assms(4) to1)
  then have "process_map_memory process m = (0, m2)"
    unfolding process_map_memory_def by (simp add: same_fields end2 at) (simp add: assms(7) to2)
  moreover have "translate ?D m2 va =
      (if 0x3FB \<le> unat va div 4096 \<and> unat va div 4096 < 0x3FF
       then Some (process_stack m process + (va - 0x3FB000))
       else if 0x400 \<le> unat va div 4096 \<and> unat va div 4096 < 0x400 + ?n
       then Some (process_ptr m process + (va - 0x400000)) else translate ?D m va)" for va
    using walk1 [of va] walk2 [of va] page_relative [of "0x3FB" va k] page_relative [of "0x400" va q]
    by (simp add: D D1 assms(4,7)) (simp add: page_addr_def)
  ultimately show ?thesis using same_space_trans [OF same1 same2] by blast
qed

section \<open>Properties\<close>

text \<open>C29. \<open>process_map_memory\<close> lays out the address space of a process: the whole pages of its
  program at \<open>0x400000\<close>, the four pages of its stack right below \<open>0x3FF000\<close>, and every other
  virtual address translated as before. It writes to the tables of the address space only.\<close>

theorem process_map_memory_layout:
  assumes "chunk_ok (task_page_directory m (process_task m process)) m"
    and "tables_present (process_space m process) m" and "process_apart m process"
    and "process_ptr m process = page_addr q" and "q + process_pages m process < 2 ^ 20"
    and "0x400 + process_pages m process \<le> 2 ^ 20"
    and "process_stack m process = page_addr k" and "k + 4 < 2 ^ 20"
  shows "\<exists>m'. process_map_memory process m = (0, m') \<and>
    (\<forall>va. translate (process_space m process) m' va =
      (if 0x3FB \<le> unat va div 4096 \<and> unat va div 4096 < 0x3FF
       then Some (process_stack m process + (va - 0x3FB000))
       else if 0x400 \<le> unat va div 4096 \<and> unat va div 4096 < 0x400 + process_pages m process
       then Some (process_ptr m process + (va - 0x400000))
       else translate (process_space m process) m va)) \<and>
    same_space (task_page_directory m (process_task m process)) m m'"
  by (rule map_memory_layout [OF assms])

text \<open>A process and its task below the sample address space: a program of one and a half pages at
  9 MiB and a stack at 10 MiB.\<close>

definition process_memory :: mem where
  "process_memory = store_fields 0x300000
     [(112, 0x310000), (4212, 0x900000), (4216, 0xA00000), (4220, 0x1800), (0x10000, 0x3FF000)] sample_chunk"

lemma process_memory_fields:
  "process_task process_memory 0x300000 = 0x310000" "process_ptr process_memory 0x300000 = 0x900000"
  "process_stack process_memory 0x300000 = 0xA00000" "process_size process_memory 0x300000 = 0x1800"
  "task_page_directory process_memory 0x310000 = 0x3FF000"
proof -
  have f: "load32 process_memory (0x300000 + f) = v"
    if "(f, v) \<in> {(112, 0x310000), (4212, 0x900000), (4216, 0xA00000), (4220, 0x1800), (0x10000, 0x3FF000)}" for f v
    unfolding process_memory_def by (rule load_store_fields) (use that in \<open>auto simp: field_list_def\<close>)
  show "process_task process_memory 0x300000 = 0x310000" "process_ptr process_memory 0x300000 = 0x900000"
    "process_stack process_memory 0x300000 = 0xA00000" "process_size process_memory 0x300000 = 0x1800"
    by (simp_all only: process_task_def process_ptr_def process_stack_def process_size_def) (rule f; simp)+
  show "task_page_directory process_memory 0x310000 = 0x3FF000"
    using f [of "0x10000" "0x3FF000"] by (simp add: task_page_directory_def)
qed

lemma process_memory_space:
  "chunk_ok 0x3FF000 process_memory" "load32 process_memory 0x3FF000 = 0x400000"
  "tables_present 0x400000 process_memory"
  "i < 1024 \<Longrightarrow> dir_table process_memory 0x400000 i = of_nat (4096 * (i + 1025))"
proof -
  have sub: "\<not> in_region 0x300000 0x20000 x" if "in_region 0x3FF000 4 x \<or> in_region 0x400000 4096 x" for x
    using that apart_not_in [of "0x300000" "0x20000" "0x3FF000" 4 x]
      apart_not_in [of "0x300000" "0x20000" "0x400000" 4096 x] by (auto simp: apart_def)
  have out: "process_memory x = sample_chunk x" if "in_region 0x3FF000 4 x \<or> in_region 0x400000 4096 x" for x
    unfolding process_memory_def by (rule store_fields_struct [OF _ sub [OF that]]) auto
  have c: "load32 sample_chunk 0x3FF000 = 0x400000" by (simp add: sample_chunk_def)
  note frame = space_frame [of "0x3FF000" process_memory sample_chunk, unfolded c, OF out out]
  have tab: "dir_table process_memory 0x400000 i = of_nat (4096 * (i + 1025))" if "i < 1024" for i
    using frame(2) [OF _ _ that] sample_chunk_table(1) [OF that] by simp
  show "chunk_ok 0x3FF000 process_memory" "load32 process_memory 0x3FF000 = 0x400000"
    using frame(1,3) sample_chunk_ok by simp_all
  have "(w OR 3) AND paging_is_present \<noteq> 0" for w :: u32
  proof -
    have "bit ((w OR 3) AND paging_is_present) 0" by (simp add: bit_simps paging_is_present_def)
    then show ?thesis by auto
  qed
  then show "tables_present 0x400000 process_memory"
    using frame(4) by (simp add: tables_present_def sample_chunk_table(2) del: of_nat_mult of_nat_add)
  show "i < 1024 \<Longrightarrow> dir_table process_memory 0x400000 i = of_nat (4096 * (i + 1025))" by (rule tab)
qed

lemma process_memory_apart: "process_apart process_memory 0x300000"
proof -
  have sp: "process_space process_memory 0x300000 = 0x400000"
    by (simp add: process_space_def task_space_def process_memory_fields process_memory_space)
  have "\<not> in_region (of_nat (4096 * (i + 1025))) 4096 x" if "i < 1024" "in_region 0x300000 0x20000 x" for i x
  proof -
    have "apart (0 + of_nat (4096 * (i + 1025))) (of_nat 4096) (0 + of_nat 0x300000) (of_nat 0x20000)"
      using that(1) by (intro apart_offsets) auto
    then have "apart (of_nat (4096 * (i + 1025))) 4096 0x300000 0x20000" by simp
    then show ?thesis using apart_not_in that(2) by blast
  qed
  moreover have "in_region 0x300000 0x20000 x" if "in_region 0x300000 4224 x \<or> in_region 0x310000 4 x" for x
    using that field_in_struct [of "0x10000" "0x20000" "0x300000" x] by (auto simp: in_region_def word_less_nat_alt)
  ultimately show ?thesis
    by (simp add: process_apart_def sp process_memory_fields process_memory_space(4) del: of_nat_mult of_nat_add)
qed

theorem process_map_memory_layout_witness:
  "\<exists>m'. process_map_memory 0x300000 process_memory = (0, m') \<and>
     translate 0x400000 m' 0x400123 = Some 0x900123 \<and> translate 0x400000 m' 0x3FEFFC = Some 0xA03FFC"
proof -
  have sp: "process_space process_memory 0x300000 = 0x400000" and n: "process_pages process_memory 0x300000 = 2"
    by (simp_all add: process_space_def task_space_def process_pages_def process_memory_fields process_memory_space)
  obtain m' where m': "process_map_memory 0x300000 process_memory = (0, m')"
    and w: "\<forall>va. translate 0x400000 m' va =
      (if 0x3FB \<le> unat va div 4096 \<and> unat va div 4096 < 0x3FF then Some (0xA00000 + (va - 0x3FB000))
       else if 0x400 \<le> unat va div 4096 \<and> unat va div 4096 < 0x400 + 2 then Some (0x900000 + (va - 0x400000))
       else translate 0x400000 process_memory va)"
    using process_map_memory_layout [of process_memory "0x300000" "0x900" "0xA00", unfolded sp n process_memory_fields]
      process_memory_space process_memory_apart
    by (auto simp: page_addr_def)
  have "translate 0x400000 m' 0x400123 = Some 0x900123" "translate 0x400000 m' 0x3FEFFC = Some 0xA03FFC"
    using w [rule_format, of "0x400123"] w [rule_format, of "0x3FEFFC"] by simp_all
  with m' show ?thesis by blast
qed

end
