(* ===== verification/Interrupt.thy ===== *)
theory Interrupt
  imports Process
begin

text \<open>
  \<open>src/idt/idt.c\<close>, \<open>idt.asm\<close> and \<open>src/isr80h\<close>: the interrupt descriptor table, the table of
  system calls and the path of interrupt \<open>0x80\<close> through the kernel. The descriptor table is an
  array in memory; its address and those of the handlers are chosen by the linker and the
  parameters of \<open>idt_layout\<close>. The command table holds the commands themselves.
\<close>

section \<open>Data\<close>

record idt_layout =
  idt_descriptors :: ptr
  idtr_descriptor :: ptr
  idt_zero_addr :: ptr
  int21h_addr :: ptr
  no_interrupt_addr :: ptr
  isr80h_wrapper_addr :: ptr
  print_buffer :: ptr       \<comment> \<open>\<open>buf\<close> of \<open>isr80h_command1_print\<close>\<close>

datatype isr80h_command = isr80h_command0_sum | isr80h_command1_print

record 'd interrupts = "'d process_table" +
  idtr :: "u16 \<times> ptr"
  isr80h_commands :: "isr80h_command option list"

definition lameos_total_interrupts :: nat where "lameos_total_interrupts = 256"
definition lameos_max_isr80h_commands :: nat where "lameos_max_isr80h_commands = 1024"
definition kernel_code_selector :: u16 where "kernel_code_selector = 0x08"
definition system_command0_sum :: i32 where "system_command0_sum = 0"
definition system_command1_print :: i32 where "system_command1_print = 1"

section \<open>Hardware interrupts\<close>

definition int21h_handler :: "'d ports \<Rightarrow> ('d, 'a) interrupts_scheme \<Rightarrow> ('d, 'a) interrupts_scheme" where
  "int21h_handler io s =
     (let s1 = print_literal (''Key pressed.'' @ [CHR 0x0A]) s
      in s1\<lparr>device := p_outb io 0x20 0x20 (device s1)\<rparr>)"

definition no_interrupt_handler ::
  "'d ports \<Rightarrow> ('d, 'a) interrupts_scheme \<Rightarrow> ('d, 'a) interrupts_scheme" where
  "no_interrupt_handler io s = s\<lparr>device := p_outb io 0x20 0x20 (device s)\<rparr>"

definition idt_zero :: "('d, 'a) interrupts_scheme \<Rightarrow> ('d, 'a) interrupts_scheme" where
  "idt_zero = print_literal (''ERROR: divide by zero exception occurred.'' @ [CHR 0x0A])"

section \<open>The descriptor table\<close>

definition idt_set :: "idt_layout \<Rightarrow> i32 \<Rightarrow> ptr \<Rightarrow> mem \<Rightarrow> mem" where
  "idt_set il interrupt_no address m =
     (let desc = idt_descriptors il + 8 * interrupt_no;
          m1 = store16 m desc (ucast (address AND 0xFFFF));
          m2 = store16 m1 (desc + 2) kernel_code_selector;
          m3 = m2(desc + 4 := 0);
          m4 = m3(desc + 5 := 0xEE)
      in store16 m4 (desc + 6) (ucast (drop_bit 16 address)))"

definition idt_load :: "ptr \<Rightarrow> ('d, 'a) interrupts_scheme \<Rightarrow> ('d, 'a) interrupts_scheme" where
  "idt_load p s = s\<lparr>idtr := (load16 (phys s) p, load32 (phys s) (p + 2))\<rparr>"

definition idt_init :: "idt_layout \<Rightarrow> ('d, 'a) interrupts_scheme \<Rightarrow> ('d, 'a) interrupts_scheme" where
  "idt_init il s =
     (let m0 = memset (idt_descriptors il) 0 (8 * of_nat lameos_total_interrupts) (phys s);
          m1 = store16 m0 (idtr_descriptor il) (8 * of_nat lameos_total_interrupts - 1);
          m2 = store32 m1 (idtr_descriptor il + 2) (idt_descriptors il);
          m3 = fold (\<lambda>i. idt_set il (of_nat i) (no_interrupt_addr il)) [0..<lameos_total_interrupts] m2;
          m4 = idt_set il 0 (idt_zero_addr il) m3;
          m5 = idt_set il 0x21 (int21h_addr il) m4;
          m6 = idt_set il 0x80 (isr80h_wrapper_addr il) m5
      in idt_load (idtr_descriptor il) (s\<lparr>phys := m6\<rparr>))"

section \<open>System calls\<close>

definition isr80h_register_command ::
  "i32 \<Rightarrow> isr80h_command \<Rightarrow> ('d, 'a) interrupts_scheme \<Rightarrow> halt + ('d, 'a) interrupts_scheme" where
  "isr80h_register_command command_id command s =
     (if command_id <s 0 \<or> of_nat lameos_max_isr80h_commands \<le>s command_id
      then Inl (Panic (''The command is out of bounds.'' @ [CHR 0x0A]))
      else if isr80h_commands s ! unat command_id \<noteq> None
      then Inl (Panic (''Attempting to overwrite and existing command.'' @ [CHR 0x0A]))
      else Inr (s\<lparr>isr80h_commands := (isr80h_commands s)[unat command_id := Some command]\<rparr>))"

definition isr80h_register_commands ::
  "('d, 'a) interrupts_scheme \<Rightarrow> halt + ('d, 'a) interrupts_scheme" where
  "isr80h_register_commands s =
     and_then (isr80h_register_command system_command0_sum isr80h_command0_sum s)
       (isr80h_register_command system_command1_print isr80h_command1_print)"

definition command0_sum ::
  "('d, 'a) interrupts_scheme \<Rightarrow> halt + u32 \<times> ('d, 'a) interrupts_scheme" where
  "command0_sum s =
     and_then (task_get_stack_item (current_task s) 1 s) (\<lambda>(v2, s1).
     and_then (task_get_stack_item (current_task s1) 0 s1) (\<lambda>(v1, s2). Inr (v2 + v1, s2)))"

definition command1_print ::
  "idt_layout \<Rightarrow> ('d, 'a) interrupts_scheme \<Rightarrow> halt + u32 \<times> ('d, 'a) interrupts_scheme" where
  "command1_print il s =
     and_then (task_get_stack_item (current_task s) 0 s) (\<lambda>(user_space_msg_buffer, s1).
     and_then (copy_string_from_task (current_task s1) user_space_msg_buffer (print_buffer il) 1024 s1)
       (\<lambda>(_, s2). and_then (terminating (print (print_buffer il) s2)) (\<lambda>s3. Inr (0, s3))))"

definition run_command ::
  "idt_layout \<Rightarrow> isr80h_command \<Rightarrow> ('d, 'a) interrupts_scheme \<Rightarrow> halt + u32 \<times> ('d, 'a) interrupts_scheme" where
  "run_command il command =
     (case command of isr80h_command0_sum \<Rightarrow> command0_sum | isr80h_command1_print \<Rightarrow> command1_print il)"

definition isr80h_handle_command ::
  "idt_layout \<Rightarrow> i32 \<Rightarrow> ('d, 'a) interrupts_scheme \<Rightarrow> halt + u32 \<times> ('d, 'a) interrupts_scheme" where
  "isr80h_handle_command il command s =
     (if command <s 0 \<or> of_nat lameos_max_isr80h_commands \<le>s command then Inr (0, s)
      else case isr80h_commands s ! unat command of None \<Rightarrow> Inr (0, s)
        | Some command_func \<Rightarrow> run_command il command_func s)"

definition isr80h_handler ::
  "idt_layout \<Rightarrow> i32 \<Rightarrow> ptr \<Rightarrow> ('d, 'a) interrupts_scheme \<Rightarrow> halt + u32 \<times> ('d, 'a) interrupts_scheme" where
  "isr80h_handler il command frame s =
     (let s1 = kernel_page s
      in and_then (task_current_save_state frame s1) (\<lambda>s2.
         and_then (isr80h_handle_command il command s2) (\<lambda>(res, s3).
           let (_, s4) = task_page s3 in Inr (res, s4))))"

text \<open>\<open>isr80h_wrapper\<close>: on the interrupt the processor pushes \<open>ss\<close>, \<open>esp\<close>, \<open>flags\<close>, \<open>cs\<close> and \<open>ip\<close> of
  the task on the kernel stack at \<open>esp0\<close>, \<open>pushad\<close> the general registers; together they are the
  \<open>struct interrupt_frame\<close>. The result of the handler replaces \<open>eax\<close>; the other registers are
  popped from the frame.\<close>

definition sizeof_interrupt_frame :: u32 where "sizeof_interrupt_frame = 52"

text \<open>The frame at \<open>frame\<close>; \<open>pushad\<close> stores the stack pointer \<open>esp\<close> it starts from.\<close>

definition push_frame_at :: "ptr \<Rightarrow> ptr \<Rightarrow> registers \<Rightarrow> mem \<Rightarrow> mem" where
  "push_frame_at esp frame r m =
     fold (\<lambda>(f, v) m. store32 m (frame + f) v)
       [(48, r_ss r), (44, r_esp r), (40, r_flags r), (36, r_cs r), (32, r_ip r), (28, r_eax r),
        (24, r_ecx r), (20, r_edx r), (16, r_ebx r), (12, esp), (8, r_ebp r), (4, r_esi r),
        (0, r_edi r)] m"

definition push_frame :: "ptr \<Rightarrow> registers \<Rightarrow> mem \<Rightarrow> mem" where
  "push_frame frame = push_frame_at (frame + 32) frame"

definition pop_frame :: "ptr \<Rightarrow> u32 \<Rightarrow> mem \<Rightarrow> registers" where
  "pop_frame frame tmp_res m =
     \<lparr>r_edi = load32 m frame, r_esi = load32 m (frame + 4), r_ebp = load32 m (frame + 8),
      r_ebx = load32 m (frame + 16), r_edx = load32 m (frame + 20), r_ecx = load32 m (frame + 24),
      r_eax = tmp_res, r_ip = load32 m (frame + 32), r_cs = load32 m (frame + 36),
      r_flags = load32 m (frame + 40), r_esp = load32 m (frame + 44), r_ss = load32 m (frame + 48)\<rparr>"

text \<open>The processor and the wrappers work on the kernel stack through the page tables in use. A frame of
  \<open>n\<close> bytes lies where its first and last byte are mapped, if its page is there.\<close>

definition kernel_frame :: "ptr \<Rightarrow> u32 \<Rightarrow> ('d, 'a) interrupts_scheme \<Rightarrow> ptr option" where
  "kernel_frame frame n s =
     (case translate (cr3 s) (phys s) frame of None \<Rightarrow> None
      | Some p \<Rightarrow> if translate (cr3 s) (phys s) (frame + (n - 1)) = Some (p + (n - 1)) then Some p else None)"

text \<open>The handler of the system calls switches to the kernel's page tables and back while it is on this
  stack. It reads the frame and its own return addresses at the same place only if the task maps the page of
  the stack to itself; otherwise it goes on with whatever lies there.\<close>

definition isr80h_wrapper ::
  "idt_layout \<Rightarrow> ptr \<Rightarrow> registers \<Rightarrow> ('d, 'a) interrupts_scheme \<Rightarrow>
   halt + registers \<times> ('d, 'a) interrupts_scheme" where
  "isr80h_wrapper il esp0 r s =
     (let frame = esp0 - sizeof_interrupt_frame
      in if kernel_frame frame sizeof_interrupt_frame s \<noteq> Some frame then Inl (Bad_Pointer frame)
         else
           and_then (isr80h_handler il (r_eax r) frame (s\<lparr>phys := push_frame frame r (phys s)\<rparr>)) (\<lambda>(res, s2).
             if kernel_frame frame sizeof_interrupt_frame s2 \<noteq> Some frame then Inl (Bad_Pointer frame)
             else Inr (pop_frame frame res (phys s2), s2)))"

text \<open>\<open>int21h\<close> and \<open>no_interrupt\<close> for an interrupt of user code: the registers go to the kernel stack and
  all come back from it. The page tables stay the task's, so the frame may lie in any page.\<close>

definition int21h ::
  "'d ports \<Rightarrow> ptr \<Rightarrow> registers \<Rightarrow> ('d, 'a) interrupts_scheme \<Rightarrow> halt + registers \<times> ('d, 'a) interrupts_scheme" where
  "int21h io esp0 r s =
     (case kernel_frame (esp0 - sizeof_interrupt_frame) sizeof_interrupt_frame s of
        None \<Rightarrow> Inl (Bad_Pointer (esp0 - sizeof_interrupt_frame))
      | Some frame \<Rightarrow>
          let s1 = int21h_handler io (s\<lparr>phys := push_frame_at (esp0 - 20) frame r (phys s)\<rparr>)
          in Inr (pop_frame frame (load32 (phys s1) (frame + 28)) (phys s1), s1))"

text \<open>The exceptions for which the processor pushes an error code after the instruction pointer. The wrapper
  does not take it off the stack: \<open>iret\<close> pops it as the instruction pointer, and each of the other words one
  place too early. The checks of the processor on these words are not modelled.\<close>

definition error_code_vectors :: "nat list" where
  "error_code_vectors = [8, 10, 11, 12, 13, 14, 17]"

definition push_error_frame :: "ptr \<Rightarrow> ptr \<Rightarrow> u32 \<Rightarrow> registers \<Rightarrow> mem \<Rightarrow> mem" where
  "push_error_frame esp frame code r m =
     fold (\<lambda>(f, v) m. store32 m (frame + f) v)
       [(52, r_ss r), (48, r_esp r), (44, r_flags r), (40, r_cs r), (36, r_ip r), (32, code), (28, r_eax r),
        (24, r_ecx r), (20, r_edx r), (16, r_ebx r), (12, esp), (8, r_ebp r), (4, r_esi r),
        (0, r_edi r)] m"

definition no_interrupt ::
  "'d ports \<Rightarrow> nat \<Rightarrow> u32 \<Rightarrow> ptr \<Rightarrow> registers \<Rightarrow> ('d, 'a) interrupts_scheme \<Rightarrow>
   halt + registers \<times> ('d, 'a) interrupts_scheme" where
  "no_interrupt io vector code esp0 r s =
     (let n = (if vector \<in> set error_code_vectors then sizeof_interrupt_frame + 4 else sizeof_interrupt_frame)
      in case kernel_frame (esp0 - n) n s of
           None \<Rightarrow> Inl (Bad_Pointer (esp0 - n))
         | Some frame \<Rightarrow>
             let m = (if vector \<in> set error_code_vectors then push_error_frame (esp0 - 24) frame code r (phys s)
                      else push_frame_at (esp0 - 20) frame r (phys s));
                 s1 = no_interrupt_handler io (s\<lparr>phys := m\<rparr>)
             in Inr (pop_frame frame (load32 (phys s1) (frame + 28)) (phys s1), s1))"

definition enable_interrupts :: "u32 \<Rightarrow> u32" where "enable_interrupts flags = flags OR 0x200"
definition disable_interrupts :: "u32 \<Rightarrow> u32" where "disable_interrupts flags = flags AND NOT 0x200"

section \<open>The gates of the descriptor table\<close>

text \<open>The eight bytes of a gate, and what the processor reads from them: handler, selector,
  reserved byte and type.\<close>

definition gate_bytes :: "ptr \<Rightarrow> u8 list" where
  "gate_bytes a = [ucast a, ucast (drop_bit 8 a), 0x08, 0, 0, 0xEE,
     ucast (drop_bit 16 a), ucast (drop_bit 24 a)]"

definition gate :: "mem \<Rightarrow> ptr \<Rightarrow> ptr \<times> u16 \<times> u8 \<times> u8" where
  "gate m desc = (ucast (load16 m desc) OR push_bit 16 (ucast (load16 m (desc + 6))),
     load16 m (desc + 2), m (desc + 4), m (desc + 5))"

lemma length_gate_bytes [simp]: "length (gate_bytes a) = 8"
  by (simp add: gate_bytes_def)

lemma and_low16: "a AND 0xFFFF = take_bit 16 a" for a :: u32
  by (simp add: take_bit_eq_mask mask_eq_exp_minus_1)

lemma idt_set_put: "idt_set il i a m = put_bytes (idt_descriptors il + 8 * i) (gate_bytes a) m"
proof -
  have low: "(ucast (ucast (a AND 0xFFFF) :: u16) :: u8) = ucast a"
    and "(ucast (drop_bit 8 (ucast (a AND 0xFFFF) :: u16)) :: u8) = ucast (drop_bit 8 a)"
    unfolding and_low16 by (rule bit_word_eqI; simp add: bit_simps)+
  moreover have "(ucast (ucast (drop_bit 16 a) :: u16) :: u8) = ucast (drop_bit 16 a)"
    and "(ucast (drop_bit 8 (ucast (drop_bit 16 a) :: u16)) :: u8) = ucast (drop_bit 24 a)"
    by (rule bit_word_eqI; simp add: bit_simps)+
  ultimately show ?thesis
    by (simp add: idt_set_def gate_bytes_def store16_def Let_def kernel_code_selector_def add.assoc)
qed

lemma gate_put: "gate (put_bytes p (gate_bytes a) m) p = (a, 0x08, 0, 0xEE)"
proof -
  let ?m = "put_bytes p (gate_bytes a) m"
  have "bytes_at ?m p 8 = gate_bytes a" using bytes_at_put_bytes [of "gate_bytes a"] by simp
  then have b: "?m p = ucast a" "?m (p + 1) = ucast (drop_bit 8 a)" "?m (p + 2) = 0x08" "?m (p + 3) = 0"
    "?m (p + 4) = 0" "?m (p + 5) = 0xEE" "?m (p + 6) = ucast (drop_bit 16 a)" "?m (p + 7) = ucast (drop_bit 24 a)"
    by (simp_all add: gate_bytes_def add.assoc)
  have "ucast (ucast (ucast a :: u8) OR push_bit 8 (ucast (ucast (drop_bit 8 a) :: u8)) :: u16) OR
      push_bit 16 (ucast (ucast (ucast (drop_bit 16 a) :: u8) OR
        push_bit 8 (ucast (ucast (drop_bit 24 a) :: u8)) :: u16)) = a"
  proof (rule bit_word_eqI)
    fix n assume "n < LENGTH(32)"
    then consider "n < 8" | "8 \<le> n" "n < 16" | "16 \<le> n" "n < 24" | "24 \<le> n" "n < 32"
      by fastforce
    then show "bit (ucast (ucast (ucast a :: u8) OR push_bit 8 (ucast (ucast (drop_bit 8 a) :: u8)) :: u16) OR
      push_bit 16 (ucast (ucast (ucast (drop_bit 16 a) :: u8) OR
        push_bit 8 (ucast (ucast (drop_bit 24 a) :: u8)) :: u16)) :: u32) n = bit a n"
      by cases (auto simp: bit_simps)
  qed
  with b show ?thesis by (simp add: gate_def load16_def add.assoc)
qed

lemma gates_apart:
  assumes "i \<noteq> j" and "i < 256" and "j < 256"
  shows "apart (p + 8 * of_nat i) 8 (p + 8 * of_nat j) 8"
  using apart_offsets [of "8 * i" 8 "8 * j" 8 p] assms by (cases "i < j") auto

lemma gate_in_table:
  assumes "i < 256" and "in_region (p + 8 * of_nat i) 8 x"
  shows "in_region p 2048 x"
proof -
  have "unat (8 * of_nat i :: u32) = 8 * i"
    using assms(1) unat_of_nat_u32 [of "8 * i"] by simp
  moreover have "x - p = 8 * of_nat i + (x - (p + 8 * of_nat i))" by simp
  ultimately show ?thesis
    using assms by (simp only: in_region_def word_less_nat_alt unat_word_ariths) simp
qed

lemma gate_cong: "(\<And>x. in_region p 8 x \<Longrightarrow> m x = m' x) \<Longrightarrow> gate m p = gate m' p"
  by (simp add: gate_def load16_def in_region_def word_less_nat_alt add.assoc)

lemma gate_idt_set:
  assumes "i < 256" and "j < 256"
  shows "gate (idt_set il (of_nat i) a m) (idt_descriptors il + 8 * of_nat j) =
    (if i = j then (a, 0x08, 0, 0xEE) else gate m (idt_descriptors il + 8 * of_nat j))"
proof (cases "i = j")
  case False
  have "gate (put_bytes (idt_descriptors il + 8 * of_nat i) (gate_bytes a) m) (idt_descriptors il + 8 * of_nat j) =
      gate m (idt_descriptors il + 8 * of_nat j)"
    by (rule gate_cong) (simp add: put_bytes_out apart_not_in [OF gates_apart [OF False assms]])
  with False show ?thesis by (simp add: idt_set_put)
qed (simp add: idt_set_put gate_put)

lemma idt_set_out:
  assumes "i < 256" and "\<not> in_region (idt_descriptors il) 2048 x"
  shows "idt_set il (of_nat i) a m x = m x"
  unfolding idt_set_put
  by (rule put_bytes_out) (use assms gate_in_table [of i "idt_descriptors il" x] in auto)

lemma idt_fill:
  assumes "n \<le> 256"
  shows "(\<forall>j < n. gate (fold (\<lambda>i. idt_set il (of_nat i) a) [0..<n] m) (idt_descriptors il + 8 * of_nat j) =
      (a, 0x08, 0, 0xEE)) \<and>
    (\<forall>x. \<not> in_region (idt_descriptors il) 2048 x \<longrightarrow> fold (\<lambda>i. idt_set il (of_nat i) a) [0..<n] m x = m x)"
  using assms
proof (induction n)
  case (Suc n)
  then have "n < 256" by simp
  with Suc show ?case by (auto simp: gate_idt_set idt_set_out less_Suc_eq)
qed simp

text \<open>The handler of interrupt \<open>j\<close> after \<open>idt_init\<close>.\<close>

definition handler_of :: "idt_layout \<Rightarrow> nat \<Rightarrow> ptr" where
  "handler_of il j = (if j = 0 then idt_zero_addr il else if j = 0x21 then int21h_addr il
     else if j = 0x80 then isr80h_wrapper_addr il else no_interrupt_addr il)"

section \<open>The frame of a system call\<close>

definition frame_fields :: "ptr \<Rightarrow> registers \<Rightarrow> (u32 \<times> u32) list" where
  "frame_fields esp r =
     [(48, r_ss r), (44, r_esp r), (40, r_flags r), (36, r_cs r), (32, r_ip r), (28, r_eax r),
      (24, r_ecx r), (20, r_edx r), (16, r_ebx r), (12, esp), (8, r_ebp r), (4, r_esi r),
      (0, r_edi r)]"

lemma push_frame_eq: "push_frame_at esp frame r m = store_fields frame (frame_fields esp r) m"
  by (simp add: push_frame_at_def store_fields_def frame_fields_def)

lemma push_frame_at_field:
  "(f, v) \<in> set (frame_fields esp r) \<Longrightarrow> load32 (push_frame_at esp frame r m) (frame + f) = v"
  unfolding push_frame_eq by (rule load_store_fields) (simp_all add: field_list_def frame_fields_def)

lemma push_frame_at_out: "\<not> in_region frame 52 x \<Longrightarrow> push_frame_at esp frame r m x = m x"
  unfolding push_frame_eq by (rule store_fields_struct) (auto simp: frame_fields_def)

lemma pop_push_frame_at: "pop_frame frame res (push_frame_at esp frame r m) = r\<lparr>r_eax := res\<rparr>"
proof -
  have "load32 (push_frame_at esp frame r m) frame = r_edi r"
    using push_frame_at_field [of 0 "r_edi r" esp r frame m] by (simp add: frame_fields_def)
  then show ?thesis
    by (simp add: pop_frame_def push_frame_at_field [unfolded frame_fields_def])
qed

lemma push_frame_field:
  "(f, v) \<in> set (frame_fields (frame + 32) r) \<Longrightarrow> load32 (push_frame frame r m) (frame + f) = v"
  unfolding push_frame_def by (rule push_frame_at_field)

lemma push_frame_out: "\<not> in_region frame 52 x \<Longrightarrow> push_frame frame r m x = m x"
  unfolding push_frame_def by (rule push_frame_at_out)

lemma pop_push_frame: "pop_frame frame res (push_frame frame r m) = r\<lparr>r_eax := res\<rparr>"
  unfolding push_frame_def by (rule pop_push_frame_at)

lemma pop_frame_cong:
  assumes "\<And>x. in_region frame 52 x \<Longrightarrow> m' x = m x"
  shows "pop_frame frame res m' = pop_frame frame res m"
proof -
  have "load32 m' (frame + f) = load32 m (frame + f)" if "unat f + 4 \<le> 52" for f
    by (rule load32_struct [of _ 52]) (use that assms in auto)
  from this [of 0] this show ?thesis by (simp add: pop_frame_def)
qed

text \<open>Memory after the frame is pushed and the registers are saved: the task's struct and the
  frame alone have changed, and the saved stack pointer is the task's.\<close>

definition call_memory :: "ptr \<Rightarrow> ptr \<Rightarrow> registers \<Rightarrow> mem \<Rightarrow> mem" where
  "call_memory t frame r m = task_save_state t frame (push_frame frame r m)"

definition call_writes :: "ptr \<Rightarrow> ptr \<Rightarrow> ptr \<Rightarrow> bool" where
  "call_writes t frame x \<longleftrightarrow> in_region frame 52 x \<or> in_region (task_registers t) 48 x"

lemma registers_in_task: "in_region (task_registers t) 48 x \<Longrightarrow> in_region t 64 x"
  unfolding task_registers_def in_region_def by uint_arith

lemma frame_apart_task: "apart frame 52 t 64 \<Longrightarrow> frame_apart frame t"
  using apart_not_in registers_in_task by (auto simp: frame_apart_def)

lemma call_memory_out: "frame_apart frame t \<Longrightarrow> \<not> call_writes t frame x \<Longrightarrow> call_memory t frame r m x = m x"
  by (simp add: call_memory_def call_writes_def task_save_state_out push_frame_out)

lemma call_memory_frame:
  assumes "frame_apart frame t"
  shows "pop_frame frame res (call_memory t frame r m) = r\<lparr>r_eax := res\<rparr>"
proof -
  have "pop_frame frame res (call_memory t frame r m) = pop_frame frame res (push_frame frame r m)"
    by (rule pop_frame_cong) (use assms in \<open>simp add: call_memory_def frame_apart_def task_save_state_out\<close>)
  then show ?thesis by (simp add: pop_push_frame)
qed

lemma call_memory_esp:
  "frame_apart frame t \<Longrightarrow> load32 (call_memory t frame r m) (task_registers t + 40) = r_esp r"
  unfolding call_memory_def
  by (subst task_save_state_field [of _ _ 40 44])
     (simp_all add: saved_fields_def push_frame_field frame_fields_def)

lemma call_memory_space:
  assumes "apart frame 52 t 64" and "\<And>x. in_region (task_page_directory m t) 4 x \<Longrightarrow> \<not> call_writes t frame x"
  shows "task_space (call_memory t frame r m) t = task_space m t"
proof -
  note fa = frame_apart_task [OF assms(1)]
  have "\<not> call_writes t frame x" if "in_region t 4 x" for x
  proof -
    have "in_region t 64 x" using that unfolding in_region_def by (rule less_le_trans) simp
    moreover have "\<not> in_region (task_registers t) 48 x"
      using that apart_not_in [OF apart_offsets [of 4 48 0 4 t]] by (simp add: task_registers_def)
    ultimately show ?thesis using apart_not_in [OF assms(1)] by (simp add: call_writes_def)
  qed
  then have "load32 (call_memory t frame r m) t = load32 m t"
    by (intro load32_cong call_memory_out [OF fa])
  then have d: "task_page_directory (call_memory t frame r m) t = task_page_directory m t"
    by (simp add: task_page_directory_def)
  show ?thesis
    unfolding task_space_def d by (intro load32_cong call_memory_out [OF fa] assms(2))
qed

lemma kernel_frame_same:
  "(\<And>va. translate (cr3 s') (phys s') va = translate (cr3 s) (phys s) va) \<Longrightarrow> kernel_frame frame n s' = kernel_frame frame n s"
  by (simp add: kernel_frame_def cong: option.case_cong)

text \<open>The frame stays mapped where it was, if the entries of its page are left alone.\<close>

lemma kernel_frame_cong:
  assumes "kernel_frame frame n s = Some p" and "cr3 s' = cr3 s"
    and "\<And>a x. a = frame \<or> a = frame + (n - 1) \<Longrightarrow> entry_reads (cr3 s) (phys s) a x \<Longrightarrow> phys s' x = phys s x"
  shows "kernel_frame frame n s' = Some p"
proof -
  have t: "translate (cr3 s) (phys s') a = translate (cr3 s) (phys s) a" if "a = frame \<or> a = frame + (n - 1)" for a
    by (rule translate_cong) (rule assms(3) [OF that])
  show ?thesis using assms(1) t [of frame] t [of "frame + (n - 1)"] unfolding kernel_frame_def assms(2) by (cases "translate (cr3 s) (phys s) frame") simp_all
qed

section \<open>Set-up\<close>

text \<open>What \<open>idt_init\<close> and \<open>isr80h_register_commands\<close> change.\<close>

lemma idt_init_state:
  assumes "apart (idt_descriptors il) 2048 (idtr_descriptor il) 6"
  shows "\<exists>m. idt_init il s = s\<lparr>phys := m, idtr := (2047, idt_descriptors il)\<rparr> \<and>
    (\<forall>j < 256. gate m (idt_descriptors il + 8 * of_nat j) = (handler_of il j, 0x08, 0, 0xEE)) \<and>
    (\<forall>x. \<not> in_region (idt_descriptors il) 2048 x \<and> \<not> in_region (idtr_descriptor il) 6 x \<longrightarrow> m x = phys s x)"
proof -
  let ?p = "idtr_descriptor il"
  define m2 where "m2 = store32 (store16 (memset (idt_descriptors il) 0 2048 (phys s)) ?p 2047)
    (?p + 2) (idt_descriptors il)"
  define m3 where "m3 = fold (\<lambda>i. idt_set il (of_nat i) (no_interrupt_addr il)) [0..<256] m2"
  define m6 where "m6 = idt_set il (of_nat 0x80) (isr80h_wrapper_addr il)
    (idt_set il (of_nat 0x21) (int21h_addr il) (idt_set il (of_nat 0) (idt_zero_addr il) m3))"
  have init: "idt_init il s = idt_load ?p (s\<lparr>phys := m6\<rparr>)"
    by (simp add: idt_init_def Let_def m6_def m3_def m2_def lameos_total_interrupts_def)
  have out: "m6 x = m2 x" if "\<not> in_region (idt_descriptors il) 2048 x" for x
  proof -
    have "m6 x = m3 x"
      unfolding m6_def by (subst idt_set_out [OF _ that], simp)+ (rule refl)
    then show ?thesis using that idt_fill [of 256 il "no_interrupt_addr il" m2] by (simp add: m3_def)
  qed
  have gates: "gate m6 (idt_descriptors il + 8 * of_nat j) = (handler_of il j, 0x08, 0, 0xEE)" if "j < 256" for j
  proof -
    have m3: "gate m3 (idt_descriptors il + 8 * of_nat j) = (no_interrupt_addr il, 0x08, 0, 0xEE)"
      using that idt_fill [of 256 il "no_interrupt_addr il" m2] by (simp add: m3_def)
    show ?thesis
      unfolding m6_def by (subst gate_idt_set [OF _ that], simp)+ (simp add: m3 handler_of_def)
  qed
  have tail: "in_region ?p 6 x" if "in_region (?p + 2) 4 x \<or> in_region ?p 2 x" for x
    using that unfolding in_region_def by uint_arith
  have head: "\<not> in_region (?p + 2) 4 x" if "in_region ?p 2 x" for x
    using that apart_not_in [OF apart_offsets [of 2 4 0 2 ?p]] by simp
  have reg: "m6 x = m2 x" if "in_region ?p 6 x" for x
    using out apart_not_in [OF assms that] by blast
  have "load16 m6 ?p = 2047"
  proof -
    have "load16 m6 ?p = load16 m2 ?p" by (rule load16_cong) (use tail reg in blast)
    also have "\<dots> = load16 (store16 (memset (idt_descriptors il) 0 2048 (phys s)) ?p 2047) ?p"
      unfolding m2_def by (rule load16_cong) (use head in \<open>simp add: store32_other\<close>)
    finally show ?thesis by simp
  qed
  moreover have "load32 m6 (?p + 2) = idt_descriptors il"
  proof -
    have "load32 m6 (?p + 2) = load32 m2 (?p + 2)" by (rule load32_cong) (use tail reg in blast)
    then show ?thesis by (simp add: m2_def)
  qed
  moreover have "m6 x = phys s x" if "\<not> in_region (idt_descriptors il) 2048 x" "\<not> in_region ?p 6 x" for x
  proof -
    have "\<not> in_region (?p + 2) 4 x" "\<not> in_region ?p 2 x" using that(2) tail by blast+
    then show ?thesis using out [OF that(1)] that(1) by (simp add: m2_def store32_other store16_other)
  qed
  ultimately show ?thesis using gates by (intro exI [of _ m6]) (simp add: init idt_load_def)
qed

lemma isr80h_register_empty:
  assumes "isr80h_commands s = replicate 1024 None"
  shows "isr80h_register_commands s =
    Inr (s\<lparr>isr80h_commands := (replicate 1024 None)[0 := Some isr80h_command0_sum, 1 := Some isr80h_command1_print]\<rparr>)"
  using assms by (simp add: isr80h_register_commands_def isr80h_register_command_def word_sle_eq word_sless_alt
      system_command0_sum_def system_command1_print_def lameos_max_isr80h_commands_def)

section \<open>Properties\<close>

text \<open>C27. After \<open>idt_init\<close> each of the 256 gates sends its interrupt to the right handler - divide by
  zero, the keyboard, the system call, the empty handler for all others - through the kernel's
  code segment as a present 32-bit interrupt gate that user code may use; the \<open>idtr\<close> register holds
  the table's address and limit, and no memory outside the table and its descriptor is written.\<close>

theorem idt_init_gates:
  assumes "apart (idt_descriptors il) 2048 (idtr_descriptor il) 6"
  shows "idtr (idt_init il s) = (2047, idt_descriptors il) \<and>
    (\<forall>j < 256. gate (phys (idt_init il s)) (idt_descriptors il + 8 * of_nat j) =
       (handler_of il j, 0x08, 0, 0xEE)) \<and>
    (\<forall>x. \<not> in_region (idt_descriptors il) 2048 x \<and> \<not> in_region (idtr_descriptor il) 6 x \<longrightarrow>
       phys (idt_init il s) x = phys s x)"
  using idt_init_state [OF assms, of s] by auto

text \<open>C26. The system call \<open>sum\<close> from user code to user code: the task gets back exactly the registers
  it had, with the sum modulo \<open>2 ^ 32\<close> of the two top words of its stack in \<open>eax\<close>, in its own
  address space and with user data segments; the kernel's state is untouched but for the
  frame on its stack and the registers saved in the task's struct. The task maps the page of the kernel stack to
  itself, as a new address space does; a program of 2 MB and more is mapped over it, and the call is
  then lost.\<close>

theorem isr80h_sum_call:
  assumes "isr80h_commands s ! 0 = Some isr80h_command0_sum" and "r_eax r = 0"
    and "current_task s \<noteq> 0" and "apart (esp0 - 52) 52 (current_task s) 64"
    and "\<And>x. in_region (task_page_directory (phys s) (current_task s)) 4 x \<Longrightarrow>
      \<not> call_writes (current_task s) (esp0 - 52) x"
    and "\<And>x i. i < 2 \<Longrightarrow> word_reads (task_space (phys s) (current_task s)) (phys s) (r_esp r + 4 * of_nat i) x \<Longrightarrow>
      \<not> call_writes (current_task s) (esp0 - 52) x"
    and "virt_load32 (task_space (phys s) (current_task s)) (phys s) (r_esp r) = Some v1"
    and "virt_load32 (task_space (phys s) (current_task s)) (phys s) (r_esp r + 4) = Some v2"
    and "cr3 s = task_space (phys s) (current_task s)" and "kernel_frame (esp0 - 52) 52 s = Some (esp0 - 52)"
    and "\<And>a x. a = esp0 - 52 \<or> a = esp0 - 52 + 51 \<Longrightarrow> entry_reads (cr3 s) (phys s) a x \<Longrightarrow>
      \<not> call_writes (current_task s) (esp0 - 52) x"
  shows "\<exists>m. isr80h_wrapper il esp0 r s = Inr (r\<lparr>r_eax := v1 + v2\<rparr>,
      s\<lparr>phys := m, cr3 := task_space (phys s) (current_task s),
        current_directory := task_space (phys s) (current_task s), data_segments := 0x23\<rparr>) \<and>
    (\<forall>x. \<not> call_writes (current_task s) (esp0 - 52) x \<longrightarrow> m x = phys s x)"
proof -
  let ?t = "current_task s" and ?frame = "esp0 - 52"
  let ?m = "call_memory ?t ?frame r (phys s)"
  note fa = frame_apart_task [OF assms(4)]
  have space: "task_space ?m ?t = task_space (phys s) ?t" by (rule call_memory_space [OF assms(4,5)])
  have stack: "virt_load32 (task_space (phys s) ?t) ?m (r_esp r + 4 * of_nat i) =
      virt_load32 (task_space (phys s) ?t) (phys s) (r_esp r + 4 * of_nat i)" if "i < 2" for i
    by (intro virt_load32_cong call_memory_out [OF fa] assms(6) [OF that])
  define s1 where "s1 = in_kernel (s\<lparr>phys := push_frame ?frame r (phys s)\<rparr>)"
  define s2 where "s2 = s1\<lparr>phys := ?m\<rparr>"
  have save: "task_current_save_state ?frame s1 = Inr s2"
    using assms(3) by (simp add: task_current_save_state_def s1_def s2_def call_memory_def)
  have s2: "phys s2 = ?m" "current_task s2 = ?t" by (simp_all add: s2_def s1_def)
  have item: "task_get_stack_item ?t (of_nat i) u = Inr (v, in_kernel s2)"
    if "i < 2" "virt_load32 (task_space (phys s) ?t) (phys s) (r_esp r + 4 * of_nat i) = Some v"
      "in_kernel u = in_kernel s2" "phys u = ?m" for i v u
    using task_get_stack_item_eq [of u ?t "of_nat i" v] that stack [OF that(1)]
    by (simp add: space call_memory_esp [OF fa])
  have "task_get_stack_item ?t 1 s2 = Inr (v2, in_kernel s2)"
    using item [of 1 v2 s2] assms(8) s2 by simp
  moreover have "task_get_stack_item ?t 0 (in_kernel s2) = Inr (v1, in_kernel s2)"
    using item [of 0 v1 "in_kernel s2"] assms(7) s2 by simp
  ultimately have "command0_sum s2 = Inr (v1 + v2, in_kernel s2)"
    by (simp add: command0_sum_def s2 add.commute)
  moreover have "isr80h_commands s2 = isr80h_commands s" by (simp add: s2_def s1_def in_kernel_def)
  ultimately have "isr80h_handle_command il 0 s2 = Inr (v1 + v2, in_kernel s2)"
    using assms(1)
    by (simp add: isr80h_handle_command_def run_command_def lameos_max_isr80h_commands_def word_sle_eq)
  moreover have "kernel_frame ?frame 52 (s\<lparr>phys := ?m, cr3 := task_space (phys s) ?t,
      current_directory := task_space (phys s) ?t, data_segments := 0x23\<rparr>) = Some ?frame"
    by (rule kernel_frame_cong [OF assms(10)]) (use assms(9,11) call_memory_out [OF fa] in auto)
  moreover have "in_kernel s2\<lparr>cr3 := task_space (phys s) ?t, current_directory := task_space (phys s) ?t, data_segments := 0x23\<rparr> =
      s\<lparr>phys := ?m, cr3 := task_space (phys s) ?t, current_directory := task_space (phys s) ?t, data_segments := 0x23\<rparr>"
    by (simp add: s2_def s1_def in_kernel_def)
  ultimately have "isr80h_wrapper il esp0 r s = Inr (r\<lparr>r_eax := v1 + v2\<rparr>,
      s\<lparr>phys := ?m, cr3 := task_space (phys s) ?t, current_directory := task_space (phys s) ?t,
        data_segments := 0x23\<rparr>)"
    using assms(10)
    by (simp add: isr80h_wrapper_def isr80h_handler_def sizeof_interrupt_frame_def Let_def assms(2)
        kernel_page_eq s1_def [symmetric] save task_page_eq s2 space call_memory_frame [OF fa])
  then show ?thesis using call_memory_out [OF fa] by blast
qed

definition sample_idt :: idt_layout where
  "sample_idt = \<lparr>idt_descriptors = 0x109000, idtr_descriptor = 0x109800, idt_zero_addr = 0x100100,
     int21h_addr = 0x100200, no_interrupt_addr = 0x100300, isr80h_wrapper_addr = 0x100400,
     print_buffer = 0x5FF800\<rparr>"

definition interrupt_kernel :: "sample_device interrupts" where
  "interrupt_kernel = tasks.extend task_kernel
     \<lparr>current_process = 0, processes = replicate 12 0, idtr = (0, 0), isr80h_commands = replicate 1024 None\<rparr>"

theorem idt_init_gates_witness:
  "idtr (idt_init sample_idt interrupt_kernel) = (2047, 0x109000) \<and>
   gate (phys (idt_init sample_idt interrupt_kernel)) 0x109400 = (0x100400, 0x08, 0, 0xEE)"
proof -
  have "apart (idt_descriptors sample_idt) 2048 (idtr_descriptor sample_idt) 6"
    by (simp add: sample_idt_def apart_def)
  note g = idt_init_gates [OF this, of interrupt_kernel]
  then have "\<forall>j < 256. gate (phys (idt_init sample_idt interrupt_kernel))
      (idt_descriptors sample_idt + 8 * of_nat j) = (handler_of sample_idt j, 0x08, 0, 0xEE)"
    by blast
  from this [rule_format, of "0x80"] g show ?thesis by (simp add: sample_idt_def handler_of_def)
qed

text \<open>A task whose stack page is mapped at \<open>0x3FE000\<close>, with 5 and 7 on its stack, and the page of the kernel's
  stack.\<close>

definition call_fields :: "(u32 \<times> u32) list" where
  "call_fields = [(0, 0x1001000), (0x1000, 0x1002000), (0x2000, 0x1003007), (0x3FF8, 0x1004007),
     (0x4FF0, 5), (0x4FF4, 7), (0x2004, 0x1005007), (0x57FC, 0x5FF007)]"

definition call_kernel :: "sample_device interrupts" where
  "call_kernel = interrupt_kernel\<lparr>phys := store_fields 0x1000000 call_fields (\<lambda>_. 0), cr3 := 0x1002000,
     isr80h_commands := (replicate 1024 None)[0 := Some isr80h_command0_sum]\<rparr>"

definition call_registers :: registers where
  "call_registers = \<lparr>r_edi = 1, r_esi = 2, r_ebp = 3, r_ebx = 4, r_edx = 5, r_ecx = 6, r_eax = 0,
     r_ip = 0x400010, r_cs = 0x1B, r_flags = 0x202, r_esp = 0x3FEFF0, r_ss = 0x23\<rparr>"

lemma call_kernel_word:
  assumes "(f, v) \<in> set call_fields"
  shows "load32 (phys call_kernel) (0x1000000 + f) = v"
proof -
  have "load32 (store_fields 0x1000000 call_fields (\<lambda>_. 0)) (0x1000000 + f) = v"
    by (rule load_store_fields [OF _ assms]) (simp add: field_list_def call_fields_def)
  then show ?thesis by (simp add: call_kernel_def)
qed

lemma call_kernel_words:
  "load32 (phys call_kernel) 0x1000000 = 0x1001000" "load32 (phys call_kernel) 0x1001000 = 0x1002000"
  "load32 (phys call_kernel) 0x1002000 = 0x1003007" "load32 (phys call_kernel) 0x1003FF8 = 0x1004007"
  "load32 (phys call_kernel) 0x1004FF0 = 5" "load32 (phys call_kernel) 0x1004FF4 = 7"
  "load32 (phys call_kernel) 0x1002004 = 0x1005007" "load32 (phys call_kernel) 0x10057FC = 0x5FF007"
  using call_kernel_word [of 0 "0x1001000"] call_kernel_word [of "0x1000" "0x1002000"]
    call_kernel_word [of "0x2000" "0x1003007"] call_kernel_word [of "0x3FF8" "0x1004007"]
    call_kernel_word [of "0x4FF0" 5] call_kernel_word [of "0x4FF4" 7]
    call_kernel_word [of "0x2004" "0x1005007"] call_kernel_word [of "0x57FC" "0x5FF007"]
  by (simp_all add: call_fields_def)

lemma call_kernel_space: "task_space (phys call_kernel) 0x1000000 = 0x1002000"
  by (simp add: task_space_def task_page_directory_def call_kernel_words)

lemma call_kernel_walk:
  assumes "k \<in> {0, 1, 2, 3, 4, 5, 6, 7}"
  shows "translate 0x1002000 (phys call_kernel) (0x3FEFF0 + k) = Some (0x1004FF0 + k)"
    and "walk_reads 0x1002000 (phys call_kernel) (0x3FEFF0 + k) x \<Longrightarrow> in_region 0x1001000 0x4000 x"
proof -
  show t: "translate 0x1002000 (phys call_kernel) (0x3FEFF0 + k) = Some (0x1004FF0 + k)"
    using assms by (auto simp: translate_def call_kernel_words Let_def paging_is_present_def)
  have w: "in_region 0x1001000 0x4000 y" if "in_region 0x1002000 4 y \<or> in_region 0x1003FF8 4 y" for y
    using that field_in_struct [of "0x1000" "0x4000" "0x1001000" y]
      field_in_struct [of "0x2FF8" "0x4000" "0x1001000" y] by auto
  show "walk_reads 0x1002000 (phys call_kernel) (0x3FEFF0 + k) x \<Longrightarrow> in_region 0x1001000 0x4000 x"
    using assms w [of x] unfolding walk_reads_def entry_reads_def t
    by (auto simp: call_kernel_words in_region_def word_less_nat_alt)
qed

lemma call_kernel_frame:
  shows "cr3 call_kernel = 0x1002000" and "kernel_frame 0x5FFFCC 52 call_kernel = Some 0x5FFFCC"
    and "a = 0x5FFFCC \<or> a = 0x5FFFCC + 51 \<Longrightarrow> entry_reads 0x1002000 (phys call_kernel) a x \<Longrightarrow> in_region 0x1001000 0x5000 x"
proof -
  show c: "cr3 call_kernel = 0x1002000" by (simp add: call_kernel_def)
  show "kernel_frame 0x5FFFCC 52 call_kernel = Some 0x5FFFCC"
    by (simp add: kernel_frame_def c translate_def call_kernel_words Let_def paging_is_present_def)
  have "in_region 0x1001000 0x5000 y" if "in_region 0x1002004 4 y \<or> in_region 0x10057FC 4 y" for y
    using that field_in_struct [of "0x1004" "0x5000" "0x1001000" y] field_in_struct [of "0x47FC" "0x5000" "0x1001000" y] by auto
  then show "a = 0x5FFFCC \<or> a = 0x5FFFCC + 51 \<Longrightarrow> entry_reads 0x1002000 (phys call_kernel) a x \<Longrightarrow> in_region 0x1001000 0x5000 x"
    by (auto simp: entry_reads_def call_kernel_words)
qed

theorem isr80h_sum_call_witness:
  "\<exists>s'. isr80h_wrapper sample_idt 0x600000 call_registers call_kernel =
     Inr (call_registers\<lparr>r_eax := 12\<rparr>, s') \<and> cr3 s' = 0x1002000"
proof -
  have t: "current_task call_kernel = 0x1000000"
    by (simp add: call_kernel_def interrupt_kernel_def task_kernel_def tasks.extend_def disk_io.extend_def)
  have cmd: "isr80h_commands call_kernel ! 0 = Some isr80h_command0_sum" by (simp add: call_kernel_def)
  have ap: "apart 0x5FFFCC 52 0x1000000 64" by (simp add: apart_def)
  have out: "\<not> call_writes 0x1000000 0x5FFFCC x" if "in_region 0x1001000 0x5000 x" for x
    using that apart_not_in [of "0x5FFFCC" 52 "0x1001000" "0x5000"]
      apart_not_in [of "0x1000004" 48 "0x1001000" "0x5000"]
    by (simp add: call_writes_def task_registers_def apart_def)
  have dir: "\<not> call_writes 0x1000000 0x5FFFCC x" if "in_region 0x1001000 4 x" for x
    using that out [of x] field_in_struct [of 0 "0x5000" "0x1001000" x] by simp
  have reads: "\<not> call_writes 0x1000000 0x5FFFCC x"
    if "i < 2" "word_reads 0x1002000 (phys call_kernel) (0x3FEFF0 + 4 * of_nat i) x" for i x
  proof -
    have i: "i = 0 \<or> i = 1" using that(1) by auto
    note w = call_kernel_walk(2) [of _ x]
    show ?thesis
      using that(2) i w [of 0] w [of 1] w [of 2] w [of 3] w [of 4] w [of 5] w [of 6] w [of 7]
        in_region_mono [of "0x1001000" "0x4000" x "0x5000"]
      by (intro out) (auto simp: word_reads_def)
  qed
  note a = call_kernel_walk(1)
  have v: "virt_load32 0x1002000 (phys call_kernel) 0x3FEFF0 = Some 5"
    "virt_load32 0x1002000 (phys call_kernel) (0x3FEFF0 + 4) = Some 7"
    using virt_load32_at [of "0x1002000" "phys call_kernel" "0x3FEFF0" "0x1004FF0"]
      virt_load32_at [of "0x1002000" "phys call_kernel" "0x3FEFF4" "0x1004FF4"]
      a [of 0] a [of 1] a [of 2] a [of 3] a [of 4] a [of 5] a [of 6] a [of 7]
    by (simp_all add: call_kernel_words)
  have r: "r_eax call_registers = 0" "r_esp call_registers = 0x3FEFF0" "(0x600000 :: u32) - 52 = 0x5FFFCC"
    by (simp_all add: call_registers_def)
  have "\<exists>m. isr80h_wrapper sample_idt 0x600000 call_registers call_kernel =
      Inr (call_registers\<lparr>r_eax := 5 + 7\<rparr>,
        call_kernel\<lparr>phys := m, cr3 := 0x1002000, current_directory := 0x1002000, data_segments := 0x23\<rparr>) \<and>
      (\<forall>x. \<not> call_writes 0x1000000 0x5FFFCC x \<longrightarrow> m x = phys call_kernel x)"
    using isr80h_sum_call [of call_kernel call_registers "0x600000" 5 7 sample_idt, unfolded t r call_kernel_space]
      cmd ap dir reads v call_kernel_frame(1,2) out [OF call_kernel_frame(3)]
    by (simp add: task_page_directory_def call_kernel_words)
  then show ?thesis by auto
qed

text \<open>C28. On the empty command table \<open>isr80h_register_commands\<close> succeeds; from then on system call 0
  is the sum, system call 1 the print, and every other number, negative and too large ones
  included, returns 0 and changes nothing. A second registration panics.\<close>

theorem isr80h_commands_dispatch:
  assumes "isr80h_commands s = replicate 1024 None"
  shows "\<exists>s'. isr80h_register_commands s = Inr s' \<and>
    s' = s\<lparr>isr80h_commands := isr80h_commands s'\<rparr> \<and>
    (\<forall>c. isr80h_handle_command il c s' =
      (if c = 0 then command0_sum s' else if c = 1 then command1_print il s' else Inr (0, s'))) \<and>
    isr80h_register_commands s' =
      Inl (Panic (''Attempting to overwrite and existing command.'' @ [CHR 0x0A]))"
proof -
  let ?s' = "s\<lparr>isr80h_commands := (replicate 1024 None)[0 := Some isr80h_command0_sum, 1 := Some isr80h_command1_print]\<rparr>"
  note reg = isr80h_register_empty [OF assms]
  have again: "isr80h_register_commands ?s' =
      Inl (Panic (''Attempting to overwrite and existing command.'' @ [CHR 0x0A]))"
    by (simp add: isr80h_register_commands_def isr80h_register_command_def word_sle_eq word_sless_alt
        system_command0_sum_def lameos_max_isr80h_commands_def)
  have "isr80h_handle_command il c ?s' =
      (if c = 0 then command0_sum ?s' else if c = 1 then command1_print il ?s' else Inr (0, ?s'))" for c
  proof -
    have "unat c < 1024 \<and> unat c \<noteq> 0 \<and> unat c \<noteq> 1"
      if "\<not> c <s 0" "\<not> 1024 \<le>s c" "c \<noteq> 0" "c \<noteq> 1"
    proof -
      have "sint c < 1024" "0 \<le> sint c" using that(1,2) by (simp_all add: word_sle_eq word_sless_alt)
      then have "uint c = sint c" by (simp add: uint_sint take_bit_int_eq_self)
      then have "uint c < 1024" using \<open>sint c < 1024\<close> by simp
      then have "c < 1024" by (simp add: word_less_def)
      then have "unat c < 1024" by (simp add: word_less_nat_alt)
      moreover have "unat c \<noteq> 1" using that(4) by (metis unat_1 word_unat_eq_iff)
      ultimately show ?thesis using that(3) by (simp add: unat_eq_0)
    qed
    then show ?thesis
      by (auto simp: isr80h_handle_command_def run_command_def lameos_max_isr80h_commands_def
          word_sle_eq word_sless_alt nth_list_update)
  qed
  with reg again show ?thesis by simp
qed

theorem isr80h_commands_dispatch_witness:
  "\<exists>s'. isr80h_register_commands interrupt_kernel = Inr s' \<and>
     isr80h_handle_command sample_idt (- 1) s' = Inr (0, s')"
proof -
  have "isr80h_commands interrupt_kernel = replicate 1024 None"
    by (simp add: interrupt_kernel_def tasks.extend_def)
  note d = isr80h_commands_dispatch [OF this, of sample_idt]
  obtain s' where "isr80h_register_commands interrupt_kernel = Inr s'"
    "\<forall>c. isr80h_handle_command sample_idt c s' =
      (if c = 0 then command0_sum s' else if c = 1 then command1_print sample_idt s' else Inr (0, s'))"
    using d by blast
  then show ?thesis by simp
qed

end
