(* ===== verification/TaskCopy.thy ===== *)
theory TaskCopy
  imports Task
begin

text \<open>
  \<open>copy_string_from_task\<close> of \<open>src/task/task.c\<close>: a string of a task's address space is copied through
  a page that is mapped for the length of one \<open>strncpy\<close>. The lemmas say what an entry of a page
  table decides, what \<open>strncpy\<close> does in an address space and that the entry is put back.
\<close>

section \<open>Words put back\<close>

lemma store32_load32: "store32 m a (load32 m a) = m"
proof -
  have "(ucast (load32 m a) :: u8) = m a" "(ucast (drop_bit 8 (load32 m a)) :: u8) = m (a + 1)"
    "(ucast (drop_bit 16 (load32 m a)) :: u8) = m (a + 2)" "(ucast (drop_bit 24 (load32 m a)) :: u8) = m (a + 3)"
    by (rule bit_word_eqI; auto simp: load32_def bit_simps dest: bit_imp_le_length)+
  then show ?thesis by (simp add: store32_def)
qed

lemma store32_inside: "in_region a 4 x \<Longrightarrow> store32 m a v x = store32 m' a v x"
proof -
  assume "in_region a 4 x"
  then have "unat (x - a) = 0 \<or> unat (x - a) = 1 \<or> unat (x - a) = 2 \<or> unat (x - a) = 3"
    by (auto simp: in_region_def word_less_nat_alt)
  then have "x - a = 0 \<or> x - a = 1 \<or> x - a = 2 \<or> x - a = 3"
    by (auto dest: unat_eq_of_nat)
  then have "x = a \<or> x = a + 1 \<or> x = a + 2 \<or> x = a + 3" by (auto simp: algebra_simps)
  then show ?thesis by (auto simp: store32_def)
qed

section \<open>The pages of an address space\<close>

text \<open>The chunk, its directory and its 1024 tables.\<close>

definition space_pages :: "mem \<Rightarrow> ptr \<Rightarrow> ptr set" where
  "space_pages m chunk = insert chunk (insert (load32 m chunk) (dir_table m (load32 m chunk) ` {..<1024}))"

definition space_live :: "'a kheap_scheme \<Rightarrow> ptr \<Rightarrow> bool" where
  "space_live s chunk \<longleftrightarrow> chunk_ok chunk (phys s) \<and> tables_present (load32 (phys s) chunk) (phys s) \<and>
     (\<forall>p \<in> space_pages (phys s) chunk. (p, 4096) \<in> kheap_live s)"

text \<open>An address space depends on its pages alone.\<close>

lemma space_pages_cong:
  assumes "\<forall>p \<in> space_pages m chunk. \<forall>x. in_region p 4096 x \<longrightarrow> m' x = m x"
  shows "load32 m' chunk = load32 m chunk" and "space_pages m' chunk = space_pages m chunk"
    and "chunk_ok chunk m' \<longleftrightarrow> chunk_ok chunk m"
    and "tables_present (load32 m chunk) m' \<longleftrightarrow> tables_present (load32 m chunk) m"
    and "n < 2 ^ 20 \<Longrightarrow> entry_addr m' (load32 m chunk) n = entry_addr m (load32 m chunk) n"
    and "n < 2 ^ 20 \<Longrightarrow> load32 m' (entry_addr m (load32 m chunk) n) = load32 m (entry_addr m (load32 m chunk) n)"
proof -
  have c: "m' x = m x" if "in_region chunk 4 x" for x
    using assms field_in_struct [of 0 4096 chunk x] that by (simp add: space_pages_def)
  have d: "m' x = m x" if "in_region (load32 m chunk) 4096 x" for x
    using assms that by (simp add: space_pages_def)
  note f = space_frame [OF c d]
  show "load32 m' chunk = load32 m chunk" "chunk_ok chunk m' \<longleftrightarrow> chunk_ok chunk m"
    "tables_present (load32 m chunk) m' \<longleftrightarrow> tables_present (load32 m chunk) m"
    by (simp_all add: f)
  have "dir_table m' (load32 m chunk) ` {..<1024} = dir_table m (load32 m chunk) ` {..<1024}"
    by (rule image_cong) (simp_all add: f(2))
  then show "space_pages m' chunk = space_pages m chunk" by (simp add: space_pages_def f(1))
  assume n: "n < 2 ^ 20"
  then have "n div 1024 < 1024" by simp
  then show "entry_addr m' (load32 m chunk) n = entry_addr m (load32 m chunk) n"
    by (simp add: entry_addr_def f(2))
  show "load32 m' (entry_addr m (load32 m chunk) n) = load32 m (entry_addr m (load32 m chunk) n)"
  proof (rule load32_cong)
    fix x assume "in_region (entry_addr m (load32 m chunk) n) 4 x"
    then have "in_region (dir_table m (load32 m chunk) (n div 1024)) 4096 x" by (rule entry_in_table [OF n])
    then show "m' x = m x" using \<open>n div 1024 < 1024\<close> by (intro assms [rule_format]) (auto simp: space_pages_def)
  qed
qed

lemma space_walk_cong:
  assumes "\<forall>p \<in> space_pages m chunk. \<forall>x. in_region p 4096 x \<longrightarrow> m' x = m x"
    and "tables_present (load32 m chunk) m"
  shows "translate (load32 m chunk) m' va = translate (load32 m chunk) m va"
proof (rule translate_same [OF assms(2)])
  note c = space_pages_cong [OF assms(1)]
  show "tables_present (load32 m chunk) m'" using c(4) assms(2) by blast
  show "load32 m' (entry_addr m' (load32 m chunk) (unat va div 4096)) =
      load32 m (entry_addr m (load32 m chunk) (unat va div 4096))"
    unfolding c(5) [OF page_split] by (rule c(6) [OF page_split])
qed

lemma entry_in_space:
  assumes "n < 2 ^ 20" and "in_region (entry_addr m (load32 m chunk) n) 4 x"
  shows "\<exists>p \<in> space_pages m chunk. in_region p 4096 x"
proof
  have "n div 1024 < 1024" using assms(1) by simp
  then show "dir_table m (load32 m chunk) (n div 1024) \<in> space_pages m chunk" by (simp add: space_pages_def)
qed (rule entry_in_table [OF assms])

text \<open>A new value for the entry of page \<open>n\<close>.\<close>

lemma entry_set:
  fixes v :: u32
  assumes ok: "chunk_ok chunk m" and n: "n < 2 ^ 20" and pr: "tables_present (load32 m chunk) m"
  defines "m' \<equiv> store32 m (entry_addr m (load32 m chunk) n) v"
  shows "load32 m' chunk = load32 m chunk" and "chunk_ok chunk m'" and "tables_present (load32 m chunk) m'"
    and "space_pages m' chunk = space_pages m chunk"
    and "k < 2 ^ 20 \<Longrightarrow> entry_addr m' (load32 m chunk) k = entry_addr m (load32 m chunk) k"
    and "unat va div 4096 \<noteq> n \<Longrightarrow> translate (load32 m chunk) m' va = translate (load32 m chunk) m va"
    and "\<lbrakk> q < 2 ^ 20; flags AND 0xFFFFF000 = 0; flags AND paging_is_present \<noteq> 0; v = page_addr q OR flags;
      unat va div 4096 = n \<rbrakk> \<Longrightarrow> translate (load32 m chunk) m' va = Some (page_addr q + (va AND 0xFFF))"
proof -
  have sp: "space_ok (load32 m chunk) m" using ok by (simp add: chunk_ok_def)
  show l: "load32 m' chunk = load32 m chunk" and "chunk_ok chunk m'"
    unfolding m'_def by (rule load_chunk_set [OF ok n], rule chunk_ok_set [OF ok n])
  show pr': "tables_present (load32 m chunk) m'"
    using pr dir_word_set [OF sp n] by (simp add: tables_present_def m'_def)
  have "dir_table m' (load32 m chunk) ` {..<1024} = dir_table m (load32 m chunk) ` {..<1024}"
    unfolding m'_def by (rule image_cong) (simp_all add: dir_table_set [OF sp n])
  then show "space_pages m' chunk = space_pages m chunk" by (simp add: space_pages_def l)
  show e: "entry_addr m' (load32 m chunk) k = entry_addr m (load32 m chunk) k" if "k < 2 ^ 20" for k
    unfolding m'_def by (rule entry_addr_set [OF sp n that])
  show "translate (load32 m chunk) m' va = translate (load32 m chunk) m va" if "unat va div 4096 \<noteq> n"
  proof (rule translate_same [OF pr pr'])
    show "load32 m' (entry_addr m' (load32 m chunk) (unat va div 4096)) =
        load32 m (entry_addr m (load32 m chunk) (unat va div 4096))"
      unfolding e [OF page_split] unfolding m'_def by (rule load_entry_set [OF sp n page_split that [symmetric]])
  qed
  show "translate (load32 m chunk) m' va = Some (page_addr q + (va AND 0xFFF))"
    if "q < 2 ^ 20" "flags AND 0xFFFFF000 = 0" "flags AND paging_is_present \<noteq> 0" "v = page_addr q OR flags"
      "unat va div 4096 = n"
    by (rule translate_mapped [OF pr' that(1-3)]) (simp add: that(5) e [OF n], simp add: m'_def that(4))
qed

section \<open>\<open>strncpy\<close> in an address space\<close>

text \<open>The destination is mapped to itself, and writing it changes neither the walk nor the source.\<close>

definition copy_ready :: "ptr \<Rightarrow> ptr \<Rightarrow> ptr \<Rightarrow> u8 list \<Rightarrow> i32 \<Rightarrow> mem \<Rightarrow> bool" where
  "copy_ready directory dest src s count m \<longleftrightarrow>
     (\<forall>m'. (\<forall>x. \<not> in_region dest (of_nat (Suc (length s))) x \<longrightarrow> m' x = m x) \<longrightarrow>
       (\<forall>i \<le> length s. translate directory m' (dest + of_nat i) = Some (dest + of_nat i)) \<and>
       (\<forall>i < length s. virt_load directory m' (src + of_nat i) = Some (s ! i)) \<and>
       (int (length s) < sint (count - 1) \<longrightarrow> virt_load directory m' (src + of_nat (length s)) = Some 0))"

lemma virt_copy_loop:
  assumes ready: "copy_ready directory dest src s count m"
    and len: "int (length s) \<le> sint (count - 1)" and nz: "0 \<notin> set s"
  shows "j \<le> length s \<Longrightarrow> \<forall>x. \<not> in_region dest (of_nat (Suc (length s))) x \<longrightarrow> m' x = m x \<Longrightarrow>
    virt_strncpy_loop directory dest src count (of_nat j) m' =
      Inr (of_nat (length s), put_bytes (dest + of_nat j) (drop j s) m')"
proof (induction "length s - j" arbitrary: j m')
  have k: "length s < 2 ^ 31" using len sint_range_u32(2) [of "count - 1"] by simp
  case 0
  then have j: "j = length s" by simp
  have "\<not> (of_nat j :: i32) <s count - 1 \<or> virt_load directory m' (src + of_nat j) = Some 0"
    using ready "0.prems"(2) k by (auto simp: copy_ready_def word_sless_alt j sint_of_nat_u32)
  then show ?case
    by (subst virt_strncpy_loop.simps) (auto simp: j virt_load_def split: option.splits)
next
  have k: "length s < 2 ^ 31" using len sint_range_u32(2) [of "count - 1"] by simp
  case (Suc d)
  then have j: "j < length s" by simp
  let ?m = "m'(dest + of_nat j := s ! j)"
  have r: "translate directory m' (dest + of_nat j) = Some (dest + of_nat j)"
    "virt_load directory m' (src + of_nat j) = Some (s ! j)"
    using ready Suc.prems(2) j by (simp_all add: copy_ready_def)
  have "(of_nat j :: i32) <s count - 1" using j k len by (simp add: word_sless_alt sint_of_nat_u32)
  moreover obtain a where "translate directory m' (src + of_nat j) = Some a" "m' a = s ! j"
    using r(2) by (auto simp: virt_load_def split: option.splits)
  moreover have "s ! j \<noteq> 0" using nz j nth_mem by metis
  ultimately have step: "virt_strncpy_loop directory dest src count (of_nat j) m' =
      virt_strncpy_loop directory dest src count (of_nat (Suc j)) ?m"
    using r(1) by (subst virt_strncpy_loop.simps) (simp add: add.commute)
  have "in_region dest (of_nat (Suc (length s))) (dest + of_nat j)"
    using j k by (simp add: in_region_of_nat del: of_nat_Suc)
  then have "\<forall>x. \<not> in_region dest (of_nat (Suc (length s))) x \<longrightarrow> ?m x = m x" using Suc.prems(2) by auto
  then have "virt_strncpy_loop directory dest src count (of_nat (Suc j)) ?m =
      Inr (of_nat (length s), put_bytes (dest + of_nat (Suc j)) (drop (Suc j) s) ?m)"
    using Suc.hyps j by (intro Suc.hyps(1)) simp_all
  moreover have "drop j s = s ! j # drop (Suc j) s" using j by (simp add: Cons_nth_drop_Suc)
  ultimately show ?case by (simp add: step ac_simps)
qed

lemma virt_strncpy_copy:
  assumes ready: "copy_ready directory dest src s count m"
    and len: "int (length s) \<le> sint (count - 1)" and nz: "0 \<notin> set s"
  shows "virt_strncpy directory dest src count m = Inr (put_bytes dest (s @ [0]) m)"
proof -
  have k: "length s < 2 ^ 31" using len sint_range_u32(2) [of "count - 1"] by simp
  have "virt_strncpy_loop directory dest src count (of_nat 0) m =
      Inr (of_nat (length s), put_bytes (dest + of_nat 0) (drop 0 s) m)"
    by (rule virt_copy_loop [OF assms]) simp_all
  then have loop: "virt_strncpy_loop directory dest src count 0 m = Inr (of_nat (length s), put_bytes dest s m)" by simp
  have "(of_nat (length s) :: u32) \<le> of_nat (Suc (length s))"
    using k by (simp add: word_le_nat_alt del: of_nat_Suc)
  then have "\<forall>x. \<not> in_region dest (of_nat (Suc (length s))) x \<longrightarrow> put_bytes dest s m x = m x"
    using in_region_mono k by (intro allI impI put_bytes_out) auto
  then have "translate directory (put_bytes dest s m) (dest + of_nat (length s)) = Some (dest + of_nat (length s))"
    using ready by (simp add: copy_ready_def)
  with loop show ?thesis by (simp add: virt_strncpy_def put_bytes_append)
qed

section \<open>The string of a task\<close>

text \<open>A byte the task \<open>t\<close> sees at \<open>va\<close>, when it lies in a live block that is neither the task's struct nor
  a page of its address space.\<close>

definition user_byte :: "('d, 'a) tasks_scheme \<Rightarrow> ptr \<Rightarrow> ptr \<Rightarrow> u8 \<Rightarrow> bool" where
  "user_byte s t va b \<longleftrightarrow> (\<exists>a q l. translate (task_space (phys s) t) (phys s) va = Some a \<and> phys s a = b \<and>
     (q, l) \<in> kheap_live s \<and> in_region q l a \<and> q \<noteq> t \<and> q \<notin> space_pages (phys s) (task_page_directory (phys s) t))"

text \<open>A string at \<open>va\<close>, below the addresses of the heap, up to its zero or to \<open>n\<close> bytes.\<close>

definition user_string :: "('d, 'a) tasks_scheme \<Rightarrow> ptr \<Rightarrow> ptr \<Rightarrow> u8 list \<Rightarrow> nat \<Rightarrow> bool" where
  "user_string s t va str n \<longleftrightarrow> length str \<le> n \<and> 0 \<notin> set str \<and> unat va + n < 0x1000000 \<and>
     (\<forall>i < length str. user_byte s t (va + of_nat i) (str ! i)) \<and>
     (length str < n \<longrightarrow> user_byte s t (va + of_nat (length str)) 0)"

text \<open>A task whose struct and address space are live pages.\<close>

definition task_live :: "('d, 'a) tasks_scheme \<Rightarrow> ptr \<Rightarrow> bool" where
  "task_live s t \<longleftrightarrow> kheap_inv s \<and> (t, 4096) \<in> kheap_live s \<and> space_live s (task_page_directory (phys s) t) \<and>
     t \<notin> space_pages (phys s) (task_page_directory (phys s) t)"

lemma heap_page:
  assumes "kheap_inv s" and "(p, k) \<in> kheap_live s"
  obtains n where "p = page_addr n" "4096 \<le> n" "n < 2 ^ 20" "n < 29696"
proof -
  have "in_region p k p" using kmalloc_heap.live_nonnull [OF assms] by (simp add: in_region_def)
  then have "in_heap p" by (rule live_in_heap [OF assms])
  then have "unat (p - 0x1000000) < 104857600" by (simp add: in_heap_def in_region_def word_less_nat_alt)
  then have ge: "0x1000000 \<le> unat p" by (auto simp: unat_sub_if' split: if_splits)
  have "paging_is_aligned p"
    using kheap_live_aligned [OF assms(2)] low12_mod [of p] by (simp add: aligned_iff)
  then obtain n where "n < 2 ^ 20" "p = page_addr n" by (auto simp: aligned_page_addr)
  moreover have "unat p < 4096 * 29696" using \<open>unat (p - 0x1000000) < 104857600\<close> ge by (auto simp: unat_sub_if' split: if_splits)
  ultimately show thesis using ge that [of n] by (simp add: unat_page_addr)
qed

text \<open>The copy through a page that is mapped to itself: \<open>m\<close> is the memory before the mapping.\<close>

lemma copy_through_page:
  assumes ok: "chunk_ok chunk m" and pr: "tables_present (load32 m chunk) m" and n: "n < 2 ^ 20"
    and fl: "flags AND 0xFFFFF000 = 0" "flags AND paging_is_present \<noteq> 0"
    and pages: "\<forall>p \<in> space_pages m chunk. \<forall>x. in_region p 4096 x \<longrightarrow> \<not> in_region (page_addr n) 4096 x"
    and len: "int (length s) \<le> sint (count - 1)" "length s < 4096" and nz: "0 \<notin> set s"
    and user: "\<And>i b. i < length s \<and> b = s ! i \<or> i = length s \<and> int (length s) < sint (count - 1) \<and> b = 0 \<Longrightarrow>
      \<exists>a. translate (load32 m chunk) m (va + of_nat i) = Some a \<and> m a = b \<and> \<not> in_region (page_addr n) 4096 a \<and>
        (\<forall>p \<in> space_pages m chunk. \<not> in_region p 4096 a) \<and> unat (va + of_nat i) div 4096 \<noteq> n"
  defines "m2 \<equiv> store32 m (entry_addr m (load32 m chunk) n) (page_addr n OR flags)"
  shows "virt_strncpy (load32 m chunk) (page_addr n) va count m2 = Inr (put_bytes (page_addr n) (s @ [0]) m2)"
proof (rule virt_strncpy_copy [OF _ len(1) nz])
  note e = entry_set [where v = "page_addr n OR flags", OF ok n pr, folded m2_def]
  have walk: "translate (load32 m chunk) m' w = translate (load32 m chunk) m2 w"
    if "\<forall>x. \<not> in_region (page_addr n) (of_nat (Suc (length s))) x \<longrightarrow> m' x = m2 x" for m' w
  proof -
    have "(of_nat (Suc (length s)) :: u32) \<le> 4096" using len(2) by (simp add: word_le_nat_alt del: of_nat_Suc)
    then have "\<forall>p \<in> space_pages m2 chunk. \<forall>x. in_region p 4096 x \<longrightarrow> m' x = m2 x"
      using that pages in_region_mono unfolding e(4) by metis
    from space_walk_cong [OF this] show ?thesis unfolding e(1) using e(3) by blast
  qed
  have dest: "translate (load32 m chunk) m' (page_addr n + of_nat i) = Some (page_addr n + of_nat i)"
    if "\<forall>x. \<not> in_region (page_addr n) (of_nat (Suc (length s))) x \<longrightarrow> m' x = m2 x" "i \<le> length s" for m' i
  proof -
    have u: "unat (page_addr n + of_nat i) = 4096 * n + i"
      using n that(2) len(2) by (simp add: unat_word_ariths unat_page_addr)
    then have d: "unat (page_addr n + of_nat i) div 4096 = n" using that(2) len(2) by simp
    have "page_addr n + (page_addr n + of_nat i AND 0xFFF) = page_addr n + of_nat i"
      using page_offset [of "page_addr n + of_nat i"] unfolding d .
    then show ?thesis using e(7) [OF n fl refl d] walk [OF that(1)] by simp
  qed
  have byte: "virt_load (load32 m chunk) m' (va + of_nat i) = Some b"
    if m': "\<forall>x. \<not> in_region (page_addr n) (of_nat (Suc (length s))) x \<longrightarrow> m' x = m2 x"
      and i: "i < length s \<and> b = s ! i \<or> i = length s \<and> int (length s) < sint (count - 1) \<and> b = 0" for m' i b
  proof -
    obtain a where a: "translate (load32 m chunk) m (va + of_nat i) = Some a" "m a = b"
      "\<not> in_region (page_addr n) 4096 a" "\<forall>p \<in> space_pages m chunk. \<not> in_region p 4096 a"
      "unat (va + of_nat i) div 4096 \<noteq> n"
      using user [OF i] by blast
    have "(of_nat (Suc (length s)) :: u32) \<le> 4096" using len(2) by (simp add: word_le_nat_alt del: of_nat_Suc)
    then have "m' a = m2 a" using m' a(3) in_region_mono by metis
    moreover have "m2 a = m a"
      unfolding m2_def by (rule store32_other) (use entry_in_space [OF n] a(4) in blast)
    ultimately show ?thesis
      using a(1,2) e(6) [OF a(5)] walk [OF m'] by (simp add: virt_load_def)
  qed
  show "copy_ready (load32 m chunk) (page_addr n) va s count m2"
    unfolding copy_ready_def
  proof (intro allI impI conjI)
    fix m' i assume m': "\<forall>x. \<not> in_region (page_addr n) (of_nat (Suc (length s))) x \<longrightarrow> m' x = m2 x"
    show "i \<le> length s \<Longrightarrow> translate (load32 m chunk) m' (page_addr n + of_nat i) = Some (page_addr n + of_nat i)"
      by (rule dest [OF m'])
    show "i < length s \<Longrightarrow> virt_load (load32 m chunk) m' (va + of_nat i) = Some (s ! i)"
      "int (length s) < sint (count - 1) \<Longrightarrow> virt_load (load32 m chunk) m' (va + of_nat (length s)) = Some 0"
      by (rule byte [OF m'], blast)+
  qed
qed

lemma user_byte_page:
  assumes "task_live s t" and "user_byte s t va b"
  obtains a where "translate (task_space (phys s) t) (phys s) va = Some a" "phys s a = b" "kheap_stable s a"
    "\<forall>p \<in> space_pages (phys s) (task_page_directory (phys s) t). \<not> in_region p 4096 a" "\<not> in_region t 4096 a"
proof -
  obtain a q l where a: "translate (task_space (phys s) t) (phys s) va = Some a" "phys s a = b"
    and q: "(q, l) \<in> kheap_live s" "in_region q l a" "q \<noteq> t"
      "q \<notin> space_pages (phys s) (task_page_directory (phys s) t)"
    using assms(2) by (auto simp: user_byte_def)
  have inv: "kheap_inv s" using assms(1) by (simp add: task_live_def)
  have "\<not> in_region p 4096 a" if "(p, 4096) \<in> kheap_live s" "p \<noteq> q" for p
    using kmalloc_heap.live_apart [OF inv that(1) q(1)] that(2) apart_not_in q(2) by blast
  moreover have "(p, 4096) \<in> kheap_live s" "p \<noteq> q" if "p \<in> space_pages (phys s) (task_page_directory (phys s) t)" for p
    using that q(4) assms(1) by (auto simp: task_live_def space_live_def)
  moreover have "(t, 4096) \<in> kheap_live s" using assms(1) by (simp add: task_live_def)
  ultimately show thesis using that a stable_live [OF inv q(1,2)] q(3) by blast
qed

text \<open>The memory after the copy into the page: everything but the page is as before.\<close>

definition copy_flags :: u32 where
  "copy_flags = paging_is_writeable OR paging_is_present OR paging_access_from_all"

lemma copy_flags_ok: "copy_flags AND 0xFFFFF000 = 0" "copy_flags AND paging_is_present \<noteq> 0"
  by (simp_all add: copy_flags_def paging_is_writeable_def paging_is_present_def paging_access_from_all_def)

lemma copy_page_restored:
  fixes v :: u32
  assumes ok: "chunk_ok chunk m" and pr: "tables_present (load32 m chunk) m" and n: "n < 2 ^ 20"
    and pages: "\<forall>p \<in> space_pages m chunk. \<forall>x. in_region p 4096 x \<longrightarrow> \<not> in_region (page_addr n) 4096 x"
    and len: "length bs \<le> 4096"
  defines "e \<equiv> entry_addr m (load32 m chunk) n"
  defines "m4 \<equiv> put_bytes (page_addr n) bs (store32 m e v)"
  shows "entry_addr m4 (load32 m chunk) n = e"
    and "\<not> in_region (page_addr n) (of_nat (length bs)) x \<Longrightarrow> store32 m4 e (load32 m e) x = m x"
    and "i < length bs \<Longrightarrow> store32 m4 e (load32 m e) (page_addr n + of_nat i) = bs ! i"
proof -
  have le: "(of_nat (length bs) :: u32) \<le> 4096" using len by (simp add: word_le_nat_alt)
  note set = entry_set [OF ok n pr, where v = v, folded e_def]
  have out: "m4 x = store32 m e v x" if "\<not> in_region (page_addr n) (of_nat (length bs)) x" for x
    unfolding m4_def by (rule put_bytes_out) (use len that in simp_all)
  have e_out: "\<not> in_region (page_addr n) 4096 x" if "in_region e 4 x" for x
    using entry_in_space [OF n] that pages unfolding e_def by blast
  have "\<forall>p \<in> space_pages (store32 m e v) chunk. \<forall>x. in_region p 4096 x \<longrightarrow> m4 x = store32 m e v x"
    unfolding set(4) using pages out in_region_mono [OF _ le] by blast
  from space_pages_cong(5) [OF this n] set(5) [OF n]
  show "entry_addr m4 (load32 m chunk) n = e" unfolding set(1) by (simp add: e_def)
  show "store32 m4 e (load32 m e) x = m x" if "\<not> in_region (page_addr n) (of_nat (length bs)) x"
  proof (cases "in_region e 4 x")
    case True
    from store32_inside [OF this, of m4 "load32 m e" m] show ?thesis by (simp add: store32_load32)
  qed (simp add: store32_other out [OF that])
  assume i: "i < length bs"
  then have "in_region (page_addr n) 4096 (page_addr n + of_nat i)"
    using len in_region_of_nat [of i "page_addr n" 4096] by simp
  then have "store32 m4 e (load32 m e) (page_addr n + of_nat i) = m4 (page_addr n + of_nat i)"
    using e_out by (intro store32_other) blast
  then show "store32 m4 e (load32 m e) (page_addr n + of_nat i) = bs ! i"
    using i len by (simp add: m4_def put_bytes_nth)
qed

text \<open>Map, copy, put back, copy on: \<open>m\<close> is the memory after the allocation of the page.\<close>

lemma copy_page_memory:
  assumes ok: "chunk_ok chunk m" and pr: "tables_present (load32 m chunk) m" and n: "n < 2 ^ 20"
    and pages: "\<forall>p \<in> space_pages m chunk. \<forall>x. in_region p 4096 x \<longrightarrow> \<not> in_region (page_addr n) 4096 x"
    and len: "int (length s) \<le> sint (count - 1)" "length s < 4096" and nz: "0 \<notin> set s"
    and user: "\<forall>i b. i < length s \<and> b = s ! i \<or> i = length s \<and> int (length s) < sint (count - 1) \<and> b = 0 \<longrightarrow>
      (\<exists>a. translate (load32 m chunk) m (va + of_nat i) = Some a \<and> m a = b \<and> \<not> in_region (page_addr n) 4096 a \<and>
        (\<forall>p \<in> space_pages m chunk. \<not> in_region p 4096 a) \<and> unat (va + of_nat i) div 4096 \<noteq> n)"
    and out: "apart out (of_nat (Suc (length s))) (page_addr n) (of_nat (Suc (length s)))"
  obtains m4 m5 where
    "virt_strncpy (load32 m chunk) (page_addr n) va count
       (store32 m (entry_addr m (load32 m chunk) n) (page_addr n OR copy_flags)) = Inr m4"
    "paging_set (load32 m chunk) (page_addr n) (load32 m (entry_addr m (load32 m chunk) n)) m4 = (0, m5)"
    "strncpy out (page_addr n) count m5 = put_bytes out (s @ [0]) m5"
    "\<And>x. \<not> in_region (page_addr n) 4096 x \<Longrightarrow> m5 x = m x"
proof
  let ?e = "entry_addr m (load32 m chunk) n"
  let ?m4 = "put_bytes (page_addr n) (s @ [0]) (store32 m ?e (page_addr n OR copy_flags))"
  let ?m5 = "store32 ?m4 ?e (load32 m ?e)"
  have l: "length (s @ [0]) \<le> 4096" using len(2) by simp
  note r = copy_page_restored [OF ok pr n pages l, where v = "page_addr n OR copy_flags"]
  show "virt_strncpy (load32 m chunk) (page_addr n) va count (store32 m ?e (page_addr n OR copy_flags)) = Inr ?m4"
    by (rule copy_through_page [OF ok pr n copy_flags_ok pages len nz]) (rule user [rule_format])
  show "paging_set (load32 m chunk) (page_addr n) (load32 m ?e) ?m4 = (0, ?m5)"
    by (simp only: paging_set_page [OF n] r(1))
  have "?m5 (page_addr n + of_nat i) = (s @ [0]) ! i" if "i \<le> length s" for i
    by (rule r(3)) (use that in simp)
  then have "cstr_at ?m5 (page_addr n) s"
    using nz len(2) unfolding cstr_at_iff by (auto simp: nth_append in_set_conv_nth)
  then have "strncpy out (page_addr n) count ?m5 = put_bytes out (take (length s) s @ [0]) ?m5"
    by (rule strncpy_cstr) (use len out in simp_all)
  then show "strncpy out (page_addr n) count ?m5 = put_bytes out (s @ [0]) ?m5" by simp
  have "(of_nat (length (s @ [0])) :: u32) \<le> 4096" using l by (simp add: word_le_nat_alt del: of_nat_Suc)
  then show "?m5 x = m x" if "\<not> in_region (page_addr n) 4096 x" for x
    using r(2) that in_region_mono by blast
qed

text \<open>The page for the copy, and how the task's space looks after its allocation.\<close>

definition copy_page :: "('d, 'a) tasks_scheme \<Rightarrow> i32 \<Rightarrow> ptr \<Rightarrow> nat \<Rightarrow> ('d, 'a) tasks_scheme \<Rightarrow> bool" where
  "copy_page s max_len tmp q s1 \<longleftrightarrow> kzalloc max_len s = (tmp, s1) \<and> s1 = s\<lparr>phys := phys s1\<rparr> \<and>
     tmp = page_addr q \<and> 4096 \<le> q \<and> q < 2 ^ 20 \<and> tmp \<noteq> 0 \<and> kheap_inv s1 \<and>
     kheap_live s1 = insert (tmp, 4096) (kheap_live s) \<and> Suc (kheap_pages s1) = kheap_pages s \<and>
     (tmp, 4096) \<notin> kheap_live s \<and>
     (\<forall>x. kheap_stable s x \<longrightarrow> phys s1 x = phys s x \<and> \<not> in_region tmp 4096 x)"

lemma copy_page_new:
  assumes inv: "kheap_inv s" and pages: "0 < kheap_pages s" and n: "0 < sint max_len" "sint max_len < 4096"
  obtains tmp q s1 where "copy_page s max_len tmp q s1"
proof -
  have "uint max_len = sint max_len" using n by (simp add: uint_sint take_bit_int_eq_self)
  then have n32: "0 < max_len" "max_len \<le> 4096" using n by (auto simp: word_less_def word_le_def)
  obtain tmp s1 where al: "kzalloc max_len s = (tmp, s1)" by (cases "kzalloc max_len s")
  note f = kzalloc_page_facts [OF inv pages n32 al]
  have "s1 = s\<lparr>phys := phys s1\<rparr>" using memory_only_kzalloc [OF al] by (auto simp: memory_only_def)
  moreover obtain q where "tmp = page_addr q" "4096 \<le> q" "q < 2 ^ 20"
    by (rule heap_page [OF f(1), of tmp 4096]) (simp_all add: f(2))
  ultimately have "copy_page s max_len tmp q s1" using al f by (simp add: copy_page_def)
  then show thesis by (rule that)
qed

lemma copy_page_space:
  assumes live: "task_live s t" and page: "copy_page s max_len tmp q s1"
  defines "c \<equiv> task_page_directory (phys s) t"
  shows "load32 (phys s1) t = c" and "load32 (phys s1) c = task_space (phys s) t"
    and "space_pages (phys s1) c = space_pages (phys s) c" and "chunk_ok c (phys s1)"
    and "tables_present (load32 (phys s1) c) (phys s1)"
    and "translate (load32 (phys s1) c) (phys s1) va = translate (task_space (phys s) t) (phys s) va"
    and "\<forall>p \<in> space_pages (phys s1) c. \<forall>x. in_region p 4096 x \<longrightarrow> \<not> in_region tmp 4096 x"
    and "load32 (store32 (phys s1) (entry_addr (phys s1) (load32 (phys s1) c) q) v) t = c"
proof -
  have inv: "kheap_inv s" and tl: "(t, 4096) \<in> kheap_live s" and sl: "space_live s c" and tc: "t \<notin> space_pages (phys s) c"
    using live by (simp_all add: task_live_def c_def)
  have st: "phys s1 x = phys s x \<and> \<not> in_region tmp 4096 x" if "(p, 4096) \<in> kheap_live s" "in_region p 4096 x" for p x
    using page stable_live [OF inv that] unfolding copy_page_def by blast
  have pg: "(p, 4096) \<in> kheap_live s" if "p \<in> space_pages (phys s) c" for p
    using sl that by (simp add: space_live_def)
  have sp: "\<forall>p \<in> space_pages (phys s) c. \<forall>x. in_region p 4096 x \<longrightarrow> phys s1 x = phys s x" using st pg by blast
  note c1 = space_pages_cong [OF sp]
  show td: "load32 (phys s1) t = c"
    using load32_struct [of 0 4096 t "phys s1" "phys s"] st [OF tl] by (simp add: c_def task_page_directory_def)
  show "load32 (phys s1) c = task_space (phys s) t" by (simp add: c1(1) task_space_def c_def [symmetric])
  show "space_pages (phys s1) c = space_pages (phys s) c" "chunk_ok c (phys s1)"
    "tables_present (load32 (phys s1) c) (phys s1)"
    using sl c1 by (simp_all add: space_live_def)
  show "translate (load32 (phys s1) c) (phys s1) va = translate (task_space (phys s) t) (phys s) va"
    using space_walk_cong [OF sp] sl unfolding c1(1) space_live_def task_space_def c_def [symmetric] by simp
  show "\<forall>p \<in> space_pages (phys s1) c. \<forall>x. in_region p 4096 x \<longrightarrow> \<not> in_region tmp 4096 x"
    using st pg unfolding c1(2) by blast
  have q: "q < 2 ^ 20" using page by (simp add: copy_page_def)
  let ?e = "entry_addr (phys s1) (load32 (phys s1) c) q"
  have "store32 (phys s1) ?e v x = phys s1 x" if x: "in_region t 4096 x" for x
  proof (rule store32_other, rule notI)
    assume "in_region ?e 4 x"
    from entry_in_space [OF q this] obtain p where p: "p \<in> space_pages (phys s) c" "in_region p 4096 x"
      unfolding c1(2) by blast
    then have "apart t 4096 p 4096" using kmalloc_heap.live_apart [OF inv tl pg [OF p(1)]] tc by blast
    with p(2) x show False using apart_not_in by blast
  qed
  then show "load32 (store32 (phys s1) ?e v) t = c"
    using load32_struct [of 0 4096 t "store32 (phys s1) ?e v" "phys s1"] td by simp
qed

text \<open>The bytes of the string after the allocation.\<close>

lemma copy_page_user:
  assumes live: "task_live s t" and page: "copy_page s max_len tmp q s1" and n: "0 < sint max_len"
    and str: "user_string s t va str (nat (sint max_len) - 1)"
    and i: "i < length str \<and> b = str ! i \<or> i = length str \<and> int (length str) < sint (max_len - 1) \<and> b = 0"
  defines "c \<equiv> task_page_directory (phys s) t"
  shows "\<exists>a. translate (load32 (phys s1) c) (phys s1) (va + of_nat i) = Some a \<and> phys s1 a = b \<and>
    \<not> in_region tmp 4096 a \<and> (\<forall>p \<in> space_pages (phys s1) c. \<not> in_region p 4096 a) \<and>
    unat (va + of_nat i) div 4096 \<noteq> q"
proof -
  note sp = copy_page_space [OF live page, folded c_def]
  have "user_byte s t (va + of_nat i) b"
    using str i n by (auto simp: user_string_def sint_pred word_sless_alt)
  from user_byte_page [OF live this] obtain a where
    a: "translate (task_space (phys s) t) (phys s) (va + of_nat i) = Some a"
    "phys s a = b" "kheap_stable s a" "\<forall>p \<in> space_pages (phys s) c. \<not> in_region p 4096 a"
    unfolding c_def by blast
  have "unat (va + of_nat i) div 4096 < 4096"
    using str i n by (auto simp: user_string_def unat_word_ariths sint_pred word_sless_alt)
  moreover have "4096 \<le> q" "phys s1 a = phys s a \<and> \<not> in_region tmp 4096 a"
    using page a(3) unfolding copy_page_def by blast+
  ultimately show ?thesis using a unfolding sp(3,6) by auto
qed

text \<open>The whole run in terms of memory: what is in the kernel's buffer and that the page table is as
  before.\<close>

lemma copy_string_memory:
  assumes live: "task_live s t" and page: "copy_page s max_len tmp q s1" and n: "0 < sint max_len" "sint max_len < 4096"
    and str: "user_string s t va str (nat (sint max_len) - 1)"
    and out: "apart out (of_nat (Suc (length str))) tmp (of_nat (Suc (length str)))"
  obtains m k where "copy_string_from_task t va out max_len s = Inr (0, kfree tmp (s\<lparr>cr3 := k,
      current_directory := k, data_segments := 0x10, phys := put_bytes out (str @ [0]) m\<rparr>))"
    and "\<And>x. \<not> in_region tmp 4096 x \<Longrightarrow> m x = phys s1 x"
proof -
  let ?c = "task_page_directory (phys s) t" and ?D = "task_space (phys s) t"
  let ?e = "entry_addr (phys s1) ?D q"
  note sp = copy_page_space [OF live page]
  have al: "kzalloc max_len s = (tmp, s1)" and q: "tmp = page_addr q" "q < 2 ^ 20" and t0: "tmp \<noteq> 0"
    and s1: "s1 = s\<lparr>phys := phys s1\<rparr>"
    using page unfolding copy_page_def by blast+
  have len: "int (length str) \<le> sint (max_len - 1)" "length str < 4096" "0 \<notin> set str"
    using str n by (auto simp: user_string_def sint_pred word_sless_alt)
  obtain m4 m5 where cp: "virt_strncpy ?D tmp va max_len (store32 (phys s1) ?e (tmp OR copy_flags)) = Inr m4"
    "paging_set ?D tmp (load32 (phys s1) ?e) m4 = (0, m5)"
    "strncpy out tmp max_len m5 = put_bytes out (str @ [0]) m5"
    and m5: "\<And>x. \<not> in_region tmp 4096 x \<Longrightarrow> m5 x = phys s1 x"
    using copy_page_memory [OF sp(4,5) q(2), of str max_len va out] sp(7) len out copy_page_user [OF live page n(1) str]
    unfolding sp(2) q(1) by blast
  have "paging_map ?c tmp tmp (paging_is_writeable OR paging_is_present OR paging_access_from_all) (phys s1) =
      (0, store32 (phys s1) ?e (tmp OR copy_flags))" "paging_get ?D tmp (phys s1) = load32 (phys s1) ?e"
    unfolding q(1) by (simp_all only: paging_map_page [OF q(2) q(2)] paging_get_page [OF q(2)] copy_flags_def sp(2))
  moreover have "load32 (store32 (phys s1) ?e v) ?c = ?D" for v
    using entry_set(1) [OF sp(4) q(2) sp(5)] unfolding sp(2) .
  moreover have "\<not> paging_page_size \<le>s max_len" using n by (simp add: paging_page_size_def word_sle_eq)
  moreover have "kernel_chunk s1 = kernel_chunk s" by (subst s1) simp
  moreover have "s1\<lparr>cr3 := k, current_directory := k, data_segments := 0x10, phys := m\<rparr> =
      s\<lparr>cr3 := k, current_directory := k, data_segments := 0x10, phys := m\<rparr>" for m k
    by (cases s, subst s1) simp
  ultimately have "copy_string_from_task t va out max_len s = Inr (0, kfree tmp (s\<lparr>cr3 := load32 m4 (kernel_chunk s),
      current_directory := load32 m4 (kernel_chunk s), data_segments := 0x10, phys := put_bytes out (str @ [0]) m5\<rparr>))"
    using cp t0 sp(1,2,8)
    by (simp add: copy_string_from_task_def al task_page_directory_def paging_switch_def
        paging_load_directory_def paging_4gb_chunk_get_directory_def kernel_page_eq in_kernel_def Let_def)
  then show thesis using m5 by (rule that)
qed

text \<open>The page is released again.\<close>

lemma copy_page_freed:
  fixes kd :: u32
  assumes inv: "kheap_inv s" and page: "copy_page s max_len tmp q s1" and len: "length str < 4096" "0 \<notin> set str"
    and out: "\<forall>x. in_region out max_len x \<longrightarrow> \<not> in_heap x \<and> \<not> in_table boot_heap x"
    and k: "(of_nat (Suc (length str)) :: u32) \<le> max_len"
    and m: "\<And>x. \<not> in_region tmp 4096 x \<Longrightarrow> m x = phys s1 x"
  defines "u \<equiv> s\<lparr>cr3 := kd, current_directory := kd, data_segments := 0x10, phys := put_bytes out (str @ [0]) m\<rparr>"
  shows "kfree tmp u = s\<lparr>cr3 := kd, current_directory := kd, data_segments := 0x10, phys := phys (kfree tmp u)\<rparr>"
    and "kheap_inv (kfree tmp u)" and "kheap_live (kfree tmp u) = kheap_live s" and "kheap_pages (kfree tmp u) = kheap_pages s"
    and "cstr_at (phys (kfree tmp u)) out str"
    and "\<forall>x. kheap_stable s x \<longrightarrow> \<not> in_region out max_len x \<longrightarrow> phys (kfree tmp u) x = phys s x"
proof -
  have s1: "kheap_inv s1" "kheap_live s1 = insert (tmp, 4096) (kheap_live s)" "Suc (kheap_pages s1) = kheap_pages s"
    "(tmp, 4096) \<notin> kheap_live s"
    and st: "\<forall>x. kheap_stable s x \<longrightarrow> phys s1 x = phys s x \<and> \<not> in_region tmp 4096 x"
    using page unfolding copy_page_def by blast+
  have tmp: "(tmp, 4096) \<in> kheap_live s1" by (simp add: s1(2))
  have phys: "phys u x = phys s1 x" if "\<not> in_region tmp 4096 x" "\<not> in_region out max_len x" for x
  proof -
    have "\<not> in_region out (of_nat (length (str @ [0]))) x" using that(2) k in_region_mono by auto
    then show ?thesis using m [OF that(1)] len(1) by (simp add: put_bytes_out u_def)
  qed
  have "phys u x = phys s1 x" if "in_table boot_heap x" for x
    using phys [of x] that kheap_live_not_in_table [OF s1(1) tmp] out by blast
  moreover have "kernel_heap u = boot_heap" using kheap_inv_repr [OF inv] by (simp add: u_def)
  ultimately have inv2: "kheap_inv u" and "kchunks u = kchunks s1" using kheap_same_table [OF s1(1)] by blast+
  then have live2: "kheap_live u = insert (tmp, 4096) (kheap_live s)" "Suc (kheap_pages u) = kheap_pages s"
    using s1(2,3) by (simp_all add: kheap_live_def kheap_pages_def)
  then have tmp2: "(tmp, 4096) \<in> kheap_live u" by simp
  note freed = kfree_served [OF inv2 tmp2]
  show "kfree tmp u = s\<lparr>cr3 := kd, current_directory := kd, data_segments := 0x10, phys := phys (kfree tmp u)\<rparr>"
    using memory_only_kfree [of u tmp] by (auto simp: memory_only_def u_def)
  show "kheap_inv (kfree tmp u)" by (rule freed(1))
  show "kheap_live (kfree tmp u) = kheap_live s" using freed(2) live2(1) s1(4) by auto
  show "kheap_pages (kfree tmp u) = kheap_pages s" using freed(4) live2(2) by simp
  have "phys (kfree tmp u) (out + of_nat i) = (str @ [0]) ! i" if "i \<le> length str" for i
  proof -
    have "in_region out (of_nat (Suc (length str))) (out + of_nat i)"
      using that len(1) by (simp add: in_region_of_nat del: of_nat_Suc)
    then have "\<not> in_table boot_heap (out + of_nat i)" using out k in_region_mono by blast
    then show ?thesis using freed(3) that len(1) by (simp add: put_bytes_nth u_def)
  qed
  then show "cstr_at (phys (kfree tmp u)) out str"
    using len unfolding cstr_at_iff by (auto simp: nth_append in_set_conv_nth)
  show "\<forall>x. kheap_stable s x \<longrightarrow> \<not> in_region out max_len x \<longrightarrow> phys (kfree tmp u) x = phys s x"
  proof (intro allI impI)
    fix x assume x: "kheap_stable s x" "\<not> in_region out max_len x"
    have "kheap_stable u x" by (rule stable_mono [OF _ x(1)]) (simp add: live2(1) subset_insertI)
    then have "phys (kfree tmp u) x = phys u x" by (rule kfree_stable [OF inv2 tmp2])
    then show "phys (kfree tmp u) x = phys s x" using phys x st by metis
  qed
qed

text \<open>What the call leaves: the string in the buffer, and every stable byte outside the buffer as it was.\<close>

lemma copy_string_run:
  assumes live: "task_live s t" and pages: "0 < kheap_pages s" and n: "0 < sint max_len" "sint max_len < 4096"
    and str: "user_string s t va str (nat (sint max_len) - 1)"
    and out: "\<forall>x. in_region out max_len x \<longrightarrow> \<not> in_heap x \<and> \<not> in_table boot_heap x"
  obtains s' k where "copy_string_from_task t va out max_len s = Inr (0, s')"
    "s' = s\<lparr>cr3 := k, current_directory := k, data_segments := 0x10, phys := phys s'\<rparr>"
    "kheap_inv s'" "kheap_live s' = kheap_live s" "kheap_pages s' = kheap_pages s"
    "cstr_at (phys s') out str"
    "\<forall>x. kheap_stable s x \<longrightarrow> \<not> in_region out max_len x \<longrightarrow> phys s' x = phys s x"
proof -
  have inv: "kheap_inv s" using live by (simp add: task_live_def)
  obtain tmp q s1 where page: "copy_page s max_len tmp q s1" by (rule copy_page_new [OF inv pages n])
  have s1: "kheap_inv s1" and tmp: "(tmp, 4096) \<in> kheap_live s1" using page unfolding copy_page_def by blast+
  have "uint max_len = sint max_len" using n by (simp add: uint_sint take_bit_int_eq_self)
  then have u: "unat max_len = nat (sint max_len)" by (metis nat_uint_eq)
  have len: "length str < 4096" "0 \<notin> set str" using str n by (auto simp: user_string_def)
  have "unat (of_nat (Suc (length str)) :: u32) = Suc (length str)" by (rule unat_of_nat_u32) (use len in simp)
  then have k: "(of_nat (Suc (length str)) :: u32) \<le> max_len" and n32: "max_len \<le> 4096" "0 < max_len"
    using str n u by (auto simp: user_string_def word_le_nat_alt word_less_nat_alt simp del: of_nat_Suc)
  have "in_heap tmp" by (rule live_in_heap [OF s1 tmp]) simp
  then have "\<not> in_region out max_len tmp" using out by blast
  moreover have "\<not> in_region tmp 4096 out" using live_in_heap [OF s1 tmp] out n32(2) in_region_start by blast
  ultimately have "apart out (of_nat (Suc (length str))) tmp (of_nat (Suc (length str)))"
    using in_region_mono k n32(1) unfolding apart_iff by (metis order_trans)
  from copy_string_memory [OF live page n str this] obtain m kd where
    run: "copy_string_from_task t va out max_len s = Inr (0, kfree tmp (s\<lparr>cr3 := kd,
      current_directory := kd, data_segments := 0x10, phys := put_bytes out (str @ [0]) m\<rparr>))"
    and m: "\<And>x. \<not> in_region tmp 4096 x \<Longrightarrow> m x = phys s1 x" by blast
  show thesis
    by (rule that [OF run]) (rule copy_page_freed [OF inv page len out k m], assumption?)+
qed

end
