(* ===== verification/TaskList.thy ===== *)
theory TaskList
  imports TaskCopy
begin

text \<open>
  The list of tasks of \<open>src/task/task.c\<close>: \<open>task_new\<close> appends a task with an address space of its own,
  \<open>task_list_remove\<close> unlinks one. The abstract view is the list of the addresses of the tasks.
\<close>

section \<open>The linked list\<close>

text \<open>The tasks from \<open>p\<close> on, linked forwards and backwards.\<close>

fun task_chain :: "mem \<Rightarrow> ptr \<Rightarrow> ptr \<Rightarrow> ptr list \<Rightarrow> bool" where
  "task_chain m p prev [] \<longleftrightarrow> p = 0"
| "task_chain m p prev (t # ts) \<longleftrightarrow>
     p = t \<and> t \<noteq> 0 \<and> task_prev m t = prev \<and> task_chain m (task_next m t) t ts"

definition last_or :: "ptr \<Rightarrow> ptr list \<Rightarrow> ptr" where
  "last_or p ts = (if ts = [] then p else last ts)"

lemma last_or_simps [simp]:
  "last_or p [] = p" "last_or p (t # ts) = last_or t ts" "last_or p (ts @ [t]) = t"
  by (simp_all add: last_or_def)

definition tasks_ok :: "('d, 'a) tasks_scheme \<Rightarrow> ptr list \<Rightarrow> bool" where
  "tasks_ok s ts \<longleftrightarrow> kheap_inv s \<and> distinct ts \<and> (\<forall>t \<in> set ts. (t, 4096) \<in> kheap_live s) \<and>
     task_chain (phys s) (task_head s) 0 ts \<and> task_tail s = last_or 0 ts \<and>
     (if ts = [] then current_task s = 0 else current_task s \<in> set ts)"

lemma task_chain_append:
  "\<lbrakk> task_chain m p prev ts; \<forall>u \<in> set ts. task_prev m' u = task_prev m u;
     \<forall>u \<in> set ts. u \<noteq> last ts \<longrightarrow> task_next m' u = task_next m u; distinct ts;
     ts \<noteq> [] \<Longrightarrow> task_next m' (last ts) = t; task_prev m' t = last_or prev ts; task_next m' t = 0; t \<noteq> 0 \<rbrakk> \<Longrightarrow>
   task_chain m' (if ts = [] then t else p) prev (ts @ [t])"
proof (induction ts arbitrary: p prev)
  case (Cons u us)
  show ?case
  proof (cases "us = []")
    case True
    then show ?thesis using Cons.prems by simp
  next
    case False
    have ne: "u \<noteq> last (u # us)" using Cons.prems(4) False by (metis distinct.simps(2) last_ConsR last_in_set)
    then have "task_next m' u = task_next m u" using Cons.prems(3) by simp
    moreover have "task_chain m' (task_next m u) u (us @ [t])"
      using Cons.IH [of "task_next m u" u] Cons.prems False by simp
    ultimately show ?thesis using Cons.prems(1,2) by simp
  qed
qed simp

text \<open>The chain when a task is taken out: forwards only.\<close>

fun next_chain :: "mem \<Rightarrow> ptr \<Rightarrow> ptr list \<Rightarrow> bool" where
  "next_chain m p [] \<longleftrightarrow> p = 0"
| "next_chain m p (t # ts) \<longleftrightarrow> p = t \<and> t \<noteq> 0 \<and> next_chain m (task_next m t) ts"

lemma next_chain_cong:
  "next_chain m p ts \<Longrightarrow> \<forall>t \<in> set ts. task_next m' t = task_next m t \<Longrightarrow> next_chain m' p ts"
  by (induction ts arbitrary: p) auto

lemma task_chain_next: "task_chain m p prev ts \<Longrightarrow> next_chain m p ts"
  by (induction ts arbitrary: p prev) auto

definition first_or :: "ptr \<Rightarrow> ptr list \<Rightarrow> ptr" where
  "first_or p ts = (case ts of [] \<Rightarrow> p | t # _ \<Rightarrow> t)"

lemma first_or_simps [simp]:
  "first_or p [] = p" "first_or p (t # ts) = t" "first_or p (ts @ [t]) = first_or t ts"
  by (simp_all add: first_or_def split: list.split)

lemma task_chain_middle:
  "task_chain m p prev (xs @ t # ys) \<Longrightarrow> t \<noteq> 0 \<and> task_prev m t = last_or prev xs \<and>
     task_chain m (task_next m t) t ys \<and> p = first_or t xs"
  by (induction xs arbitrary: p prev) auto

lemma next_chain_head: "next_chain m p ts \<Longrightarrow> p = first_or 0 ts"
  by (cases ts) auto

lemma next_chain_skip:
  "\<lbrakk> next_chain m p (xs @ t # ys); distinct xs; \<forall>u \<in> set (xs @ ys). (xs = [] \<or> u \<noteq> last xs) \<longrightarrow> task_next m' u = task_next m u;
     set xs \<inter> set ys = {}; xs \<noteq> [] \<longrightarrow> task_next m' (last xs) = task_next m t \<rbrakk> \<Longrightarrow>
   next_chain m' (if xs = [] then task_next m t else p) (xs @ ys)"
proof (induction xs arbitrary: p)
  case Nil
  then show ?case using next_chain_cong [of m _ ys m'] by auto
next
  case (Cons u us)
  show ?case
  proof (cases "us = []")
    case True
    have "next_chain m (task_next m t) ys" using True Cons.prems(1) by simp
    moreover have "\<forall>v \<in> set ys. task_next m' v = task_next m v" using True Cons.prems(3,4) by auto
    ultimately have "next_chain m' (task_next m t) ys" by (rule next_chain_cong)
    moreover have "p = u" "u \<noteq> 0" using Cons.prems(1) by simp_all
    moreover have "task_next m' u = task_next m t" using True Cons.prems(5) by simp
    ultimately show ?thesis using True by simp
  next
    case False
    then have "u \<noteq> last us" using Cons.prems(2) by auto
    then have "task_next m' u = task_next m u" using Cons.prems(3) False by simp
    moreover have "next_chain m' (task_next m u) (us @ ys)"
      using Cons.IH [of "task_next m u"] Cons.prems False by simp
    ultimately show ?thesis using Cons.prems(1) by simp
  qed
qed


section \<open>A new task\<close>

text \<open>A new address space stays the identity as long as nothing writes to its pages.\<close>

lemma space_built_pages:
  assumes built: "space_built s0 flags chunk dir ts s"
  shows "space_pages (phys s) chunk = set (chunk # dir # ts)"
proof -
  have "dir_table (phys s) dir ` {..<1024} = (\<lambda>i. ts ! i) ` {..<1024}"
    by (rule image_cong) (simp_all add: space_built_tables [OF built])
  moreover have "(\<lambda>i. ts ! i) ` {..<1024} = set ts"
    using built by (auto simp: space_built_def set_conv_nth image_iff)
  ultimately show ?thesis using space_built_chunk_ok(2) [OF built] by (auto simp: space_pages_def)
qed

lemma space_built_stays:
  assumes built: "space_built s0 flags chunk dir ts s" and bit: "bit flags 0"
    and same: "\<forall>q \<in> set (chunk # dir # ts). \<forall>x. in_region q 4096 x \<longrightarrow> m x = phys s x"
  shows "load32 m chunk = dir" and "translate dir m va = Some va" and "chunk_ok chunk m"
    and "tables_present dir m" and "space_pages m chunk = set (chunk # dir # ts)"
proof -
  note ok = space_built_chunk_ok [OF built] and pr = space_built_present [OF built bit]
  note same = same [folded space_built_pages [OF built]]
  note c = space_pages_cong [OF same]
  show "load32 m chunk = dir" "chunk_ok chunk m" "space_pages m chunk = set (chunk # dir # ts)"
    using c ok by (simp_all only: space_built_pages [OF built])
  show "tables_present dir m" using c(4) ok pr by simp
  show "translate dir m va = Some va"
    using space_walk_cong [OF same] space_built_identity [OF built bit] ok(2) pr by simp
qed

text \<open>The words \<open>task_init\<close> and \<open>task_new\<close> write into the new task.\<close>

definition task_fields :: "ptr \<Rightarrow> ptr \<Rightarrow> (u32 \<times> u32) list" where
  "task_fields chunk process = [(0, chunk), (32, lameos_program_virtual_address), (48, user_data_segment),
     (36, user_code_segment), (44, lameos_program_virtual_stack_address_start), (52, process)]"

lemma task_flags: "bit (ucast (paging_is_present OR paging_access_from_all) :: u8) 0"
  by (simp add: bit_simps paging_is_present_def paging_access_from_all_def)

lemma task_init_built:
  assumes inv: "kheap_inv s" and pages: "1026 \<le> kheap_pages s" and t: "(t, 4096) \<in> kheap_live s"
  obtains chunk dir ts u where
    "space_built (s\<lparr>phys := memset t 0 64 (phys s)\<rparr>) (ucast (paging_is_present OR paging_access_from_all)) chunk dir ts u"
    and "memory_only s u" and "chunk \<noteq> 0"
    and "task_init t process s = (0, u\<lparr>phys := store_fields t (task_fields chunk process) (phys u)\<rparr>)"
proof -
  let ?s0 = "s\<lparr>phys := memset t 0 64 (phys s)\<rparr>"
  let ?f = "ucast (paging_is_present OR paging_access_from_all) :: u8"
  have "memset t 0 64 (phys s) x = phys s x" if "\<not> in_region t 4096 x" for x
    using that by (intro memset_out) (auto simp: in_region_def word_less_nat_alt)
  from kheap_write_live [OF inv t this] have inv0: "kheap_inv ?s0" and "kchunks ?s0 = kchunks s" by blast+
  then have "kheap_pages ?s0 = kheap_pages s" by (simp add: kheap_pages_def)
  with paging_new_4gb_built [OF inv0, of ?f] pages obtain chunk dir ts u where
    new: "paging_new_4gb ?f ?s0 = (chunk, u)" and built: "space_built ?s0 ?f chunk dir ts u" by auto
  have mem: "memory_only s u" using paging_new_4gb_memory [OF new] by (auto simp: memory_only_def)
  have "(chunk, 4096) \<in> kheap_live u" and "kheap_inv u" using built by (auto simp: space_built_def)
  then have "chunk \<noteq> 0" using kmalloc_heap.live_nonnull by blast
  then have "task_init t process s = (0, u\<lparr>phys := store_fields t (task_fields chunk process) (phys u)\<rparr>)"
    by (simp add: task_init_def sizeof_task_def new task_page_directory_def Let_def task_registers_def
        task_fields_def add.assoc)
  with built mem \<open>chunk \<noteq> 0\<close> show thesis by (intro that)
qed

text \<open>Memory after the new task is written and linked behind the tail.\<close>

definition linked :: "ptr \<Rightarrow> ptr \<Rightarrow> ptr \<Rightarrow> ptr \<Rightarrow> mem \<Rightarrow> mem" where
  "linked t tail chunk process m =
     (let m1 = store_fields t (task_fields chunk process) m
      in if tail = 0 then m1 else store32 (store32 m1 (tail + 56) t) (t + 60) tail)"

lemma page_fields_apart:
  assumes "apart p 4096 q 4096" and "unat f + 4 \<le> 4096" and "unat g + 4 \<le> 4096"
  shows "apart (p + f) 4 (q + g) 4"
proof -
  have "in_region p 4096 (p + f)" "in_region q 4096 (q + g)"
    using assms(2,3) by (simp_all add: in_region_def word_less_nat_alt)
  then have "\<not> in_region p 4096 (q + g)" "\<not> in_region q 4096 (p + f)"
    using assms(1) apart_not_in apart_not_in2 by blast+
  then show ?thesis
    using field_in_struct [of f 4096 p "q + g"] field_in_struct [of g 4096 q "p + f"] assms(2,3)
    by (auto simp: apart_iff)
qed

lemma task_fields_ok:
  "field_list (task_fields chunk process)" "(f, v) \<in> set (task_fields chunk process) \<Longrightarrow> unat f + 4 \<le> 56"
  "(f, v) \<in> set (task_fields chunk process) \<Longrightarrow> unat f mod 4 = 0"
  by (auto simp: field_list_def task_fields_def)

lemma linked_out:
  assumes "\<not> in_region t 64 x" and "tail \<noteq> 0 \<Longrightarrow> \<not> in_region tail 64 x"
  shows "linked t tail chunk process m x = m x"
proof -
  have "store_fields t (task_fields chunk process) m x = m x"
    by (rule store_fields_struct [of _ 64]) (use assms(1) task_fields_ok(2) in fastforce)+
  moreover have "\<not> in_region (t + 60) 4 x" using assms(1) field_in_struct [of 60 64 t x] by auto
  moreover have "\<not> in_region (tail + 56) 4 x" if "tail \<noteq> 0"
    using assms(2) [OF that] field_in_struct [of 56 64 tail x] by auto
  ultimately show ?thesis by (simp add: linked_def Let_def store32_other)
qed

lemma linked_words:
  assumes "tail \<noteq> 0 \<longrightarrow> apart t 4096 tail 4096"
  shows "(f, v) \<in> set (task_fields chunk process) \<Longrightarrow> load32 (linked t tail chunk process m) (t + f) = v"
    and "load32 (linked t tail chunk process m) (t + 56) = load32 m (t + 56)"
    and "load32 (linked t tail chunk process m) (t + 60) = (if tail = 0 then load32 m (t + 60) else tail)"
    and "tail \<noteq> 0 \<Longrightarrow> load32 (linked t tail chunk process m) (tail + 56) = t"
    and "tail \<noteq> 0 \<Longrightarrow> load32 (linked t tail chunk process m) (tail + 60) = load32 m (tail + 60)"
proof -
  let ?m1 = "store_fields t (task_fields chunk process) m"
  have far: "apart (tail + 56) 4 (t + f) 4" "apart (t + g) 4 (tail + h) 4"
    if "tail \<noteq> 0" "unat f + 4 \<le> 64" "unat g + 4 \<le> 64" "unat h + 4 \<le> 64" for f g h
    using that page_fields_apart [OF assms [rule_format, OF that(1)], of f 56]
      page_fields_apart [OF assms [rule_format, OF that(1)], of g h]
    by (simp_all add: apart_sym)
  have near: "load32 (linked t tail chunk process m) (t + f) = load32 ?m1 (t + f)"
    if "unat f mod 4 = 0" "unat f + 4 \<le> 60" for f
  proof -
    have "f \<noteq> 60" using that(2) by auto
    then have "apart (t + 60) 4 (t + f) 4" using offsets_apart [of 60 f t] that(1) by simp
    then show ?thesis
      using far(1) [of f 0 0] that(2) by (simp add: linked_def Let_def load32_store32_apart)
  qed
  show "load32 (linked t tail chunk process m) (t + f) = v" if "(f, v) \<in> set (task_fields chunk process)"
    using near [of f] task_fields_ok(2,3) [OF that] load_store_fields [OF task_fields_ok(1) that] by simp
  have none: "load32 ?m1 (t + g) = load32 m (t + g)" if "g = 56 \<or> g = 60" for g
    by (rule load_store_fields_other [OF task_fields_ok(1)]) (use that in \<open>auto simp: task_fields_def\<close>)
  show "load32 (linked t tail chunk process m) (t + 56) = load32 m (t + 56)" using near [of 56] none by simp
  show "load32 (linked t tail chunk process m) (t + 60) = (if tail = 0 then load32 m (t + 60) else tail)"
    using none by (simp add: linked_def Let_def)
  assume tail: "tail \<noteq> 0"
  show "load32 (linked t tail chunk process m) (tail + 56) = t"
    using tail far(2) [of 0 60 56] by (simp add: linked_def Let_def load32_store32_apart)
  have "load32 ?m1 (tail + 60) = load32 m (tail + 60)"
  proof (rule load32_cong)
    fix x assume x: "in_region (tail + 60) 4 x"
    then have "in_region tail 4096 x" by (rule field_in_struct [rotated]) simp
    then have "\<not> in_region t 4096 x" using assms tail apart_not_in by blast
    then show "?m1 x = m x"
      by (intro store_fields_struct [of _ 4096]) (use task_fields_ok(2) in fastforce)+
  qed
  moreover have "apart (tail + 56) 4 (tail + 60) 4" by (rule offsets_apart) simp_all
  ultimately show "load32 (linked t tail chunk process m) (tail + 60) = load32 m (tail + 60)"
    using tail far(2) [of 0 60 60] by (simp add: linked_def Let_def load32_store32_apart)
qed

lemma tasks_ok_empty: "tasks_ok s ts \<Longrightarrow> task_head s = 0 \<longleftrightarrow> ts = []" "tasks_ok s ts \<Longrightarrow> task_tail s = 0 \<longleftrightarrow> ts = []"
proof -
  assume ok: "tasks_ok s ts"
  show "task_head s = 0 \<longleftrightarrow> ts = []" using ok by (cases ts) (auto simp: tasks_ok_def)
  show "task_tail s = 0 \<longleftrightarrow> ts = []"
  proof (cases "ts = []")
    case False
    then have "(last ts, 4096) \<in> kheap_live s" "kheap_inv s" "task_tail s = last ts"
      using ok by (auto simp: tasks_ok_def last_or_def)
    then show ?thesis using kmalloc_heap.live_nonnull [of s "last ts" 4096] False by simp
  qed (use ok in \<open>simp add: tasks_ok_def\<close>)
qed

text \<open>The run of \<open>task_new\<close>: what is allocated, and the state in the end.\<close>

lemma task_new_run:
  assumes ok: "tasks_ok s ts" and pages: "1027 \<le> kheap_pages s"
  obtains t s1 chunk dir tabs u where
    "kheap_inv s1" "kheap_live s1 = insert (t, 4096) (kheap_live s)" "Suc (kheap_pages s1) = kheap_pages s"
    "\<And>l. (t, l) \<notin> kheap_live s" "t \<noteq> 0" "\<And>x. kheap_stable s x \<Longrightarrow> phys s1 x = phys s x"
    "space_built (s1\<lparr>phys := memset t 0 64 (phys s1)\<rparr>) (ucast (paging_is_present OR paging_access_from_all)) chunk dir tabs u"
    "memory_only s u" "chunk \<noteq> 0"
    "task_new process s = (t, (if ts = [] then u\<lparr>task_head := t, current_task := t\<rparr> else u)
       \<lparr>phys := linked t (task_tail s) chunk process (phys u), task_tail := t\<rparr>)"
proof -
  have inv: "kheap_inv s" using ok by (simp add: tasks_ok_def)
  obtain t s1 where al: "kzalloc 64 s = (t, s1)" by (cases "kzalloc 64 s")
  have n: "0 < kheap_pages s" "(0 :: u32) < 64" "(64 :: u32) \<le> 4096" using pages by simp_all
  note f = kzalloc_page_facts [OF inv n al]
  have pages1: "1026 \<le> kheap_pages s1" using f(3) pages by simp
  have live1: "(t, 4096) \<in> kheap_live s1" by (simp add: f(2))
  obtain chunk dir tabs u where built: "space_built (s1\<lparr>phys := memset t 0 64 (phys s1)\<rparr>)
      (ucast (paging_is_present OR paging_access_from_all)) chunk dir tabs u"
    and mem: "memory_only s1 u" and chunk: "chunk \<noteq> 0"
    and init: "task_init t process s1 = (0, u\<lparr>phys := store_fields t (task_fields chunk process) (phys u)\<rparr>)"
    by (rule task_init_built [OF f(1) pages1 live1])
  have su: "memory_only s u" by (rule memory_only_trans [OF memory_only_kzalloc [OF al] mem])
  then have same: "task_head u = task_head s" "task_tail u = task_tail s" by (auto simp: memory_only_def)
  have "task_new process s = (t, (if ts = [] then u\<lparr>task_head := t, current_task := t\<rparr> else u)
       \<lparr>phys := linked t (task_tail s) chunk process (phys u), task_tail := t\<rparr>)"
    using f(5) tasks_ok_empty [OF ok]
    by (simp add: task_new_def sizeof_task_def al task_new_body_def init same linked_def Let_def
        lameos_ok_def iserr_def)
  with f(1-6) built su chunk show thesis by (intro that)
qed

lemma in_page: "in_region p 64 x \<Longrightarrow> in_region p 4096 x"
  by (simp add: in_region_def word_less_nat_alt)

lemma task_word:
  assumes "\<And>x. in_region q 4096 x \<Longrightarrow> m' x = m x"
  shows "task_next m' q = task_next m q" "task_prev m' q = task_prev m q"
  unfolding task_next_def task_prev_def by (rule load32_struct [of _ 4096, OF _ assms]; simp)+

text \<open>The memory when \<open>task_new\<close> links the new task: the old tasks are as they were, the new one is
  zero, and the pages of the new address space lie apart from all of them.\<close>

lemma task_new_memory:
  assumes ok: "tasks_ok s ts" and inv1: "kheap_inv s1" and live1: "kheap_live s1 = insert (t, 4096) (kheap_live s)"
    and fresh: "\<And>l. (t, l) \<notin> kheap_live s" and stable: "\<forall>x. kheap_stable s x \<longrightarrow> phys s1 x = phys s x"
    and built: "space_built (s1\<lparr>phys := memset t 0 64 (phys s1)\<rparr>) flags chunk dir tabs u"
  shows "kheap_inv u" and "kheap_pages u + 1026 = kheap_pages s1"
    and "kheap_live u = (\<lambda>p. (p, 4096)) ` set (chunk # dir # tabs) \<union> kheap_live s1"
    and "\<forall>x. kheap_stable s x \<longrightarrow> phys u x = phys s x"
    and "\<forall>x. in_region t 64 x \<longrightarrow> phys u x = 0"
    and "\<forall>q l. (q, l) \<in> kheap_live s \<longrightarrow> apart t 4096 q l"
    and "\<And>p q l. p \<in> set (chunk # dir # tabs) \<Longrightarrow> (q, l) \<in> kheap_live s1 \<Longrightarrow> apart p 4096 q l"
proof -
  let ?s0 = "s1\<lparr>phys := memset t 0 64 (phys s1)\<rparr>"
  have t1: "(t, 4096) \<in> kheap_live s1" by (simp add: live1)
  have "memset t 0 64 (phys s1) x = phys s1 x" if "\<not> in_region t 4096 x" for x
    using that in_page by (intro memset_out) blast
  from kheap_write_live [OF inv1 t1 this] have inv0: "kheap_inv ?s0" and "kchunks ?s0 = kchunks s1" by blast+
  then have s0: "kheap_live ?s0 = kheap_live s1" "kheap_pages ?s0 = kheap_pages s1"
    by (simp_all add: kheap_live_def kheap_pages_def)
  show inv: "kheap_inv u" and "kheap_pages u + 1026 = kheap_pages s1"
    and live: "kheap_live u = (\<lambda>p. (p, 4096)) ` set (chunk # dir # tabs) \<union> kheap_live s1"
    using built by (simp_all add: space_built_def s0)
  have keep: "phys u x = memset t 0 64 (phys s1) x" if "(q, l) \<in> kheap_live s1" "in_region q l x" for q l x
    using space_built_kept [OF inv0 built] that by (simp add: s0)
  have t_apart: "apart t 4096 q l" if "(q, l) \<in> kheap_live s" for q l
    using kmalloc_heap.live_apart [OF inv1 t1, of q l] that fresh live1 by auto
  show "\<forall>q l. (q, l) \<in> kheap_live s \<longrightarrow> apart t 4096 q l" using t_apart by blast
  show "\<forall>x. kheap_stable s x \<longrightarrow> phys u x = phys s x"
  proof (intro allI impI)
    fix x assume st: "kheap_stable s x"
    have "\<not> in_region t 4096 x" by (rule stable_not_new [OF inv1 t1 fresh _ st]) (use live1 in auto)
    moreover have "kheap_stable ?s0 x" by (rule stable_mono [OF _ st]) (use s0(1) live1 in auto)
    then have "phys u x = memset t 0 64 (phys s1) x" using built by (simp add: space_built_def)
    moreover have "phys s1 x = phys s x" using stable st by blast
    ultimately show "phys u x = phys s x" using in_page [of t x] by (simp add: memset_apply) blast
  qed
  show "\<forall>x. in_region t 64 x \<longrightarrow> phys u x = 0"
    using keep [OF t1 in_page] by simp
  show "apart p 4096 q l" if p: "p \<in> set (chunk # dir # tabs)" and q: "(q, l) \<in> kheap_live s1" for p q l
  proof -
    have "(p, 4096) \<noteq> (q, l)" using built p q by (auto simp: space_built_def s0)
    moreover have "(p, 4096) \<in> kheap_live u" "(q, l) \<in> kheap_live u" using p q live by auto
    ultimately show ?thesis using kmalloc_heap.live_apart [OF inv] by blast
  qed
qed

lemma load32_zero: "unat f + 4 \<le> 64 \<Longrightarrow> (\<And>x. in_region t 64 x \<Longrightarrow> m x = 0) \<Longrightarrow> load32 m (t + f) = 0"
  using load32_struct [of f 64 t m "\<lambda>_. 0"] by (simp add: load32_def)

text \<open>The list after the link.\<close>

lemma linked_chain:
  fixes chunk process :: ptr
  assumes ok: "tasks_ok s ts" and t0: "t \<noteq> 0" and far: "\<forall>q l. (q, l) \<in> kheap_live s \<longrightarrow> apart t 4096 q l"
    and zeros: "\<forall>x. in_region t 64 x \<longrightarrow> m x = 0"
    and kept: "\<forall>x. kheap_stable s x \<longrightarrow> m x = phys s x"
  defines "m' \<equiv> linked t (task_tail s) chunk process m"
  shows "task_chain m' (if ts = [] then t else task_head s) 0 (ts @ [t])"
    and "\<And>q l x. (q, l) \<in> kheap_live s \<Longrightarrow> (ts = [] \<or> q \<noteq> last ts) \<Longrightarrow> in_region q l x \<Longrightarrow> m' x = phys s x"
    and "\<And>f v. (f, v) \<in> set (task_fields chunk process) \<Longrightarrow> load32 m' (t + f) = v"
    and "\<And>x. \<lbrakk> kheap_stable s x; \<not> in_region t 4096 x; ts = [] \<or> \<not> in_region (last ts) 4096 x \<rbrakk> \<Longrightarrow> m' x = phys s x"
proof -
  note t = t0 far [rule_format] and zero = zeros [rule_format]
  have live: "(q, 4096) \<in> kheap_live s" if "q \<in> set ts" for q using that ok by (simp add: tasks_ok_def)
  have inv: "kheap_inv s" using ok by (simp add: tasks_ok_def)
  have old: "m x = phys s x" if "(q, l) \<in> kheap_live s" "in_region q l x" for q l x using kept stable_live [OF inv that] by blast
  have tail: "task_tail s = last_or 0 ts" using ok by (simp add: tasks_ok_def)
  have tail_live: "(task_tail s, 4096) \<in> kheap_live s" "ts \<noteq> []" "task_tail s = last ts" if "task_tail s \<noteq> 0"
    using that tail live by (auto simp: last_or_def split: if_splits)
  have tail_apart: "task_tail s \<noteq> 0 \<longrightarrow> apart t 4096 (task_tail s) 4096" using t(2) tail_live(1) by blast
  note w = linked_words [where tail = "task_tail s" and t = t and m = m and chunk = chunk and process = process,
      OF tail_apart, folded m'_def]
  show "load32 m' (t + f) = v" if "(f, v) \<in> set (task_fields chunk process)" for f v by (rule w(1) [OF that])
  show "m' x = phys s x" if x: "kheap_stable s x" "\<not> in_region t 4096 x" "ts = [] \<or> \<not> in_region (last ts) 4096 x" for x
  proof -
    have a: "\<not> in_region t 64 x" using x(2) in_page by blast
    have b: "\<not> in_region (task_tail s) 64 x" if "task_tail s \<noteq> 0"
      using x(3) tail_live [OF that] in_page by auto
    show ?thesis using linked_out [OF a b] kept x(1) by (simp add: m'_def)
  qed
  show keep: "m' x = phys s x" if q: "(q, l) \<in> kheap_live s" "ts = [] \<or> q \<noteq> last ts" "in_region q l x" for q l x
  proof -
    have "\<not> in_region t 64 x" using apart_not_in [OF t(2) [OF q(1)] q(3)] in_page by blast
    moreover have "\<not> in_region (task_tail s) 64 x" if "task_tail s \<noteq> 0"
    proof -
      have "(q, l) \<noteq> (task_tail s, 4096)" using q(2) tail_live [OF that] by auto
      then have "apart (task_tail s) 4096 q l" using kmalloc_heap.live_apart [OF inv tail_live(1) [OF that] q(1)] by blast
      then show ?thesis using apart_not_in q(3) in_page by blast
    qed
    ultimately show ?thesis using linked_out [of t x "task_tail s"] old [OF q(1,3)] by (simp add: m'_def)
  qed
  have word: "task_next m' q = task_next (phys s) q" "task_prev m' q = task_prev (phys s) q"
    if "q \<in> set ts" "q \<noteq> last ts" for q
    using task_word [of q m' "phys s"] keep [OF live [OF that(1)]] that(2) by auto
  have z: "load32 m (t + 56) = 0" "load32 m (t + 60) = 0" using load32_zero zero by simp_all
  show "task_chain m' (if ts = [] then t else task_head s) 0 (ts @ [t])"
  proof (rule task_chain_append [where m = "phys s"])
    show "task_chain (phys s) (task_head s) 0 ts" "distinct ts" using ok by (simp_all add: tasks_ok_def)
    show "\<forall>q \<in> set ts. task_prev m' q = task_prev (phys s) q"
    proof
      fix q assume q: "q \<in> set ts"
      show "task_prev m' q = task_prev (phys s) q"
      proof (cases "q = last ts")
        case True
        then have tl: "task_tail s = q" "ts \<noteq> []" using tail q by (auto simp: last_or_def)
        then have "q \<noteq> 0" using kmalloc_heap.live_nonnull [OF inv live [OF q]] by blast
        then have "load32 m' (q + 60) = load32 m (q + 60)" using w(5) tl tail_live(1) by auto
        moreover have "load32 m (q + 60) = load32 (phys s) (q + 60)"
          by (rule load32_struct [of _ 4096]) (use old [OF live [OF q]] in simp_all)
        ultimately show ?thesis by (simp add: task_prev_def)
      qed (use word(2) q in blast)
    qed
    show "\<forall>q \<in> set ts. q \<noteq> last ts \<longrightarrow> task_next m' q = task_next (phys s) q" using word(1) by blast
    show "task_next m' (last ts) = t" if "ts \<noteq> []"
      using w(4) tasks_ok_empty(2) [OF ok] tail_live that by (simp add: task_next_def)
    show "task_prev m' t = last_or 0 ts" using w(3) z tail tail_live by (simp add: task_prev_def)
    show "task_next m' t = 0" using w(2) z tail_live by (simp add: task_next_def)
  qed (rule t(1))
qed

text \<open>What \<open>task_new\<close> returns and leaves.\<close>

lemma new_task:
  assumes "tasks_ok s ts" and "1027 \<le> kheap_pages s"
  obtains t s' where "task_new process s = (t, s')" "t \<notin> set ts" "tasks_ok s' (ts @ [t])"
    "kheap_pages s' + 1027 = kheap_pages s" "current_task s' = (if ts = [] then t else current_task s)"
    "\<And>f v. (f, v) \<in> set (task_fields (task_page_directory (phys s') t) process) \<Longrightarrow> load32 (phys s') (t + f) = v"
    "\<And>va. translate (task_space (phys s') t) (phys s') va = Some va" "task_live s' t"
    "\<exists>m h c. s' = s\<lparr>phys := m, task_tail := t, task_head := h, current_task := c\<rparr>"
    "\<And>q l x. (q, l) \<in> kheap_live s \<Longrightarrow> (ts = [] \<or> q \<noteq> last ts) \<Longrightarrow> in_region q l x \<Longrightarrow> phys s' x = phys s x"
    "kheap_live s \<subseteq> kheap_live s'" "\<And>l. (t, l) \<notin> kheap_live s"
    "\<And>q l. q \<in> space_pages (phys s') (task_page_directory (phys s') t) \<Longrightarrow> (q, l) \<notin> kheap_live s"
    "\<And>x. kheap_stable s x \<Longrightarrow> (ts = [] \<or> \<not> in_region (last ts) 4096 x) \<Longrightarrow> phys s' x = phys s x"
proof -
  obtain t s1 chunk dir tabs u where inv1: "kheap_inv s1" and live1: "kheap_live s1 = insert (t, 4096) (kheap_live s)"
    and pg: "Suc (kheap_pages s1) = kheap_pages s" and fresh: "\<And>l. (t, l) \<notin> kheap_live s" and t0: "t \<noteq> 0"
    and stable: "\<forall>x. kheap_stable s x \<longrightarrow> phys s1 x = phys s x"
    and built: "space_built (s1\<lparr>phys := memset t 0 64 (phys s1)\<rparr>) (ucast (paging_is_present OR paging_access_from_all)) chunk dir tabs u"
    and mem: "memory_only s u"
    and run: "task_new process s = (t, (if ts = [] then u\<lparr>task_head := t, current_task := t\<rparr> else u)
       \<lparr>phys := linked t (task_tail s) chunk process (phys u), task_tail := t\<rparr>)"
    by (rule task_new_run [OF assms]) blast
  note m = task_new_memory [OF assms(1) inv1 live1 fresh stable built]
  note c = linked_chain [where chunk = chunk and process = process, OF assms(1) t0 m(6,5,4)]
  let ?L = "linked t (task_tail s) chunk process (phys u)"
  define s' where "s' = (if ts = [] then u\<lparr>task_head := t, current_task := t\<rparr> else u)\<lparr>phys := ?L, task_tail := t\<rparr>"
  have s': "phys s' = ?L" "task_tail s' = t" "task_head s' = (if ts = [] then t else task_head s)"
    "current_task s' = (if ts = [] then t else current_task s)" "kernel_heap s' = kernel_heap u"
    using mem by (auto simp: s'_def memory_only_def)
  have t1: "(t, 4096) \<in> kheap_live s1" by (simp add: live1)
  have sub: "(q, 4096) \<in> kheap_live s1" if "q \<in> set (ts @ [t])" for q
    using that assms(1) live1 by (auto simp: tasks_ok_def)
  have out: "?L x = phys u x" if "\<And>q. (q, 4096) \<in> kheap_live s1 \<Longrightarrow> \<not> in_region q 4096 x" for x
  proof (rule linked_out)
    show "\<not> in_region t 64 x" using that [OF t1] in_page by blast
    show "\<not> in_region (task_tail s) 64 x" if "task_tail s \<noteq> 0"
      using sub [of "task_tail s"] \<open>\<And>q. (q, 4096) \<in> kheap_live s1 \<Longrightarrow> \<not> in_region q 4096 x\<close> in_page assms(1) that
      by (auto simp: tasks_ok_def last_or_def split: if_splits)
  qed
  have "kernel_heap u = boot_heap" using kheap_inv_repr [OF m(1)] by simp
  moreover have "phys s' x = phys u x" if "in_table boot_heap x" for x
    using out kheap_live_not_in_table [OF inv1] that by (auto simp: s'(1))
  ultimately have "kheap_inv s'" "kchunks s' = kchunks u"
    using kheap_same_table [OF m(1), of s'] s'(5) by simp_all
  then have heap: "kheap_inv s'" "kheap_live s' = kheap_live u" "kheap_pages s' = kheap_pages u"
    by (simp_all add: kheap_live_def kheap_pages_def)
  have pages: "kheap_pages s' + 1027 = kheap_pages s" using m(2) pg heap(3) by simp
  have nt: "t \<notin> set ts" using assms(1) fresh by (auto simp: tasks_ok_def)
  have ok: "tasks_ok s' (ts @ [t])"
    using assms(1) heap(1,2) c(1) nt sub m(3) by (auto simp: tasks_ok_def s')
  have f: "load32 ?L (t + f) = v" if "(f, v) \<in> set (task_fields chunk process)" for f v by (rule c(3) [OF that])
  have pd: "load32 ?L t = chunk" using f [of 0 chunk] by (simp add: task_fields_def)
  have "\<forall>q \<in> set (chunk # dir # tabs). \<forall>x. in_region q 4096 x \<longrightarrow> ?L x = phys u x"
    using out m(7) apart_not_in2 by blast
  note stays = space_built_stays [OF built task_flags this]
  have space: "task_space ?L t = dir" "\<And>va. translate dir ?L va = Some va"
    using stays(1,2) pd by (simp_all add: task_space_def task_page_directory_def)
  have "(t, 4096) \<in> kheap_live s'" "\<forall>q \<in> set (chunk # dir # tabs). (q, 4096) \<in> kheap_live s'"
    using t1 heap(2) m(3) by auto
  moreover have "t \<notin> set (chunk # dir # tabs)" using m(7) [OF _ t1, of t] by (simp add: apart_def) blast
  ultimately have tlive: "task_live s' t"
    using heap(1) stays pd by (simp add: task_live_def space_live_def s'(1) task_page_directory_def)
  have new: "(q, l) \<notin> kheap_live s" if "q \<in> space_pages ?L chunk" for q l
  proof
    assume q: "(q, l) \<in> kheap_live s"
    then have l: "(q, l) \<in> kheap_live s1" using live1 by simp
    have "q \<in> set (chunk # dir # tabs)" using that stays(5) by simp
    from m(7) [OF this l] show False by (simp add: apart_def)
  qed
  show thesis
  proof (rule that [of t s'])
    show "(q, l) \<notin> kheap_live s" if "q \<in> space_pages (phys s') (task_page_directory (phys s') t)" for q l
      using new [of q l] that pd by (simp add: s'(1) task_page_directory_def)
    show "kheap_live s \<subseteq> kheap_live s'" using heap(2) m(3) live1 by auto
    show "phys s' x = phys s x" if x: "kheap_stable s x" "ts = [] \<or> \<not> in_region (last ts) 4096 x" for x
    proof -
      have "\<not> in_region t 4096 x" by (rule stable_not_new [OF inv1 t1 fresh _ x(1)]) (use live1 in auto)
      then show ?thesis using c(4) [OF x(1) _ x(2)] by (simp add: s'(1))
    qed
    show "(t, l) \<notin> kheap_live s" for l by (rule fresh)
    show "task_new process s = (t, s')" using run by (simp add: s'_def)
    show "load32 (phys s') (t + f) = v" if "(f, v) \<in> set (task_fields (task_page_directory (phys s') t) process)" for f v
      using f that pd by (simp add: s'(1) task_page_directory_def)
    show "\<exists>m h c. s' = s\<lparr>phys := m, task_tail := t, task_head := h, current_task := c\<rparr>"
    proof (intro exI)
      show "s' = s\<lparr>phys := phys s', task_tail := t, task_head := task_head s', current_task := current_task s'\<rparr>"
        using mem by (cases s) (auto simp: s'_def memory_only_def)
    qed
  qed (use nt ok pages c(2) s'(4) space tlive in \<open>simp_all add: s'(1)\<close>)
qed

section \<open>Taking a task out\<close>

text \<open>Taking a task out writes one word: the forward link of the task before it.\<close>

definition unlinked :: "ptr \<Rightarrow> ptr list \<Rightarrow> mem \<Rightarrow> mem" where
  "unlinked t xs m = (if xs = [] then m else store32 m (last xs + 56) (task_next m t))"

lemma unlinked_words:
  assumes "\<And>u. u \<in> set ts \<Longrightarrow> (xs = [] \<or> u \<noteq> last xs) \<Longrightarrow> apart (last xs) 4096 u 4096" and "u \<in> set ts"
  shows "xs = [] \<or> u \<noteq> last xs \<Longrightarrow> task_next (unlinked t xs m) u = task_next m u"
    and "task_prev (unlinked t xs m) u = task_prev m u"
    and "xs \<noteq> [] \<Longrightarrow> task_next (unlinked t xs m) (last xs) = task_next m t"
proof -
  have far: "apart (last xs + 56) 4 (u + f) 4" if "u \<noteq> last xs" "unat f + 4 \<le> 64" for f
    using page_fields_apart [OF assms(1) [OF assms(2)], of 56 f] that by simp
  have "apart (last xs + 56) 4 (last xs + 60) 4" by (rule offsets_apart) simp_all
  with far [of 60] show "task_prev (unlinked t xs m) u = task_prev m u"
    by (cases "u = last xs") (simp_all add: unlinked_def task_prev_def load32_store32_apart)
  show "xs = [] \<or> u \<noteq> last xs \<Longrightarrow> task_next (unlinked t xs m) u = task_next m u"
    using far [of 56] by (auto simp: unlinked_def task_next_def load32_store32_apart)
qed (simp add: unlinked_def task_next_def)

lemma task_list_remove_steps:
  assumes "(if task_prev (phys s) t \<noteq> 0
      then s\<lparr>phys := store32 (phys s) (task_prev (phys s) t + 56) (task_next (phys s) t)\<rparr> else s) = s\<lparr>phys := m'\<rparr>"
    and "task_next m' t = n" and "task_prev m' t = p" and "task_head s = t \<longleftrightarrow> A" and "task_tail s = t \<longleftrightarrow> B"
  shows "task_list_remove t s = s\<lparr>phys := m', task_head := if A then n else task_head s,
    task_tail := if B then p else task_tail s,
    current_task := if current_task s = t then if n = 0 then if A then n else task_head s else n else current_task s\<rparr>"
  unfolding task_list_remove_def assms(1)
  by (cases A; cases B; cases "current_task s = t")
    (simp_all add: Let_def task_get_next_def assms(2-5) eq_commute [of t])

lemma task_list_remove_eq:
  assumes "task_prev (phys s) t = last_or 0 xs" "task_head s = first_or t xs" "task_tail s = last_or t ys"
    and "0 \<notin> set xs" "0 \<notin> set ys" "t \<notin> set xs" "t \<notin> set ys"
    and "task_prev (unlinked t xs (phys s)) t = task_prev (phys s) t"
    and "task_next (unlinked t xs (phys s)) t = task_next (phys s) t"
    and "task_next (phys s) t = first_or 0 ys"
  shows "task_list_remove t s = s\<lparr>phys := unlinked t xs (phys s), task_head := first_or (first_or 0 ys) xs,
    task_tail := last_or 0 (xs @ ys), current_task := if current_task s = t then first_or 0 (ys @ xs) else current_task s\<rparr>"
proof -
  have prev: "last_or 0 xs \<noteq> 0 \<longleftrightarrow> xs \<noteq> []" using assms(4) by (simp add: last_or_def) (metis last_in_set)
  have nxt: "first_or 0 ys \<noteq> 0 \<longleftrightarrow> ys \<noteq> []" using assms(5) by (cases ys) auto
  have head: "t = first_or t xs \<longleftrightarrow> xs = []" using assms(6) by (cases xs) auto
  have tail: "t = last_or t ys \<longleftrightarrow> ys = []" using assms(7) last_in_set [of ys] by (auto simp: last_or_def)
  have m: "(if last_or 0 xs \<noteq> 0 then s\<lparr>phys := store32 (phys s) (last_or 0 xs + 56) (task_next (phys s) t)\<rparr> else s) =
      s\<lparr>phys := unlinked t xs (phys s)\<rparr>"
    using prev by (simp add: unlinked_def last_or_def)
  have "task_head s = t \<longleftrightarrow> xs = []" "task_tail s = t \<longleftrightarrow> ys = []" using head tail assms(2,3) by metis+
  note steps = task_list_remove_steps [OF m [folded assms(1)] _ _ this]
  show ?thesis
    using steps [of "first_or 0 ys" "last_or 0 xs"] assms(1,2,3,8-) nxt
    by (cases xs; cases ys) (simp_all add: last_or_def)
qed

section \<open>Properties\<close>

text \<open>C36. \<open>task_new\<close>, when 1027 pages are free, appends one task to the list: the list stays linked both
  ways, the first task becomes the current one and no later one does. The new task belongs to
  the process, starts at \<open>0x400000\<close> in user mode with its stack at \<open>0x3FF000\<close> and has an address
  space of its own that is the identity. No live block but the last task's has changed.\<close>

theorem task_new_appends:
  assumes "tasks_ok s ts" and "1027 \<le> kheap_pages s"
  shows "\<exists>t s'. task_new process s = (t, s') \<and> t \<notin> set ts \<and> tasks_ok s' (ts @ [t]) \<and> task_live s' t \<and>
    kheap_pages s' + 1027 = kheap_pages s \<and> current_task s' = (if ts = [] then t else current_task s) \<and>
    task_process (phys s') t = process \<and> load32 (phys s') (task_registers t + 28) = 0x400000 \<and>
    load32 (phys s') (task_registers t + 40) = 0x3FF000 \<and>
    load32 (phys s') (task_registers t + 32) = 0x1B \<and> load32 (phys s') (task_registers t + 44) = 0x23 \<and>
    (\<forall>va. translate (task_space (phys s') t) (phys s') va = Some va) \<and>
    (\<forall>q l x. (q, l) \<in> kheap_live s \<longrightarrow> (ts = [] \<or> q \<noteq> last ts) \<longrightarrow> in_region q l x \<longrightarrow> phys s' x = phys s x)"
proof -
  obtain t s' where r: "task_new process s = (t, s')" "t \<notin> set ts" "tasks_ok s' (ts @ [t])"
    "kheap_pages s' + 1027 = kheap_pages s" "current_task s' = (if ts = [] then t else current_task s)"
    and f: "\<And>f v. (f, v) \<in> set (task_fields (task_page_directory (phys s') t) process) \<Longrightarrow> load32 (phys s') (t + f) = v"
    and k: "\<And>va. translate (task_space (phys s') t) (phys s') va = Some va" "task_live s' t"
    "\<And>q l x. (q, l) \<in> kheap_live s \<Longrightarrow> (ts = [] \<or> q \<noteq> last ts) \<Longrightarrow> in_region q l x \<Longrightarrow> phys s' x = phys s x"
    by (rule new_task [OF assms, where process = process]) blast
  show ?thesis
    using r k f [of 52] f [of 32] f [of 44] f [of 36] f [of 48]
    by (intro exI [of _ t] exI [of _ s'])
       (simp add: task_process_def task_registers_def task_fields_def lameos_program_virtual_address_def
         lameos_program_virtual_stack_address_start_def user_code_segment_def user_data_segment_def add.assoc)
qed

text \<open>C37. \<open>task_list_remove\<close> of a task between \<open>xs\<close> and \<open>ys\<close> takes exactly it out of the forward list,
  keeps the tail right and, when the current task goes, makes the next one current, or the first of
  the list after the last. The backward link of the next task is not touched: it still leads to the
  task that was taken out.\<close>

theorem task_list_remove_correct:
  assumes "tasks_ok s (xs @ t # ys)"
  defines "s' \<equiv> task_list_remove t s"
  shows "next_chain (phys s') (task_head s') (xs @ ys) \<and> task_tail s' = last_or 0 (xs @ ys) \<and>
    current_task s' = (if current_task s = t then first_or 0 (ys @ xs) else current_task s) \<and>
    kheap_inv s' \<and> kheap_live s' = kheap_live s \<and>
    (ys \<noteq> [] \<longrightarrow> task_prev (phys s') (first_or 0 ys) = t)"
proof -
  let ?m = "unlinked t xs (phys s)"
  have ok: "kheap_inv s" "distinct (xs @ t # ys)" "task_chain (phys s) (task_head s) 0 (xs @ t # ys)"
    "task_tail s = last_or 0 (xs @ t # ys)" and live: "\<And>u. u \<in> set (xs @ t # ys) \<Longrightarrow> (u, 4096) \<in> kheap_live s"
    using assms(1) by (auto simp: tasks_ok_def)
  have nonzero: "0 \<notin> set xs" "0 \<notin> set ys" using live kmalloc_heap.live_nonnull [OF ok(1), of 0 4096] by auto
  have apart: "apart (last xs) 4096 u 4096" if "u \<in> set (xs @ t # ys)" "xs = [] \<or> u \<noteq> last xs" "xs \<noteq> []" for u
    using that live kmalloc_heap.live_apart [OF ok(1) live [of "last xs"] live [OF that(1)]] by auto
  have w: "task_next ?m u = task_next (phys s) u" if "u \<in> set (xs @ t # ys)" "xs = [] \<or> u \<noteq> last xs" for u
    using unlinked_words(1) [of "[u]" xs u] that apart by (cases "xs = []") (auto simp: unlinked_def)
  have p: "task_prev ?m u = task_prev (phys s) u" if "u \<in> set (xs @ t # ys)" for u
    using unlinked_words(2) [of "[u]" xs u] that apart by (cases "xs = []") (auto simp: unlinked_def)
  note mid = task_chain_middle [OF ok(3)]
  have nt: "xs = [] \<or> t \<noteq> last xs" using ok(2) by auto
  have nexts: "task_next (phys s) t = first_or 0 ys" using mid task_chain_next next_chain_head by blast
  have eq: "s' = s\<lparr>phys := ?m, task_head := first_or (first_or 0 ys) xs, task_tail := last_or 0 (xs @ ys),
      current_task := if current_task s = t then first_or 0 (ys @ xs) else current_task s\<rparr>"
    unfolding s'_def
    by (rule task_list_remove_eq) (use mid ok(2,4) nonzero w [OF _ nt] p [of t] nexts in \<open>auto simp: last_or_def\<close>)
  have "next_chain ?m (if xs = [] then task_next (phys s) t else task_head s) (xs @ ys)"
    by (rule next_chain_skip [OF task_chain_next [OF ok(3)]])
      (use ok(2) w unlinked_words(3) [of "[]"] in \<open>auto simp: unlinked_def task_next_def\<close>)
  moreover have "(if xs = [] then task_next (phys s) t else task_head s) = first_or (first_or 0 ys) xs"
    using mid nexts by (cases xs) auto
  moreover have "task_prev ?m (first_or 0 ys) = t" if "ys \<noteq> []" using that p mid nexts by (cases ys) auto
  moreover have "kheap_inv (s\<lparr>phys := ?m\<rparr>)" "kchunks (s\<lparr>phys := ?m\<rparr>) = kchunks s"
  proof -
    have out: "?m x = phys s x" if "\<not> in_region (last xs) 4096 x" "xs \<noteq> []" for x
      using that field_in_struct [of 56 4096 "last xs" x] by (auto simp: unlinked_def intro!: store32_other)
    show "kheap_inv (s\<lparr>phys := ?m\<rparr>)" "kchunks (s\<lparr>phys := ?m\<rparr>) = kchunks s"
      using kheap_write_live [OF ok(1) live [of "last xs"], of ?m] out ok(1)
      by (cases "xs = []"; auto simp: unlinked_def)+
  qed
  ultimately show ?thesis by (simp add: eq kheap_inv_def kheap_live_def kchunks_def)
qed

text \<open>The kernel with its heap set up and no task yet.\<close>

definition idle_kernel :: "unit tasks" where
  "idle_kernel = kheap.extend (kheap_init cold_kernel)
     \<lparr>current_directory = 0, cr0 = 0x11, cr3 = 0, device = (),
      the_disk = \<lparr>disk_type = 0, sector_size = 512, disk_id = 0, disk_filesystem = 0, fs_private = 0\<rparr>,
      filesystems = replicate 12 0, file_descriptors = replicate 512 0, data_segments = 0x10,
      kernel_chunk = 0, current_task = 0, task_tail = 0, task_head = 0\<rparr>"

lemma idle_kernel_ok: "tasks_ok idle_kernel []" "kheap_pages idle_kernel = 25600"
  using kheap_init_state [of cold_kernel] by (simp_all add: tasks_ok_def idle_kernel_def kheap_extend) (simp_all add: kheap.extend_def)

theorem task_new_appends_witness:
  "current_task (snd (task_new 0x500 idle_kernel)) = fst (task_new 0x500 idle_kernel)"
proof -
  have "1027 \<le> kheap_pages idle_kernel" by (simp add: idle_kernel_ok(2))
  from task_new_appends [OF idle_kernel_ok(1) this, where process = "0x500"] show ?thesis by auto
qed

text \<open>Two tasks are made and the first, which is the current one, is taken out again.\<close>

theorem task_list_remove_correct_witness:
  "\<exists>t u (s :: unit tasks). task_prev (phys s) u = t \<and> current_task s = t \<and> t \<noteq> u \<and> task_head (task_list_remove t s) = u \<and>
     current_task (task_list_remove t s) = u \<and> task_prev (phys (task_list_remove t s)) u = t"
proof -
  have "1027 \<le> kheap_pages idle_kernel" by (simp add: idle_kernel_ok(2))
  then obtain t and s :: "unit tasks" where "tasks_ok s ([] @ [t])" "kheap_pages s + 1027 = kheap_pages idle_kernel"
    "current_task s = (if ([] :: ptr list) = [] then t else current_task idle_kernel)"
    by (rule new_task [OF idle_kernel_ok(1), of 0]) blast
  then have t: "tasks_ok s [t]" "kheap_pages s + 1027 = 25600" "current_task s = t"
    by (simp_all add: idle_kernel_ok(2))
  then have "1027 \<le> kheap_pages s" by simp
  then obtain u and s' :: "unit tasks" where "tasks_ok s' ([t] @ [u])" "current_task s' = (if [t] = [] then u else current_task s)"
    by (rule new_task [OF t(1), of 0]) blast
  then have u: "tasks_ok s' ([] @ t # [u])" "current_task s' = t" using t(3) by simp_all
  then show ?thesis
    using task_list_remove_correct [OF u(1)]
    by (intro exI [of _ t] exI [of _ u] exI [of _ s']) (auto simp: tasks_ok_def)
qed

end
