(* ===== verification/PrintCall.thy ===== *)
theory PrintCall
  imports Interrupt TaskList
begin

text \<open>
  The system call \<open>print\<close> of \<open>src/isr80h/io.c\<close> from user code to user code: the interrupt, the saved
  registers, the pointer on the task's stack, the copy of the string through the task's page
  tables, the screen, and the return to the task.
\<close>

section \<open>The kernel's own memory\<close>

text \<open>Bytes outside the heap, its table and the screen.\<close>

definition kernel_byte :: "('d, 'a) interrupts_scheme \<Rightarrow> ptr \<Rightarrow> bool" where
  "kernel_byte s x \<longleftrightarrow> \<not> in_heap x \<and> \<not> in_table boot_heap x \<and> \<not> in_framebuffer s x"

lemma screen_byte:
  assumes "video_mem s = 0xB8000" and "in_framebuffer s x"
  shows "\<not> in_heap x" and "\<not> in_table boot_heap x"
proof -
  have fb: "in_region 0xB8000 4000 x" using assms by (simp add: in_framebuffer_def)
  have "apart 0x1000000 104857600 0xB8000 4000" "apart 0x7E00 25600 0xB8000 4000" by (simp_all add: apart_def)
  then show "\<not> in_heap x" "\<not> in_table boot_heap x"
    using fb apart_not_in by (auto simp: in_heap_def in_table_def)
qed

lemma write_bytes_frame: "\<exists>m row col. write_bytes t s = s\<lparr>phys := m, term_row := row, term_col := col\<rparr>"
proof (induction t arbitrary: s)
  case Nil
  have "write_bytes [] s = s\<lparr>phys := phys s, term_row := term_row s, term_col := term_col s\<rparr>" by simp
  then show ?case by blast
next
  case (Cons c t)
  define u where "u = term_writechar c 15 s"
  have "u = s\<lparr>phys := phys u, term_row := term_row u, term_col := term_col u\<rparr>"
    unfolding u_def by (cases s) (simp add: term_writechar_def term_putchar_def Let_def)
  then obtain m row col where "term_writechar c 15 s = s\<lparr>phys := m, term_row := row, term_col := col\<rparr>"
    unfolding u_def by blast
  then show ?case using Cons.IH [of "term_writechar c 15 s"] by auto
qed

section \<open>A word on the task's stack\<close>

definition user_word :: "('d, 'a) tasks_scheme \<Rightarrow> ptr \<Rightarrow> ptr \<Rightarrow> u32 \<Rightarrow> bool" where
  "user_word s t va v \<longleftrightarrow> user_byte s t va (ucast v) \<and> user_byte s t (va + 1) (ucast (drop_bit 8 v)) \<and>
     user_byte s t (va + 2) (ucast (drop_bit 16 v)) \<and> user_byte s t (va + 3) (ucast (drop_bit 24 v))"

lemma user_word_load:
  "user_word s t va v \<Longrightarrow> virt_load32 (task_space (phys s) t) (phys s) va = Some v"
  using bytes_join32 [of v] by (auto simp: user_word_def user_byte_def virt_load32_def virt_load_def)

section \<open>The state after the registers are saved\<close>

text \<open>The frame lies on the kernel's stack.\<close>

definition saved_state :: "ptr \<Rightarrow> registers \<Rightarrow> ('d, 'a) interrupts_scheme \<Rightarrow> ('d, 'a) interrupts_scheme" where
  "saved_state frame r s = (in_kernel (s\<lparr>phys := push_frame frame r (phys s)\<rparr>))\<lparr>phys := call_memory (current_task s) frame r (phys s)\<rparr>"

lemma saved_task:
  fixes r :: registers
  assumes live: "task_live s t" and t: "t = current_task s" and frame: "\<forall>x. in_region frame 52 x \<longrightarrow> kernel_byte s x"
  defines "u \<equiv> saved_state frame r s"
  shows "apart frame 52 t 64" and "task_live u t" and "task_space (phys u) t = task_space (phys s) t"
    and "kheap_live u = kheap_live s" and "kheap_pages u = kheap_pages s"
    and "user_byte s t va b \<Longrightarrow> user_byte u t va b"
    and "translate (task_space (phys s) t) (phys u) va' = translate (task_space (phys s) t) (phys s) va'"
    and "\<And>q l x. (q, l) \<in> kheap_live s \<Longrightarrow> q \<noteq> t \<Longrightarrow> in_region q l x \<Longrightarrow> phys u x = phys s x"
proof -
  have inv: "kheap_inv s" and tl: "(t, 4096) \<in> kheap_live s" and sl: "space_live s (task_page_directory (phys s) t)"
    and tc: "t \<notin> space_pages (phys s) (task_page_directory (phys s) t)"
    using live by (simp_all add: task_live_def)
  have heap: "\<not> in_region frame 52 x" if "(q, l) \<in> kheap_live s" "in_region q l x" for q l x
    using frame live_in_heap [OF inv that] by (auto simp: kernel_byte_def)
  show ap: "apart frame 52 t 64"
  proof -
    have "\<not> in_region frame 52 t" using heap [OF tl, of t] by simp
    moreover have "\<not> in_region t 64 frame"
      using heap [OF tl in_page, of frame] by auto
    ultimately show ?thesis by (simp add: apart_iff)
  qed
  note fa = frame_apart_task [OF ap]
  have out: "phys u x = phys s x" if "\<not> call_writes t frame x" for x
    using call_memory_out [OF fa that] by (simp add: u_def saved_state_def t)
  have keep: "\<not> call_writes t frame x" if "(q, l) \<in> kheap_live s" "q \<noteq> t" "in_region q l x" for q l x
  proof -
    have "apart t 4096 q l" using kmalloc_heap.live_apart [OF inv tl that(1)] that(2) by auto
    then have "\<not> in_region t 4096 x" using apart_not_in that(3) by blast
    then show ?thesis using heap [OF that(1,3)] registers_in_task in_page by (auto simp: call_writes_def)
  qed
  then show same: "\<And>q l x. (q, l) \<in> kheap_live s \<Longrightarrow> q \<noteq> t \<Longrightarrow> in_region q l x \<Longrightarrow> phys u x = phys s x"
    using out by blast
  have "phys u x = phys s x" if "in_table boot_heap x" for x
    using that frame live_not_in_table registers_in_task in_page kheap_live_not_in_table [OF inv tl]
    by (intro out) (auto simp: call_writes_def kernel_byte_def)
  moreover have "kernel_heap u = boot_heap" using kheap_inv_repr [OF inv] by (simp add: u_def saved_state_def in_kernel_def)
  ultimately have "kheap_inv u" and "kchunks u = kchunks s" using kheap_same_table [OF inv] by blast+
  then show h: "kheap_live u = kheap_live s" "kheap_pages u = kheap_pages s"
    by (simp_all add: kheap_live_def kheap_pages_def)
  have pages: "\<forall>p \<in> space_pages (phys s) (task_page_directory (phys s) t). \<forall>x. in_region p 4096 x \<longrightarrow> phys u x = phys s x"
    using same sl tc by (auto simp: space_live_def)
  note c = space_pages_cong [OF pages]
  have dir: "task_page_directory (phys u) t = task_page_directory (phys s) t"
  proof -
    have "\<not> call_writes t frame x" if x: "in_region t 4 x" for x
    proof -
      have "in_region t 4096 x" using field_in_struct [of 0 4096 t x] x by simp
      moreover have "\<not> in_region (task_registers t) 48 x"
        using x apart_not_in [OF apart_offsets [of 4 48 0 4 t]] by (simp add: task_registers_def)
      ultimately show ?thesis using heap [OF tl] by (simp add: call_writes_def)
    qed
    then show ?thesis unfolding task_page_directory_def by (intro load32_cong out)
  qed
  show space: "task_space (phys u) t = task_space (phys s) t" by (simp add: task_space_def dir c(1))
  show "task_live u t"
    using \<open>kheap_inv u\<close> tl sl tc c by (simp add: task_live_def space_live_def dir h(1))
  have walk: "translate (task_space (phys s) t) (phys u) va = translate (task_space (phys s) t) (phys s) va" for va
    using space_walk_cong [OF pages] sl by (simp add: task_space_def space_live_def)
  then show "translate (task_space (phys s) t) (phys u) va' = translate (task_space (phys s) t) (phys s) va'" by blast
  from walk show "user_byte s t va b \<Longrightarrow> user_byte u t va b"
    using same by (auto simp: user_byte_def space dir c(2) h(1)) blast
qed

lemma in_kernel_task [simp]:
  "kheap_inv (in_kernel s) \<longleftrightarrow> kheap_inv s" "kheap_live (in_kernel s) = kheap_live s"
  "kheap_pages (in_kernel s) = kheap_pages s" "kheap_stable (in_kernel s) = kheap_stable s"
  "task_live (in_kernel s) t \<longleftrightarrow> task_live s t" "user_byte (in_kernel s) t va b \<longleftrightarrow> user_byte s t va b"
  by (simp_all add: in_kernel_def kheap_inv_def kheap_live_def kheap_pages_def kchunks_def kheap_stable_def
      task_live_def space_live_def user_byte_def fun_eq_iff)

section \<open>The command\<close>

text \<open>What the command leaves: the string on the screen of \<open>u\<close>.\<close>

definition shown :: "ptr \<Rightarrow> u8 list \<Rightarrow> ('d, 'a) interrupts_scheme \<Rightarrow> ('d, 'a) interrupts_scheme \<Rightarrow> bool" where
  "shown buf str u s \<longleftrightarrow> cursor s = cursor u + length str \<and>
     (\<forall>k < fb_cells. cell s k = (if cursor u \<le> k \<and> k < cursor u + length str
       then term_make_char (str ! (k - cursor u)) 15 else cell u k)) \<and>
     current_task s = current_task u \<and> kheap_inv s \<and> kheap_live s = kheap_live u \<and> kheap_pages s = kheap_pages u \<and>
     (\<forall>x. kheap_stable u x \<longrightarrow> \<not> in_region buf 1024 x \<longrightarrow> \<not> in_framebuffer u x \<longrightarrow> phys s x = phys u x)"

text \<open>From the copied string to the screen.\<close>

lemma print_copied:
  assumes inv: "kheap_inv v" and video: "video_mem u = 0xB8000"
    and v: "v = u\<lparr>cr3 := k, current_directory := k, data_segments := 0x10, phys := phys v\<rparr>"
    and heap: "kheap_live v = kheap_live u" "kheap_pages v = kheap_pages u"
    and buf: "\<forall>x. in_region buf 1024 x \<longrightarrow> kernel_byte u x" and len: "length str < 1024"
    and copied: "cstr_at (phys v) buf str" and nl: "10 \<notin> set str" and fits: "fits u (length str)"
    and same: "\<forall>x. kheap_stable u x \<longrightarrow> \<not> in_region buf 1024 x \<longrightarrow> phys v x = phys u x"
  obtains s where "print buf v = Some s" "shown buf str u s"
proof -
  have tm: "video_mem v = video_mem u" "term_row v = term_row u" "term_col v = term_col u" "current_task v = current_task u"
    by (subst v, simp)+
  then have fb: "in_framebuffer v = in_framebuffer u" "cursor v = cursor u" "fits v n = fits u n" for n
    by (simp_all add: tm fun_eq_iff in_framebuffer_def cursor_def fits_def)
  have "\<not> in_framebuffer v (buf + of_nat i)" if "i < length str" for i
    using buf in_region_of_nat [of i buf 1024] that len by (auto simp: fb kernel_byte_def)
  then have run: "print buf v = Some (write_bytes str v)"
    by (intro print_write) (simp_all add: copied nl fits fb)
  have pr: "printed str v (write_bytes str v)" by (rule write_bytes_printed) (simp_all add: nl fits fb)
  obtain m row col where w: "write_bytes str v = v\<lparr>phys := m, term_row := row, term_col := col\<rparr>"
    using write_bytes_frame by blast
  have screen: "phys v x = phys u x" if "in_framebuffer u x" for x
    using same screen_byte [OF video that] that buf by (auto simp: kheap_stable_def kernel_byte_def)
  have cells: "cell v i = cell u i" if "i < fb_cells" for i
  proof -
    have "cell_addr v i = cell_addr u i" by (simp add: cell_addr_def tm)
    then show ?thesis unfolding cell_def using screen cell_in_framebuffer [OF that] by (metis load16_cong)
  qed
  have "phys (write_bytes str v) x = phys v x" if "in_table boot_heap x" for x
    using pr screen_byte [OF video, of x] that by (auto simp: printed_def fb)
  moreover have "kernel_heap (write_bytes str v) = boot_heap" using kheap_inv_repr [OF inv] by (simp add: w)
  ultimately have h: "kheap_inv (write_bytes str v)" "kchunks (write_bytes str v) = kchunks v"
    using kheap_same_table [OF inv] by blast+
  have "shown buf str u (write_bytes str v)"
    unfolding shown_def
  proof (intro conjI)
    show "\<forall>i < fb_cells. cell (write_bytes str v) i = (if cursor u \<le> i \<and> i < cursor u + length str
       then term_make_char (str ! (i - cursor u)) 15 else cell u i)"
      using pr cells by (simp add: printed_def fb del: fb_cells)
    show "\<forall>x. kheap_stable u x \<longrightarrow> \<not> in_region buf 1024 x \<longrightarrow> \<not> in_framebuffer u x \<longrightarrow>
        phys (write_bytes str v) x = phys u x"
      using pr same by (simp add: printed_def fb)
    show "cursor (write_bytes str v) = cursor u + length str" using pr by (simp add: printed_def fb)
    show "current_task (write_bytes str v) = current_task u" by (simp add: w tm)
    show "kheap_inv (write_bytes str v)" "kheap_live (write_bytes str v) = kheap_live u"
      "kheap_pages (write_bytes str v) = kheap_pages u"
      using h heap by (simp_all add: kheap_live_def kheap_pages_def)
  qed
  with run show thesis by (rule that)
qed

lemma print_command:
  assumes live: "task_live u (current_task u)" and pages: "0 < kheap_pages u" and video: "video_mem u = 0xB8000"
    and buf: "\<forall>x. in_region (print_buffer il) 1024 x \<longrightarrow> kernel_byte u x"
    and word: "user_word u (current_task u) (load32 (phys u) (task_registers (current_task u) + 40)) va"
    and str: "user_string u (current_task u) va str 1023" and nl: "10 \<notin> set str" and fits: "fits u (length str)"
  obtains s where "command1_print il u = Inr (0, s)" "shown (print_buffer il) str u s"
proof -
  let ?t = "current_task u" and ?buf = "print_buffer il" and ?v = "in_kernel u"
  have item: "task_get_stack_item ?t 0 u = Inr (va, ?v)"
    using task_get_stack_item_eq [of u ?t 0 va] user_word_load [OF word] by simp
  have "user_string ?v ?t va str (nat (sint (1024 :: i32)) - 1)" using str by (simp add: user_string_def)
  moreover have "\<forall>x. in_region ?buf 1024 x \<longrightarrow> \<not> in_heap x \<and> \<not> in_table boot_heap x" using buf by (simp add: kernel_byte_def)
  ultimately obtain s3 k where copy: "copy_string_from_task ?t va ?buf 1024 ?v = Inr (0, s3)"
    "s3 = ?v\<lparr>cr3 := k, current_directory := k, data_segments := 0x10, phys := phys s3\<rparr>"
    "kheap_inv s3" "kheap_live s3 = kheap_live ?v" "kheap_pages s3 = kheap_pages ?v" "cstr_at (phys s3) ?buf str"
    "\<forall>x. kheap_stable ?v x \<longrightarrow> \<not> in_region ?buf 1024 x \<longrightarrow> phys s3 x = phys ?v x"
    using copy_string_run [of ?v ?t 1024 va str ?buf] live pages by auto
  have s3: "s3 = u\<lparr>cr3 := k, current_directory := k, data_segments := 0x10, phys := phys s3\<rparr>"
    by (subst copy(2)) (cases u, simp add: in_kernel_def)
  have len: "length str < 1024" using str by (simp add: user_string_def)
  obtain s where s: "print ?buf s3 = Some s" "shown ?buf str u s"
    by (rule print_copied [OF copy(3) video s3 _ _ buf len copy(6) nl fits]) (use copy(4,5,7) in simp_all)
  have "command1_print il u = Inr (0, s)"
    using item copy(1) s(1) by (simp add: command1_print_def)
  with s(2) show thesis by (rule that [rotated])
qed

text \<open>The screen is the same before and after the registers are saved.\<close>

lemma saved_screen:
  assumes "task_live s (current_task s)" and "video_mem s = 0xB8000" and "\<forall>x. in_region frame 52 x \<longrightarrow> kernel_byte s x"
  shows "cursor (saved_state frame r s) = cursor s" and "in_framebuffer (saved_state frame r s) = in_framebuffer s"
    and "fits (saved_state frame r s) n = fits s n" and "kernel_byte (saved_state frame r s) = kernel_byte s"
    and "i < fb_cells \<Longrightarrow> cell (saved_state frame r s) i = cell s i"
proof -
  show fb: "in_framebuffer (saved_state frame r s) = in_framebuffer s"
    by (simp add: fun_eq_iff in_framebuffer_def saved_state_def in_kernel_def)
  then show "kernel_byte (saved_state frame r s) = kernel_byte s" by (simp add: kernel_byte_def fun_eq_iff)
  show "cursor (saved_state frame r s) = cursor s" "fits (saved_state frame r s) n = fits s n"
    by (simp_all add: cursor_def fits_def saved_state_def in_kernel_def)
  note fa = frame_apart_task [OF saved_task(1) [OF assms(1) refl assms(3)]]
  have tl: "kheap_inv s" "(current_task s, 4096) \<in> kheap_live s" using assms(1) by (simp_all add: task_live_def)
  have "phys (saved_state frame r s) x = phys s x" if "in_framebuffer s x" for x
  proof -
    have "\<not> in_region (task_registers (current_task s)) 48 x"
      using live_in_heap [OF tl] in_page registers_in_task screen_byte(1) [OF assms(2) that] by blast
    then show ?thesis
      using that assms(3) call_memory_out [OF fa] by (auto simp: saved_state_def call_writes_def kernel_byte_def)
  qed
  moreover have "cell_addr (saved_state frame r s) i = cell_addr s i"
    by (simp add: cell_addr_def saved_state_def in_kernel_def)
  ultimately show "cell (saved_state frame r s) i = cell s i" if "i < fb_cells"
    using cell_in_framebuffer [OF that] unfolding cell_def by (metis load16_cong)
qed

text \<open>The way into the handler and the way out of it.\<close>

lemma wrapper_saved:
  assumes "current_task s \<noteq> 0" and "frame_apart (esp0 - 52) (current_task s)"
    and "isr80h_handle_command il (r_eax r) (saved_state (esp0 - 52) r s) = Inr (res, u)"
    and "kernel_frame (esp0 - 52) 52 s = Some (esp0 - 52)"
    and "kernel_frame (esp0 - 52) 52 (u\<lparr>cr3 := task_space (phys u) (current_task u), current_directory := task_space (phys u) (current_task u),
      data_segments := 0x23\<rparr>) = Some (esp0 - 52)"
  shows "isr80h_wrapper il esp0 r s = Inr (pop_frame (esp0 - 52) res (phys u),
    u\<lparr>cr3 := task_space (phys u) (current_task u), current_directory := task_space (phys u) (current_task u),
      data_segments := 0x23\<rparr>)"
proof -
  have "task_current_save_state (esp0 - 52) (in_kernel (s\<lparr>phys := push_frame (esp0 - 52) r (phys s)\<rparr>)) =
      Inr (saved_state (esp0 - 52) r s)"
    using assms(1) by (simp add: task_current_save_state_def saved_state_def call_memory_def)
  then show ?thesis
    using assms(3-5) by (simp add: isr80h_wrapper_def isr80h_handler_def sizeof_interrupt_frame_def Let_def
        kernel_page_eq task_page_eq)
qed

text \<open>The screen and the buffer lie outside the heap: the task's address space is as it was.\<close>

lemma shown_space:
  assumes live: "task_live u t" and shown: "shown buf str u s" and video: "video_mem u = 0xB8000"
    and buf: "\<forall>x. in_region buf 1024 x \<longrightarrow> kernel_byte u x"
  shows "task_space (phys s) t = task_space (phys u) t"
    and "translate (task_space (phys u) t) (phys s) va = translate (task_space (phys u) t) (phys u) va"
proof -
  have inv: "kheap_inv u" using live by (simp add: task_live_def)
  have same: "phys s x = phys u x" if "(q, l) \<in> kheap_live u" "in_region q l x" for q l x
    using shown stable_live [OF inv that] live_in_heap [OF inv that] buf screen_byte(1) [OF video, of x]
    by (auto simp: shown_def kernel_byte_def)
  have "load32 (phys s) p = load32 (phys u) p" if "(p, 4096) \<in> kheap_live u" for p
    using load32_struct [of 0 4096 p "phys s" "phys u"] same [OF that] by simp
  then show "task_space (phys s) t = task_space (phys u) t"
    using live by (simp add: task_space_def task_page_directory_def task_live_def space_live_def space_pages_def)
  have "\<forall>p \<in> space_pages (phys u) (task_page_directory (phys u) t). \<forall>x. in_region p 4096 x \<longrightarrow> phys s x = phys u x"
    using same live by (auto simp: task_live_def space_live_def)
  from space_walk_cong [OF this] show "translate (task_space (phys u) t) (phys s) va = translate (task_space (phys u) t) (phys u) va"
    using live by (simp add: task_space_def task_live_def space_live_def)
qed

section \<open>A task with a page of its own\<close>

text \<open>A task stays live when the live blocks keep their bytes.\<close>

lemma task_live_kept:
  assumes live: "task_live s t" and inv: "kheap_inv s'" and sub: "kheap_live s \<subseteq> kheap_live s'"
    and same: "\<forall>q l x. (q, l) \<in> kheap_live s \<longrightarrow> in_region q l x \<longrightarrow> phys s' x = phys s x"
  shows "task_live s' t" and "task_page_directory (phys s') t = task_page_directory (phys s) t"
    and "space_pages (phys s') (task_page_directory (phys s) t) = space_pages (phys s) (task_page_directory (phys s) t)"
proof -
  have tl: "(t, 4096) \<in> kheap_live s" and sl: "space_live s (task_page_directory (phys s) t)"
    using live by (simp_all add: task_live_def)
  show dir: "task_page_directory (phys s') t = task_page_directory (phys s) t"
    using load32_struct [of 0 4096 t "phys s'" "phys s"] same tl by (auto simp: task_page_directory_def)
  have "\<forall>p \<in> space_pages (phys s) (task_page_directory (phys s) t). \<forall>x. in_region p 4096 x \<longrightarrow> phys s' x = phys s x"
    using same sl by (auto simp: space_live_def)
  note c = space_pages_cong [OF this]
  show "space_pages (phys s') (task_page_directory (phys s) t) = space_pages (phys s) (task_page_directory (phys s) t)"
    by (rule c(2))
  show "task_live s' t" using live inv sub c by (auto simp: task_live_def space_live_def dir)
qed

definition give_page :: "ptr \<Rightarrow> nat \<Rightarrow> u8 list \<Rightarrow> ('d, 'a) tasks_scheme \<Rightarrow> ('d, 'a) tasks_scheme" where
  "give_page t n bs s =
     (let (b, s1) = kzalloc 4096 s;
          (_, m) = paging_map (task_page_directory (phys s1) t) (page_addr n) b copy_flags (phys s1)
      in s1\<lparr>phys := put_bytes b bs m\<rparr>)"

lemma give_page_task:
  assumes live: "task_live s t" and pages: "0 < kheap_pages s" and n: "n < 2 ^ 20" and len: "length bs \<le> 4096"
  defines "u \<equiv> give_page t n bs s"
  shows "u = s\<lparr>phys := phys u\<rparr>" and "task_live u t" and "Suc (kheap_pages u) = kheap_pages s"
    and "\<forall>i < length bs. user_byte u t (page_addr n + of_nat i) (bs ! i)"
    and "unat va div 4096 \<noteq> n \<Longrightarrow> translate (task_space (phys u) t) (phys u) va = translate (task_space (phys s) t) (phys s) va"
proof -
  obtain b s1 where al: "kzalloc 4096 s = (b, s1)" by (cases "kzalloc 4096 s")
  have inv: "kheap_inv s" using live by (simp add: task_live_def)
  note f = kzalloc_page_facts [OF inv pages _ _ al, simplified]
  have same: "\<forall>q l x. (q, l) \<in> kheap_live s \<longrightarrow> in_region q l x \<longrightarrow> phys s1 x = phys s x"
    using f(6) stable_live [OF inv] by blast
  have sub: "kheap_live s \<subseteq> kheap_live s1" by (auto simp: f(2))
  note k = task_live_kept [OF live f(1) sub same]
  let ?c = "task_page_directory (phys s) t"
  have c1: "chunk_ok ?c (phys s1)" "tables_present (load32 (phys s1) ?c) (phys s1)"
    "\<forall>p \<in> space_pages (phys s1) ?c. (p, 4096) \<in> kheap_live s" and tl: "(t, 4096) \<in> kheap_live s"
    "t \<notin> space_pages (phys s1) ?c"
    using k live by (auto simp: task_live_def space_live_def)
  obtain q where q: "b = page_addr q" "q < 2 ^ 20" by (rule heap_page [OF f(1), of b 4096]) (simp_all add: f(2))
  define e where "e = entry_addr (phys s1) (load32 (phys s1) ?c) n"
  define m where "m = store32 (phys s1) e (b OR copy_flags)"
  have u: "u = s1\<lparr>phys := put_bytes b bs m\<rparr>"
    unfolding u_def give_page_def al by (simp add: k(2) q paging_map_page [OF n q(2)] m_def e_def)
  show "u = s\<lparr>phys := phys u\<rparr>" unfolding u using memory_only_kzalloc [OF al] by (auto simp: memory_only_def)
  note set = entry_set [where v = "b OR copy_flags", OF c1(1) n c1(2), folded e_def, folded m_def]
  have le: "(of_nat (length bs) :: u32) \<le> 4096" using len by (simp add: word_le_nat_alt)
  have out: "phys u x = m x" if "\<not> in_region b 4096 x" for x
    unfolding u using that in_region_mono [OF _ le] len by (auto intro: put_bytes_out)
  have e_out: "\<not> in_region e 4 x" if "(p, l) \<in> kheap_live s1" "p \<notin> space_pages (phys s1) ?c" "in_region p l x" for p l x
  proof
    assume "in_region e 4 x"
    then obtain p' where p': "p' \<in> space_pages (phys s1) ?c" "in_region p' 4096 x"
      using entry_in_space [OF n] unfolding e_def by blast
    then have "apart p' 4096 p l" using kmalloc_heap.live_apart [OF f(1) _ that(1)] c1(3) sub that(2) by auto
    with p'(2) that(3) show False using apart_not_in by blast
  qed
  have b_out: "\<not> in_region b 4096 x" if "(p, l) \<in> kheap_live s" "in_region p l x" for p l x
    using f(8) stable_live [OF inv that] by blast
  have "phys u x = phys s1 x" if "in_table boot_heap x" for x
  proof -
    have "\<not> in_region b 4096 x" using kheap_live_not_in_table [OF f(1), of b 4096 x] f(2) that by auto
    moreover have "\<not> in_region e 4 x"
      using entry_in_space [OF n, of "phys s1" ?c] c1(3) kheap_live_not_in_table [OF inv] that unfolding e_def by blast
    ultimately show ?thesis by (simp add: out m_def store32_other)
  qed
  moreover have "kernel_heap u = boot_heap" using kheap_inv_repr [OF f(1)] by (simp add: u)
  ultimately have uinv: "kheap_inv u" and "kchunks u = kchunks s1" using kheap_same_table [OF f(1)] by blast+
  then have ulive: "kheap_live u = insert (b, 4096) (kheap_live s)" and up: "kheap_pages u = kheap_pages s1"
    by (simp_all add: kheap_live_def kheap_pages_def f(2) [unfolded kheap_live_def])
  show "Suc (kheap_pages u) = kheap_pages s" using up f(3) by simp
  have "\<forall>p \<in> space_pages m ?c. \<forall>x. in_region p 4096 x \<longrightarrow> phys u x = m x"
    using out b_out c1(3) unfolding set(4) by blast
  note c = space_pages_cong [OF this] and w = space_walk_cong [OF this]
  have dir: "task_page_directory (phys u) t = ?c"
  proof -
    have "phys u x = phys s1 x" if "in_region t 4096 x" for x
      using out b_out [OF tl(1) that] e_out [OF _ tl(2) that] sub tl(1) by (auto simp: m_def store32_other)
    then show ?thesis
      using load32_struct [of 0 4096 t "phys u" "phys s1"] k(2) by (simp add: task_page_directory_def)
  qed
  have sp: "space_pages (phys u) ?c = space_pages (phys s1) ?c" using c(2) set(4) by simp
  show "task_live u t"
    using uinv ulive tl c1(3) c(1,3,4) set(1-4) sp by (simp add: task_live_def space_live_def dir)
  show "translate (task_space (phys u) t) (phys u) va = translate (task_space (phys s) t) (phys s) va" if va: "unat va div 4096 \<noteq> n"
  proof -
    have sl: "tables_present (load32 (phys s) ?c) (phys s)" "\<forall>p \<in> space_pages (phys s) ?c. (p, 4096) \<in> kheap_live s"
      using live by (simp_all add: task_live_def space_live_def)
    have pages: "\<forall>p \<in> space_pages (phys s) ?c. \<forall>x. in_region p 4096 x \<longrightarrow> phys s1 x = phys s x" using same sl(2) by blast
    have "translate (load32 (phys s1) ?c) (phys u) va = translate (load32 (phys s1) ?c) m va" using w set(1,3) by simp
    also have "\<dots> = translate (load32 (phys s1) ?c) (phys s1) va" by (rule set(6) [OF va])
    also have "\<dots> = translate (load32 (phys s) ?c) (phys s) va"
      using space_walk_cong [OF pages sl(1)] space_pages_cong(1) [OF pages] by simp
    finally show ?thesis using c(1) set(1) by (simp add: task_space_def dir)
  qed
  show "\<forall>i < length bs. user_byte u t (page_addr n + of_nat i) (bs ! i)"
  proof (intro allI impI)
    fix i assume i: "i < length bs"
    let ?va = "page_addr n + of_nat i"
    have "unat ?va = 4096 * n + i" using n i len by (simp add: unat_word_ariths unat_page_addr)
    then have d: "unat ?va div 4096 = n" using i len by simp
    have "page_addr n + (?va AND 0xFFF) = page_addr n + of_nat i" using page_offset [of ?va] unfolding d .
    then have "?va AND 0xFFF = of_nat i" by simp
    then have "translate (load32 (phys s1) ?c) m ?va = Some (b + of_nat i)"
      using set(7) [OF q(2) copy_flags_ok _ d] by (simp add: q(1))
    then have "translate (task_space (phys u) t) (phys u) ?va = Some (b + of_nat i)"
      using w set(1,3) c(1) by (simp add: task_space_def dir)
    moreover have "phys u (b + of_nat i) = bs ! i" using i len by (simp add: u put_bytes_nth)
    moreover have "in_region b 4096 (b + of_nat i)" using i len by (simp add: in_region_of_nat)
    moreover have "b \<noteq> t" "b \<notin> space_pages (phys u) ?c" using f(4) tl(1) c1(3) unfolding sp by blast+
    ultimately show "user_byte u t ?va (bs ! i)" using ulive unfolding user_byte_def dir by blast
  qed
qed

section \<open>Properties\<close>

text \<open>C40. Copying a string from a task into the kernel: when the string lies in the task's own pages
  below the heap and the buffer outside heap and table, the buffer holds the string, cut at
  \<open>max - 1\<close> characters, with its zero. The page lent to the task is released and its page table entry
  restored: no byte of a live block and none outside the heap but the buffer's has changed. The
  kernel is left in its own address space.\<close>

theorem copy_string_from_task_correct:
  assumes "task_live s t" and "0 < kheap_pages s" and "0 < sint max_len" and "sint max_len < 4096"
    and "user_string s t va str (nat (sint max_len) - 1)"
    and "\<forall>x. in_region out max_len x \<longrightarrow> \<not> in_heap x \<and> \<not> in_table boot_heap x"
  shows "\<exists>s' k. copy_string_from_task t va out max_len s = Inr (0, s') \<and> cstr_at (phys s') out str \<and>
    s' = s\<lparr>cr3 := k, current_directory := k, data_segments := 0x10, phys := phys s'\<rparr> \<and>
    kheap_inv s' \<and> kheap_live s' = kheap_live s \<and> kheap_pages s' = kheap_pages s \<and>
    (\<forall>x. kheap_stable s x \<longrightarrow> \<not> in_region out max_len x \<longrightarrow> phys s' x = phys s x)"
proof -
  obtain s' k where "copy_string_from_task t va out max_len s = Inr (0, s')"
    "s' = s\<lparr>cr3 := k, current_directory := k, data_segments := 0x10, phys := phys s'\<rparr>"
    "kheap_inv s'" "kheap_live s' = kheap_live s" "kheap_pages s' = kheap_pages s" "cstr_at (phys s') out str"
    "\<forall>x. kheap_stable s x \<longrightarrow> \<not> in_region out max_len x \<longrightarrow> phys s' x = phys s x"
    by (rule copy_string_run [OF assms])
  then show ?thesis by blast
qed

text \<open>C39. The system call \<open>print\<close> from user code to user code, for a string without newlines that fits on the screen
  behind the cursor: the string whose address lies on top of
  the task's stack appears on the screen at the cursor, character by character, and the task gets
  back exactly the registers it had, with 0 in \<open>eax\<close>, in its own address space and with user data
  segments. No heap block stays behind, and every stable byte outside the frame, the saved
  registers, the kernel's buffer and the screen is as it was - the task's page table included. (A string that
  does not fit is written on past the screen, see \<open>print_past_screen\<close>.)\<close>

theorem isr80h_print_call:
  assumes "isr80h_commands s ! 1 = Some isr80h_command1_print" and "r_eax r = 1"
    and "task_live s (current_task s)" and "0 < kheap_pages s" and "video_mem s = 0xB8000"
    and "\<forall>x. in_region (esp0 - 52) 52 x \<longrightarrow> kernel_byte s x"
    and "\<forall>x. in_region (print_buffer il) 1024 x \<longrightarrow> kernel_byte s x"
    and "apart (esp0 - 52) 52 (print_buffer il) 1024"
    and "user_word s (current_task s) (r_esp r) va" and "user_string s (current_task s) va str 1023"
    and "10 \<notin> set str" and "fits s (length str)"
    and "cr3 s = task_space (phys s) (current_task s)" and "kernel_frame (esp0 - 52) 52 s = Some (esp0 - 52)"
  shows "\<exists>s'. isr80h_wrapper il esp0 r s = Inr (r\<lparr>r_eax := 0\<rparr>, s') \<and>
    cursor s' = cursor s + length str \<and>
    (\<forall>k < fb_cells. cell s' k = (if cursor s \<le> k \<and> k < cursor s + length str
       then term_make_char (str ! (k - cursor s)) 15 else cell s k)) \<and>
    cr3 s' = task_space (phys s) (current_task s) \<and> data_segments s' = 0x23 \<and> current_task s' = current_task s \<and>
    kheap_inv s' \<and> kheap_live s' = kheap_live s \<and> kheap_pages s' = kheap_pages s \<and>
    (\<forall>x. kheap_stable s x \<longrightarrow> \<not> call_writes (current_task s) (esp0 - 52) x \<longrightarrow>
       \<not> in_region (print_buffer il) 1024 x \<longrightarrow> \<not> in_framebuffer s x \<longrightarrow> phys s' x = phys s x)"
proof -
  let ?t = "current_task s" and ?frame = "esp0 - 52" and ?buf = "print_buffer il"
  let ?u = "saved_state ?frame r s"
  note saved = saved_task [OF assms(3) refl assms(6)]
  note screen = saved_screen [OF assms(3,5,6)]
  note fa = frame_apart_task [OF saved(1)]
  have inv: "kheap_inv s" and tl: "(?t, 4096) \<in> kheap_live s" using assms(3) by (simp_all add: task_live_def)
  have u: "current_task ?u = ?t" "isr80h_commands ?u = isr80h_commands s" "video_mem ?u = 0xB8000"
    using assms(5) by (simp_all add: saved_state_def in_kernel_def)
  have esp: "load32 (phys ?u) (task_registers ?t + 40) = r_esp r"
    using call_memory_esp [OF fa] by (simp add: saved_state_def)
  have word: "user_word ?u ?t (r_esp r) va" and str: "user_string ?u ?t va str 1023"
    using assms(9,10) saved(6) by (simp_all add: user_word_def user_string_def)
  obtain s4 where run: "command1_print il ?u = Inr (0, s4)" and shown: "shown ?buf str ?u s4"
    by (rule print_command [of ?u il va str])
      (use saved(2,5) assms(4,7,11,12) u esp word str screen in simp_all)
  have "isr80h_handle_command il 1 ?u = Inr (0, s4)"
    using assms(1) run u by (simp add: isr80h_handle_command_def run_command_def lameos_max_isr80h_commands_def
        word_sle_eq word_sless_alt)
  moreover have "?t \<noteq> 0" using kmalloc_heap.live_nonnull [OF inv tl] by blast
  moreover have space: "task_space (phys s4) ?t = task_space (phys s) ?t"
    using shown_space(1) [OF saved(2) shown u(3)] assms(7) saved(3) screen(4) by simp
  moreover have "translate (task_space (phys s) ?t) (phys s4) va = translate (cr3 s) (phys s) va" for va
    using shown_space(2) [OF saved(2) shown u(3), of va] saved(7) [where va' = va] assms(7,13) saved(3) screen(4) by simp
  then have "kernel_frame ?frame 52 (s4\<lparr>cr3 := task_space (phys s4) ?t, current_directory := task_space (phys s4) ?t, data_segments := 0x23\<rparr>) =
      Some ?frame"
    unfolding assms(14) [symmetric] space by (intro kernel_frame_same) simp
  ultimately have wr: "isr80h_wrapper il esp0 r s = Inr (pop_frame ?frame 0 (phys s4),
      s4\<lparr>cr3 := task_space (phys s4) ?t, current_directory := task_space (phys s4) ?t, data_segments := 0x23\<rparr>)"
    using wrapper_saved [OF _ fa, of il r 0 s4] assms(2,14) shown u by (simp add: shown_def)
  note space
  moreover have "pop_frame ?frame 0 (phys s4) = r\<lparr>r_eax := 0\<rparr>"
  proof -
    have "phys s4 x = phys ?u x" if "in_region ?frame 52 x" for x
      using shown that assms(6) apart_not_in2 [OF assms(8) that] screen(2)
      by (auto simp: shown_def kheap_stable_def kernel_byte_def)
    then have "pop_frame ?frame 0 (phys s4) = pop_frame ?frame 0 (phys ?u)" by (rule pop_frame_cong)
    then show ?thesis by (simp add: saved_state_def call_memory_frame [OF fa])
  qed
  ultimately have "isr80h_wrapper il esp0 r s = Inr (r\<lparr>r_eax := 0\<rparr>, s4\<lparr>cr3 := task_space (phys s) ?t,
      current_directory := task_space (phys s) ?t, data_segments := 0x23\<rparr>)" (is "_ = Inr (_, ?s)")
    using wr by simp
  moreover have "phys ?s x = phys s x" if "kheap_stable s x" "\<not> call_writes ?t ?frame x"
    "\<not> in_region ?buf 1024 x" "\<not> in_framebuffer s x" for x
  proof -
    have "kheap_stable ?u x" using that(1) saved(4) by (simp add: kheap_stable_def)
    moreover have "phys ?u x = phys s x" using call_memory_out [OF fa that(2)] by (simp add: saved_state_def)
    ultimately show ?thesis using shown that(3,4) screen(2) by (simp add: shown_def)
  qed
  moreover have "kheap_inv ?s = kheap_inv s4" "kheap_live ?s = kheap_live s4" "kheap_pages ?s = kheap_pages s4"
    "cursor ?s = cursor s4" "\<And>i. cell ?s i = cell s4 i"
    by (simp_all add: kheap_inv_def kheap_live_def kheap_pages_def kchunks_def cursor_def cell_def cell_addr_def)
  ultimately show ?thesis
    using shown screen(1,5) saved(4,5) u(1) by (intro exI [of _ ?s]) (simp add: shown_def)
qed

section \<open>A sample task\<close>

text \<open>The kernel with the two system calls registered, and a task whose page \<open>0x400000\<close> holds the pointer
  \<open>0x400004\<close> and the string "Hi".\<close>

definition call_start :: "unit interrupts" where
  "call_start = tasks.extend (idle_kernel\<lparr>video_mem := 0xB8000, term_row := 0, term_col := 0\<rparr>)
     \<lparr>current_process = 0, processes = replicate 12 0, idtr = (0, 0),
      isr80h_commands = (replicate 1024 None)[0 := Some isr80h_command0_sum, 1 := Some isr80h_command1_print]\<rparr>"

definition sample_page :: "u8 list" where
  "sample_page = [0x04, 0x00, 0x40, 0x00, 0x48, 0x69, 0x00]"

definition sample_call :: "unit interrupts" where
  "sample_call = (let (t, s) = task_new 0 call_start; u = give_page t 0x400 sample_page s
     in u\<lparr>cr3 := task_space (phys u) t\<rparr>)"

lemma call_start_ok: "tasks_ok call_start []" "kheap_pages call_start = 25600" "video_mem call_start = 0xB8000"
  "cursor call_start = 0" "term_col call_start = 0" "isr80h_commands call_start ! 1 = Some isr80h_command1_print"
proof -
  show "tasks_ok call_start []" "kheap_pages call_start = 25600"
    using idle_kernel_ok by (simp_all add: tasks_ok_def kheap_inv_def kheap_pages_def kchunks_def kheap_live_def
        call_start_def tasks.extend_def)
  show "video_mem call_start = 0xB8000" "cursor call_start = 0" "term_col call_start = 0"
    by (simp_all add: call_start_def tasks.extend_def cursor_def)
  show "isr80h_commands call_start ! 1 = Some isr80h_command1_print" 
    by (simp add: call_start_def tasks.extend_def)
qed

lemma sample_call_ok:
  obtains t where "current_task sample_call = t" "task_live sample_call t" "0 < kheap_pages sample_call"
    "video_mem sample_call = 0xB8000" "cursor sample_call = 0" "term_col sample_call = 0"
    "isr80h_commands sample_call ! 1 = Some isr80h_command1_print"
    "user_word sample_call t 0x400000 0x400004" "user_string sample_call t 0x400004 [0x48, 0x69] 1023"
    "cr3 sample_call = task_space (phys sample_call) t" "kernel_frame (0x600000 - 52) 52 sample_call = Some (0x600000 - 52)"
proof -
  have "1027 \<le> kheap_pages call_start" by (simp add: call_start_ok(2))
  then obtain t and s1 :: "unit interrupts" where new: "task_new 0 call_start = (t, s1)"
    "kheap_pages s1 + 1027 = kheap_pages call_start"
    "current_task s1 = (if ([] :: ptr list) = [] then t else current_task call_start)" "task_live s1 t"
    "\<exists>m h c. s1 = call_start\<lparr>phys := m, task_tail := t, task_head := h, current_task := c\<rparr>"
    "\<forall>va. translate (task_space (phys s1) t) (phys s1) va = Some va"
    by (rule new_task [OF call_start_ok(1), of 0]) blast
  then obtain m h c where s1: "s1 = call_start\<lparr>phys := m, task_tail := t, task_head := h, current_task := c\<rparr>" by blast
  define u where "u = give_page t 0x400 sample_page s1"
  have sc: "sample_call = u\<lparr>cr3 := task_space (phys u) t\<rparr>" by (simp add: sample_call_def new(1) Let_def u_def)
  have pages: "0 < kheap_pages s1" "(0x400 :: nat) < 2 ^ 20" "length sample_page \<le> 4096"
    using new(2) by (simp_all add: call_start_ok(2) sample_page_def)
  note g = give_page_task [OF new(4) pages, folded u_def]
  have k: "sample_call = call_start\<lparr>task_tail := t, task_head := h, current_task := c, phys := phys sample_call, cr3 := task_space (phys u) t\<rparr>"
    using g(1) s1 by (simp add: sc)
  have ct: "c = t" using new(3) s1 by simp
  have same: "task_live sample_call t = task_live u t" "kheap_pages sample_call = kheap_pages u" "user_byte sample_call t = user_byte u t"
    "phys sample_call = phys u"
    by (simp_all add: sc kheap_inv_def kheap_live_def kheap_pages_def kchunks_def task_live_def space_live_def user_byte_def fun_eq_iff)
  have byte: "user_byte sample_call t (0x400000 + of_nat i) (sample_page ! i)" if "i < 7" for i
    using g(4) that by (simp add: sample_page_def page_addr_def same)
  show thesis
  proof (rule that [of t])
    show "current_task sample_call = t" "video_mem sample_call = 0xB8000" "cursor sample_call = 0" "term_col sample_call = 0"
      "isr80h_commands sample_call ! 1 = Some isr80h_command1_print"
      by (subst k, use call_start_ok ct in \<open>simp add: cursor_def\<close>)+
    show "task_live sample_call t" using g(2) by (simp add: same)
    show "0 < kheap_pages sample_call" using g(3) new(2) by (simp add: call_start_ok(2) same)
    show "cr3 sample_call = task_space (phys sample_call) t" by (simp add: sc)
    have "translate (cr3 sample_call) (phys sample_call) va = Some va" if "unat va div 4096 \<noteq> 0x400" for va
      using g(5) [OF that] new(6) by (simp add: sc)
    from this [of "0x5FFFCC"] this [of "0x5FFFFF"]
    show "kernel_frame (0x600000 - 52) 52 sample_call = Some (0x600000 - 52)" by (simp add: kernel_frame_def)
    have e: "(4194308 :: u8) = 4" "(16384 :: u8) = 0" by simp_all
    show "user_word sample_call t 0x400000 0x400004"
      using byte [of 0] byte [of 1] byte [of 2] byte [of 3] by (simp add: user_word_def sample_page_def e)
    have "user_byte sample_call t (0x400004 + of_nat i) ([0x48, 0x69] ! i)" if "i < 2" for i
      using byte [of 4] byte [of 5] that by (cases i) (auto simp: sample_page_def)
    then show "user_string sample_call t 0x400004 [0x48, 0x69] 1023"
      using byte [of 6] by (simp add: user_string_def sample_page_def)
  qed
qed

lemma in_subregion:
  assumes "unat (a - b) + unat n \<le> unat k" and "in_region a n x"
  shows "in_region b k x"
proof -
  define d f where "d = x - a" and "f = a - b"
  have x: "x - b = d + f" by (simp add: d_def f_def)
  have d: "unat d < unat n" using assms(2) by (simp add: in_region_def word_less_nat_alt d_def)
  have "unat f + unat n < 2 ^ 32" using assms(1) unat_range_u32 [of k] unfolding f_def by linarith
  then have "unat (x - b) = unat d + unat f" unfolding x using d by (simp add: unat_word_ariths)
  then show ?thesis using assms(1) d by (simp add: in_region_def word_less_nat_alt f_def)
qed

text \<open>The stack at the top of the kernel's stack, the buffer of \<open>sample_idt\<close>.\<close>

lemma sample_outside:
  assumes "video_mem s = 0xB8000" and "in_region 0x5FF000 0x1000 x"
  shows "kernel_byte s x"
proof -
  have "apart 0x1000000 104857600 0x5FF000 0x1000" "apart 0x7E00 25600 0x5FF000 0x1000" "apart 0xB8000 4000 0x5FF000 0x1000"
    by (simp_all add: apart_def)
  from this [THEN apart_not_in, OF assms(2)] show ?thesis
    by (simp add: kernel_byte_def in_heap_def in_table_def in_framebuffer_def assms(1))
qed

theorem copy_string_from_task_correct_witness:
  "\<exists>t s'. copy_string_from_task t 0x400004 0x5FF800 2 sample_call = Inr (0, s') \<and> cstr_at (phys s') 0x5FF800 [0x48]"
proof -
  obtain t where t: "task_live sample_call t" "0 < kheap_pages sample_call" "video_mem sample_call = 0xB8000"
    "user_string sample_call t 0x400004 [0x48, 0x69] 1023"
    by (rule sample_call_ok) blast
  have "user_string sample_call t 0x400004 [0x48] (nat (sint (2 :: i32)) - 1)"
    using t(4) by (auto simp: user_string_def)
  moreover have "\<forall>x. in_region 0x5FF800 2 x \<longrightarrow> \<not> in_heap x \<and> \<not> in_table boot_heap x"
    using sample_outside [OF t(3) in_subregion [of "0x5FF800" "0x5FF000" 2 "0x1000"]] by (simp add: kernel_byte_def)
  ultimately show ?thesis using copy_string_from_task_correct [OF t(1,2), of 2] by (simp del: cstr_at.simps) blast
qed

theorem isr80h_print_call_witness:
  "\<exists>s'. isr80h_wrapper sample_idt 0x600000 (call_registers\<lparr>r_eax := 1, r_esp := 0x400000\<rparr>) sample_call =
     Inr (call_registers\<lparr>r_eax := 0, r_esp := 0x400000\<rparr>, s') \<and> cell s' 1 = term_make_char 0x69 15"
proof -
  obtain t where t: "current_task sample_call = t" "task_live sample_call t" "0 < kheap_pages sample_call"
    "video_mem sample_call = 0xB8000" "cursor sample_call = 0" "term_col sample_call = 0"
    "isr80h_commands sample_call ! 1 = Some isr80h_command1_print"
    "user_word sample_call t 0x400000 0x400004" "user_string sample_call t 0x400004 [0x48, 0x69] 1023"
    "cr3 sample_call = task_space (phys sample_call) t" "kernel_frame (0x600000 - 52) 52 sample_call = Some (0x600000 - 52)"
    by (rule sample_call_ok) blast
  let ?r = "call_registers\<lparr>r_eax := 1, r_esp := 0x400000\<rparr>"
  have frame: "\<forall>x. in_region (0x600000 - 52) 52 x \<longrightarrow> kernel_byte sample_call x"
    using in_subregion [of "0x600000 - 52" "0x5FF000" 52 "0x1000"] by (intro allI impI sample_outside [OF t(4)]) simp
  have buf: "\<forall>x. in_region (print_buffer sample_idt) 1024 x \<longrightarrow> kernel_byte sample_call x"
    using in_subregion [of "0x5FF800" "0x5FF000" 1024 "0x1000"]
    by (intro allI impI sample_outside [OF t(4)]) (simp add: sample_idt_def)
  have ap: "apart (0x600000 - 52) 52 (print_buffer sample_idt) 1024" by (simp add: apart_def sample_idt_def)
  have fit: "fits sample_call (length [0x48, 0x69 :: u8])" using t(5,6) by (simp add: fits_def vga_width_def)
  have "\<exists>s'. isr80h_wrapper sample_idt 0x600000 ?r sample_call = Inr (?r\<lparr>r_eax := 0\<rparr>, s') \<and>
      (\<forall>k < fb_cells. cell s' k = (if 0 \<le> k \<and> k < 0 + length [0x48, 0x69 :: u8]
       then term_make_char ([0x48, 0x69] ! (k - 0)) 15 else cell sample_call k))"
    using isr80h_print_call [of sample_call ?r "0x600000" sample_idt "0x400004" "[0x48, 0x69]",
        OF t(7) _ _ t(3,4) frame buf ap _ _ _ fit _ t(11)] t(1,2,5,8,9,10) by auto
  then show ?thesis by (auto dest: spec [of _ 1])
qed

end
