(* ===== verification/ColorShow.thy ===== *)
theory ColorShow
  imports Terminal
begin

text \<open>
  \<open>lame_color_show\<close> of \<open>src/kernel.c\<close>: every character in every colour over the whole screen, for
  ever. The endless loop is a partial function, so that not returning is the value \<open>None\<close>.
\<close>

section \<open>The demo\<close>

definition video_memory :: ptr where "video_memory = 0xB8000"

text \<open>The loop over the cells: the character at the even bytes, the colour at the odd ones.\<close>

definition show_cells :: "u8 \<Rightarrow> u8 \<Rightarrow> nat \<Rightarrow> mem \<Rightarrow> mem" where
  "show_cells character color n =
     fold (\<lambda>i m. m(video_memory + of_nat (i * 2) := character, video_memory + of_nat (i * 2 + 1) := color)) [0..<n]"

definition show_all :: "mem \<Rightarrow> mem" where
  "show_all =
     fold (\<lambda>character. fold (\<lambda>color. show_cells (of_nat character) (of_nat color) (80 * 25)) [0..<16]) [0..<256]"

partial_function (option) lame_color_show :: "'a terminal_scheme \<Rightarrow> 'a terminal_scheme option" where
  "lame_color_show s = lame_color_show (s\<lparr>phys := show_all (phys s)\<rparr>)"

section \<open>What it shows\<close>

definition screen_of :: "u8 \<Rightarrow> u8 \<Rightarrow> nat \<Rightarrow> u8 list" where
  "screen_of character color n = concat (replicate n [character, color])"

lemma length_screen_of [simp]: "length (screen_of character color n) = 2 * n"
  by (induction n) (simp_all add: screen_of_def)

lemma screen_of_Suc: "screen_of character color (Suc n) = screen_of character color n @ [character, color]"
  by (induction n) (simp_all add: screen_of_def)

lemma show_cells_eq: "show_cells character color n = put_bytes video_memory (screen_of character color n)"
proof (induction n)
  case (Suc n)
  then show ?case
    by (intro ext) (simp add: show_cells_def screen_of_Suc put_bytes_append algebra_simps)
qed (simp add: fun_eq_iff show_cells_def screen_of_def)

lemma put_bytes_twice:
  "length bs = length cs \<Longrightarrow> length bs < 2 ^ 32 \<Longrightarrow> put_bytes p bs (put_bytes p cs m) = put_bytes p bs m"
  by (rule ext) (simp add: put_bytes_apply)

text \<open>Of a run of full screens only the last remains.\<close>

lemma screens:
  "fold (\<lambda>i. put_bytes p (screen_of (f i) (g i) 2000)) [0..<Suc k] m = put_bytes p (screen_of (f k) (g k) 2000) m"
  by (induction k) (simp_all add: put_bytes_twice)

lemma show_all_eq: "show_all m = put_bytes video_memory (screen_of 0xFF 0xF 2000) m"
proof -
  have "fold (\<lambda>color. show_cells c (of_nat color) 2000) [0..<16] = put_bytes video_memory (screen_of c 0xF 2000)" for c
    using screens [of video_memory "\<lambda>_. c" of_nat 15] by (simp add: fun_eq_iff show_cells_eq del: upt_Suc)
  then show ?thesis
    using screens [of video_memory of_nat "\<lambda>_. 0xF" 255] by (simp add: show_all_def del: upt_Suc)
qed

lemma show_all_power: "(show_all ^^ Suc n) m = show_all m"
  by (induction n) (simp_all add: show_all_eq put_bytes_twice)

lemma never_returns: "lame_color_show s = Some s' \<Longrightarrow> False"
  using lame_color_show.raw_induct [where P = "\<lambda>_ _. False"] by blast

section \<open>Property\<close>

text \<open>\<open>lame_color_show\<close> never returns. Each pass of its inner loops fills all 2000 cells of the
  screen with one character in one colour; a round goes through all of them, and after any
  number of rounds the screen is full of the last, 255 in colour 15, and no byte outside the 4000
  of the framebuffer has changed.\<close>

theorem lame_color_show_endless:
  "lame_color_show s = None \<and>
   show_cells character color (80 * 25) m = put_bytes 0xB8000 (concat (replicate 2000 [character, color])) m \<and>
   (show_all ^^ Suc n) m = put_bytes 0xB8000 (concat (replicate 2000 [0xFF, 0xF])) m"
  using never_returns [of s]
  by (cases "lame_color_show s") (auto simp: show_all_power show_all_eq show_cells_eq video_memory_def screen_of_def simp del: funpow.simps)

end
