(* ===== verification/Fat16.thy ===== *)
theory Fat16
  imports File
begin

text \<open>
  \<open>src/fs/fat/fat16.c\<close>: the FAT16 driver, and the three functions of \<open>file.c\<close> that register it.
  The structs lie in memory at the offsets the i686 compiler gives them. Local objects whose
  address is taken lie on the stack: \<open>layout\<close> holds their addresses and the one of the static
  object \<open>fat16_fs\<close>. The kernel has one \<open>struct disk\<close>, the field \<open>the_disk\<close> of the state, and every
  \<open>struct disk\<close> pointer is its address. An operation that may fail to return (a loop over disk or
  memory contents, a division by zero) has an optional result.
\<close>

section \<open>Data\<close>

record layout =
  sector_buffer :: "nat \<Rightarrow> nat \<Rightarrow> ptr"  \<comment> \<open>\<open>buf\<close> of \<open>diskstreamer_read\<close>, by call site and depth\<close>
  item_buffer :: ptr                     \<comment> \<open>\<open>item\<close> of \<open>fat16_get_total_items_for_directory\<close>\<close>
  empty_item_buffer :: ptr
  entry_buffer :: ptr                    \<comment> \<open>\<open>result\<close> of \<open>fat16_get_fat_entry\<close>\<close>
  name_buffer :: ptr                     \<comment> \<open>\<open>tmp_filename\<close> of \<open>fat16_find_item_in_directory\<close>\<close>
  fat16_fs_addr :: ptr

definition lameos_fat16_signature :: u8 where "lameos_fat16_signature = 0x29"
definition lameos_fat16_fat_entry_size :: i32 where "lameos_fat16_fat_entry_size = 2"
definition lameos_fat16_bad_sector :: i32 where "lameos_fat16_bad_sector = 0xFF7"
definition fat_item_type_directory :: u32 where "fat_item_type_directory = 0"
definition fat_item_type_file :: u32 where "fat_item_type_file = 1"
definition fat_file_read_only :: u8 where "fat_file_read_only = 0x01"
definition fat_file_subdirectory :: u8 where "fat_file_subdirectory = 0x10"
definition file_stat_read_only :: u32 where "file_stat_read_only = 1"

text \<open>\<open>struct fat_private\<close>, 92 bytes: the packed boot sector header (62 bytes), the root directory at
  64, the three streams from 80 on.\<close>

definition sizeof_fat_h :: u32 where "sizeof_fat_h = 62"
definition sizeof_fat_private :: u32 where "sizeof_fat_private = 92"

definition hdr_sectors_per_cluster :: "mem \<Rightarrow> ptr \<Rightarrow> u8" where
  "hdr_sectors_per_cluster m h = m (h + 13)"
definition hdr_reserved_sectors :: "mem \<Rightarrow> ptr \<Rightarrow> u16" where
  "hdr_reserved_sectors m h = load16 m (h + 14)"
definition hdr_fat_copies :: "mem \<Rightarrow> ptr \<Rightarrow> u8" where "hdr_fat_copies m h = m (h + 16)"
definition hdr_root_dir_entries :: "mem \<Rightarrow> ptr \<Rightarrow> u16" where
  "hdr_root_dir_entries m h = load16 m (h + 17)"
definition hdr_sectors_per_fat :: "mem \<Rightarrow> ptr \<Rightarrow> u16" where
  "hdr_sectors_per_fat m h = load16 m (h + 22)"
definition hdr_signature :: "mem \<Rightarrow> ptr \<Rightarrow> u8" where "hdr_signature m h = m (h + 38)"

definition root_directory :: "ptr \<Rightarrow> ptr" where "root_directory priv = priv + 64"
definition cluster_read_stream :: "mem \<Rightarrow> ptr \<Rightarrow> ptr" where
  "cluster_read_stream m priv = load32 m (priv + 80)"
definition fat_read_stream :: "mem \<Rightarrow> ptr \<Rightarrow> ptr" where
  "fat_read_stream m priv = load32 m (priv + 84)"
definition directory_stream :: "mem \<Rightarrow> ptr \<Rightarrow> ptr" where
  "directory_stream m priv = load32 m (priv + 88)"

text \<open>\<open>struct fat_directory_item\<close>, 32 bytes as on the disk.\<close>

definition sizeof_directory_item :: i32 where "sizeof_directory_item = 32"
definition item_ext :: "ptr \<Rightarrow> ptr" where "item_ext item = item + 8"
definition item_attribute :: "mem \<Rightarrow> ptr \<Rightarrow> u8" where "item_attribute m item = m (item + 11)"
definition item_high_cluster :: "mem \<Rightarrow> ptr \<Rightarrow> u16" where
  "item_high_cluster m item = load16 m (item + 20)"
definition item_low_cluster :: "mem \<Rightarrow> ptr \<Rightarrow> u16" where
  "item_low_cluster m item = load16 m (item + 26)"
definition item_filesize :: "mem \<Rightarrow> ptr \<Rightarrow> u32" where "item_filesize m item = load32 m (item + 28)"

text \<open>\<open>struct fat_directory\<close>, \<open>struct fat_item\<close> and \<open>struct fat_file_descriptor\<close>.\<close>

definition dir_item :: "mem \<Rightarrow> ptr \<Rightarrow> ptr" where "dir_item m dir = load32 m dir"
definition dir_total :: "mem \<Rightarrow> ptr \<Rightarrow> i32" where "dir_total m dir = load32 m (dir + 4)"
definition dir_ending_sector_pos :: "mem \<Rightarrow> ptr \<Rightarrow> i32" where
  "dir_ending_sector_pos m dir = load32 m (dir + 12)"
definition fat_item_ptr :: "mem \<Rightarrow> ptr \<Rightarrow> ptr" where "fat_item_ptr m f = load32 m f"
definition fat_item_type :: "mem \<Rightarrow> ptr \<Rightarrow> u32" where "fat_item_type m f = load32 m (f + 4)"
definition fat_desc_item :: "mem \<Rightarrow> ptr \<Rightarrow> ptr" where "fat_desc_item m d = load32 m d"
definition fat_desc_pos :: "mem \<Rightarrow> ptr \<Rightarrow> u32" where "fat_desc_pos m d = load32 m (d + 4)"

text \<open>Signed division and remainder; a zero divisor raises the divide error, whose handler returns to
  the same instruction.\<close>

definition int_div :: "i32 \<Rightarrow> i32 \<Rightarrow> i32 option" where
  "int_div a b = (if b = 0 then None else Some (word_of_int (sint a sdiv sint b)))"
definition int_mod :: "i32 \<Rightarrow> i32 \<Rightarrow> i32 option" where
  "int_mod a b = (if b = 0 then None else Some (word_of_int (sint a smod sint b)))"

section \<open>Initialisation\<close>

text \<open>\<open>strcpy (fat16_fs.name, "FAT16")\<close>: the name follows the six function pointers.\<close>

definition fat16_init :: "layout \<Rightarrow> ('d, 'a) files_scheme \<Rightarrow> ptr \<times> ('d, 'a) files_scheme" where
  "fat16_init l s =
     (fat16_fs_addr l,
      s\<lparr>phys := put_bytes (fat16_fs_addr l + 24) [0x46, 0x41, 0x54, 0x31, 0x36, 0] (phys s)\<rparr>)"

definition fs_static_load :: "layout \<Rightarrow> ('d, 'a) files_scheme \<Rightarrow> halt + ('d, 'a) files_scheme" where
  "fs_static_load l s = (let (fsp, s1) = fat16_init l s in fs_insert_filesystem fsp s1)"

definition fs_load :: "layout \<Rightarrow> ('d, 'a) files_scheme \<Rightarrow> halt + ('d, 'a) files_scheme" where
  "fs_load l s = fs_static_load l (s\<lparr>filesystems := replicate lameos_max_filesystems 0\<rparr>)"

definition fs_init :: "layout \<Rightarrow> ('d, 'a) files_scheme \<Rightarrow> halt + ('d, 'a) files_scheme" where
  "fs_init l s = fs_load l (s\<lparr>file_descriptors := replicate lameos_max_file_descriptors 0\<rparr>)"

definition fat16_init_private ::
  "'d ports \<Rightarrow> ptr \<Rightarrow> ('d, 'a) files_scheme \<Rightarrow> ('d, 'a) files_scheme" where
  "fat16_init_private io priv s =
     (let s0 = s\<lparr>phys := memset priv 0 sizeof_fat_private (phys s)\<rparr>;
          (p1, s1) = diskstreamer_new io (disk_id (the_disk s0)) s0;
          s1' = s1\<lparr>phys := store32 (phys s1) (priv + 80) p1\<rparr>;
          (p2, s2) = diskstreamer_new io (disk_id (the_disk s1')) s1';
          s2' = s2\<lparr>phys := store32 (phys s2) (priv + 84) p2\<rparr>;
          (p3, s3) = diskstreamer_new io (disk_id (the_disk s2')) s2'
      in s3\<lparr>phys := store32 (phys s3) (priv + 88) p3\<rparr>)"

definition fat16_sector_to_absolute :: "i32 \<Rightarrow> ('d, 'a) files_scheme \<Rightarrow> i32" where
  "fat16_sector_to_absolute sector s = sector * sector_size (the_disk s)"

section \<open>Directories on the disk\<close>

partial_function (option) count_items_loop ::
  "'d ports \<Rightarrow> layout \<Rightarrow> ptr \<Rightarrow> i32 \<Rightarrow> ('d, 'a) files_scheme \<Rightarrow> (i32 \<times> ('d, 'a) files_scheme) option" where
  "count_items_loop io l stream i s = do {
     (res, s') \<leftarrow> diskstreamer_read io (sector_buffer l 0) 0 stream (item_buffer l) sizeof_directory_item s;
     if res \<noteq> lameos_ok then Some (- eio, s')
     else if phys s' (item_buffer l) = 0 then Some (i, s')
     else if phys s' (item_buffer l) = 0xE5 then count_items_loop io l stream i s'
     else count_items_loop io l stream (i + 1) s'
   }"

definition fat16_get_total_items_for_directory ::
  "'d ports \<Rightarrow> layout \<Rightarrow> u32 \<Rightarrow> ('d, 'a) files_scheme \<Rightarrow> (i32 \<times> ('d, 'a) files_scheme) option" where
  "fat16_get_total_items_for_directory io l directory_start_sector s =
     (let s0 = s\<lparr>phys := memset (empty_item_buffer l) 0 sizeof_directory_item (phys s)\<rparr>;
          directory_start_pos = directory_start_sector * sector_size (the_disk s0);
          stream = directory_stream (phys s0) (fs_private (the_disk s0));
          (res, s1) = diskstreamer_seek stream directory_start_pos s0
      in if res \<noteq> lameos_ok then Some (- eio, s1) else count_items_loop io l stream 0 s1)"

definition fat16_get_root_directory ::
  "'d ports \<Rightarrow> layout \<Rightarrow> ptr \<Rightarrow> ptr \<Rightarrow> ('d, 'a) files_scheme \<Rightarrow> (i32 \<times> ('d, 'a) files_scheme) option" where
  "fat16_get_root_directory io l priv directory s = do {
     let root_dir_sector_pos =
       ucast (hdr_fat_copies (phys s) priv) * ucast (hdr_sectors_per_fat (phys s) priv)
         + ucast (hdr_reserved_sectors (phys s) priv);
     let root_dir_entries = ucast (hdr_root_dir_entries (phys s) priv);
     let root_dir_size = root_dir_entries * sizeof_directory_item;
     total_sectors \<leftarrow> int_div root_dir_size (sector_size (the_disk s));
     (total_items, s1) \<leftarrow> fat16_get_total_items_for_directory io l root_dir_sector_pos s;
     let (dir, s2) = kzalloc root_dir_size s1;
     if dir = 0 then Some (- enomem, s2)
     else
       let stream = directory_stream (phys s2) priv;
           (res, s3) = diskstreamer_seek stream (fat16_sector_to_absolute root_dir_sector_pos s2) s2
       in if res \<noteq> lameos_ok then Some (- eio, s3)
          else do {
            (res', s4) \<leftarrow> diskstreamer_read io (sector_buffer l 1) 0 stream dir root_dir_size s3;
            if res' \<noteq> lameos_ok then Some (- eio, s4)
            else do {
              ending \<leftarrow> int_div root_dir_size (sector_size (the_disk s4));
              let m1 = store32 (phys s4) directory dir;
              let m2 = store32 m1 (directory + 4) total_items;
              let m3 = store32 m2 (directory + 8) root_dir_sector_pos;
              let m4 = store32 m3 (directory + 12) (root_dir_sector_pos + ending);
              Some (0, s4\<lparr>phys := m4\<rparr>)
            }
          }
   }"

text \<open>The body of \<open>fat16_resolve\<close> from the creation of \<open>stream\<close> to the label.\<close>

definition resolve_body ::
  "'d ports \<Rightarrow> layout \<Rightarrow> ptr \<Rightarrow> ptr \<Rightarrow> ('d, 'a) files_scheme \<Rightarrow> (i32 \<times> ('d, 'a) files_scheme) option" where
  "resolve_body io l priv stream s =
     (if stream = 0 then Some (- enomem, s)
      else do {
        (res, s1) \<leftarrow> diskstreamer_read io (sector_buffer l 2) 0 stream priv sizeof_fat_h s;
        if res \<noteq> lameos_ok then Some (- eio, s1)
        else if hdr_signature (phys s1) priv \<noteq> lameos_fat16_signature then Some (- efsnotus, s1)
        else do {
          (res', s2) \<leftarrow> fat16_get_root_directory io l priv (root_directory priv) s1;
          if res' \<noteq> lameos_ok then Some (- eio, s2) else Some (0, s2)
        }
      })"

definition fat16_resolve ::
  "'d ports \<Rightarrow> layout \<Rightarrow> ('d, 'a) files_scheme \<Rightarrow> (i32 \<times> ('d, 'a) files_scheme) option" where
  "fat16_resolve io l s = do {
     let (priv, s1) = kzalloc sizeof_fat_private s;
     let s2 = fat16_init_private io priv s1;
     let s3 = s2\<lparr>the_disk := (the_disk s2)\<lparr>disk_filesystem := fat16_fs_addr l, fs_private := priv\<rparr>\<rparr>;
     let (stream, s4) = diskstreamer_new io (disk_id (the_disk s3)) s3;
     (res, s5) \<leftarrow> resolve_body io l priv stream s4;
     let s6 = (if stream \<noteq> 0 then diskstreamer_close stream s5 else s5);
     if res <s 0
     then Some (res, (kfree priv s6)\<lparr>the_disk := (the_disk s6)\<lparr>fs_private := 0\<rparr>\<rparr>)
     else Some (res, s6)
   }"

section \<open>File names\<close>

partial_function (option) proper_loop :: "ptr \<Rightarrow> ptr \<Rightarrow> mem \<Rightarrow> (ptr \<times> ptr \<times> mem) option" where
  "proper_loop out inp m =
     (if m inp \<noteq> 0 \<and> m inp \<noteq> 0x20 then proper_loop (out + 1) (inp + 1) (m(out := m inp))
      else Some (out, inp, m))"

definition fat16_to_proper_string :: "ptr \<Rightarrow> ptr \<Rightarrow> mem \<Rightarrow> (ptr \<times> mem) option" where
  "fat16_to_proper_string out inp m = do {
     (out', inp', m') \<leftarrow> proper_loop out inp m;
     Some (out', if m' inp' = 0x20 then m'(out' := 0) else m')
   }"

definition fat16_get_full_relative_filename :: "ptr \<Rightarrow> ptr \<Rightarrow> i32 \<Rightarrow> mem \<Rightarrow> mem option" where
  "fat16_get_full_relative_filename item out max_len m = do {
     let m0 = memset out 0 max_len m;
     (out1, m1) \<leftarrow> fat16_to_proper_string out item m0;
     if m1 (item_ext item) \<noteq> 0 \<and> m1 (item_ext item) \<noteq> 0x20
     then do {
       let m2 = m1(out1 := 0x2E);
       (out2, m3) \<leftarrow> fat16_to_proper_string (out1 + 1) (item_ext item) m2;
       Some m3
     }
     else Some m1
   }"

definition fat16_clone_directory_item ::
  "ptr \<Rightarrow> i32 \<Rightarrow> ('d, 'a) files_scheme \<Rightarrow> ptr \<times> ('d, 'a) files_scheme" where
  "fat16_clone_directory_item item sz s =
     (if sz < sizeof_directory_item then (0, s)
      else
        let (item_copy, s1) = kzalloc sz s
        in if item_copy = 0 then (0, s1)
           else (item_copy, s1\<lparr>phys := memcpy item_copy item sz (phys s1)\<rparr>))"

section \<open>Clusters\<close>

definition fat16_get_first_cluster :: "ptr \<Rightarrow> mem \<Rightarrow> u32" where
  "fat16_get_first_cluster item m = ucast (item_high_cluster m item) OR ucast (item_low_cluster m item)"

definition fat16_cluster_to_sector :: "ptr \<Rightarrow> i32 \<Rightarrow> mem \<Rightarrow> i32" where
  "fat16_cluster_to_sector priv cluster m =
     dir_ending_sector_pos m (root_directory priv) + (cluster - 2) * ucast (hdr_sectors_per_cluster m priv)"

definition fat16_get_first_fat_sector :: "ptr \<Rightarrow> mem \<Rightarrow> u32" where
  "fat16_get_first_fat_sector priv m = ucast (hdr_reserved_sectors m priv)"

definition fat16_get_fat_entry ::
  "'d ports \<Rightarrow> layout \<Rightarrow> i32 \<Rightarrow> ('d, 'a) files_scheme \<Rightarrow> (i32 \<times> ('d, 'a) files_scheme) option" where
  "fat16_get_fat_entry io l cluster s =
     (let priv = fs_private (the_disk s);
          stream = fat_read_stream (phys s) priv
      in if stream = 0 then Some (- 1, s)
         else
           let fat_table_position = fat16_get_first_fat_sector priv (phys s) * sector_size (the_disk s);
               (res, s1) = diskstreamer_seek stream
                 (fat_table_position * (cluster * lameos_fat16_fat_entry_size)) s
           in if res <s 0 then Some (res, s1)
              else do {
                let s2 = s1\<lparr>phys := store16 (phys s1) (entry_buffer l) 0\<rparr>;
                (res', s3) \<leftarrow> diskstreamer_read io (sector_buffer l 3) 0 stream (entry_buffer l) 2 s2;
                if res' <s 0 then Some (res', s3)
                else Some (ucast (load16 (phys s3) (entry_buffer l)), s3)
              })"

text \<open>\<open>for (int i = 0; i < clusters_ahead; i++)\<close>, with the number of iterations left.\<close>

fun cluster_loop ::
  "'d ports \<Rightarrow> layout \<Rightarrow> nat \<Rightarrow> i32 \<Rightarrow> ('d, 'a) files_scheme \<Rightarrow> (i32 \<times> ('d, 'a) files_scheme) option" where
  "cluster_loop io l 0 cluster_to_use s = Some (cluster_to_use, s)"
| "cluster_loop io l (Suc k) cluster_to_use s = do {
     (entry, s') \<leftarrow> fat16_get_fat_entry io l cluster_to_use s;
     if entry = 0xFF8 \<or> entry = 0xFFF then Some (- eio, s')
     else if entry = lameos_fat16_bad_sector then Some (- eio, s')
     else if entry = 0xFF0 \<or> entry = 0xFF6 then Some (- eio, s')
     else if entry = 0 then Some (- eio, s')
     else cluster_loop io l k entry s'
   }"

definition size_of_cluster_bytes :: "('d, 'a) files_scheme \<Rightarrow> i32" where
  "size_of_cluster_bytes s =
     ucast (hdr_sectors_per_cluster (phys s) (fs_private (the_disk s))) * sector_size (the_disk s)"

definition fat16_get_cluster_for_offset ::
  "'d ports \<Rightarrow> layout \<Rightarrow> i32 \<Rightarrow> i32 \<Rightarrow> ('d, 'a) files_scheme \<Rightarrow> (i32 \<times> ('d, 'a) files_scheme) option" where
  "fat16_get_cluster_for_offset io l starting_cluster offset s = do {
     clusters_ahead \<leftarrow> int_div offset (size_of_cluster_bytes s);
     cluster_loop io l (nat (sint clusters_ahead)) starting_cluster s
   }"

text \<open>\<open>d\<close> is the depth of the recursion, which selects the stack frame.\<close>

partial_function (option) fat16_read_internal_from_stream ::
  "'d ports \<Rightarrow> layout \<Rightarrow> nat \<Rightarrow> ptr \<Rightarrow> i32 \<Rightarrow> i32 \<Rightarrow> i32 \<Rightarrow> ptr \<Rightarrow> ('d, 'a) files_scheme \<Rightarrow>
   (i32 \<times> ('d, 'a) files_scheme) option" where
  "fat16_read_internal_from_stream io l d stream cluster offset total_bytes out s = do {
     let priv = fs_private (the_disk s);
     let cluster_bytes = size_of_cluster_bytes s;
     (cluster_to_use, s1) \<leftarrow> fat16_get_cluster_for_offset io l cluster offset s;
     if cluster_to_use <s 0 then Some (cluster_to_use, s1)
     else do {
       offset_from_cluster \<leftarrow> int_mod offset cluster_bytes;
       let starting_sector = fat16_cluster_to_sector priv cluster_to_use (phys s1);
       let starting_pos = starting_sector * sector_size (the_disk s1) + offset_from_cluster;
       let total_to_read = (if cluster_bytes <s total_bytes then cluster_bytes else total_bytes);
       let (res, s2) = diskstreamer_seek stream starting_pos s1;
       if res \<noteq> lameos_ok then Some (res, s2)
       else do {
         (res', s3) \<leftarrow> diskstreamer_read io (sector_buffer l (4 + d)) 0 stream out total_to_read s2;
         if res' \<noteq> lameos_ok then Some (res', s3)
         else if 0 <s total_bytes - total_to_read
         then fat16_read_internal_from_stream io l (Suc d) stream cluster (offset + total_to_read)
                (total_bytes - total_to_read) (out + total_to_read) s3
         else Some (res', s3)
       }
     }
   }"

definition fat16_read_internal ::
  "'d ports \<Rightarrow> layout \<Rightarrow> i32 \<Rightarrow> i32 \<Rightarrow> i32 \<Rightarrow> ptr \<Rightarrow> ('d, 'a) files_scheme \<Rightarrow>
   (i32 \<times> ('d, 'a) files_scheme) option" where
  "fat16_read_internal io l starting_cluster offset total_bytes out s =
     fat16_read_internal_from_stream io l 0 (cluster_read_stream (phys s) (fs_private (the_disk s)))
       starting_cluster offset total_bytes out s"

section \<open>Directory entries in memory\<close>

definition fat16_free_directory :: "ptr \<Rightarrow> ('d, 'a) files_scheme \<Rightarrow> ('d, 'a) files_scheme" where
  "fat16_free_directory directory s =
     (if directory = 0 then s
      else
        let item = dir_item (phys s) directory;
            s1 = (if item \<noteq> 0 then kfree item s else s)
        in kfree directory s1)"

definition fat16_fat_item_free :: "ptr \<Rightarrow> ('d, 'a) files_scheme \<Rightarrow> ('d, 'a) files_scheme" where
  "fat16_fat_item_free item s =
     (let s1 = (if fat_item_type (phys s) item = fat_item_type_directory
                then fat16_free_directory (fat_item_ptr (phys s) item) s
                else if fat_item_type (phys s) item = fat_item_type_file
                then kfree (fat_item_ptr (phys s) item) s
                else s)
      in kfree item s1)"

text \<open>On an error the directory is released and its address returned all the same.\<close>

definition fat16_load_fat_directory ::
  "'d ports \<Rightarrow> layout \<Rightarrow> ptr \<Rightarrow> ('d, 'a) files_scheme \<Rightarrow> (ptr \<times> ('d, 'a) files_scheme) option" where
  "fat16_load_fat_directory io l item s =
     (if item_attribute (phys s) item AND fat_file_subdirectory = 0
      then Some (0, fat16_free_directory 0 s)
      else
        let (directory, s1) = kzalloc 16 s
        in if directory = 0 then Some (directory, fat16_free_directory directory s1)
           else do {
             let cluster = fat16_get_first_cluster item (phys s1);
             let cluster_sector = fat16_cluster_to_sector (fs_private (the_disk s)) cluster (phys s1);
             (total_items, s2) \<leftarrow> fat16_get_total_items_for_directory io l cluster_sector s1;
             let s3 = s2\<lparr>phys := store32 (phys s2) (directory + 4) total_items\<rparr>;
             let directory_size = dir_total (phys s3) directory * sizeof_directory_item;
             let (items, s4) = kzalloc directory_size s3;
             let s5 = s4\<lparr>phys := store32 (phys s4) directory items\<rparr>;
             if items = 0 then Some (directory, fat16_free_directory directory s5)
             else do {
               (res, s6) \<leftarrow> fat16_read_internal io l cluster 0 directory_size (dir_item (phys s5) directory) s5;
               Some (directory, if res \<noteq> lameos_ok then fat16_free_directory directory s6 else s6)
             }
           })"

definition fat16_new_fat_item_for_directory_item ::
  "'d ports \<Rightarrow> layout \<Rightarrow> ptr \<Rightarrow> ('d, 'a) files_scheme \<Rightarrow> (ptr \<times> ('d, 'a) files_scheme) option" where
  "fat16_new_fat_item_for_directory_item io l item s =
     (let (f_item, s1) = kzalloc 8 s
      in if f_item = 0 then Some (0, s1)
         else do {
           s2 \<leftarrow> (if item_attribute (phys s1) item AND fat_file_subdirectory \<noteq> 0
             then do {
               (directory, u) \<leftarrow> fat16_load_fat_directory io l item s1;
               let m1 = store32 (phys u) f_item directory;
               Some (u\<lparr>phys := store32 m1 (f_item + 4) fat_item_type_directory\<rparr>)
             }
             else Some s1);
           let s3 = s2\<lparr>phys := store32 (phys s2) (f_item + 4) fat_item_type_file\<rparr>;
           let (copy, s4) = fat16_clone_directory_item item sizeof_directory_item s3;
           Some (f_item, s4\<lparr>phys := store32 (phys s4) f_item copy\<rparr>)
         })"

partial_function (option) find_item_loop ::
  "'d ports \<Rightarrow> layout \<Rightarrow> ptr \<Rightarrow> ptr \<Rightarrow> i32 \<Rightarrow> ptr \<Rightarrow> ('d, 'a) files_scheme \<Rightarrow>
   (ptr \<times> ('d, 'a) files_scheme) option" where
  "find_item_loop io l directory name i f_item s =
     (if i <s dir_total (phys s) directory then do {
        let item = dir_item (phys s) directory + i * sizeof_directory_item;
        m \<leftarrow> fat16_get_full_relative_filename item (name_buffer l) max_path (phys s);
        let s1 = s\<lparr>phys := m\<rparr>;
        (f_item', s2) \<leftarrow>
          (if istrncmp (phys s1) (name_buffer l) name max_path = 0
           then fat16_new_fat_item_for_directory_item io l
                  (dir_item (phys s1) directory + i * sizeof_directory_item) s1
           else Some (f_item, s1));
        find_item_loop io l directory name (i + 1) f_item' s2
      }
      else Some (f_item, s))"

definition fat16_find_item_in_directory ::
  "'d ports \<Rightarrow> layout \<Rightarrow> ptr \<Rightarrow> ptr \<Rightarrow> ('d, 'a) files_scheme \<Rightarrow> (ptr \<times> ('d, 'a) files_scheme) option" where
  "fat16_find_item_in_directory io l directory name s = find_item_loop io l directory name 0 0 s"

partial_function (option) entry_loop ::
  "'d ports \<Rightarrow> layout \<Rightarrow> ptr \<Rightarrow> ptr \<Rightarrow> ('d, 'a) files_scheme \<Rightarrow> (ptr \<times> ('d, 'a) files_scheme) option" where
  "entry_loop io l next_part current_item s =
     (if next_part \<noteq> 0 then
        if fat_item_type (phys s) current_item \<noteq> fat_item_type_directory then Some (0, s)
        else do {
          (tmp_item, s1) \<leftarrow> fat16_find_item_in_directory io l (fat_item_ptr (phys s) current_item)
            (path_part_part (phys s) next_part) s;
          let s2 = fat16_fat_item_free current_item s1;
          entry_loop io l (path_part_next (phys s2) next_part) tmp_item s2
        }
      else Some (current_item, s))"

definition fat16_get_directory_entry ::
  "'d ports \<Rightarrow> layout \<Rightarrow> ptr \<Rightarrow> ('d, 'a) files_scheme \<Rightarrow> (ptr \<times> ('d, 'a) files_scheme) option" where
  "fat16_get_directory_entry io l path s = do {
     (root_item, s1) \<leftarrow> fat16_find_item_in_directory io l (root_directory (fs_private (the_disk s)))
       (path_part_part (phys s) path) s;
     if root_item = 0 then Some (0, s1)
     else entry_loop io l (path_part_next (phys s1) path) root_item s1
   }"

section \<open>File operations\<close>

definition fat16_open ::
  "'d ports \<Rightarrow> layout \<Rightarrow> ptr \<Rightarrow> file_mode \<Rightarrow> ('d, 'a) files_scheme \<Rightarrow> (ptr \<times> ('d, 'a) files_scheme) option" where
  "fat16_open io l path mode s =
     (if mode \<noteq> FILE_MODE_READ then Some (- erdonly, s)
      else
        let (descriptor, s1) = kzalloc 8 s
        in if descriptor = 0 then Some (- enomem, s1)
           else do {
             (item, s2) \<leftarrow> fat16_get_directory_entry io l path s1;
             let s3 = s2\<lparr>phys := store32 (phys s2) descriptor item\<rparr>;
             if item = 0 then Some (- eio, s3)
             else Some (descriptor, s3\<lparr>phys := store32 (phys s3) (descriptor + 4) 0\<rparr>)
           })"

definition fat16_free_file_descriptor :: "ptr \<Rightarrow> ('d, 'a) files_scheme \<Rightarrow> ('d, 'a) files_scheme" where
  "fat16_free_file_descriptor desc s =
     kfree desc (fat16_fat_item_free (fat_desc_item (phys s) desc) s)"

definition fat16_close :: "ptr \<Rightarrow> ('d, 'a) files_scheme \<Rightarrow> i32 \<times> ('d, 'a) files_scheme" where
  "fat16_close priv s = (0, fat16_free_file_descriptor priv s)"

definition fat16_stat :: "ptr \<Rightarrow> ptr \<Rightarrow> ('d, 'a) files_scheme \<Rightarrow> i32 \<times> ('d, 'a) files_scheme" where
  "fat16_stat priv stat s =
     (let desc_item = fat_desc_item (phys s) priv
      in if fat_item_type (phys s) desc_item \<noteq> fat_item_type_file then (- einvarg, s)
         else
           let ritem = fat_item_ptr (phys s) desc_item;
               m1 = store32 (phys s) (stat + 4) (item_filesize (phys s) ritem);
               m2 = store32 m1 stat 0;
               m3 = (if item_attribute m2 ritem AND fat_file_read_only \<noteq> 0
                     then store32 m2 stat (load32 m2 stat OR file_stat_read_only) else m2)
           in (0, s\<lparr>phys := m3\<rparr>))"

text \<open>\<open>for (uint32_t i = 0; i < nmemb; i++)\<close>, with the number of iterations left.\<close>

fun read_members ::
  "'d ports \<Rightarrow> layout \<Rightarrow> ptr \<Rightarrow> u32 \<Rightarrow> nat \<Rightarrow> i32 \<Rightarrow> ptr \<Rightarrow> ('d, 'a) files_scheme \<Rightarrow>
   (i32 option \<times> ('d, 'a) files_scheme) option" where
  "read_members io l item sz 0 offset out s = Some (None, s)"
| "read_members io l item sz (Suc k) offset out s = do {
     (res, s') \<leftarrow> fat16_read_internal io l (fat16_get_first_cluster item (phys s)) offset sz out s;
     if res <s 0 then Some (Some res, s')
     else read_members io l item sz k (offset + sz) (out + sz) s'
   }"

definition fat16_read ::
  "'d ports \<Rightarrow> layout \<Rightarrow> ptr \<Rightarrow> u32 \<Rightarrow> u32 \<Rightarrow> ptr \<Rightarrow> ('d, 'a) files_scheme \<Rightarrow>
   (i32 \<times> ('d, 'a) files_scheme) option" where
  "fat16_read io l descriptor sz nmemb out s = do {
     let item = fat_item_ptr (phys s) (fat_desc_item (phys s) descriptor);
     let offset = fat_desc_pos (phys s) descriptor;
     (err, s') \<leftarrow> read_members io l item sz (unat nmemb) offset out s;
     Some (case err of Some res \<Rightarrow> res | None \<Rightarrow> nmemb, s')
   }"

definition seek_set :: u32 where "seek_set = 0"
definition seek_cur :: u32 where "seek_cur = 1"
definition seek_end :: u32 where "seek_end = 2"

definition fat16_seek :: "ptr \<Rightarrow> u32 \<Rightarrow> u32 \<Rightarrow> ('d, 'a) files_scheme \<Rightarrow> i32 \<times> ('d, 'a) files_scheme" where
  "fat16_seek priv offset seek_mode s =
     (let desc_item = fat_desc_item (phys s) priv
      in if fat_item_type (phys s) desc_item \<noteq> fat_item_type_file then (- einvarg, s)
         else if item_filesize (phys s) (fat_item_ptr (phys s) desc_item) \<le> offset then (- eio, s)
         else if seek_mode = seek_set then (0, s)
         else if seek_mode = seek_end then (- eunimp, s)
         else if seek_mode = seek_cur
         then (0, s\<lparr>phys := store32 (phys s) (priv + 4) (fat_desc_pos (phys s) priv + offset)\<rparr>)
         else (- einvarg, s))"

text \<open>The static object \<open>fat16_fs\<close>.\<close>

definition fat16_fs :: "'d ports \<Rightarrow> layout \<Rightarrow> ('d, 'a) files_scheme filesystem" where
  "fat16_fs io l = \<lparr>
     fs_resolve_op = \<lambda>dsk s. terminating (fat16_resolve io l s),
     fs_open_op = \<lambda>dsk path mode s. terminating (fat16_open io l path mode s),
     fs_read_op = \<lambda>dsk priv sz nmemb out s. terminating (fat16_read io l priv sz nmemb out s),
     fs_seek_op = \<lambda>priv offset whence s. Inr (fat16_seek priv offset whence s),
     fs_stat_op = \<lambda>dsk priv stat s. Inr (fat16_stat priv stat s),
     fs_close_op = \<lambda>priv s. Inr (fat16_close priv s)\<rparr>"

definition kernel_filesystems ::
  "'d ports \<Rightarrow> layout \<Rightarrow> ptr \<rightharpoonup> ('d, 'a) files_scheme filesystem" where
  "kernel_filesystems io l = [fat16_fs_addr l \<mapsto> fat16_fs io l]"

end
