(* ===== verification/Gdt.thy ===== *)
theory Gdt
  imports Terminal
begin

text \<open>
  \<open>src/gdt/gdt.c\<close>: encoding of segment descriptors. A descriptor is eight bytes of physical
  memory; the functions \<open>gdt_base\<close>, \<open>gdt_limit\<close> and \<open>gdt_type\<close> read one back the way the
  processor does, and the encoder is a right inverse of them.
\<close>

record gdt_structured =
  seg_base :: u32
  seg_limit :: u32
  seg_type :: u8

section \<open>Operations\<close>

definition encodeGdtEntry ::
  "ptr \<Rightarrow> gdt_structured \<Rightarrow> 'a terminal_scheme \<Rightarrow> halt + 'a terminal_scheme" where
  "encodeGdtEntry target source s =
     (if 65536 < seg_limit source \<and> seg_limit source AND 0xFFF \<noteq> 0xFFF
      then panic (''encodeGdtEntry: Invalid argument.'' @ [CHR 0x0A]) s
      else
        let m0 = (phys s)(target + 6 := 0x40);
            (lim, m1) = (if 65536 < seg_limit source
              then (drop_bit 12 (seg_limit source), m0(target + 6 := 0xC0))
              else (seg_limit source, m0));
            m2 = m1(target := ucast (lim AND 0xFF), target + 1 := ucast (drop_bit 8 lim AND 0xFF));
            m3 = m2(target + 6 := m2 (target + 6) OR ucast (drop_bit 16 lim AND 0x0F));
            m4 = m3(target + 2 := ucast (seg_base source AND 0xFF),
                    target + 3 := ucast (drop_bit 8 (seg_base source) AND 0xFF),
                    target + 4 := ucast (drop_bit 16 (seg_base source) AND 0xFF),
                    target + 7 := ucast (drop_bit 24 (seg_base source) AND 0xFF));
            m5 = m4(target + 5 := seg_type source)
        in Inr (s\<lparr>phys := m5\<rparr>))"

text \<open>\<open>sizeof (struct gdt)\<close> is 8.\<close>

definition gdt_structured_to_gdt ::
  "ptr \<Rightarrow> gdt_structured list \<Rightarrow> i32 \<Rightarrow> 'a terminal_scheme \<Rightarrow> halt + 'a terminal_scheme" where
  "gdt_structured_to_gdt gdt structured_gdt total_entries s =
     fold (\<lambda>i r. and_then r (encodeGdtEntry (gdt + 8 * of_nat i) (structured_gdt ! i)))
       [0..<nat (sint total_entries)] (Inr s)"

text \<open>The table of \<open>kernel.c\<close>; \<open>tss\<close> is the address of the task state segment, of 100 bytes.\<close>

definition kernel_gdt :: "ptr \<Rightarrow> gdt_structured list" where
  "kernel_gdt tss =
    [\<lparr>seg_base = 0x00, seg_limit = 0x00, seg_type = 0x00\<rparr>,
     \<lparr>seg_base = 0x00, seg_limit = 0xFFFFFFFF, seg_type = 0x9A\<rparr>,
     \<lparr>seg_base = 0x00, seg_limit = 0xFFFFFFFF, seg_type = 0x92\<rparr>,
     \<lparr>seg_base = 0x00, seg_limit = 0xFFFFFFFF, seg_type = 0xF8\<rparr>,
     \<lparr>seg_base = 0x00, seg_limit = 0xFFFFFFFF, seg_type = 0xF2\<rparr>,
     \<lparr>seg_base = tss, seg_limit = 100, seg_type = 0xE9\<rparr>]"

section \<open>Reading a descriptor\<close>

definition gdt_base :: "mem \<Rightarrow> ptr \<Rightarrow> u32" where
  "gdt_base m p = ucast (m (p + 2)) OR push_bit 8 (ucast (m (p + 3)))
     OR push_bit 16 (ucast (m (p + 4))) OR push_bit 24 (ucast (m (p + 7)))"

definition gdt_raw_limit :: "mem \<Rightarrow> ptr \<Rightarrow> u32" where
  "gdt_raw_limit m p = ucast (m p) OR push_bit 8 (ucast (m (p + 1)))
     OR push_bit 16 (ucast (m (p + 6) AND 0x0F))"

text \<open>With the granularity bit the limit counts pages.\<close>

definition gdt_limit :: "mem \<Rightarrow> ptr \<Rightarrow> u32" where
  "gdt_limit m p = (if bit (m (p + 6)) 7 then push_bit 12 (gdt_raw_limit m p) OR 0xFFF
     else gdt_raw_limit m p)"

definition gdt_type :: "mem \<Rightarrow> ptr \<Rightarrow> u8" where
  "gdt_type m p = m (p + 5)"

lemma ucast_and_FF: "(ucast (v AND 0xFF) :: u8) = ucast v" for v :: u32
proof (rule bit_word_eqI)
  fix n assume "n < LENGTH(8)"
  then have "n \<in> set [0..<8]" by simp
  then show "bit (ucast (v AND 0xFF) :: u8) n = bit (ucast v :: u8) n"
    by (auto simp: bit_simps upt_rec)
qed

lemma base_join:
  "(ucast (ucast v :: u8) :: u32) OR push_bit 8 (ucast (ucast (drop_bit 8 v) :: u8))
     OR push_bit 16 (ucast (ucast (drop_bit 16 v) :: u8))
     OR push_bit 24 (ucast (ucast (drop_bit 24 v) :: u8)) = v"
  by (rule bytes_join32)

lemma low_nibble:
  "(0x40 OR ucast (v AND 0x0F)) AND 0x0F = (ucast (v AND 0x0F) :: u8)"
  "(0xC0 OR ucast (v AND 0x0F)) AND 0x0F = (ucast (v AND 0x0F) :: u8)"
  "bit (0xC0 OR ucast (v AND 0x0F) :: u8) 7" "\<not> bit (0x40 OR ucast (v AND 0x0F) :: u8) 7"
  for v :: u32
proof -
  have all: "n \<in> {0, 1, 2, 3, 4, 5, 6, 7}" if "n < LENGTH(8)" for n :: nat
    using that by auto
  show "(0x40 OR ucast (v AND 0x0F)) AND 0x0F = (ucast (v AND 0x0F) :: u8)"
    by (rule bit_word_eqI, drule all) (auto simp: bit_simps)
  show "(0xC0 OR ucast (v AND 0x0F)) AND 0x0F = (ucast (v AND 0x0F) :: u8)"
    by (rule bit_word_eqI, drule all) (auto simp: bit_simps)
qed (simp_all add: bit_simps)

lemma bit_FFFFF: "bit (0xFFFFF :: int) n \<longleftrightarrow> n < 20"
proof -
  have "(0xFFFFF :: int) = mask 20" by (simp add: mask_eq_exp_minus_1)
  then show ?thesis by (simp only: bit_mask_iff) auto
qed

lemma bit_F: "bit (0xF :: int) n \<longleftrightarrow> n < 4"
proof -
  have "(0xF :: int) = mask 4" by (simp add: mask_eq_exp_minus_1)
  then show ?thesis by (simp only: bit_mask_iff) auto
qed

lemma limit_join:
  "(ucast (ucast v :: u8) :: u32) OR push_bit 8 (ucast (ucast (drop_bit 8 v) :: u8))
     OR push_bit 16 (ucast (ucast (drop_bit 16 v AND 0x0F) :: u8)) = v AND 0xFFFFF" for v :: u32
proof (rule bit_word_eqI)
  fix n assume "n < LENGTH(32)"
  then consider "n < 8" | "8 \<le> n" "n < 16" | "16 \<le> n" "n < 20" | "20 \<le> n" "n < 32"
    by force
  then show "bit ((ucast (ucast v :: u8) :: u32) OR push_bit 8 (ucast (ucast (drop_bit 8 v) :: u8))
      OR push_bit 16 (ucast (ucast (drop_bit 16 v AND 0x0F) :: u8))) n = bit (v AND 0xFFFFF) n"
    by cases (auto simp add: bit_simps bit_FFFFF bit_F)
qed

lemma limit_20: "v \<le> 65536 \<Longrightarrow> v AND 0xFFFFF = v" for v :: u32
proof -
  assume "v \<le> 65536"
  then have "v mod 2 ^ 20 = v"
    by (simp add: word_unat_eq_iff unat_mod_distrib word_le_nat_alt)
  moreover have "v AND 0xFFFFF = take_bit 20 v"
    by (simp add: take_bit_eq_mask mask_eq_exp_minus_1)
  ultimately show ?thesis by (simp only: take_bit_eq_mod)
qed

lemma limit_pages: "v AND 0xFFF = 0xFFF \<Longrightarrow> push_bit 12 (drop_bit 12 v AND 0xFFFFF) OR 0xFFF = v"
  for v :: u32
proof -
  assume low: "v AND 0xFFF = 0xFFF"
  have "push_bit 12 (drop_bit 12 v AND 0xFFFFF) OR 0xFFF =
      push_bit 12 (drop_bit 12 v AND 0xFFFFF) OR (v AND 0xFFF)" by (simp only: low)
  also have "\<dots> = v"
    by (rule bit_word_eqI) (auto simp: bit_simps bit_FFF bit_FFFFF bit_FFFFF000)
  finally show ?thesis .
qed

text \<open>The eight bytes written, for a limit field \<open>lim\<close> and granularity flags \<open>fl\<close>.\<close>

definition desc_mem :: "ptr \<Rightarrow> gdt_structured \<Rightarrow> u32 \<Rightarrow> u8 \<Rightarrow> mem \<Rightarrow> mem" where
  "desc_mem p e lim fl m = m(p := ucast lim, p + 1 := ucast (drop_bit 8 lim),
     p + 2 := ucast (seg_base e), p + 3 := ucast (drop_bit 8 (seg_base e)),
     p + 4 := ucast (drop_bit 16 (seg_base e)), p + 5 := seg_type e,
     p + 6 := fl OR ucast (drop_bit 16 lim AND 0x0F), p + 7 := ucast (drop_bit 24 (seg_base e)))"

lemma encodeGdtEntry_bytes:
  "65536 < seg_limit e \<Longrightarrow> seg_limit e AND 0xFFF = 0xFFF \<Longrightarrow>
   encodeGdtEntry p e s = Inr (s\<lparr>phys := desc_mem p e (drop_bit 12 (seg_limit e)) 0xC0 (phys s)\<rparr>)"
  "\<not> 65536 < seg_limit e \<Longrightarrow>
   encodeGdtEntry p e s = Inr (s\<lparr>phys := desc_mem p e (seg_limit e) 0x40 (phys s)\<rparr>)"
  by (simp_all add: encodeGdtEntry_def Let_def ucast_and_FF desc_mem_def fun_upd_twist)

lemma desc_mem_read:
  "gdt_base (desc_mem p e lim fl m) p = seg_base e"
  "gdt_type (desc_mem p e lim fl m) p = seg_type e"
  "(fl OR ucast (drop_bit 16 lim AND 0x0F)) AND 0x0F = (ucast (drop_bit 16 lim AND 0x0F) :: u8) \<Longrightarrow>
   gdt_raw_limit (desc_mem p e lim fl m) p = lim AND 0xFFFFF"
  "desc_mem p e lim fl m (p + 6) = fl OR ucast (drop_bit 16 lim AND 0x0F)"
  "\<not> in_region p 8 x \<Longrightarrow> desc_mem p e lim fl m x = m x"
  by (auto simp: desc_mem_def gdt_base_def gdt_type_def gdt_raw_limit_def base_join limit_join
      in_region_def word_less_nat_alt)

lemma encodeGdtEntry_ok:
  assumes "seg_limit e \<le> 65536 \<or> seg_limit e AND 0xFFF = 0xFFF"
  shows "\<exists>m. encodeGdtEntry p e s = Inr (s\<lparr>phys := m\<rparr>) \<and>
    gdt_base m p = seg_base e \<and> gdt_limit m p = seg_limit e \<and> gdt_type m p = seg_type e \<and>
    (\<forall>x. \<not> in_region p 8 x \<longrightarrow> m x = phys s x)"
proof (cases "65536 < seg_limit e")
  case True
  then have "seg_limit e AND 0xFFF = 0xFFF" using assms by auto
  with True limit_pages [OF this] show ?thesis
    by (intro exI conjI) (rule encodeGdtEntry_bytes, simp_all add: gdt_limit_def desc_mem_read low_nibble)
next
  case False
  then have "seg_limit e \<le> 65536" by simp
  from limit_20 [OF this] False show ?thesis
    by (intro exI conjI) (rule encodeGdtEntry_bytes, simp_all add: gdt_limit_def desc_mem_read low_nibble)
qed

lemma encodeGdtEntry_panics:
  "65536 < seg_limit e \<Longrightarrow> seg_limit e AND 0xFFF \<noteq> 0xFFF \<Longrightarrow>
   encodeGdtEntry p e s = Inl (Panic (''encodeGdtEntry: Invalid argument.'' @ [CHR 0x0A]))"
  by (simp add: encodeGdtEntry_def panic_def)

section \<open>The table\<close>

text \<open>The eight bytes at \<open>p\<close> are a descriptor of \<open>e\<close>.\<close>

definition describes :: "mem \<Rightarrow> ptr \<Rightarrow> gdt_structured \<Rightarrow> bool" where
  "describes m p e \<longleftrightarrow>
     gdt_base m p = seg_base e \<and> gdt_limit m p = seg_limit e \<and> gdt_type m p = seg_type e"

definition encodable :: "gdt_structured \<Rightarrow> bool" where
  "encodable e \<longleftrightarrow> seg_limit e \<le> 65536 \<or> seg_limit e AND 0xFFF = 0xFFF"

lemma describes_cong:
  "(\<And>x. in_region p 8 x \<Longrightarrow> m x = m' x) \<Longrightarrow> describes m p e \<longleftrightarrow> describes m' p e"
proof -
  assume "\<And>x. in_region p 8 x \<Longrightarrow> m x = m' x"
  then have "m p = m' p" "m (p + 1) = m' (p + 1)" "m (p + 2) = m' (p + 2)" "m (p + 3) = m' (p + 3)"
    "m (p + 4) = m' (p + 4)" "m (p + 5) = m' (p + 5)" "m (p + 6) = m' (p + 6)" "m (p + 7) = m' (p + 7)"
    by (simp_all add: in_region_def)
  then show ?thesis
    by (simp add: describes_def gdt_base_def gdt_limit_def gdt_raw_limit_def gdt_type_def)
qed

lemma gdt_loop:
  assumes "\<forall>i < n. encodable (sg ! i)" and "n < 2 ^ 28"
  shows "k \<le> n \<Longrightarrow> \<exists>m. fold (\<lambda>i r. and_then r (encodeGdtEntry (gdt + 8 * of_nat i) (sg ! i))) [0..<k] (Inr s) =
      Inr (s\<lparr>phys := m\<rparr>) \<and> (\<forall>i < k. describes m (gdt + 8 * of_nat i) (sg ! i)) \<and>
      (\<forall>x. \<not> in_region gdt (of_nat (8 * k)) x \<longrightarrow> m x = phys s x)"
proof (induction k)
  case 0
  have "s = s\<lparr>phys := phys s\<rparr>" by simp
  then show ?case by (intro exI [of _ "phys s"]) simp
next
  case (Suc k)
  then obtain m where m: "fold (\<lambda>i r. and_then r (encodeGdtEntry (gdt + 8 * of_nat i) (sg ! i))) [0..<k] (Inr s) =
      Inr (s\<lparr>phys := m\<rparr>)" and old: "\<forall>i < k. describes m (gdt + 8 * of_nat i) (sg ! i)"
    and out: "\<And>x. \<not> in_region gdt (of_nat (8 * k)) x \<Longrightarrow> m x = phys s x"
    by auto
  let ?p = "gdt + 8 * of_nat k"
  have k: "k < n" using Suc.prems by simp
  with assms(1) have "encodable (sg ! k)" by blast
  then obtain m' where m': "encodeGdtEntry ?p (sg ! k) (s\<lparr>phys := m\<rparr>) = Inr (s\<lparr>phys := m'\<rparr>)"
    and new: "describes m' ?p (sg ! k)" and keep: "\<And>x. \<not> in_region ?p 8 x \<Longrightarrow> m' x = m x"
    using encodeGdtEntry_ok [of "sg ! k" ?p "s\<lparr>phys := m\<rparr>"] by (auto simp: describes_def encodable_def)
  have "describes m' (gdt + 8 * of_nat i) (sg ! i)" if "i < k" for i
  proof -
    have "apart (gdt + of_nat (8 * k)) (of_nat 8) (gdt + of_nat (8 * i)) (of_nat 8)"
      using that k assms(2) by (intro apart_offsets) auto
    then have "m' x = m x" if "in_region (gdt + 8 * of_nat i) 8 x" for x
      using keep apart_not_in that by simp
    with old \<open>i < k\<close> show ?thesis using describes_cong by blast
  qed
  moreover have "m' x = phys s x" if "\<not> in_region gdt (of_nat (8 * Suc k)) x" for x
  proof -
    have u: "unat (of_nat (8 * k) :: u32) = 8 * k" "unat (of_nat (8 * Suc k) :: u32) = 8 * Suc k"
      using k assms(2) by (intro unat_of_nat_u32; simp)+
    have ge: "8 * Suc k \<le> unat (x - gdt)"
      using that u by (simp add: in_region_def word_less_nat_alt del: of_nat_mult of_nat_Suc)
    have sub: "unat (y - of_nat (8 * k)) = unat y - 8 * k" if "8 * k \<le> unat y" for y :: u32
      using that u(1) by (simp add: unat_sub_if' del: of_nat_mult)
    have "x - ?p = (x - gdt) - of_nat (8 * k)" by simp
    then have "unat (x - ?p) = unat (x - gdt) - 8 * k"
      using sub [of "x - gdt"] ge by (simp only: mult_Suc_right)
    then have "\<not> in_region ?p 8 x" using ge by (simp add: in_region_def word_less_nat_alt)
    moreover have "\<not> in_region gdt (of_nat (8 * k)) x"
      using ge u by (simp add: in_region_def word_less_nat_alt del: of_nat_mult)
    ultimately show ?thesis using keep out by simp
  qed
  ultimately show ?case
    using m m' new by (intro exI [of _ m']) (auto simp: less_Suc_eq)
qed

section \<open>Properties\<close>

text \<open>C23. \<open>encodeGdtEntry\<close> panics exactly on a limit above 64 KiB that is not the last byte of a
  page; otherwise the eight bytes it writes read back as the base, limit and type it was
  given, and no other byte changes.\<close>

theorem encodeGdtEntry_correct:
  "(\<not> encodable e \<longrightarrow>
      encodeGdtEntry p e s = Inl (Panic (''encodeGdtEntry: Invalid argument.'' @ [CHR 0x0A]))) \<and>
   (encodable e \<longrightarrow> (\<exists>m. encodeGdtEntry p e s = Inr (s\<lparr>phys := m\<rparr>) \<and> describes m p e \<and>
      (\<forall>x. \<not> in_region p 8 x \<longrightarrow> m x = phys s x)))"
  using encodeGdtEntry_panics [of e p s] encodeGdtEntry_ok [of e p s]
  by (auto simp: encodable_def describes_def)

theorem encodeGdtEntry_correct_witness:
  "\<exists>m. encodeGdtEntry 0x9000 (kernel_gdt 0 ! 1) sample_screen = Inr (sample_screen\<lparr>phys := m\<rparr>) \<and>
     describes m 0x9000 (kernel_gdt 0 ! 1)"
proof -
  have "encodable (kernel_gdt 0 ! 1)" by (simp add: encodable_def kernel_gdt_def)
  with encodeGdtEntry_correct [of "kernel_gdt 0 ! 1" "0x9000" sample_screen] show ?thesis by blast
qed

text \<open>The boot-time conversion of the kernel's six segments never panics: wherever the task
  state segment lies, the descriptors in memory read back as the structured table, and
  only the 48 bytes of the table change.\<close>

theorem kernel_gdt_encoded:
  "\<exists>m. gdt_structured_to_gdt gdt (kernel_gdt tss) 6 s = Inr (s\<lparr>phys := m\<rparr>) \<and>
     list_all (\<lambda>i. describes m (gdt + 8 * of_nat i) (kernel_gdt tss ! i)) [0..<6] \<and>
     {x. m x \<noteq> phys s x} \<subseteq> {x. in_region gdt 48 x}"
proof -
  have "list_all encodable (kernel_gdt tss)" and "length (kernel_gdt tss) = 6"
    by (simp_all add: kernel_gdt_def encodable_def)
  then have "\<forall>i < 6. encodable (kernel_gdt tss ! i)" by (simp add: list_all_length)
  from gdt_loop [OF this, of 6 gdt s] obtain m where
    "fold (\<lambda>i r. and_then r (encodeGdtEntry (gdt + 8 * of_nat i) (kernel_gdt tss ! i))) [0..<6] (Inr s) =
      Inr (s\<lparr>phys := m\<rparr>)" "\<forall>i < 6. describes m (gdt + 8 * of_nat i) (kernel_gdt tss ! i)"
    "\<forall>x. \<not> in_region gdt 48 x \<longrightarrow> m x = phys s x" by auto
  then show ?thesis
    by (intro exI [of _ m]) (auto simp: gdt_structured_to_gdt_def list_all_iff)
qed

end
