(* ===== verification/Kernel.thy ===== *)
theory Kernel
  imports Interrupt Fat16 Gdt
begin

text \<open>
  \<open>kernel_main\<close> of \<open>src/kernel.c\<close>, with \<open>gdt_load\<close> and \<open>tss_load\<close>: the order in which the
  components are brought up, to the first instruction of the first task. The task state
  segment and the segment table are arrays of memory at addresses chosen by the linker.
\<close>

record 'd kernel = "'d interrupts" +
  gdtr :: "u16 \<times> ptr"
  task_register :: u16

record image =
  im_layout :: layout
  im_idt :: idt_layout
  im_process :: process_frame
  tss_addr :: ptr
  gdt_real_addr :: ptr
  blank_bin :: ptr          \<comment> \<open>the constant \<open>"0:/blank.bin"\<close>\<close>

definition lameos_total_gdt_segments :: i32 where "lameos_total_gdt_segments = 6"
definition sizeof_tss :: u32 where "sizeof_tss = 100"
definition kernel_data_selector :: u32 where "kernel_data_selector = 0x10"

definition gdt_load :: "ptr \<Rightarrow> i32 \<Rightarrow> ('d, 'a) kernel_scheme \<Rightarrow> ('d, 'a) kernel_scheme" where
  "gdt_load gdt sz s = s\<lparr>gdtr := (ucast sz, gdt)\<rparr>"

definition tss_load :: "i32 \<Rightarrow> ('d, 'a) kernel_scheme \<Rightarrow> ('d, 'a) kernel_scheme" where
  "tss_load tss_segment s = s\<lparr>task_register := ucast tss_segment\<rparr>"

text \<open>From the heap to the disk, and from the interrupt table to the paging of the kernel.\<close>

definition setup_tss :: "ptr \<Rightarrow> mem \<Rightarrow> mem" where
  "setup_tss tss m = store32 (store32 (memset tss 0 sizeof_tss m) (tss + 4) 0x600000) (tss + 8) kernel_data_selector"

definition setup_paging :: "('d, 'a) kernel_scheme \<Rightarrow> ('d, 'a) kernel_scheme" where
  "setup_paging s =
     (let (chunk, s1) = paging_new_4gb
            (ucast (paging_is_writeable OR paging_is_present OR paging_access_from_all)) s;
          s2 = s1\<lparr>kernel_chunk := chunk\<rparr>
      in enable_paging (paging_switch (kernel_chunk s2) s2))"

definition kernel_main ::
  "'d ports \<Rightarrow> image \<Rightarrow> u32 \<Rightarrow> u32 \<Rightarrow> ('d, 'a) kernel_scheme \<Rightarrow> halt + registers \<times> ('d, 'a) kernel_scheme" where
  "kernel_main io im kesp kflags s =
     (let fss = kernel_filesystems io (im_layout im);
          s1 = term_initialize s;
          s2 = print_literal (''Welcome to LameOS!'' @ [CHR 0x0A, CHR 0x0A] @ ''--> '') s1;
          s3 = s2\<lparr>phys := memset (gdt_real_addr im) 0 48 (phys s2)\<rparr>
      in and_then (gdt_structured_to_gdt (gdt_real_addr im) (kernel_gdt (tss_addr im))
                     lameos_total_gdt_segments s3) (\<lambda>s4.
         and_then (fs_init (im_layout im) (kheap_init (gdt_load (gdt_real_addr im) 48 s4))) (\<lambda>s5.
         and_then (disk_search_and_init io fss s5) (\<lambda>s6.
           let s7 = idt_init (im_idt im) s6;
               s8 = tss_load 0x28 (s7\<lparr>phys := setup_tss (tss_addr im) (phys s7)\<rparr>);
               s9 = setup_paging s8
           in and_then (isr80h_register_commands s9) (\<lambda>s10.
              and_then (process_load io (im_process im) fss (blank_bin im) 0 s10) (\<lambda>(res, process, s11).
                if res \<noteq> lameos_ok then Inl (Panic (''Failed to load blank.bin!'' @ [CHR 0x0A]))
                else task_run_first_ever_task kesp kflags s11))))))"

section \<open>Properties\<close>

lemma setup_flags: "bit (ucast (paging_is_writeable OR paging_is_present OR paging_access_from_all) :: u8) 0"
  by (simp add: bit_simps paging_is_writeable_def paging_is_present_def paging_access_from_all_def)

lemma setup_paging_state:
  assumes "kheap_inv s" and "1026 \<le> kheap_pages s"
  obtains m chunk dir ts where "setup_paging s = s\<lparr>phys := m, kernel_chunk := chunk, cr3 := load32 m chunk,
      current_directory := load32 m chunk, cr0 := cr0 s OR 0x80000000\<rparr>"
    and "kheap_inv (setup_paging s)" and "kheap_pages (setup_paging s) + 1026 = kheap_pages s"
    and "kheap_live s \<subseteq> kheap_live (setup_paging s)" and "\<And>r. free_run (r + 1026) s \<Longrightarrow> free_run r (setup_paging s)"
    and "\<And>x. kheap_stable s x \<Longrightarrow> m x = phys s x" and "\<And>va. translate (load32 m chunk) m va = Some va"
    and "space_built s (ucast (paging_is_writeable OR paging_is_present OR paging_access_from_all)) chunk dir ts (s\<lparr>phys := m\<rparr>)"
proof -
  let ?f = "ucast (paging_is_writeable OR paging_is_present OR paging_access_from_all) :: u8"
  obtain chunk dir ts s' where new: "paging_new_4gb ?f s = (chunk, s')" and built: "space_built s ?f chunk dir ts s'"
    using paging_new_4gb_built [OF assms, of ?f] by blast
  have dir: "load32 (phys s') chunk = dir" and live: "kheap_inv s'" "kheap_pages s' + 1026 = kheap_pages s"
    "kheap_live s \<subseteq> kheap_live s'" "\<forall>r. free_run (r + 1026) s \<longrightarrow> free_run r s'" "\<forall>x. kheap_stable s x \<longrightarrow> phys s' x = phys s x"
    using built by (auto simp: space_built_def)
  obtain m where m: "s' = s\<lparr>phys := m\<rparr>" using paging_new_4gb_memory [OF new] by (auto simp: memory_only_def)
  have eq: "setup_paging s = s\<lparr>phys := m, kernel_chunk := chunk, cr3 := load32 m chunk,
      current_directory := load32 m chunk, cr0 := cr0 s OR 0x80000000\<rparr>"
    by (simp add: setup_paging_def new m paging_switch_def paging_load_directory_def enable_paging_def Let_def)
  then have kc: "kernel_heap (setup_paging s) = kernel_heap s'" "phys (setup_paging s) = phys s'" by (simp_all add: m)
  then have h: "kheap_inv (setup_paging s) = kheap_inv s'" "kchunks (setup_paging s) = kchunks s'"
    by (simp_all add: kheap_inv_def kchunks_def)
  then have l: "kheap_live (setup_paging s) = kheap_live s'" by (simp add: kheap_live_def)
  show thesis
    by (rule that [OF eq])
       (use h l live m dir free_run_cong [OF l] space_built_identity [OF built setup_flags] built in \<open>simp_all add: kheap_pages_def\<close>)
qed

text \<open>When 1026 pages are free, \<open>setup_paging\<close> turns paging on in a new address space that is the
  identity: every virtual address leads to the same physical one, so the kernel's code, stack and
  data stay where they are. The control registers hold the new directory and the paging bit, the
  heap invariant is kept and no live block has changed.\<close>

theorem setup_paging_identity:
  assumes "kheap_inv s" and "1026 \<le> kheap_pages s"
  shows "cr0 (setup_paging s) = cr0 s OR 0x80000000 \<and>
    cr3 (setup_paging s) = load32 (phys (setup_paging s)) (kernel_chunk (setup_paging s)) \<and>
    (\<forall>va. translate (cr3 (setup_paging s)) (phys (setup_paging s)) va = Some va) \<and>
    kheap_inv (setup_paging s) \<and> kheap_pages (setup_paging s) + 1026 = kheap_pages s \<and>
    (\<forall>q l x. (q, l) \<in> kheap_live s \<longrightarrow> in_region q l x \<longrightarrow> phys (setup_paging s) x = phys s x)"
proof -
  obtain m chunk and dir :: ptr and ts where p: "setup_paging s = s\<lparr>phys := m, kernel_chunk := chunk, cr3 := load32 m chunk,
      current_directory := load32 m chunk, cr0 := cr0 s OR 0x80000000\<rparr>"
    "kheap_inv (setup_paging s)" "kheap_pages (setup_paging s) + 1026 = kheap_pages s"
    "\<And>x. kheap_stable s x \<Longrightarrow> m x = phys s x" "\<And>va. translate (load32 m chunk) m va = Some va"
    by (rule setup_paging_state [OF assms]) (rule that; assumption)
  show ?thesis using p(2,3) p(4) [OF stable_live [OF assms(1)]] p(5) by (simp add: p(1))
qed

definition boot_kernel :: "sample_device kernel" where
  "boot_kernel = kheap.extend (kheap_init cold_kernel)
     \<lparr>current_directory = 0, cr0 = 0x11, cr3 = 0, device = \<lparr>s_regs = \<lambda>_. 0, s_pending = [], s_polls = 0\<rparr>,
      the_disk = \<lparr>disk_type = 0, sector_size = 512, disk_id = 0, disk_filesystem = 0, fs_private = 0\<rparr>,
      filesystems = replicate 12 0, file_descriptors = replicate 512 0, data_segments = 0x10,
      kernel_chunk = 0, current_task = 0, task_tail = 0, task_head = 0,
      current_process = 0, processes = replicate 12 0, idtr = (0, 0), isr80h_commands = replicate 1024 None,
      gdtr = (0, 0), task_register = 0\<rparr>"

lemma boot_kernel_heap: "kheap_inv boot_kernel" "kheap_pages boot_kernel = 25600"
  using kheap_init_state [of cold_kernel] by (simp_all add: boot_kernel_def kheap_extend)

theorem setup_paging_identity_witness:
  "translate (cr3 (setup_paging boot_kernel)) (phys (setup_paging boot_kernel)) 0x100123 = Some 0x100123"
proof -
  have "1026 \<le> kheap_pages boot_kernel" by (simp add: boot_kernel_heap(2))
  from setup_paging_identity [OF boot_kernel_heap(1) this] show ?thesis by blast
qed

end
