(* ===== verification/Fat16Read.thy ===== *)
theory Fat16Read
  imports Fat16
begin

text \<open>
  Reading files through the FAT16 driver: the file allocation table as the driver reads it, the
  chain of clusters it follows, and \<open>fat16_read\<close> on a mounted volume over an ATA disk.
\<close>

section \<open>Regions\<close>

fun all_apart :: "(ptr \<times> u32) list \<Rightarrow> bool" where
  "all_apart [] = True"
| "all_apart ((a, n) # rs) = (list_all (\<lambda>(b, k). apart a n b k) rs \<and> all_apart rs)"

text \<open>The regions of a mounted volume: its private struct, two streams and the buffer for entries.\<close>

definition fat_regions :: "layout \<Rightarrow> ptr \<Rightarrow> ptr \<Rightarrow> ptr \<Rightarrow> (ptr \<times> u32) list" where
  "fat_regions l p cs fs = [(p, 92), (cs, 8), (fs, 8), (entry_buffer l, 2)]"

definition fat_layout :: "layout \<Rightarrow> ptr \<Rightarrow> ptr \<Rightarrow> ptr \<Rightarrow> bool" where
  "fat_layout l p cs fs \<longleftrightarrow> all_apart (fat_regions l p cs fs) \<and>
     (\<forall>d k. list_all (\<lambda>(b, n). apart (sector_buffer l d k) 512 b n) (fat_regions l p cs fs))"

text \<open>What reads through the streams may change besides the output.\<close>

definition fat_scratch :: "layout \<Rightarrow> ptr \<Rightarrow> ptr \<Rightarrow> ptr \<Rightarrow> bool" where
  "fat_scratch l cs fs x \<longleftrightarrow> in_region cs 4 x \<or> in_region fs 4 x \<or> in_region (entry_buffer l) 2 x \<or>
     (\<exists>d k. in_region (sector_buffer l d k) 512 x)"

section \<open>A mounted volume\<close>

text \<open>What the header and the root directory say of the volume: \<open>spc\<close> sectors per cluster,
  \<open>r\<close> reserved sectors, and the sector \<open>e\<close> where the first cluster lies.\<close>

definition fat_volume ::
  "'d ports \<Rightarrow> nat \<Rightarrow> nat \<Rightarrow> nat \<Rightarrow> ptr \<Rightarrow> ptr \<Rightarrow> ptr \<Rightarrow> ('d, 'a) files_scheme \<Rightarrow> bool" where
  "fat_volume io spc r e p cs fs s \<longleftrightarrow>
     sector_size (the_disk s) = 512 \<and> fs_private (the_disk s) = p \<and> 0 < spc \<and>
     unat (hdr_sectors_per_cluster (phys s) p) = spc \<and> unat (hdr_reserved_sectors (phys s) p) = r \<and>
     dir_ending_sector_pos (phys s) (root_directory p) = of_nat e \<and>
     cluster_read_stream (phys s) p = cs \<and> fat_read_stream (phys s) p = fs \<and> fs \<noteq> 0 \<and>
     load32 (phys s) (cs + 4) = disk_addr io \<and> load32 (phys s) (fs + 4) = disk_addr io"

text \<open>The bytes the volume is read from are no scratch.\<close>

definition volume_bytes :: "ptr \<Rightarrow> ptr \<Rightarrow> ptr \<Rightarrow> ptr \<Rightarrow> bool" where
  "volume_bytes p cs fs x \<longleftrightarrow> in_region p 92 x \<or> in_region (cs + 4) 4 x \<or> in_region (fs + 4) 4 x"

lemma stream_words:
  "in_region q 4 x \<Longrightarrow> in_region q 8 x" "in_region (q + 4) 4 x \<Longrightarrow> in_region q 8 x"
  "in_region q 4 x \<Longrightarrow> \<not> in_region (q + 4) 4 x"
  using field_in_struct [of 0 8 q x] field_in_struct [of 4 8 q x] apart_not_in [OF offsets_apart [of 4 0 q]]
  by simp_all

lemma volume_bytes_no_scratch:
  assumes "fat_layout l p cs fs" and "volume_bytes p cs fs x"
  shows "\<not> fat_scratch l cs fs x"
proof -
  have ap: "apart p 92 cs 8" "apart p 92 fs 8" "apart p 92 (entry_buffer l) 2" "apart cs 8 fs 8"
    "apart cs 8 (entry_buffer l) 2" "apart fs 8 (entry_buffer l) 2"
    "apart (sector_buffer l d k) 512 p 92" "apart (sector_buffer l d k) 512 cs 8"
    "apart (sector_buffer l d k) 512 fs 8" for d k
    using assms(1) by (simp_all add: fat_layout_def fat_regions_def)
  have "in_region p 92 x \<Longrightarrow> \<not> fat_scratch l cs fs x"
    using ap(1-3,7) apart_not_in apart_not_in2 stream_words(1) unfolding fat_scratch_def by blast
  moreover have "in_region (cs + 4) 4 x \<Longrightarrow> \<not> fat_scratch l cs fs x"
    using ap(4,5,8) apart_not_in apart_not_in2 stream_words unfolding fat_scratch_def by blast
  moreover have "in_region (fs + 4) 4 x \<Longrightarrow> \<not> fat_scratch l cs fs x"
    using ap(4,6,9) apart_not_in apart_not_in2 stream_words unfolding fat_scratch_def by blast
  ultimately show ?thesis using assms(2) by (auto simp: volume_bytes_def)
qed

lemma in_region_byte: "unat f < unat n \<Longrightarrow> in_region p n (p + f)"
  by (simp add: in_region_def word_less_nat_alt)

lemma fat_volume_changed:
  assumes "fat_volume io spc r e p cs fs s" and "the_disk s' = the_disk s"
    and "\<And>x. volume_bytes p cs fs x \<Longrightarrow> phys s' x = phys s x"
  shows "fat_volume io spc r e p cs fs s'"
proof -
  have b: "phys s' (p + f) = phys s (p + f)" if "unat f < 92" for f
    using that in_region_byte [of f 92 p] by (intro assms(3)) (simp add: volume_bytes_def)
  have w: "load32 (phys s') (p + f) = load32 (phys s) (p + f)" if "unat f + 4 \<le> 92" for f
    by (rule load32_struct [of _ 92]) (use that assms(3) in \<open>auto simp: volume_bytes_def\<close>)
  have "load16 (phys s') (p + 14) = load16 (phys s) (p + 14)"
    using b [of 14] b [of 15] by (simp add: load16_def add.assoc)
  moreover have "load32 (phys s') (cs + 4) = load32 (phys s) (cs + 4)" "load32 (phys s') (fs + 4) = load32 (phys s) (fs + 4)"
    using assms(3) by (auto intro!: load32_cong simp: volume_bytes_def)
  ultimately show ?thesis
    using assms(1,2) b [of 13] w [of 76] w [of 80] w [of 84]
    by (simp add: fat_volume_def hdr_sectors_per_cluster_def hdr_reserved_sectors_def dir_ending_sector_pos_def
        root_directory_def cluster_read_stream_def fat_read_stream_def add.assoc)
qed

section \<open>Reading through a stream\<close>

lemma seek_read:
  assumes dev: "ata io regs pending polls img"
    and q: "q = cs \<or> q = fs" "load32 (phys s) (q + 4) = disk_addr io"
    and pos: "pos + n < 2 ^ 31" "pos mod 512 = 0 \<or> pos mod 512 + n \<le> 512"
    and sep: "read_apart (sector_buffer l d) q out n"
  obtains s' where
    "diskstreamer_read io (sector_buffer l d) k q out (of_nat n)
       (s\<lparr>phys := store32 (phys s) q (of_nat pos)\<rparr>) = Some (0, s')"
    and "changed_only (\<lambda>x. fat_scratch l cs fs x \<or> in_region out (of_nat n) x) s s'"
    and "\<And>i. i < n \<Longrightarrow> phys s' (out + of_nat i) = img (pos + i)"
proof -
  let ?s = "s\<lparr>phys := store32 (phys s) q (of_nat pos)\<rparr>"
  have "load32 (phys ?s) (q + 4) = disk_addr io"
    using load32_store32_apart [OF offsets_apart [of 0 4 q]] q(2) by simp
  moreover have "load32 (phys ?s) q = of_nat pos" by simp
  ultimately obtain s' where s': "diskstreamer_read io (sector_buffer l d) k q out (of_nat n) ?s = Some (0, s')"
    "\<forall>i < n. phys s' (out + of_nat i) = img (pos + i)"
    "s' = ?s\<lparr>device := device s', phys := phys s'\<rparr>"
    "\<forall>x. \<not> in_region out (of_nat n) x \<and> \<not> in_region q 4 x \<and> (\<forall>j. \<not> in_region (sector_buffer l d j) 512 x) \<longrightarrow>
       phys s' x = phys ?s x"
    using read_exact [OF dev _ _ pos sep] by blast
  have "changed_only (\<lambda>x. fat_scratch l cs fs x \<or> in_region out (of_nat n) x) s s'"
  proof (rule changed_onlyI [where d = "device s'" and m = "phys s'"])
    show "s' = s\<lparr>device := device s', phys := phys s'\<rparr>" by (subst s'(3)) simp
    fix x assume "\<not> (fat_scratch l cs fs x \<or> in_region out (of_nat n) x)"
    then have "\<not> in_region out (of_nat n) x" "\<not> in_region q 4 x" "\<And>j. \<not> in_region (sector_buffer l d j) 512 x"
      using q(1) by (auto simp: fat_scratch_def)
    then show "phys s' x = phys s x" using s'(4) by (simp add: store32_other)
  qed
  with s'(1,2) show thesis by (intro that) blast+
qed

section \<open>The file allocation table\<close>

text \<open>The byte of the disk where the driver looks for the entry of cluster \<open>c\<close> - the start of the
  table times the offset of the entry, not plus - and the entry it finds.\<close>

definition fat_entry_pos :: "nat \<Rightarrow> nat \<Rightarrow> nat" where
  "fat_entry_pos r c = (512 * r) * (2 * c)"

definition fat_entry :: "(nat \<Rightarrow> u8) \<Rightarrow> nat \<Rightarrow> nat \<Rightarrow> nat" where
  "fat_entry img r c = unat (img (fat_entry_pos r c)) + 256 * unat (img (fat_entry_pos r c + 1))"

lemma load16_value: "unat (load16 m a) = unat (m a) + 256 * unat (m (a + 1))"
proof -
  have "load16 m a = ucast (m a) + push_bit 8 (ucast (m (a + 1)))"
    unfolding load16_def by (rule disjunctive_add [symmetric]) (auto simp: bit_simps dest: bit_imp_le_length)
  moreover have "unat (m a) < 256" "unat (m (a + 1)) < 256"
    using unsigned_less [of "m a", where 'a = nat] unsigned_less [of "m (a + 1)", where 'a = nat] by simp_all
  ultimately show ?thesis
    by (simp add: push_bit_eq_mult unat_word_ariths unsigned_ucast_eq take_bit_nat_eq_self)
qed

lemma unat_up16: "unat (ucast w :: u32) = unat w" for w :: u16
proof -
  have "unat w < 2 ^ 16" using unsigned_less [of w, where 'a = nat] by simp
  then show ?thesis by (simp add: unsigned_ucast_eq take_bit_nat_eq_self)
qed

lemma unat_up8: "unat (ucast w :: u32) = unat w" for w :: u8
proof -
  have "unat w < 2 ^ 8" using unsigned_less [of w, where 'a = nat] by simp
  then show ?thesis by (simp add: unsigned_ucast_eq take_bit_nat_eq_self)
qed

lemma even_below: "even a \<Longrightarrow> a < 512 \<Longrightarrow> a + 2 \<le> 512" for a :: nat
  by presburger

lemma fat_entry_read:
  assumes dev: "ata io regs pending polls img" and lay: "fat_layout l p cs fs"
    and vol: "fat_volume io spc r e p cs fs s" and pos: "fat_entry_pos r c + 2 < 2 ^ 31"
  obtains s' where "fat16_get_fat_entry io l (of_nat c) s = Some (of_nat (fat_entry img r c), s')"
    and "changed_only (fat_scratch l cs fs) s s'"
proof -
  let ?P = "fat_entry_pos r c"
  have v: "fs_private (the_disk s) = p" "fat_read_stream (phys s) p = fs" "fs \<noteq> 0" "sector_size (the_disk s) = 512"
    "load32 (phys s) (fs + 4) = disk_addr io" "unat (hdr_reserved_sectors (phys s) p) = r"
    using vol by (simp_all add: fat_volume_def)
  have "(ucast (hdr_reserved_sectors (phys s) p) :: u32) = of_nat r"
    using v(6) by (intro unat_eq_of_nat) (simp add: unat_up16)
  then have at: "ucast (hdr_reserved_sectors (phys s) p) * 512 * (of_nat c * 2) = (of_nat ?P :: u32)"
    by (simp add: fat_entry_pos_def algebra_simps)
  let ?s = "s\<lparr>phys := store32 (phys s) fs (of_nat ?P)\<rparr>"
  define s2 where "s2 = ?s\<lparr>phys := store16 (phys ?s) (entry_buffer l) 0\<rparr>"
  have ap: "apart fs 8 (entry_buffer l) 2" "apart (sector_buffer l 3 k) 512 fs 8"
    "apart (sector_buffer l 3 k) 512 (entry_buffer l) 2" for k
    using lay by (simp_all add: fat_layout_def fat_regions_def)
  have out: "\<not> in_region (entry_buffer l) 2 x" if "in_region fs 8 x" for x
    using that ap(1) apart_not_in2 by blast
  have fs: "load32 (phys s2) fs = of_nat ?P" "load32 (phys s2) (fs + 4) = disk_addr io"
  proof -
    have ph: "phys s2 = store16 (phys ?s) (entry_buffer l) 0" by (simp add: s2_def)
    have "load32 (phys s2) fs = load32 (phys ?s) fs" "load32 (phys s2) (fs + 4) = load32 (phys ?s) (fs + 4)"
      unfolding ph by (rule load32_cong, rule store16_other, rule out, erule stream_words)+
    then show "load32 (phys s2) fs = of_nat ?P" "load32 (phys s2) (fs + 4) = disk_addr io"
      using load32_store32_apart [OF offsets_apart [of 0 4 fs]] v(5) by simp_all
  qed
  have ra: "read_apart (sector_buffer l 3) fs (entry_buffer l) 2"
    using ap by (simp add: read_apart_def)
  have "?P mod 512 + 2 \<le> 512" by (rule even_below) (simp_all add: fat_entry_pos_def dvd_mod)
  then obtain s' where s': "diskstreamer_read io (sector_buffer l 3) 0 fs (entry_buffer l) (of_nat 2) s2 = Some (0, s')"
    "\<forall>i < 2. phys s' (entry_buffer l + of_nat i) = img (?P + i)"
    "s' = s2\<lparr>device := device s', phys := phys s'\<rparr>"
    "\<forall>x. \<not> in_region (entry_buffer l) (of_nat 2) x \<and> \<not> in_region fs 4 x \<and> (\<forall>j. \<not> in_region (sector_buffer l 3 j) 512 x) \<longrightarrow>
       phys s' x = phys s2 x"
    using read_exact [OF dev fs(2,1) pos _ ra, of 0] by blast
  have "unat (load16 (phys s') (entry_buffer l)) = fat_entry img r c"
    using s'(2) [rule_format, of 0] s'(2) [rule_format, of 1] by (simp add: load16_value fat_entry_def)
  then have val: "ucast (load16 (phys s') (entry_buffer l)) = (of_nat (fat_entry img r c) :: u32)"
    by (intro unat_eq_of_nat) (simp add: unat_up16)
  show thesis
  proof (rule that)
    show "fat16_get_fat_entry io l (of_nat c) s = Some (of_nat (fat_entry img r c), s')"
      using s'(1) by (simp add: fat16_get_fat_entry_def v Let_def diskstreamer_seek_def fat16_get_first_fat_sector_def
          lameos_fat16_fat_entry_size_def at s2_def val)
    show "changed_only (fat_scratch l cs fs) s s'"
    proof (rule changed_onlyI [where d = "device s'" and m = "phys s'"])
      show "s' = s\<lparr>device := device s', phys := phys s'\<rparr>" by (subst s'(3)) (simp add: s2_def)
      fix x assume "\<not> fat_scratch l cs fs x"
      then have "\<not> in_region (entry_buffer l) 2 x" "\<not> in_region fs 4 x" "\<And>j. \<not> in_region (sector_buffer l 3 j) 512 x"
        by (auto simp: fat_scratch_def)
      then show "phys s' x = phys s x" using s'(4) by (simp add: s2_def store16_other store32_other)
    qed
  qed
qed

section \<open>The chain of clusters\<close>

text \<open>The cluster \<open>k\<close> steps along the chain from \<open>c\<close>; \<open>None\<close> where the driver gives up, at one of the
  six values it takes for an end, or leaves the \<open>2 ^ 31\<close> bytes a stream can address.\<close>

fun cluster_at :: "(nat \<Rightarrow> u8) \<Rightarrow> nat \<Rightarrow> nat \<Rightarrow> nat \<Rightarrow> nat option" where
  "cluster_at img r c 0 = Some c"
| "cluster_at img r c (Suc k) =
     (if 2 ^ 31 \<le> fat_entry_pos r c + 2 \<or> fat_entry img r c \<in> {0, 0xFF0, 0xFF6, 0xFF7, 0xFF8, 0xFFF} then None
      else cluster_at img r (fat_entry img r c) k)"

lemma fat_volume_kept:
  assumes "fat_layout l p cs fs" and "fat_volume io spc r e p cs fs s"
    and "changed_only w s s'" and "\<And>x. w x \<Longrightarrow> \<not> fat_scratch l cs fs x \<Longrightarrow> \<not> volume_bytes p cs fs x"
  shows "fat_volume io spc r e p cs fs s'"
proof (rule fat_volume_changed [OF assms(2) changed_only_disk [OF assms(3)]])
  show "phys s' x = phys s x" if "volume_bytes p cs fs x" for x
    using changed_only_same [OF assms(3)] assms(4) that volume_bytes_no_scratch [OF assms(1) that] by blast
qed

lemma fat_entry_less: "fat_entry img r c < 65536"
proof -
  have "unat w < 256" for w :: u8 using unsigned_less [of w, where 'a = nat] by simp
  from this [of "img (fat_entry_pos r c)"] this [of "img (fat_entry_pos r c + 1)"]
  show ?thesis by (simp add: fat_entry_def)
qed

lemma fat_entry_eq:
  "(of_nat (fat_entry img r c) :: u32) = of_nat v \<longleftrightarrow> fat_entry img r c = v" if "v < 65536"
  by (rule of_nat_word_inj) (use that fat_entry_less [of img r c] in simp_all)

lemma cluster_loop_chain:
  assumes dev: "ata io regs pending polls img" and lay: "fat_layout l p cs fs"
  shows "fat_volume io spc r e p cs fs s \<Longrightarrow> cluster_at img r c k = Some c' \<Longrightarrow>
    \<exists>s'. cluster_loop io l k (of_nat c) s = Some (of_nat c', s') \<and> changed_only (fat_scratch l cs fs) s s'"
proof (induction k arbitrary: c s)
  case 0
  then show ?case by (auto intro: changed_onlyI [where d = "device s" and m = "phys s"])
next
  case (Suc k)
  have pos: "fat_entry_pos r c + 2 < 2 ^ 31" and ok: "fat_entry img r c \<notin> {0, 0xFF0, 0xFF6, 0xFF7, 0xFF8, 0xFFF}"
    and rest: "cluster_at img r (fat_entry img r c) k = Some c'"
    using Suc.prems(2) by (auto split: if_splits)
  obtain s1 where s1: "fat16_get_fat_entry io l (of_nat c) s = Some (of_nat (fat_entry img r c), s1)"
    "changed_only (fat_scratch l cs fs) s s1"
    by (rule fat_entry_read [OF dev lay Suc.prems(1) pos])
  have "fat_volume io spc r e p cs fs s1" by (rule fat_volume_kept [OF lay Suc.prems(1) s1(2)]) simp
  from Suc.IH [OF this rest] obtain s' where s': "cluster_loop io l k (of_nat (fat_entry img r c)) s1 = Some (of_nat c', s')"
    "changed_only (fat_scratch l cs fs) s1 s'" by blast
  have "(of_nat (fat_entry img r c) :: u32) \<notin> {0, 0xFF0, 0xFF6, 0xFF7, 0xFF8, 0xFFF}"
    using ok fat_entry_eq [of 0] fat_entry_eq [of "0xFF0"] fat_entry_eq [of "0xFF6"] fat_entry_eq [of "0xFF7"]
      fat_entry_eq [of "0xFF8"] fat_entry_eq [of "0xFFF"] by simp
  then show ?case
    using s1(1) s'(1) changed_only_trans [OF s1(2) s'(2)] by (simp add: lameos_fat16_bad_sector_def)
qed

lemma of_nat_divmod:
  assumes "a < 2 ^ 31" and "b < 2 ^ 31" and "0 < b"
  shows "int_div (of_nat a) (of_nat b) = Some (of_nat (a div b))"
    and "int_mod (of_nat a) (of_nat b) = Some (of_nat (a mod b))"
proof -
  have "int a sdiv int b = int (a div b)" "int a smod int b = int (a mod b)"
    using assms(3) by (simp_all add: signed_divide_int_def signed_modulo_int_def sgn_if zdiv_int zmod_int minus_mult_div_eq_mod)
  moreover have "(of_nat b :: u32) \<noteq> 0" using assms(2,3) of_nat_word_inj [of b 0] by simp
  ultimately show "int_div (of_nat a) (of_nat b) = Some (of_nat (a div b))"
    and "int_mod (of_nat a) (of_nat b) = Some (of_nat (a mod b))"
    using assms(1,2) by (simp_all add: int_div_def int_mod_def sint_of_nat_u32)
qed

section \<open>The bytes of a file\<close>

text \<open>Where on the disk the driver takes byte \<open>j\<close> of a read at offset \<open>off\<close> of the file that starts at
  cluster \<open>c\<close>. Each piece of a cluster's length starts at the same offset in its cluster.\<close>

definition file_pos :: "(nat \<Rightarrow> u8) \<Rightarrow> nat \<Rightarrow> nat \<Rightarrow> nat \<Rightarrow> nat \<Rightarrow> nat \<Rightarrow> nat \<Rightarrow> nat option" where
  "file_pos img spc r e c off j =
     (case cluster_at img r c (off div (512 * spc) + j div (512 * spc)) of None \<Rightarrow> None
      | Some c' \<Rightarrow>
          let q = 512 * (e + (c' - 2) * spc) + off mod (512 * spc) + j mod (512 * spc)
          in if c' < 2 \<or> 2 ^ 31 \<le> q + 1 then None else Some q)"

section \<open>Files as the format has them\<close>

text \<open>The specification of FAT16, apart from the driver: the entry of a cluster in the table, the clusters of a
  file in order, and the place of byte \<open>k\<close> of a file on the disk. The table starts at sector \<open>r\<close>, cluster
  2 at sector \<open>e\<close>; entries from \<open>0xFFF0\<close> on and below 2 end a chain.\<close>

definition table_entry :: "(nat \<Rightarrow> u8) \<Rightarrow> nat \<Rightarrow> nat \<Rightarrow> nat" where
  "table_entry img r c = unat (img (512 * r + 2 * c)) + 256 * unat (img (512 * r + 2 * c + 1))"

fun file_cluster :: "(nat \<Rightarrow> u8) \<Rightarrow> nat \<Rightarrow> nat \<Rightarrow> nat \<Rightarrow> nat option" where
  "file_cluster img r c 0 = Some c"
| "file_cluster img r c (Suc k) =
     (let c' = table_entry img r c in if c' < 2 \<or> 0xFFF0 \<le> c' then None else file_cluster img r c' k)"

definition file_byte :: "(nat \<Rightarrow> u8) \<Rightarrow> nat \<Rightarrow> nat \<Rightarrow> nat \<Rightarrow> nat \<Rightarrow> nat \<Rightarrow> u8 option" where
  "file_byte img spc r e c k = map_option (\<lambda>c'. img (512 * (e + (c' - 2) * spc) + k mod (512 * spc)))
     (file_cluster img r c (k div (512 * spc)))"

text \<open>The driver agrees with the format within the first cluster, where it does not use the table. Its end must
  be among the bytes a stream can address.\<close>

definition first_cluster_ok :: "nat \<Rightarrow> nat \<Rightarrow> nat \<Rightarrow> bool" where
  "first_cluster_ok spc e c \<longleftrightarrow> 2 \<le> c \<and> 512 * (e + (c - 1) * spc) < 2 ^ 31"

lemma first_cluster_pos:
  assumes "first_cluster_ok spc e c" and "off + j < 512 * spc"
  shows "file_pos img spc r e c off j = Some (512 * (e + (c - 2) * spc) + off + j)"
    and "file_byte img spc r e c (off + j) = Some (img (512 * (e + (c - 2) * spc) + off + j))"
proof -
  obtain b where c: "c = b + 2" using assms(1) by (metis first_cluster_ok_def le_Suc_ex add.commute)
  have "512 * (e + (b + 1) * spc) < 2 ^ 31" using assms(1) by (simp add: first_cluster_ok_def c)
  then have "512 * (e + b * spc) + 512 * spc < 2 ^ 31" by (simp add: algebra_simps)
  then have "512 * (e + b * spc) + off + j + 1 < 2 ^ 31" using assms(2) by linarith
  then show "file_pos img spc r e c off j = Some (512 * (e + (c - 2) * spc) + off + j)"
    using assms(2) by (simp add: file_pos_def c Let_def)
  show "file_byte img spc r e c (off + j) = Some (img (512 * (e + (c - 2) * spc) + off + j))"
    using assms(2) by (simp add: file_byte_def add.assoc)
qed

definition fat_output :: "layout \<Rightarrow> ptr \<Rightarrow> ptr \<Rightarrow> ptr \<Rightarrow> ptr \<Rightarrow> nat \<Rightarrow> bool" where
  "fat_output l p cs fs out n \<longleftrightarrow>
     list_all (\<lambda>(b, k). apart b k out (of_nat n)) (fat_regions l p cs fs) \<and>
     (\<forall>d k. apart (sector_buffer l d k) 512 out (of_nat n))"

lemma fat_output_read_apart:
  "fat_layout l p cs fs \<Longrightarrow> fat_output l p cs fs out n \<Longrightarrow> read_apart (sector_buffer l d) cs out n"
  by (simp add: fat_layout_def fat_output_def fat_regions_def read_apart_def)

lemma fat_output_bytes:
  assumes "fat_output l p cs fs out n" and "in_region out (of_nat n) x"
  shows "\<not> fat_scratch l cs fs x" and "\<not> volume_bytes p cs fs x"
  using assms apart_not_in stream_words
  unfolding fat_output_def fat_regions_def fat_scratch_def volume_bytes_def by simp_all blast+

lemma fat_output_part:
  assumes "fat_output l p cs fs out n" and "k \<le> n" and "n < 2 ^ 31"
  shows "fat_output l p cs fs out k" and "k < n \<Longrightarrow> fat_output l p cs fs (out + of_nat k) (n - k)"
  using assms apart_prefix [of _ _ out n k] apart_suffix [of _ _ out n k]
  by (simp_all add: fat_output_def fat_regions_def del: of_nat_diff)

lemma hdr_cluster_bytes:
  assumes "fat_volume io spc r e p cs fs s"
  shows "size_of_cluster_bytes s = of_nat (512 * spc)" and "spc < 256"
    and "ucast (hdr_sectors_per_cluster (phys s) p) = (of_nat spc :: u32)"
proof -
  have v: "unat (hdr_sectors_per_cluster (phys s) p) = spc" "fs_private (the_disk s) = p" "sector_size (the_disk s) = 512"
    using assms by (simp_all add: fat_volume_def)
  show u: "ucast (hdr_sectors_per_cluster (phys s) p) = (of_nat spc :: u32)"
    using v(1) by (intro unat_eq_of_nat) (simp add: unat_up8)
  show "spc < 256" using v(1) unsigned_less [of "hdr_sectors_per_cluster (phys s) p", where 'a = nat] by simp
  show "size_of_cluster_bytes s = of_nat (512 * spc)" by (simp add: size_of_cluster_bytes_def v u)
qed

text \<open>One piece: the chain is followed from the first cluster, then one cluster's length is read.\<close>

lemma read_piece:
  assumes dev: "ata io regs pending polls img" and lay: "fat_layout l p cs fs"
    and vol: "fat_volume io spc r e p cs fs s" and out: "fat_output l p cs fs out n"
    and n: "0 < n" "n \<le> 512 * spc" "off < 2 ^ 31" and al: "off mod 512 = 0 \<or> off mod 512 + n \<le> 512"
    and chain: "\<forall>j < n. file_pos img spc r e c off j \<noteq> None"
  obtains c' s1 s' where "fat16_get_cluster_for_offset io l (of_nat c) (of_nat off) s = Some (of_nat c', s1)"
    and "\<not> (of_nat c' :: i32) <s 0" and "the_disk s1 = the_disk s"
    and "diskstreamer_read io (sector_buffer l d) 0 cs out (of_nat n)
       (s1\<lparr>phys := store32 (phys s1) cs (fat16_cluster_to_sector p (of_nat c') (phys s1) * 512 + of_nat (off mod (512 * spc)))\<rparr>) =
       Some (0, s')"
    and "changed_only (\<lambda>x. fat_scratch l cs fs x \<or> in_region out (of_nat n) x) s s'"
    and "\<And>j. j < n \<Longrightarrow> phys s' (out + of_nat j) = img (the (file_pos img spc r e c off j))"
proof -
  let ?C = "512 * spc"
  have C: "0 < spc" "?C < 2 ^ 31" using vol hdr_cluster_bytes(2) [OF vol] by (simp_all add: fat_volume_def)
  obtain c' where c': "cluster_at img r c (off div ?C) = Some c'" "2 \<le> c'"
  proof -
    have "file_pos img spc r e c off 0 \<noteq> None" using chain n(1) by blast
    then show thesis using that by (auto simp: file_pos_def Let_def not_less split: option.splits if_splits)
  qed
  define q where "q = 512 * (e + (c' - 2) * spc) + off mod ?C"
  have pos: "file_pos img spc r e c off j = Some (q + j) \<and> q + j + 1 < 2 ^ 31" if "j < n" for j
    using chain that n(2) c' by (auto simp: file_pos_def Let_def q_def split: if_splits)
  have q: "q + n < 2 ^ 31" using pos [of "n - 1"] n(1) by simp
  have lt: "c' < 2 ^ 31"
  proof -
    have "c' - 2 \<le> (c' - 2) * spc" using C(1) by (cases spc) auto
    moreover have "512 * ((c' - 2) * spc) \<le> q" by (simp add: q_def)
    moreover have "q < 2147483648" using q by simp
    ultimately have "c' < 2147483648" by linarith
    then show ?thesis by simp
  qed
  have v: "cluster_read_stream (phys s) p = cs" "dir_ending_sector_pos (phys s) (root_directory p) = of_nat e"
    using vol by (simp_all add: fat_volume_def)
  obtain s1 where s1: "cluster_loop io l (off div ?C) (of_nat c) s = Some (of_nat c', s1)"
    "changed_only (fat_scratch l cs fs) s s1"
    using cluster_loop_chain [OF dev lay vol c'(1)] by blast
  have vol1: "fat_volume io spc r e p cs fs s1" by (rule fat_volume_kept [OF lay vol s1(2)]) simp
  have "off div ?C < 2 ^ 31" using n(3) by (simp add: le_less_trans [OF div_le_dividend])
  then have get: "fat16_get_cluster_for_offset io l (of_nat c) (of_nat off) s = Some (of_nat c', s1)"
    using of_nat_divmod(1) [of off ?C] n(3) C s1(1)
    by (simp add: fat16_get_cluster_for_offset_def hdr_cluster_bytes(1) [OF vol] sint_of_nat_u32)
  have start: "fat16_cluster_to_sector p (of_nat c') (phys s1) * 512 + of_nat (off mod ?C) = (of_nat q :: u32)"
  proof -
    obtain b where "c' = b + 2" using c'(2) by (metis add.commute le_Suc_ex)
    then show ?thesis
      using vol1 hdr_cluster_bytes(3) [OF vol1]
      by (simp add: fat16_cluster_to_sector_def fat_volume_def q_def algebra_simps)
  qed
  have al': "q mod 512 = 0 \<or> q mod 512 + n \<le> 512"
  proof -
    have "q mod 512 = off mod ?C mod 512" by (simp add: q_def add.assoc)
    also have "\<dots> = off mod 512" by (simp add: mod_mod_cancel)
    finally show ?thesis using al by simp
  qed
  have "load32 (phys s1) (cs + 4) = disk_addr io" using vol1 by (simp add: fat_volume_def)
  from seek_read [where cs = cs and fs = fs and k = 0, OF dev disjI1 [OF refl] this q al' fat_output_read_apart [OF lay out]]
  obtain s' where s': "diskstreamer_read io (sector_buffer l d) 0 cs out (of_nat n) (s1\<lparr>phys := store32 (phys s1) cs (of_nat q)\<rparr>) = Some (0, s')"
    "changed_only (\<lambda>x. fat_scratch l cs fs x \<or> in_region out (of_nat n) x) s1 s'"
    "\<And>i. i < n \<Longrightarrow> phys s' (out + of_nat i) = img (q + i)" by blast
  show thesis
  proof (rule that [OF get _ changed_only_disk [OF s1(2)], unfolded start, OF _ s'(1)])
    show "\<not> (of_nat c' :: i32) <s 0" using lt by (simp add: word_sless_alt sint_of_nat_u32)
    show "changed_only (\<lambda>x. fat_scratch l cs fs x \<or> in_region out (of_nat n) x) s s'"
      by (rule changed_only_trans [OF changed_only_mono [OF s1(2)] s'(2)]) simp
    show "phys s' (out + of_nat j) = img (the (file_pos img spc r e c off j))" if "j < n" for j
      using s'(3) [OF that] pos [OF that] by simp
  qed
qed

lemma read_unfold_piece:
  assumes "fat_volume io spc r e p cs fs s" and "n < 2 ^ 31" and "off < 2 ^ 31"
    and "fat16_get_cluster_for_offset io l (of_nat c) (of_nat off) s = Some (of_nat c', s1)"
    and "\<not> (of_nat c' :: i32) <s 0" and "the_disk s1 = the_disk s"
    and "diskstreamer_read io (sector_buffer l (4 + d)) 0 cs out (of_nat (min n (512 * spc)))
       (s1\<lparr>phys := store32 (phys s1) cs (fat16_cluster_to_sector p (of_nat c') (phys s1) * 512 + of_nat (off mod (512 * spc)))\<rparr>) =
       Some (0, s')"
  shows "fat16_read_internal_from_stream io l d cs (of_nat c) (of_nat off) (of_nat n) out s =
    (if 512 * spc < n
     then fat16_read_internal_from_stream io l (Suc d) cs (of_nat c) (of_nat (off + 512 * spc))
            (of_nat (n - 512 * spc)) (out + of_nat (512 * spc)) s'
     else Some (0, s'))"
proof -
  have v: "fs_private (the_disk s) = p" "sector_size (the_disk s1) = 512" "0 < spc"
    using assms(1,6) by (simp_all add: fat_volume_def)
  have C: "512 * spc < 2 ^ 31" using hdr_cluster_bytes(2) [OF assms(1)] by simp
  have lt: "(of_nat (512 * spc) :: i32) <s of_nat n \<longleftrightarrow> 512 * spc < n"
    unfolding word_sless_alt sint_of_nat_u32 [OF C] sint_of_nat_u32 [OF assms(2)] by (rule of_nat_less_iff)
  have min: "(if (of_nat (512 * spc) :: i32) <s of_nat n then of_nat (512 * spc) else of_nat n) = (of_nat (min n (512 * spc)) :: i32)"
    unfolding lt by (simp add: min_def)
  have diff: "(of_nat n :: i32) - of_nat (min n (512 * spc)) = of_nat (n - min n (512 * spc))"
    by (rule of_nat_diff [symmetric]) simp
  have left: "(0 :: i32) <s of_nat (n - min n (512 * spc)) \<longleftrightarrow> 512 * spc < n"
    using assms(2) sint_of_nat_u32 [of "n - min n (512 * spc)"] by (simp add: word_sless_alt min_def del: of_nat_diff)
  have m: "int_mod (of_nat off) (of_nat (512 * spc)) = Some (of_nat (off mod (512 * spc)))"
    using of_nat_divmod(2) [OF assms(3) C] v(3) by simp
  show ?thesis
    unfolding fat16_read_internal_from_stream.simps [of io l d cs "of_nat c"] Let_def v(1) hdr_cluster_bytes(1) [OF assms(1)]
      assms(4) option.simps Option.bind.simps prod.simps if_not_P [OF assms(5)] m min diff left v(2) diskstreamer_seek_def
    using assms(7) by (simp add: lameos_ok_def del: of_nat_diff of_nat_mult)
qed

lemma file_pos_next:
  assumes "0 < spc"
  shows "file_pos img spc r e c (off + 512 * spc) j = file_pos img spc r e c off (j + 512 * spc)"
proof -
  have "(a + k) div k = Suc (a div k)" "(a + k) mod k = a mod k" if "0 < k" for a k :: nat
    using that by (simp_all add: div_add_self2)
  from this [of "512 * spc" off] this [of "512 * spc" j] assms show ?thesis
    unfolding file_pos_def by (simp only: nat_0_less_mult_iff zero_less_numeral simp_thms add_Suc add_Suc_right)
qed

lemma read_internal_chain:
  assumes dev: "ata io regs pending polls img" and lay: "fat_layout l p cs fs"
  shows "\<lbrakk> fat_volume io spc r e p cs fs s; fat_output l p cs fs out n; 0 < n; off + n < 2 ^ 31;
      off mod 512 = 0 \<or> off mod 512 + n \<le> 512; \<forall>j < n. file_pos img spc r e c off j \<noteq> None \<rbrakk> \<Longrightarrow>
    \<exists>s'. fat16_read_internal_from_stream io l d cs (of_nat c) (of_nat off) (of_nat n) out s = Some (0, s') \<and>
      changed_only (\<lambda>x. fat_scratch l cs fs x \<or> in_region out (of_nat n) x) s s' \<and>
      (\<forall>j < n. phys s' (out + of_nat j) = img (the (file_pos img spc r e c off j)))"
proof (induction n arbitrary: d off out s rule: less_induct)
  case (less n)
  let ?C = "512 * spc" and ?w = "\<lambda>out n x. fat_scratch l cs fs x \<or> in_region out (of_nat n) x"
  note vol = less.prems(1)
  have C: "0 < spc" "?C < 2 ^ 31" using vol hdr_cluster_bytes(2) [OF vol] by (simp_all add: fat_volume_def)
  have bound: "n < 2 ^ 31" "off < 2 ^ 31" using less.prems(4) by simp_all
  let ?k = "min n ?C"
  have k: "0 < ?k" "?k \<le> ?C" "?k \<le> n" using less.prems(3) C(1) by simp_all
  have al: "off mod 512 = 0 \<or> off mod 512 + ?k \<le> 512" using less.prems(5) by auto
  have out1: "fat_output l p cs fs out ?k" by (rule fat_output_part(1) [OF less.prems(2) k(3) bound(1)])
  have "\<forall>j < ?k. file_pos img spc r e c off j \<noteq> None" using less.prems(6) by simp
  from read_piece [where d = "4 + d", OF dev lay vol out1 k(1,2) bound(2) al this] obtain c' s1 s' where
    get: "fat16_get_cluster_for_offset io l (of_nat c) (of_nat off) s = Some (of_nat c', s1)"
      "\<not> (of_nat c' :: i32) <s 0" "the_disk s1 = the_disk s"
    and rd: "diskstreamer_read io (sector_buffer l (4 + d)) 0 cs out (of_nat ?k)
       (s1\<lparr>phys := store32 (phys s1) cs (fat16_cluster_to_sector p (of_nat c') (phys s1) * 512 + of_nat (off mod ?C))\<rparr>) =
       Some (0, s')"
    and ch: "changed_only (?w out ?k) s s'"
    and bytes: "\<And>j. j < ?k \<Longrightarrow> phys s' (out + of_nat j) = img (the (file_pos img spc r e c off j))" by blast
  note step = read_unfold_piece [OF vol bound get rd]
  show ?case
  proof (cases "?C < n")
    case False
    then have "?k = n" by simp
    then show ?thesis using step False ch bytes by auto
  next
    case True
    then have kC: "?k = ?C" by simp
    have vol': "fat_volume io spc r e p cs fs s'"
      by (rule fat_volume_kept [OF lay vol ch]) (use fat_output_bytes(2) [OF out1] in blast)
    have "512 < n" using True C(1) by (cases spc) auto
    then have al': "(off + ?C) mod 512 = 0 \<or> (off + ?C) mod 512 + (n - ?C) \<le> 512"
      using less.prems(5) by auto
    have out2: "fat_output l p cs fs (out + of_nat ?C) (n - ?C)"
      by (rule fat_output_part(2) [OF less.prems(2) less_imp_le [OF True] bound(1) True])
    have chain': "\<forall>j < n - ?C. file_pos img spc r e c (off + ?C) j \<noteq> None"
      using less.prems(6) by (simp add: file_pos_next [OF C(1)])
    have "n - ?C < n" "0 < n - ?C" "off + ?C + (n - ?C) < 2 ^ 31" using True C(1) less.prems(4) by simp_all
    from less.IH [OF this(1) vol' out2 this(2,3) al' chain', of "Suc d"] obtain s'' where
      rd': "fat16_read_internal_from_stream io l (Suc d) cs (of_nat c) (of_nat (off + ?C)) (of_nat (n - ?C))
        (out + of_nat ?C) s' = Some (0, s'')"
      and ch': "changed_only (?w (out + of_nat ?C) (n - ?C)) s' s''"
      and bytes': "\<forall>j < n - ?C. phys s'' (out + of_nat ?C + of_nat j) = img (the (file_pos img spc r e c (off + ?C) j))"
      by blast
    note sub = sub_region [OF less_imp_le [OF True] bound(1), of out]
    have "changed_only (?w out n) s s''"
      by (rule changed_only_trans [OF changed_only_mono [OF ch] changed_only_mono [OF ch']])
         (use sub kC in \<open>auto simp del: of_nat_diff of_nat_mult\<close>)
    moreover have "phys s'' (out + of_nat j) = img (the (file_pos img spc r e c off j))" if j: "j < n" for j
    proof (cases "j < ?C")
      case jC: True
      have "in_region out (of_nat n) (out + of_nat j)" using j bound by (simp add: in_region_of_nat)
      then have "\<not> fat_scratch l cs fs (out + of_nat j)" by (rule fat_output_bytes(1) [OF less.prems(2)])
      moreover have "\<not> in_region (out + of_nat ?C) (of_nat (n - ?C)) (out + of_nat j)"
        using jC bound True by (subst in_region_offset) simp_all
      ultimately have "phys s'' (out + of_nat j) = phys s' (out + of_nat j)"
        by (intro changed_only_same [OF ch']) blast
      then show ?thesis using bytes [of j] jC kC by simp
    next
      case False
      then have "j - ?C < n - ?C" and split: "?C + (j - ?C) = j" using j by simp_all
      then have "phys s'' (out + of_nat ?C + of_nat (j - ?C)) = img (the (file_pos img spc r e c (off + ?C) (j - ?C)))"
        using bytes' by blast
      moreover have "out + of_nat ?C + of_nat (j - ?C) = out + of_nat j"
        by (simp only: add.assoc flip: of_nat_add) (simp only: split)
      moreover have "file_pos img spc r e c (off + ?C) (j - ?C) = file_pos img spc r e c off j"
        using split by (simp add: file_pos_next [OF C(1)] add.commute)
      ultimately show ?thesis by (simp only:)
    qed
    ultimately show ?thesis using step True rd' by auto
  qed
qed

text \<open>One member read from an open file.\<close>

lemma read_member:
  assumes "ata io regs pending polls img" and "fat_layout l p cs fs"
    and "fat_volume io spc r e p cs fs s" and "fat_output l p cs fs out n"
    and "fat16_get_first_cluster (fat_item_ptr (phys s) (fat_desc_item (phys s) desc)) (phys s) = of_nat c"
    and "fat_desc_pos (phys s) desc = of_nat off"
    and "0 < n" and "off + n < 2 ^ 31" and "off mod 512 = 0 \<or> off mod 512 + n \<le> 512"
    and "\<forall>j < n. file_pos img spc r e c off j \<noteq> None"
  shows "\<exists>s'. fat16_read io l desc (of_nat n) 1 out s = Some (1, s') \<and>
    (\<forall>j < n. phys s' (out + of_nat j) = img (the (file_pos img spc r e c off j))) \<and>
    changed_only (\<lambda>x. fat_scratch l cs fs x \<or> in_region out (of_nat n) x) s s'"
proof -
  have "cluster_read_stream (phys s) (fs_private (the_disk s)) = cs"
    using assms(3) by (simp add: fat_volume_def)
  then have cs: "fat16_read_internal io l cl o' k q s = fat16_read_internal_from_stream io l 0 cs cl o' k q s"
    for cl o' k q by (simp add: fat16_read_internal_def)
  obtain s' where s': "fat16_read_internal_from_stream io l 0 cs (of_nat c) (of_nat off) (of_nat n) out s = Some (0, s')"
    "changed_only (\<lambda>x. fat_scratch l cs fs x \<or> in_region out (of_nat n) x) s s'"
    "\<forall>j < n. phys s' (out + of_nat j) = img (the (file_pos img spc r e c off j))"
    using read_internal_chain [OF assms(1,2,3,4,7,8,9,10)] by blast
  have "read_members io l (fat_item_ptr (phys s) (fat_desc_item (phys s) desc)) (of_nat n) (Suc 0) (of_nat off) out s =
      Some (None, s')"
    by (simp add: cs assms(5) s'(1))
  then have "fat16_read io l desc (of_nat n) 1 out s = Some (1, s')"
    by (simp add: fat16_read_def assms(6) Let_def del: read_members.simps)
  with s'(2,3) show ?thesis by blast
qed

text \<open>Several members, all within the first cluster.\<close>

lemma first_cluster_same:
  assumes "\<And>x. in_region item 32 x \<Longrightarrow> m' x = m x"
  shows "fat16_get_first_cluster item m' = fat16_get_first_cluster item m"
proof -
  have "load16 m' (item + 20) = load16 m (item + 20)" "load16 m' (item + 26) = load16 m (item + 26)"
    by (rule load16_cong, rule assms, unfold in_region_def, uint_arith)+
  then show ?thesis by (simp add: fat16_get_first_cluster_def item_high_cluster_def item_low_cluster_def)
qed

lemma read_members_first:
  assumes dev: "ata io regs pending polls img" and lay: "fat_layout l p cs fs" and c: "first_cluster_ok spc e c" and n: "0 < n"
  shows "\<lbrakk> fat_volume io spc r e p cs fs s; 0 < k \<longrightarrow> fat_output l p cs fs out (k * n); off + k * n \<le> 512 * spc;
      \<forall>i < k. (off + i * n) mod 512 = 0 \<or> (off + i * n) mod 512 + n \<le> 512;
      fat16_get_first_cluster item (phys s) = of_nat c;
      \<forall>x. in_region item 32 x \<longrightarrow> \<not> fat_scratch l cs fs x \<and> \<not> in_region out (of_nat (k * n)) x \<rbrakk> \<Longrightarrow>
    \<exists>s'. read_members io l item (of_nat n) k (of_nat off) out s = Some (None, s') \<and>
      changed_only (\<lambda>x. fat_scratch l cs fs x \<or> in_region out (of_nat (k * n)) x) s s' \<and>
      (\<forall>j < k * n. file_byte img spc r e c (off + j) = Some (phys s' (out + of_nat j)))"
proof (induction k arbitrary: off out s)
  case 0
  then show ?case by (auto intro: changed_onlyI [where d = "device s" and m = "phys s"])
next
  case (Suc k)
  note vol = Suc.prems(1)
  let ?N = "Suc k * n" and ?w = "\<lambda>out n x. fat_scratch l cs fs x \<or> in_region out (of_nat n) x"
  have "512 * spc < 2 ^ 17" using hdr_cluster_bytes(2) [OF vol] by simp
  then have N: "?N < 2 ^ 17" "off < 2 ^ 17" "n \<le> ?N" and bound: "off + n < 2 ^ 31" "?N < 2 ^ 31"
    using Suc.prems(3) by simp_all
  have out: "fat_output l p cs fs out ?N" using Suc.prems(2) by simp
  have out1: "fat_output l p cs fs out n" by (rule fat_output_part(1) [OF out N(3) bound(2)])
  have al: "off mod 512 = 0 \<or> off mod 512 + n \<le> 512" using Suc.prems(4) by (auto dest: spec [of _ 0])
  have pos: "file_pos img spc r e c off j = Some (512 * (e + (c - 2) * spc) + off + j)"
    "file_byte img spc r e c (off + j) = Some (img (512 * (e + (c - 2) * spc) + off + j))" if "j < n" for j
    using first_cluster_pos [OF c, of off j] that Suc.prems(3) N(3) by simp_all
  have "cluster_read_stream (phys s) (fs_private (the_disk s)) = cs" using vol by (simp add: fat_volume_def)
  moreover have "\<forall>j < n. file_pos img spc r e c off j \<noteq> None" using pos(1) by simp
  then obtain s1 where s1: "fat16_read_internal_from_stream io l 0 cs (of_nat c) (of_nat off) (of_nat n) out s = Some (0, s1)"
    "changed_only (?w out n) s s1" "\<And>j. j < n \<Longrightarrow> phys s1 (out + of_nat j) = img (the (file_pos img spc r e c off j))"
    using read_internal_chain [OF dev lay vol out1 n bound(1) al] by blast
  ultimately have first: "fat16_read_internal io l (fat16_get_first_cluster item (phys s)) (of_nat off) (of_nat n) out s = Some (0, s1)"
    by (simp add: fat16_read_internal_def Suc.prems(5))
  have sub: "in_region out (of_nat ?N) x" if "in_region out (of_nat n) x \<or> in_region (out + of_nat n) (of_nat (k * n)) x" for x
    using sub_region [OF N(3) bound(2), of out x] that by auto
  have vol1: "fat_volume io spc r e p cs fs s1"
    by (rule fat_volume_kept [OF lay vol s1(2)]) (use fat_output_bytes(2) [OF out1] in blast)
  have out2: "fat_output l p cs fs (out + of_nat n) (k * n)" if "0 < k"
    using fat_output_part(2) [OF out N(3) bound(2)] that n by simp
  have al2: "\<forall>i < k. (off + n + i * n) mod 512 = 0 \<or> (off + n + i * n) mod 512 + n \<le> 512"
  proof (intro allI impI)
    fix i assume "i < k"
    then show "(off + n + i * n) mod 512 = 0 \<or> (off + n + i * n) mod 512 + n \<le> 512"
      using Suc.prems(4) [rule_format, of "Suc i"] by (simp add: add.assoc)
  qed
  have item: "fat16_get_first_cluster item (phys s1) = of_nat c"
    unfolding Suc.prems(5) [symmetric]
    by (rule first_cluster_same, rule changed_only_same [OF s1(2)]) (use Suc.prems(6) sub in blast)
  have apart: "\<forall>x. in_region item 32 x \<longrightarrow> \<not> fat_scratch l cs fs x \<and> \<not> in_region (out + of_nat n) (of_nat (k * n)) x"
    using Suc.prems(6) sub by blast
  have "off + n + k * n \<le> 512 * spc" using Suc.prems(3) by simp
  from Suc.IH [OF vol1 _ this al2 item apart] out2 obtain s2 where
    s2: "read_members io l item (of_nat n) k (of_nat (off + n)) (out + of_nat n) s1 = Some (None, s2)"
    "changed_only (?w (out + of_nat n) (k * n)) s1 s2"
    "\<And>j. j < k * n \<Longrightarrow> file_byte img spc r e c (off + n + j) = Some (phys s2 (out + of_nat n + of_nat j))" by blast
  have "changed_only (?w out ?N) s s2"
    by (rule changed_only_trans [OF changed_only_mono [OF s1(2)] changed_only_mono [OF s2(2)]]) (use sub in blast)+
  moreover have "file_byte img spc r e c (off + j) = Some (phys s2 (out + of_nat j))" if j: "j < ?N" for j
  proof (cases "j < n")
    case True
    have "in_region out (of_nat n) (out + of_nat j)" using True bound by (simp add: in_region_of_nat)
    then have "\<not> fat_scratch l cs fs (out + of_nat j)" by (rule fat_output_bytes(1) [OF out1])
    moreover have "\<not> in_region (out + of_nat n) (of_nat (k * n)) (out + of_nat j)"
      using True bound N by (subst in_region_offset) simp_all
    ultimately have "phys s2 (out + of_nat j) = phys s1 (out + of_nat j)" by (intro changed_only_same [OF s2(2)]) blast
    then show ?thesis using s1(3) [OF True] pos [OF True] by simp
  next
    case False
    then have "j - n < k * n" "n + (j - n) = j" using j by simp_all
    moreover from this have "out + of_nat n + of_nat (j - n) = out + of_nat j"
      by (simp only: add.assoc flip: of_nat_add)
    ultimately show ?thesis using s2(3) [of "j - n"] by (simp add: add.assoc)
  qed
  ultimately show ?case using first s2(1) by auto
qed

section \<open>Properties\<close>

text \<open>C30. \<open>fat16_read\<close> of \<open>k\<close> members of \<open>n\<close> bytes within the first cluster of an open file, each starting on a sector
  boundary or lying in one sector: it returns \<open>k\<close>, and the output holds exactly the bytes of the file from its
  position on, as the FAT16 format places them. The loops over members, clusters and sectors
  end, and nothing changes but the output, the stream positions and the stack buffers. (Beyond the first
  cluster the driver goes astray, see \<open>fat16_get_fat_entry_misplaced\<close>; a cluster has up to 64 KiB, the
  value of the boot sector of LameOS.)\<close>

theorem fat16_read_file:
  assumes "ata io regs pending polls img" and "fat_layout l p cs fs"
    and "fat_volume io spc r e p cs fs s" and "first_cluster_ok spc e c"
    and "item = fat_item_ptr (phys s) (fat_desc_item (phys s) desc)" and "fat16_get_first_cluster item (phys s) = of_nat c"
    and "fat_desc_pos (phys s) desc = of_nat off" and "0 < n" and "0 < k" and "off + k * n \<le> 512 * spc"
    and "\<forall>i < k. (off + i * n) mod 512 = 0 \<or> (off + i * n) mod 512 + n \<le> 512"
    and "fat_output l p cs fs out (k * n)"
    and "\<forall>x. in_region item 32 x \<longrightarrow> \<not> fat_scratch l cs fs x \<and> \<not> in_region out (of_nat (k * n)) x"
  shows "\<exists>s'. fat16_read io l desc (of_nat n) (of_nat k) out s = Some (of_nat k, s') \<and>
    (\<forall>j < k * n. file_byte img spc r e c (off + j) = Some (phys s' (out + of_nat j))) \<and>
    changed_only (\<lambda>x. fat_scratch l cs fs x \<or> in_region out (of_nat (k * n)) x) s s'"
proof -
  obtain s' where s': "read_members io l item (of_nat n) k (of_nat off) out s = Some (None, s')"
    "changed_only (\<lambda>x. fat_scratch l cs fs x \<or> in_region out (of_nat (k * n)) x) s s'"
    "\<forall>j < k * n. file_byte img spc r e c (off + j) = Some (phys s' (out + of_nat j))"
    using read_members_first [OF assms(1,2,4,8,3) _ assms(10,11,6,13)] assms(12) by blast
  have "k \<le> k * n" using assms(8) by simp
  then have "k \<le> 512 * spc" using assms(10) by linarith
  then have "k < 2 ^ 17" using hdr_cluster_bytes(2) [OF assms(3)] by simp
  then have "unat (of_nat k :: u32) = k" by (intro unat_of_nat_u32) simp
  then have "fat16_read io l desc (of_nat n) (of_nat k) out s = Some (of_nat k, s')"
    using s'(1) by (simp add: fat16_read_def assms(7) Let_def del: read_members.simps flip: assms(5))
  with s'(2,3) show ?thesis by blast
qed

text \<open>C31. Where the driver looks for the entry of cluster \<open>c\<close>: the start of the table is multiplied by the offset of
  the entry where the format adds them. \<open>fat16_get_fat_entry\<close> returns the word at byte \<open>1024 r c\<close> of the disk, and
  that is never the entry of the cluster, which lies before it at byte \<open>512 r + 2 c\<close>.\<close>

theorem fat16_get_fat_entry_misplaced:
  assumes "ata io regs pending polls img" and "fat_layout l p cs fs"
    and "fat_volume io spc r e p cs fs s" and "1 \<le> r" and "2 \<le> c" and "1024 * r * c + 2 < 2 ^ 31"
  shows "\<exists>s'. fat16_get_fat_entry io l (of_nat c) s =
      Some (of_nat (unat (img (1024 * r * c)) + 256 * unat (img (1024 * r * c + 1))), s') \<and>
    changed_only (fat_scratch l cs fs) s s' \<and> 512 * r + 2 * c + 1 < 1024 * r * c"
proof -
  have p: "fat_entry_pos r c = 1024 * r * c" by (simp add: fat_entry_pos_def)
  then have "fat_entry_pos r c + 2 < 2 ^ 31" using assms(6) by simp
  then obtain s' where s': "fat16_get_fat_entry io l (of_nat c) s = Some (of_nat (fat_entry img r c), s')"
    "changed_only (fat_scratch l cs fs) s s'"
    by (rule fat_entry_read [OF assms(1-3)])
  have "1024 * r * c = 1024 * (r * c)" by simp
  moreover have "2 * r \<le> r * c" "c \<le> r * c" using assms(4,5) by simp_all
  ultimately have "512 * r + 2 * c + 1 < 1024 * r * c" using assms(4,5) by linarith
  with s' show ?thesis by (auto simp: fat_entry_def p)
qed

text \<open>A volume with one sector per cluster at sector 4 and a table at sector 1, and an open file that
  starts at cluster 2.\<close>

definition sample_layout :: layout where
  "sample_layout = \<lparr>sector_buffer = \<lambda>_ _. 0x5E0000, item_buffer = 0x5D0000, empty_item_buffer = 0x5D1000,
     entry_buffer = 0x5D2000, name_buffer = 0x5D3000, fat16_fs_addr = 0x2000\<rparr>"

definition fat_kernel :: "sample_device files" where
  "fat_kernel = file_kernel\<lparr>
     phys := store_fields 0x500000
       [(12, 0x00010100), (76, 4), (80, 0x510000), (84, 0x520000),
        (0x10004, 0x200000), (0x20004, 0x200000), (0x30000, 0x530010), (0x30004, 0),
        (0x30010, 0x530020), (0x30014, 1), (0x30034, 0), (0x30038, 0x00020000), (0x3003C, 600)] (\<lambda>_. 0),
     the_disk := (the_disk file_kernel)\<lparr>fs_private := 0x500000, sector_size := 512\<rparr>\<rparr>"

lemma fat_kernel_volume:
  "fat_layout sample_layout 0x500000 0x510000 0x520000"
  "fat_output sample_layout 0x500000 0x510000 0x520000 0x540000 600"
  "fat_volume sample_ports 1 1 4 0x500000 0x510000 0x520000 fat_kernel"
proof -
  show "fat_layout sample_layout 0x500000 0x510000 0x520000"
    "fat_output sample_layout 0x500000 0x510000 0x520000 0x540000 600"
    by (simp_all add: fat_layout_def fat_output_def fat_regions_def sample_layout_def apart_def)
  show "fat_volume sample_ports 1 1 4 0x500000 0x510000 0x520000 fat_kernel"
    by (simp add: fat_volume_def fat_kernel_def hdr_sectors_per_cluster_def hdr_reserved_sectors_def
        dir_ending_sector_pos_def root_directory_def cluster_read_stream_def fat_read_stream_def sample_ports_def
        store32_def load32_def load16_def)
qed

theorem fat16_read_file_witness:
  "\<exists>s'. fat16_read sample_ports sample_layout 0x530000 256 2 0x540000 fat_kernel = Some (2, s') \<and> phys s' 0x540101 = sample_image 0x901"
proof -
  have item: "0x530020 = fat_item_ptr (phys fat_kernel) (fat_desc_item (phys fat_kernel) 0x530000)"
    "fat16_get_first_cluster 0x530020 (phys fat_kernel) = of_nat 2" "fat_desc_pos (phys fat_kernel) 0x530000 = of_nat 0"
    by (simp_all add: fat_kernel_def fat16_get_first_cluster_def item_high_cluster_def item_low_cluster_def
        fat_item_ptr_def fat_desc_item_def fat_desc_pos_def store32_def load32_def load16_def)
  have out: "fat_output sample_layout 0x500000 0x510000 0x520000 0x540000 (2 * 256)"
    by (rule fat_output_part(1) [OF fat_kernel_volume(2)]) simp_all
  have c: "first_cluster_ok 1 4 2" by (simp add: first_cluster_ok_def)
  have al: "\<forall>i < 2. (0 + i * 256) mod 512 = 0 \<or> (0 + i * 256) mod 512 + 256 \<le> (512 :: nat)" by (auto simp: less_2_cases_iff)
  have ap: "apart 0x540000 512 0x530020 32" "apart 0x510000 4 0x530020 32" "apart 0x520000 4 0x530020 32"
    "apart 0x5D2000 2 0x530020 32" "apart 0x5E0000 512 0x530020 32" by (simp_all add: apart_def)
  have free: "\<forall>x. in_region 0x530020 32 x \<longrightarrow> \<not> fat_scratch sample_layout 0x510000 0x520000 x \<and> \<not> in_region 0x540000 (of_nat (2 * 256)) x"
    using ap [THEN apart_not_in] by (auto simp: fat_scratch_def sample_layout_def)
  have "\<exists>s'. fat16_read sample_ports sample_layout 0x530000 (of_nat 256) (of_nat 2) 0x540000 fat_kernel = Some (of_nat 2, s') \<and>
      (\<forall>j < 2 * 256. file_byte sample_image 1 1 4 2 (0 + j) = Some (phys s' (0x540000 + of_nat j))) \<and>
      changed_only (\<lambda>x. fat_scratch sample_layout 0x510000 0x520000 x \<or> in_region 0x540000 (of_nat (2 * 256)) x) fat_kernel s'"
    by (rule fat16_read_file [OF sample_ata fat_kernel_volume(1,3) c item _ _ _ al out free]) simp_all
  then obtain s' where s': "fat16_read sample_ports sample_layout 0x530000 256 2 0x540000 fat_kernel = Some (2, s')"
    "\<forall>j < 512. file_byte sample_image 1 1 4 2 j = Some (phys s' (0x540000 + of_nat j))" by auto
  have "Some (phys s' 0x540101) = Some (sample_image 0x901)" using s'(2) [rule_format, of 257] by (simp add: file_byte_def)
  with s'(1) show ?thesis by auto
qed

text \<open>The driver takes 256 for the entry of cluster 2 of the volume, the word at byte 2048, its first data.\<close>

theorem fat16_get_fat_entry_misplaced_witness:
  "\<exists>s'. fat16_get_fat_entry sample_ports sample_layout 2 fat_kernel = Some (256, s')"
proof -
  have "\<exists>s'. fat16_get_fat_entry sample_ports sample_layout (of_nat 2) fat_kernel =
      Some (of_nat (unat (sample_image (1024 * 1 * 2)) + 256 * unat (sample_image (1024 * 1 * 2 + 1))), s') \<and>
    changed_only (fat_scratch sample_layout 0x510000 0x520000) fat_kernel s' \<and> 512 * 1 + 2 * 2 + 1 < 1024 * 1 * (2 :: nat)"
    by (rule fat16_get_fat_entry_misplaced [OF sample_ata fat_kernel_volume(1,3)]) simp_all
  then show ?thesis by (auto simp: sample_image_def)
qed

end
