(* ===== verification/Fat16Dir.thy ===== *)
theory Fat16Dir
  imports Fat16Read
begin

text \<open>
  Directories of the FAT16 driver: counting the entries of a directory on the disk.
\<close>

section \<open>One read of a stream\<close>

lemma stream_read:
  assumes dev: "ata io regs pending polls img"
    and q: "load32 (phys s) (q + 4) = disk_addr io" "load32 (phys s) q = of_nat pos"
    and pos: "pos + n < 2 ^ 31" "pos mod 512 = 0 \<or> pos mod 512 + n \<le> 512"
    and sep: "read_apart frame q out n"
  obtains s' where "diskstreamer_read io frame k q out (of_nat n) s = Some (0, s')"
    and "changed_only (\<lambda>x. in_region q 4 x \<or> in_region out (of_nat n) x \<or> (\<exists>j. in_region (frame j) 512 x)) s s'"
    and "\<And>i. i < n \<Longrightarrow> phys s' (out + of_nat i) = img (pos + i)"
    and "load32 (phys s') q = of_nat (pos + n)" and "load32 (phys s') (q + 4) = disk_addr io"
proof -
  obtain s' where s': "diskstreamer_read io frame k q out (of_nat n) s = Some (0, s')"
    "\<forall>i < n. phys s' (out + of_nat i) = img (pos + i)" "load32 (phys s') q = of_nat (pos + n)"
    "load32 (phys s') (q + 4) = disk_addr io" "s' = s\<lparr>device := device s', phys := phys s'\<rparr>"
    "\<forall>x. \<not> in_region out (of_nat n) x \<and> \<not> in_region q 4 x \<and> (\<forall>j. \<not> in_region (frame j) 512 x) \<longrightarrow>
       phys s' x = phys s x"
    using read_exact [OF dev q pos sep] by blast
  have "changed_only (\<lambda>x. in_region q 4 x \<or> in_region out (of_nat n) x \<or> (\<exists>j. in_region (frame j) 512 x)) s s'"
    by (rule changed_onlyI [OF s'(5)]) (use s'(6) in blast)
  with s' show thesis by (intro that) auto
qed

section \<open>Counting the entries of a directory\<close>

text \<open>The entries from byte \<open>p\<close> of the disk on that are not deleted, among the first \<open>k\<close>.\<close>

definition entry_at :: "(nat \<Rightarrow> u8) \<Rightarrow> nat \<Rightarrow> nat \<Rightarrow> u8" where
  "entry_at img p i = img (p + 32 * i)"

definition entries_kept :: "(nat \<Rightarrow> u8) \<Rightarrow> nat \<Rightarrow> nat \<Rightarrow> nat" where
  "entries_kept img p k = length (filter (\<lambda>i. entry_at img p i \<noteq> 0xE5) [0..<k])"

text \<open>The directory at \<open>p\<close> ends at its entry \<open>k\<close>, the first with a zero name byte.\<close>

definition directory_ends :: "(nat \<Rightarrow> u8) \<Rightarrow> nat \<Rightarrow> nat \<Rightarrow> bool" where
  "directory_ends img p k \<longleftrightarrow> entry_at img p k = 0 \<and> (\<forall>i < k. entry_at img p i \<noteq> 0)"

lemma entries_kept_Suc:
  "entries_kept img p (Suc k) = (if entry_at img p 0 = 0xE5 then 0 else 1) + entries_kept img (p + 32) k"
proof -
  have "[0..<Suc k] = 0 # map Suc [0..<k]" by (simp add: map_Suc_upt upt_conv_Cons)
  then show ?thesis by (simp add: entries_kept_def entry_at_def filter_map o_def algebra_simps del: upt_Suc)
qed

lemma directory_ends_Suc:
  "directory_ends img p (Suc k) \<longleftrightarrow> entry_at img p 0 \<noteq> 0 \<and> directory_ends img (p + 32) k"
  by (auto simp: directory_ends_def entry_at_def algebra_simps less_Suc_eq_0_disj)

definition dir_scratch :: "layout \<Rightarrow> ptr \<Rightarrow> ptr \<Rightarrow> bool" where
  "dir_scratch l q x \<longleftrightarrow> in_region q 4 x \<or> in_region (item_buffer l) 32 x \<or>
     in_region (empty_item_buffer l) 32 x \<or> (\<exists>d k. in_region (sector_buffer l d k) 512 x)"

lemma mod_item:
  fixes p :: nat
  assumes "p mod 32 = 0"
  shows "p mod 512 + 32 \<le> 512"
proof -
  have "(p mod 512) mod 32 = 0" using assms by (simp add: mod_mod_cancel)
  then obtain j where j: "p mod 512 = 32 * j" by (metis mod_0_imp_dvd dvdE)
  have "p mod 512 < 512" by simp
  with j show ?thesis by simp
qed

lemma read_item:
  assumes dev: "ata io regs pending polls img" and sep: "read_apart (sector_buffer l 0) q (item_buffer l) 32"
    and q: "load32 (phys s) (q + 4) = disk_addr io" "load32 (phys s) q = of_nat p"
    and p: "p mod 32 = 0" "p + 32 < 2 ^ 31"
  obtains s' where "diskstreamer_read io (sector_buffer l 0) 0 q (item_buffer l) 32 s = Some (0, s')"
    and "changed_only (dir_scratch l q) s s'" and "phys s' (item_buffer l) = entry_at img p 0"
    and "load32 (phys s') q = of_nat (p + 32)" and "load32 (phys s') (q + 4) = disk_addr io"
proof -
  obtain s' where s': "diskstreamer_read io (sector_buffer l 0) 0 q (item_buffer l) (of_nat 32) s = Some (0, s')"
    "changed_only (\<lambda>x. in_region q 4 x \<or> in_region (item_buffer l) (of_nat 32) x \<or> (\<exists>j. in_region (sector_buffer l 0 j) 512 x)) s s'"
    "\<And>j. j < 32 \<Longrightarrow> phys s' (item_buffer l + of_nat j) = img (p + j)"
    "load32 (phys s') q = of_nat (p + 32)" "load32 (phys s') (q + 4) = disk_addr io"
    using stream_read [OF dev q p(2) disjI2 [OF mod_item [OF p(1)]] sep, of 0] by blast
  have "changed_only (dir_scratch l q) s s'"
    by (rule changed_only_mono [OF s'(2)]) (auto simp: dir_scratch_def)
  then show thesis using s'(1,4,5) s'(3) [of 0] by (intro that) (simp_all add: entry_at_def)
qed

lemma count_items:
  assumes dev: "ata io regs pending polls img" and sep: "read_apart (sector_buffer l 0) q (item_buffer l) 32"
  shows "\<lbrakk> load32 (phys s) (q + 4) = disk_addr io; load32 (phys s) q = of_nat p; p mod 32 = 0;
      p + 32 * Suc k < 2 ^ 31; directory_ends img p k \<rbrakk> \<Longrightarrow>
    \<exists>s'. count_items_loop io l q i s = Some (i + of_nat (entries_kept img p k), s') \<and>
      changed_only (dir_scratch l q) s s' \<and> load32 (phys s') (q + 4) = disk_addr io"
proof (induction k arbitrary: p i s)
  case (0 p i s)
  have "p + 32 < 2 ^ 31" using 0(4) by simp
  from read_item [OF dev sep 0(1-3) this] obtain s' where
    s': "diskstreamer_read io (sector_buffer l 0) 0 q (item_buffer l) 32 s = Some (0, s')"
    "changed_only (dir_scratch l q) s s'" "phys s' (item_buffer l) = entry_at img p 0"
    "load32 (phys s') (q + 4) = disk_addr io" by blast
  have "phys s' (item_buffer l) = 0" using s'(3) 0(5) by (simp add: directory_ends_def)
  then show ?case
    using s'(1,2,4) by (subst count_items_loop.simps) (simp add: sizeof_directory_item_def lameos_ok_def entries_kept_def)
next
  case (Suc k p i s)
  have "p + 32 < 2 ^ 31" using Suc.prems(4) by simp
  from read_item [OF dev sep Suc.prems(1-3) this] obtain s1 where
    s1: "diskstreamer_read io (sector_buffer l 0) 0 q (item_buffer l) 32 s = Some (0, s1)"
    "changed_only (dir_scratch l q) s s1" "phys s1 (item_buffer l) = entry_at img p 0"
    "load32 (phys s1) q = of_nat (p + 32)" "load32 (phys s1) (q + 4) = disk_addr io" by blast
  have nz: "entry_at img p 0 \<noteq> 0" and ends: "directory_ends img (p + 32) k"
    using Suc.prems(5) by (simp_all add: directory_ends_Suc)
  have p32: "(p + 32) mod 32 = 0" "p + 32 + 32 * Suc k < 2 ^ 31" using Suc.prems(3,4) by simp_all
  let ?i = "i + (if entry_at img p 0 = 0xE5 then 0 else 1)"
  obtain s' where s': "count_items_loop io l q ?i s1 = Some (?i + of_nat (entries_kept img (p + 32) k), s')"
    "changed_only (dir_scratch l q) s1 s'" "load32 (phys s') (q + 4) = disk_addr io"
    using Suc.IH [OF s1(5,4) p32 ends] by blast
  have "count_items_loop io l q i s = count_items_loop io l q ?i s1"
    using s1(1,3) nz by (subst count_items_loop.simps) (simp add: sizeof_directory_item_def lameos_ok_def)
  then show ?case using s'(1,3) changed_only_trans [OF s1(2) s'(2)] by (simp add: entries_kept_Suc)
qed

text \<open>The stack of the driver: its local objects are apart from each other and outside the heap and its
  table, so that no live block meets them.\<close>

definition stack_layout :: "layout \<Rightarrow> bool" where
  "stack_layout l \<longleftrightarrow>
     all_apart [(item_buffer l, 32), (empty_item_buffer l, 32), (entry_buffer l, 2), (name_buffer l, 108)] \<and>
     (\<forall>d k. list_all (\<lambda>(b, n). apart (sector_buffer l d k) 512 b n)
        [(item_buffer l, 32), (empty_item_buffer l, 32), (entry_buffer l, 2), (name_buffer l, 108)]) \<and>
     (\<forall>d k. off_heap (sector_buffer l d k) 512) \<and> off_heap (item_buffer l) 32 \<and> off_heap (empty_item_buffer l) 32 \<and>
     off_heap (entry_buffer l) 2 \<and> off_heap (name_buffer l) 108"

lemma stack_read_apart:
  assumes "stack_layout l" and "kheap_inv s" and "(q, 4096) \<in> kheap_live s"
  shows "read_apart (sector_buffer l d) q (item_buffer l) 32" and "apart (empty_item_buffer l) 32 q 4096"
proof -
  note ap = off_heap_live [OF _ _ assms(2,3)]
  have 8: "(8 :: u32) \<le> 4096" by simp
  have "apart (sector_buffer l d k) 512 q 4096" "apart (item_buffer l) 32 q 4096"
    "apart (sector_buffer l d k) 512 (item_buffer l) 32" for k
    using assms(1) ap by (simp_all add: stack_layout_def)
  then show "read_apart (sector_buffer l d) q (item_buffer l) 32"
    using apart_subregion [OF _ order_refl 8] by (auto simp: read_apart_def apart_sym [of q])
  show "apart (empty_item_buffer l) 32 q 4096"
    using assms(1) by (intro ap) (simp_all add: stack_layout_def)
qed

text \<open>A mounted disk: the driver's private struct and a stream are pages of the heap.\<close>

definition fat_stream :: "'d ports \<Rightarrow> ptr \<Rightarrow> ('d, 'a) files_scheme \<Rightarrow> bool" where
  "fat_stream io q s \<longleftrightarrow> (q, 4096) \<in> kheap_live s \<and> load32 (phys s) (q + 4) = disk_addr io"

definition fat_private_at :: "ptr \<Rightarrow> ('d, 'a) files_scheme \<Rightarrow> bool" where
  "fat_private_at p s \<longleftrightarrow> (p, 4096) \<in> kheap_live s \<and> fs_private (the_disk s) = p \<and> sector_size (the_disk s) = 512"

lemma total_items_apart:
  assumes dev: "ata io regs pending polls img" and f: "fs_private (the_disk s) = p" "sector_size (the_disk s) = 512"
    and q: "directory_stream (phys s) p = q" "load32 (phys s) (q + 4) = disk_addr io"
    and sep: "read_apart (sector_buffer l 0) q (item_buffer l) 32" "apart (empty_item_buffer l) 32 p 92"
      "apart (empty_item_buffer l) 32 q 8"
    and dir: "directory_ends img (512 * sec) k" "512 * sec + 32 * Suc k < 2 ^ 31"
  shows "\<exists>s'. fat16_get_total_items_for_directory io l (of_nat sec) s = Some (of_nat (entries_kept img (512 * sec) k), s') \<and>
    changed_only (dir_scratch l q) s s'"
proof -
  define m0 where "m0 = memset (empty_item_buffer l) 0 32 (phys s)"
  have m0: "m0 x = phys s x" if "\<not> in_region (empty_item_buffer l) 32 x" for x
    using that by (simp add: m0_def memset_apply)
  have field: "load32 m0 (r + o') = load32 (phys s) (r + o')"
    if "apart (empty_item_buffer l) 32 r n" "unat o' + 4 \<le> unat n" for r n o'
    by (rule load32_cong) (use m0 that(1) field_in_struct [OF that(2)] apart_not_in in blast)
  have str: "directory_stream m0 p = q" using q(1) field [OF sep(2), of 88] by (simp add: directory_stream_def)
  have q4: "load32 m0 (q + 4) = disk_addr io" using q(2) field [OF sep(3), of 4] by simp
  let ?s1 = "s\<lparr>phys := store32 m0 q (of_nat (512 * sec))\<rparr>"
  have s1: "load32 (phys ?s1) (q + 4) = disk_addr io" "load32 (phys ?s1) q = of_nat (512 * sec)"
    using q4 load32_store32_apart [OF offsets_apart [of 0 4 q]] by simp_all
  have al: "512 * sec mod 32 = 0" by (simp add: mod_mult_right_eq [symmetric, of _ sec] mult.assoc flip: mult_2)
  obtain s' where s': "count_items_loop io l q 0 ?s1 = Some (0 + of_nat (entries_kept img (512 * sec) k), s')"
    "changed_only (dir_scratch l q) ?s1 s'"
    using count_items [OF dev sep(1) s1 al dir(2,1)] by blast
  have "changed_only (dir_scratch l q) s ?s1"
    by (rule changed_onlyI [where d = "device s" and m = "store32 m0 q (of_nat (512 * sec))"])
       (simp_all add: dir_scratch_def store32_other m0)
  from changed_only_trans [OF this s'(2)] s'(1) show ?thesis
    by (simp add: fat16_get_total_items_for_directory_def Let_def f str sizeof_directory_item_def diskstreamer_seek_def
        m0_def [symmetric] lameos_ok_def mult.commute)
qed

lemma total_items:
  assumes dev: "ata io regs pending polls img" and stack: "stack_layout l" and inv: "kheap_inv s"
    and priv: "fat_private_at p s" and q: "directory_stream (phys s) p = q" "fat_stream io q s"
    and dir: "directory_ends img (512 * sec) k" "512 * sec + 32 * Suc k < 2 ^ 31"
  shows "\<exists>s'. fat16_get_total_items_for_directory io l (of_nat sec) s = Some (of_nat (entries_kept img (512 * sec) k), s') \<and>
    changed_only (dir_scratch l q) s s'"
proof -
  have lp: "(p, 4096) \<in> kheap_live s" "(q, 4096) \<in> kheap_live s" and f: "fs_private (the_disk s) = p"
    "sector_size (the_disk s) = 512" "load32 (phys s) (q + 4) = disk_addr io"
    using priv q(2) by (simp_all add: fat_private_at_def fat_stream_def)
  note ap = stack_read_apart [OF stack inv]
  have "apart (empty_item_buffer l) 32 p 92" "apart (empty_item_buffer l) 32 q 8"
    using apart_subregion [OF ap(2) [OF lp(1)] order_refl, of 92] apart_subregion [OF ap(2) [OF lp(2)] order_refl, of 8] by simp_all
  from total_items_apart [OF dev f(1,2) q(1) f(3) ap(1) [OF lp(2)] this dir] show ?thesis .
qed

section \<open>The root directory\<close>

text \<open>What the header in memory says of the root directory: its first sector and its entries.\<close>

definition root_header :: "nat \<Rightarrow> nat \<Rightarrow> ptr \<Rightarrow> mem \<Rightarrow> bool" where
  "root_header R N p m \<longleftrightarrow> unat (hdr_root_dir_entries m p) = N \<and>
     unat (hdr_fat_copies m p) * unat (hdr_sectors_per_fat m p) + unat (hdr_reserved_sectors m p) = R"

lemma root_header_words:
  assumes "root_header R N p m"
  shows "ucast (hdr_fat_copies m p) * ucast (hdr_sectors_per_fat m p) + ucast (hdr_reserved_sectors m p) = (of_nat R :: u32)"
    and "ucast (hdr_root_dir_entries m p) * sizeof_directory_item = of_nat (32 * N)" and "N < 65536"
proof -
  have up: "(ucast (a :: u8) :: u32) = of_nat (unat a)" "(ucast (b :: u16) :: u32) = of_nat (unat b)" for a b
    by (rule unat_eq_of_nat, simp add: unat_up8 unat_up16)+
  show "ucast (hdr_fat_copies m p) * ucast (hdr_sectors_per_fat m p) + ucast (hdr_reserved_sectors m p) = (of_nat R :: u32)"
    and "ucast (hdr_root_dir_entries m p) * sizeof_directory_item = of_nat (32 * N)"
    using assms unfolding root_header_def sizeof_directory_item_def up by (metis of_nat_add of_nat_mult, simp)
  show "N < 65536"
    using assms unsigned_less [of "hdr_root_dir_entries m p", where 'a = nat] by (simp add: root_header_def)
qed

text \<open>The directory struct at \<open>d\<close> and its entries in memory.\<close>

definition root_loaded :: "(nat \<Rightarrow> u8) \<Rightarrow> nat \<Rightarrow> nat \<Rightarrow> nat \<Rightarrow> ptr \<Rightarrow> ptr \<Rightarrow> mem \<Rightarrow> bool" where
  "root_loaded img R N k p dir m \<longleftrightarrow> dir_item m (root_directory p) = dir \<and>
     dir_total m (root_directory p) = of_nat (entries_kept img (512 * R) k) \<and>
     dir_ending_sector_pos m (root_directory p) = of_nat (R + 32 * N div 512) \<and>
     (\<forall>i < 32 * N. m (dir + of_nat i) = img (512 * R + i))"

lemma root_read:
  assumes dev: "ata io regs pending polls img" and stack: "stack_layout l" and inv: "kheap_inv s"
    and q: "fat_stream io q s" and dir: "(dir, kd) \<in> kheap_live s" "of_nat n \<le> kd" "dir \<noteq> q"
    and n: "0 < n" "512 * R + n < 2 ^ 31"
  obtains s' where "diskstreamer_read io (sector_buffer l 1) 0 q dir (of_nat n) (s\<lparr>phys := store32 (phys s) q (of_nat (512 * R))\<rparr>) = Some (0, s')"
    and "changed_only (\<lambda>x. dir_scratch l q x \<or> in_region dir (of_nat n) x) s s'"
    and "\<And>i. i < n \<Longrightarrow> phys s' (dir + of_nat i) = img (512 * R + i)"
proof -
  have lq: "(q, 4096) \<in> kheap_live s" and q4: "load32 (phys s) (q + 4) = disk_addr io" using q by (simp_all add: fat_stream_def)
  have "(q, 4096) \<noteq> (dir, kd)" using dir(3) by auto
  from kmalloc_heap.live_apart [OF inv lq dir(1) this] have "apart q 8 dir (of_nat n)"
    by (rule apart_subregion) (use dir(2) in simp_all)
  moreover have fr: "apart (sector_buffer l 1 j) 512 dir kd" "apart (sector_buffer l 1 j) 512 q 4096" for j
    using off_heap_live [OF _ _ inv dir(1)] off_heap_live [OF _ _ inv lq] stack by (simp_all add: stack_layout_def)
  have "apart (sector_buffer l 1 j) 512 dir (of_nat n)" "apart (sector_buffer l 1 j) 512 q 8" for j
    using apart_subregion [OF fr(1) order_refl dir(2)] apart_subregion [OF fr(2) order_refl, of 8] by simp_all
  ultimately have sep: "read_apart (sector_buffer l 1) q dir n" by (simp add: read_apart_def)
  let ?s = "s\<lparr>phys := store32 (phys s) q (of_nat (512 * R))\<rparr>"
  have s1: "load32 (phys ?s) (q + 4) = disk_addr io" "load32 (phys ?s) q = of_nat (512 * R)"
    using q4 load32_store32_apart [OF offsets_apart [of 0 4 q]] by simp_all
  obtain s' where s': "diskstreamer_read io (sector_buffer l 1) 0 q dir (of_nat n) ?s = Some (0, s')"
    "changed_only (\<lambda>x. in_region q 4 x \<or> in_region dir (of_nat n) x \<or> (\<exists>j. in_region (sector_buffer l 1 j) 512 x)) ?s s'"
    "\<And>i. i < n \<Longrightarrow> phys s' (dir + of_nat i) = img (512 * R + i)"
    using stream_read [OF dev s1 n(2) _ sep, of 0] by auto
  have "changed_only (\<lambda>x. dir_scratch l q x \<or> in_region dir (of_nat n) x) s ?s"
    by (rule changed_only_write) (simp add: dir_scratch_def store32_other)
  from changed_only_trans [OF this changed_only_mono [OF s'(2)]]
  have "changed_only (\<lambda>x. dir_scratch l q x \<or> in_region dir (of_nat n) x) s s'" by (auto simp: dir_scratch_def)
  with s'(1,3) show thesis by (intro that) auto
qed

lemma dir_scratch_off_table:
  assumes "stack_layout l" and "kheap_inv s" and "(q, 4096) \<in> kheap_live s" and "dir_scratch l q x"
  shows "\<not> in_table boot_heap x" and "\<lbrakk> (p, k) \<in> kheap_live s; p \<noteq> q \<rbrakk> \<Longrightarrow> \<not> in_region p k x"
proof -
  have "in_region q 4 x \<Longrightarrow> in_region q 4096 x"
    using page_word [of q] by (simp add: word_in_def)
  moreover have "in_region q 4096 x \<Longrightarrow> \<not> in_table boot_heap x" by (rule kheap_live_not_in_table [OF assms(2,3)])
  moreover have "\<not> in_region p k x" if "(p, k) \<in> kheap_live s" "p \<noteq> q" "in_region q 4096 x"
    using kmalloc_heap.live_apart [OF assms(2,3) that(1)] that(2,3) apart_not_in2 by blast
  moreover have "\<not> in_heap x \<and> \<not> in_table boot_heap x" if "\<not> in_region q 4 x"
    using assms(1,4) that by (auto simp: dir_scratch_def stack_layout_def off_heap_def)
  ultimately show "\<not> in_table boot_heap x" and "\<lbrakk> (p, k) \<in> kheap_live s; p \<noteq> q \<rbrakk> \<Longrightarrow> \<not> in_region p k x"
    using live_in_heap [OF assms(2), of p k x] by blast+
qed

text \<open>Writing the four words of the directory struct.\<close>

lemma dir_words:
  fixes m :: mem and d a b c e :: u32
  defines "m' \<equiv> store32 (store32 (store32 (store32 m d a) (d + 4) b) (d + 8) c) (d + 12) e"
  shows "dir_item m' d = a" and "dir_total m' d = b" and "dir_ending_sector_pos m' d = e"
    and "\<not> in_region d 16 x \<Longrightarrow> m' x = m x"
proof -
  have ap: "apart (d + 4) 4 d 4" "apart (d + 8) 4 d 4" "apart (d + 12) 4 d 4"
    "apart (d + 8) 4 (d + 4) 4" "apart (d + 12) 4 (d + 4) 4" "apart (d + 12) 4 (d + 8) 4"
    by (simp_all add: apart_def)
  then show "dir_item m' d = a" and "dir_total m' d = b" and "dir_ending_sector_pos m' d = e"
    by (simp_all add: m'_def dir_item_def dir_total_def dir_ending_sector_pos_def load32_store32_apart)
  assume x: "\<not> in_region d 16 x"
  have "\<not> in_region d 4 x" "\<not> in_region (d + 4) 4 x" "\<not> in_region (d + 8) 4 x" "\<not> in_region (d + 12) 4 x"
    using x field_in_struct [of 0 16 d x] field_in_struct [of 4 16 d x] field_in_struct [of 8 16 d x]
      field_in_struct [of 12 16 d x] by auto
  then show "m' x = m x" by (simp add: m'_def store32_other)
qed

lemma dir_scratch_other:
  assumes "stack_layout l" and "kheap_inv s" and "(r, k) \<in> kheap_live s" and "in_region r k x" and "dir_scratch l q x"
  shows "in_region q 4 x"
  using assms live_in_heap [OF assms(2-4)] by (auto simp: dir_scratch_def stack_layout_def off_heap_def)

lemma fat_stream_kept:
  assumes "kheap_inv s" and "fat_stream io r s" and "kept w s s'"
    and "\<And>x. w x \<Longrightarrow> in_region r 4096 x \<Longrightarrow> in_region r 4 x"
  shows "fat_stream io r s'"
proof -
  have l: "(r, 4096) \<in> kheap_live s" using assms(2) by (simp add: fat_stream_def)
  have "load32 (phys s') (r + 4) = load32 (phys s) (r + 4)"
  proof (rule load32_cong)
    fix x assume x: "in_region (r + 4) 4 x"
    then have p: "in_region r 4096 x" using field_in_struct [of 4 4096 r x] by simp
    have "\<not> in_region r 4 x" using x offsets_apart [of 0 4 r] apart_not_in by auto
    then show "phys s' x = phys s x"
      using keptD(5) [OF assms(3) stable_live [OF assms(1) l p]] assms(4) p by blast
  qed
  then show ?thesis using assms(2) keptD(2) [OF assms(3)] by (auto simp: fat_stream_def)
qed

text \<open>The entries are counted, a block is allocated for the whole directory and filled from the disk.\<close>

lemma root_entries_read:
  assumes dev: "ata io regs pending polls img" and stack: "stack_layout l" and inv: "kheap_inv s"
    and priv: "fat_private_at p s" and q: "directory_stream (phys s) p = q" "fat_stream io q s" "q \<noteq> p"
    and dir: "directory_ends img (512 * R) k" and n: "0 < n" "512 * R + n < 2 ^ 31"
    and fits: "512 * R + 32 * Suc k < 2 ^ 31" and pages: "0 < kheap_pages s" "n \<le> 4096"
  obtains d s1 s2 s3 where
    "fat16_get_total_items_for_directory io l (of_nat R) s = Some (of_nat (entries_kept img (512 * R) k), s1)"
    and "kzalloc (of_nat n) s1 = (d, s2)" and "d \<noteq> 0" and "directory_stream (phys s2) p = q" and "the_disk s2 = the_disk s"
    and "diskstreamer_read io (sector_buffer l 1) 0 q d (of_nat n) (s2\<lparr>phys := store32 (phys s2) q (of_nat (512 * R))\<rparr>) = Some (0, s3)"
    and "kept (dir_scratch l q) s s3" and "kheap_live s3 = insert (d, 4096) (kheap_live s)" and "Suc (kheap_pages s3) = kheap_pages s"
    and "\<And>x. kheap_stable s x \<Longrightarrow> \<not> in_region d 4096 x" and "\<And>k. (d, k) \<notin> kheap_live s"
    and "\<And>i. i < n \<Longrightarrow> phys s3 (d + of_nat i) = img (512 * R + i)"
proof -
  have lp: "(p, 4096) \<in> kheap_live s" and lq: "(q, 4096) \<in> kheap_live s"
    using priv q(2) by (simp_all add: fat_private_at_def fat_stream_def)
  obtain s1 where s1: "fat16_get_total_items_for_directory io l (of_nat R) s = Some (of_nat (entries_kept img (512 * R) k), s1)"
    "changed_only (dir_scratch l q) s s1"
    using total_items [OF dev stack inv priv q(1,2) dir fits] by blast
  note off = dir_scratch_off_table [OF stack inv lq]
  have k1: "kept (dir_scratch l q) s s1" "kchunks s1 = kchunks s" "kheap_live s1 = kheap_live s"
    by (rule kept_changed [OF inv s1(2) off(1)]; assumption)+
  have n1: "0 < kheap_pages s1" "(0 :: u32) < of_nat n" "(of_nat n :: u32) \<le> 4096"
    using pages n k1(2) by (simp_all add: kheap_pages_def word_less_nat_alt word_le_nat_alt)
  obtain d s2 where alloc: "kzalloc (of_nat n) s1 = (d, s2)" by (cases "kzalloc (of_nat n) s1")
  note zf = kzalloc_page_facts [OF keptD(1) [OF k1(1)] n1 alloc]
  obtain kd where "kept (\<lambda>_. False) s1 s2"
    by (rule kept_kzalloc [OF keptD(1) [OF k1(1)] kheap_page_room [OF n1] alloc]) blast
  note z = this zf(2) n1(3) zf(4,5,8)
  have inv2: "kheap_inv s2" and ld: "(d, 4096) \<in> kheap_live s2" and lq2: "(q, 4096) \<in> kheap_live s2"
    using keptD(1) [OF z(1)] z(2) lq k1(3) by auto
  have k02: "kept (dir_scratch l q) s s2" by (rule kept_trans [OF k1(1) z(1)]) simp
  have new: "\<not> in_region d 4096 x" if "kheap_stable s x" for x using z(6) keptD(6) [OF k1(1) that] by blast
  have str: "directory_stream (phys s2) p = q"
    unfolding directory_stream_def q(1) [symmetric]
    by (rule page_field) (use keptD(5) [OF k02 stable_live [OF inv lp]] off(2) [OF _ lp] q(3) in auto)
  have dq: "d \<noteq> q" using new [OF stable_live [OF inv lq, of q]] kmalloc_heap.live_nonnull [OF inv2 ld] by auto
  have q2: "fat_stream io q s2"
    by (rule fat_stream_kept [OF inv q(2) k02]) (use dir_scratch_other [OF stack inv lq] in blast)
  obtain s3 where s3: "diskstreamer_read io (sector_buffer l 1) 0 q d (of_nat n) (s2\<lparr>phys := store32 (phys s2) q (of_nat (512 * R))\<rparr>) = Some (0, s3)"
    "changed_only (\<lambda>x. dir_scratch l q x \<or> in_region d (of_nat n) x) s2 s3"
    "\<And>i. i < n \<Longrightarrow> phys s3 (d + of_nat i) = img (512 * R + i)"
    using root_read [OF dev stack inv2 q2 ld z(3) dq n] by blast
  have n_kd: "in_region d (of_nat n) x \<Longrightarrow> in_region d 4096 x" for x by (rule in_region_mono [OF _ z(3)])
  have k3: "kept (\<lambda>x. dir_scratch l q x \<or> in_region d (of_nat n) x) s2 s3" "kheap_live s3 = kheap_live s2" "kchunks s3 = kchunks s2"
    by (rule kept_changed [OF inv2 s3(2)],
        use off(1) n_kd kheap_live_not_in_table [OF inv2 ld] in blast)+
  have "kept (dir_scratch l q) s s3" by (rule kept_trans [OF k02 k3(1)]) (use new n_kd in blast)
  then show thesis
    using s1(1) alloc z(2,4,5) zf(3) str keptD(4) [OF k02] s3(1,3) k3(2,3) k1(2,3) new
    by (intro that [of s1 d s2 s3]) (simp_all add: kheap_pages_def)
qed

lemma root_directory_read:
  assumes dev: "ata io regs pending polls img" and stack: "stack_layout l" and inv: "kheap_inv s"
    and priv: "fat_private_at p s" and q: "directory_stream (phys s) p = q" "fat_stream io q s" "q \<noteq> p"
    and hdr: "root_header R N p (phys s)" "0 < N" and dir: "directory_ends img (512 * R) k"
    and fits: "512 * R + 32 * Suc k < 2 ^ 31" "512 * R + 32 * N < 2 ^ 31" and pages: "0 < kheap_pages s" "N \<le> 128"
  obtains d s' where "fat16_get_root_directory io l p (root_directory p) s = Some (0, s')"
    and "kept (\<lambda>x. dir_scratch l q x \<or> in_region (root_directory p) 16 x) s s'"
    and "kheap_live s' = insert (d, 4096) (kheap_live s)" and "Suc (kheap_pages s') = kheap_pages s"
    and "\<And>k. (d, k) \<notin> kheap_live s" and "root_loaded img R N k p d (phys s')"
proof -
  let ?n = "32 * N" and ?root = "in_region (root_directory p) 16"
  have lp: "(p, 4096) \<in> kheap_live s" and f: "sector_size (the_disk s) = 512" using priv by (simp_all add: fat_private_at_def)
  have n: "0 < ?n" "?n < 2 ^ 31" "?n \<le> 4096" using hdr(2) fits(2) pages(2) by simp_all
  obtain d s1 s2 s3 where r: "fat16_get_total_items_for_directory io l (of_nat R) s = Some (of_nat (entries_kept img (512 * R) k), s1)"
    "kzalloc (of_nat ?n) s1 = (d, s2)" "d \<noteq> 0" "directory_stream (phys s2) p = q" "the_disk s2 = the_disk s"
    "diskstreamer_read io (sector_buffer l 1) 0 q d (of_nat ?n) (s2\<lparr>phys := store32 (phys s2) q (of_nat (512 * R))\<rparr>) = Some (0, s3)"
    "kept (dir_scratch l q) s s3" "kheap_live s3 = insert (d, 4096) (kheap_live s)" "Suc (kheap_pages s3) = kheap_pages s"
    "\<And>x. kheap_stable s x \<Longrightarrow> \<not> in_region d 4096 x" "\<And>k. (d, k) \<notin> kheap_live s"
    "\<And>i. i < ?n \<Longrightarrow> phys s3 (d + of_nat i) = img (512 * R + i)"
    by (rule root_entries_read [OF dev stack inv priv q dir n(1) fits(2,1) pages(1) n(3)]) (rule that; assumption)
  define m where "m = store32 (store32 (store32 (store32 (phys s3) (root_directory p) d) (root_directory p + 4) (of_nat (entries_kept img (512 * R) k)))
    (root_directory p + 8) (of_nat R)) (root_directory p + 12) (of_nat R + of_nat (?n div 512))"
  note dw = dir_words [where m = "phys s3" and d = "root_directory p" and a = d
    and b = "of_nat (entries_kept img (512 * R) k)" and c = "of_nat R" and e = "of_nat R + of_nat (?n div 512)", folded m_def]
  have root_page: "in_region p 4096 x" if "?root x" for x
    using sub_region(1) [of 64 4096 p x] in_region_mono [OF that, of "4096 - 64"] by (simp add: root_directory_def)
  note inv3 = keptD(1) [OF r(7)]
  have "(p, 4096) \<in> kheap_live s3" using lp r(8) by simp
  then have k4: "kept ?root s3 (s3\<lparr>phys := m\<rparr>)" "kheap_live (s3\<lparr>phys := m\<rparr>) = kheap_live s3" "kchunks (s3\<lparr>phys := m\<rparr>) = kchunks s3"
    by (rule_tac [!] kept_changed [OF inv3 changed_only_write [OF dw(4)]])
       (use root_page kheap_live_not_in_table [OF inv3] in blast)+
  have abs: "fat16_sector_to_absolute (of_nat R) s2 = of_nat (512 * R)"
    using f by (simp add: fat16_sector_to_absolute_def r(5))
  show thesis
  proof (rule that [of "s3\<lparr>phys := m\<rparr>" d])
    show "fat16_get_root_directory io l p (root_directory p) s = Some (0, s3\<lparr>phys := m\<rparr>)"
      unfolding fat16_get_root_directory_def Let_def root_header_words [OF hdr(1)] f
      using r(1-6) of_nat_divmod(1) [OF n(2), of 512] keptD(4) [OF r(7)] abs
      by (simp add: f diskstreamer_seek_def lameos_ok_def m_def del: of_nat_mult)
    show "kept (\<lambda>x. dir_scratch l q x \<or> ?root x) s (s3\<lparr>phys := m\<rparr>)"
      by (rule kept_trans [OF kept_mono [OF r(7)] k4(1)]) simp_all
    show "kheap_live (s3\<lparr>phys := m\<rparr>) = insert (d, 4096) (kheap_live s)" "Suc (kheap_pages (s3\<lparr>phys := m\<rparr>)) = kheap_pages s"
      using k4(2,3) r(8,9) by (simp_all add: kheap_pages_def)
    have "m (d + of_nat i) = img (512 * R + i)" if i: "i < ?n" for i
    proof -
      have "in_region d 4096 (d + of_nat i)"
        by (rule in_region_mono [of _ "of_nat ?n"]) (use i n(2,3) in \<open>simp_all add: in_region_of_nat word_le_nat_alt del: of_nat_mult\<close>)
      then have "\<not> in_region p 4096 (d + of_nat i)" using r(10) stable_live [OF inv lp] by blast
      then show ?thesis using r(12) [OF i] dw(4) root_page by metis
    qed
    then show "root_loaded img R N k p d (phys (s3\<lparr>phys := m\<rparr>))"
      using dw(1-3) by (simp add: root_loaded_def)
  qed (rule r(11))
qed

section \<open>Property\<close>

text \<open>C32. \<open>fat16_get_total_items_for_directory\<close> ends on every directory that has an entry with a zero
  first byte in the part of the disk a stream can address, and returns the number of entries
  before it that are not deleted. Only that entry stops it: it reads on past the end of a full
  directory. Nothing changes but the position of the stream and the local objects.\<close>

theorem fat16_get_total_items_ends:
  assumes "ata io regs pending polls img" and "fs_private (the_disk s) = p" and "sector_size (the_disk s) = 512"
    and "directory_stream (phys s) p = q" and "load32 (phys s) (q + 4) = disk_addr io"
    and "read_apart (sector_buffer l 0) q (item_buffer l) 32"
    and "apart (empty_item_buffer l) 32 p 92" and "apart (empty_item_buffer l) 32 q 8"
    and "directory_ends img (512 * sec) k" and "512 * sec + 32 * Suc k < 2 ^ 31"
  shows "\<exists>s'. fat16_get_total_items_for_directory io l (of_nat sec) s =
      Some (of_nat (length (filter (\<lambda>i. img (512 * sec + 32 * i) \<noteq> 0xE5) [0..<k])), s') \<and>
    changed_only (dir_scratch l q) s s'"
  using total_items_apart [OF assms] by (simp add: entries_kept_def entry_at_def)

text \<open>A volume of one sector per cluster: a boot sector, two tables of one sector, and a root directory
  at sector 3 with \<open>BLANK.BIN\<close>, a deleted entry and the second file \<open>A\<close>. The clusters start at
  sector 4.\<close>

definition volume_image :: "nat \<Rightarrow> u8" where
  "volume_image = (\<lambda>_. 0)(13 := 1, 14 := 1, 16 := 2, 17 := 16, 22 := 1, 38 := 0x29,
     1536 := 0x42, 1537 := 0x4C, 1538 := 0x41, 1539 := 0x4E, 1540 := 0x4B, 1541 := 0x20, 1542 := 0x20, 1543 := 0x20,
     1544 := 0x42, 1545 := 0x49, 1546 := 0x4E, 1547 := 0x20, 1562 := 2, 1564 := 2, 1568 := 0xE5,
     1600 := 0x41, 1601 := 0x20, 1608 := 0x20, 1611 := 0x20, 1626 := 3, 1628 := 1, 2048 := 0x48, 2049 := 0x69)"

definition dir_kernel :: "sample_device files" where
  "dir_kernel = file_kernel\<lparr>
     phys := store_fields 0x500000 [(88, 0x510000), (0x10004, 0x200000)] (\<lambda>_. 0),
     the_disk := (the_disk file_kernel)\<lparr>fs_private := 0x500000, sector_size := 512\<rparr>\<rparr>"

lemma volume_directory: "directory_ends volume_image (512 * 3) 3"
proof -
  have "i < 3 \<longleftrightarrow> i = 0 \<or> i = 1 \<or> i = 2" for i :: nat by auto
  then show ?thesis by (auto simp: directory_ends_def entry_at_def volume_image_def)
qed

theorem fat16_get_total_items_ends_witness:
  "\<exists>s'. fat16_get_total_items_for_directory (image_ports volume_image) sample_layout 3 dir_kernel = Some (2, s')"
proof -
  have q: "directory_stream (phys dir_kernel) 0x500000 = 0x510000"
    "load32 (phys dir_kernel) (0x510000 + 4) = disk_addr (image_ports volume_image)"
    by (simp_all add: dir_kernel_def directory_stream_def image_ports_def store32_def load32_def)
  have f: "fs_private (the_disk dir_kernel) = 0x500000" "sector_size (the_disk dir_kernel) = 512"
    by (simp_all add: dir_kernel_def)
  have ap: "read_apart (sector_buffer sample_layout 0) 0x510000 (item_buffer sample_layout) 32"
    "apart (empty_item_buffer sample_layout) 32 0x500000 92" "apart (empty_item_buffer sample_layout) 32 0x510000 8"
    by (simp_all add: read_apart_def sample_layout_def apart_def)
  have "filter (\<lambda>i. volume_image (512 * 3 + 32 * i) \<noteq> 0xE5) [0..<3] = [0, 2]"
    by (simp add: volume_image_def upt_rec [of _ 3])
  with fat16_get_total_items_ends [OF image_ata f q ap volume_directory] show ?thesis by auto
qed

end
