(* ===== verification/Fat16Mount.thy ===== *)
theory Fat16Mount
  imports Fat16Dir
begin

text \<open>
  Mounting a disk: \<open>fat16_resolve\<close> from an untouched disk to the private data and the root directory
  the other operations of the driver work on, or to the error for a disk of another kind.
\<close>

section \<open>A new stream\<close>

lemma new_stream:
  assumes inv: "kheap_inv s" and pages: "0 < kheap_pages s" and io: "disk_addr io \<noteq> 0"
  obtains q s' where "diskstreamer_new io 0 s = (q, s')" and "kept (\<lambda>_. False) s s'"
    and "kheap_live s' = insert (q, 4096) (kheap_live s)" and "Suc (kheap_pages s') = kheap_pages s"
    and "\<And>x. kheap_stable s x \<Longrightarrow> \<not> in_region q 4096 x" and "\<And>k. (q, k) \<notin> kheap_live s" and "q \<noteq> 0"
    and "load32 (phys s') q = 0" and "load32 (phys s') (q + 4) = disk_addr io"
proof -
  have n: "(0 :: u32) < 8" "(8 :: u32) \<le> 4096" by simp_all
  obtain q s1 where alloc: "kzalloc 8 s = (q, s1)" by (cases "kzalloc 8 s")
  note z = kzalloc_page_facts [OF inv pages n alloc]
  obtain k where k: "kept (\<lambda>_. False) s s1"
    by (rule kept_kzalloc [OF inv kheap_page_room [OF pages n] alloc]) blast
  define m where "m = store32 (store32 (phys s1) q 0) (q + 4) (disk_addr io)"
  let ?w = "in_region q 8"
  have m: "m x = phys s1 x" if "\<not> ?w x" for x
  proof -
    have "\<not> in_region q 4 x" "\<not> in_region (q + 4) 4 x" using that stream_words by blast+
    then show ?thesis by (simp add: m_def store32_other)
  qed
  have page: "in_region q 4096 x" if "?w x" for x using that by (rule in_region_mono) simp
  have "(q, 4096) \<in> kheap_live s1" using z(2) by simp
  note w = kept_page_write [where w = ?w and m = m, OF z(1) this m page]
  have k': "kept (\<lambda>_. False) s (s1\<lparr>phys := m\<rparr>)"
  proof (rule kept_trans [OF k w(1)])
    show False if "kheap_stable s x" "?w x" for x using z(8) [OF that(1)] page [OF that(2)] by blast
  qed
  have l: "load32 m q = 0" "load32 m (q + 4) = disk_addr io"
    using load32_store32_apart [OF offsets_apart [of 4 0 q]] by (simp_all add: m_def)
  have op: "diskstreamer_new io 0 s = (q, s1\<lparr>phys := m\<rparr>)"
    using io by (simp add: diskstreamer_new_def disk_get_def alloc m_def)
  show thesis
    by (rule that [OF op k']) (use w(3,4) z(2,3,4,5,8) l in simp_all)
qed

text \<open>The driver keeps a new stream in a field of its private struct.\<close>

definition attached ::
  "'d ports \<Rightarrow> ptr \<Rightarrow> u32 \<Rightarrow> ptr \<Rightarrow> ('d, 'a) files_scheme \<Rightarrow> ('d, 'a) files_scheme \<Rightarrow> bool" where
  "attached io p f q s s' \<longleftrightarrow> kept (in_region (p + f) 4) s s' \<and> kheap_live s' = insert (q, 4096) (kheap_live s) \<and>
     Suc (kheap_pages s') = kheap_pages s \<and> (\<forall>k. (q, k) \<notin> kheap_live s) \<and>
     load32 (phys s') (p + f) = q \<and> fat_stream io q s'"

lemma attach_stream:
  assumes inv: "kheap_inv s" and pages: "0 < kheap_pages s" and io: "disk_addr io \<noteq> 0"
    and p: "(p, 4096) \<in> kheap_live s" and f: "unat f + 4 \<le> 4096"
  obtains q s1 where "diskstreamer_new io 0 s = (q, s1)" and "the_disk s1 = the_disk s"
    and "attached io p f q s (s1\<lparr>phys := store32 (phys s1) (p + f) q\<rparr>)"
proof -
  obtain q s1 where n: "diskstreamer_new io 0 s = (q, s1)" "kept (\<lambda>_. False) s s1"
    "kheap_live s1 = insert (q, 4096) (kheap_live s)" "Suc (kheap_pages s1) = kheap_pages s"
    "\<And>x. kheap_stable s x \<Longrightarrow> \<not> in_region q 4096 x" "\<And>k. (q, k) \<notin> kheap_live s"
    "load32 (phys s1) (q + 4) = disk_addr io"
    using new_stream [OF inv pages io] by metis
  note inv1 = keptD(1) [OF n(2)]
  let ?w = "in_region (p + f) 4"
  have page: "in_region p 4096 x" if "?w x" for x using field_in_struct [of f 4096 p x] f that by simp
  have "(p, 4096) \<in> kheap_live s1" using n(3) p by simp
  note w = kept_page_write [where w = ?w and m = "store32 (phys s1) (p + f) q", OF inv1 this store32_other page]
  define s' where "s' = s1\<lparr>phys := store32 (phys s1) (p + f) q\<rparr>"
  have "(q, 4096) \<in> kheap_live s1" using n(3) by simp
  then have q1: "fat_stream io q s1" using n(7) by (simp add: fat_stream_def)
  have "fat_stream io q s'" unfolding s'_def
  proof (rule fat_stream_kept [OF inv1 q1 w(1)])
    show "in_region q 4 x" if "?w x" "in_region q 4096 x" for x
      using n(5) [OF stable_live [OF inv p page [OF that(1)]]] that(2) by blast
  qed
  moreover have "kept ?w s s'" unfolding s'_def by (rule kept_trans [OF kept_mono [OF n(2)] w(1)]) simp_all
  ultimately have "attached io p f q s s'" using n(3,4,6) w(3,4) by (simp add: attached_def s'_def)
  then show thesis using n(1) keptD(4) [OF n(2)] by (intro that) (simp_all add: s'_def)
qed

section \<open>The private data\<close>

definition private_streams :: "'d ports \<Rightarrow> ptr \<Rightarrow> ptr \<Rightarrow> ptr \<Rightarrow> ptr \<Rightarrow> ('d, 'a) files_scheme \<Rightarrow> bool" where
  "private_streams io p cs fs ds s \<longleftrightarrow> (p, 4096) \<in> kheap_live s \<and> distinct [p, cs, fs, ds] \<and>
     cluster_read_stream (phys s) p = cs \<and> fat_read_stream (phys s) p = fs \<and> directory_stream (phys s) p = ds \<and>
     fat_stream io cs s \<and> fat_stream io fs s \<and> fat_stream io ds s"

lemma private_streams_kept:
  assumes inv: "kheap_inv s" and ps: "private_streams io p cs fs ds s" and k: "kept w s s'"
    and w: "\<And>x. w x \<Longrightarrow> in_region p 4096 x \<Longrightarrow> in_region p 80 x"
      "\<And>q x. q \<in> {cs, fs, ds} \<Longrightarrow> w x \<Longrightarrow> in_region q 4096 x \<Longrightarrow> in_region q 4 x"
  shows "private_streams io p cs fs ds s'"
proof -
  have lp: "(p, 4096) \<in> kheap_live s" using ps by (simp add: private_streams_def)
  have str: "fat_stream io q s'" if "q \<in> {cs, fs, ds}" for q
    by (rule fat_stream_kept [OF inv _ k w(2) [OF that]]) (use that ps in \<open>auto simp: private_streams_def\<close>)
  have field: "load32 (phys s') (p + f) = load32 (phys s) (p + f)" if f: "f \<in> {80, 84, 88}" for f
  proof (rule page_word_kept [OF inv lp k])
    show "unat f + 4 \<le> 4096" using f by auto
    fix x assume "w x"
    show "\<not> in_region (p + f) 4 x"
    proof
      assume x: "in_region (p + f) 4 x"
      then have "in_region p 4096 x" using f field_in_struct [of f 4096 p x] by auto
      with w(1) \<open>w x\<close> have "in_region p 80 x" by blast
      moreover have "apart p 80 (p + f) 4" using f by (auto simp: apart_def)
      ultimately show False using x apart_not_in by blast
    qed
  qed
  show ?thesis
    using ps field [of 80] field [of 84] field [of 88] str keptD(2) [OF k]
    by (auto simp: private_streams_def cluster_read_stream_def fat_read_stream_def directory_stream_def)
qed

lemma attached_kept:
  assumes inv: "kheap_inv s" and p: "(p, 4096) \<in> kheap_live s" and a: "attached io p f q s s1"
    and k: "kept w s1 s2" and f: "unat f + 4 \<le> 4096"
    and w: "\<And>x. w x \<Longrightarrow> in_region p 4096 x \<and> \<not> in_region (p + f) 4 x"
  shows "fat_stream io q s2" and "load32 (phys s2) (p + f) = q" and "q \<noteq> p"
proof -
  have a': "kept (in_region (p + f) 4) s s1" "kheap_live s1 = insert (q, 4096) (kheap_live s)"
    "\<And>k. (q, k) \<notin> kheap_live s" "load32 (phys s1) (p + f) = q" "fat_stream io q s1"
    using a by (simp_all add: attached_def)
  note inv1 = keptD(1) [OF a'(1)]
  have l1: "(p, 4096) \<in> kheap_live s1" "(q, 4096) \<in> kheap_live s1" using a'(2) p by simp_all
  show ne: "q \<noteq> p" using a'(3) p by auto
  show "fat_stream io q s2"
  proof (rule fat_stream_kept [OF inv1 a'(5) k])
    show "in_region q 4 x" if "w x" "in_region q 4096 x" for x
      using two_pages [OF inv1 l1(2,1) ne that(2)] w [OF that(1)] by simp
  qed
  show "load32 (phys s2) (p + f) = q"
    using page_word_kept [OF inv1 l1(1) k f] w a'(4) by simp
qed

lemma attached_page:
  assumes "attached io p f q s s'" and "(p, 4096) \<in> kheap_live s" and "unat f + 4 \<le> 4096"
  shows "kheap_inv s'" and "(p, 4096) \<in> kheap_live s'" and "kept (in_region p 4096) s s'"
    and "kheap_live s' = insert (q, 4096) (kheap_live s)" and "Suc (kheap_pages s') = kheap_pages s"
    and "(q, k) \<notin> kheap_live s"
proof -
  have k: "kept (in_region (p + f) 4) s s'" using assms(1) by (simp add: attached_def)
  show "kheap_inv s'" by (rule keptD(1) [OF k])
  show "kept (in_region p 4096) s s'"
    by (rule kept_mono [OF k]) (use assms(3) field_in_struct [of f 4096 p] in simp)
qed (use assms in \<open>simp_all add: attached_def\<close>)

lemma attached_all:
  assumes inv: "kheap_inv s" and p: "(p, 4096) \<in> kheap_live s"
    and a: "attached io p 80 cs s s1" "attached io p 84 fs s1 s2" "attached io p 88 ds s2 s3"
  shows "private_streams io p cs fs ds s3" and "kept (in_region p 4096) s s3"
    and "kheap_live s3 = {(cs, 4096), (fs, 4096), (ds, 4096)} \<union> kheap_live s" and "kheap_pages s3 + 3 = kheap_pages s"
    and "q \<in> {cs, fs, ds} \<Longrightarrow> (q, k) \<notin> kheap_live s"
proof -
  note p1 = attached_page [OF a(1) p] and p2 = attached_page [OF a(2)] and p3 = attached_page [OF a(3)]
  have i: "kheap_inv s1" "(p, 4096) \<in> kheap_live s1" "kheap_inv s2" "(p, 4096) \<in> kheap_live s2"
    using p1(1,2) p2(1,2) by simp_all
  show "kept (in_region p 4096) s s3"
    using kept_trans [OF p1(3) p2(3) [OF i(2)]] kept_trans [OF _ p3(3) [OF i(4)]] by simp
  show "kheap_live s3 = {(cs, 4096), (fs, 4096), (ds, 4096)} \<union> kheap_live s" and "kheap_pages s3 + 3 = kheap_pages s"
    and "q \<in> {cs, fs, ds} \<Longrightarrow> (q, k) \<notin> kheap_live s"
    using p1(4-6) p2(4-6) [OF i(2)] p3(4-6) [OF i(4)] by auto
  have k: "kept (in_region (p + 84) 4) s1 s2" "kept (in_region (p + 88) 4) s2 s3" "fat_stream io ds s3" "load32 (phys s3) (p + 88) = ds"
    using a(2,3) by (simp_all add: attached_def)
  have k': "kept (\<lambda>x. in_region (p + 84) 4 x \<or> in_region (p + 88) 4 x) s1 s3"
    by (rule kept_trans [OF kept_mono [OF k(1)] k(2)]) simp_all
  have ap: "apart (p + 80) 4 (p + 84) 4" "apart (p + 80) 4 (p + 88) 4" "apart (p + 84) 4 (p + 88) 4"
    by (simp_all add: apart_def)
  have page: "in_region p 4096 x" if "in_region (p + 84) 4 x \<or> in_region (p + 88) 4 x" for x
    using that field_in_struct [of 84 4096 p x] field_in_struct [of 88 4096 p x] by auto
  have "fat_stream io cs s3" "load32 (phys s3) (p + 80) = cs"
    by (rule attached_kept [OF inv p a(1) k'], simp, use ap(1,2) page apart_not_in in blast)+
  moreover have "fat_stream io fs s3" "load32 (phys s3) (p + 84) = fs"
    by (rule attached_kept [OF i(1,2) a(2) k(2)], simp, use ap(3) page apart_not_in in blast)+
  moreover have "distinct [p, cs, fs, ds]"
    using p p1(4) p1(6) [of 4096] p2(4) [OF i(2)] p2(6) [OF i(2), of 4096] p3(6) [OF i(4), of 4096] by auto
  ultimately show "private_streams io p cs fs ds s3"
    using k(3,4) p3(2) [OF i(4)] by (simp add: private_streams_def cluster_read_stream_def fat_read_stream_def directory_stream_def)
qed

lemma init_private:
  assumes inv: "kheap_inv s" and pages: "4 \<le> kheap_pages s" and io: "disk_addr io \<noteq> 0" and dsk: "disk_id (the_disk s) = 0"
  obtains p s1 s2 cs fs ds where "kzalloc 92 s = (p, s1)" and "fat16_init_private io p s1 = s2" and "kept (\<lambda>_. False) s s2"
    and "kheap_live s2 = {(p, 4096), (cs, 4096), (fs, 4096), (ds, 4096)} \<union> kheap_live s"
    and "kheap_pages s2 + 4 = kheap_pages s" and "\<And>x. kheap_stable s x \<Longrightarrow> \<not> in_region p 4096 x"
    and "private_streams io p cs fs ds s2" and "\<And>q k. q \<in> {p, cs, fs, ds} \<Longrightarrow> (q, k) \<notin> kheap_live s"
proof -
  have n: "0 < kheap_pages s" "(0 :: u32) < 92" "(92 :: u32) \<le> 4096" using pages by simp_all
  obtain p s1 where alloc: "kzalloc 92 s = (p, s1)" by (cases "kzalloc 92 s")
  note z = kzalloc_page_facts [OF inv n alloc]
  obtain k where k1: "kept (\<lambda>_. False) s s1"
    by (rule kept_kzalloc [OF inv kheap_page_room [OF n] alloc]) blast
  define t0 where "t0 = s1\<lparr>phys := memset p 0 92 (phys s1)\<rparr>"
  let ?P = "in_region p 4096"
  have lp1: "(p, 4096) \<in> kheap_live s1" using z(2) by simp
  have ms: "memset p 0 92 (phys s1) x = phys s1 x" if "\<not> ?P x" for x
    using that in_region_mono [of p 92 x 4096] by (auto simp: memset_apply)
  note w0 = kept_page_write [where w = ?P and m = "memset p 0 92 (phys s1)", OF z(1) lp1 ms, folded t0_def]
  have b: "kheap_inv t0" "(p, 4096) \<in> kheap_live t0" and g0: "3 \<le> kheap_pages t0" and d0: "the_disk t0 = the_disk s"
    using keptD(1) [OF w0(1)] keptD(4) [OF k1] w0(3,4) z(3) lp1 pages by (simp_all add: t0_def)
  have "0 < kheap_pages t0" using g0 by simp
  then obtain cs u1 where a1: "diskstreamer_new io 0 t0 = (cs, u1)" "the_disk u1 = the_disk t0"
    "attached io p 80 cs t0 (u1\<lparr>phys := store32 (phys u1) (p + 80) cs\<rparr>)"
    using attach_stream [OF b(1) _ io b(2), of 80] by auto
  let ?t1 = "u1\<lparr>phys := store32 (phys u1) (p + 80) cs\<rparr>"
  note p1 = attached_page [OF a1(3) b(2)]
  have "0 < kheap_pages ?t1" "kheap_inv ?t1" "(p, 4096) \<in> kheap_live ?t1" using p1(1,2,5) g0 by simp_all
  then obtain fs u2 where a2: "diskstreamer_new io 0 ?t1 = (fs, u2)" "the_disk u2 = the_disk ?t1"
    "attached io p 84 fs ?t1 (u2\<lparr>phys := store32 (phys u2) (p + 84) fs\<rparr>)"
    using attach_stream [of ?t1 io p 84] io by auto
  let ?t2 = "u2\<lparr>phys := store32 (phys u2) (p + 84) fs\<rparr>"
  note p2 = attached_page [OF a2(3) \<open>(p, 4096) \<in> kheap_live ?t1\<close>]
  have "0 < kheap_pages ?t2" "kheap_inv ?t2" "(p, 4096) \<in> kheap_live ?t2" using p2(1,2,5) p1(5) g0 by simp_all
  then obtain ds u3 where a3: "diskstreamer_new io 0 ?t2 = (ds, u3)" "the_disk u3 = the_disk ?t2"
    "attached io p 88 ds ?t2 (u3\<lparr>phys := store32 (phys u3) (p + 88) ds\<rparr>)"
    using attach_stream [of ?t2 io p 88] io by auto
  let ?t3 = "u3\<lparr>phys := store32 (phys u3) (p + 88) ds\<rparr>"
  note all = attached_all [OF b a1(3) a2(3) a3(3)]
  have op: "fat16_init_private io p s1 = ?t3"
    using a1(1,2) a2(1,2) a3(1) d0 dsk by (simp add: fat16_init_private_def Let_def t0_def [symmetric] sizeof_fat_private_def)
  have "kept (\<lambda>_. False) s t0" by (rule kept_trans [OF k1 w0(1)]) (use z(8) in blast)+
  then have k: "kept (\<lambda>_. False) s ?t3" by (rule kept_trans [OF _ all(2)]) (use z(8) in blast)
  show thesis
    by (rule that [OF alloc op k]) (use all w0(3,4) z(2,3,4,8) in auto)
qed

section \<open>The boot sector\<close>

text \<open>The header as it lies on the disk, and what it must say for the driver to take the disk: the
  signature, and a root directory of at most 128 entries, one page, that ends at entry \<open>k\<close>.\<close>

definition boot_bytes :: "(nat \<Rightarrow> u8) \<Rightarrow> mem" where
  "boot_bytes img a = img (unat a)"

definition fat_disk :: "(nat \<Rightarrow> u8) \<Rightarrow> nat \<Rightarrow> nat \<Rightarrow> nat \<Rightarrow> nat \<Rightarrow> nat \<Rightarrow> bool" where
  "fat_disk img spc r R N k \<longleftrightarrow> hdr_signature (boot_bytes img) 0 = lameos_fat16_signature \<and>
     unat (hdr_sectors_per_cluster (boot_bytes img) 0) = spc \<and> 0 < spc \<and>
     unat (hdr_reserved_sectors (boot_bytes img) 0) = r \<and> root_header R N 0 (boot_bytes img) \<and>
     0 < N \<and> N \<le> 128 \<and> directory_ends img (512 * R) k \<and>
     512 * R + 32 * Suc k < 2 ^ 31 \<and> 512 * R + 32 * N < 2 ^ 31"

lemma header_in_memory:
  assumes "\<And>i. i < 62 \<Longrightarrow> m (p + of_nat i) = img i"
  shows "hdr_signature m p = hdr_signature (boot_bytes img) 0"
    and "hdr_sectors_per_cluster m p = hdr_sectors_per_cluster (boot_bytes img) 0"
    and "hdr_reserved_sectors m p = hdr_reserved_sectors (boot_bytes img) 0"
    and "root_header R N p m = root_header R N 0 (boot_bytes img)"
  using assms [of 13] assms [of 14] assms [of 15] assms [of 16] assms [of 17] assms [of 18] assms [of 22] assms [of 23] assms [of 38]
  by (simp_all add: hdr_signature_def hdr_sectors_per_cluster_def hdr_reserved_sectors_def root_header_def
      hdr_root_dir_entries_def hdr_fat_copies_def hdr_sectors_per_fat_def load16_def boot_bytes_def add.assoc)

definition local_byte :: "layout \<Rightarrow> ptr \<Rightarrow> bool" where
  "local_byte l x \<longleftrightarrow> in_region (item_buffer l) 32 x \<or> in_region (empty_item_buffer l) 32 x \<or>
     (\<exists>d k. in_region (sector_buffer l d k) 512 x)"

lemma dir_scratch_local: "dir_scratch l q x \<longleftrightarrow> in_region q 4 x \<or> local_byte l x"
  by (auto simp: dir_scratch_def local_byte_def)

lemma local_off_table: "stack_layout l \<Longrightarrow> local_byte l x \<Longrightarrow> \<not> in_table boot_heap x \<and> \<not> in_heap x"
  by (auto simp: local_byte_def stack_layout_def off_heap_def)

text \<open>Reading the header into the private struct through a stream of its own.\<close>

lemma read_header:
  assumes dev: "ata io regs pending polls img" and stack: "stack_layout l" and inv: "kheap_inv s"
    and p: "(p, 4096) \<in> kheap_live s" and q: "(q, 4096) \<in> kheap_live s" "q \<noteq> p"
    and str: "load32 (phys s) q = 0" "load32 (phys s) (q + 4) = disk_addr io"
  obtains s' where "diskstreamer_read io (sector_buffer l 2) 0 q p 62 s = Some (0, s')"
    and "kept (\<lambda>x. in_region q 4 x \<or> in_region p 62 x \<or> local_byte l x) s s'" and "kchunks s' = kchunks s"
    and "\<And>i. i < 62 \<Longrightarrow> phys s' (p + of_nat i) = img i"
proof -
  have "(q, 4096) \<noteq> (p, 4096 :: u32)" using q(2) by simp
  note ap = kmalloc_heap.live_apart [OF inv q(1) p this] off_heap_live [OF _ _ inv p, of "sector_buffer l 2 _" 512]
    off_heap_live [OF _ _ inv q(1), of "sector_buffer l 2 _" 512]
  have "off_heap (sector_buffer l 2 j) 512" for j using stack by (simp add: stack_layout_def)
  then have sep: "read_apart (sector_buffer l 2) q p 62"
    using apart_subregion [OF ap(1), of 8 62] apart_subregion [OF ap(2), of _ 512 62] apart_subregion [OF ap(3), of _ 512 8]
    by (simp add: read_apart_def)
  have pos: "load32 (phys s) q = of_nat 0" using str(1) by simp
  obtain s' where s': "diskstreamer_read io (sector_buffer l 2) 0 q p (of_nat 62) s = Some (0, s')"
    "changed_only (\<lambda>x. in_region q 4 x \<or> in_region p (of_nat 62) x \<or> (\<exists>j. in_region (sector_buffer l 2 j) 512 x)) s s'"
    "\<And>i. i < 62 \<Longrightarrow> phys s' (p + of_nat i) = img (0 + i)"
    using stream_read [OF dev str(2) pos _ _ sep, of 0] by auto
  let ?w = "\<lambda>x. in_region q 4 x \<or> in_region p 62 x \<or> local_byte l x"
  have off: "\<not> in_table boot_heap x" if "?w x" for x
    using that local_off_table [OF stack, of x] in_region_mono [of q 4 x 4096] in_region_mono [of p 62 x 4096]
      kheap_live_not_in_table [OF inv p, of x] kheap_live_not_in_table [OF inv q(1), of x] by auto
  have "changed_only ?w s s'" by (rule changed_only_mono [OF s'(2)]) (auto simp: local_byte_def)
  from kept_changed [OF inv this off] s'(1,3) show thesis by (intro that [of s']) simp_all
qed

section \<open>Mounting\<close>

definition volume_disk :: "layout \<Rightarrow> ptr \<Rightarrow> disk \<Rightarrow> disk" where
  "volume_disk l p d = d\<lparr>disk_filesystem := fat16_fs_addr l, fs_private := p\<rparr>"

text \<open>The driver up to the end of the header: the private data is set up, and a fifth page holds the
  stream the header was read through.\<close>

lemma resolve_header:
  assumes dev: "ata io regs pending polls img" and stack: "stack_layout l" and inv: "kheap_inv s"
    and pages: "5 \<le> kheap_pages s" and io: "disk_addr io \<noteq> 0" and dsk: "disk_id (the_disk s) = 0"
  obtains p s1 s2 cs fs ds q s4 s5 where "kzalloc sizeof_fat_private s = (p, s1)" and "fat16_init_private io p s1 = s2"
    and "diskstreamer_new io 0 (s2\<lparr>the_disk := volume_disk l p (the_disk s)\<rparr>) = (q, s4)" and "q \<noteq> 0" and "the_disk s2 = the_disk s"
    and "diskstreamer_read io (sector_buffer l 2) 0 q p sizeof_fat_h s4 = Some (0, s5)"
    and "\<And>i. i < 62 \<Longrightarrow> phys s5 (p + of_nat i) = img i" and "private_streams io p cs fs ds s5" and "kheap_inv s5"
    and "kheap_live s5 = (\<lambda>a. (a, 4096)) ` {p, cs, fs, ds, q} \<union> kheap_live s" and "kheap_pages s5 + 5 = kheap_pages s"
    and "q \<notin> {p, cs, fs, ds}" and "\<And>a k. a \<in> {p, cs, fs, ds, q} \<Longrightarrow> (a, k) \<notin> kheap_live s"
    and "the_disk s5 = volume_disk l p (the_disk s)"
    and "\<And>x. kheap_stable s x \<Longrightarrow> \<not> local_byte l x \<Longrightarrow> phys s5 x = phys s x"
    and "\<And>x. kheap_stable s x \<Longrightarrow> kheap_stable s5 x" and "\<And>x. kheap_stable s x \<Longrightarrow> \<not> in_region p 4096 x"
    and "disk_only s s5"
proof -
  have g4: "4 \<le> kheap_pages s" using pages by simp
  obtain p s1 s2 cs fs ds where i: "kzalloc 92 s = (p, s1)" "fat16_init_private io p s1 = s2" "kept (\<lambda>_. False) s s2"
    "kheap_live s2 = {(p, 4096), (cs, 4096), (fs, 4096), (ds, 4096)} \<union> kheap_live s" "kheap_pages s2 + 4 = kheap_pages s"
    "\<And>x. kheap_stable s x \<Longrightarrow> \<not> in_region p 4096 x" "private_streams io p cs fs ds s2"
    "\<And>q k. q \<in> {p, cs, fs, ds} \<Longrightarrow> (q, k) \<notin> kheap_live s"
    by (rule init_private [OF inv g4 io dsk]) (rule that; assumption)
  define s3 where "s3 = s2\<lparr>the_disk := volume_disk l p (the_disk s)\<rparr>"
  have inv3: "kheap_inv s3" and pages3: "0 < kheap_pages s3" and live3: "kheap_live s3 = kheap_live s2" and ph3: "phys s3 = phys s2"
    using keptD(1) [OF i(3)] i(5) pages by (simp_all add: s3_def)
  obtain q s4 where n: "diskstreamer_new io 0 s3 = (q, s4)" "kept (\<lambda>_. False) s3 s4"
    "kheap_live s4 = insert (q, 4096) (kheap_live s3)" "Suc (kheap_pages s4) = kheap_pages s3"
    "\<And>k. (q, k) \<notin> kheap_live s3" "q \<noteq> 0" "load32 (phys s4) q = 0" "load32 (phys s4) (q + 4) = disk_addr io"
    "\<And>x. kheap_stable s3 x \<Longrightarrow> \<not> in_region q 4096 x"
    by (rule new_stream [OF inv3 pages3 io]) (rule that; assumption)
  have inv4: "kheap_inv s4" and lp4: "(p, 4096) \<in> kheap_live s4" "(q, 4096) \<in> kheap_live s4" and qn: "q \<notin> {p, cs, fs, ds}"
    using keptD(1) [OF n(2)] n(3) n(5) [of 4096] i(4) live3 by auto
  obtain s5 where h: "diskstreamer_read io (sector_buffer l 2) 0 q p 62 s4 = Some (0, s5)"
    "kept (\<lambda>x. in_region q 4 x \<or> in_region p 62 x \<or> local_byte l x) s4 s5" "kchunks s5 = kchunks s4"
    "\<And>i. i < 62 \<Longrightarrow> phys s5 (p + of_nat i) = img i"
    using read_header [OF dev stack inv4 lp4 _ n(7,8)] qn by blast
  have ps3: "private_streams io p cs fs ds s3" using i(7) by (simp add: private_streams_def fat_stream_def live3 ph3)
  have ps4: "private_streams io p cs fs ds s4" by (rule private_streams_kept [OF inv3 ps3 n(2)]) simp_all
  have in_heap: "in_heap x" if "in_region a 4096 x" "a \<in> {p, cs, fs, ds}" for a x
    by (rule live_in_heap [OF inv4 _ that(1)]) (use that(2) ps4 in \<open>auto simp: private_streams_def fat_stream_def\<close>)
  have not_q: "\<not> in_region q 4 x" if "in_region a 4096 x" "a \<in> {p, cs, fs, ds}" for a x
  proof -
    have "(a, 4096) \<in> kheap_live s4" "a \<noteq> q" using that(2) ps4 qn by (auto simp: private_streams_def fat_stream_def)
    from two_pages [OF inv4 this(1) lp4(2) this(2) that(1)] show ?thesis using in_region_mono [of q 4 x 4096] by auto
  qed
  have not_p: "\<not> in_region p 62 x" if "in_region a 4096 x" "a \<in> {cs, fs, ds}" for a x
  proof -
    have "(a, 4096) \<in> kheap_live s4" "a \<noteq> p" using that(2) ps4 by (auto simp: private_streams_def fat_stream_def)
    from two_pages [OF inv4 this(1) lp4(1) this(2) that(1)] show ?thesis using in_region_mono [of p 62 x 4096] by auto
  qed
  have ps5: "private_streams io p cs fs ds s5"
  proof (rule private_streams_kept [OF inv4 ps4 h(2)])
    fix x assume w: "in_region q 4 x \<or> in_region p 62 x \<or> local_byte l x"
    show "in_region p 80 x" if "in_region p 4096 x"
      using w not_q [OF that] in_heap [OF that] local_off_table [OF stack, of x] in_region_mono [of p 62 x 80] by auto
    show "in_region a 4 x" if "a \<in> {cs, fs, ds}" "in_region a 4096 x" for a
      using w that not_q not_p in_heap local_off_table [OF stack] by (metis insertCI)
  qed
  have st: "kheap_stable s3 x" if "kheap_stable s x" for x using keptD(6) [OF i(3) that] by (simp add: s3_def)
  have same: "phys s5 x = phys s x" if x: "kheap_stable s x" "\<not> local_byte l x" for x
  proof -
    have "\<not> in_region q 4 x" "\<not> in_region p 62 x"
      using n(9) [OF st [OF x(1)]] i(6) [OF x(1)] in_region_mono [of q 4 x 4096] in_region_mono [of p 62 x 4096] by auto
    with x(2) have "phys s5 x = phys s4 x" using keptD(5) [OF h(2) keptD(6) [OF n(2) st [OF x(1)]]] by blast
    also have "\<dots> = phys s x" using keptD(5) [OF n(2) st [OF x(1)]] keptD(5) [OF i(3) x(1)] ph3 by simp
    finally show ?thesis .
  qed
  have live5: "kheap_live s5 = kheap_live s4" "kheap_pages s5 = kheap_pages s4"
    using h(3) by (simp_all add: kheap_live_def kheap_pages_def)
  have d: "the_disk s2 = the_disk s" "the_disk s5 = volume_disk l p (the_disk s)"
    using keptD(4) [OF i(3)] keptD(4) [OF n(2)] keptD(4) [OF h(2)] by (simp_all add: s3_def)
  have pages5: "kheap_pages s5 + 5 = kheap_pages s" using live5(2) n(4) i(5) pages by (simp add: s3_def)
  show thesis
  proof (rule that [OF i(1) [folded sizeof_fat_private_def] i(2) n(1) [unfolded s3_def] n(6) d(1) h(1) [folded sizeof_fat_h_def]
      h(4) ps5 keptD(1) [OF h(2)] _ pages5 qn _ d(2) same _ i(6)])
    show "kheap_live s5 = (\<lambda>a. (a, 4096)) ` {p, cs, fs, ds, q} \<union> kheap_live s" using live5(1) n(3) live3 i(4) by auto
    show "(a, k) \<notin> kheap_live s" if "a \<in> {p, cs, fs, ds, q}" for a k
      using that i(8) n(5) [of k] live3 i(4) by auto
    show "kheap_stable s5 x" if "kheap_stable s x" for x
      using keptD(6) [OF h(2) keptD(6) [OF n(2) st [OF that]]] .
    show "disk_only s s5"
      by (rule disk_only_trans [OF disk_only_kept [OF i(3)] disk_only_trans [OF disk_only_disk
            disk_only_trans [OF disk_only_kept [OF n(2) [unfolded s3_def]] disk_only_kept [OF h(2)]]]])
  qed
qed

definition mounted ::
  "'d ports \<Rightarrow> (nat \<Rightarrow> u8) \<Rightarrow> nat \<Rightarrow> nat \<Rightarrow> nat \<Rightarrow> nat \<Rightarrow> nat \<Rightarrow> ptr \<Rightarrow> ptr \<Rightarrow> ptr \<Rightarrow> ptr \<Rightarrow> ptr \<Rightarrow> ('d, 'a) files_scheme \<Rightarrow> bool" where
  "mounted io img spc r R N k p cs fs ds dir s \<longleftrightarrow>
     fat_volume io spc r (R + 32 * N div 512) p cs fs s \<and> private_streams io p cs fs ds s \<and> root_loaded img R N k p dir (phys s)"

text \<open>The root directory is loaded after the header.\<close>

lemma load_root:
  assumes dev: "ata io regs pending polls img" and stack: "stack_layout l" and inv: "kheap_inv s"
    and disk: "fat_disk img spc r R N k" and hdr: "\<And>i. i < 62 \<Longrightarrow> phys s (p + of_nat i) = img i"
    and ps: "private_streams io p cs fs ds s" and pages: "0 < kheap_pages s"
    and d: "fs_private (the_disk s) = p" "sector_size (the_disk s) = 512"
  obtains dir s' where "fat16_get_root_directory io l p (root_directory p) s = Some (0, s')"
    and "mounted io img spc r R N k p cs fs ds dir s'" and "kept (\<lambda>x. dir_scratch l ds x \<or> in_region p 4096 x) s s'"
    and "kheap_live s' = insert (dir, 4096) (kheap_live s)" and "Suc (kheap_pages s') = kheap_pages s"
    and "\<And>k. (dir, k) \<notin> kheap_live s"
proof -
  have f: "unat (hdr_sectors_per_cluster (boot_bytes img) 0) = spc" "0 < spc"
    "unat (hdr_reserved_sectors (boot_bytes img) 0) = r" "root_header R N 0 (boot_bytes img)" "0 < N" "N \<le> 128"
    "directory_ends img (512 * R) k" "512 * R + 32 * Suc k < 2 ^ 31" "512 * R + 32 * N < 2 ^ 31"
    using disk by (simp_all add: fat_disk_def)
  have lp: "(p, 4096) \<in> kheap_live s" and q: "directory_stream (phys s) p = ds" "fat_stream io ds s" "ds \<noteq> p"
    and lds: "(ds, 4096) \<in> kheap_live s"
    using ps by (auto simp: private_streams_def fat_stream_def)
  have priv: "fat_private_at p s" using lp d by (simp add: fat_private_at_def)
  have rh: "root_header R N p (phys s)" using header_in_memory(4) [where m = "phys s" and img = img, OF hdr] f(4) by simp
  obtain dir s' where rd: "fat16_get_root_directory io l p (root_directory p) s = Some (0, s')"
    "kept (\<lambda>x. dir_scratch l ds x \<or> in_region (root_directory p) 16 x) s s'"
    "kheap_live s' = insert (dir, 4096) (kheap_live s)" "Suc (kheap_pages s') = kheap_pages s"
    "\<And>k. (dir, k) \<notin> kheap_live s" "root_loaded img R N k p dir (phys s')"
    by (rule root_directory_read [OF dev stack inv priv q rh f(5,7,8,9) pages f(6)]) (rule that; assumption)
  have root: "in_region p 80 x" "\<not> in_region p 62 x" if "in_region (root_directory p) 16 x" for x
    using that sub_region(1) [of 64 80 p x] apart_not_in [of p 64 "p + 64" 16 x] in_region_mono [of p 62 x 64]
    by (auto simp: root_directory_def apart_def)
  note ds_only = dir_scratch_off_table(2) [OF stack inv lds]
  have "private_streams io p cs fs ds s'"
  proof (rule private_streams_kept [OF inv ps rd(2)])
    fix x assume w: "dir_scratch l ds x \<or> in_region (root_directory p) 16 x"
    show "in_region p 80 x" if "in_region p 4096 x"
      using w root(1) ds_only [OF _ lp] q(3) that by blast
    show "in_region a 4 x" if a: "a \<in> {cs, fs, ds}" "in_region a 4096 x" for a
    proof -
      have la: "(a, 4096) \<in> kheap_live s" "a \<noteq> p" using a(1) ps by (auto simp: private_streams_def fat_stream_def)
      have "\<not> in_region (root_directory p) 16 x"
        using two_pages [OF inv la(1) lp la(2) a(2)] root(1) in_region_mono [of p 80 x 4096] by auto
      then have "in_region ds 4 x" using w dir_scratch_other [OF stack inv la(1) a(2)] by blast
      then show ?thesis using ds_only [OF _ la(1)] a(2) w \<open>\<not> in_region (root_directory p) 16 x\<close> by blast
    qed
  qed
  moreover have hdr': "phys s' (p + of_nat i) = img i" if "i < 62" for i
  proof -
    have x: "in_region p 62 (p + of_nat i)" using that by (simp add: in_region_of_nat)
    then have page: "in_region p 4096 (p + of_nat i)" by (rule in_region_mono) simp
    have "\<not> dir_scratch l ds (p + of_nat i)" using ds_only [OF _ lp] q(3) page by blast
    then have "phys s' (p + of_nat i) = phys s (p + of_nat i)"
      using keptD(5) [OF rd(2) stable_live [OF inv lp page]] root(2) x by blast
    then show ?thesis using hdr [OF that] by simp
  qed
  moreover have "fs \<noteq> 0"
    using kmalloc_heap.live_nonnull [OF inv, of fs 4096] ps by (auto simp: private_streams_def fat_stream_def)
  moreover have "the_disk s' = the_disk s" by (rule keptD(4) [OF rd(2)])
  ultimately have "mounted io img spc r R N k p cs fs ds dir s'"
    using rd(6) header_in_memory(2,3) [where m = "phys s'" and img = img, OF hdr'] f(1-3) d
    by (simp add: mounted_def fat_volume_def root_loaded_def private_streams_def fat_stream_def)
  moreover have "kept (\<lambda>x. dir_scratch l ds x \<or> in_region p 4096 x) s s'"
    by (rule kept_mono [OF rd(2)]) (use root(1) in_region_mono [of p 80 _ 4096] in auto)
  ultimately show thesis using rd(1,3,4,5) by (intro that)
qed

text \<open>A mounted disk depends on the pages of the private data and of the root directory.\<close>

lemma mounted_pages:
  assumes m: "mounted io img spc r R N k p cs fs ds dir s" and dk: "the_disk s' = the_disk s" and N: "N \<le> 128"
    and live: "\<And>a. a \<in> {p, cs, fs, ds} \<Longrightarrow> (a, 4096) \<in> kheap_live s'"
    and page: "\<And>a x. a \<in> {p, cs, fs, ds, dir} \<Longrightarrow> in_region a 4096 x \<Longrightarrow> phys s' x = phys s x"
  shows "mounted io img spc r R N k p cs fs ds dir s'"
proof -
  have ps: "private_streams io p cs fs ds s" and vol: "fat_volume io spc r (R + 32 * N div 512) p cs fs s"
    and root: "root_loaded img R N k p dir (phys s)" using m by (simp_all add: mounted_def)
  have field: "load32 (phys s') (a + f) = load32 (phys s) (a + f)" if "a \<in> {p, cs, fs, ds}" "unat f + 4 \<le> 4096" for a f
    by (rule page_field [OF that(2)]) (use page that(1) in blast)
  have "volume_bytes p cs fs x \<Longrightarrow> \<exists>a \<in> {p, cs, fs, ds}. in_region a 4096 x" for x
    using in_region_mono [of p 92 x 4096] field_in_struct [of 4 4096 cs x] field_in_struct [of 4 4096 fs x]
    by (auto simp: volume_bytes_def)
  then have "fat_volume io spc r (R + 32 * N div 512) p cs fs s'"
    by (intro fat_volume_changed [OF vol dk]) (use page in blast)
  moreover have "private_streams io p cs fs ds s'"
    using ps live field [of p] field [of cs 4] field [of fs 4] field [of ds 4]
    by (auto simp: private_streams_def fat_stream_def cluster_read_stream_def fat_read_stream_def directory_stream_def)
  moreover have "root_loaded img R N k p dir (phys s')"
  proof -
    have "phys s' (dir + of_nat i) = phys s (dir + of_nat i)" if "i < 32 * N" for i
      by (rule page [of dir]) (use that N in \<open>simp_all add: in_region_of_nat\<close>)
    then show ?thesis
      using root field [of p 64] field [of p 68] field [of p 76]
      by (simp add: root_loaded_def root_directory_def dir_item_def dir_total_def dir_ending_sector_pos_def add.assoc)
  qed
  ultimately show ?thesis by (simp add: mounted_def)
qed

lemma mounted_release:
  assumes inv: "kheap_inv s" and m: "mounted io img spc r R N k p cs fs ds dir s" and q: "(q, 4096) \<in> kheap_live s"
    "q \<notin> {p, cs, fs, ds}" and dir: "(dir, 4096) \<in> kheap_live s" "N \<le> 128"
  shows "mounted io img spc r R N k p cs fs ds dir (kfree q s)"
proof (rule mounted_pages [OF m _ dir(2)])
  note fr = kfree_served [OF inv q(1)]
  have live: "(a, 4096) \<in> kheap_live s" if "a \<in> {p, cs, fs, ds, dir}" for a
    using that m dir(1) by (auto simp: mounted_def private_streams_def fat_stream_def)
  show "(a, 4096) \<in> kheap_live (kfree q s)" if "a \<in> {p, cs, fs, ds}" for a
    using live [of a] that q(2) fr(2) by auto
  show "phys (kfree q s) x = phys s x" if "a \<in> {p, cs, fs, ds, dir}" "in_region a 4096 x" for a x
    by (rule fr(3), rule kheap_live_not_in_table [OF inv live [OF that(1)] that(2)])
qed simp

text \<open>The whole of \<open>fat16_resolve\<close> on a disk of the driver's kind.\<close>

lemma mount_disk:
  assumes dev: "ata io regs pending polls img" and stack: "stack_layout l" and inv: "kheap_inv s" and pages: "6 \<le> kheap_pages s"
    and d: "disk_addr io \<noteq> 0" "disk_id (the_disk s) = 0" "sector_size (the_disk s) = 512" and disk: "fat_disk img spc r R N k"
  obtains p cs fs ds dir s' where "fat16_resolve io l s = Some (0, s')" and "kheap_inv s'"
    and "mounted io img spc r R N k p cs fs ds dir s'" and "the_disk s' = volume_disk l p (the_disk s)"
    and "kheap_live s' = (\<lambda>a. (a, 4096)) ` {p, cs, fs, ds, dir} \<union> kheap_live s" and "kheap_pages s' + 5 = kheap_pages s"
    and "\<And>x. kheap_stable s x \<Longrightarrow> \<not> local_byte l x \<Longrightarrow> phys s' x = phys s x"
    and "dir \<notin> {p, cs, fs, ds}" and "disk_only s s'"
proof -
  have pages': "5 \<le> kheap_pages s" using pages by simp
  obtain p s1 s2 cs fs ds q s4 s5 where h: "kzalloc sizeof_fat_private s = (p, s1)" "fat16_init_private io p s1 = s2"
    "diskstreamer_new io 0 (s2\<lparr>the_disk := volume_disk l p (the_disk s)\<rparr>) = (q, s4)" "q \<noteq> 0" "the_disk s2 = the_disk s"
    "diskstreamer_read io (sector_buffer l 2) 0 q p sizeof_fat_h s4 = Some (0, s5)"
    "\<And>i. i < 62 \<Longrightarrow> phys s5 (p + of_nat i) = img i" "private_streams io p cs fs ds s5" "kheap_inv s5"
    "kheap_live s5 = (\<lambda>a. (a, 4096)) ` {p, cs, fs, ds, q} \<union> kheap_live s" "kheap_pages s5 + 5 = kheap_pages s"
    "q \<notin> {p, cs, fs, ds}" "\<And>a k. a \<in> {p, cs, fs, ds, q} \<Longrightarrow> (a, k) \<notin> kheap_live s"
    "the_disk s5 = volume_disk l p (the_disk s)"
    "\<And>x. kheap_stable s x \<Longrightarrow> \<not> local_byte l x \<Longrightarrow> phys s5 x = phys s x"
    "\<And>x. kheap_stable s x \<Longrightarrow> kheap_stable s5 x" "\<And>x. kheap_stable s x \<Longrightarrow> \<not> in_region p 4096 x"
    "disk_only s s5"
    by (rule resolve_header [OF dev stack inv pages' d(1,2)]) (rule that; assumption)
  have d5: "fs_private (the_disk s5) = p" "sector_size (the_disk s5) = 512" and pages5: "0 < kheap_pages s5"
    using h(11,14) pages d(3) by (simp_all add: volume_disk_def)
  obtain dir s6 where r: "fat16_get_root_directory io l p (root_directory p) s5 = Some (0, s6)"
    "mounted io img spc r R N k p cs fs ds dir s6" "kept (\<lambda>x. dir_scratch l ds x \<or> in_region p 4096 x) s5 s6"
    "kheap_live s6 = insert (dir, 4096) (kheap_live s5)" "Suc (kheap_pages s6) = kheap_pages s5" "\<And>k. (dir, k) \<notin> kheap_live s5"
    by (rule load_root [OF dev stack h(9) disk h(7,8) pages5 d5]) (simp, rule that, assumption+)
  have sig: "hdr_signature (phys s5) p = lameos_fat16_signature"
    using header_in_memory(1) [where m = "phys s5" and img = img, OF h(7)] disk by (simp add: fat_disk_def)
  have body: "resolve_body io l p q s4 = Some (0, s6)"
    using h(4,6) r(1) sig by (simp add: resolve_body_def lameos_ok_def)
  have res: "fat16_resolve io l s = Some (0, kfree q s6)"
    using h(1-5) body d(2) by (simp add: fat16_resolve_def Let_def volume_disk_def diskstreamer_close_def)
  note inv6 = keptD(1) [OF r(3)]
  have q6: "(q, 4096) \<in> kheap_live s6" and dir6: "(dir, 4096) \<in> kheap_live s6" using r(4) h(10) by auto
  note fr = kfree_served [OF inv6 q6]
  have "N \<le> 128" using disk by (simp add: fat_disk_def)
  note m = mounted_release [OF inv6 r(2) q6 h(12) dir6 this]
  show thesis
  proof (rule that [OF res fr(1) m])
    show "the_disk (kfree q s6) = volume_disk l p (the_disk s)" using keptD(4) [OF r(3)] h(14) by simp
    show "kheap_pages (kfree q s6) + 5 = kheap_pages s" using fr(4) r(5) h(11) pages5 by simp
    show "dir \<notin> {p, cs, fs, ds}" using r(6) h(10) by auto
    show "disk_only s (kfree q s6)"
      by (rule disk_only_trans [OF h(18) disk_only_trans [OF disk_only_kept [OF r(3)] disk_only_memory [OF memory_only_kfree]]])
    show "phys (kfree q s6) x = phys s x" if x: "kheap_stable s x" "\<not> local_byte l x" for x
    proof -
      have "\<not> in_region ds 4096 x"
        by (rule stable_not_new [OF h(9) _ _ _ x(1)]) (use h(10,13) in auto)
      then have "\<not> dir_scratch l ds x"
        using x(2) in_region_mono [of ds 4 x 4096] by (auto simp: dir_scratch_local)
      then have "phys s6 x = phys s x" using keptD(5) [OF r(3) h(16) [OF x(1)]] h(15) [OF x] h(17) [OF x(1)] by simp
      moreover have "phys (kfree q s6) x = phys s6 x" by (rule fr(3)) (use x(1) in \<open>simp add: kheap_stable_def\<close>)
      ultimately show ?thesis by simp
    qed
    show "kheap_live (kfree q s6) = (\<lambda>a. (a, 4096)) ` {p, cs, fs, ds, dir} \<union> kheap_live s"
      using fr(2) r(4) r(6) [of 4096] h(10,12) h(13) [of q 4096] by auto
  qed
qed

section \<open>Properties\<close>

text \<open>C33. \<open>fat16_resolve\<close> mounts a FAT16 disk: it returns 0 and leaves the private data, three streams over
  the disk and the root directory in five new blocks of the heap. The header gives the geometry
  the other operations read, the directory struct has the number of its entries and the sector
  where the clusters start, and its entries are the bytes of the disk. The temporary stream is
  released, and no live block and nothing else stable but the driver's local objects changes.\<close>

theorem fat16_resolve_mounts:
  assumes "ata io regs pending polls img" and "stack_layout l" and "kheap_inv s" and "6 \<le> kheap_pages s"
    and "disk_addr io \<noteq> 0" and "disk_id (the_disk s) = 0" and "sector_size (the_disk s) = 512"
    and "fat_disk img spc r R N k"
  shows "\<exists>p cs fs ds dir s'. fat16_resolve io l s = Some (0, s') \<and> kheap_inv s' \<and>
    mounted io img spc r R N k p cs fs ds dir s' \<and> the_disk s' = volume_disk l p (the_disk s) \<and>
    kheap_live s' = (\<lambda>a. (a, 4096)) ` {p, cs, fs, ds, dir} \<union> kheap_live s \<and> kheap_pages s' + 5 = kheap_pages s \<and>
    (\<forall>x. kheap_stable s x \<and> \<not> local_byte l x \<longrightarrow> phys s' x = phys s x)"
  by (rule mount_disk [OF assms]) (intro exI conjI allI impI; (elim conjE)?; assumption?; blast)

lemma off_heap_low: "unat a + unat n < 0x7E00 \<or> 0xE200 \<le> unat a \<and> unat a + unat n < 0x1000000 \<Longrightarrow> off_heap a n"
  unfolding off_heap_def in_heap_def in_table_def in_region_def boot_heap_simps
  by (intro allI impI) (auto simp: word_less_nat_alt word_le_nat_alt unat_sub_if' split: if_splits)

lemma sample_stack: "stack_layout sample_layout"
  by (simp add: stack_layout_def sample_layout_def off_heap_low apart_def)

lemma volume_disk_ok: "fat_disk volume_image 1 1 3 16 3"
  using volume_directory
  by (simp add: fat_disk_def hdr_signature_def hdr_sectors_per_cluster_def hdr_reserved_sectors_def root_header_def
      hdr_root_dir_entries_def hdr_fat_copies_def hdr_sectors_per_fat_def load16_def boot_bytes_def volume_image_def
      lameos_fat16_signature_def)

lemma file_kernel_disk:
  "kheap_inv file_kernel" "disk_id (the_disk file_kernel) = 0" "sector_size (the_disk file_kernel) = 512"
  using fds_okD(1) [OF file_kernel_facts(1)] by (simp, simp_all add: file_kernel_def kheap.extend_def)

theorem fat16_resolve_mounts_witness:
  "\<exists>p cs fs ds dir s'. fat16_resolve (image_ports volume_image) sample_layout file_kernel = Some (0, s') \<and>
     mounted (image_ports volume_image) volume_image 1 1 3 16 3 p cs fs ds dir s'"
proof -
  have pages: "6 \<le> kheap_pages file_kernel" by (simp add: file_kernel_facts(2))
  have "disk_addr (image_ports volume_image) \<noteq> 0" by (simp add: image_ports_def)
  from fat16_resolve_mounts [OF image_ata sample_stack file_kernel_disk(1) pages this file_kernel_disk(2,3) volume_disk_ok]
  show ?thesis by blast
qed

text \<open>C34. A disk without the signature is rejected with \<open>-EFSNOTUS\<close> and the disk's private data is cleared,
  but only the private struct and the temporary stream are released: the three streams of the
  private data stay allocated, with nothing left that points to them.\<close>

theorem fat16_resolve_rejects:
  assumes "ata io regs pending polls img" and "stack_layout l" and "kheap_inv s" and "5 \<le> kheap_pages s"
    and "disk_addr io \<noteq> 0" and "disk_id (the_disk s) = 0"
    and "hdr_signature (boot_bytes img) 0 \<noteq> lameos_fat16_signature"
  shows "\<exists>cs fs ds s'. fat16_resolve io l s = Some (- efsnotus, s') \<and> kheap_inv s' \<and> fs_private (the_disk s') = 0 \<and>
    kheap_live s' = {(cs, 4096), (fs, 4096), (ds, 4096)} \<union> kheap_live s \<and> kheap_pages s' + 3 = kheap_pages s \<and>
    (\<forall>x. kheap_stable s x \<and> \<not> local_byte l x \<longrightarrow> phys s' x = phys s x)"
proof -
  obtain p s1 s2 cs fs ds q s4 s5 where h: "kzalloc sizeof_fat_private s = (p, s1)" "fat16_init_private io p s1 = s2"
    "diskstreamer_new io 0 (s2\<lparr>the_disk := volume_disk l p (the_disk s)\<rparr>) = (q, s4)" "q \<noteq> 0" "the_disk s2 = the_disk s"
    "diskstreamer_read io (sector_buffer l 2) 0 q p sizeof_fat_h s4 = Some (0, s5)"
    "\<And>i. i < 62 \<Longrightarrow> phys s5 (p + of_nat i) = img i" "private_streams io p cs fs ds s5" "kheap_inv s5"
    "kheap_live s5 = (\<lambda>a. (a, 4096)) ` {p, cs, fs, ds, q} \<union> kheap_live s" "kheap_pages s5 + 5 = kheap_pages s"
    "q \<notin> {p, cs, fs, ds}" "\<And>a k. a \<in> {p, cs, fs, ds, q} \<Longrightarrow> (a, k) \<notin> kheap_live s"
    "the_disk s5 = volume_disk l p (the_disk s)"
    "\<And>x. kheap_stable s x \<Longrightarrow> \<not> local_byte l x \<Longrightarrow> phys s5 x = phys s x"
    "\<And>x. kheap_stable s x \<Longrightarrow> kheap_stable s5 x" "\<And>x. kheap_stable s x \<Longrightarrow> \<not> in_region p 4096 x"
    "disk_only s s5"
    by (rule resolve_header [OF assms(1-6)]) (rule that; assumption)
  have sig: "hdr_signature (phys s5) p \<noteq> lameos_fat16_signature"
    using header_in_memory(1) [where m = "phys s5" and img = img, OF h(7)] assms(7) by simp
  have body: "resolve_body io l p q s4 = Some (- efsnotus, s5)"
    using h(4,6) sig by (simp add: resolve_body_def lameos_ok_def)
  have q5: "(q, 4096) \<in> kheap_live s5" and p5: "(p, 4096) \<in> kheap_live s5" using h(10) by auto
  note f1 = kfree_served [OF h(9) q5]
  have p6: "(p, 4096) \<in> kheap_live (kfree q s5)" using f1(2) p5 h(12) by auto
  note f2 = kfree_served [OF f1(1) p6]
  let ?s' = "(kfree p (kfree q s5))\<lparr>the_disk := (the_disk (kfree q s5))\<lparr>fs_private := 0\<rparr>\<rparr>"
  have "- efsnotus <s 0" by (simp add: efsnotus_def word_sless_alt)
  then have "fat16_resolve io l s = Some (- efsnotus, ?s')"
    using h(1-5) body assms(6) by (simp add: fat16_resolve_def Let_def volume_disk_def diskstreamer_close_def)
  moreover have "kheap_live ?s' = {(cs, 4096), (fs, 4096), (ds, 4096)} \<union> kheap_live s"
  proof -
    have "(p, 4096) \<notin> kheap_live s" "(q, 4096) \<notin> kheap_live s" using h(13) by blast+
    moreover have "p \<notin> {cs, fs, ds}" using h(8) by (simp add: private_streams_def)
    ultimately show ?thesis unfolding disk_frame f2(2) f1(2) h(10) using h(12) by blast
  qed
  moreover have "kheap_pages ?s' + 3 = kheap_pages s" using f1(4) f2(4) h(11) by simp
  moreover have "phys ?s' x = phys s x" if "kheap_stable s x" "\<not> local_byte l x" for x
    using f1(3) f2(3) h(15) [OF that] that(1) by (simp add: kheap_stable_def)
  ultimately show ?thesis using f2(1) by auto
qed

theorem fat16_resolve_rejects_witness:
  "\<exists>s'. fat16_resolve sample_ports sample_layout file_kernel = Some (- efsnotus, s') \<and> kheap_pages s' = 25597"
proof -
  have io: "disk_addr sample_ports \<noteq> 0" by (simp add: image_ports_def)
  have sig: "hdr_signature (boot_bytes sample_image) 0 \<noteq> lameos_fat16_signature"
    by (simp add: hdr_signature_def boot_bytes_def sample_image_def lameos_fat16_signature_def)
  have pages: "5 \<le> kheap_pages file_kernel" by (simp add: file_kernel_facts(2))
  obtain s' where "fat16_resolve sample_ports sample_layout file_kernel = Some (- efsnotus, s')"
    "kheap_pages s' + 3 = kheap_pages file_kernel"
    using fat16_resolve_rejects [OF sample_ata sample_stack file_kernel_disk(1) pages io file_kernel_disk(2) sig] by blast
  then show ?thesis by (intro exI [of _ s']) (simp add: file_kernel_facts(2))
qed

end
