(* ===== verification/Fat16Entry.thy ===== *)
theory Fat16Entry
  imports Fat16
begin

text \<open>
  File names and directory entries of the FAT16 driver: the names \<open>fat16.c\<close> builds from the
  entries of a directory, and the operations on an open file's descriptor.
\<close>

section \<open>File names\<close>

text \<open>A run of bytes that are neither 0 nor a space, up to the first one that is.\<close>

definition name_stop :: "u8 \<Rightarrow> bool" where
  "name_stop c \<longleftrightarrow> c = 0 \<or> c = 0x20"

definition name_run :: "mem \<Rightarrow> ptr \<Rightarrow> u8 list \<Rightarrow> bool" where
  "name_run m p w \<longleftrightarrow> bytes_at m p (length w) = w \<and> list_all (\<lambda>c. \<not> name_stop c) w \<and>
     name_stop (m (p + of_nat (length w)))"

definition full_name :: "u8 list \<Rightarrow> u8 list \<Rightarrow> u8 list" where
  "full_name w e = (if e = [] then w else w @ 0x2E # e)"

lemma name_run_Nil: "name_run m p [] \<longleftrightarrow> name_stop (m p)"
  by (simp add: name_run_def)

lemma name_run_Cons:
  "name_run m p (c # w) \<longleftrightarrow> m p = c \<and> \<not> name_stop c \<and> name_run m (p + 1) w"
  by (auto simp: name_run_def bytes_at_Suc add.assoc)

lemma name_run_cong:
  assumes "name_run m p w" and "\<And>i. i \<le> length w \<Longrightarrow> m' (p + of_nat i) = m (p + of_nat i)"
  shows "name_run m' p w"
proof -
  have "bytes_at m' p (length w) = bytes_at m p (length w)" by (rule bytes_at_cong) (simp add: assms(2))
  then show ?thesis using assms by (simp add: name_run_def)
qed

lemma proper_loop_run:
  "\<lbrakk> name_run m inp w; \<forall>i < length w. \<forall>j \<le> length w. out + of_nat i \<noteq> inp + of_nat j \<rbrakk> \<Longrightarrow>
   proper_loop out inp m = Some (out + of_nat (length w), inp + of_nat (length w), put_bytes out w m)"
proof (induction w arbitrary: out inp m)
  case Nil
  then show ?case by (subst proper_loop.simps) (auto simp: name_run_Nil name_stop_def)
next
  case (Cons c w)
  have c: "m inp = c" "\<not> name_stop c" "name_run m (inp + 1) w" using Cons.prems(1) by (simp_all add: name_run_Cons)
  have apart: "out + 1 + of_nat i \<noteq> inp + 1 + of_nat j" if "i < length w" "j \<le> length w" for i j
    using Cons.prems(2) [rule_format, of "Suc i" "Suc j"] that by (simp add: add.assoc)
  have ne: "inp + 1 + of_nat j \<noteq> out" if "j \<le> length w" for j
    using Cons.prems(2) [rule_format, of 0 "Suc j"] that by (auto simp: add.assoc)
  have "name_run (m(out := c)) (inp + 1) w"
    by (rule name_run_cong [OF c(3)]) (simp add: ne)
  from Cons.IH [of "m(out := c)" "inp + 1" "out + 1", OF this] apart
  have "proper_loop (out + 1) (inp + 1) (m(out := c)) =
      Some (out + 1 + of_nat (length w), inp + 1 + of_nat (length w), put_bytes (out + 1) w (m(out := c)))"
    by blast
  with c(1,2) show ?case
    by (subst proper_loop.simps) (simp add: name_stop_def add.assoc)
qed

lemma proper_string_run:
  assumes "name_run m inp w" and "\<forall>i < length w. \<forall>j \<le> length w. out + of_nat i \<noteq> inp + of_nat j"
    and "m (out + of_nat (length w)) = 0" and "length w < 2 ^ 31"
  shows "fat16_to_proper_string out inp m = Some (out + of_nat (length w), put_bytes out w m)"
proof -
  have "put_bytes out w m (out + of_nat (length w)) = 0"
    using assms(3,4) by (subst put_bytes_out) (simp_all add: in_region_of_nat)
  then show ?thesis
    using proper_loop_run [OF assms(1,2)] by (simp add: fat16_to_proper_string_def fun_upd_idem)
qed

lemma in_region_iff:
  assumes "n < 2 ^ 31"
  shows "in_region p (of_nat n) x \<longleftrightarrow> (\<exists>i < n. x = p + of_nat i)"
proof
  assume "in_region p (of_nat n) x"
  then have "unat (x - p) < n" using assms by (simp add: in_region_def word_less_nat_alt)
  then show "\<exists>i < n. x = p + of_nat i" by (intro exI [of _ "unat (x - p)"]) simp
qed (use assms in \<open>auto simp: in_region_of_nat\<close>)

lemma full_name_buffer:
  assumes w: "name_run m item w" "length w < 32" and e: "name_run m (item_ext item) e" "8 + length e < 32"
    and sep: "\<forall>i < k. \<forall>j < 32. out + of_nat i \<noteq> item + of_nat j"
    and k: "length (full_name w e) < k" "k < 2 ^ 31"
  shows "fat16_get_full_relative_filename item out (of_nat k) m =
    Some (put_bytes out (full_name w e) (memset out 0 (of_nat k) m))"
proof -
  let ?m = "memset out 0 (of_nat k) m" and ?out1 = "out + of_nat (length w)"
  note in_out = in_region_iff [of k out]
  have sep': "item + of_nat j \<noteq> out + of_nat i" if "i < k" "j < 32" for i j
    using sep that by metis
  have item: "?m (item + of_nat j) = m (item + of_nat j)" if "j < 32" for j
    using sep' that k(2) by (intro memset_out) (auto simp: in_out)
  have zero: "?m (out + of_nat i) = 0" if "i < k" for i
    using that k(2) by (intro trans [OF memset_in]) (auto simp: in_out)
  have lw: "length w < k" "length w < 2 ^ 31" using k by (auto simp: full_name_def split: if_splits)
  have "name_run ?m item w" by (rule name_run_cong [OF w(1)]) (use w(2) in \<open>simp add: item\<close>)
  moreover have "\<forall>i < length w. \<forall>j \<le> length w. out + of_nat i \<noteq> item + of_nat j" using sep lw(1) w(2) by simp
  ultimately have first: "fat16_to_proper_string out item ?m = Some (?out1, put_bytes out w ?m)"
    by (rule proper_string_run) (use lw in \<open>simp_all add: zero\<close>)
  have ext: "put_bytes out bs ?m (item_ext item + of_nat j) = m (item_ext item + of_nat j)"
    if "8 + j < 32" "length bs < k" for j bs
  proof -
    have "\<not> in_region out (of_nat (length bs)) (item + of_nat (8 + j))"
      using sep' that k(2) by (auto simp: in_region_iff simp del: of_nat_add)
    then show ?thesis using item [OF that(1)] k(2) that(2) by (simp add: put_bytes_out item_ext_def add.assoc)
  qed
  show ?thesis
  proof (cases e)
    case Nil
    then have "name_stop (m (item_ext item))" using e(1) by (simp add: name_run_Nil)
    then show ?thesis
      using first ext [of 0 w] lw(1) Nil by (auto simp: fat16_get_full_relative_filename_def name_stop_def full_name_def)
  next
    case (Cons c e')
    then have full: "full_name w e = (w @ [0x2E]) @ e" by (simp add: full_name_def)
    have le: "length w + 1 + length e < k" using k(1) by (simp add: full)
    have "c = m (item_ext item)" "\<not> name_stop c" using e(1) Cons by (simp_all add: name_run_Cons)
    moreover have "put_bytes out w ?m (item_ext item) = m (item_ext item)" using ext [of 0 w] lw(1) by simp
    ultimately have dot: "put_bytes out w ?m (item_ext item) \<noteq> 0" "put_bytes out w ?m (item_ext item) \<noteq> 0x20"
      by (simp_all add: name_stop_def)
    let ?m2 = "put_bytes out (w @ [0x2E]) ?m"
    have "name_run ?m2 (item_ext item) e"
      by (rule name_run_cong [OF e(1)]) (use e(2) le in \<open>simp add: ext\<close>)
    moreover have "\<forall>i < length e. \<forall>j \<le> length e. ?out1 + 1 + of_nat i \<noteq> item_ext item + of_nat j"
    proof (intro allI impI)
      fix i j assume "i < length e" "j \<le> length e"
      then show "?out1 + 1 + of_nat i \<noteq> item_ext item + of_nat j"
        using sep [rule_format, of "length w + 1 + i" "8 + j"] le e(2) by (simp add: item_ext_def add.assoc)
    qed
    moreover have "?m2 (?out1 + 1 + of_nat (length e)) = 0"
    proof -
      have "?m2 (out + of_nat (length w + 1 + length e)) = 0"
        using le k(2) Cons by (subst put_bytes_out) (simp_all add: in_region_of_nat zero del: of_nat_add of_nat_Suc)
      then show ?thesis by (simp add: algebra_simps)
    qed
    moreover have "length e < 2 ^ 31" using le k(2) by simp
    ultimately have "fat16_to_proper_string (?out1 + 1) (item_ext item) ?m2 =
        Some (?out1 + 1 + of_nat (length e), put_bytes (?out1 + 1) e ?m2)"
      by (rule proper_string_run)
    then show ?thesis
      using first dot
      by (simp add: fat16_get_full_relative_filename_def full put_bytes_append add.assoc add.commute [of 1] del: append_assoc)
  qed
qed

section \<open>Properties\<close>

text \<open>\<open>fat16_get_full_relative_filename\<close> ends and fills its buffer with the name of the entry: the
  bytes up to the first space or zero, then, if the extension does not start with one, a dot and
  the bytes of the extension up to the first space or zero, padded with zeros to the end. Nothing
  outside the buffer changes.\<close>

theorem fat16_name_correct:
  assumes "name_run m item w" and "length w < 32" and "name_run m (item_ext item) e" and "8 + length e < 32"
    and "\<forall>i < k. \<forall>j < 32. out + of_nat i \<noteq> item + of_nat j"
    and "length (full_name w e) < k" and "k < 2 ^ 31"
  shows "\<exists>m'. fat16_get_full_relative_filename item out (of_nat k) m = Some m' \<and>
    bytes_at m' out k = full_name w e @ replicate (k - length (full_name w e)) 0 \<and>
    (\<forall>x. \<not> in_region out (of_nat k) x \<longrightarrow> m' x = m x)"
proof -
  let ?n = "full_name w e"
  let ?m = "put_bytes out ?n (memset out 0 (of_nat k) m)"
  have in_n: "in_region out (of_nat (length ?n)) (out + of_nat i) \<longleftrightarrow> i < length ?n"
    and in_k: "in_region out (of_nat k) (out + of_nat i) \<longleftrightarrow> i < k" if "i < k" for i
    using that assms(6,7) by (simp_all add: in_region_of_nat)
  have "bytes_at ?m out k = ?n @ replicate (k - length ?n) 0"
    by (rule nth_equalityI) (use assms(6,7) in \<open>auto simp: put_bytes_apply in_n in_k nth_append\<close>)
  moreover have "?m x = m x" if "\<not> in_region out (of_nat k) x" for x
  proof -
    have "\<not> in_region out (of_nat (length ?n)) x"
      using that assms(6,7) by (simp add: in_region_def word_less_nat_alt)
    then show ?thesis using that assms(6,7) by (simp add: put_bytes_out)
  qed
  ultimately show ?thesis using full_name_buffer [OF assms] by blast
qed

text \<open>The entry of \<open>BLANK.BIN\<close>, as the formatter writes it.\<close>

definition blank_entry :: mem where
  "blank_entry = put_bytes 0x700 [0x42, 0x4C, 0x41, 0x4E, 0x4B, 0x20, 0x20, 0x20, 0x42, 0x49, 0x4E, 0x20] (\<lambda>_. 0)"

lemma sample_buffer_apart: "\<forall>i < 108. \<forall>j < 32. (0x800 :: ptr) + of_nat i \<noteq> 0x700 + of_nat j"
proof (intro allI impI notI)
  fix i j :: nat assume "i < 108" "j < 32" and eq: "(0x800 :: ptr) + of_nat i = 0x700 + of_nat j"
  then have "(of_nat (0x800 + i) :: ptr) = of_nat (0x700 + j)" by simp
  then have "0x800 + i = 0x700 + j"
    using \<open>i < 108\<close> \<open>j < 32\<close> of_nat_word_inj [of "0x800 + i" "0x700 + j"] by (simp del: of_nat_add)
  then show False using \<open>j < 32\<close> by simp
qed

theorem fat16_name_correct_witness:
  "\<exists>m'. fat16_get_full_relative_filename 0x700 0x800 108 blank_entry = Some m' \<and>
     bytes_at m' 0x800 10 = [0x42, 0x4C, 0x41, 0x4E, 0x4B, 0x2E, 0x42, 0x49, 0x4E, 0]"
proof -
  have w: "name_run blank_entry 0x700 [0x42, 0x4C, 0x41, 0x4E, 0x4B]"
    and e: "name_run blank_entry (item_ext 0x700) [0x42, 0x49, 0x4E]"
    by (simp_all add: name_run_Cons name_run_Nil name_stop_def blank_entry_def item_ext_def)
  obtain m' where m': "fat16_get_full_relative_filename 0x700 0x800 108 blank_entry = Some m'"
    "bytes_at m' 0x800 108 = [0x42, 0x4C, 0x41, 0x4E, 0x4B, 0x2E, 0x42, 0x49, 0x4E] @ replicate 99 0"
    using fat16_name_correct [OF w _ e _ sample_buffer_apart] by (auto simp: full_name_def)
  have "bytes_at m' 0x800 10 = take 10 (bytes_at m' 0x800 108)" by (simp add: bytes_at_def take_map)
  also have "\<dots> = [0x42, 0x4C, 0x41, 0x4E, 0x4B, 0x2E, 0x42, 0x49, 0x4E, 0]"
    unfolding m'(2) by (simp add: numeral_eq_Suc)
  finally show ?thesis using m'(1) by blast
qed

text \<open>A name that fills its eight bytes has no byte to stop at: the driver runs on into the extension,
  so an archive file with eight characters of name and three of extension gets the extension
  twice, and no path with its real name finds it.\<close>

theorem fat16_name_runs_on:
  assumes "bytes_at m item 12 = n @ x @ [0x20]" and "length n = 8" and "length x = 3"
    and "list_all (\<lambda>c. \<not> name_stop c) (n @ x)"
    and "\<forall>i < 108. \<forall>j < 32. out + of_nat i \<noteq> item + of_nat j"
  shows "\<exists>m'. fat16_get_full_relative_filename item out 108 m = Some m' \<and>
    bytes_at m' out 15 = n @ x @ 0x2E # x"
proof -
  have "bytes_at m item 11 = take 11 (bytes_at m item 12)"
    by (simp add: bytes_at_def take_map del: bytes_at_numeral)
  then have nx: "bytes_at m item 11 = n @ x" unfolding assms(1) by (simp add: assms(2,3))
  have "bytes_at m (item_ext item) 3 = drop 8 (bytes_at m item 11)"
    by (rule nth_equalityI) (simp_all add: item_ext_def add.assoc del: bytes_at_numeral)
  then have x: "bytes_at m (item_ext item) 3 = x" unfolding nx by (simp add: assms(2))
  have "bytes_at m item 12 ! 11 = 0x20" unfolding assms(1) by (simp add: nth_append assms(2,3))
  then have stop: "m (item + 11) = 0x20" by (simp del: bytes_at_numeral)
  have w: "name_run m item (n @ x)"
    using assms(4) nx stop by (simp add: name_run_def assms(2,3) name_stop_def del: bytes_at_numeral)
  have e: "name_run m (item_ext item) x"
    using assms(4) x stop
    by (simp add: name_run_def assms(2,3) name_stop_def item_ext_def add.assoc del: bytes_at_numeral)
  have ne: "x \<noteq> []" using assms(3) by auto
  then have len: "length (full_name (n @ x) x) = 15" by (simp add: full_name_def assms(2,3))
  let ?m = "put_bytes out (full_name (n @ x) x) (memset out 0 (of_nat 108) m)"
  have "bytes_at ?m out 15 = full_name (n @ x) x"
    using bytes_at_put_bytes [of "full_name (n @ x) x" out] by (simp add: len)
  moreover have "fat16_get_full_relative_filename item out (of_nat 108) m = Some ?m"
    by (rule full_name_buffer [OF w _ e _ assms(5)]) (simp_all add: len assms(2,3))
  ultimately show ?thesis using ne by (simp add: full_name_def)
qed

theorem fat16_name_runs_on_witness:
  "\<exists>m'. fat16_get_full_relative_filename 0x700 0x800 108
     (put_bytes 0x700 (replicate 8 0x41 @ [0x42, 0x49, 0x4E] @ [0x20]) (\<lambda>_. 0)) = Some m' \<and>
     bytes_at m' 0x800 15 = replicate 8 0x41 @ [0x42, 0x49, 0x4E, 0x2E, 0x42, 0x49, 0x4E]"
proof -
  let ?bs = "replicate 8 (0x41 :: u8) @ [0x42, 0x49, 0x4E] @ [0x20]"
  have "bytes_at (put_bytes 0x700 ?bs (\<lambda>_. 0)) 0x700 12 = ?bs"
    using bytes_at_put_bytes [of ?bs "0x700" "\<lambda>_. 0"] by simp
  from fat16_name_runs_on [OF this _ _ _ sample_buffer_apart] show ?thesis
    by (simp add: name_stop_def list_all_iff)
qed

end
