(* ===== verification/Fat16Find.thy ===== *)
theory Fat16Find
  imports Fat16Mount Fat16Entry
begin

text \<open>
  Finding a file: the search of \<open>fat16_find_item_in_directory\<close> over a directory in memory, the item it
  builds for a match, and \<open>fat16_open\<close> of a file in the root directory.
\<close>

section \<open>Slots of a directory\<close>

text \<open>Slot \<open>j\<close> of the entries at \<open>dir\<close> has the name \<open>w\<close> and the extension \<open>e\<close>, each ended by a space or
  zero inside the entry.\<close>

definition slot :: "ptr \<Rightarrow> nat \<Rightarrow> ptr" where
  "slot dir j = dir + of_nat (32 * j)"

definition slot_named :: "mem \<Rightarrow> ptr \<Rightarrow> nat \<Rightarrow> u8 list \<Rightarrow> u8 list \<Rightarrow> bool" where
  "slot_named m dir j w e \<longleftrightarrow> name_run m (slot dir j) w \<and> length w < 32 \<and>
     name_run m (item_ext (slot dir j)) e \<and> 8 + length e < 32"

text \<open>The comparison of the driver, without case and of at most 108 characters.\<close>

definition same_name :: "u8 list \<Rightarrow> u8 list \<Rightarrow> bool" where
  "same_name s t \<longleftrightarrow> take 108 (map tolower s) = take 108 (map tolower t)"

lemma slot_byte:
  assumes "j < T" and "b < 32" and "32 * T < 2 ^ 31"
  shows "in_region dir (of_nat (32 * T)) (slot dir j + of_nat b)"
proof -
  have "slot dir j + of_nat b = dir + of_nat (32 * j + b)" by (simp add: slot_def add.assoc)
  moreover have "32 * j + b < 32 * T" using assms(1,2) by simp
  ultimately show ?thesis using assms(3) by (simp add: in_region_of_nat del: of_nat_mult of_nat_add)
qed

lemma slot_named_cong:
  assumes "slot_named m dir j w e" and "\<And>b. b < 32 \<Longrightarrow> m' (slot dir j + of_nat b) = m (slot dir j + of_nat b)"
  shows "slot_named m' dir j w e"
proof -
  have n: "name_run m (slot dir j) w" "length w < 32" "name_run m (item_ext (slot dir j)) e" "8 + length e < 32"
    using assms(1) by (simp_all add: slot_named_def)
  have "name_run m' (slot dir j) w" by (rule name_run_cong [OF n(1)]) (use n(2) assms(2) in simp)
  moreover have "name_run m' (item_ext (slot dir j)) e"
  proof (rule name_run_cong [OF n(3)])
    fix i assume "i \<le> length e"
    then show "m' (item_ext (slot dir j) + of_nat i) = m (item_ext (slot dir j) + of_nat i)"
      using n(4) assms(2) [of "8 + i"] by (simp add: item_ext_def add.assoc)
  qed
  ultimately show ?thesis using n by (simp add: slot_named_def)
qed

text \<open>What a search relies on: the directory struct at \<open>d\<close> with \<open>T\<close> entries at \<open>dir\<close> and the name are stable
  bytes outside the buffer for names, which lies outside the heap.\<close>

definition search_byte :: "ptr \<Rightarrow> ptr \<Rightarrow> nat \<Rightarrow> ptr \<Rightarrow> u8 list \<Rightarrow> ptr \<Rightarrow> bool" where
  "search_byte d dir T name t x \<longleftrightarrow> in_region d 16 x \<or> in_region dir (of_nat (32 * T)) x \<or>
     (\<exists>j \<le> length t. x = name + of_nat j)"

definition searching ::
  "layout \<Rightarrow> ptr \<Rightarrow> ptr \<Rightarrow> nat \<Rightarrow> ptr \<Rightarrow> u8 list \<Rightarrow> ('d, 'a) files_scheme \<Rightarrow> bool" where
  "searching l d dir T name t s \<longleftrightarrow> kheap_inv s \<and> dir_item (phys s) d = dir \<and> dir_total (phys s) d = of_nat T \<and>
     32 * T < 2 ^ 31 \<and> cstr_at (phys s) name t \<and>
     (\<forall>x. search_byte d dir T name t x \<longrightarrow> kheap_stable s x \<and> \<not> in_region (name_buffer l) 108 x)"

lemma searching_kept:
  assumes "searching l d dir T name t s" and "kept (in_region (name_buffer l) 108) s s'"
  shows "searching l d dir T name t s'" and "search_byte d dir T name t x \<Longrightarrow> phys s' x = phys s x"
    and "j < T \<Longrightarrow> slot_named (phys s) dir j w e \<Longrightarrow> slot_named (phys s') dir j w e"
proof -
  have S: "dir_item (phys s) d = dir" "dir_total (phys s) d = of_nat T" "32 * T < 2 ^ 31" "cstr_at (phys s) name t"
    "\<And>x. search_byte d dir T name t x \<Longrightarrow> kheap_stable s x \<and> \<not> in_region (name_buffer l) 108 x"
    using assms(1) by (simp_all add: searching_def)
  have same: "phys s' x = phys s x" if "search_byte d dir T name t x" for x
    using keptD(5) [OF assms(2)] S(5) [OF that] by blast
  then show "search_byte d dir T name t x \<Longrightarrow> phys s' x = phys s x" .
  have word: "load32 (phys s') (d + f) = load32 (phys s) (d + f)" if "unat f + 4 \<le> 16" for f
    by (rule load32_cong, rule same) (use that field_in_struct [of f 16 d] in \<open>simp add: search_byte_def\<close>)
  have "cstr_at (phys s') name t"
    using S(4) same by (subst cstr_at_cong [of t _ _ "phys s"]) (auto simp: search_byte_def)
  then show "searching l d dir T name t s'"
    using S keptD(1,6) [OF assms(2)] word [of 0] word [of 4]
    by (simp add: searching_def dir_item_def dir_total_def)
  show "slot_named (phys s') dir j w e" if "j < T" "slot_named (phys s) dir j w e"
    by (rule slot_named_cong [OF that(2)], rule same)
       (use slot_byte [OF that(1) _ S(3)] in \<open>simp add: search_byte_def\<close>)
qed

section \<open>Passing a slot\<close>

lemma full_name_no_nul:
  assumes "name_run m p w" and "name_run m q e"
  shows "0 \<notin> set (full_name w e)"
  using assms by (auto simp: name_run_def full_name_def list_all_iff name_stop_def)

text \<open>The name of the slot is built in the buffer and compared; nothing else has changed.\<close>

lemma build_name:
  assumes se: "searching l d dir T name t s" and stack: "off_heap (name_buffer l) 108"
    and j: "j < T" and nm: "slot_named (phys s) dir j w e"
  obtains m where "fat16_get_full_relative_filename (slot dir j) (name_buffer l) max_path (phys s) = Some m"
    and "kept (in_region (name_buffer l) 108) s (s\<lparr>phys := m\<rparr>)" and "kchunks (s\<lparr>phys := m\<rparr>) = kchunks s"
    and "istrncmp m (name_buffer l) name max_path = 0 \<longleftrightarrow> same_name (full_name w e) t"
proof -
  let ?out = "name_buffer l" and ?n = "full_name w e"
  have n: "name_run (phys s) (slot dir j) w" "length w < 32" "name_run (phys s) (item_ext (slot dir j)) e" "8 + length e < 32"
    using nm by (simp_all add: slot_named_def)
  have T: "32 * T < 2 ^ 31" using se by (simp add: searching_def)
  have quiet: "\<not> in_region ?out 108 x" if "search_byte d dir T name t x" for x
    using se that by (simp add: searching_def)
  have sep: "\<forall>i < 108. \<forall>b < 32. ?out + of_nat i \<noteq> slot dir j + of_nat b"
  proof (intro allI impI notI)
    fix i b :: nat assume ib: "i < 108" "b < 32" and eq: "?out + of_nat i = slot dir j + of_nat b"
    have "search_byte d dir T name t (slot dir j + of_nat b)" using slot_byte [OF j ib(2) T] by (simp add: search_byte_def)
    then have "\<not> in_region ?out 108 (?out + of_nat i)" unfolding eq by (rule quiet)
    with ib(1) show False by (simp add: in_region_of_nat)
  qed
  have len: "length ?n < 108" using n(2,4) by (simp add: full_name_def)
  let ?m = "put_bytes ?out ?n (memset ?out 0 (of_nat 108) (phys s))"
  have build: "fat16_get_full_relative_filename (slot dir j) ?out max_path (phys s) = Some ?m"
    using full_name_buffer [OF n sep len] by (simp add: max_path_def)
  have out: "?m x = phys s x" if "\<not> in_region ?out 108 x" for x
  proof -
    have "\<not> in_region ?out (of_nat (length ?n)) x" using that len by (auto simp: in_region_def word_less_nat_alt)
    then show ?thesis using that len by (simp add: put_bytes_out memset_apply)
  qed
  have inv: "kheap_inv s" using se by (simp add: searching_def)
  have "\<not> in_table boot_heap x" if "in_region ?out 108 x" for x using stack that by (simp add: off_heap_def)
  note k = kept_changed [OF inv changed_only_write [OF out] this]
  have buf: "cstr_at ?m ?out ?n"
  proof -
    have "?m (?out + of_nat i) = ?n ! i" if "i < length ?n" for i using that len by (simp add: put_bytes_nth)
    moreover have "?m (?out + of_nat (length ?n)) = 0"
    proof -
      have "\<not> in_region ?out (of_nat (length ?n)) (?out + of_nat (length ?n))" using len by (simp add: in_region_of_nat)
      moreover have "in_region ?out 108 (?out + of_nat (length ?n))" using len by (simp add: in_region_of_nat)
      ultimately show ?thesis using len by (simp add: put_bytes_out memset_apply)
    qed
    ultimately show ?thesis using full_name_no_nul [OF n(1,3)] by (auto simp: cstr_at_iff) (metis nth_mem)
  qed
  have "cstr_at ?m name t = cstr_at (phys s) name t"
    by (rule cstr_at_cong, rule out, rule quiet) (auto simp: search_byte_def)
  then have "cstr_at ?m name t" using se by (simp add: searching_def)
  from istrncmp_cstr [OF buf this, of max_path]
  have "istrncmp ?m ?out name max_path = 0 \<longleftrightarrow> same_name ?n t" by (simp add: same_name_def max_path_def)
  with build k show thesis by (intro that [of ?m]) simp_all
qed

lemma find_step:
  assumes se: "searching l d dir T name t s" and stack: "off_heap (name_buffer l) 108"
    and j: "j < T" and nm: "slot_named (phys s) dir j w e"
  obtains m where "kept (in_region (name_buffer l) 108) s (s\<lparr>phys := m\<rparr>)" and "kchunks (s\<lparr>phys := m\<rparr>) = kchunks s"
    and "find_item_loop io l d name (of_nat j) f s =
      (if same_name (full_name w e) t
       then fat16_new_fat_item_for_directory_item io l (slot dir j) (s\<lparr>phys := m\<rparr>) \<bind>
         (\<lambda>(f', s2). find_item_loop io l d name (of_nat (Suc j)) f' s2)
       else find_item_loop io l d name (of_nat (Suc j)) f (s\<lparr>phys := m\<rparr>))"
proof -
  obtain m where b: "fat16_get_full_relative_filename (slot dir j) (name_buffer l) max_path (phys s) = Some m"
    "kept (in_region (name_buffer l) 108) s (s\<lparr>phys := m\<rparr>)" "kchunks (s\<lparr>phys := m\<rparr>) = kchunks s"
    "istrncmp m (name_buffer l) name max_path = 0 \<longleftrightarrow> same_name (full_name w e) t"
    using build_name [OF assms] by blast
  have S: "dir_item (phys s) d = dir" "dir_total (phys s) d = of_nat T" "32 * T < 2 ^ 31"
    using se by (simp_all add: searching_def)
  have lt: "(of_nat j :: i32) <s of_nat T" using j S(3) by (simp add: word_sless_alt sint_of_nat_u32)
  have it: "dir + of_nat j * sizeof_directory_item = slot dir j"
    by (simp add: slot_def sizeof_directory_item_def mult.commute)
  have "dir_item m d = dir"
    using searching_kept(1) [OF se b(2)] by (simp add: searching_def)
  then have "find_item_loop io l d name (of_nat j) f s =
      (if same_name (full_name w e) t
       then fat16_new_fat_item_for_directory_item io l (slot dir j) (s\<lparr>phys := m\<rparr>) \<bind>
         (\<lambda>(f', s2). find_item_loop io l d name (of_nat (Suc j)) f' s2)
       else find_item_loop io l d name (of_nat (Suc j)) f (s\<lparr>phys := m\<rparr>))"
    using b(1,4) by (subst find_item_loop.simps) (simp add: S lt it add.commute)
  with b(2,3) show thesis by (rule that)
qed

text \<open>Slots with another name are passed.\<close>

lemma find_skip:
  assumes stack: "off_heap (name_buffer l) 108"
  shows "\<lbrakk> searching l d dir T name t s; j + n \<le> T; \<forall>i < n. slot_named (phys s) dir (j + i) (w (j + i)) (e (j + i)) \<and>
      \<not> same_name (full_name (w (j + i)) (e (j + i))) t \<rbrakk> \<Longrightarrow>
    \<exists>s'. find_item_loop io l d name (of_nat j) f s = find_item_loop io l d name (of_nat (j + n)) f s' \<and>
      kept (in_region (name_buffer l) 108) s s' \<and> kchunks s' = kchunks s"
proof (induction n arbitrary: j s)
  case 0
  then have "kheap_inv s" by (simp add: searching_def)
  then show ?case using kept_refl by auto
next
  case (Suc n)
  have j: "j < T" using Suc.prems(2) by simp
  have "slot_named (phys s) dir j (w j) (e j)" "\<not> same_name (full_name (w j) (e j)) t"
    using Suc.prems(3) [rule_format, of 0] by simp_all
  then obtain m where m: "kept (in_region (name_buffer l) 108) s (s\<lparr>phys := m\<rparr>)" "kchunks (s\<lparr>phys := m\<rparr>) = kchunks s"
    "find_item_loop io l d name (of_nat j) f s = find_item_loop io l d name (of_nat (Suc j)) f (s\<lparr>phys := m\<rparr>)"
    using find_step [OF Suc.prems(1) stack j, of "w j" "e j" io f] by auto
  note se = searching_kept [OF Suc.prems(1) m(1)]
  have "\<forall>i < n. slot_named (phys (s\<lparr>phys := m\<rparr>)) dir (Suc j + i) (w (Suc j + i)) (e (Suc j + i)) \<and>
      \<not> same_name (full_name (w (Suc j + i)) (e (Suc j + i))) t"
  proof (intro allI impI)
    fix i assume "i < n"
    then show "slot_named (phys (s\<lparr>phys := m\<rparr>)) dir (Suc j + i) (w (Suc j + i)) (e (Suc j + i)) \<and>
        \<not> same_name (full_name (w (Suc j + i)) (e (Suc j + i))) t"
      using Suc.prems(3) [rule_format, of "Suc i"] Suc.prems(2) se(3) [of "Suc j + i"] by simp
  qed
  then obtain s' where s': "find_item_loop io l d name (of_nat (Suc j)) f (s\<lparr>phys := m\<rparr>) = find_item_loop io l d name (of_nat (Suc j + n)) f s'"
    "kept (in_region (name_buffer l) 108) (s\<lparr>phys := m\<rparr>) s'" "kchunks s' = kchunks (s\<lparr>phys := m\<rparr>)"
    using Suc.IH [OF se(1), of "Suc j"] Suc.prems(2) by auto
  have "kept (in_region (name_buffer l) 108) s s'" by (rule kept_trans [OF m(1) s'(2)])
  then show ?case using m(2,3) s'(1,3) by auto
qed

lemma find_end:
  assumes "searching l d dir T name t s"
  shows "find_item_loop io l d name (of_nat T) f s = Some (f, s)"
  using assms by (subst find_item_loop.simps) (simp add: searching_def word_sless_alt)

section \<open>The item of a file\<close>

text \<open>What \<open>fat16_open\<close> gets for an entry: an item of the file type with a copy of the 32 bytes.\<close>

definition file_item :: "ptr \<Rightarrow> u8 list \<Rightarrow> ('d, 'a) files_scheme \<Rightarrow> bool" where
  "file_item f bs s \<longleftrightarrow> fat_item_type (phys s) f = fat_item_type_file \<and> (f, 4096) \<in> kheap_live s \<and>
     (fat_item_ptr (phys s) f, 4096) \<in> kheap_live s \<and> fat_item_ptr (phys s) f \<noteq> f \<and>
     bytes_at (phys s) (fat_item_ptr (phys s) f) 32 = bs"

text \<open>The two blocks of an item: the item, whose type is set, and one for the copy of the entry.\<close>

lemma item_blocks:
  assumes inv: "kheap_inv s" and pages: "2 \<le> kheap_pages s"
  obtains f s1 s3 c s4 where "kzalloc 8 s = (f, s1)" and "s3 = s1\<lparr>phys := store32 (phys s1) (f + 4) fat_item_type_file\<rparr>"
    and "kzalloc 32 s3 = (c, s4)" and "kept (\<lambda>_. False) s s1" and "kept (\<lambda>_. False) s s4" and "f \<noteq> 0" and "c \<noteq> 0" and "c \<noteq> f"
    and "kheap_live s4 = {(f, 4096), (c, 4096)} \<union> kheap_live s" and "kheap_pages s4 + 2 = kheap_pages s"
    and "\<And>k. (f, k) \<notin> kheap_live s" and "\<And>k. (c, k) \<notin> kheap_live s"
    and "load32 (phys s4) (f + 4) = fat_item_type_file"
    and "\<And>x. kheap_stable s x \<Longrightarrow> \<not> in_region f 4096 x \<and> \<not> in_region c 4096 x"
proof -
  have n: "0 < kheap_pages s" "(0 :: u32) < 8" "(8 :: u32) \<le> 4096" "(0 :: u32) < 32" "(32 :: u32) \<le> 4096"
    using pages by simp_all
  obtain f s1 where a1: "kzalloc 8 s = (f, s1)" by (cases "kzalloc 8 s")
  note z1 = kzalloc_page_facts [OF inv n(1-3) a1]
  obtain k where k1: "kept (\<lambda>_. False) s s1" by (rule kept_kzalloc [OF inv kheap_page_room [OF n(1-3)] a1]) blast
  let ?F = "in_region f 4096"
  have w4: "?F x" if "in_region (f + 4) 4 x" for x using field_in_struct [of 4 4096 f x] that by simp
  define s3 where "s3 = s1\<lparr>phys := store32 (phys s1) (f + 4) fat_item_type_file\<rparr>"
  have lf: "(f, 4096) \<in> kheap_live s1" using z1(2) by simp
  have k3: "kept ?F s1 s3" "kheap_live s3 = kheap_live s1" "kheap_pages s3 = kheap_pages s1"
    unfolding s3_def
    by (rule kept_page_write [where w = ?F, OF z1(1) lf]; use w4 in \<open>auto intro!: store32_other\<close>)+
  have pages3: "0 < kheap_pages s3" using k3(3) z1(3) pages by simp
  note inv3 = keptD(1) [OF k3(1)]
  obtain c s4 where a2: "kzalloc 32 s3 = (c, s4)" by (cases "kzalloc 32 s3")
  note z2 = kzalloc_page_facts [OF inv3 pages3 n(4,5) a2]
  obtain k' where k4: "kept (\<lambda>_. False) s3 s4" by (rule kept_kzalloc [OF inv3 kheap_page_room [OF pages3 n(4,5)] a2]) blast
  have lf3: "(f, 4096) \<in> kheap_live s3" using k3(2) lf by simp
  have st3: "kheap_stable s3 x" if "kheap_stable s x" for x
    by (rule keptD(6) [OF k3(1)], rule keptD(6) [OF k1]) (rule that)
  have k13: "kept (\<lambda>_. False) s s3" by (rule kept_trans [OF k1 k3(1)]) (use z1(8) in blast)
  have "load32 (phys s4) (f + 4) = load32 (phys s3) (f + 4)"
    by (rule page_word_kept [OF inv3 lf3 k4]) simp_all
  then have ty: "load32 (phys s4) (f + 4) = fat_item_type_file" by (simp add: s3_def)
  have cf: "c \<noteq> f" using z2(8) [OF stable_live [OF inv3 lf3, of f]] by auto
  show thesis
  proof (rule that [OF a1 s3_def a2 k1 _ z1(5) z2(5) cf _ _ _ _ ty])
    show "kept (\<lambda>_. False) s s4" by (rule kept_trans [OF k13 k4]) simp
    show "kheap_live s4 = {(f, 4096), (c, 4096)} \<union> kheap_live s" using z2(2) k3(2) z1(2) by auto
    show "kheap_pages s4 + 2 = kheap_pages s" using z2(3) k3(3) z1(3) by simp
    show "(f, k) \<notin> kheap_live s" "(c, k) \<notin> kheap_live s" for k using z1(4) z2(4) [of k] k3(2) z1(2) by auto
    show "\<not> in_region f 4096 x \<and> \<not> in_region c 4096 x" if "kheap_stable s x" for x
      using z1(8) [OF that] z2(8) [OF st3 [OF that]] by blast
  qed
qed

text \<open>The copy of the entry and the pointer to it.\<close>

lemma item_copied:
  fixes m :: mem and f c item :: ptr
  assumes item: "\<And>b. b < 32 \<Longrightarrow> \<not> in_region f 4096 (item + of_nat b) \<and> \<not> in_region c 4096 (item + of_nat b)"
    and ap: "apart f 4096 c 4096"
  defines "m' \<equiv> store32 (memcpy c item 32 m) f c"
  shows "\<not> (in_region f 4096 x \<or> in_region c 4096 x) \<Longrightarrow> m' x = m x" and "fat_item_ptr m' f = c"
    and "load32 m' (f + 4) = load32 m (f + 4)" and "bytes_at m' c 32 = bytes_at m item 32"
proof -
  have sub: "in_region f 4096 x" if "in_region f 4 x" for x using in_region_mono [OF that, of 4096] by simp
  have "32 \<le> c - item"
  proof (rule ccontr)
    assume "\<not> 32 \<le> c - item"
    then have "unat (c - item) < 32" by (simp add: word_le_nat_alt)
    from item [OF this] show False by simp
  qed
  then have cp: "memcpy c item 32 m x = (if in_region c 32 x then m (item + (x - c)) else m x)" for x
    by (rule memcpy_apply [OF disjI2])
  show "m' x = m x" if "\<not> (in_region f 4096 x \<or> in_region c 4096 x)"
  proof -
    have "\<not> in_region f 4 x" "\<not> in_region c 32 x" using that sub [of x] in_region_mono [of c 32 x 4096] by auto
    then show ?thesis by (simp add: m'_def store32_other cp)
  qed
  show "fat_item_ptr m' f = c" by (simp add: m'_def fat_item_ptr_def)
  have "load32 m' (f + 4) = load32 (memcpy c item 32 m) (f + 4)"
    using load32_store32_apart [OF offsets_apart [of 0 4 f]] by (simp add: m'_def)
  also have "\<dots> = load32 m (f + 4)"
  proof (rule load32_cong)
    fix x assume "in_region (f + 4) 4 x"
    then have "in_region f 4096 x" using field_in_struct [of 4 4096 f x] by simp
    then have "\<not> in_region c 32 x" using apart_not_in2 [OF ap] in_region_mono [of c 32 x 4096] by auto
    then show "memcpy c item 32 m x = m x" by (simp add: cp)
  qed
  finally show "load32 m' (f + 4) = load32 m (f + 4)" .
  show "bytes_at m' c 32 = bytes_at m item 32"
  proof (rule nth_equalityI)
    fix b assume "b < length (bytes_at m' c 32)"
    then have b: "b < 32" by (simp del: bytes_at_numeral)
    then have c32: "in_region c 32 (c + of_nat b)" by (simp add: in_region_of_nat)
    have "\<not> in_region f 4 (c + of_nat b)"
      using apart_not_in [OF ap, of "c + of_nat b"] in_region_mono [OF c32, of 4096] sub by auto
    then show "bytes_at m' c 32 ! b = bytes_at m item 32 ! b"
      using b c32 by (simp add: m'_def store32_other cp del: bytes_at_numeral)
  qed simp
qed

lemma new_file_item:
  assumes inv: "kheap_inv s" and pages: "2 \<le> kheap_pages s"
    and item: "\<And>b. b < 32 \<Longrightarrow> kheap_stable s (item + of_nat b)"
    and attr: "item_attribute (phys s) item AND fat_file_subdirectory = 0"
  obtains f s' where "fat16_new_fat_item_for_directory_item io l item s = Some (f, s')" and "kept (\<lambda>_. False) s s'"
    and "file_item f (bytes_at (phys s) item 32) s'"
    and "kheap_live s' = {(f, 4096), (fat_item_ptr (phys s') f, 4096)} \<union> kheap_live s"
    and "kheap_pages s' + 2 = kheap_pages s" and "\<And>k. (f, k) \<notin> kheap_live s" and "\<And>k. (fat_item_ptr (phys s') f, k) \<notin> kheap_live s"
proof -
  obtain f s1 s3 c s4 where b: "kzalloc 8 s = (f, s1)" "s3 = s1\<lparr>phys := store32 (phys s1) (f + 4) fat_item_type_file\<rparr>"
    "kzalloc 32 s3 = (c, s4)" "kept (\<lambda>_. False) s s1" "kept (\<lambda>_. False) s s4" "f \<noteq> 0" "c \<noteq> 0" "c \<noteq> f"
    "kheap_live s4 = {(f, 4096), (c, 4096)} \<union> kheap_live s" "kheap_pages s4 + 2 = kheap_pages s"
    "\<And>k. (f, k) \<notin> kheap_live s" "\<And>k. (c, k) \<notin> kheap_live s" "load32 (phys s4) (f + 4) = fat_item_type_file"
    "\<And>x. kheap_stable s x \<Longrightarrow> \<not> in_region f 4096 x \<and> \<not> in_region c 4096 x"
    by (rule item_blocks [OF inv pages]) (rule that; assumption)
  note inv4 = keptD(1) [OF b(5)]
  have lf: "(f, 4096) \<in> kheap_live s4" and lc: "(c, 4096) \<in> kheap_live s4" using b(9) by simp_all
  have ap: "apart f 4096 c 4096" using kmalloc_heap.live_apart [OF inv4 lf lc] b(8) by simp
  let ?w = "\<lambda>x. in_region f 4096 x \<or> in_region c 4096 x"
  define s' where "s' = s4\<lparr>phys := store32 (memcpy c item 32 (phys s4)) f c\<rparr>"
  note cp = item_copied [where m = "phys s4", OF b(14) [OF item] ap]
  have "\<not> in_table boot_heap x" if "?w x" for x
    using that kheap_live_not_in_table [OF inv4 lf] kheap_live_not_in_table [OF inv4 lc] by blast
  note k5 = kept_changed [where w = ?w, OF inv4 changed_only_write [OF cp(1)] this, folded s'_def]
  have kept: "kept (\<lambda>_. False) s s'"
  proof (rule kept_trans [OF b(5) k5(1)])
    show False if "kheap_stable s x" "?w x" for x using b(14) [OF that(1)] that(2) by blast
  qed
  have same: "phys s1 (item + of_nat i) = phys s (item + of_nat i)" "phys s4 (item + of_nat i) = phys s (item + of_nat i)"
    if "i < 32" for i
    using keptD(5) [OF b(4) item [OF that]] keptD(5) [OF b(5) item [OF that]] by simp_all
  have at: "item_attribute (phys s1) item = item_attribute (phys s) item"
    using same(1) [of 11] by (simp add: item_attribute_def)
  have op: "fat16_new_fat_item_for_directory_item io l item s = Some (f, s')"
    using attr b(1-3,6,7)
    by (simp add: fat16_new_fat_item_for_directory_item_def at fat16_clone_directory_item_def sizeof_directory_item_def
        word_sless_alt s'_def)
  have "bytes_at (phys s4) item 32 = bytes_at (phys s) item 32" by (rule bytes_at_cong) (rule same(2))
  then have "file_item f (bytes_at (phys s) item 32) s'"
    using cp(2-4) b(8,9,13) k5(3) by (simp add: file_item_def s'_def fat_item_type_def del: bytes_at_numeral)
  then show thesis
    using op kept k5(2,3) b(9-12) cp(2) by (intro that [of f s']) (simp_all add: s'_def kheap_pages_def)
qed

section \<open>Searching a directory\<close>

text \<open>The name the driver reads off the 32 bytes of an entry, and when it finds the end of both parts
  inside the entry.\<close>

definition entry_base :: "u8 list \<Rightarrow> u8 list" where
  "entry_base bs = takeWhile (\<lambda>c. \<not> name_stop c) bs"

definition entry_ext :: "u8 list \<Rightarrow> u8 list" where
  "entry_ext bs = takeWhile (\<lambda>c. \<not> name_stop c) (drop 8 bs)"

definition entry_name :: "u8 list \<Rightarrow> u8 list" where
  "entry_name bs = full_name (entry_base bs) (entry_ext bs)"

definition entry_ends :: "u8 list \<Rightarrow> bool" where
  "entry_ends bs \<longleftrightarrow> list_ex name_stop (drop 8 bs)"

lemma name_run_takeWhile:
  assumes "bytes_at m p (length bs) = bs" and "list_ex name_stop bs"
  shows "name_run m p (takeWhile (\<lambda>c. \<not> name_stop c) bs)" and "length (takeWhile (\<lambda>c. \<not> name_stop c) bs) < length bs"
proof -
  let ?w = "takeWhile (\<lambda>c. \<not> name_stop c) bs"
  have "list_ex name_stop cs \<Longrightarrow> length (takeWhile (\<lambda>c. \<not> name_stop c) cs) < length cs" for cs
    by (induction cs) auto
  then show len: "length ?w < length bs" using assms(2) .
  have "bytes_at m p (length ?w) = take (length ?w) (bytes_at m p (length bs))"
    using len by (simp add: bytes_at_def take_map take_upt)
  also have "\<dots> = ?w" unfolding assms(1) by (metis takeWhile_eq_take)
  finally have "bytes_at m p (length ?w) = ?w" .
  moreover have "m (p + of_nat (length ?w)) = bs ! length ?w"
    using len assms(1) nth_bytes_at [of "length ?w" "length bs" m p] by simp
  moreover have "name_stop (bs ! length ?w)" using nth_length_takeWhile [OF len] by simp
  moreover have "list_all (\<lambda>c. \<not> name_stop c) ?w" by (auto simp: list_all_iff dest: set_takeWhileD)
  ultimately show "name_run m p ?w" by (simp add: name_run_def)
qed

lemma slot_named_entry:
  assumes "bytes_at m (slot dir j) 32 = bs" and "entry_ends bs"
  shows "slot_named m dir j (entry_base bs) (entry_ext bs)"
proof -
  have len: "length bs = 32" unfolding assms(1) [symmetric] by (simp del: bytes_at_numeral)
  have b: "bytes_at m (slot dir j) (length bs) = bs" unfolding len by (rule assms(1))
  have x: "bytes_at m (item_ext (slot dir j)) (length (drop 8 bs)) = drop 8 bs"
  proof (rule nth_equalityI)
    fix i assume "i < length (bytes_at m (item_ext (slot dir j)) (length (drop 8 bs)))"
    then have i: "8 + i < 32" by (simp add: len)
    then have "drop 8 bs ! i = m (slot dir j + of_nat (8 + i))"
      unfolding assms(1) [symmetric] by (simp del: bytes_at_numeral of_nat_add)
    then show "bytes_at m (item_ext (slot dir j)) (length (drop 8 bs)) ! i = drop 8 bs ! i"
      using i by (simp add: len item_ext_def add.assoc del: bytes_at_numeral)
  qed simp
  have "list_ex name_stop bs" using assms(2) set_drop_subset [of 8 bs] by (auto simp: entry_ends_def list_ex_iff)
  from name_run_takeWhile [OF b this] name_run_takeWhile [OF x] assms(2) show ?thesis
    by (simp add: slot_named_def entry_base_def entry_ext_def entry_ends_def len)
qed

text \<open>A search with at most one match.\<close>

definition entries_at :: "mem \<Rightarrow> ptr \<Rightarrow> nat \<Rightarrow> (nat \<Rightarrow> u8 list) \<Rightarrow> bool" where
  "entries_at m dir T ent \<longleftrightarrow> (\<forall>j < T. bytes_at m (slot dir j) 32 = ent j \<and> entry_ends (ent j))"

lemma entries_at_kept:
  assumes "searching l d dir T name t s" and "kept (in_region (name_buffer l) 108) s s'" and "entries_at (phys s) dir T ent"
  shows "entries_at (phys s') dir T ent"
proof -
  have "32 * T < 2 ^ 31" using assms(1) by (simp add: searching_def)
  have "bytes_at (phys s') (slot dir j) 32 = bytes_at (phys s) (slot dir j) 32" if "j < T" for j
    by (rule bytes_at_cong, rule searching_kept(2) [OF assms(1,2)])
       (use slot_byte [OF that _ \<open>32 * T < 2 ^ 31\<close>] in \<open>simp add: search_byte_def\<close>)
  then show ?thesis using assms(3) by (simp add: entries_at_def del: bytes_at_numeral)
qed

lemma find_none:
  assumes se: "searching l d dir T name t s" and stack: "off_heap (name_buffer l) 108"
    and ent: "entries_at (phys s) dir T ent" and j: "j \<le> T"
    and other: "\<forall>i < T. j \<le> i \<longrightarrow> \<not> same_name (entry_name (ent i)) t"
  obtains s' where "find_item_loop io l d name (of_nat j) f s = Some (f, s')" and "kept (in_region (name_buffer l) 108) s s'"
    and "kchunks s' = kchunks s"
proof -
  have "\<forall>i < T - j. slot_named (phys s) dir (j + i) (entry_base (ent (j + i))) (entry_ext (ent (j + i))) \<and>
      \<not> same_name (full_name (entry_base (ent (j + i))) (entry_ext (ent (j + i)))) t"
  proof (intro allI impI)
    fix i assume "i < T - j"
    then have i: "j + i < T" by simp
    then have "bytes_at (phys s) (slot dir (j + i)) 32 = ent (j + i)" "entry_ends (ent (j + i))"
      using ent by (simp_all add: entries_at_def del: bytes_at_numeral)
    from slot_named_entry [OF this] show "slot_named (phys s) dir (j + i) (entry_base (ent (j + i))) (entry_ext (ent (j + i))) \<and>
        \<not> same_name (full_name (entry_base (ent (j + i))) (entry_ext (ent (j + i)))) t"
      using other i by (simp add: entry_name_def)
  qed
  then obtain s' where s': "find_item_loop io l d name (of_nat j) f s = find_item_loop io l d name (of_nat (j + (T - j))) f s'"
    "kept (in_region (name_buffer l) 108) s s'" "kchunks s' = kchunks s"
    using find_skip [OF stack se, of j "T - j" "\<lambda>i. entry_base (ent i)" "\<lambda>i. entry_ext (ent i)" io f] j by auto
  have "find_item_loop io l d name (of_nat (j + (T - j))) f s' = Some (f, s')"
    using find_end [OF searching_kept(1) [OF se s'(2)]] j by simp
  with s' show thesis by (intro that [of s']) simp_all
qed

lemma file_item_kept:
  assumes inv: "kheap_inv s" and fi: "file_item f bs s" and k: "kept w s s'"
    and w: "\<And>x. w x \<Longrightarrow> \<not> in_region f 4096 x \<and> \<not> in_region (fat_item_ptr (phys s) f) 4096 x"
  shows "file_item f bs s'" and "fat_item_ptr (phys s') f = fat_item_ptr (phys s) f"
proof -
  let ?c = "fat_item_ptr (phys s) f"
  have F: "(f, 4096) \<in> kheap_live s" "(?c, 4096) \<in> kheap_live s" "fat_item_type (phys s) f = fat_item_type_file"
    "bytes_at (phys s) ?c 32 = bs" "?c \<noteq> f" using fi by (simp_all add: file_item_def)
  have same: "phys s' x = phys s x" if "in_region a 4096 x" "(a, 4096) \<in> kheap_live s" "a = f \<or> a = ?c" for a x
    using keptD(5) [OF k stable_live [OF inv that(2,1)]] w that by blast
  have field: "load32 (phys s') (f + g) = load32 (phys s) (f + g)" if "unat g + 4 \<le> 4096" for g
    by (rule page_field [OF that]) (rule same [OF _ F(1)], simp_all)
  show ptr: "fat_item_ptr (phys s') f = ?c" using field [of 0] by (simp add: fat_item_ptr_def)
  have "bytes_at (phys s') ?c 32 = bytes_at (phys s) ?c 32"
    by (rule bytes_at_cong, rule same [OF _ F(2)]) (simp_all add: in_region_of_nat)
  then show "file_item f bs s'"
    using F keptD(2) [OF k] field [of 4] ptr by (auto simp: file_item_def fat_item_type_def simp del: bytes_at_numeral)
qed

text \<open>The search reaches the slot that matches.\<close>

lemma find_match:
  assumes se: "searching l d dir T name t s" and stack: "off_heap (name_buffer l) 108"
    and ent: "entries_at (phys s) dir T ent" and j: "j < T" "same_name (entry_name (ent j)) t"
    and other: "\<forall>i < j. \<not> same_name (entry_name (ent i)) t"
  obtains u where "kept (in_region (name_buffer l) 108) s u" and "kchunks u = kchunks s"
    and "fat16_find_item_in_directory io l d name s = fat16_new_fat_item_for_directory_item io l (slot dir j) u \<bind>
         (\<lambda>(f, v). find_item_loop io l d name (of_nat (Suc j)) f v)"
proof -
  let ?nb = "in_region (name_buffer l) 108" and ?b = "\<lambda>i. entry_base (ent i)" and ?e = "\<lambda>i. entry_ext (ent i)"
  have named: "slot_named m dir i (?b i) (?e i)" if "entries_at m dir T ent" "i < T" for i m
    using that by (intro slot_named_entry) (simp_all add: entries_at_def del: bytes_at_numeral)
  have "\<forall>i < j. slot_named (phys s) dir (0 + i) (?b (0 + i)) (?e (0 + i)) \<and> \<not> same_name (full_name (?b (0 + i)) (?e (0 + i))) t"
    using named [OF ent] other j(1) by (simp add: entry_name_def)
  then obtain s1 where s1: "find_item_loop io l d name (of_nat 0) 0 s = find_item_loop io l d name (of_nat (0 + j)) 0 s1"
    "kept ?nb s s1" "kchunks s1 = kchunks s"
    using find_skip [OF stack se, of 0 j ?b ?e io 0] j(1) by auto
  note se1 = searching_kept(1) [OF se s1(2)] and ent1 = entries_at_kept [OF se s1(2) ent]
  obtain m where m: "kept ?nb s1 (s1\<lparr>phys := m\<rparr>)" "kchunks (s1\<lparr>phys := m\<rparr>) = kchunks s1"
    "find_item_loop io l d name (of_nat j) 0 s1 =
       fat16_new_fat_item_for_directory_item io l (slot dir j) (s1\<lparr>phys := m\<rparr>) \<bind>
         (\<lambda>(f', s2). find_item_loop io l d name (of_nat (Suc j)) f' s2)"
    using find_step [OF se1 stack j(1) named [OF ent1 j(1)], of io 0] j(2) by (auto simp: entry_name_def)
  show thesis
    by (rule that [OF kept_trans [OF s1(2) m(1)]]) (use s1(1,3) m(2,3) in \<open>simp_all add: fat16_find_item_in_directory_def\<close>)
qed

lemma find_one:
  assumes se: "searching l d dir T name t s" and stack: "off_heap (name_buffer l) 108"
    and ent: "entries_at (phys s) dir T ent" and j: "j < T" "same_name (entry_name (ent j)) t"
    and other: "\<forall>i < T. i \<noteq> j \<longrightarrow> \<not> same_name (entry_name (ent i)) t"
    and attr: "ent j ! 11 AND fat_file_subdirectory = 0" and pages: "2 \<le> kheap_pages s"
  obtains f c s' where "fat16_find_item_in_directory io l d name s = Some (f, s')" and "kept (in_region (name_buffer l) 108) s s'"
    and "file_item f (ent j) s'" and "fat_item_ptr (phys s') f = c" and "kheap_live s' = {(f, 4096), (c, 4096)} \<union> kheap_live s"
    and "kheap_pages s' + 2 = kheap_pages s" and "\<And>k. (f, k) \<notin> kheap_live s" and "\<And>k. (c, k) \<notin> kheap_live s"
proof -
  let ?nb = "in_region (name_buffer l) 108"
  have "\<forall>i < j. \<not> same_name (entry_name (ent i)) t" using other j(1) by simp
  then obtain u where u: "kept ?nb s u" "kchunks u = kchunks s"
    "fat16_find_item_in_directory io l d name s = fat16_new_fat_item_for_directory_item io l (slot dir j) u \<bind>
         (\<lambda>(f, v). find_item_loop io l d name (of_nat (Suc j)) f v)"
    using find_match [OF se stack ent j] by blast
  note se2 = searching_kept(1) [OF se u(1)] and ent2 = entries_at_kept [OF se u(1) ent]
  have c2: "kheap_pages u = kheap_pages s" "kheap_live u = kheap_live s"
    using u(2) by (simp_all add: kheap_pages_def kheap_live_def)
  have bytes2: "bytes_at (phys u) (slot dir j) 32 = ent j"
    using ent2 j(1) by (simp add: entries_at_def del: bytes_at_numeral)
  have attr2: "item_attribute (phys u) (slot dir j) AND fat_file_subdirectory = 0"
    using attr unfolding bytes2 [symmetric] by (simp add: item_attribute_def del: bytes_at_numeral)
  have "32 * T < 2 ^ 31" using se by (simp add: searching_def)
  then have st2: "kheap_stable u (slot dir j + of_nat b)" if "b < 32" for b
    using se2 slot_byte [OF j(1) that] by (simp add: searching_def search_byte_def)
  have inv2: "kheap_inv u" and pages2: "2 \<le> kheap_pages u" using keptD(1) [OF u(1)] pages c2 by simp_all
  obtain f v where v: "fat16_new_fat_item_for_directory_item io l (slot dir j) u = Some (f, v)" "kept (\<lambda>_. False) u v"
    "file_item f (ent j) v" "kheap_live v = {(f, 4096), (fat_item_ptr (phys v) f, 4096)} \<union> kheap_live u"
    "kheap_pages v + 2 = kheap_pages u" "\<And>k. (f, k) \<notin> kheap_live u" "\<And>k. (fat_item_ptr (phys v) f, k) \<notin> kheap_live u"
    by (rule new_file_item [OF inv2 pages2 st2 attr2, unfolded bytes2]) (simp, rule that, assumption+)
  have kv: "kept ?nb u v" by (rule kept_mono [OF v(2)]) simp
  note se3 = searching_kept(1) [OF se2 kv] and ent3 = entries_at_kept [OF se2 kv ent2]
  have "\<forall>i < T. Suc j \<le> i \<longrightarrow> \<not> same_name (entry_name (ent i)) t" "Suc j \<le> T" using other j(1) by auto
  then obtain s' where s': "find_item_loop io l d name (of_nat (Suc j)) f v = Some (f, s')" "kept ?nb v s'" "kchunks s' = kchunks v"
    using find_none [OF se3 stack ent3] by blast
  have "\<not> in_region f 4096 x \<and> \<not> in_region (fat_item_ptr (phys v) f) 4096 x" if "?nb x" for x
    using off_heap_not_in [OF stack that] live_in_heap [OF keptD(1) [OF v(2)], of f 4096 x]
      live_in_heap [OF keptD(1) [OF v(2)], of "fat_item_ptr (phys v) f" 4096 x] v(4) by auto
  note fi = file_item_kept [OF keptD(1) [OF v(2)] v(3) s'(2) this]
  have "kept ?nb s s'" by (rule kept_trans [OF kept_trans [OF u(1) kv] s'(2)])
  moreover have "kheap_live s' = kheap_live v" "kheap_pages s' = kheap_pages v"
    using s'(3) by (simp_all add: kheap_live_def kheap_pages_def)
  ultimately show thesis
    using u(3) v(1,4-7) s'(1) fi c2 by (intro that [of f s' "fat_item_ptr (phys v) f"]) simp_all
qed

section \<open>Opening\<close>

text \<open>The root directory in memory, and the entries of the disk it holds.\<close>

definition disk_entry :: "(nat \<Rightarrow> u8) \<Rightarrow> nat \<Rightarrow> nat \<Rightarrow> u8 list" where
  "disk_entry img R j = map (\<lambda>b. img (512 * R + 32 * j + b)) [0..<32]"

definition root_ready :: "(nat \<Rightarrow> u8) \<Rightarrow> nat \<Rightarrow> nat \<Rightarrow> nat \<Rightarrow> ptr \<Rightarrow> ptr \<Rightarrow> ('d, 'a) files_scheme \<Rightarrow> bool" where
  "root_ready img R N k p dir s \<longleftrightarrow> kheap_inv s \<and> root_loaded img R N k p dir (phys s) \<and> fs_private (the_disk s) = p \<and>
     (p, 4096) \<in> kheap_live s \<and> (dir, 4096) \<in> kheap_live s \<and> k \<le> N \<and> N \<le> 128"

text \<open>A path whose first part is the name \<open>t\<close>, and one that has no other part.\<close>

definition first_part :: "layout \<Rightarrow> ptr \<Rightarrow> u8 list \<Rightarrow> ('d, 'a) files_scheme \<Rightarrow> bool" where
  "first_part l path t s \<longleftrightarrow> path \<noteq> 0 \<and> cstr_at (phys s) (path_part_part (phys s) path) t \<and>
     (\<forall>x. in_region path 8 x \<or> (\<exists>j \<le> length t. x = path_part_part (phys s) path + of_nat j) \<longrightarrow>
        kheap_stable s x \<and> \<not> in_region (name_buffer l) 108 x)"

definition one_part :: "layout \<Rightarrow> ptr \<Rightarrow> u8 list \<Rightarrow> ('d, 'a) files_scheme \<Rightarrow> bool" where
  "one_part l path t s \<longleftrightarrow> first_part l path t s \<and> path_part_next (phys s) path = 0"

lemma entries_kept_le: "entries_kept img p k \<le> k"
  unfolding entries_kept_def using length_filter_le [of _ "[0..<k]"] by simp

lemma root_searching:
  assumes rr: "root_ready img R N k p dir s" and path: "first_part l path t s" and stack: "off_heap (name_buffer l) 108"
    and ends: "\<forall>j < entries_kept img (512 * R) k. entry_ends (disk_entry img R j)"
  shows "searching l (root_directory p) dir (entries_kept img (512 * R) k) (path_part_part (phys s) path) t s"
    and "entries_at (phys s) dir (entries_kept img (512 * R) k) (disk_entry img R)"
proof -
  let ?T = "entries_kept img (512 * R) k"
  have R: "kheap_inv s" "root_loaded img R N k p dir (phys s)" "(p, 4096) \<in> kheap_live s" "(dir, 4096) \<in> kheap_live s"
    "k \<le> N" "N \<le> 128"
    using rr by (simp_all add: root_ready_def)
  have T: "?T \<le> N" using entries_kept_le R(5) le_trans by blast
  have "kheap_stable s x \<and> \<not> in_region (name_buffer l) 108 x"
    if "search_byte (root_directory p) dir ?T (path_part_part (phys s) path) t x" for x
  proof -
    consider (root) "in_region (root_directory p) 16 x" | (dir) "in_region dir (of_nat (32 * ?T)) x"
      | (name) "\<exists>j \<le> length t. x = path_part_part (phys s) path + of_nat j"
      using \<open>search_byte _ _ _ _ _ x\<close> by (auto simp: search_byte_def)
    then show ?thesis
    proof cases
      case root
      then have "in_region p 4096 x"
        using sub_region(1) [of 64 4096 p x] in_region_mono [OF root, of "4096 - 64"] by (simp add: root_directory_def)
      then show ?thesis
        using stable_live [OF R(1,3)] live_in_heap [OF R(1,3)] off_heap_not_in [OF stack] by blast
    next
      case dir
      have "(of_nat (32 * ?T) :: u32) \<le> 4096" using T R(6) by (simp add: word_le_nat_alt del: of_nat_mult)
      then have "in_region dir 4096 x" using in_region_mono [OF dir] by simp
      then show ?thesis
        using stable_live [OF R(1,4)] live_in_heap [OF R(1,4)] off_heap_not_in [OF stack] by blast
    next
      case name
      then show ?thesis using path by (auto simp: first_part_def)
    qed
  qed
  moreover have "32 * ?T < 2 ^ 31" using T R(6) by simp
  ultimately show "searching l (root_directory p) dir ?T (path_part_part (phys s) path) t s"
    using R(1,2) path by (simp add: searching_def root_loaded_def first_part_def)
  have "bytes_at (phys s) (slot dir j) 32 = disk_entry img R j" if "j < ?T" for j
  proof (rule nth_equalityI)
    fix b assume "b < length (bytes_at (phys s) (slot dir j) 32)"
    then have b: "b < 32" by (simp del: bytes_at_numeral)
    then have "32 * j + b < 32 * N" using that T by simp
    then have "phys s (dir + of_nat (32 * j + b)) = img (512 * R + (32 * j + b))" using R(2) unfolding root_loaded_def by blast
    then show "bytes_at (phys s) (slot dir j) 32 ! b = disk_entry img R j ! b"
      using b by (simp add: slot_def disk_entry_def add.assoc del: bytes_at_numeral)
  qed (simp add: disk_entry_def del: bytes_at_numeral)
  then show "entries_at (phys s) dir ?T (disk_entry img R)" using ends by (simp add: entries_at_def del: bytes_at_numeral)
qed

lemma root_ready_kept:
  assumes rr: "root_ready img R N k p dir s" and k: "kept w s s'" and w: "\<And>x. w x \<Longrightarrow> \<not> in_heap x"
  shows "root_ready img R N k p dir s'"
proof -
  have R: "kheap_inv s" "root_loaded img R N k p dir (phys s)" "fs_private (the_disk s) = p" "(p, 4096) \<in> kheap_live s"
    "(dir, 4096) \<in> kheap_live s" "k \<le> N" "N \<le> 128"
    using rr by (simp_all add: root_ready_def)
  have same: "phys s' x = phys s x" if "in_region a n x" "(a, n) \<in> kheap_live s" for a n x
    using keptD(5) [OF k stable_live [OF R(1) that(2,1)]] w live_in_heap [OF R(1) that(2,1)] by blast
  have field: "load32 (phys s') (p + g) = load32 (phys s) (p + g)" if "unat g + 4 \<le> 4096" for g
    by (rule page_field [OF that]) (rule same [OF _ R(4)])
  have "phys s' (dir + of_nat i) = phys s (dir + of_nat i)" if "i < 32 * N" for i
    by (rule same [OF _ R(5)]) (use that R(7) in \<open>simp add: in_region_of_nat\<close>)
  then have "root_loaded img R N k p dir (phys s')"
    using R(2) field [of 64] field [of 68] field [of 76]
    by (simp add: root_loaded_def root_directory_def dir_item_def dir_total_def dir_ending_sector_pos_def add.assoc)
  then show ?thesis using R keptD(1,2,4) [OF k] by (auto simp: root_ready_def)
qed

lemma first_part_kept:
  assumes path: "first_part l path t s" and k: "kept (in_region (name_buffer l) 108) s s'"
  shows "first_part l path t s'" and "path_part_part (phys s') path = path_part_part (phys s) path"
    and "path_part_next (phys s') path = path_part_next (phys s) path"
proof -
  have P: "path \<noteq> 0" "cstr_at (phys s) (path_part_part (phys s) path) t"
    using path by (simp_all add: first_part_def)
  have same: "phys s' x = phys s x" "kheap_stable s' x" if "in_region path 8 x \<or> (\<exists>j \<le> length t. x = path_part_part (phys s) path + of_nat j)" for x
  proof -
    have "kheap_stable s x" "\<not> in_region (name_buffer l) 108 x" using path that unfolding first_part_def by blast+
    then show "phys s' x = phys s x" "kheap_stable s' x" using keptD(5,6) [OF k] by blast+
  qed
  have field: "load32 (phys s') (path + g) = load32 (phys s) (path + g)" if "unat g + 4 \<le> 8" for g
    by (rule load32_cong, rule same(1)) (use that field_in_struct [of g 8 path] in simp)
  show pp: "path_part_part (phys s') path = path_part_part (phys s) path"
    using field [of 0] by (simp add: path_part_part_def)
  show "path_part_next (phys s') path = path_part_next (phys s) path"
    using field [of 4] by (simp add: path_part_next_def)
  have "cstr_at (phys s') (path_part_part (phys s) path) t"
    using P(2) by (subst cstr_at_cong [of t _ _ "phys s"]) (auto intro: same(1))
  then show "first_part l path t s'"
    using path P same(2) by (auto simp: first_part_def pp)
qed

text \<open>What a search needs, and an open of a file in the root directory.\<close>

definition can_search :: "layout \<Rightarrow> (nat \<Rightarrow> u8) \<Rightarrow> nat \<Rightarrow> nat \<Rightarrow> nat \<Rightarrow> ptr \<Rightarrow> ptr \<Rightarrow> ptr \<Rightarrow> u8 list \<Rightarrow> ('d, 'a) files_scheme \<Rightarrow> bool" where
  "can_search l img R N k p dir path t s \<longleftrightarrow> root_ready img R N k p dir s \<and> first_part l path t s \<and>
     off_heap (name_buffer l) 108 \<and> (\<forall>j < entries_kept img (512 * R) k. entry_ends (disk_entry img R j))"

definition can_open :: "layout \<Rightarrow> (nat \<Rightarrow> u8) \<Rightarrow> nat \<Rightarrow> nat \<Rightarrow> nat \<Rightarrow> ptr \<Rightarrow> ptr \<Rightarrow> ptr \<Rightarrow> u8 list \<Rightarrow> ('d, 'a) files_scheme \<Rightarrow> bool" where
  "can_open l img R N k p dir path t s \<longleftrightarrow> can_search l img R N k p dir path t s \<and> one_part l path t s"

lemma search_start:
  assumes co: "can_search l img R N k p dir path t s" and pages: "0 < kheap_pages s"
  obtains d s1 where "kzalloc 8 s = (d, s1)" and "kept (\<lambda>_. False) s s1" and "d \<noteq> 0" and "first_part l path t s1"
    and "path_part_next (phys s1) path = path_part_next (phys s) path"
    and "kheap_live s1 = insert (d, 4096) (kheap_live s)" and "Suc (kheap_pages s1) = kheap_pages s" and "\<And>k. (d, k) \<notin> kheap_live s"
    and "searching l (root_directory (fs_private (the_disk s1))) dir (entries_kept img (512 * R) k) (path_part_part (phys s1) path) t s1"
    and "entries_at (phys s1) dir (entries_kept img (512 * R) k) (disk_entry img R)"
proof -
  have n: "(0 :: u32) < 8" "(8 :: u32) \<le> 4096" by simp_all
  have C: "root_ready img R N k p dir s" "first_part l path t s" "off_heap (name_buffer l) 108"
    "\<forall>j < entries_kept img (512 * R) k. entry_ends (disk_entry img R j)"
    using co by (simp_all add: can_search_def)
  have inv: "kheap_inv s" using C(1) by (simp add: root_ready_def)
  obtain d s1 where a: "kzalloc 8 s = (d, s1)" by (cases "kzalloc 8 s")
  note z = kzalloc_page_facts [OF inv pages n a]
  obtain k' where k1: "kept (\<lambda>_. False) s s1" by (rule kept_kzalloc [OF inv kheap_page_room [OF pages n] a]) blast
  have rr: "root_ready img R N k p dir s1" by (rule root_ready_kept [OF C(1) k1]) simp
  have k': "kept (in_region (name_buffer l) 108) s s1" by (rule kept_mono [OF k1]) simp
  note op = first_part_kept [OF C(2) k']
  have "fs_private (the_disk s1) = p" using rr by (simp add: root_ready_def)
  with root_searching [OF rr op(1) C(3,4)] show thesis
    using a k1 z(2-5) op by (intro that [of d s1]) simp_all
qed

text \<open>A mounted disk is ready for an open of a path outside the heap and the driver's local objects.\<close>

lemma mounted_can_open:
  assumes m: "mounted io img spc r R N k p cs fs ds dir s'" "kheap_inv s'" "the_disk s' = volume_disk l p dk"
    "(dir, 4096) \<in> kheap_live s'" "k \<le> N" "N \<le> 128"
    and same: "\<And>x. kheap_stable s x \<Longrightarrow> \<not> local_byte l x \<Longrightarrow> phys s' x = phys s x"
    and path: "path \<noteq> 0" "path_part_part (phys s) path = name" "path_part_next (phys s) path = 0" "cstr_at (phys s) name t"
    and low: "\<And>x. in_region path 8 x \<or> (\<exists>j \<le> length t. x = name + of_nat j) \<Longrightarrow>
      \<not> in_table boot_heap x \<and> \<not> in_heap x \<and> \<not> local_byte l x \<and> \<not> in_region (name_buffer l) 108 x"
    and stack: "off_heap (name_buffer l) 108" and ends: "\<forall>j < entries_kept img (512 * R) k. entry_ends (disk_entry img R j)"
  shows "can_open l img R N k p dir path t s'"
proof -
  have same': "phys s' x = phys s x" if "in_region path 8 x \<or> (\<exists>j \<le> length t. x = name + of_nat j)" for x
    using same [of x] low [OF that] by (simp add: kheap_stable_def)
  have field: "load32 (phys s') (path + g) = load32 (phys s) (path + g)" if "unat g + 4 \<le> 8" for g
    by (rule load32_cong, rule same') (use that field_in_struct [of g 8 path] in simp)
  have pp: "path_part_part (phys s') path = name" "path_part_next (phys s') path = 0"
    using path(2,3) field [of 0] field [of 4] by (simp_all add: path_part_part_def path_part_next_def)
  moreover have "cstr_at (phys s') name t" using path(4) by (subst cstr_at_cong [of t _ _ "phys s"]) (auto intro: same')
  moreover have "kheap_stable s' x \<and> \<not> in_region (name_buffer l) 108 x" if "in_region path 8 x \<or> (\<exists>j \<le> length t. x = name + of_nat j)" for x
    using low [OF that] by (simp add: kheap_stable_def)
  ultimately have "first_part l path t s'" "one_part l path t s'" using path(1) by (simp_all add: one_part_def first_part_def)
  moreover have "(p, 4096) \<in> kheap_live s'" "root_loaded img R N k p dir (phys s')"
    using m(1) by (simp_all add: mounted_def private_streams_def)
  ultimately show ?thesis using m(2-6) stack ends by (simp add: can_open_def can_search_def root_ready_def volume_disk_def)
qed

text \<open>The boot state with a path of one part in low memory.\<close>

definition open_kernel :: "u8 list \<Rightarrow> sample_device files" where
  "open_kernel t = file_kernel\<lparr>phys := put_bytes 0x510 (t @ [0]) (store32 (store32 (phys file_kernel) 0x500 0x510) 0x504 0)\<rparr>"

lemma open_kernel_facts:
  assumes "length t < 100" and "0 \<notin> set t"
  shows "kheap_inv (open_kernel t)" and "kheap_pages (open_kernel t) = 25600" and "the_disk (open_kernel t) = the_disk file_kernel"
    and "path_part_part (phys (open_kernel t)) 0x500 = 0x510" and "path_part_next (phys (open_kernel t)) 0x500 = 0"
    and "cstr_at (phys (open_kernel t)) 0x510 t"
proof -
  define m where "m = put_bytes 0x510 (t @ [0]) (store32 (store32 (phys file_kernel) 0x500 0x510) 0x504 0)"
  let ?w = "\<lambda>x. x < 0x700"
  have "unat (of_nat (Suc (length t)) :: u32) = Suc (length t)" using assms(1) by (simp add: unat_of_nat del: of_nat_Suc)
  then have low: "\<not> in_region 0x510 (of_nat (Suc (length t))) x" if "\<not> ?w x \<or> in_region 0x500 8 x" for x
    using that assms(1) unfolding in_region_def
    by (auto simp: word_less_nat_alt unat_sub_if' simp del: of_nat_Suc split: if_splits)
  have w: "m x = phys file_kernel x" if "\<not> ?w x" for x
  proof -
    have "\<not> in_region 0x500 4 x" "\<not> in_region 0x504 4 x"
      using that unfolding in_region_def by (auto simp: word_less_nat_alt unat_sub_if' split: if_splits)
    then show ?thesis using low [of x] that assms(1) by (simp add: m_def put_bytes_out store32_other del: of_nat_Suc of_nat_add)
  qed
  have "\<not> in_table boot_heap x" if "?w x" for x
    using that unfolding in_table_def in_region_def boot_heap_simps by uint_arith (auto simp: linorder_not_less)
  note k = kept_changed [where w = ?w and s' = "file_kernel\<lparr>phys := m\<rparr>", OF file_kernel_disk(1) changed_only_write [OF w] this]
  have ok: "open_kernel t = file_kernel\<lparr>phys := m\<rparr>" by (simp add: open_kernel_def m_def)
  show "kheap_inv (open_kernel t)" unfolding ok by (rule keptD(1) [OF k(1)])
  show "kheap_pages (open_kernel t) = 25600" unfolding ok using k(2) file_kernel_facts(2) by (simp add: kheap_pages_def)
  show "the_disk (open_kernel t) = the_disk file_kernel" by (simp add: ok)
  have word: "load32 m a = load32 (store32 (store32 (phys file_kernel) 0x500 0x510) 0x504 0) a" if "a = 0x500 \<or> a = 0x504" for a
  proof (rule load32_cong)
    fix x assume x: "in_region a 4 x"
    have "in_region 0x500 8 x" using that field_in_struct [of 0 8 "0x500" x] field_in_struct [of 4 8 "0x500" x] x by auto
    then show "m x = store32 (store32 (phys file_kernel) 0x500 0x510) 0x504 0 x" using low [of x] assms(1) by (simp add: m_def put_bytes_out del: of_nat_Suc of_nat_add)
  qed
  have ap: "apart (0x504 :: u32) 4 0x500 4" by (simp add: apart_def)
  show "path_part_part (phys (open_kernel t)) 0x500 = 0x510" "path_part_next (phys (open_kernel t)) 0x500 = 0"
    using word [of "0x500"] word [of "0x504"] by (simp_all add: ok path_part_part_def path_part_next_def load32_store32_apart [OF ap])
  have "m (0x510 + of_nat i) = (t @ [0]) ! i" if "i \<le> length t" for i
    using that assms(1) by (simp add: m_def put_bytes_nth)
  then show "cstr_at (phys (open_kernel t)) 0x510 t"
    using assms(2) by (auto simp: ok cstr_at_iff nth_append in_set_conv_nth)
qed

definition blank_bin :: "u8 list" where
  "blank_bin = [0x62, 0x6C, 0x61, 0x6E, 0x6B, 0x2E, 0x62, 0x69, 0x6E]"

lemma volume_image_bytes:
  "volume_image 1536 = 0x42" "volume_image 1537 = 0x4C" "volume_image 1538 = 0x41" "volume_image 1539 = 0x4E"
  "volume_image 1540 = 0x4B" "volume_image 1541 = 0x20" "volume_image 1542 = 0x20" "volume_image 1543 = 0x20"
  "volume_image 1544 = 0x42" "volume_image 1545 = 0x49" "volume_image 1546 = 0x4E" "volume_image 1547 = 0x20"
  "volume_image 1568 = 0xE5" "volume_image 1569 = 0" "volume_image 1576 = 0"
  "volume_image 1600 = 0x41" "volume_image 1601 = 0x20" "volume_image 1608 = 0x20"
  by (simp_all add: volume_image_def)

lemma volume_entries:
  "entries_kept volume_image (512 * 3) 3 = 2" "\<forall>j < 2. entry_ends (disk_entry volume_image 3 j)"
  "entry_name (disk_entry volume_image 3 0) = [0x42, 0x4C, 0x41, 0x4E, 0x4B, 0x2E, 0x42, 0x49, 0x4E]"
  "entry_name (disk_entry volume_image 3 1) = [0xE5]" "entry_name (disk_entry volume_image 3 2) = [0x41]"
  "disk_entry volume_image 3 0 ! 11 = 0x20"
proof -
  have "filter (\<lambda>i. volume_image (512 * 3 + 32 * i) \<noteq> 0xE5) [0..<3] = [0, 2]"
    by (simp add: volume_image_def upt_rec [of _ 3])
  then show "entries_kept volume_image (512 * 3) 3 = 2" by (simp add: entries_kept_def entry_at_def)
  have u: "[0..<32] = [0, 1, 2, 3, 4, 5, 6, 7, 8, 9, 10, 11] @ [12..<32]" by code_simp
  obtain x where x: "disk_entry volume_image 3 0 = [0x42, 0x4C, 0x41, 0x4E, 0x4B, 0x20, 0x20, 0x20, 0x42, 0x49, 0x4E, 0x20] @ x"
    unfolding disk_entry_def u by (simp add: volume_image_bytes)
  obtain a b y where y: "disk_entry volume_image 3 1 = 0xE5 # 0 # a # b # [volume_image 1572, volume_image 1573, volume_image 1574, volume_image 1575] @ 0 # y"
    unfolding disk_entry_def u by (simp add: volume_image_bytes)
  obtain a' b' z where z: "disk_entry volume_image 3 2 = 0x41 # 0x20 # a' # b' # [volume_image 1604, volume_image 1605, volume_image 1606, volume_image 1607] @ 0x20 # z"
    unfolding disk_entry_def u by (simp add: volume_image_bytes)
  note defs = entry_name_def entry_base_def entry_ext_def full_name_def name_stop_def entry_ends_def
  show "entry_name (disk_entry volume_image 3 0) = [0x42, 0x4C, 0x41, 0x4E, 0x4B, 0x2E, 0x42, 0x49, 0x4E]"
    "disk_entry volume_image 3 0 ! 11 = 0x20"
    unfolding x by (simp_all add: defs)
  show "entry_name (disk_entry volume_image 3 1) = [0xE5]" unfolding y by (simp add: defs)
  show "entry_name (disk_entry volume_image 3 2) = [0x41]" unfolding z by (simp add: defs)
  have "entry_ends (disk_entry volume_image 3 0)" "entry_ends (disk_entry volume_image 3 1)"
    unfolding x y by (simp_all add: defs)
  moreover have "j = 0 \<or> j = 1" if "j < 2" for j :: nat using that by auto
  ultimately show "\<forall>j < 2. entry_ends (disk_entry volume_image 3 j)" by metis
qed

lemma mounted_kernel:
  assumes "length t < 100" and "0 \<notin> set t"
  obtains s p dir where "fat16_resolve (image_ports volume_image) sample_layout (open_kernel t) = Some (0, s)"
    and "can_open sample_layout volume_image 3 16 3 p dir 0x500 t s" and "kheap_pages s = 25595"
proof -
  note o = open_kernel_facts [OF assms]
  have "6 \<le> kheap_pages (open_kernel t)" "disk_addr (image_ports volume_image) \<noteq> 0" "disk_id (the_disk (open_kernel t)) = 0"
    "sector_size (the_disk (open_kernel t)) = 512"
    using o(2,3) file_kernel_disk by (simp_all add: image_ports_def)
  then obtain p cs fs ds dir s where m: "fat16_resolve (image_ports volume_image) sample_layout (open_kernel t) = Some (0, s)" "kheap_inv s"
    "mounted (image_ports volume_image) volume_image 1 1 3 16 3 p cs fs ds dir s" "the_disk s = volume_disk sample_layout p (the_disk (open_kernel t))"
    "kheap_live s = (\<lambda>a. (a, 4096)) ` {p, cs, fs, ds, dir} \<union> kheap_live (open_kernel t)" "kheap_pages s + 5 = kheap_pages (open_kernel t)"
    "\<And>x. kheap_stable (open_kernel t) x \<Longrightarrow> \<not> local_byte sample_layout x \<Longrightarrow> phys s x = phys (open_kernel t) x" "dir \<notin> {p, cs, fs, ds}" "disk_only (open_kernel t) s"
    by (rule mount_disk [OF image_ata sample_stack o(1) _ _ _ _ volume_disk_ok]) (rule that; assumption)
  have low: "\<not> in_table boot_heap x \<and> \<not> in_heap x \<and> \<not> local_byte sample_layout x \<and> \<not> in_region (name_buffer sample_layout) 108 x"
    if "in_region 0x500 8 x \<or> (\<exists>j \<le> length t. x = 0x510 + of_nat j)" for x
  proof -
    have "x < 0x700"
    proof (cases "in_region 0x500 8 x")
      case True
      then show ?thesis unfolding in_region_def by (auto simp: word_less_nat_alt unat_sub_if' split: if_splits)
    next
      case False
      with that obtain j where j: "j \<le> length t" "x = 0x510 + of_nat j" by blast
      have "x = of_nat (0x510 + j)" using j(2) by simp
      then show ?thesis using j(1) assms(1) by (simp add: word_less_nat_alt unat_of_nat del: of_nat_add)
    qed
    then have x: "unat x < 0x700" by (simp add: word_less_nat_alt)
    then have "\<not> in_table boot_heap x \<and> \<not> in_heap x"
      unfolding in_table_def in_heap_def in_region_def boot_heap_simps by (auto simp: word_less_nat_alt word_le_nat_alt unat_sub_if' split: if_splits)
    moreover have "\<not> in_region a k x" if "0x5D0000 \<le> unat a" "unat k \<le> 0x1000" "unat a < 0x600000" for a k
      using x that unfolding in_region_def by (auto simp: word_less_nat_alt unat_sub_if' split: if_splits)
    ultimately show ?thesis by (simp add: local_byte_def sample_layout_def)
  qed
  have "(dir, 4096) \<in> kheap_live s" using m(5) by simp
  moreover have "off_heap (name_buffer sample_layout) 108" by (simp add: sample_layout_def off_heap_low)
  ultimately have "can_open sample_layout volume_image 3 16 3 p dir 0x500 t s"
    using volume_entries(1,2) by (intro mounted_can_open [OF m(3,2,4) _ _ _ m(7) _ o(4,5,6) low]) simp_all
  then show thesis using m(1,6) o(2) by (intro that) simp_all
qed

text \<open>The first part of a path names a file of the root directory: the descriptor's page, then the item.\<close>

lemma found_part:
  assumes co: "can_search l img R N k p dir path t s" and pages: "3 \<le> kheap_pages s"
    and j: "j < entries_kept img (512 * R) k" "same_name (entry_name (disk_entry img R j)) t"
      "\<forall>i < entries_kept img (512 * R) k. i \<noteq> j \<longrightarrow> \<not> same_name (entry_name (disk_entry img R i)) t"
      "disk_entry img R j ! 11 AND fat_file_subdirectory = 0"
  obtains d s1 f c s2 where "kzalloc 8 s = (d, s1)" and "d \<noteq> 0" and "kept (in_region (name_buffer l) 108) s s2"
    and "fat16_get_directory_entry io l path s1 = entry_loop io l (path_part_next (phys s) path) f s2" and "f \<noteq> 0"
    and "file_item f (disk_entry img R j) s2" and "fat_item_ptr (phys s2) f = c" and "f \<noteq> d" and "c \<noteq> d"
    and "kheap_live s2 = {(d, 4096), (f, 4096), (c, 4096)} \<union> kheap_live s" and "kheap_pages s2 + 3 = kheap_pages s"
    and "\<And>a k. a \<in> {d, f, c} \<Longrightarrow> (a, k) \<notin> kheap_live s"
proof -
  let ?nb = "in_region (name_buffer l) 108"
  have pages': "0 < kheap_pages s" and stack: "off_heap (name_buffer l) 108" using co pages by (simp_all add: can_search_def)
  obtain d s1 where a: "kzalloc 8 s = (d, s1)" "kept (\<lambda>_. False) s s1" "d \<noteq> 0" "first_part l path t s1"
    "path_part_next (phys s1) path = path_part_next (phys s) path"
    "kheap_live s1 = insert (d, 4096) (kheap_live s)" "Suc (kheap_pages s1) = kheap_pages s" "\<And>k. (d, k) \<notin> kheap_live s"
    "searching l (root_directory (fs_private (the_disk s1))) dir (entries_kept img (512 * R) k) (path_part_part (phys s1) path) t s1"
    "entries_at (phys s1) dir (entries_kept img (512 * R) k) (disk_entry img R)"
    by (rule search_start [OF co pages']) (rule that; assumption)
  have pages1: "2 \<le> kheap_pages s1" using a(7) pages by simp
  obtain f c s2 where g: "fat16_find_item_in_directory io l (root_directory (fs_private (the_disk s1))) (path_part_part (phys s1) path) s1 = Some (f, s2)"
    "kept ?nb s1 s2" "file_item f (disk_entry img R j) s2" "fat_item_ptr (phys s2) f = c" "kheap_live s2 = {(f, 4096), (c, 4096)} \<union> kheap_live s1"
    "kheap_pages s2 + 2 = kheap_pages s1" "\<And>k. (f, k) \<notin> kheap_live s1" "\<And>k. (c, k) \<notin> kheap_live s1"
    by (rule find_one [OF a(9) stack a(10) j(1,2,3,4) pages1]) (rule that; assumption)
  have f0: "f \<noteq> 0" using kmalloc_heap.live_nonnull [OF keptD(1) [OF g(2)], of f 4096] g(5) by simp
  show thesis
  proof (rule that [OF a(1,3) _ _ f0 g(3,4)])
    show "kept ?nb s s2" by (rule kept_trans [OF kept_mono [OF a(2)] g(2)]) simp_all
    show "fat16_get_directory_entry io l path s1 = entry_loop io l (path_part_next (phys s) path) f s2"
      using g(1) f0 first_part_kept(3) [OF a(4) g(2)] a(5) by (simp add: fat16_get_directory_entry_def)
    show "f \<noteq> d" "c \<noteq> d" using g(7,8) [of 4096] a(6) by auto
    show "kheap_live s2 = {(d, 4096), (f, 4096), (c, 4096)} \<union> kheap_live s" using g(5) a(6) by auto
    show "kheap_pages s2 + 3 = kheap_pages s" using g(6) a(7) by simp
    show "(x, k) \<notin> kheap_live s" if "x \<in> {d, f, c}" for x k using that g(7,8) [of k] a(6,8) by auto
  qed
qed

text \<open>Writes to the new descriptor touch nothing that was there.\<close>

lemma write_new_desc:
  assumes k: "kept (in_region (name_buffer l) 108) s s2" and d: "(d, 4096) \<in> kheap_live s2" "\<And>k. (d, k) \<notin> kheap_live s"
    and m: "\<And>x. \<not> in_region d 8 x \<Longrightarrow> m x = phys s2 x"
  shows "kept (in_region (name_buffer l) 108) s (s2\<lparr>phys := m\<rparr>)" and "kept (in_region d 8) s2 (s2\<lparr>phys := m\<rparr>)"
    and "kheap_live (s2\<lparr>phys := m\<rparr>) = kheap_live s2" and "kheap_pages (s2\<lparr>phys := m\<rparr>) = kheap_pages s2"
proof -
  note inv2 = keptD(1) [OF k]
  have page: "in_region d 4096 x" if "in_region d 8 x" for x using in_region_mono [OF that, of 4096] by simp
  note w = kept_page_write [where w = "in_region d 8" and m = m, OF inv2 d(1) m page]
  then show "kept (in_region d 8) s2 (s2\<lparr>phys := m\<rparr>)" "kheap_live (s2\<lparr>phys := m\<rparr>) = kheap_live s2"
    "kheap_pages (s2\<lparr>phys := m\<rparr>) = kheap_pages s2" by blast+
  show "kept (in_region (name_buffer l) 108) s (s2\<lparr>phys := m\<rparr>)"
  proof (rule kept_trans [OF k w(1)])
    show "in_region (name_buffer l) 108 x" if "kheap_stable s x" "in_region d 8 x" for x
      using stable_not_new [OF inv2 d(1,2) keptD(2) [OF k] that(1)] page [OF that(2)] by simp
  qed
qed

lemma open_root_file:
  assumes co: "can_search l img R N k p dir path t s" and next0: "path_part_next (phys s) path = 0" and pages: "3 \<le> kheap_pages s"
    and j: "j < entries_kept img (512 * R) k" "same_name (entry_name (disk_entry img R j)) t"
      "\<forall>i < entries_kept img (512 * R) k. i \<noteq> j \<longrightarrow> \<not> same_name (entry_name (disk_entry img R i)) t"
      "disk_entry img R j ! 11 AND fat_file_subdirectory = 0"
  obtains d f c s' where "fat16_open io l path FILE_MODE_READ s = Some (d, s')" and "d \<noteq> 0" and "fat_desc_item (phys s') d = f"
    and "fat_desc_pos (phys s') d = 0" and "file_item f (disk_entry img R j) s'" and "fat_item_ptr (phys s') f = c"
    and "kheap_live s' = {(d, 4096), (f, 4096), (c, 4096)} \<union> kheap_live s" and "kheap_pages s' + 3 = kheap_pages s"
    and "kept (in_region (name_buffer l) 108) s s'" and "\<And>a k. a \<in> {d, f, c} \<Longrightarrow> (a, k) \<notin> kheap_live s" and "f \<noteq> d" and "c \<noteq> d"
proof -
  obtain d s1 f c s2 where g: "kzalloc 8 s = (d, s1)" "d \<noteq> 0" "kept (in_region (name_buffer l) 108) s s2"
    "fat16_get_directory_entry io l path s1 = entry_loop io l (path_part_next (phys s) path) f s2" "f \<noteq> 0"
    "file_item f (disk_entry img R j) s2" "fat_item_ptr (phys s2) f = c" "f \<noteq> d" "c \<noteq> d"
    "kheap_live s2 = {(d, 4096), (f, 4096), (c, 4096)} \<union> kheap_live s" "kheap_pages s2 + 3 = kheap_pages s"
    "\<And>a k. a \<in> {d, f, c} \<Longrightarrow> (a, k) \<notin> kheap_live s"
    by (rule found_part [OF co pages j]) (rule that; assumption)
  have entry: "fat16_get_directory_entry io l path s1 = Some (f, s2)"
    using g(4) by (simp add: next0 entry_loop.simps)
  define m where "m = store32 (store32 (phys s2) d f) (d + 4) 0"
  have op: "fat16_open io l path FILE_MODE_READ s = Some (d, s2\<lparr>phys := m\<rparr>)"
    using g(1,2,5) entry by (simp add: fat16_open_def m_def)
  have m: "m x = phys s2 x" if "\<not> in_region d 8 x" for x
  proof -
    have "\<not> in_region d 4 x" "\<not> in_region (d + 4) 4 x" using that stream_words by blast+
    then show ?thesis by (simp add: m_def store32_other)
  qed
  have live: "(d, 4096) \<in> kheap_live s2" "(f, 4096) \<in> kheap_live s2" "(c, 4096) \<in> kheap_live s2" using g(10) by simp_all
  note w = write_new_desc [where m = m, OF g(3) live(1) g(12) m]
  have words: "fat_desc_item m d = f" "fat_desc_pos m d = 0"
    using load32_store32_apart [OF offsets_apart [of 4 0 d]]
    by (simp_all add: m_def fat_desc_item_def fat_desc_pos_def)
  note inv2 = keptD(1) [OF g(3)]
  have "\<not> in_region f 4096 x \<and> \<not> in_region (fat_item_ptr (phys s2) f) 4096 x" if "in_region d 8 x" for x
    using two_pages [OF inv2 live(1,2) g(8) [symmetric]] two_pages [OF inv2 live(1,3) g(9) [symmetric]]
      in_region_mono [OF that, of 4096] g(7) by simp
  note fi = file_item_kept [OF inv2 g(6) w(2) this]
  show thesis
    by (rule that [OF op g(2) _ _ fi(1) _ _ _ w(1) g(12,8,9)]) (use words w(3,4) g(7,10,11) fi(2) in simp_all)
qed

text \<open>A file has no entries, so a path that goes on after it names nothing.\<close>

lemma open_beyond_file:
  assumes co: "can_search l img R N k p dir path t s" and more: "path_part_next (phys s) path \<noteq> 0" and pages: "3 \<le> kheap_pages s"
    and j: "j < entries_kept img (512 * R) k" "same_name (entry_name (disk_entry img R j)) t"
      "\<forall>i < entries_kept img (512 * R) k. i \<noteq> j \<longrightarrow> \<not> same_name (entry_name (disk_entry img R i)) t"
      "disk_entry img R j ! 11 AND fat_file_subdirectory = 0"
  obtains s' where "fat16_open io l path FILE_MODE_READ s = Some (- eio, s')" and "kept (in_region (name_buffer l) 108) s s'"
proof -
  obtain d s1 f c s2 where g: "kzalloc 8 s = (d, s1)" "d \<noteq> 0" "kept (in_region (name_buffer l) 108) s s2"
    "fat16_get_directory_entry io l path s1 = entry_loop io l (path_part_next (phys s) path) f s2" "f \<noteq> 0"
    "file_item f (disk_entry img R j) s2" "fat_item_ptr (phys s2) f = c" "f \<noteq> d" "c \<noteq> d"
    "kheap_live s2 = {(d, 4096), (f, 4096), (c, 4096)} \<union> kheap_live s" "kheap_pages s2 + 3 = kheap_pages s"
    "\<And>a k. a \<in> {d, f, c} \<Longrightarrow> (a, k) \<notin> kheap_live s"
    by (rule found_part [OF co pages j]) (rule that; assumption)
  have "fat_item_type (phys s2) f \<noteq> fat_item_type_directory"
    using g(6) by (simp add: file_item_def fat_item_type_file_def fat_item_type_directory_def)
  then have entry: "fat16_get_directory_entry io l path s1 = Some (0, s2)"
    using g(4) more by (simp add: entry_loop.simps)
  define m where "m = store32 (phys s2) d 0"
  have op: "fat16_open io l path FILE_MODE_READ s = Some (- eio, s2\<lparr>phys := m\<rparr>)"
    using g(1,2) entry by (simp add: fat16_open_def m_def)
  have m: "m x = phys s2 x" if "\<not> in_region d 8 x" for x
    unfolding m_def by (rule store32_other) (use that stream_words(1) [of d x] in blast)
  have "(d, 4096) \<in> kheap_live s2" using g(10) by simp
  from write_new_desc(1) [where m = m, OF g(3) this g(12) m] op show thesis by (intro that) simp_all
qed

lemma open_no_part:
  assumes co: "can_search l img R N k p dir path t s" and pages: "0 < kheap_pages s"
    and other: "\<forall>i < entries_kept img (512 * R) k. \<not> same_name (entry_name (disk_entry img R i)) t"
  obtains d s' where "fat16_open io l path FILE_MODE_READ s = Some (- eio, s')" and "kheap_live s' = insert (d, 4096) (kheap_live s)"
    and "Suc (kheap_pages s') = kheap_pages s" and "kept (in_region (name_buffer l) 108) s s'"
proof -
  let ?nb = "in_region (name_buffer l) 108"
  have stack: "off_heap (name_buffer l) 108" using co by (simp add: can_search_def)
  obtain d s1 where a: "kzalloc 8 s = (d, s1)" "kept (\<lambda>_. False) s s1" "d \<noteq> 0" "first_part l path t s1"
    "path_part_next (phys s1) path = path_part_next (phys s) path"
    "kheap_live s1 = insert (d, 4096) (kheap_live s)" "Suc (kheap_pages s1) = kheap_pages s" "\<And>k. (d, k) \<notin> kheap_live s"
    "searching l (root_directory (fs_private (the_disk s1))) dir (entries_kept img (512 * R) k) (path_part_part (phys s1) path) t s1"
    "entries_at (phys s1) dir (entries_kept img (512 * R) k) (disk_entry img R)"
    by (rule search_start [OF co pages]) (rule that; assumption)
  obtain s2 where g: "find_item_loop io l (root_directory (fs_private (the_disk s1))) (path_part_part (phys s1) path) (of_nat 0) 0 s1 = Some (0, s2)"
    "kept ?nb s1 s2" "kchunks s2 = kchunks s1"
    by (rule find_none [OF a(9) stack a(10) le0, of io 0]) (use other in blast)+
  have entry: "fat16_get_directory_entry io l path s1 = Some (0, s2)"
    using g(1) by (simp add: fat16_get_directory_entry_def fat16_find_item_in_directory_def)
  define m where "m = store32 (phys s2) d 0"
  have op: "fat16_open io l path FILE_MODE_READ s = Some (- eio, s2\<lparr>phys := m\<rparr>)"
    using a(1,3) entry by (simp add: fat16_open_def m_def)
  have live2: "kheap_live s2 = kheap_live s1" "kheap_pages s2 = kheap_pages s1"
    using g(3) by (simp_all add: kheap_live_def kheap_pages_def)
  have m: "m x = phys s2 x" if "\<not> in_region d 8 x" for x
    unfolding m_def by (rule store32_other) (use that stream_words(1) [of d x] in blast)
  have "kept ?nb s s2" by (rule kept_trans [OF kept_mono [OF a(2)] g(2)]) simp_all
  moreover have "(d, 4096) \<in> kheap_live s2" using live2 a(6) by simp
  ultimately have w: "kept ?nb s (s2\<lparr>phys := m\<rparr>)" "kheap_live (s2\<lparr>phys := m\<rparr>) = kheap_live s2"
    "kheap_pages (s2\<lparr>phys := m\<rparr>) = kheap_pages s2"
    using write_new_desc(1,3,4) [where m = m and l = l and s = s and d = d and ?s2.0 = s2, OF _ _ a(8) m] by blast+
  show thesis by (rule that [OF op _ _ w(1)]) (use w(2,3) live2 a(6,7) in simp_all)
qed

section \<open>Properties\<close>

text \<open>C35. \<open>fat16_open\<close> of a path of one part for reading finds the one entry among the first entries of the
  root directory whose name is the part, without case: it returns a descriptor at position 0 whose
  item is of the file type and has a copy of the 32 bytes of the entry. The three blocks are new,
  and no other live block changes.\<close>

theorem fat16_open_finds:
  assumes "can_open l img R N k p dir path t s" and "3 \<le> kheap_pages s"
    and "j < entries_kept img (512 * R) k" and "same_name (entry_name (disk_entry img R j)) t"
    and "\<forall>i < entries_kept img (512 * R) k. i \<noteq> j \<longrightarrow> \<not> same_name (entry_name (disk_entry img R i)) t"
    and "disk_entry img R j ! 11 AND fat_file_subdirectory = 0"
  shows "\<exists>d f c s'. fat16_open io l path FILE_MODE_READ s = Some (d, s') \<and> d \<noteq> 0 \<and> fat_desc_item (phys s') d = f \<and>
    fat_desc_pos (phys s') d = 0 \<and> file_item f (disk_entry img R j) s' \<and> fat_item_ptr (phys s') f = c \<and>
    kheap_live s' = {(d, 4096), (f, 4096), (c, 4096)} \<union> kheap_live s \<and> kheap_pages s' + 3 = kheap_pages s \<and>
    kept (in_region (name_buffer l) 108) s s'"
proof -
  have "can_search l img R N k p dir path t s" "path_part_next (phys s) path = 0"
    using assms(1) by (simp_all add: can_open_def one_part_def)
  then show ?thesis by (rule open_root_file [OF _ _ assms(2-6)]) blast
qed

theorem fat16_open_finds_witness:
  "\<exists>s d s'. fat16_resolve (image_ports volume_image) sample_layout (open_kernel blank_bin) = Some (0, s) \<and>
     fat16_open (image_ports volume_image) sample_layout 0x500 FILE_MODE_READ s = Some (d, s') \<and> d \<noteq> 0 \<and>
     file_item (fat_desc_item (phys s') d) (disk_entry volume_image 3 0) s'"
proof -
  obtain s p dir where m: "fat16_resolve (image_ports volume_image) sample_layout (open_kernel blank_bin) = Some (0, s)"
    "can_open sample_layout volume_image 3 16 3 p dir 0x500 blank_bin s" "kheap_pages s = 25595"
    by (rule mounted_kernel [of blank_bin]) (simp_all add: blank_bin_def)
  have e: "same_name (entry_name (disk_entry volume_image 3 0)) blank_bin"
    "\<not> same_name (entry_name (disk_entry volume_image 3 1)) blank_bin" "disk_entry volume_image 3 0 ! 11 AND fat_file_subdirectory = 0"
    by (simp_all only: volume_entries(3-6)) (simp_all add: blank_bin_def same_name_def tolower_def fat_file_subdirectory_def)
  have "i = 1" if "i < 2" "i \<noteq> 0" for i :: nat using that by auto
  with e(2) have other: "\<forall>i < entries_kept volume_image (512 * 3) 3. i \<noteq> 0 \<longrightarrow> \<not> same_name (entry_name (disk_entry volume_image 3 i)) blank_bin"
    unfolding volume_entries(1) by metis
  have "3 \<le> kheap_pages s" "0 < entries_kept volume_image (512 * 3) 3" using m(3) volume_entries(1) by simp_all
  from fat16_open_finds [OF m(2) this e(1) other e(3), of "image_ports volume_image"] m(1) show ?thesis by blast
qed

text \<open>A path of one part that no entry matches gives \<open>-EIO\<close>, and the page of the descriptor stays
  allocated. The search covers as many entries as the directory has undeleted ones, counted from
  the first, so a file that comes after deleted entries can be missed. Every other mode gives
  \<open>-ERDONLY\<close> and changes nothing.\<close>

theorem fat16_open_missing:
  assumes "can_open l img R N k p dir path t s" and "0 < kheap_pages s"
    and "\<forall>i < entries_kept img (512 * R) k. \<not> same_name (entry_name (disk_entry img R i)) t"
  shows "(\<exists>d s'. fat16_open io l path FILE_MODE_READ s = Some (- eio, s') \<and> kheap_live s' = insert (d, 4096) (kheap_live s) \<and>
      Suc (kheap_pages s') = kheap_pages s \<and> kept (in_region (name_buffer l) 108) s s') \<and>
    (mode \<noteq> FILE_MODE_READ \<longrightarrow> fat16_open io l path mode s = Some (- erdonly, s))"
proof -
  have "can_search l img R N k p dir path t s" using assms(1) by (simp add: can_open_def)
  then show ?thesis by (rule open_no_part [OF _ assms(2,3)]) (auto simp: fat16_open_def)
qed

text \<open>The second file of the volume is behind a deleted entry: the driver does not find it.\<close>

theorem fat16_open_missing_witness:
  "\<exists>s s'. fat16_resolve (image_ports volume_image) sample_layout (open_kernel [0x41]) = Some (0, s) \<and>
     same_name (entry_name (disk_entry volume_image 3 2)) [0x41] \<and>
     fat16_open (image_ports volume_image) sample_layout 0x500 FILE_MODE_READ s = Some (- eio, s')"
proof -
  obtain s p dir where m: "fat16_resolve (image_ports volume_image) sample_layout (open_kernel [0x41]) = Some (0, s)"
    "can_open sample_layout volume_image 3 16 3 p dir 0x500 [0x41] s" "kheap_pages s = 25595"
    by (rule mounted_kernel [of "[0x41]"]) simp_all
  have a: "same_name (entry_name (disk_entry volume_image 3 2)) [0x41]"
    and e: "\<not> same_name (entry_name (disk_entry volume_image 3 0)) [0x41]" "\<not> same_name (entry_name (disk_entry volume_image 3 1)) [0x41]"
    by (simp_all only: volume_entries(3-6)) (simp_all add: same_name_def tolower_def)
  have "i = 0 \<or> i = 1" if "i < 2" for i :: nat using that by auto
  with e have "\<forall>i < entries_kept volume_image (512 * 3) 3. \<not> same_name (entry_name (disk_entry volume_image 3 i)) [0x41]"
    unfolding volume_entries(1) by metis
  from fat16_open_missing [OF m(2) _ this, of "image_ports volume_image" FILE_MODE_READ] m(1,3) a show ?thesis by auto
qed

end
