(* ===== verification/Driver.thy ===== *)
theory Driver
  imports File
begin

text \<open>
  The interface between the file layer and a filesystem driver. A driver for a read-only volume promises
  to find the files of an abstract volume, to serve reads, seeks and queries of open files, and to keep
  its own data and every other open file. From that alone the six calls of \<open>src/fs/file.c\<close> implement an
  abstract table of open files: a number gives a file and a position in it.
\<close>

section \<open>The abstract volume and its open files\<close>

record 'f volume =
  find_file :: "u8 list list \<Rightarrow> 'f option"                 \<comment> \<open>the file a path names\<close>
  file_size :: "'f \<Rightarrow> u32"
  file_flags :: "'f \<Rightarrow> u32"
  file_bytes :: "'f \<Rightarrow> u32 \<Rightarrow> nat \<Rightarrow> u8 list option"      \<comment> \<open>what a read at a position delivers\<close>

type_synonym 'f open_files = "nat \<Rightarrow> ('f \<times> u32) option"

text \<open>The calls of a user. The text of a path and the mode are what lies at the two addresses.\<close>

datatype file_call =
    Open_File ptr ptr "u8 list" file_mode
  | Close_File i32
  | Seek_File i32 i32 u32
  | Stat_File i32 ptr
  | Read_File i32 u32 ptr

datatype reply = Code i32 | Stat_Reply u32 u32 | Data "u8 list"

definition path_names :: "u8 list \<Rightarrow> u8 list list" where
  "path_names t = (if path_valid t \<and> t ! 0 = 0x30 then path_parts (drop 3 t) else [])"

text \<open>The first of the 512 slots that is free.\<close>

definition free_slot :: "'f open_files \<Rightarrow> nat option" where
  "free_slot A = find (\<lambda>i. A i = None) [0..<512]"

text \<open>Numbers run from 1; 512, the number of the last slot, is not accepted.\<close>

definition open_file :: "'f open_files \<Rightarrow> i32 \<Rightarrow> ('f \<times> u32) option" where
  "open_file A fd = (if 0 < sint fd \<and> sint fd < 512 then A (nat (sint fd) - 1) else None)"

text \<open>Result and new position of a seek. A seek from the start leaves the position alone, as the driver does.\<close>

definition spec_seek :: "u32 \<Rightarrow> u32 \<Rightarrow> u32 \<Rightarrow> u32 \<Rightarrow> i32 \<times> u32" where
  "spec_seek sz pos offset whence =
     (if sz \<le> offset then (- eio, pos) else if whence = 0 then (0, pos)
      else if whence = 2 then (- eunimp, pos) else if whence = 1 then (0, pos + offset) else (- einvarg, pos))"

text \<open>The reply and the table after a call. Undefined are closing a number that is not open, which the code
  does not reject, and a read the volume has no bytes for.\<close>

fun spec_call :: "'f volume \<Rightarrow> file_call \<Rightarrow> 'f open_files \<Rightarrow> (reply \<times> 'f open_files) option" where
  "spec_call V (Open_File filename mode_str t mode) A =
     (case if mode = FILE_MODE_READ \<and> path_names t \<noteq> [] then find_file V (path_names t) else None of
        None \<Rightarrow> Some (Code 0, A)
      | Some f \<Rightarrow> (case free_slot A of None \<Rightarrow> Some (Code 0, A)
          | Some i \<Rightarrow> Some (Code (of_nat (i + 1)), A(i \<mapsto> (f, 0)))))"
| "spec_call V (Close_File fd) A =
     (if fd = 0 then Some (Code (- eio), A)
      else if open_file A fd = None then None else Some (Code 0, A(nat (sint fd) - 1 := None)))"
| "spec_call V (Seek_File fd offset whence) A =
     (case open_file A fd of None \<Rightarrow> Some (Code (- eio), A)
      | Some (f, pos) \<Rightarrow> let (res, pos') = spec_seek (file_size V f) pos offset whence
          in Some (Code res, A(nat (sint fd) - 1 \<mapsto> (f, pos'))))"
| "spec_call V (Stat_File fd buf) A =
     (case open_file A fd of None \<Rightarrow> Some (Code (- eio), A)
      | Some (f, pos) \<Rightarrow> Some (Stat_Reply (file_flags V f) (file_size V f), A))"
| "spec_call V (Read_File fd n out) A =
     (case open_file A fd of None \<Rightarrow> Some (Code (- einvarg), A)
      | Some (f, pos) \<Rightarrow> if n = 0 then Some (Code (- einvarg), A)
          else (case file_bytes V f pos (unat n) of None \<Rightarrow> None | Some bs \<Rightarrow> Some (Data bs, A)))"

fun spec_calls :: "'f volume \<Rightarrow> file_call list \<Rightarrow> 'f open_files \<Rightarrow> (reply list \<times> 'f open_files) option" where
  "spec_calls V [] A = Some ([], A)"
| "spec_calls V (c # cs) A =
     (case spec_call V c A of None \<Rightarrow> None
      | Some (r, A') \<Rightarrow> (case spec_calls V cs A' of None \<Rightarrow> None | Some (rs, A'') \<Rightarrow> Some (r # rs, A'')))"

section \<open>The calls on the kernel\<close>

fun exec_call ::
  "'d ports \<Rightarrow> (ptr \<rightharpoonup> ('d, 'a) files_scheme filesystem) \<Rightarrow> file_call \<Rightarrow> ('d, 'a) files_scheme \<Rightarrow>
   halt + reply \<times> ('d, 'a) files_scheme" where
  "exec_call io fss (Open_File filename mode_str t mode) s =
     and_then (fopen io fss filename mode_str s) (\<lambda>(res, s'). Inr (Code res, s'))"
| "exec_call io fss (Close_File fd) s = and_then (fclose fss fd s) (\<lambda>(res, s'). Inr (Code res, s'))"
| "exec_call io fss (Seek_File fd offset whence) s =
     and_then (fseek fss fd offset whence s) (\<lambda>(res, s'). Inr (Code res, s'))"
| "exec_call io fss (Stat_File fd buf) s = and_then (fstat fss fd buf s) (\<lambda>(res, s').
     Inr (if res = 0 then Stat_Reply (load32 (phys s') buf) (load32 (phys s') (buf + 4)) else Code res, s'))"
| "exec_call io fss (Read_File fd n out) s = and_then (fread fss out n 1 fd s) (\<lambda>(res, s').
     Inr (if res = 1 then Data (bytes_at (phys s') out (unat n)) else Code res, s'))"

fun exec_calls ::
  "'d ports \<Rightarrow> (ptr \<rightharpoonup> ('d, 'a) files_scheme filesystem) \<Rightarrow> file_call list \<Rightarrow> ('d, 'a) files_scheme \<Rightarrow>
   halt + reply list \<times> ('d, 'a) files_scheme" where
  "exec_calls io fss [] s = Inr ([], s)"
| "exec_calls io fss (c # cs) s = and_then (exec_call io fss c s) (\<lambda>(r, s1).
     and_then (exec_calls io fss cs s1) (\<lambda>(rs, s2). Inr (r # rs, s2)))"

text \<open>What a user must see to: the path and the mode lie in memory that allocations keep and as many pages
  are free as the call may take; buffers are off the heap and off the driver's local objects.\<close>

fun call_ok :: "nat \<Rightarrow> (ptr \<Rightarrow> bool) \<Rightarrow> file_call \<Rightarrow> ('d, 'a) files_scheme \<Rightarrow> bool" where
  "call_ok need scratch (Open_File filename mode_str t mode) s \<longleftrightarrow> cstr_at (phys s) filename t \<and> length t < 2 ^ 31 \<and>
     (\<forall>j \<le> length t. kheap_stable s (filename + of_nat j)) \<and> kheap_stable s mode_str \<and>
     file_mode_get_by_string mode_str (phys s) = mode \<and>
     2 * length (path_parts (drop 3 t)) + 3 + need \<le> kheap_pages s"
| "call_ok need scratch (Stat_File fd buf) s \<longleftrightarrow> off_heap buf 8"
| "call_ok need scratch (Read_File fd n out) s \<longleftrightarrow> off_heap out n \<and> (\<forall>x. in_region out n x \<longrightarrow> \<not> scratch x)"
| "call_ok need scratch c s \<longleftrightarrow> True"

fun calls_ok ::
  "'d ports \<Rightarrow> (ptr \<rightharpoonup> ('d, 'a) files_scheme filesystem) \<Rightarrow> nat \<Rightarrow> (ptr \<Rightarrow> bool) \<Rightarrow> file_call list \<Rightarrow>
   ('d, 'a) files_scheme \<Rightarrow> bool" where
  "calls_ok io fss need scratch [] s \<longleftrightarrow> True"
| "calls_ok io fss need scratch (c # cs) s \<longleftrightarrow> call_ok need scratch c s \<and>
     (case exec_call io fss c s of Inl e \<Rightarrow> True | Inr (r, s1) \<Rightarrow> calls_ok io fss need scratch cs s1)"

section \<open>Pages\<close>

definition in_pages :: "ptr set \<Rightarrow> ptr \<Rightarrow> bool" where
  "in_pages B x \<longleftrightarrow> (\<exists>a \<in> B. in_region a 4096 x)"

abbreviation page_blocks :: "ptr set \<Rightarrow> (ptr \<times> u32) set" where
  "page_blocks B \<equiv> (\<lambda>a. (a, 4096)) ` B"

definition pages_same :: "ptr set \<Rightarrow> 'a kheap_scheme \<Rightarrow> 'a kheap_scheme \<Rightarrow> bool" where
  "pages_same B s s' \<longleftrightarrow> page_blocks B \<subseteq> kheap_live s' \<and> (\<forall>x. in_pages B x \<longrightarrow> phys s' x = phys s x)"

lemma pages_same_trans: "pages_same B s s1 \<Longrightarrow> pages_same B s1 s2 \<Longrightarrow> pages_same B s s2"
  by (auto simp: pages_same_def)

lemma pages_same_mono: "pages_same C s s' \<Longrightarrow> B \<subseteq> C \<Longrightarrow> pages_same B s s'"
  by (auto simp: pages_same_def in_pages_def)

lemma pages_sameI:
  assumes "page_blocks B \<subseteq> kheap_live s'" and "\<And>x. in_pages B x \<Longrightarrow> phys s' x = phys s x"
  shows "pages_same B s s'"
  using assms by (simp add: pages_same_def)

lemma pages_same_word: "pages_same B s s' \<Longrightarrow> a \<in> B \<Longrightarrow> unat f + 4 \<le> 4096 \<Longrightarrow> load32 (phys s') (a + f) = load32 (phys s) (a + f)"
  by (rule page_field) (auto simp: pages_same_def in_pages_def)

lemma in_pages_stable:
  assumes "kheap_inv s" and "page_blocks B \<subseteq> kheap_live s" and "in_pages B x"
  shows "kheap_stable s x" and "in_heap x" and "\<not> in_table boot_heap x"
proof -
  obtain a where a: "(a, 4096) \<in> kheap_live s" "in_region a 4096 x" using assms(2,3) by (auto simp: in_pages_def)
  then show "kheap_stable s x" "in_heap x" "\<not> in_table boot_heap x"
    using stable_live [OF assms(1)] live_in_heap [OF assms(1)] kheap_live_not_in_table [OF assms(1)] by blast+
qed

lemma pages_same_stable:
  assumes "kheap_inv s" and "page_blocks B \<subseteq> kheap_live s" and "kheap_live s \<subseteq> kheap_live s'"
    and "\<And>x. kheap_stable s x \<Longrightarrow> phys s' x = phys s x"
  shows "pages_same B s s'"
  using assms in_pages_stable(1) [OF assms(1,2)] by (intro pages_sameI) auto

lemma pages_apart:
  assumes "kheap_inv s" and "page_blocks B \<subseteq> kheap_live s" and "page_blocks C \<subseteq> kheap_live s" and "B \<inter> C = {}"
    and "in_pages B x"
  shows "\<not> in_pages C x"
proof
  assume "in_pages C x"
  then obtain a c where ac: "a \<in> B" "in_region a 4096 x" "c \<in> C" "in_region c 4096 x" using assms(5) by (auto simp: in_pages_def)
  then have "(a, 4096) \<in> kheap_live s" "(c, 4096) \<in> kheap_live s" "a \<noteq> c" using assms(2-4) by auto
  from two_pages [OF assms(1) this ac(2)] ac(4) show False by simp
qed

lemma block_not_in_pages:
  assumes "kheap_inv s" and "page_blocks B \<subseteq> kheap_live s" and "(p, k) \<in> kheap_live s" and "(p, k) \<notin> page_blocks B"
    and "in_region p k x"
  shows "\<not> in_pages B x"
proof
  assume "in_pages B x"
  then obtain a where a: "a \<in> B" "in_region a 4096 x" by (auto simp: in_pages_def)
  then have l: "(a, 4096) \<in> kheap_live s" "(a, 4096) \<noteq> (p, k)" using assms(2,4) by auto
  from apart_not_in [OF kmalloc_heap.live_apart [OF assms(1) l(1) assms(3) l(2)] assms(5)] a(2) show False by simp
qed

section \<open>The contract of a driver\<close>

text \<open>What a driver keeps: whether its volume is ready, the pages of its own data, the open file behind private
  data and the pages of it, its local objects, and the pages an open may take.\<close>

record ('s, 'f) driver_data =
  drv_ready :: "'s \<Rightarrow> bool"
  drv_base :: "'s \<Rightarrow> ptr set"
  drv_handle :: "'s \<Rightarrow> ptr \<Rightarrow> 'f \<Rightarrow> u32 \<Rightarrow> bool"
  drv_pages :: "'s \<Rightarrow> ptr \<Rightarrow> ptr set"
  drv_scratch :: "ptr \<Rightarrow> bool"
  drv_need :: nat

text \<open>A path in memory whose structs and strings are stable bytes of the heap.\<close>

fun path_safe :: "(ptr \<Rightarrow> bool) \<Rightarrow> mem \<Rightarrow> ptr \<Rightarrow> u8 list list \<Rightarrow> bool" where
  "path_safe ok m p [] \<longleftrightarrow> p = 0"
| "path_safe ok m p (w # ws) \<longleftrightarrow> p \<noteq> 0 \<and> (\<forall>x. in_region p 8 x \<longrightarrow> ok x) \<and>
     (\<forall>j \<le> length w. ok (path_part_part m p + of_nat j)) \<and> cstr_at m (path_part_part m p) w \<and>
     path_safe ok m (path_part_next m p) ws"

definition safe_path :: "ptr \<Rightarrow> u8 list list \<Rightarrow> ('d, 'a) files_scheme \<Rightarrow> bool" where
  "safe_path q names s \<longleftrightarrow> path_safe (\<lambda>x. kheap_stable s x \<and> in_heap x) (phys s) q names"

locale file_driver =
  fixes ops :: "('d, 'a) files_scheme filesystem" and dsk :: ptr
    and D :: "(('d, 'a) files_scheme, 'f) driver_data" and V :: "'f volume"
  assumes scratch_off: "drv_scratch D x \<Longrightarrow> \<not> in_heap x \<and> \<not> in_table boot_heap x"
    and base_live: "drv_ready D s \<Longrightarrow> page_blocks (drv_base D s) \<subseteq> kheap_live s"
    and handle_live: "drv_handle D s p f n \<Longrightarrow> page_blocks (drv_pages D s p) \<subseteq> kheap_live s"
    and ready_frame: "\<lbrakk> drv_ready D s; kheap_inv s'; the_disk s' = the_disk s; pages_same (drv_base D s) s s' \<rbrakk> \<Longrightarrow>
      drv_ready D s' \<and> drv_base D s' = drv_base D s"
    and handle_frame: "\<lbrakk> drv_handle D s p f n; pages_same (drv_pages D s p) s s' \<rbrakk> \<Longrightarrow>
      drv_handle D s' p f n \<and> drv_pages D s' p = drv_pages D s p"
    and open_finds: "\<lbrakk> drv_ready D s; kheap_inv s; drv_need D \<le> kheap_pages s; safe_path q names s; names \<noteq> [];
        find_file V names = Some f \<rbrakk> \<Longrightarrow>
      \<exists>p s'. fs_open_op ops dsk q FILE_MODE_READ s = Inr (p, s') \<and> \<not> iserr p \<and> kept (drv_scratch D) s s' \<and>
        drv_handle D s' p f 0 \<and> (\<forall>a \<in> drv_pages D s' p. \<forall>k. (a, k) \<notin> kheap_live s) \<and>
        kheap_pages s \<le> kheap_pages s' + drv_need D"
    and open_missing: "\<lbrakk> drv_ready D s; kheap_inv s; drv_need D \<le> kheap_pages s; safe_path q names s; names \<noteq> [];
        find_file V names = None \<rbrakk> \<Longrightarrow>
      \<exists>p s'. fs_open_op ops dsk q FILE_MODE_READ s = Inr (p, s') \<and> iserr p \<and> kept (drv_scratch D) s s'"
    and open_mode: "mode \<noteq> FILE_MODE_READ \<Longrightarrow> \<exists>p. fs_open_op ops dsk q mode s = Inr (p, s) \<and> iserr p"
    and seek_open: "\<lbrakk> drv_handle D s p f n; kheap_inv s; spec_seek (file_size V f) n offset whence = (res, n') \<rbrakk> \<Longrightarrow>
      \<exists>m. fs_seek_op ops p offset whence s = Inr (res, s\<lparr>phys := m\<rparr>) \<and>
        (\<forall>x. \<not> in_pages (drv_pages D s p) x \<longrightarrow> m x = phys s x) \<and> drv_handle D (s\<lparr>phys := m\<rparr>) p f n' \<and>
        drv_pages D (s\<lparr>phys := m\<rparr>) p = drv_pages D s p"
    and stat_open: "\<lbrakk> drv_handle D s p f n; kheap_inv s; off_heap buf 8 \<rbrakk> \<Longrightarrow>
      \<exists>m. fs_stat_op ops dsk p buf s = Inr (0, s\<lparr>phys := m\<rparr>) \<and> (\<forall>x. \<not> in_region buf 8 x \<longrightarrow> m x = phys s x) \<and>
        load32 m buf = file_flags V f \<and> load32 m (buf + 4) = file_size V f"
    and read_open: "\<lbrakk> drv_ready D s; kheap_inv s; drv_handle D s p f n; file_bytes V f n (unat k) = Some bs; k \<noteq> 0;
        \<forall>x. in_region out k x \<longrightarrow> \<not> in_table boot_heap x \<and> \<not> drv_scratch D x \<and> \<not> in_pages (drv_base D s) x \<rbrakk> \<Longrightarrow>
      \<exists>s'. fs_read_op ops dsk p k 1 out s = Inr (1, s') \<and> bytes_at (phys s') out (unat k) = bs \<and>
        changed_only (\<lambda>x. drv_scratch D x \<or> in_region out k x \<or> in_pages (drv_base D s) x) s s' \<and>
        drv_ready D s' \<and> drv_base D s' = drv_base D s"
    and close_open: "\<lbrakk> drv_handle D s p f n; kheap_inv s \<rbrakk> \<Longrightarrow>
      \<exists>s'. fs_close_op ops p s = Inr (0, s') \<and> kheap.more s' = kheap.more s \<and> kheap_inv s' \<and>
        kheap_live s' = kheap_live s - page_blocks (drv_pages D s p) \<and> (\<forall>x. kheap_stable s x \<longrightarrow> phys s' x = phys s x)"

section \<open>The table of open files\<close>

definition slot_pages :: "('s kheap_scheme, 'f) driver_data \<Rightarrow> 's kheap_scheme \<Rightarrow> ptr \<Rightarrow> ptr set" where
  "slot_pages D s d = insert d (drv_pages D s (fd_private (phys s) d))"

definition slot_ok ::
  "('s kheap_scheme, 'f) driver_data \<Rightarrow> ptr \<Rightarrow> ptr \<Rightarrow> 's kheap_scheme \<Rightarrow> ptr \<Rightarrow> 'f \<Rightarrow> u32 \<Rightarrow> bool" where
  "slot_ok D dsk fsp s d f n \<longleftrightarrow> d \<noteq> 0 \<and> (d, 4096) \<in> kheap_live s \<and> fd_filesystem (phys s) d = fsp \<and>
     fd_disk (phys s) d = dsk \<and> drv_handle D s (fd_private (phys s) d) f n \<and> d \<notin> drv_pages D s (fd_private (phys s) d)"

text \<open>The descriptor table stands for \<open>A\<close>: a slot is used exactly when \<open>A\<close> has a file there, the pages of every open
  file are its own, and none of them is the driver's.\<close>

definition files_rel ::
  "(('d, 'a) files_scheme, 'f) driver_data \<Rightarrow> ptr \<Rightarrow> ptr \<Rightarrow> 'f open_files \<Rightarrow> ('d, 'a) files_scheme \<Rightarrow> bool" where
  "files_rel D dsk fsp A s \<longleftrightarrow> fds_ok s \<and> drv_ready D s \<and> disk_filesystem (the_disk s) = fsp \<and>
     (\<forall>i. case A i of None \<Rightarrow> i < 512 \<longrightarrow> file_descriptors s ! i = 0
        | Some (f, n) \<Rightarrow> i < 512 \<and> slot_ok D dsk fsp s (file_descriptors s ! i) f n \<and>
            slot_pages D s (file_descriptors s ! i) \<inter> drv_base D s = {}) \<and>
     (\<forall>i j. A i \<noteq> None \<longrightarrow> A j \<noteq> None \<longrightarrow> i \<noteq> j \<longrightarrow>
        slot_pages D s (file_descriptors s ! i) \<inter> slot_pages D s (file_descriptors s ! j) = {})"

text \<open>The pages of the driver and of all open files.\<close>

definition open_pages :: "(('d, 'a) files_scheme, 'f) driver_data \<Rightarrow> 'f open_files \<Rightarrow> ('d, 'a) files_scheme \<Rightarrow> ptr set" where
  "open_pages D A s = drv_base D s \<union> (\<Union>j \<in> {j. A j \<noteq> None}. slot_pages D s (file_descriptors s ! j))"

text \<open>A buffer may lie anywhere but in the table of the heap, the driver's objects and the pages of open files.\<close>

definition buffer_free ::
  "(('d, 'a) files_scheme, 'f) driver_data \<Rightarrow> 'f open_files \<Rightarrow> ptr \<Rightarrow> u32 \<Rightarrow> ('d, 'a) files_scheme \<Rightarrow> bool" where
  "buffer_free D A out k s \<longleftrightarrow> (\<forall>x. in_region out k x \<longrightarrow> \<not> in_table boot_heap x \<and> \<not> drv_scratch D x \<and>
     \<not> in_pages (drv_base D s) x \<and> (\<forall>j. A j \<noteq> None \<longrightarrow> \<not> in_pages (slot_pages D s (file_descriptors s ! j)) x))"

text \<open>A step that leaves the numbers and the pages of the open files and of the driver alone.\<close>

definition table_same ::
  "(('d, 'a) files_scheme, 'f) driver_data \<Rightarrow> 'f open_files \<Rightarrow> ('d, 'a) files_scheme \<Rightarrow> ('d, 'a) files_scheme \<Rightarrow> bool" where
  "table_same D A s s' \<longleftrightarrow> file_descriptors s' = file_descriptors s \<and> drv_base D s' = drv_base D s \<and>
     (\<forall>j. A j \<noteq> None \<longrightarrow> slot_pages D s' (file_descriptors s ! j) = slot_pages D s (file_descriptors s ! j))"

lemma open_pages_same: "table_same D A s s' \<Longrightarrow> open_pages D A s' = open_pages D A s"
  by (auto simp: table_same_def open_pages_def)

lemma table_same_trans: "table_same D A s s1 \<Longrightarrow> table_same D A s1 s2 \<Longrightarrow> table_same D A s s2"
  by (simp add: table_same_def)

lemma files_relD:
  assumes "files_rel D dsk fsp A s"
  shows "fds_ok s" and "kheap_inv s" and "drv_ready D s" and "disk_filesystem (the_disk s) = fsp"
    and "length (file_descriptors s) = 512" and "A i = None \<Longrightarrow> i < 512 \<Longrightarrow> file_descriptors s ! i = 0"
    and "A i = Some (f, n) \<Longrightarrow> i < 512" and "A i = Some (f, n) \<Longrightarrow> slot_ok D dsk fsp s (file_descriptors s ! i) f n"
    and "A i \<noteq> None \<Longrightarrow> slot_pages D s (file_descriptors s ! i) \<inter> drv_base D s = {}"
    and "\<lbrakk> A i \<noteq> None; A j \<noteq> None; i \<noteq> j \<rbrakk> \<Longrightarrow>
      slot_pages D s (file_descriptors s ! i) \<inter> slot_pages D s (file_descriptors s ! j) = {}"
proof -
  have R: "fds_ok s" "drv_ready D s" "disk_filesystem (the_disk s) = fsp"
    "case A i of None \<Rightarrow> i < 512 \<longrightarrow> file_descriptors s ! i = 0
        | Some (f, n) \<Rightarrow> i < 512 \<and> slot_ok D dsk fsp s (file_descriptors s ! i) f n \<and>
            slot_pages D s (file_descriptors s ! i) \<inter> drv_base D s = {}"
    "\<lbrakk> A i \<noteq> None; A j \<noteq> None; i \<noteq> j \<rbrakk> \<Longrightarrow>
      slot_pages D s (file_descriptors s ! i) \<inter> slot_pages D s (file_descriptors s ! j) = {}" for i j
    using assms unfolding files_rel_def by blast+
  show "fds_ok s" "kheap_inv s" "drv_ready D s" "disk_filesystem (the_disk s) = fsp" "length (file_descriptors s) = 512"
    using R(1-3) fds_okD(1,2) [OF R(1)] by simp_all
  show "A i = None \<Longrightarrow> i < 512 \<Longrightarrow> file_descriptors s ! i = 0" "A i = Some (f, n) \<Longrightarrow> i < 512"
    "A i = Some (f, n) \<Longrightarrow> slot_ok D dsk fsp s (file_descriptors s ! i) f n"
    "A i \<noteq> None \<Longrightarrow> slot_pages D s (file_descriptors s ! i) \<inter> drv_base D s = {}"
    using R(4) [of i] by auto
qed (use assms in \<open>unfold files_rel_def, blast\<close>)

lemma free_slot_first_zero:
  assumes "files_rel D dsk fsp A s"
  shows "first_zero 0 (file_descriptors s) = free_slot A"
proof -
  note R = files_relD [OF assms]
  have iff: "file_descriptors s ! i = 0 \<longleftrightarrow> A i = None" if "i < 512" for i
    using R(6) [OF _ that] R(8) [of i] by (cases "A i") (auto simp: slot_ok_def)
  show ?thesis
  proof (cases "first_zero 0 (file_descriptors s)")
    case None
    then have "\<forall>i < 512. A i \<noteq> None" using iff R(5) by (auto simp: first_zero_None in_set_conv_nth)
    then show ?thesis using None find_None_iff [of "\<lambda>i. A i = None" "[0..<512]"] by (auto simp: free_slot_def)
  next
    case (Some i)
    from first_zero_Some [OF Some] have i: "i < 512" "file_descriptors s ! i = 0" "\<forall>l < i. file_descriptors s ! l \<noteq> 0"
      using R(5) by auto
    then have "find (\<lambda>i. A i = None) [0..<512] = Some i"
      using iff by (auto simp: find_Some_iff intro!: exI [of _ i])
    then show ?thesis using Some by (simp add: free_slot_def)
  qed
qed

text \<open>The table invariant depends on the pages of the descriptors.\<close>

lemma fds_ok_pages:
  assumes ok: "fds_ok s" and inv: "kheap_inv s'" and tab: "file_descriptors s' = file_descriptors s"
    and same: "\<And>i. i < 512 \<Longrightarrow> file_descriptors s ! i \<noteq> 0 \<Longrightarrow> pages_same {file_descriptors s ! i} s s'"
  shows "fds_ok s'"
  unfolding fds_ok_def lameos_max_file_descriptors_def
proof (intro conjI allI impI)
  fix j assume "j < 512" "file_descriptors s' ! j \<noteq> 0"
  then have j: "j < 512" "file_descriptors s ! j \<noteq> 0" by (simp_all add: tab)
  note p = same [OF j]
  then show "(file_descriptors s' ! j, 4096) \<in> kheap_live s'" by (simp add: tab pages_same_def)
  show "fd_index (phys s') (file_descriptors s' ! j) = of_nat (j + 1)"
    using pages_same_word [OF p, of _ 0] fds_okD(4) [OF ok j] by (simp add: tab fd_index_def)
qed (use inv fds_okD(2) [OF ok] in \<open>simp_all add: tab\<close>)

lemma nodes_path_safe:
  assumes inv: "kheap_inv s" and live: "page_blocks (set (node_blocks ns)) \<subseteq> kheap_live s"
    and nodes: "nodes_at (phys s) p ns"
  shows "safe_path p (map (snd \<circ> snd) ns) s"
  unfolding safe_path_def
  using live nodes
proof (induction "phys s" p ns rule: nodes_at.induct)
  case (2 p n b w ns)
  have page: "kheap_stable s x \<and> in_heap x" if "in_region a 4096 x" "a \<in> {n, b}" for a x
    using "2.prems"(1) that stable_live [OF inv] live_in_heap [OF inv] by auto
  have "in_region b 4096 (b + of_nat j)" if "j \<le> length w" for j
    using that "2.prems"(2) by (simp add: in_region_of_nat)
  then have "\<forall>j \<le> length w. kheap_stable s (b + of_nat j) \<and> in_heap (b + of_nat j)" using page by blast
  moreover have "\<forall>x. in_region n 8 x \<longrightarrow> kheap_stable s x \<and> in_heap x"
    using page in_region_mono [of n 8 _ 4096] by auto
  ultimately show ?case using 2 by auto
qed simp

end
