(* ===== verification/FileCalls.thy ===== *)
theory FileCalls
  imports Driver
begin

text \<open>
  The file layer over any driver that keeps the contract of \<open>Driver\<close>: every call of \<open>src/fs/file.c\<close> does on the
  descriptor table what the specification does on the table of open files.
\<close>

context file_driver
begin

lemma slot_live:
  assumes "slot_ok D dsk fsp s d f n"
  shows "page_blocks (slot_pages D s d) \<subseteq> kheap_live s"
proof -
  have "drv_handle D s (fd_private (phys s) d) f n" "(d, 4096) \<in> kheap_live s" using assms by (simp_all add: slot_ok_def)
  with handle_live [OF this(1)] show ?thesis by (simp add: slot_pages_def)
qed

lemma slot_same:
  assumes ok: "slot_ok D dsk fsp s d f n" and same: "pages_same (slot_pages D s d) s s'"
  shows "slot_ok D dsk fsp s' d f n" and "slot_pages D s' d = slot_pages D s d"
proof -
  let ?p = "fd_private (phys s) d"
  have d: "(d, 4096) \<in> kheap_live s'" using same by (auto simp: pages_same_def slot_pages_def)
  have w: "load32 (phys s') (d + g) = load32 (phys s) (d + g)" if "unat g + 4 \<le> 4096" for g
    by (rule pages_same_word [OF same _ that]) (simp add: slot_pages_def)
  have h: "drv_handle D s ?p f n" using ok by (simp add: slot_ok_def)
  have "pages_same (drv_pages D s ?p) s s'" by (rule pages_same_mono [OF same]) (auto simp: slot_pages_def)
  from handle_frame [OF h this] have h': "drv_handle D s' ?p f n" "drv_pages D s' ?p = drv_pages D s ?p" by simp_all
  have f: "fd_private (phys s') d = ?p" using w [of 8] by (simp add: fd_private_def)
  show "slot_pages D s' d = slot_pages D s d" by (simp add: slot_pages_def f h')
  show "slot_ok D dsk fsp s' d f n"
    using ok d h' w [of 4] w [of 12] by (simp add: slot_ok_def f fd_filesystem_def fd_disk_def)
qed

text \<open>One slot changes, the others keep their pages.\<close>

lemma rel_step:
  assumes rel: "files_rel D dsk fsp A s" and ok: "fds_ok s'" and ready: "drv_ready D s'" "drv_base D s' = drv_base D s"
    and dk: "the_disk s' = the_disk s" and tab: "file_descriptors s' = (file_descriptors s)[i := d]" "i < 512"
    and other: "\<And>j. j \<noteq> i \<Longrightarrow> A j \<noteq> None \<Longrightarrow> pages_same (slot_pages D s (file_descriptors s ! j)) s s'"
    and unused: "v = None \<Longrightarrow> d = 0" and used: "\<And>f n. v = Some (f, n) \<Longrightarrow> slot_ok D dsk fsp s' d f n"
    and apart: "v \<noteq> None \<Longrightarrow> slot_pages D s' d \<inter> drv_base D s = {}"
      "\<And>j. v \<noteq> None \<Longrightarrow> j \<noteq> i \<Longrightarrow> A j \<noteq> None \<Longrightarrow> slot_pages D s' d \<inter> slot_pages D s (file_descriptors s ! j) = {}"
  shows "files_rel D dsk fsp (A(i := v)) s'"
proof -
  note R = files_relD [OF rel]
  have di: "file_descriptors s' ! i = d" using tab R(5) by simp
  have dj: "file_descriptors s' ! j = file_descriptors s ! j" if "j \<noteq> i" for j using tab(1) that by simp
  have same: "slot_ok D dsk fsp s' (file_descriptors s ! j) f n"
    "slot_pages D s' (file_descriptors s ! j) = slot_pages D s (file_descriptors s ! j)" if "j \<noteq> i" "A j = Some (f, n)" for j f n
    using slot_same [OF R(8) [OF that(2)] other [OF that(1)]] that(2) by simp_all
  have same': "slot_pages D s' (file_descriptors s ! j) = slot_pages D s (file_descriptors s ! j)" if "j \<noteq> i" "A j \<noteq> None" for j
    using same(2) [OF that(1)] that(2) by (cases "A j") auto
  have "case (A(i := v)) j of None \<Rightarrow> j < 512 \<longrightarrow> file_descriptors s' ! j = 0
      | Some (f, n) \<Rightarrow> j < 512 \<and> slot_ok D dsk fsp s' (file_descriptors s' ! j) f n \<and>
          slot_pages D s' (file_descriptors s' ! j) \<inter> drv_base D s' = {}" for j
  proof (cases "j = i")
    case True
    then show ?thesis using unused used apart(1) tab(2) di ready(2) by (cases v) auto
  next
    case False
    then show ?thesis
      using R(6) [of j] R(7) [of j] R(9) [of j] same [OF False] dj [OF False] ready(2) by (cases "A j") auto
  qed
  moreover have "slot_pages D s' (file_descriptors s' ! j) \<inter> slot_pages D s' (file_descriptors s' ! k) = {}"
    if "(A(i := v)) j \<noteq> None" "(A(i := v)) k \<noteq> None" "j \<noteq> k" for j k
  proof -
    have left: "slot_pages D s' d \<inter> slot_pages D s' (file_descriptors s' ! k') = {}"
      if "v \<noteq> None" "k' \<noteq> i" "A k' \<noteq> None" for k'
      using apart(2) [OF that] same' [OF that(2,3)] dj [OF that(2)] by simp
    consider "j = i" | "k = i" | "j \<noteq> i" "k \<noteq> i" by blast
    then show ?thesis
    proof cases
      case 1 then show ?thesis using left [of k] that di by auto
    next
      case 2 then show ?thesis using left [of j] that di by (auto simp: Int_commute)
    next
      case 3 then show ?thesis using R(10) [of j k] same' [of j] same' [of k] dj that by simp
    qed
  qed
  ultimately show ?thesis using ok ready(1) R(4) dk by (simp add: files_rel_def)
qed

lemma rel_frame:
  assumes rel: "files_rel D dsk fsp A s" and inv: "kheap_inv s'" and ready: "drv_ready D s'" "drv_base D s' = drv_base D s"
    and dk: "the_disk s' = the_disk s" and tab: "file_descriptors s' = file_descriptors s"
    and same: "\<And>j. A j \<noteq> None \<Longrightarrow> pages_same (slot_pages D s (file_descriptors s ! j)) s s'"
  shows "files_rel D dsk fsp A s'" and "table_same D A s s'"
proof -
  note R = files_relD [OF rel]
  have "slot_pages D s' (file_descriptors s ! j) = slot_pages D s (file_descriptors s ! j)" if "A j \<noteq> None" for j
    using slot_same(2) [OF R(8) same [OF that]] that by (cases "A j") auto
  then show "table_same D A s s'" using ready(2) tab by (simp add: table_same_def)
  have "pages_same {file_descriptors s ! i} s s'" if "i < 512" "file_descriptors s ! i \<noteq> 0" for i
  proof -
    have "A i \<noteq> None" using R(6) [of i] that by fastforce
    from pages_same_mono [OF same [OF this]] show ?thesis by (simp add: slot_pages_def)
  qed
  then have ok: "fds_ok s'" by (rule fds_ok_pages [OF R(1) inv tab])
  let ?d = "file_descriptors s ! 0"
  have slot0: "slot_ok D dsk fsp s' ?d f n" "slot_pages D s' ?d = slot_pages D s ?d" if "A 0 = Some (f, n)" for f n
    using slot_same [OF R(8) [OF that] same] that by simp_all
  then have slot0': "slot_pages D s' ?d = slot_pages D s ?d" if "A 0 \<noteq> None" using that by (cases "A 0") auto
  have "files_rel D dsk fsp (A(0 := A 0)) s'"
  proof (rule rel_step [OF rel ok ready dk, of 0 ?d])
    show "file_descriptors s' = (file_descriptors s)[0 := ?d]" using tab by simp
    show "slot_pages D s' ?d \<inter> slot_pages D s (file_descriptors s ! j) = {}" if "A 0 \<noteq> None" "j \<noteq> 0" "A j \<noteq> None" for j
      using slot0' [OF that(1)] R(10) [of 0 j] that by simp
    show "slot_pages D s' ?d \<inter> drv_base D s = {}" if "A 0 \<noteq> None" using slot0' [OF that] R(9) [OF that] by simp
  qed (use slot0 R(6) [of 0] same in auto)
  then show "files_rel D dsk fsp A s'" by simp
qed

lemma slot_pages_live:
  assumes "files_rel D dsk fsp A s" and "A j \<noteq> None"
  shows "page_blocks (slot_pages D s (file_descriptors s ! j)) \<subseteq> kheap_live s"
proof -
  obtain f n where "A j = Some (f, n)" using assms(2) by auto
  from slot_live [OF files_relD(8) [OF assms(1) this]] show ?thesis .
qed

lemma open_pages_live:
  assumes "files_rel D dsk fsp A s"
  shows "page_blocks (open_pages D A s) \<subseteq> kheap_live s"
  using slot_pages_live [OF assms] base_live [OF files_relD(3) [OF assms]] unfolding open_pages_def by blast

text \<open>Steps that keep the pages of the driver and the open files.\<close>

lemma rel_pages_same:
  assumes rel: "files_rel D dsk fsp A s" and inv: "kheap_inv s'" and dk: "the_disk s' = the_disk s"
    and tab: "file_descriptors s' = file_descriptors s" and same: "pages_same (open_pages D A s) s s'"
  shows "files_rel D dsk fsp A s'" and "table_same D A s s'"
proof -
  have "pages_same (drv_base D s) s s'" by (rule pages_same_mono [OF same]) (auto simp: open_pages_def)
  note ready = ready_frame [OF files_relD(3) [OF rel] inv dk this]
  have slots: "pages_same (slot_pages D s (file_descriptors s ! j)) s s'" if "A j \<noteq> None" for j
    by (rule pages_same_mono [OF same]) (use that in \<open>auto simp: open_pages_def\<close>)
  note f = rel_frame [OF rel inv conjunct1 [OF ready] conjunct2 [OF ready] dk tab slots]
  show "files_rel D dsk fsp A s'" by (rule f(1))
  show "table_same D A s s'" by (rule f(2))
qed

text \<open>Steps that change nothing a slot or the driver has in the heap.\<close>

lemma rel_heap_kept:
  assumes rel: "files_rel D dsk fsp A s" and inv: "kheap_inv s'" and dk: "the_disk s' = the_disk s"
    and tab: "file_descriptors s' = file_descriptors s" and live: "kheap_live s \<subseteq> kheap_live s'"
    and keep: "\<And>x. kheap_stable s x \<Longrightarrow> in_heap x \<Longrightarrow> phys s' x = phys s x"
  shows "files_rel D dsk fsp A s'" and "drv_base D s' = drv_base D s" and "table_same D A s s'"
proof -
  note R = files_relD [OF rel]
  have same: "pages_same B s s'" if "page_blocks B \<subseteq> kheap_live s" for B
    using that live keep in_pages_stable(1,2) [OF R(2) that] by (intro pages_sameI) auto
  note ready = ready_frame [OF R(3) inv dk same [OF base_live [OF R(3)]]]
  note f = rel_frame [OF rel inv conjunct1 [OF ready] conjunct2 [OF ready] dk tab same [OF slot_pages_live [OF rel]]]
  show "files_rel D dsk fsp A s'" "table_same D A s s'" by (rule f; assumption)+
  show "drv_base D s' = drv_base D s" by (rule conjunct2 [OF ready])
qed

lemma rel_more:
  assumes "files_rel D dsk fsp A s" and "kheap.more s' = kheap.more s" and "kheap_inv s'"
    and "kheap_live s \<subseteq> kheap_live s'" and "\<And>x. kheap_stable s x \<Longrightarrow> phys s' x = phys s x"
  shows "files_rel D dsk fsp A s'" and "drv_base D s' = drv_base D s"
  using rel_heap_kept [OF assms(1,3) _ _ assms(4)] more_files [OF assms(2)] assms(5) by simp_all

lemma rel_kept:
  assumes "files_rel D dsk fsp A s" and "kept w s s'" and "\<And>x. w x \<Longrightarrow> \<not> in_heap x"
  shows "files_rel D dsk fsp A s'" and "drv_base D s' = drv_base D s" and "table_same D A s s'"
proof -
  have "phys s' x = phys s x" if "kheap_stable s x" "in_heap x" for x
    using keptD(5) [OF assms(2) that(1)] assms(3) that(2) by blast
  note f = rel_heap_kept [OF assms(1) keptD(1) [OF assms(2)] keptD(4) [OF assms(2)] kept_files [OF assms(2)] keptD(2) [OF assms(2)] this]
  show "files_rel D dsk fsp A s'" and "drv_base D s' = drv_base D s" and "table_same D A s s'" by (rule f; assumption)+
qed

text \<open>Opening.\<close>

lemma open_parsed:
  assumes rel: "files_rel D dsk fsp A s" and parsed: "path_parsed s root ns s1" and more: "kheap.more s1 = kheap.more s"
    and names: "map (snd \<circ> snd) ns = names"
  shows "files_rel D dsk fsp A s1" and "safe_path (path_root_first (phys s1) root) names s1"
    and "kheap_pages s1 + 2 * length names + 1 = kheap_pages s" and "kheap_live s \<subseteq> kheap_live s1"
    and "\<And>x. kheap_stable s x \<Longrightarrow> phys s1 x = phys s x" and "drv_base D s1 = drv_base D s"
proof -
  note p = parsed [unfolded path_parsed_def]
  show "files_rel D dsk fsp A s1" "drv_base D s1 = drv_base D s" by (rule rel_more [OF rel more]; use p in auto)+
  have "page_blocks (set (node_blocks ns)) \<subseteq> kheap_live s1" using p by auto
  from nodes_path_safe [OF _ this] p names show "safe_path (path_root_first (phys s1) root) names s1" by auto
  have "length ns = length names" using names by auto
  then show "kheap_pages s1 + 2 * length names + 1 = kheap_pages s" using p by simp
  show "kheap_live s \<subseteq> kheap_live s1" "\<And>x. kheap_stable s x \<Longrightarrow> phys s1 x = phys s x" using p by auto
qed

text \<open>Up to the call of the driver: the path is parsed, the table of open files is as before.\<close>

lemma open_start:
  assumes rel: "files_rel D dsk fsp A s" and io: "disk_addr io = dsk" "dsk \<noteq> 0" and fss: "fss fsp = Some ops" "fsp \<noteq> 0"
    and ok: "call_ok (drv_need D) (drv_scratch D) (Open_File filename mode_str t mode) s"
    and names: "path_names t \<noteq> []" and mode: "mode \<noteq> FILE_MODE_INVALID"
  obtains q s1 where "fopen io fss filename mode_str s = and_then (fs_open_op ops dsk q mode s1)
      (\<lambda>(priv, s2). Inr (fopen_finish dsk priv s2))"
    and "files_rel D dsk fsp A s1" and "safe_path q (path_names t) s1" and "drv_need D + 2 \<le> kheap_pages s1"
    and "kheap_live s \<subseteq> kheap_live s1" and "\<And>x. kheap_stable s x \<Longrightarrow> phys s1 x = phys s x"
    and "drv_base D s1 = drv_base D s" and "file_descriptors s1 = file_descriptors s" and "outside_files s s1"
    and "kheap_pages s1 + 2 * length (path_names t) + 1 = kheap_pages s"
proof -
  note R = files_relD [OF rel]
  have C: "cstr_at (phys s) filename t" "length t < 2 ^ 31" "\<forall>j \<le> length t. kheap_stable s (filename + of_nat j)"
    "kheap_stable s mode_str" "file_mode_get_by_string mode_str (phys s) = mode"
    "2 * length (path_parts (drop 3 t)) + 3 + drv_need D \<le> kheap_pages s"
    using ok by simp_all
  let ?names = "path_names t"
  have v: "path_valid t" "t ! 0 = 0x30" "path_parts (drop 3 t) = ?names" "?names \<noteq> []"
    using names by (auto simp: path_names_def split: if_splits)
  have pg: "2 * length ?names + 3 \<le> kheap_pages s" and fs: "disk_filesystem (the_disk s) = fsp" "disk_addr io \<noteq> 0"
    using C(6) v(3) R(4) io by simp_all
  obtain root ns s1 where parsed: "path_parsed s root ns s1" and ns: "map (snd \<circ> snd) ns = ?names"
    and more: "kheap.more s1 = kheap.more s"
    and op: "fopen io fss filename mode_str s = and_then (fs_open_op ops dsk (path_root_first (phys s1) root) mode s1)
      (\<lambda>(priv, s2). Inr (fopen_finish dsk priv s2))"
    using fopen_parsed [where fss = fss, OF R(2) C(1) v(1-4) C(3,5) mode C(4) fs(2,1) fss(2,1) pg] unfolding io(1) by blast
  note o = open_parsed [OF rel parsed more ns]
  have "drv_need D + 2 \<le> kheap_pages s1" using o(3) C(6) v(3) by simp
  then show thesis using o(3) by (intro that [OF op o(1,2) _ o(4-6) more_files(1) [OF more] outside_more [OF more]])
qed

text \<open>The driver has found the file and a slot is free.\<close>

lemma open_slot:
  assumes rel: "files_rel D dsk fsp A s" and k: "kept (drv_scratch D) s s2" and h: "drv_handle D s2 p f 0" "\<not> iserr p"
    and fresh: "\<forall>a \<in> drv_pages D s2 p. \<forall>k. (a, k) \<notin> kheap_live s" and pages: "0 < kheap_pages s2" and slot: "free_slot A = Some i"
  obtains s' where "fopen_finish dsk p s2 = (of_nat (i + 1), s')" and "outside_files s s'" and "files_rel D dsk fsp (A(i \<mapsto> (f, 0))) s'"
    and "kheap_live s \<subseteq> kheap_live s'" and "\<And>x. kheap_stable s x \<Longrightarrow> \<not> drv_scratch D x \<Longrightarrow> phys s' x = phys s x"
    and "\<And>a k. a \<in> slot_pages D s' (file_descriptors s' ! i) \<Longrightarrow> (a, k) \<notin> kheap_live s"
    and "Suc (kheap_pages s') = kheap_pages s2" and "drv_base D s' = drv_base D s"
    and "file_descriptors s' = (file_descriptors s)[i := file_descriptors s' ! i]"
proof -
  note R = files_relD [OF rel]
  have rel2: "files_rel D dsk fsp A s2" and base2: "drv_base D s2 = drv_base D s"
    using rel_kept [OF rel k] scratch_off by blast+
  note R2 = files_relD [OF rel2]
  have slot2: "first_zero 0 (file_descriptors s2) = Some i" using free_slot_first_zero [OF rel2] slot by simp
  obtain desc s' where n: "fopen_finish dsk p s2 = (of_nat (i + 1), s')" "fds_ok s'"
    "file_descriptors s' = (file_descriptors s2)[i := desc]" "i < 512" "desc \<noteq> 0"
    "kheap_live s' = insert (desc, 4096) (kheap_live s2)" "\<And>l. (desc, l) \<notin> kheap_live s2"
    "fd_filesystem (phys s') desc = disk_filesystem (the_disk s2)" "fd_private (phys s') desc = p"
    "fd_disk (phys s') desc = dsk" "the_disk s' = the_disk s2" "\<And>x. kheap_stable s2 x \<Longrightarrow> phys s' x = phys s2 x"
    "Suc (kheap_pages s') = kheap_pages s2" "outside_files s2 s'"
    by (rule fopen_finish_ok [OF R2(1) pages slot2 h(2)]) (rule that; assumption)
  have same: "pages_same B s2 s'" if "page_blocks B \<subseteq> kheap_live s2" for B
    by (rule pages_same_stable [OF R2(2) that]) (use n(6,12) in auto)
  note inv' = fds_okD(1) [OF n(2)]
  have ready: "drv_ready D s' \<and> drv_base D s' = drv_base D s2"
    by (rule ready_frame [OF R2(3) inv' n(11) same]) (rule base_live [OF R2(3)])
  have hl: "page_blocks (drv_pages D s2 p) \<subseteq> kheap_live s2" by (rule handle_live [OF h(1)])
  from handle_frame [OF h(1) same [OF hl]] have h': "drv_handle D s' p f 0" "drv_pages D s' p = drv_pages D s2 p" by simp_all
  have pg: "slot_pages D s' desc = insert desc (drv_pages D s2 p)" by (simp add: slot_pages_def n(9) h')
  have nd: "desc \<notin> B" if "page_blocks B \<subseteq> kheap_live s2" for B using n(7) that by blast
  have old: "a \<notin> B" if "a \<in> drv_pages D s2 p" "page_blocks B \<subseteq> kheap_live s" for a B using fresh that by blast
  have "files_rel D dsk fsp (A(i := Some (f, 0))) s'"
  proof (rule rel_step [OF rel2 n(2) _ _ n(11,3,4)])
    show "pages_same (slot_pages D s2 (file_descriptors s2 ! j)) s2 s'" if "A j \<noteq> None" for j
      by (rule same) (rule slot_pages_live [OF rel2 that])
    show "slot_ok D dsk fsp s' desc f' n'" if "Some (f, 0) = Some (f', n')" for f' n'
      using that n(5,6,8,9,10) h' R2(4) nd [OF hl] by (simp add: slot_ok_def)
    show "slot_pages D s' desc \<inter> drv_base D s2 = {}"
      using nd [OF base_live [OF R2(3)]] old [OF _ base_live [OF R(3)]] base2 pg by auto
    show "slot_pages D s' desc \<inter> slot_pages D s2 (file_descriptors s2 ! j) = {}" if "A j \<noteq> None" for j
    proof -
      have fd: "file_descriptors s2 = file_descriptors s" by (rule kept_files [OF k])
      from that obtain f' n' where j: "A j = Some (f', n')" by auto
      note live = slot_pages_live [OF rel that]
      have "pages_same (slot_pages D s (file_descriptors s ! j)) s s2"
        using live keptD(2,5) [OF k] in_pages_stable(1,2) [OF R(2) live] scratch_off by (intro pages_sameI) blast+
      then have "slot_pages D s2 (file_descriptors s ! j) = slot_pages D s (file_descriptors s ! j)"
        by (rule slot_same(2) [OF R(8) [OF j]])
      then show ?thesis using live nd [OF slot_pages_live [OF rel2 that]] old pg fd by auto
    qed
  qed (use ready in auto)
  moreover have "phys s' x = phys s x" if "kheap_stable s x" "\<not> drv_scratch D x" for x
    using n(12) [OF keptD(6) [OF k that(1)]] keptD(5) [OF k that] by simp
  moreover have "(a, k) \<notin> kheap_live s" if "a \<in> slot_pages D s' (file_descriptors s' ! i)" for a k
    using that pg n(3,4) R2(5) fresh n(7) keptD(2) [OF k] by auto
  moreover have "kheap_live s \<subseteq> kheap_live s'" using n(6) keptD(2) [OF k] by blast
  moreover have "drv_base D s' = drv_base D s" using ready base2 by simp
  moreover have "file_descriptors s' = (file_descriptors s)[i := file_descriptors s' ! i]"
    using n(3,4) R2(5) kept_files [OF k] by simp
  ultimately show thesis using that [OF n(1) outside_trans [OF kept_outside [OF k] n(14)] _ _ _ _ n(13)] by blast
qed

lemma open_found:
  assumes rel: "files_rel D dsk fsp A s" and io: "disk_addr io = dsk" "dsk \<noteq> 0" and fss: "fss fsp = Some ops" "fsp \<noteq> 0"
    and ok: "call_ok (drv_need D) (drv_scratch D) (Open_File filename mode_str t FILE_MODE_READ) s"
    and names: "path_names t \<noteq> []" and f: "find_file V (path_names t) = Some f" and slot: "free_slot A = Some i"
  obtains s' where "fopen io fss filename mode_str s = Inr (of_nat (i + 1), s')" and "files_rel D dsk fsp (A(i \<mapsto> (f, 0))) s'"
    and "kheap_live s \<subseteq> kheap_live s'" and "\<And>x. kheap_stable s x \<Longrightarrow> \<not> drv_scratch D x \<Longrightarrow> phys s' x = phys s x"
    and "\<And>a k. a \<in> slot_pages D s' (file_descriptors s' ! i) \<Longrightarrow> (a, k) \<notin> kheap_live s"
    and "0 < kheap_pages s'" and "drv_base D s' = drv_base D s" and "outside_files s s'"
    and "file_descriptors s' = (file_descriptors s)[i := file_descriptors s' ! i]"
    and "kheap_pages s \<le> kheap_pages s' + (2 * length (path_names t) + 2 + drv_need D)"
proof -
  have mode: "FILE_MODE_READ \<noteq> FILE_MODE_INVALID" by simp
  obtain q s1 where st: "fopen io fss filename mode_str s = and_then (fs_open_op ops dsk q FILE_MODE_READ s1)
      (\<lambda>(priv, s2). Inr (fopen_finish dsk priv s2))"
    "files_rel D dsk fsp A s1" "safe_path q (path_names t) s1" "drv_need D + 2 \<le> kheap_pages s1"
    "kheap_live s \<subseteq> kheap_live s1" "\<And>x. kheap_stable s x \<Longrightarrow> phys s1 x = phys s x"
    "drv_base D s1 = drv_base D s" "file_descriptors s1 = file_descriptors s" "outside_files s s1" "kheap_pages s1 + 2 * length (path_names t) + 1 = kheap_pages s"
    by (rule open_start [where fss = fss, OF rel io fss ok names mode]) (rule that; assumption)
  note R1 = files_relD [OF st(2)]
  have "drv_need D \<le> kheap_pages s1" using st(4) by simp
  from open_finds [OF R1(3,2) this st(3) names f] obtain p s2 where
    m: "fs_open_op ops dsk q FILE_MODE_READ s1 = Inr (p, s2)" "\<not> iserr p"
      "kept (drv_scratch D) s1 s2" "drv_handle D s2 p f 0" "\<forall>a \<in> drv_pages D s2 p. \<forall>k. (a, k) \<notin> kheap_live s1"
      "kheap_pages s1 \<le> kheap_pages s2 + drv_need D" by blast
  have "0 < kheap_pages s2" using m(6) st(4) by simp
  from open_slot [OF st(2) m(3,4,2,5) this slot] obtain s' where
    s': "fopen_finish dsk p s2 = (of_nat (i + 1), s')" "outside_files s1 s'" "files_rel D dsk fsp (A(i \<mapsto> (f, 0))) s'" "kheap_live s1 \<subseteq> kheap_live s'"
      "\<And>x. kheap_stable s1 x \<Longrightarrow> \<not> drv_scratch D x \<Longrightarrow> phys s' x = phys s1 x"
      "\<And>a k. a \<in> slot_pages D s' (file_descriptors s' ! i) \<Longrightarrow> (a, k) \<notin> kheap_live s1"
      "Suc (kheap_pages s') = kheap_pages s2" "drv_base D s' = drv_base D s1"
      "file_descriptors s' = (file_descriptors s1)[i := file_descriptors s' ! i]" by blast
  show thesis
  proof (rule that [OF _ s'(3)])
    show "fopen io fss filename mode_str s = Inr (of_nat (i + 1), s')" using st(1) m(1) s'(1) by simp
    show "phys s' x = phys s x" if "kheap_stable s x" "\<not> drv_scratch D x" for x
      using s'(5) [OF stable_mono [OF st(5) that(1)] that(2)] st(6) [OF that(1)] by simp
    show "drv_base D s' = drv_base D s" using s'(8) st(7) by simp
    show "0 < kheap_pages s'" using s'(7) m(6) st(4) by simp
    show "outside_files s s'" by (rule outside_trans [OF st(9) s'(2)])
    show "kheap_pages s \<le> kheap_pages s' + (2 * length (path_names t) + 2 + drv_need D)" using s'(7) m(6) st(10) by simp
    show "file_descriptors s' = (file_descriptors s)[i := file_descriptors s' ! i]" using s'(9) st(8) by simp
  qed (use st(5) s'(4,6) in blast)+
qed

lemma open_sim:
  assumes rel: "files_rel D dsk fsp A s" and io: "disk_addr io = dsk" "dsk \<noteq> 0" and fss: "fss fsp = Some ops" "fsp \<noteq> 0"
    and ok: "call_ok (drv_need D) (drv_scratch D) (Open_File filename mode_str t mode) s"
    and spec: "spec_call V (Open_File filename mode_str t mode) A = Some (r, A')"
  shows "\<exists>s'. exec_call io fss (Open_File filename mode_str t mode) s = Inr (r, s') \<and> files_rel D dsk fsp A' s'"
proof -
  note R = files_relD [OF rel]
  let ?names = "path_names t"
  consider "?names = [] \<or> mode = FILE_MODE_INVALID"
    | f i where "?names \<noteq> []" "mode = FILE_MODE_READ" "find_file V ?names = Some f" "free_slot A = Some i"
    | "?names \<noteq> []" "mode \<noteq> FILE_MODE_INVALID" "mode \<noteq> FILE_MODE_READ \<or> find_file V ?names = None \<or> free_slot A = None"
    by (cases "find_file V ?names"; cases "free_slot A") auto
  then show ?thesis
  proof cases
    case 1
    have C: "cstr_at (phys s) filename t" "length t < 2 ^ 31" "\<forall>j \<le> length t. kheap_stable s (filename + of_nat j)"
      "kheap_stable s mode_str" "2 * length (path_parts (drop 3 t)) + 3 \<le> kheap_pages s"
      "file_mode_get_by_string mode_str (phys s) = mode"
      using ok by simp_all
    have bad: "\<not> path_valid t \<or> path_parts (drop 3 t) = [] \<or> t ! 0 \<noteq> 0x30 \<or> disk_filesystem (the_disk s) = 0 \<or>
      file_mode_get_by_string mode_str (phys s) = FILE_MODE_INVALID"
      using C(6) 1 by (auto simp: path_names_def split: if_splits)
    obtain s' where s': "fopen io fss filename mode_str s = Inr (0, s')" "kheap.more s' = kheap.more s" "kheap_inv s'"
      "kheap_live s \<subseteq> kheap_live s'" "\<And>x. kheap_stable s x \<Longrightarrow> phys s' x = phys s x"
      by (rule fopen_rejected [where io = io and fss = fss, OF R(2) C(1-5) bad]) (rule that; assumption)
    have "(if mode = FILE_MODE_READ \<and> ?names \<noteq> [] then find_file V ?names else None) = None" using 1 by auto
    then have "r = Code 0" "A' = A" using spec by simp_all
    then show ?thesis using s'(1) rel_more(1) [OF rel s'(2-5)] by simp
  next
    case (2 f i)
    note ok' = ok [unfolded 2(2)]
    obtain s' where "fopen io fss filename mode_str s = Inr (of_nat (i + 1), s')" "files_rel D dsk fsp (A(i \<mapsto> (f, 0))) s'"
      by (rule open_found [where fss = fss, OF rel io fss ok' 2(1,3,4)]) (rule that; assumption)
    then show ?thesis using spec 2 by auto
  next
    case 3
    obtain q s1 where st: "fopen io fss filename mode_str s = and_then (fs_open_op ops dsk q mode s1)
        (\<lambda>(priv, s2). Inr (fopen_finish dsk priv s2))"
      "files_rel D dsk fsp A s1" "safe_path q ?names s1" "drv_need D + 2 \<le> kheap_pages s1"
      by (rule open_start [where fss = fss, OF rel io fss ok 3(1,2)]) (rule that; assumption)
    note R1 = files_relD [OF st(2)]
    have need: "drv_need D \<le> kheap_pages s1" using st(4) by simp
    have r: "r = Code 0" "A' = A" using spec 3 by (auto split: option.splits if_splits)
    have fin: ?thesis if "fs_open_op ops dsk q mode s1 = Inr (p, s2)" "fopen_finish dsk p s2 = (0, s2)" "files_rel D dsk fsp A s2" for p s2
      using that st(1) r by simp
    have refused: "fopen_finish dsk p s2 = (0, s2)" if "iserr p" for p s2 using that by (simp add: fopen_finish_def)
    show ?thesis
    proof (cases "mode = FILE_MODE_READ")
      case False
      from open_mode [OF this, of q s1] fin refused st(2) show ?thesis by blast
    next
      case read: True
      show ?thesis
      proof (cases "find_file V ?names")
        case None
        from open_missing [OF R1(3,2) need st(3) 3(1) None] obtain p s2 where
          m: "fs_open_op ops dsk q FILE_MODE_READ s1 = Inr (p, s2)" "iserr p" "kept (drv_scratch D) s1 s2" by blast
        have "files_rel D dsk fsp A s2" by (rule rel_kept(1) [OF st(2) m(3)]) (use scratch_off in blast)
        with fin refused [OF m(2)] m(1) read show ?thesis by blast
      next
        case (Some f)
        from open_finds [OF R1(3,2) need st(3) 3(1) Some] obtain p s2 where
          m: "fs_open_op ops dsk q FILE_MODE_READ s1 = Inr (p, s2)" "\<not> iserr p" "kept (drv_scratch D) s1 s2" by blast
        have rel2: "files_rel D dsk fsp A s2" by (rule rel_kept(1) [OF st(2) m(3)]) (use scratch_off in blast)
        have "first_zero 0 (file_descriptors s2) = None" using free_slot_first_zero [OF rel2] 3(3) read Some by simp
        moreover have "- enomem <s 0" by (simp add: enomem_def word_sless_alt)
        ultimately have "fopen_finish dsk p s2 = (0, s2)" using m(2) by (simp add: fopen_finish_def file_new_descriptor_def)
        with fin m(1) rel2 read show ?thesis by blast
      qed
    qed
  qed
qed

text \<open>What a number finds.\<close>

lemma found_descriptor:
  assumes rel: "files_rel D dsk fsp A s"
  shows "open_file A fd = None \<Longrightarrow> file_get_descriptor fd s = 0"
    and "open_file A fd = Some (f, n) \<Longrightarrow> i = nat (sint fd) - 1 \<Longrightarrow> d = file_descriptors s ! i \<Longrightarrow>
      A i = Some (f, n) \<and> i < 512 \<and> i < 511 \<and> fd = of_nat (i + 1) \<and> file_get_descriptor fd s = d \<and> slot_ok D dsk fsp s d f n"
proof -
  note R = files_relD [OF rel]
  show "open_file A fd = None \<Longrightarrow> file_get_descriptor fd s = 0"
    using R(6) [of "nat (sint fd) - 1"] by (auto simp: open_file_def get_descriptor_eq split: if_splits)
  assume o: "open_file A fd = Some (f, n)" and i: "i = nat (sint fd) - 1" and d: "d = file_descriptors s ! i"
  have fd: "0 < sint fd" "sint fd < 512" and A: "A i = Some (f, n)" using o i by (auto simp: open_file_def split: if_splits)
  have "int (i + 1) = sint fd" using fd i by simp
  then have "(word_of_int (int (i + 1)) :: i32) = fd" by simp
  then have "fd = of_nat (i + 1)" by simp
  moreover have "i < 511" using fd i by simp
  ultimately show "A i = Some (f, n) \<and> i < 512 \<and> i < 511 \<and> fd = of_nat (i + 1) \<and> file_get_descriptor fd s = d \<and> slot_ok D dsk fsp s d f n"
    using A R(7,8) [OF A] fd i d by (simp add: get_descriptor_eq)
qed

text \<open>A step that writes only pages of one slot, whose file stays open.\<close>

lemma rel_slot_write:
  assumes rel: "files_rel D dsk fsp A s" and A: "A i = Some (f, n)" and d: "d = file_descriptors s ! i"
    and m: "\<And>x. \<not> in_pages (drv_pages D s (fd_private (phys s) d)) x \<Longrightarrow> m x = phys s x"
    and h: "drv_handle D (s\<lparr>phys := m\<rparr>) (fd_private (phys s) d) f n'"
      "drv_pages D (s\<lparr>phys := m\<rparr>) (fd_private (phys s) d) = drv_pages D s (fd_private (phys s) d)"
  shows "files_rel D dsk fsp (A(i \<mapsto> (f, n'))) (s\<lparr>phys := m\<rparr>)"
proof -
  note R = files_relD [OF rel]
  let ?p = "fd_private (phys s) d" and ?s = "s\<lparr>phys := m\<rparr>"
  let ?P = "drv_pages D s ?p"
  have so: "slot_ok D dsk fsp s d f n" and i: "i < 512" using R(7,8) [OF A] d by simp_all
  have nA: "A i \<noteq> None" using A by simp
  have live: "page_blocks ?P \<subseteq> kheap_live s" using slot_live [OF so] by (simp add: slot_pages_def)
  have "\<not> in_table boot_heap x" if "in_pages ?P x" for x by (rule in_pages_stable(3) [OF R(2) live that])
  note k = kept_changed [where w = "in_pages ?P", OF R(2) changed_only_write [OF m] this]
  have same: "pages_same B s ?s" if "page_blocks B \<subseteq> kheap_live s" "?P \<inter> B = {}" for B
    using that k(3) m pages_apart [OF R(2) that(1) live] by (intro pages_sameI) (auto simp: Int_commute)
  have disj: "?P \<inter> drv_base D s = {}" "d \<notin> ?P" "A j \<noteq> None \<Longrightarrow> j \<noteq> i \<Longrightarrow> ?P \<inter> slot_pages D s (file_descriptors s ! j) = {}" for j
    using R(9) [OF nA] R(10) [OF nA, of j] so d by (auto simp: slot_pages_def slot_ok_def)
  have dl: "(d, 4096) \<in> kheap_live s" using so by (simp add: slot_ok_def)
  have sd: "pages_same {d} s ?s" by (rule same) (use dl disj(2) in auto)
  have w: "load32 m (d + g) = load32 (phys s) (d + g)" if "unat g + 4 \<le> 4096" for g
    using pages_same_word [OF sd _ that] by simp
  have words: "fd_private m d = ?p" "fd_filesystem m d = fsp" "fd_disk m d = dsk"
    using w [of 8] w [of 4] w [of 12] so by (simp_all add: fd_private_def fd_filesystem_def fd_disk_def slot_ok_def)
  have pg: "slot_pages D ?s d = slot_pages D s d" by (simp add: slot_pages_def words h(2))
  have ready: "drv_ready D ?s \<and> drv_base D ?s = drv_base D s"
    by (rule ready_frame [OF R(3) keptD(1) [OF k(1)] keptD(4) [OF k(1)] same [OF base_live [OF R(3)] disj(1)]])
  have tab0: "file_descriptors ?s = file_descriptors s" by simp
  have ok: "fds_ok ?s"
  proof (rule fds_ok_pages [OF R(1) keptD(1) [OF k(1)] tab0])
    fix j assume j: "j < 512" "file_descriptors s ! j \<noteq> 0"
    then have Aj: "A j \<noteq> None" using R(6) [of j] by fastforce
    show "pages_same {file_descriptors s ! j} s ?s"
    proof (cases "j = i")
      case False
      have "pages_same (slot_pages D s (file_descriptors s ! j)) s ?s"
        by (rule same [OF slot_pages_live [OF rel Aj] disj(3) [OF Aj False]])
      from pages_same_mono [OF this] show ?thesis by (simp add: slot_pages_def)
    qed (use sd d in simp)
  qed
  have tab: "file_descriptors ?s = (file_descriptors s)[i := d]" using d by simp
  show ?thesis
  proof (rule rel_step [OF rel ok conjunct1 [OF ready] conjunct2 [OF ready] keptD(4) [OF k(1)] tab i])
    show "pages_same (slot_pages D s (file_descriptors s ! j)) s ?s" if "j \<noteq> i" "A j \<noteq> None" for j
      by (rule same [OF slot_pages_live [OF rel that(2)] disj(3) [OF that(2,1)]])
    show "slot_ok D dsk fsp ?s d f' n''" if "Some (f, n') = Some (f', n'')" for f' n''
      using that so words h k(3) by (simp add: slot_ok_def)
    show "slot_pages D ?s d \<inter> drv_base D s = {}" unfolding pg using R(9) [OF nA] d by simp
    show "slot_pages D ?s d \<inter> slot_pages D s (file_descriptors s ! j) = {}" if "j \<noteq> i" "A j \<noteq> None" for j
      unfolding pg using R(10) [OF nA that(2)] that(1) d by simp
  qed simp_all
qed

lemma seek_sim:
  assumes rel: "files_rel D dsk fsp A s" and fss: "fss fsp = Some ops"
    and spec: "spec_call V (Seek_File fd offset whence) A = Some (r, A')"
  shows "\<exists>s'. exec_call io fss (Seek_File fd offset whence) s = Inr (r, s') \<and> files_rel D dsk fsp A' s'"
proof (cases "open_file A fd")
  case None
  then show ?thesis using rel spec found_descriptor(1) [OF rel None] by (auto simp: fseek_def)
next
  case (Some fn)
  obtain f n where fn: "open_file A fd = Some (f, n)" using Some by (cases fn) auto
  define i where "i = nat (sint fd) - 1"
  define d where "d = file_descriptors s ! i"
  have F: "A i = Some (f, n)" "file_get_descriptor fd s = d" "slot_ok D dsk fsp s d f n"
    using found_descriptor(2) [OF rel fn i_def d_def] by blast+
  have so: "d \<noteq> 0" "fd_filesystem (phys s) d = fsp" "drv_handle D s (fd_private (phys s) d) f n"
    using F(3) by (simp_all add: slot_ok_def)
  obtain res n' where ss: "spec_seek (file_size V f) n offset whence = (res, n')" by fastforce
  from seek_open [OF so(3) files_relD(2) [OF rel] ss] obtain m where
    m: "fs_seek_op ops (fd_private (phys s) d) offset whence s = Inr (res, s\<lparr>phys := m\<rparr>)"
      "\<And>x. \<not> in_pages (drv_pages D s (fd_private (phys s) d)) x \<Longrightarrow> m x = phys s x"
      "drv_handle D (s\<lparr>phys := m\<rparr>) (fd_private (phys s) d) f n'"
      "drv_pages D (s\<lparr>phys := m\<rparr>) (fd_private (phys s) d) = drv_pages D s (fd_private (phys s) d)" by blast
  have "exec_call io fss (Seek_File fd offset whence) s = Inr (Code res, s\<lparr>phys := m\<rparr>)"
    using F(2) so(1,2) fss m(1) by (simp add: fseek_def)
  moreover have "r = Code res" "A' = A(i \<mapsto> (f, n'))" using spec fn ss by (simp_all add: i_def)
  ultimately show ?thesis using rel_slot_write [OF rel F(1) d_def m(2-4)] by simp
qed

text \<open>Steps that write outside the table of the heap and the pages of open files.\<close>

lemma rel_base_write:
  assumes rel: "files_rel D dsk fsp A s" and ch: "changed_only w s s'"
    and w: "\<And>x. w x \<Longrightarrow> \<not> in_table boot_heap x"
      "\<And>x j. w x \<Longrightarrow> A j \<noteq> None \<Longrightarrow> \<not> in_pages (slot_pages D s (file_descriptors s ! j)) x"
    and ready: "drv_ready D s'" "drv_base D s' = drv_base D s"
  shows "files_rel D dsk fsp A s'" and "table_same D A s s'" and "kchunks s' = kchunks s"
proof -
  note R = files_relD [OF rel]
  note k = kept_changed [OF R(2) ch w(1)]
  show "kchunks s' = kchunks s" by (rule k(2))
  have tab: "file_descriptors s' = file_descriptors s" using ch by (auto simp: changed_only_def)
  have same: "pages_same (slot_pages D s (file_descriptors s ! j)) s s'" if j: "A j \<noteq> None" for j
  proof -
    have "phys s' x = phys s x" if x: "in_pages (slot_pages D s (file_descriptors s ! j)) x" for x
      using w(2) [OF _ j, of x] changed_only_same [OF ch, of x] x by blast
    then show ?thesis using slot_pages_live [OF rel j] k(3) by (intro pages_sameI) simp_all
  qed
  note f = rel_frame [OF rel keptD(1) [OF k(1)] ready keptD(4) [OF k(1)] tab same]
  show "files_rel D dsk fsp A s'" by (rule f(1))
  show "table_same D A s s'" by (rule f(2))
qed

lemma fstat_open:
  assumes rel: "files_rel D dsk fsp A s" and fss: "fss fsp = Some ops" and fn: "open_file A fd = Some (f, n)" and buf: "off_heap buf 8"
  obtains m where "fstat fss fd buf s = Inr (0, s\<lparr>phys := m\<rparr>)" and "\<And>x. \<not> in_region buf 8 x \<Longrightarrow> m x = phys s x"
    and "load32 m buf = file_flags V f" and "load32 m (buf + 4) = file_size V f" and "files_rel D dsk fsp A (s\<lparr>phys := m\<rparr>)"
    and "table_same D A s (s\<lparr>phys := m\<rparr>)" and "kchunks (s\<lparr>phys := m\<rparr>) = kchunks s"
proof -
  define i where "i = nat (sint fd) - 1"
  define d where "d = file_descriptors s ! i"
  have F: "A i = Some (f, n)" "file_get_descriptor fd s = d" "slot_ok D dsk fsp s d f n"
    using found_descriptor(2) [OF rel fn i_def d_def] by blast+
  have so: "d \<noteq> 0" "fd_filesystem (phys s) d = fsp" "fd_disk (phys s) d = dsk" "drv_handle D s (fd_private (phys s) d) f n"
    using F(3) by (simp_all add: slot_ok_def)
  note R = files_relD [OF rel]
  from stat_open [OF so(4) R(2) buf] obtain m where
    m: "fs_stat_op ops dsk (fd_private (phys s) d) buf s = Inr (0, s\<lparr>phys := m\<rparr>)" "\<And>x. \<not> in_region buf 8 x \<Longrightarrow> m x = phys s x"
      "load32 m buf = file_flags V f" "load32 m (buf + 4) = file_size V f" by blast
  note ch = changed_only_write [where w = "in_region buf 8", OF m(2)]
  have off: "\<not> in_heap x \<and> \<not> in_table boot_heap x" if "in_region buf 8 x" for x using buf that by (simp add: off_heap_def)
  have k: "kheap_inv (s\<lparr>phys := m\<rparr>)" "kheap_live (s\<lparr>phys := m\<rparr>) = kheap_live s"
    using kept_changed(1,3) [OF R(2) ch] off keptD(1) by blast+
  have "m x = phys s x" if "in_pages (drv_base D s) x" for x
    using in_pages_stable(2) [OF R(2) base_live [OF R(3)] that] off m(2) by blast
  then have "pages_same (drv_base D s) s (s\<lparr>phys := m\<rparr>)" using base_live [OF R(3)] k(2) by (intro pages_sameI) simp_all
  note ready = ready_frame [OF R(3) k(1) keptD(4) [OF kept_changed(1) [OF R(2) ch]] this]
  have nt: "\<not> in_table boot_heap x" if "in_region buf 8 x" for x using off [OF that] by simp
  have np: "\<not> in_pages (slot_pages D s (file_descriptors s ! j)) x" if "in_region buf 8 x" "A j \<noteq> None" for x j
    using off [OF that(1)] in_pages_stable(2) [OF R(2) slot_pages_live [OF rel that(2)]] by blast
  have "drv_ready D (s\<lparr>phys := m\<rparr>)" "drv_base D (s\<lparr>phys := m\<rparr>) = drv_base D s" using ready nt by simp_all
  note f = rel_base_write [OF rel ch nt np this]
  have "fstat fss fd buf s = Inr (0, s\<lparr>phys := m\<rparr>)"
    using F(2) so(1-3) fss m(1) by (simp add: fstat_def)
  from that [OF this m(2-4) f] show thesis .
qed

lemma stat_sim:
  assumes rel: "files_rel D dsk fsp A s" and fss: "fss fsp = Some ops"
    and ok: "call_ok need scratch (Stat_File fd buf) s" and spec: "spec_call V (Stat_File fd buf) A = Some (r, A')"
  shows "\<exists>s'. exec_call io fss (Stat_File fd buf) s = Inr (r, s') \<and> files_rel D dsk fsp A' s'"
proof (cases "open_file A fd")
  case None
  then show ?thesis using rel spec found_descriptor(1) [OF rel None] by (auto simp: fstat_def eio_def)
next
  case (Some fn)
  obtain f n where fn: "open_file A fd = Some (f, n)" using Some by (cases fn) auto
  have buf: "off_heap buf 8" using ok by simp
  obtain m where "fstat fss fd buf s = Inr (0, s\<lparr>phys := m\<rparr>)" "load32 m buf = file_flags V f"
    "load32 m (buf + 4) = file_size V f" "files_rel D dsk fsp A (s\<lparr>phys := m\<rparr>)"
    by (rule fstat_open [where fss = fss, OF rel fss fn buf]) (rule that; assumption)
  then show ?thesis using spec fn by simp
qed

lemma off_heap_buffer:
  assumes rel: "files_rel D dsk fsp A s" and out: "off_heap out n" "\<forall>x. in_region out n x \<longrightarrow> \<not> drv_scratch D x"
  shows "buffer_free D A out n s"
proof -
  note R = files_relD [OF rel]
  have "\<not> in_heap x \<and> \<not> in_table boot_heap x" if "in_region out n x" for x using out(1) that by (simp add: off_heap_def)
  then show ?thesis
    unfolding buffer_free_def
    using out(2) in_pages_stable(2) [OF R(2) base_live [OF R(3)]] in_pages_stable(2) [OF R(2) slot_pages_live [OF rel]] by blast
qed

lemma fread_open:
  assumes rel: "files_rel D dsk fsp A s" and fss: "fss fsp = Some ops" and fn: "open_file A fd = Some (f, pos)"
    and bs: "file_bytes V f pos (unat n) = Some bs" "n \<noteq> 0" and out: "buffer_free D A out n s"
  obtains s' where "fread fss out n 1 fd s = Inr (1, s')" and "bytes_at (phys s') out (unat n) = bs"
    and "changed_only (\<lambda>x. drv_scratch D x \<or> in_region out n x \<or> in_pages (drv_base D s) x) s s'"
    and "files_rel D dsk fsp A s'" and "table_same D A s s'" and "kchunks s' = kchunks s" and "outside_files s s'"
proof -
  define i where "i = nat (sint fd) - 1"
  define d where "d = file_descriptors s ! i"
  have F: "A i = Some (f, pos)" "file_get_descriptor fd s = d" "slot_ok D dsk fsp s d f pos"
    using found_descriptor(2) [OF rel fn i_def d_def] by blast+
  have so: "d \<noteq> 0" "fd_filesystem (phys s) d = fsp" "fd_disk (phys s) d = dsk" "drv_handle D s (fd_private (phys s) d) f pos"
    using F(3) by (simp_all add: slot_ok_def)
  note R = files_relD [OF rel]
  have out': "\<forall>x. in_region out n x \<longrightarrow> \<not> in_table boot_heap x \<and> \<not> drv_scratch D x \<and> \<not> in_pages (drv_base D s) x"
    using out unfolding buffer_free_def by blast
  from read_open [OF R(3,2) so(4) bs out'] obtain s' where
    s': "fs_read_op ops dsk (fd_private (phys s) d) n 1 out s = Inr (1, s')" "bytes_at (phys s') out (unat n) = bs"
      "changed_only (\<lambda>x. drv_scratch D x \<or> in_region out n x \<or> in_pages (drv_base D s) x) s s'"
      "drv_ready D s'" "drv_base D s' = drv_base D s" by blast
  let ?w = "\<lambda>x. drv_scratch D x \<or> in_region out n x \<or> in_pages (drv_base D s) x"
  have nt: "\<not> in_table boot_heap x" if "?w x" for x
    using that out scratch_off in_pages_stable(3) [OF R(2) base_live [OF R(3)]] unfolding buffer_free_def by blast
  have np: "\<not> in_pages (slot_pages D s (file_descriptors s ! j)) x" if "?w x" "A j \<noteq> None" for x j
    using that(1) out scratch_off in_pages_stable(2) [OF R(2) slot_pages_live [OF rel that(2)]]
      pages_apart [OF R(2) slot_pages_live [OF rel that(2)] base_live [OF R(3)] R(9) [OF that(2)]] that(2)
    unfolding buffer_free_def by blast
  note f = rel_base_write [OF rel s'(3) nt np s'(4,5)]
  have "0 < sint fd" using fn by (auto simp: open_file_def split: if_splits)
  then have "fread fss out n 1 fd s = Inr (1, s')"
    using F(2) so(1-3) fss s'(1) bs(2) by (simp add: fread_def word_sless_alt)
  from that [OF this s'(2,3) f changed_outside [OF s'(3)]] show thesis .
qed

lemma read_sim:
  assumes rel: "files_rel D dsk fsp A s" and fss: "fss fsp = Some ops"
    and ok: "call_ok need (drv_scratch D) (Read_File fd n out) s" and spec: "spec_call V (Read_File fd n out) A = Some (r, A')"
  shows "\<exists>s'. exec_call io fss (Read_File fd n out) s = Inr (r, s') \<and> files_rel D dsk fsp A' s'"
proof (cases "open_file A fd = None \<or> n = 0")
  case True
  then show ?thesis using rel spec found_descriptor(1) [OF rel, of fd] by (auto simp: fread_def einvarg_def split: option.splits)
next
  case False
  then obtain f pos where fn: "open_file A fd = Some (f, pos)" and n: "n \<noteq> 0" by auto
  then obtain bs where bs: "file_bytes V f pos (unat n) = Some bs" "r = Data bs" "A' = A"
    using spec by (auto split: option.splits)
  have free: "buffer_free D A out n s" by (rule off_heap_buffer [OF rel]) (use ok in simp_all)
  obtain s' where "fread fss out n 1 fd s = Inr (1, s')" "bytes_at (phys s') out (unat n) = bs" "files_rel D dsk fsp A s'"
    by (rule fread_open [where fss = fss, OF rel fss fn bs(1) n free]) (rule that; assumption)
  then show ?thesis using bs by simp
qed

text \<open>Closing.\<close>

lemma fclose_open:
  assumes rel: "files_rel D dsk fsp A s" and fss: "fss fsp = Some ops" and fn: "open_file A fd = Some (f, n)"
    and i: "i = nat (sint fd) - 1"
  obtains s' where "fclose fss fd s = Inr (0, s')" and "files_rel D dsk fsp (A(i := None)) s'"
    and "kheap_live s' = kheap_live s - page_blocks (slot_pages D s (file_descriptors s ! i))"
    and "\<And>x. kheap_stable s x \<Longrightarrow> \<not> in_pages (slot_pages D s (file_descriptors s ! i)) x \<Longrightarrow> phys s' x = phys s x"
    and "outside_files s s'" and "file_descriptors s' = (file_descriptors s)[i := 0]" and "drv_base D s' = drv_base D s"
proof -
  define d where "d = file_descriptors s ! i"
  have fd: "fd \<noteq> 0" using fn by (auto simp: open_file_def)
  have F: "A i = Some (f, n)" "i < 512" "file_get_descriptor fd s = d" "slot_ok D dsk fsp s d f n"
    using found_descriptor(2) [OF rel fn i d_def] by blast+
  have nA: "A i \<noteq> None" using F(1) by simp
  let ?p = "fd_private (phys s) d"
  have so: "d \<noteq> 0" "(d, 4096) \<in> kheap_live s" "fd_filesystem (phys s) d = fsp" "drv_handle D s ?p f n" "d \<notin> drv_pages D s ?p"
    using F(4) by (simp_all add: slot_ok_def)
  note R = files_relD [OF rel]
  from close_open [OF so(4) R(2)] obtain s1 where
    s1: "fs_close_op ops ?p s = Inr (0, s1)" "kheap.more s1 = kheap.more s" "kheap_inv s1"
      "kheap_live s1 = kheap_live s - page_blocks (drv_pages D s ?p)" "\<And>x. kheap_stable s x \<Longrightarrow> phys s1 x = phys s x" by blast
  note more = more_files [OF s1(2)]
  have same1: "pages_same B s s1" if "page_blocks B \<subseteq> kheap_live s" "B \<inter> drv_pages D s ?p = {}" for B
    using that s1(4,5) in_pages_stable(1) [OF R(2) that(1)] by (intro pages_sameI) auto
  have apart: "slot_pages D s (file_descriptors s ! j) \<inter> slot_pages D s d = {}" if "j \<noteq> i" "A j \<noteq> None" for j
    using R(10) [OF that(2) nA that(1)] by (simp add: d_def)
  have ok1: "fds_ok s1"
  proof (rule fds_ok_pages [OF R(1) s1(3)])
    fix j assume j: "j < 512" "file_descriptors s ! j \<noteq> 0"
    then have Aj: "A j \<noteq> None" using R(6) [of j] by fastforce
    show "pages_same {file_descriptors s ! j} s s1"
      by (rule same1) (use fds_okD(3) [OF R(1) j] apart [of j, OF _ Aj] so(5) in \<open>cases "j = i"; auto simp: d_def slot_pages_def\<close>)+
  qed (use more in simp)
  have d1: "file_descriptors s1 ! i = d" using more by (simp add: d_def)
  obtain s2 where s2: "file_free_descriptor d s1 = Inr s2" "fds_ok s2" "file_descriptors s2 = (file_descriptors s1)[i := 0]"
    "kheap_live s2 = kheap_live s1 - {(d, 4096)}" "\<And>x. kheap_stable s1 x \<Longrightarrow> phys s2 x = phys s1 x" "the_disk s2 = the_disk s1"
    "outside_files s1 s2"
    by (rule free_descriptor_ok [OF ok1 F(2) d1 so(1)]) (rule that; assumption)
  have same: "pages_same B s s2" if "page_blocks B \<subseteq> kheap_live s" "B \<inter> slot_pages D s d = {}" for B
  proof (rule pages_same_trans)
    show b1: "pages_same B s s1" by (rule same1 [OF that(1)]) (use that(2) in \<open>auto simp: slot_pages_def\<close>)
    show "pages_same B s1 s2"
      using b1 in_pages_stable(1) [OF s1(3)] s2(4,5) that(2) by (intro pages_sameI) (auto simp: pages_same_def slot_pages_def)
  qed
  have base: "drv_base D s \<inter> slot_pages D s d = {}" using R(9) [OF nA] by (auto simp: d_def)
  have dk: "the_disk s2 = the_disk s" using s2(6) more by simp
  note ready = ready_frame [OF R(3) fds_okD(1) [OF s2(2)] dk same [OF base_live [OF R(3)] base]]
  have "files_rel D dsk fsp (A(i := None)) s2"
  proof (rule rel_step [OF rel s2(2) conjunct1 [OF ready] conjunct2 [OF ready] dk _ F(2)])
    show "file_descriptors s2 = (file_descriptors s)[i := 0]" using s2(3) more by simp
    show "pages_same (slot_pages D s (file_descriptors s ! j)) s s2" if "j \<noteq> i" "A j \<noteq> None" for j
      by (rule same [OF slot_pages_live [OF rel that(2)] apart [OF that]])
  qed simp_all
  moreover have "fclose fss fd s = Inr (0, s2)"
    using fd F(3) so(3) fss s1(1) s2(1) by (simp add: fclose_def lameos_ok_def)
  moreover have "kheap_live s2 = kheap_live s - page_blocks (slot_pages D s (file_descriptors s ! i))"
    using s1(4) s2(4) by (auto simp: slot_pages_def simp flip: d_def)
  moreover have "phys s2 x = phys s x" if x: "kheap_stable s x" "\<not> in_pages (slot_pages D s (file_descriptors s ! i)) x" for x
  proof -
    have np: "\<not> in_pages (drv_pages D s ?p) x" using x(2) by (auto simp: in_pages_def slot_pages_def simp flip: d_def)
    have "kheap_stable s1 x" using x(1) np unfolding kheap_stable_def s1(4) in_pages_def by blast
    then show ?thesis using s1(5) [OF x(1)] s2(5) by simp
  qed
  moreover have "outside_files s s2" by (rule outside_trans [OF outside_more [OF s1(2)] s2(7)])
  moreover have "file_descriptors s2 = (file_descriptors s)[i := 0]" using s2(3) more by simp
  moreover have "drv_base D s2 = drv_base D s" using ready by simp
  ultimately show thesis by (intro that [of s2])
qed

lemma close_sim:
  assumes rel: "files_rel D dsk fsp A s" and fss: "fss fsp = Some ops"
    and spec: "spec_call V (Close_File fd) A = Some (r, A')"
  shows "\<exists>s'. exec_call io fss (Close_File fd) s = Inr (r, s') \<and> files_rel D dsk fsp A' s'"
proof (cases "fd = 0")
  case True
  then show ?thesis using rel spec by (simp add: fclose_def)
next
  case False
  then obtain f n where fn: "open_file A fd = Some (f, n)" using spec by (auto split: if_splits)
  obtain s' where "fclose fss fd s = Inr (0, s')" "files_rel D dsk fsp (A(nat (sint fd) - 1 := None)) s'"
    by (rule fclose_open [where fss = fss, OF rel fss fn refl]) (rule that; assumption)
  then show ?thesis using spec False fn by simp
qed

text \<open>A new block of the heap may be the buffer of a read, and blocks that are no pages of the table may be written.\<close>

lemma fresh_buffer:
  assumes rel: "files_rel D dsk fsp A s" and b: "(p, k) \<in> kheap_live s" "n \<le> k"
    and no: "(p, k) \<notin> page_blocks (drv_base D s)"
      "\<And>j. A j \<noteq> None \<Longrightarrow> (p, k) \<notin> page_blocks (slot_pages D s (file_descriptors s ! j))"
  shows "buffer_free D A p n s"
proof -
  note R = files_relD [OF rel]
  have other: "\<not> in_pages B x" if "in_region p k x" "page_blocks B \<subseteq> kheap_live s" "(p, k) \<notin> page_blocks B" for B x
    by (rule block_not_in_pages [OF R(2) that(2) b(1) that(3,1)])
  have "\<not> in_table boot_heap x \<and> \<not> drv_scratch D x" if "in_region p k x" for x
    using kheap_live_not_in_table [OF R(2) b(1) that] live_in_heap [OF R(2) b(1) that] scratch_off by blast
  then show ?thesis
    unfolding buffer_free_def
    using in_region_mono [OF _ b(2)] other [OF _ base_live [OF R(3)] no(1)] other [OF _ slot_pages_live [OF rel] no(2)] by blast
qed

lemma rel_block_write:
  assumes rel: "files_rel D dsk fsp A s" and b: "(b, k) \<in> kheap_live s" "k \<noteq> 4096"
    and m: "\<And>x. \<not> in_region b k x \<Longrightarrow> m x = phys s x"
  shows "files_rel D dsk fsp A (s\<lparr>phys := m\<rparr>)" and "table_same D A s (s\<lparr>phys := m\<rparr>)"
    and "kchunks (s\<lparr>phys := m\<rparr>) = kchunks s"
proof -
  note R = files_relD [OF rel]
  note w = kheap_write_live [OF R(2) b(1) m]
  show "kchunks (s\<lparr>phys := m\<rparr>) = kchunks s" by (rule w(2))
  then have live: "kheap_live (s\<lparr>phys := m\<rparr>) = kheap_live s" by (simp add: kheap_live_def)
  have same: "pages_same B s (s\<lparr>phys := m\<rparr>)" if "page_blocks B \<subseteq> kheap_live s" for B
  proof (rule pages_sameI)
    have "(b, k) \<notin> page_blocks B" using b(2) by auto
    then show "phys (s\<lparr>phys := m\<rparr>) x = phys s x" if "in_pages B x" for x
      using block_not_in_pages [OF R(2) \<open>page_blocks B \<subseteq> kheap_live s\<close> b(1)] that m by auto
  qed (use that live in simp)
  have dk: "the_disk (s\<lparr>phys := m\<rparr>) = the_disk s" and tab: "file_descriptors (s\<lparr>phys := m\<rparr>) = file_descriptors s" by simp_all
  note ready = ready_frame [OF R(3) w(1) dk same [OF base_live [OF R(3)]]]
  note f = rel_frame [OF rel w(1) conjunct1 [OF ready] conjunct2 [OF ready] dk tab same [OF slot_pages_live [OF rel]]]
  show "files_rel D dsk fsp A (s\<lparr>phys := m\<rparr>)" by (rule f(1))
  show "table_same D A s (s\<lparr>phys := m\<rparr>)" by (rule f(2))
qed

text \<open>Any sequence of calls.\<close>

lemma call_sim:
  assumes "files_rel D dsk fsp A s" and "disk_addr io = dsk" "dsk \<noteq> 0" and "fss fsp = Some ops" "fsp \<noteq> 0"
    and "call_ok (drv_need D) (drv_scratch D) c s" and "spec_call V c A = Some (r, A')"
  shows "\<exists>s'. exec_call io fss c s = Inr (r, s') \<and> files_rel D dsk fsp A' s'"
proof (cases c)
  case (Open_File filename mode_str t mode)
  then show ?thesis using open_sim [where fss = fss and fsp = fsp, OF assms(1-5)] assms(6,7) by blast
next
  case (Close_File fd)
  then show ?thesis using close_sim [where fss = fss and fsp = fsp, OF assms(1,4)] assms(7) by blast
next
  case (Seek_File fd offset whence)
  then show ?thesis using seek_sim [where fss = fss and fsp = fsp, OF assms(1,4)] assms(7) by blast
next
  case (Stat_File fd buf)
  then show ?thesis using stat_sim [where fss = fss and fsp = fsp, OF assms(1,4)] assms(6,7) by blast
next
  case (Read_File fd n out)
  then show ?thesis using read_sim [where fss = fss and fsp = fsp, OF assms(1,4)] assms(6,7) by blast
qed

lemma calls_sim:
  assumes "files_rel D dsk fsp A s" and "disk_addr io = dsk" "dsk \<noteq> 0" and "fss fsp = Some ops" "fsp \<noteq> 0"
    and "calls_ok io fss (drv_need D) (drv_scratch D) cs s" and "spec_calls V cs A = Some (rs, A')"
  shows "\<exists>s'. exec_calls io fss cs s = Inr (rs, s') \<and> files_rel D dsk fsp A' s'"
  using assms(1,6,7)
proof (induction cs arbitrary: A s rs)
  case (Cons c cs)
  obtain r A1 rs1 where sp: "spec_call V c A = Some (r, A1)" "spec_calls V cs A1 = Some (rs1, A')" "rs = r # rs1"
    using Cons.prems(3) by (auto split: option.splits)
  from Cons.prems(2) have "call_ok (drv_need D) (drv_scratch D) c s" by simp
  from call_sim [where fss = fss and fsp = fsp, OF Cons.prems(1) assms(2-5) this sp(1)] obtain s1 where
    s1: "exec_call io fss c s = Inr (r, s1)" "files_rel D dsk fsp A1 s1" by blast
  then have "calls_ok io fss (drv_need D) (drv_scratch D) cs s1" using Cons.prems(2) by simp
  from Cons.IH [OF s1(2) this sp(2)] show ?case using s1(1) sp(3) by auto
qed simp

end

end
