(* ===== verification/Fat16Driver.thy ===== *)
theory Fat16Driver
  imports Fat16Find FileCalls
begin

text \<open>
  The FAT16 driver keeps the contract of \<open>Driver\<close>: the volume it serves is the root directory of the disk, an
  open file is a descriptor with an item and a copy of the entry, and a read delivers the bytes where the driver
  looks for them: those of the file within its first cluster (\<open>one_cluster_data\<close>), others beyond it.
\<close>

section \<open>The volume\<close>

record 'd fat_system =
  sys_io :: "'d ports"
  sys_layout :: layout
  sys_image :: "nat \<Rightarrow> u8"
  sys_spc :: nat            \<comment> \<open>sectors per cluster\<close>
  sys_reserved :: nat       \<comment> \<open>reserved sectors\<close>
  sys_root :: nat           \<comment> \<open>first sector of the root directory\<close>
  sys_slots :: nat          \<comment> \<open>its slots\<close>
  sys_end :: nat            \<comment> \<open>the slot that ends it\<close>

text \<open>The entries the driver searches: as many as the directory has undeleted ones, from the first.\<close>

definition root_files :: "'d fat_system \<Rightarrow> u8 list list" where
  "root_files F = map (disk_entry (sys_image F) (sys_root F)) [0..<entries_kept (sys_image F) (512 * sys_root F) (sys_end F)]"

definition plain_entry :: "u8 list \<Rightarrow> bool" where
  "plain_entry bs \<longleftrightarrow> entry_ends bs \<and> bs ! 11 AND fat_file_subdirectory = 0"

definition name_key :: "u8 list \<Rightarrow> u8 list" where
  "name_key bs = take 108 (map tolower (entry_name bs))"

text \<open>An ATA disk with a FAT16 volume, whose root directory holds files with different names.\<close>

definition system_ok :: "'d fat_system \<Rightarrow> bool" where
  "system_ok F \<longleftrightarrow> (\<exists>regs pending polls. ata (sys_io F) regs pending polls (sys_image F)) \<and>
     stack_layout (sys_layout F) \<and>
     fat_disk (sys_image F) (sys_spc F) (sys_reserved F) (sys_root F) (sys_slots F) (sys_end F) \<and>
     sys_end F \<le> sys_slots F \<and> list_all plain_entry (root_files F) \<and> distinct (map name_key (root_files F))"

text \<open>The fields of an entry, read as the driver reads them from the copy in memory.\<close>

definition entry_mem :: "u8 list \<Rightarrow> mem" where
  "entry_mem bs a = (if unat a < length bs then bs ! unat a else 0)"

definition entry_size :: "u8 list \<Rightarrow> u32" where
  "entry_size bs = item_filesize (entry_mem bs) 0"

definition entry_flags :: "u8 list \<Rightarrow> u32" where
  "entry_flags bs = (if bs ! 11 AND fat_file_read_only \<noteq> 0 then file_stat_read_only else 0)"

definition entry_cluster :: "u8 list \<Rightarrow> nat" where
  "entry_cluster bs = unat (fat16_get_first_cluster 0 (entry_mem bs))"

text \<open>Where byte \<open>j\<close> of a read at \<open>pos\<close> lies on the disk, and the bytes of a read the volume has bytes for: from the
  start of a sector or within one.\<close>

definition entry_pos :: "'d fat_system \<Rightarrow> u8 list \<Rightarrow> u32 \<Rightarrow> nat \<Rightarrow> nat option" where
  "entry_pos F bs pos j = file_pos (sys_image F) (sys_spc F) (sys_reserved F) (sys_root F + 32 * sys_slots F div 512)
     (entry_cluster bs) (unat pos) j"

definition entry_data :: "'d fat_system \<Rightarrow> u8 list \<Rightarrow> u32 \<Rightarrow> nat \<Rightarrow> u8 list option" where
  "entry_data F bs pos n =
     (if 0 < n \<and> unat pos + n < 2 ^ 31 \<and> (unat pos mod 512 = 0 \<or> unat pos mod 512 + n \<le> 512) \<and>
         list_all (\<lambda>j. entry_pos F bs pos j \<noteq> None) [0..<n]
      then Some (map (\<lambda>j. sys_image F (the (entry_pos F bs pos j))) [0..<n]) else None)"

text \<open>The content of a file as the FAT16 format places it, and the files whose content the driver finds: those that
  fit in their first cluster.\<close>

definition entry_content :: "'d fat_system \<Rightarrow> u8 list \<Rightarrow> u8 list" where
  "entry_content F bs = map (\<lambda>k. the (file_byte (sys_image F) (sys_spc F) (sys_reserved F)
     (sys_root F + 32 * sys_slots F div 512) (entry_cluster bs) k)) [0..<unat (entry_size bs)]"

definition one_cluster :: "'d fat_system \<Rightarrow> u8 list \<Rightarrow> bool" where
  "one_cluster F bs \<longleftrightarrow> 0 < entry_size bs \<and> unat (entry_size bs) \<le> 512 * sys_spc F \<and>
     first_cluster_ok (sys_spc F) (sys_root F + 32 * sys_slots F div 512) (entry_cluster bs)"

lemma one_cluster_data:
  assumes "one_cluster F bs"
  shows "entry_data F bs 0 (unat (entry_size bs)) = Some (entry_content F bs)"
proof -
  let ?n = "unat (entry_size bs)" and ?e = "sys_root F + 32 * sys_slots F div 512" and ?c = "entry_cluster bs"
  have n: "0 < ?n" "?n \<le> 512 * sys_spc F" and c: "first_cluster_ok (sys_spc F) ?e ?c"
    using assms by (simp_all add: one_cluster_def word_less_nat_alt)
  note pos = first_cluster_pos [OF c, of 0, simplified]
  have "1 \<le> ?c - 1" using c by (auto simp: first_cluster_ok_def)
  from mult_le_mono1 [OF this, of "sys_spc F"] have "sys_spc F \<le> (?c - 1) * sys_spc F" by simp
  then have "512 * sys_spc F \<le> 512 * (?e + (?c - 1) * sys_spc F)" by (intro mult_le_mono2) (rule trans_le_add2)
  then have "?n < 2 ^ 31" using n(2) c unfolding first_cluster_ok_def by linarith
  moreover have "entry_pos F bs 0 j = Some (512 * (?e + (?c - 2) * sys_spc F) + j)" if "j < ?n" for j
    using pos(1) [of j] that n(2) by (simp add: entry_pos_def)
  moreover have "file_byte (sys_image F) (sys_spc F) (sys_reserved F) ?e ?c j = Some (sys_image F (512 * (?e + (?c - 2) * sys_spc F) + j))"
    if "j < ?n" for j using pos(2) [of j] that n(2) by simp
  ultimately show ?thesis using n(1) by (simp add: entry_data_def entry_content_def list_all_iff)
qed

text \<open>Every entry is opened as a file, so only paths of one part name anything.\<close>

definition root_find :: "'d fat_system \<Rightarrow> u8 list list \<Rightarrow> u8 list option" where
  "root_find F names = (case names of [t] \<Rightarrow> find (\<lambda>bs. same_name (entry_name bs) t) (root_files F) | _ \<Rightarrow> None)"

definition fat16_files :: "'d fat_system \<Rightarrow> u8 list volume" where
  "fat16_files F = \<lparr>find_file = root_find F, file_size = entry_size, file_flags = entry_flags, file_bytes = entry_data F\<rparr>"

lemma entry_fields:
  assumes "bytes_at m c 32 = bs"
  shows "item_filesize m c = entry_size bs" and "item_attribute m c = bs ! 11"
    and "fat16_get_first_cluster c m = of_nat (entry_cluster bs)"
proof -
  have len: "length bs = 32" unfolding assms [symmetric] by (simp del: bytes_at_numeral)
  have b: "m (c + a) = entry_mem bs a" if "unat a < 32" for a
    unfolding entry_mem_def len if_P [OF that] assms [symmetric] using that by (simp del: bytes_at_numeral)
  show "item_filesize m c = entry_size bs"
    using b [of 28] b [of 29] b [of 30] b [of 31] by (simp add: entry_size_def item_filesize_def load32_def add.assoc)
  show "item_attribute m c = bs ! 11" unfolding assms [symmetric] by (simp add: item_attribute_def del: bytes_at_numeral)
  show "fat16_get_first_cluster c m = of_nat (entry_cluster bs)"
    using b [of 20] b [of 21] b [of 26] b [of 27]
    by (simp add: entry_cluster_def fat16_get_first_cluster_def item_high_cluster_def item_low_cluster_def load16_def add.assoc)
qed

text \<open>The file a name finds, as the search of the driver has it.\<close>

lemma root_find_match:
  assumes ok: "system_ok F" and f: "root_find F names = Some f"
  obtains t j where "names = [t]" and "j < length (root_files F)" and "f = root_files F ! j" and "same_name (entry_name f) t"
    and "\<And>i. i < length (root_files F) \<Longrightarrow> i \<noteq> j \<Longrightarrow> \<not> same_name (entry_name (root_files F ! i)) t"
    and "f ! 11 AND fat_file_subdirectory = 0"
proof -
  obtain t where t: "names = [t]" "find (\<lambda>bs. same_name (entry_name bs) t) (root_files F) = Some f"
    using f by (auto simp: root_find_def split: list.splits)
  then obtain j where j: "j < length (root_files F)" "f = root_files F ! j" "same_name (entry_name f) t"
    by (auto simp: find_Some_iff)
  have "\<not> same_name (entry_name (root_files F ! i)) t" if "i < length (root_files F)" "i \<noteq> j" for i
  proof
    assume "same_name (entry_name (root_files F ! i)) t"
    then have "map name_key (root_files F) ! i = map name_key (root_files F) ! j"
      using j that(1) by (simp add: name_key_def same_name_def)
    moreover have "distinct (map name_key (root_files F))" using ok by (simp add: system_ok_def)
    ultimately show False using that j(1) by (metis length_map nth_eq_iff_index_eq)
  qed
  moreover have "f ! 11 AND fat_file_subdirectory = 0"
    using ok j by (simp add: system_ok_def list_all_length plain_entry_def)
  ultimately show thesis using t(1) j by (intro that)
qed

section \<open>What the driver keeps\<close>

definition fat16_mounted :: "'d fat_system \<Rightarrow> ptr \<Rightarrow> ptr \<Rightarrow> ptr \<Rightarrow> ptr \<Rightarrow> ptr \<Rightarrow> ('d, 'a) files_scheme \<Rightarrow> bool" where
  "fat16_mounted F p cs fs ds dir s \<longleftrightarrow> system_ok F \<and> kheap_inv s \<and>
     mounted (sys_io F) (sys_image F) (sys_spc F) (sys_reserved F) (sys_root F) (sys_slots F) (sys_end F) p cs fs ds dir s \<and>
     (dir, 4096) \<in> kheap_live s \<and> dir \<notin> {p, cs, fs, ds}"

definition fat16_ready :: "'d fat_system \<Rightarrow> ('d, 'a) files_scheme \<Rightarrow> bool" where
  "fat16_ready F s \<longleftrightarrow> (\<exists>p cs fs ds dir. fat16_mounted F p cs fs ds dir s)"

definition fat16_base :: "('d, 'a) files_scheme \<Rightarrow> ptr set" where
  "fat16_base s = (let p = fs_private (the_disk s); m = phys s
     in {p, cluster_read_stream m p, fat_read_stream m p, directory_stream m p, dir_item m (root_directory p)})"

definition fat16_handle :: "('d, 'a) files_scheme \<Rightarrow> ptr \<Rightarrow> u8 list \<Rightarrow> u32 \<Rightarrow> bool" where
  "fat16_handle s d f n \<longleftrightarrow> (d, 4096) \<in> kheap_live s \<and> file_item (fat_desc_item (phys s) d) f s \<and> fat_desc_pos (phys s) d = n \<and>
     fat_desc_item (phys s) d \<noteq> d \<and> fat_item_ptr (phys s) (fat_desc_item (phys s) d) \<noteq> d"

definition fat16_pages :: "('d, 'a) files_scheme \<Rightarrow> ptr \<Rightarrow> ptr set" where
  "fat16_pages s d = {d, fat_desc_item (phys s) d, fat_item_ptr (phys s) (fat_desc_item (phys s) d)}"

definition fat16_scratch :: "layout \<Rightarrow> ptr \<Rightarrow> bool" where
  "fat16_scratch l x \<longleftrightarrow> stack_layout l \<and>
     (local_byte l x \<or> in_region (entry_buffer l) 2 x \<or> in_region (name_buffer l) 108 x)"

definition fat16_driver :: "'d fat_system \<Rightarrow> (('d, 'a) files_scheme, u8 list) driver_data" where
  "fat16_driver F = \<lparr>drv_ready = fat16_ready F, drv_base = fat16_base, drv_handle = fat16_handle, drv_pages = fat16_pages,
     drv_scratch = fat16_scratch (sys_layout F), drv_need = 3\<rparr>"

lemma fat16_driver_simps [simp]:
  "drv_ready (fat16_driver F) = fat16_ready F" "drv_base (fat16_driver F) = fat16_base"
  "drv_handle (fat16_driver F) = fat16_handle" "drv_pages (fat16_driver F) = fat16_pages"
  "drv_scratch (fat16_driver F) = fat16_scratch (sys_layout F)" "drv_need (fat16_driver F) = 3"
  by (simp_all add: fat16_driver_def)

lemma fat16_files_simps [simp]:
  "find_file (fat16_files F) = root_find F" "file_size (fat16_files F) = entry_size"
  "file_flags (fat16_files F) = entry_flags" "file_bytes (fat16_files F) = entry_data F"
  by (simp_all add: fat16_files_def)

lemma fat16_scratch_off: "fat16_scratch l x \<Longrightarrow> \<not> in_heap x \<and> \<not> in_table boot_heap x"
  using local_off_table [of l x] by (auto simp: fat16_scratch_def stack_layout_def off_heap_def)

lemma mountedD:
  assumes "fat16_mounted F p cs fs ds dir s"
  shows "system_ok F" and "kheap_inv s"
    and "mounted (sys_io F) (sys_image F) (sys_spc F) (sys_reserved F) (sys_root F) (sys_slots F) (sys_end F) p cs fs ds dir s"
    and "(dir, 4096) \<in> kheap_live s" and "dir \<notin> {p, cs, fs, ds}" and "stack_layout (sys_layout F)" and "sys_slots F \<le> 128"
    and "fat16_base s = {p, cs, fs, ds, dir}" and "page_blocks {p, cs, fs, ds, dir} \<subseteq> kheap_live s" and "fs_private (the_disk s) = p"
proof -
  show m: "system_ok F" "kheap_inv s" "(dir, 4096) \<in> kheap_live s" "dir \<notin> {p, cs, fs, ds}"
    "mounted (sys_io F) (sys_image F) (sys_spc F) (sys_reserved F) (sys_root F) (sys_slots F) (sys_end F) p cs fs ds dir s"
    using assms by (simp_all add: fat16_mounted_def)
  show "stack_layout (sys_layout F)" "sys_slots F \<le> 128" using m(1) by (simp_all add: system_ok_def fat_disk_def)
  show "page_blocks {p, cs, fs, ds, dir} \<subseteq> kheap_live s" "fs_private (the_disk s) = p"
    using m(3,5) by (simp_all add: mounted_def private_streams_def fat_stream_def fat_volume_def)
  then show "fat16_base s = {p, cs, fs, ds, dir}"
    using m(5) by (simp add: fat16_base_def mounted_def private_streams_def root_loaded_def)
qed

lemma ready_mounted:
  assumes "fat16_ready F s"
  obtains p cs fs ds dir where "fat16_mounted F p cs fs ds dir s"
  using assms by (auto simp: fat16_ready_def)

lemma fat16_ready_frame:
  assumes "fat16_ready F s" and inv: "kheap_inv s'" and dk: "the_disk s' = the_disk s" and same: "pages_same (fat16_base s) s s'"
  shows "fat16_ready F s' \<and> fat16_base s' = fat16_base s"
proof -
  obtain p cs fs ds dir where m: "fat16_mounted F p cs fs ds dir s" using assms(1) by (rule ready_mounted)
  note D = mountedD [OF m]
  have live: "page_blocks {p, cs, fs, ds, dir} \<subseteq> kheap_live s'"
    and page: "\<And>x. in_pages {p, cs, fs, ds, dir} x \<Longrightarrow> phys s' x = phys s x"
    using same by (simp_all add: pages_same_def D(8))
  have "mounted (sys_io F) (sys_image F) (sys_spc F) (sys_reserved F) (sys_root F) (sys_slots F) (sys_end F) p cs fs ds dir s'"
    by (rule mounted_pages [OF D(3) dk D(7)]) (use live page in \<open>auto simp: in_pages_def\<close>)
  then have m': "fat16_mounted F p cs fs ds dir s'" using D(1,5) inv live by (simp add: fat16_mounted_def)
  then have "fat16_ready F s'" unfolding fat16_ready_def by blast
  then show ?thesis using D(8) mountedD(8) [OF m'] by simp
qed

lemma handle_pages:
  assumes "fat16_handle s d f n"
  shows "page_blocks (fat16_pages s d) \<subseteq> kheap_live s"
  using assms by (simp add: fat16_handle_def fat16_pages_def file_item_def)

lemma fat16_handle_frame:
  assumes h: "fat16_handle s d f n" and same: "pages_same (fat16_pages s d) s s'"
  shows "fat16_handle s' d f n \<and> fat16_pages s' d = fat16_pages s d"
proof -
  let ?f = "fat_desc_item (phys s) d"
  let ?c = "fat_item_ptr (phys s) ?f"
  have w: "load32 (phys s') (a + g) = load32 (phys s) (a + g)" if "a \<in> {d, ?f, ?c}" "unat g + 4 \<le> 4096" for a g
    by (rule pages_same_word [OF same _ that(2)]) (use that(1) in \<open>simp add: fat16_pages_def\<close>)
  have words: "fat_desc_item (phys s') d = ?f" "fat_desc_pos (phys s') d = fat_desc_pos (phys s) d"
    "fat_item_ptr (phys s') ?f = ?c" "fat_item_type (phys s') ?f = fat_item_type (phys s) ?f"
    using w [of d 0] w [of d 4] w [of ?f 0] w [of ?f 4]
    by (simp_all add: fat_desc_item_def fat_desc_pos_def fat_item_ptr_def fat_item_type_def)
  have "bytes_at (phys s') ?c 32 = bytes_at (phys s) ?c 32"
  proof (rule bytes_at_cong)
    fix i :: nat assume "i < 32"
    then have "in_pages (fat16_pages s d) (?c + of_nat i)" by (auto simp: in_pages_def fat16_pages_def in_region_of_nat)
    then show "phys s' (?c + of_nat i) = phys s (?c + of_nat i)" using same by (simp add: pages_same_def)
  qed
  moreover have "page_blocks {d, ?f, ?c} \<subseteq> kheap_live s'" using same by (simp add: pages_same_def fat16_pages_def)
  ultimately show ?thesis
    using h by (simp add: fat16_handle_def fat16_pages_def file_item_def words del: bytes_at_numeral)
qed

section \<open>Opening\<close>

lemma fat16_sys_open [simp]:
  "fs_open_op (fat16_fs io l) dsk path mode s = terminating (fat16_open io l path mode s)"
  "fs_read_op (fat16_fs io l) dsk priv sz nmemb out s = terminating (fat16_read io l priv sz nmemb out s)"
  "fs_seek_op (fat16_fs io l) priv offset whence s = Inr (fat16_seek priv offset whence s)"
  "fs_stat_op (fat16_fs io l) dsk priv stat s = Inr (fat16_stat priv stat s)"
  "fs_close_op (fat16_fs io l) priv s = Inr (fat16_close priv s)"
  by (simp_all add: fat16_fs_def)

lemma safe_search:
  assumes "fat16_ready F s" and path: "safe_path q (t # ts) s"
  obtains p dir where "can_search (sys_layout F) (sys_image F) (sys_root F) (sys_slots F) (sys_end F) p dir q t s"
    and "path_part_next (phys s) q = 0 \<longleftrightarrow> ts = []"
proof -
  obtain p cs fs ds dir where m: "fat16_mounted F p cs fs ds dir s" using assms(1) by (rule ready_mounted)
  note D = mountedD [OF m]
  have ok: "off_heap (name_buffer (sys_layout F)) 108" "sys_end F \<le> sys_slots F" "list_all plain_entry (root_files F)"
    using D(1,6) by (simp_all add: stack_layout_def system_ok_def)
  have P: "q \<noteq> 0" "\<forall>x. in_region q 8 x \<longrightarrow> kheap_stable s x \<and> in_heap x"
    "\<forall>j \<le> length t. kheap_stable s (path_part_part (phys s) q + of_nat j) \<and> in_heap (path_part_part (phys s) q + of_nat j)"
    "cstr_at (phys s) (path_part_part (phys s) q) t"
    "path_safe (\<lambda>x. kheap_stable s x \<and> in_heap x) (phys s) (path_part_next (phys s) q) ts"
    using path unfolding safe_path_def by simp_all
  have "first_part (sys_layout F) q t s"
    using P(1-4) off_heap_not_in [OF ok(1)] unfolding first_part_def by blast
  moreover have "root_ready (sys_image F) (sys_root F) (sys_slots F) (sys_end F) p dir s"
    using D(2-4,7,9,10) ok(2) by (simp add: root_ready_def mounted_def)
  moreover have "\<forall>j < entries_kept (sys_image F) (512 * sys_root F) (sys_end F). entry_ends (disk_entry (sys_image F) (sys_root F) j)"
    using ok(3) by (simp add: root_files_def list_all_length plain_entry_def)
  moreover have "path_part_next (phys s) q = 0 \<longleftrightarrow> ts = []" using P(5) by (cases ts) auto
  ultimately show thesis using ok(1) by (intro that [of p dir]) (simp_all add: can_search_def)
qed

lemma in_heap_no_error:
  assumes "in_heap p"
  shows "\<not> iserr p"
proof -
  let ?n = "unat (p - 0x1000000)"
  have n: "?n + 0x1000000 < 2 ^ 31" using assms by (simp add: in_heap_def in_region_def word_less_nat_alt)
  have "p = of_nat (?n + 0x1000000)" by simp
  then have "sint p = int (?n + 0x1000000)" using sint_of_nat_u32 [OF n] by metis
  then have "0 \<le> sint p" by (metis of_nat_0_le_iff)
  then show ?thesis by (simp add: iserr_def word_sless_alt)
qed

lemma error_is_error: "iserr (- eio)" "iserr (- erdonly)"
  by (simp_all add: iserr_def word_sless_alt eio_def erdonly_def)

lemma kept_scratch:
  assumes "kept (in_region (name_buffer l) 108) s s'" and "stack_layout l"
  shows "kept (fat16_scratch l) s s'"
  by (rule kept_mono [OF assms(1)]) (use assms(2) in \<open>simp add: fat16_scratch_def\<close>)

lemma fat16_open_file:
  assumes ready: "fat16_ready F s" and pages: "3 \<le> kheap_pages s" and path: "safe_path q names s" and f: "root_find F names = Some f"
  obtains d s' where "fat16_open (sys_io F) (sys_layout F) q FILE_MODE_READ s = Some (d, s')" and "\<not> iserr d"
    and "kept (fat16_scratch (sys_layout F)) s s'" and "fat16_handle s' d f 0"
    and "\<And>a k. a \<in> fat16_pages s' d \<Longrightarrow> (a, k) \<notin> kheap_live s" and "kheap_pages s' + 3 = kheap_pages s"
proof -
  obtain p cs fs ds dir where "fat16_mounted F p cs fs ds dir s" using ready by (rule ready_mounted)
  note D = mountedD [OF this]
  obtain t j where t: "names = [t]" "j < length (root_files F)" "f = root_files F ! j" "same_name (entry_name f) t"
    "\<And>i. i < length (root_files F) \<Longrightarrow> i \<noteq> j \<Longrightarrow> \<not> same_name (entry_name (root_files F ! i)) t"
    "f ! 11 AND fat_file_subdirectory = 0"
    by (rule root_find_match [OF D(1) f]) (rule that; assumption)
  obtain p' dir' where co: "can_search (sys_layout F) (sys_image F) (sys_root F) (sys_slots F) (sys_end F) p' dir' q t s"
    and n0: "path_part_next (phys s) q = 0"
    using safe_search [OF ready path [unfolded t(1)]] by blast
  let ?e = "disk_entry (sys_image F) (sys_root F)"
  have j: "j < entries_kept (sys_image F) (512 * sys_root F) (sys_end F)" "same_name (entry_name (?e j)) t"
    "\<forall>i < entries_kept (sys_image F) (512 * sys_root F) (sys_end F). i \<noteq> j \<longrightarrow> \<not> same_name (entry_name (?e i)) t"
    "?e j ! 11 AND fat_file_subdirectory = 0" and fj: "f = ?e j"
    using t(2-6) by (simp_all add: root_files_def)
  obtain d g c s' where o: "fat16_open (sys_io F) (sys_layout F) q FILE_MODE_READ s = Some (d, s')" "d \<noteq> 0" "fat_desc_item (phys s') d = g"
    "fat_desc_pos (phys s') d = 0" "file_item g (?e j) s'" "fat_item_ptr (phys s') g = c"
    "kheap_live s' = {(d, 4096), (g, 4096), (c, 4096)} \<union> kheap_live s" "kheap_pages s' + 3 = kheap_pages s"
    "kept (in_region (name_buffer (sys_layout F)) 108) s s'" "\<And>a k. a \<in> {d, g, c} \<Longrightarrow> (a, k) \<notin> kheap_live s" "g \<noteq> d" "c \<noteq> d"
    by (rule open_root_file [OF co n0 pages j]) (rule that; assumption)
  have "in_heap d" by (rule live_in_heap [OF keptD(1) [OF o(9)], of d 4096]) (simp_all add: o(7))
  from in_heap_no_error [OF this] show thesis
    by (rule that [OF o(1) _ kept_scratch [OF o(9) D(6)]])
       (use o(3-8,10-12) fj in \<open>simp_all add: fat16_handle_def fat16_pages_def\<close>)
qed

lemma fat16_open_nothing:
  assumes ready: "fat16_ready F s" and pages: "3 \<le> kheap_pages s" and path: "safe_path q names s" and ne: "names \<noteq> []"
    and f: "root_find F names = None"
  obtains s' where "fat16_open (sys_io F) (sys_layout F) q FILE_MODE_READ s = Some (- eio, s')"
    and "kept (fat16_scratch (sys_layout F)) s s'"
proof -
  obtain p cs fs ds dir where "fat16_mounted F p cs fs ds dir s" using ready by (rule ready_mounted)
  note D = mountedD [OF this]
  obtain t ts where names: "names = t # ts" using ne by (cases names) auto
  obtain p' dir' where co: "can_search (sys_layout F) (sys_image F) (sys_root F) (sys_slots F) (sys_end F) p' dir' q t s"
    and n0: "path_part_next (phys s) q = 0 \<longleftrightarrow> ts = []"
    using safe_search [OF ready path [unfolded names]] by blast
  let ?e = "disk_entry (sys_image F) (sys_root F)" and ?T = "entries_kept (sys_image F) (512 * sys_root F) (sys_end F)"
  show thesis
  proof (cases "root_find F [t]")
    case None
    then have "\<forall>i < ?T. \<not> same_name (entry_name (?e i)) t"
      by (auto simp: root_find_def find_None_iff root_files_def)
    moreover have "0 < kheap_pages s" using pages by simp
    ultimately show thesis using open_no_part [OF co] kept_scratch [OF _ D(6)] that by metis
  next
    case (Some f')
    then have more: "path_part_next (phys s) q \<noteq> 0" using n0 f names by auto
    obtain t' j where t: "[t] = [t']" "j < length (root_files F)" "f' = root_files F ! j" "same_name (entry_name f') t'"
      "\<And>i. i < length (root_files F) \<Longrightarrow> i \<noteq> j \<Longrightarrow> \<not> same_name (entry_name (root_files F ! i)) t'"
      "f' ! 11 AND fat_file_subdirectory = 0"
      by (rule root_find_match [OF D(1) Some]) (rule that; assumption)
    then have j: "j < ?T" "same_name (entry_name (?e j)) t" "\<forall>i < ?T. i \<noteq> j \<longrightarrow> \<not> same_name (entry_name (?e i)) t"
      "?e j ! 11 AND fat_file_subdirectory = 0"
      by (simp_all add: root_files_def)
    obtain s' where "fat16_open (sys_io F) (sys_layout F) q FILE_MODE_READ s = Some (- eio, s')"
      "kept (in_region (name_buffer (sys_layout F)) 108) s s'"
      by (rule open_beyond_file [OF co more pages j])
    then show thesis using kept_scratch [OF _ D(6)] that by blast
  qed
qed

section \<open>Open files\<close>

lemma handle_entry:
  assumes "fat16_handle s d f n"
  shows "fat_item_type (phys s) (fat_desc_item (phys s) d) = fat_item_type_file"
    and "bytes_at (phys s) (fat_item_ptr (phys s) (fat_desc_item (phys s) d)) 32 = f" and "fat_desc_pos (phys s) d = n"
  using assms by (simp_all add: fat16_handle_def file_item_def del: bytes_at_numeral)

lemma fat16_seek_file:
  assumes h: "fat16_handle s d f n" and inv: "kheap_inv s" and seek: "spec_seek (entry_size f) n offset whence = (res, n')"
  obtains m where "fat16_seek d offset whence s = (res, s\<lparr>phys := m\<rparr>)" and "\<And>x. \<not> in_pages (fat16_pages s d) x \<Longrightarrow> m x = phys s x"
    and "fat16_handle (s\<lparr>phys := m\<rparr>) d f n'" and "fat16_pages (s\<lparr>phys := m\<rparr>) d = fat16_pages s d"
proof -
  note e = handle_entry [OF h] and sz = entry_fields(1) [OF handle_entry(2) [OF h]]
  note defs = fat16_seek_def e(1,3) sz spec_seek_def seek_set_def seek_cur_def seek_end_def
  show thesis
  proof (cases "offset < entry_size f \<and> whence = 1")
    case False
    then have "fat16_seek d offset whence s = (res, s\<lparr>phys := phys s\<rparr>)" "n' = n"
      using seek by (auto simp: defs Let_def split: if_splits)
    then show thesis using h by (intro that [of "phys s"]) simp_all
  next
    case True
    define m where "m = store32 (phys s) (d + 4) (n + offset)"
    have "\<not> entry_size f \<le> offset" "whence = 1" using True by (simp_all add: not_le)
    then have res: "fat16_seek d offset whence s = (res, s\<lparr>phys := m\<rparr>)" "n' = n + offset"
      using seek by (auto simp: defs m_def Let_def)
    have m: "m x = phys s x" if "\<not> in_region (d + 4) 4 x" for x using that by (simp add: m_def store32_other)
    have page: "in_region d 4096 x" if "in_region (d + 4) 4 x" for x using field_in_struct [of 4 4096 d x] that by simp
    have H: "(d, 4096) \<in> kheap_live s" "file_item (fat_desc_item (phys s) d) f s" "fat_desc_item (phys s) d \<noteq> d"
      "fat_item_ptr (phys s) (fat_desc_item (phys s) d) \<noteq> d" using h by (simp_all add: fat16_handle_def)
    note w = kept_page_write [where w = "in_region (d + 4) 4" and m = m, OF inv H(1) m page]
    have other: "\<not> in_region a 4096 x" if "in_region (d + 4) 4 x" "(a, 4096) \<in> kheap_live s" "a \<noteq> d" for a x
      using two_pages [OF inv H(1) that(2) _ page [OF that(1)]] that(3) by auto
    have words: "fat_desc_item m d = fat_desc_item (phys s) d" "fat_desc_pos m d = n'"
      using load32_store32_apart [OF offsets_apart [of 4 0 d]] res(2)
      by (simp_all add: m_def fat_desc_item_def fat_desc_pos_def)
    have "\<not> in_region (fat_desc_item (phys s) d) 4096 x \<and> \<not> in_region (fat_item_ptr (phys s) (fat_desc_item (phys s) d)) 4096 x"
      if "in_region (d + 4) 4 x" for x
      using other [OF that] H(2-4) by (simp add: file_item_def)
    note fi = file_item_kept [OF inv H(2) w(1) this]
    show thesis
    proof (rule that [OF res(1)])
      show "m x = phys s x" if "\<not> in_pages (fat16_pages s d) x" for x
        by (rule m) (use that page [of x] in \<open>auto simp: in_pages_def fat16_pages_def\<close>)
    qed (use fi H w(3) words in \<open>simp_all add: fat16_handle_def fat16_pages_def\<close>)
  qed
qed

lemma fat16_stat_file:
  assumes h: "fat16_handle s d f n" and inv: "kheap_inv s" and buf: "off_heap buf 8"
  obtains m where "fat16_stat d buf s = (0, s\<lparr>phys := m\<rparr>)" and "\<And>x. \<not> in_region buf 8 x \<Longrightarrow> m x = phys s x"
    and "load32 m buf = entry_flags f" and "load32 m (buf + 4) = entry_size f"
proof -
  let ?c = "fat_item_ptr (phys s) (fat_desc_item (phys s) d)"
  note e = handle_entry [OF h] and ef = entry_fields [OF handle_entry(2) [OF h]]
  have lc: "(?c, 4096) \<in> kheap_live s" using h by (simp add: fat16_handle_def file_item_def)
  define m2 where "m2 = store32 (store32 (phys s) (buf + 4) (entry_size f)) buf 0"
  have m2: "m2 x = phys s x" if "\<not> in_region buf 8 x" for x
  proof -
    have "\<not> in_region buf 4 x" "\<not> in_region (buf + 4) 4 x" using that stream_words by blast+
    then show ?thesis by (simp add: m2_def store32_other)
  qed
  have "in_region ?c 4096 (?c + 11)" by (simp add: in_region_def)
  then have "\<not> in_region buf 8 (?c + 11)" using live_in_heap [OF inv lc] off_heap_not_in [OF buf] by blast
  then have at: "item_attribute m2 ?c = f ! 11" using m2 ef(2) by (simp add: item_attribute_def)
  have w2: "load32 m2 (buf + 4) = entry_size f" "load32 m2 buf = 0"
    using load32_store32_apart [OF offsets_apart [of 0 4 buf]] by (simp_all add: m2_def)
  define m where "m = (if f ! 11 AND fat_file_read_only \<noteq> 0 then store32 m2 buf (load32 m2 buf OR file_stat_read_only) else m2)"
  have st: "fat16_stat d buf s = (0, s\<lparr>phys := m\<rparr>)"
    using at by (simp add: fat16_stat_def e(1) ef(1) Let_def m_def flip: m2_def)
  show thesis
  proof (rule that [OF st])
    show "m x = phys s x" if "\<not> in_region buf 8 x" for x
    proof -
      have "\<not> in_region buf 4 x" using that stream_words by blast
      then show ?thesis using m2 [OF that] by (simp add: m_def store32_other)
    qed
    show "load32 m buf = entry_flags f" "load32 m (buf + 4) = entry_size f"
      using w2 load32_store32_apart [OF offsets_apart [of 0 4 buf]]
      by (simp_all add: m_def entry_flags_def)
  qed
qed

lemma close_pages:
  assumes h: "fat16_handle s d f n" and inv: "kheap_inv s"
  obtains s' where "fat16_close d s = (0, s')" and "kheap.more s' = kheap.more s" and "kheap_inv s'"
    and "kheap_live s' = kheap_live s - page_blocks (fat16_pages s d)" and "kheap_pages s' = kheap_pages s + 3"
    and "\<And>x. kheap_stable s x \<Longrightarrow> phys s' x = phys s x"
proof -
  let ?f = "fat_desc_item (phys s) d"
  let ?c = "fat_item_ptr (phys s) ?f"
  have H: "(d, 4096) \<in> kheap_live s" "(?f, 4096) \<in> kheap_live s" "(?c, 4096) \<in> kheap_live s" "?f \<noteq> d" "?c \<noteq> d" "?c \<noteq> ?f"
    using h by (simp_all add: fat16_handle_def file_item_def)
  note k1 = kfree_served [OF inv H(3)]
  have f1: "(?f, 4096) \<in> kheap_live (kfree ?c s)" using k1(2) H(2,6) by simp
  note k2 = kfree_served [OF k1(1) f1]
  have d2: "(d, 4096) \<in> kheap_live (kfree ?f (kfree ?c s))" using k1(2) k2(2) H(1,4,5) by simp
  note k3 = kfree_served [OF k2(1) d2]
  have op: "fat16_close d s = (0, kfree d (kfree ?f (kfree ?c s)))"
    using handle_entry(1) [OF h]
    by (simp add: fat16_close_def fat16_free_file_descriptor_def fat16_fat_item_free_def fat_item_type_file_def fat_item_type_directory_def)
  show thesis
  proof (rule that [OF op _ k3(1)])
    show "kheap_live (kfree d (kfree ?f (kfree ?c s))) = kheap_live s - page_blocks (fat16_pages s d)"
      unfolding k1(2) k2(2) k3(2) by (auto simp: fat16_pages_def)
    show "phys (kfree d (kfree ?f (kfree ?c s))) x = phys s x" if "kheap_stable s x" for x
      using k1(3) k2(3) k3(3) that by (simp add: kheap_stable_def)
  qed (use k1(4) k2(4) k3(4) in simp_all)
qed

section \<open>Reading\<close>

lemma mounted_layout:
  assumes m: "fat16_mounted F p cs fs ds dir s"
  shows "fat_layout (sys_layout F) p cs fs"
proof -
  note D = mountedD [OF m]
  have live: "(p, 4096) \<in> kheap_live s" "(cs, 4096) \<in> kheap_live s" "(fs, 4096) \<in> kheap_live s" using D(9) by simp_all
  have ne: "p \<noteq> cs" "p \<noteq> fs" "cs \<noteq> fs" using D(3) by (auto simp: mounted_def private_streams_def)
  have off: "off_heap (entry_buffer (sys_layout F)) 2" "off_heap (sector_buffer (sys_layout F) i j) 512" for i j
    using D(6) by (simp_all add: stack_layout_def)
  note two = kmalloc_heap.live_apart [OF D(2)] and buf = off_heap_live [OF _ _ D(2)]
  have pages: "apart a n b k" if "(a, 4096) \<in> kheap_live s" "(b, 4096) \<in> kheap_live s" "a \<noteq> b" "n \<le> 4096" "k \<le> 4096" for a b n k
    by (rule apart_subregion [OF two [OF that(1,2)] that(4,5)]) (use that(3) in simp)
  have bufs: "apart a n b k" if "off_heap a n" "0 < n" "(b, 4096) \<in> kheap_live s" "k \<le> 4096" for a b n k
    by (rule apart_subregion [OF buf [OF that(1-3)] order_refl that(4)])
  have "apart b k (entry_buffer (sys_layout F)) 2" if "(b, 4096) \<in> kheap_live s" "k \<le> 4096" for b k
    using bufs [OF off(1) _ that] by (simp add: apart_sym [of b])
  moreover have "apart (sector_buffer (sys_layout F) i j) 512 (entry_buffer (sys_layout F)) 2" for i j
    using D(6) by (simp add: stack_layout_def)
  ultimately show ?thesis
    using pages live ne bufs [OF off(2)] by (simp add: fat_layout_def fat_regions_def)
qed

lemma mounted_output:
  assumes m: "fat16_mounted F p cs fs ds dir s" and n: "n \<noteq> 0" and out: "\<forall>x. in_region out n x \<longrightarrow> \<not> in_table boot_heap x \<and> \<not> fat16_scratch (sys_layout F) x \<and> \<not> in_pages (fat16_base s) x"
  shows "fat_output (sys_layout F) p cs fs out (unat n)"
proof -
  note D = mountedD [OF m]
  let ?l = "sys_layout F"
  have n0: "0 < n" using n by (simp add: word_neq_0_conv)
  have self: "in_region a k a" if "0 < k" for a k using that by (simp add: in_region_def)
  have buf: "apart a k out n" if "0 < k" "\<And>x. in_region a k x \<Longrightarrow> fat16_scratch ?l x \<or> in_pages (fat16_base s) x" for a k
    using that(2) out self [OF n0, of out] self [OF that(1), of a] unfolding apart_iff by blast
  have "in_pages (fat16_base s) x" if "in_region b k x" "k \<le> 4096" "b \<in> {p, cs, fs}" for b k x
    using in_region_mono [OF that(1,2)] that(3) by (auto simp: in_pages_def D(8))
  then have "apart b k out n" if "b \<in> {p, cs, fs}" "0 < k" "k \<le> 4096" for b k using buf [OF that(2)] that by blast
  moreover have "apart (entry_buffer ?l) 2 out n" by (rule buf) (use D(6) in \<open>simp_all add: fat16_scratch_def\<close>)
  moreover have "apart (sector_buffer ?l i j) 512 out n" for i j
    by (rule buf) (use D(6) in \<open>auto simp: fat16_scratch_def local_byte_def\<close>)
  ultimately show ?thesis by (simp add: fat_output_def fat_regions_def)
qed

lemma fat16_read_open:
  assumes m: "fat16_mounted F p cs fs ds dir s" and h: "fat16_handle s d f pos" and bs: "entry_data F f pos (unat n) = Some bs"
    and n: "n \<noteq> 0" and out: "\<forall>x. in_region out n x \<longrightarrow> \<not> in_table boot_heap x \<and> \<not> fat16_scratch (sys_layout F) x \<and> \<not> in_pages (fat16_base s) x"
  obtains s' where "fat16_read (sys_io F) (sys_layout F) d n 1 out s = Some (1, s')" and "bytes_at (phys s') out (unat n) = bs"
    and "changed_only (\<lambda>x. fat_scratch (sys_layout F) cs fs x \<or> in_region out n x) s s'"
proof -
  note D = mountedD [OF m]
  obtain regs pending polls where dev: "ata (sys_io F) regs pending polls (sys_image F)" using D(1) by (auto simp: system_ok_def)
  have b: "0 < unat n" "unat pos + unat n < 2 ^ 31" "unat pos mod 512 = 0 \<or> unat pos mod 512 + unat n \<le> 512"
    "\<forall>j < unat n. entry_pos F f pos j \<noteq> None" "bs = map (\<lambda>j. sys_image F (the (entry_pos F f pos j))) [0..<unat n]"
    using bs by (auto simp: entry_data_def list_all_iff split: if_splits)
  have e: "fat16_get_first_cluster (fat_item_ptr (phys s) (fat_desc_item (phys s) d)) (phys s) = of_nat (entry_cluster f)"
    "fat_desc_pos (phys s) d = of_nat (unat pos)"
    using entry_fields(3) [OF handle_entry(2) [OF h]] handle_entry(3) [OF h] by simp_all
  have vol: "fat_volume (sys_io F) (sys_spc F) (sys_reserved F) (sys_root F + 32 * sys_slots F div 512) p cs fs s"
    using D(3) by (simp add: mounted_def)
  obtain s' where s': "fat16_read (sys_io F) (sys_layout F) d (of_nat (unat n)) 1 out s = Some (1, s')"
    "\<forall>j < unat n. phys s' (out + of_nat j) = sys_image F (the (entry_pos F f pos j))"
    "changed_only (\<lambda>x. fat_scratch (sys_layout F) cs fs x \<or> in_region out (of_nat (unat n)) x) s s'"
    using read_member [OF dev mounted_layout [OF m] vol mounted_output [OF m n out] e b(1,2,3) b(4) [unfolded entry_pos_def]]
    unfolding entry_pos_def by blast
  show thesis
    by (rule that [of s']) (use s' b(5) in \<open>simp_all add: bytes_at_def\<close>)
qed

lemma fat16_read_ready:
  assumes m: "fat16_mounted F p cs fs ds dir s" and out: "\<forall>x. in_region out n x \<longrightarrow> \<not> in_table boot_heap x \<and> \<not> fat16_scratch (sys_layout F) x \<and> \<not> in_pages (fat16_base s) x"
    and ch: "changed_only (\<lambda>x. fat_scratch (sys_layout F) cs fs x \<or> in_region out n x) s s'"
  shows "fat16_mounted F p cs fs ds dir s'"
proof -
  note D = mountedD [OF m]
  let ?w = "\<lambda>x. fat_scratch (sys_layout F) cs fs x \<or> in_region out n x" and ?B = "{p, cs, fs, ds, dir}"
  have page: "(a, 4096) \<in> kheap_live s" if "a \<in> ?B" for a using D(9) that by auto
  have ne: "distinct [p, cs, fs, ds]" using D(3) by (simp add: mounted_def private_streams_def)
  have w: "in_region cs 4 x \<or> in_region fs 4 x" if "?w x" "in_pages ?B x \<or> in_table boot_heap x" for x
  proof -
    have "\<not> in_region out n x" using out that(2) D(8) by auto
    moreover have "in_heap x \<or> in_table boot_heap x" using that(2) in_pages_stable(2) [OF D(2,9)] by blast
    then have "\<not> in_region (entry_buffer (sys_layout F)) 2 x" "\<not> in_region (sector_buffer (sys_layout F) i j) 512 x" for i j
      using D(6) by (auto simp: stack_layout_def off_heap_def)
    ultimately show ?thesis using that(1) by (auto simp: fat_scratch_def)
  qed
  have inp: "in_pages ?B x" if "in_region a 4096 x" "a \<in> ?B" for a x using that unfolding in_pages_def by blast
  have sub: "in_region a 4096 x" if "in_region a 4 x" for a x using in_region_mono [OF that, of 4096] by simp
  have off: "\<not> in_table boot_heap x" if "?w x" for x
    using w [OF that] kheap_live_not_in_table [OF D(2) page [of cs]] kheap_live_not_in_table [OF D(2) page [of fs]] sub by auto
  note k = kept_changed [OF D(2) ch off]
  have other: "\<not> ?w x" if "in_region a 4096 x" "a \<in> {p, ds, dir}" for a x
  proof
    assume "?w x"
    moreover have "in_pages ?B x" using inp [OF that(1)] that(2) by blast
    ultimately have "in_region cs 4096 x \<or> in_region fs 4096 x" using w sub by blast
    moreover have "a \<noteq> cs" "a \<noteq> fs" using that(2) ne D(5) by auto
    ultimately show False using two_pages [OF D(2) page page _ that(1)] that(2) by blast
  qed
  have root: "root_loaded (sys_image F) (sys_root F) (sys_slots F) (sys_end F) p dir (phys s)"
    and ps: "private_streams (sys_io F) p cs fs ds s"
    and vol: "fat_volume (sys_io F) (sys_spc F) (sys_reserved F) (sys_root F + 32 * sys_slots F div 512) p cs fs s"
    using D(3) by (simp_all add: mounted_def)
  have "fat_volume (sys_io F) (sys_spc F) (sys_reserved F) (sys_root F + 32 * sys_slots F div 512) p cs fs s'"
  proof (rule fat_volume_kept [OF mounted_layout [OF m] vol ch])
    show "\<not> volume_bytes p cs fs x" if "?w x" "\<not> fat_scratch (sys_layout F) cs fs x" for x
    proof
      assume "volume_bytes p cs fs x"
      then have "in_region p 4096 x \<or> in_region cs 4096 x \<or> in_region fs 4096 x"
        using in_region_mono [of p 92 x 4096] field_in_struct [of 4 4096 cs x] field_in_struct [of 4 4096 fs x]
        by (auto simp: volume_bytes_def)
      then have "in_pages ?B x" using inp by blast
      with w [OF that(1)] that(2) show False by (auto simp: fat_scratch_def)
    qed
  qed
  moreover have "private_streams (sys_io F) p cs fs ds s'"
  proof (rule private_streams_kept [OF D(2) ps k(1)])
    show "in_region p 80 x" if "?w x" "in_region p 4096 x" for x using other [OF that(2)] that(1) by blast
    show "in_region q 4 x" if q: "q \<in> {cs, fs, ds}" "?w x" "in_region q 4096 x" for q x
    proof -
      have lq: "(q, 4096) \<in> kheap_live s" using q(1) page by auto
      have "in_region cs 4 x \<or> in_region fs 4 x" using w [OF q(2)] inp [OF q(3)] q(1) by blast
      moreover have "r = q" if "in_region r 4 x" "r \<in> {cs, fs}" for r
        using two_pages [OF D(2) page lq _ sub [OF that(1)]] that(2) q(3) by blast
      ultimately show ?thesis by blast
    qed
  qed
  moreover have "root_loaded (sys_image F) (sys_root F) (sys_slots F) (sys_end F) p dir (phys s')"
  proof -
    have same: "phys s' x = phys s x" if "in_region a 4096 x" "a \<in> {p, dir}" for a x
      using changed_only_same [OF ch] other [OF that(1)] that(2) by blast
    have field: "load32 (phys s') (p + g) = load32 (phys s) (p + g)" if "unat g + 4 \<le> 4096" for g
      by (rule page_field [OF that]) (use same in blast)
    have "phys s' (dir + of_nat i) = phys s (dir + of_nat i)" if "i < 32 * sys_slots F" for i
      by (rule same [of dir]) (use that D(7) in \<open>simp_all add: in_region_of_nat\<close>)
    then show ?thesis
      using root field [of 64] field [of 68] field [of 76]
      by (simp add: root_loaded_def root_directory_def dir_item_def dir_total_def dir_ending_sector_pos_def add.assoc)
  qed
  ultimately show ?thesis
    using D(1,4,5) keptD(1) [OF k(1)] k(3) by (simp add: fat16_mounted_def mounted_def)
qed

section \<open>The contract\<close>

lemma fat16_read_law:
  assumes ready: "fat16_ready F s" and h: "fat16_handle s d f pos" and bs: "entry_data F f pos (unat n) = Some bs"
    and n: "n \<noteq> 0" and out: "\<forall>x. in_region out n x \<longrightarrow> \<not> in_table boot_heap x \<and> \<not> fat16_scratch (sys_layout F) x \<and> \<not> in_pages (fat16_base s) x"
  obtains s' where "fat16_read (sys_io F) (sys_layout F) d n 1 out s = Some (1, s')" and "bytes_at (phys s') out (unat n) = bs"
    and "changed_only (\<lambda>x. fat16_scratch (sys_layout F) x \<or> in_region out n x \<or> in_pages (fat16_base s) x) s s'"
    and "fat16_ready F s'" and "fat16_base s' = fat16_base s"
proof -
  obtain p cs fs ds dir where m: "fat16_mounted F p cs fs ds dir s" using ready by (rule ready_mounted)
  note D = mountedD [OF m]
  obtain s' where s': "fat16_read (sys_io F) (sys_layout F) d n 1 out s = Some (1, s')" "bytes_at (phys s') out (unat n) = bs"
    "changed_only (\<lambda>x. fat_scratch (sys_layout F) cs fs x \<or> in_region out n x) s s'"
    using fat16_read_open [OF m h bs n out] by blast
  note m' = fat16_read_ready [OF m out s'(3)]
  have "fat16_scratch (sys_layout F) x \<or> in_region out n x \<or> in_pages (fat16_base s) x"
    if "fat_scratch (sys_layout F) cs fs x \<or> in_region out n x" for x
    using that D(6) in_region_mono [of cs 4 x 4096] in_region_mono [of fs 4 x 4096]
    by (auto simp: fat_scratch_def fat16_scratch_def local_byte_def in_pages_def D(8))
  note ch = changed_only_mono [OF s'(3) this]
  have "fat16_ready F s'" using m' unfolding fat16_ready_def by blast
  then show thesis using that [OF s'(1,2) ch] D(8) mountedD(8) [OF m'] by simp
qed

interpretation fat16: file_driver "fat16_fs (sys_io F) (sys_layout F)" "disk_addr (sys_io F)" "fat16_driver F" "fat16_files F"
  for F :: "'d fat_system"
proof unfold_locales
  fix s s' :: "('d, 'a) files_scheme" and x p q buf out :: ptr and f bs :: "u8 list" and n k offset whence n' res :: u32
    and names :: "u8 list list" and mode :: file_mode
  show "drv_scratch (fat16_driver F) x \<Longrightarrow> \<not> in_heap x \<and> \<not> in_table boot_heap x"
    by (simp add: fat16_scratch_off)
  show "page_blocks (drv_base (fat16_driver F) s) \<subseteq> kheap_live s" if ready: "drv_ready (fat16_driver F) s"
  proof -
    have "fat16_ready F s" using ready by simp
    then obtain p cs fs ds dir where "fat16_mounted F p cs fs ds dir s" by (rule ready_mounted)
    note D = mountedD [OF this]
    show ?thesis unfolding fat16_driver_simps D(8) by (rule D(9))
  qed
  show "page_blocks (drv_pages (fat16_driver F) s p) \<subseteq> kheap_live s" if "drv_handle (fat16_driver F) s p f n"
    using handle_pages that by simp
  show "drv_ready (fat16_driver F) s' \<and> drv_base (fat16_driver F) s' = drv_base (fat16_driver F) s"
    if "drv_ready (fat16_driver F) s" "kheap_inv s'" "the_disk s' = the_disk s" "pages_same (drv_base (fat16_driver F) s) s s'"
    using fat16_ready_frame that by simp
  show "drv_handle (fat16_driver F) s' p f n \<and> drv_pages (fat16_driver F) s' p = drv_pages (fat16_driver F) s p"
    if "drv_handle (fat16_driver F) s p f n" "pages_same (drv_pages (fat16_driver F) s p) s s'"
    using fat16_handle_frame that by simp
  show "\<exists>p s'. fs_open_op (fat16_fs (sys_io F) (sys_layout F)) (disk_addr (sys_io F)) q FILE_MODE_READ s = Inr (p, s') \<and>
      \<not> iserr p \<and> kept (drv_scratch (fat16_driver F)) s s' \<and> drv_handle (fat16_driver F) s' p f 0 \<and>
      (\<forall>a \<in> drv_pages (fat16_driver F) s' p. \<forall>k. (a, k) \<notin> kheap_live s) \<and> kheap_pages s \<le> kheap_pages s' + drv_need (fat16_driver F)"
    if "drv_ready (fat16_driver F) s" "kheap_inv s" "drv_need (fat16_driver F) \<le> kheap_pages s" "safe_path q names s" "names \<noteq> []"
      "find_file (fat16_files F) names = Some f"
  proof -
    note H = that
    have a: "fat16_ready F s" "3 \<le> kheap_pages s" "root_find F names = Some f" using that by simp_all
    obtain d s' where "fat16_open (sys_io F) (sys_layout F) q FILE_MODE_READ s = Some (d, s')" "\<not> iserr d"
      "kept (fat16_scratch (sys_layout F)) s s'" "fat16_handle s' d f 0"
      "\<And>a k. a \<in> fat16_pages s' d \<Longrightarrow> (a, k) \<notin> kheap_live s" "kheap_pages s' + 3 = kheap_pages s"
      by (rule fat16_open_file [OF a(1,2) H(4) a(3)]) (rule that; assumption)
    then show ?thesis by (intro exI [of _ d] exI [of _ s']) auto
  qed
  show "\<exists>p s'. fs_open_op (fat16_fs (sys_io F) (sys_layout F)) (disk_addr (sys_io F)) q FILE_MODE_READ s = Inr (p, s') \<and>
      iserr p \<and> kept (drv_scratch (fat16_driver F)) s s'"
    if "drv_ready (fat16_driver F) s" "kheap_inv s" "drv_need (fat16_driver F) \<le> kheap_pages s" "safe_path q names s" "names \<noteq> []"
      "find_file (fat16_files F) names = None"
  proof -
    note H = that
    have a: "fat16_ready F s" "3 \<le> kheap_pages s" "root_find F names = None" using that by simp_all
    obtain s' where "fat16_open (sys_io F) (sys_layout F) q FILE_MODE_READ s = Some (- eio, s')"
      "kept (fat16_scratch (sys_layout F)) s s'"
      by (rule fat16_open_nothing [OF a(1,2) H(4,5) a(3)])
    then show ?thesis using error_is_error(1) by auto
  qed
  show "\<exists>p. fs_open_op (fat16_fs (sys_io F) (sys_layout F)) (disk_addr (sys_io F)) q mode s = Inr (p, s) \<and> iserr p"
    if "mode \<noteq> FILE_MODE_READ"
    using that error_is_error(2) by (simp add: fat16_open_def)
  show "\<exists>m. fs_seek_op (fat16_fs (sys_io F) (sys_layout F)) p offset whence s = Inr (res, s\<lparr>phys := m\<rparr>) \<and>
      (\<forall>x. \<not> in_pages (drv_pages (fat16_driver F) s p) x \<longrightarrow> m x = phys s x) \<and>
      drv_handle (fat16_driver F) (s\<lparr>phys := m\<rparr>) p f n' \<and>
      drv_pages (fat16_driver F) (s\<lparr>phys := m\<rparr>) p = drv_pages (fat16_driver F) s p"
    if "drv_handle (fat16_driver F) s p f n" "kheap_inv s" "spec_seek (file_size (fat16_files F) f) n offset whence = (res, n')"
  proof -
    note H = that
    have a: "fat16_handle s p f n" "spec_seek (entry_size f) n offset whence = (res, n')" using that by simp_all
    obtain m where "fat16_seek p offset whence s = (res, s\<lparr>phys := m\<rparr>)" "\<And>x. \<not> in_pages (fat16_pages s p) x \<Longrightarrow> m x = phys s x"
      "fat16_handle (s\<lparr>phys := m\<rparr>) p f n'" "fat16_pages (s\<lparr>phys := m\<rparr>) p = fat16_pages s p"
      by (rule fat16_seek_file [OF a(1) H(2) a(2)]) (rule that; assumption)
    then show ?thesis by auto
  qed
  show "\<exists>m. fs_stat_op (fat16_fs (sys_io F) (sys_layout F)) (disk_addr (sys_io F)) p buf s = Inr (0, s\<lparr>phys := m\<rparr>) \<and>
      (\<forall>x. \<not> in_region buf 8 x \<longrightarrow> m x = phys s x) \<and> load32 m buf = file_flags (fat16_files F) f \<and>
      load32 m (buf + 4) = file_size (fat16_files F) f"
    if "drv_handle (fat16_driver F) s p f n" "kheap_inv s" "off_heap buf 8"
  proof -
    note H = that
    have a: "fat16_handle s p f n" using that by simp
    obtain m where "fat16_stat p buf s = (0, s\<lparr>phys := m\<rparr>)" "\<And>x. \<not> in_region buf 8 x \<Longrightarrow> m x = phys s x"
      "load32 m buf = entry_flags f" "load32 m (buf + 4) = entry_size f"
      by (rule fat16_stat_file [OF a H(2,3)]) (rule that; assumption)
    then show ?thesis by auto
  qed
  show "\<exists>s'. fs_read_op (fat16_fs (sys_io F) (sys_layout F)) (disk_addr (sys_io F)) p k 1 out s = Inr (1, s') \<and>
      bytes_at (phys s') out (unat k) = bs \<and>
      changed_only (\<lambda>x. drv_scratch (fat16_driver F) x \<or> in_region out k x \<or> in_pages (drv_base (fat16_driver F) s) x) s s' \<and>
      drv_ready (fat16_driver F) s' \<and> drv_base (fat16_driver F) s' = drv_base (fat16_driver F) s"
    if "drv_ready (fat16_driver F) s" "kheap_inv s" "drv_handle (fat16_driver F) s p f n"
      "file_bytes (fat16_files F) f n (unat k) = Some bs" "k \<noteq> 0"
      "\<forall>x. in_region out k x \<longrightarrow> \<not> in_table boot_heap x \<and> \<not> drv_scratch (fat16_driver F) x \<and> \<not> in_pages (drv_base (fat16_driver F) s) x"
  proof -
    note H = that
    have a: "fat16_ready F s" "fat16_handle s p f n" "entry_data F f n (unat k) = Some bs"
      "\<forall>x. in_region out k x \<longrightarrow> \<not> in_table boot_heap x \<and> \<not> fat16_scratch (sys_layout F) x \<and> \<not> in_pages (fat16_base s) x"
      using that by simp_all
    obtain s' where "fat16_read (sys_io F) (sys_layout F) p k 1 out s = Some (1, s')" "bytes_at (phys s') out (unat k) = bs"
      "changed_only (\<lambda>x. fat16_scratch (sys_layout F) x \<or> in_region out k x \<or> in_pages (fat16_base s) x) s s'"
      "fat16_ready F s'" "fat16_base s' = fat16_base s"
      by (rule fat16_read_law [OF a(1-3) H(5) a(4)]) (rule that; assumption)
    then show ?thesis by auto
  qed
  show "\<exists>s'. fs_close_op (fat16_fs (sys_io F) (sys_layout F)) p s = Inr (0, s') \<and> kheap.more s' = kheap.more s \<and> kheap_inv s' \<and>
      kheap_live s' = kheap_live s - page_blocks (drv_pages (fat16_driver F) s p) \<and> (\<forall>x. kheap_stable s x \<longrightarrow> phys s' x = phys s x)"
    if "drv_handle (fat16_driver F) s p f n" "kheap_inv s"
  proof -
    note H = that
    have a: "fat16_handle s p f n" using that by simp
    obtain s' where "fat16_close p s = (0, s')" "kheap.more s' = kheap.more s" "kheap_inv s'"
      "kheap_live s' = kheap_live s - page_blocks (fat16_pages s p)" "kheap_pages s' = kheap_pages s + 3"
      "\<And>x. kheap_stable s x \<Longrightarrow> phys s' x = phys s x"
      by (rule close_pages [OF a H(2)]) (rule that; assumption)
    then show ?thesis by auto
  qed
qed

end
