(* ===== verification/FileSystem.thy ===== *)
theory FileSystem
  imports Fat16Driver
begin

text \<open>
  The file system as a user sees it: the kernel mounts a FAT16 disk, and the calls of the file layer
  then act on a table of open files of its root directory.
\<close>

section \<open>Starting up\<close>

abbreviation fat16_table :: "'d fat_system \<Rightarrow> u8 list open_files \<Rightarrow> ('d, 'a) files_scheme \<Rightarrow> bool" where
  "fat16_table F \<equiv> files_rel (fat16_driver F) (disk_addr (sys_io F)) (fat16_fs_addr (sys_layout F))"

text \<open>\<open>fs_init\<close> empties the table of descriptors and registers the driver.\<close>

lemma fs_init_registers:
  assumes inv: "kheap_inv s" and name: "off_heap (fat16_fs_addr l + 24) 6"
  obtains s' where "fs_init l s = Inr s'" and "kheap_inv s'" and "kheap_live s' = kheap_live s" and "kheap_pages s' = kheap_pages s"
    and "\<And>x. \<not> in_region (fat16_fs_addr l + 24) 6 x \<Longrightarrow> phys s' x = phys s x"
    and "file_descriptors s' = replicate 512 0" and "filesystems s' = fat16_fs_addr l # replicate 11 0"
    and "files.more s' = files.more s" and "cr0 s' = cr0 s"
proof -
  define u where "u = s\<lparr>file_descriptors := replicate 512 0, filesystems := replicate 12 0\<rparr>"
  have u: "kheap_inv u" "kheap_live u = kheap_live s" "kheap_pages u = kheap_pages s" "phys u = phys s"
    using inv by (simp_all add: u_def kheap_inv_def kheap_live_def kheap_pages_def kchunks_def)
  define m where "m = put_bytes (fat16_fs_addr l + 24) [0x46, 0x41, 0x54, 0x31, 0x36, 0] (phys s)"
  let ?w = "in_region (fat16_fs_addr l + 24) 6"
  have m: "m x = phys u x" if "\<not> ?w x" for x
    unfolding m_def u(4) by (rule put_bytes_out) (use that in simp_all)
  have "\<not> in_table boot_heap x" if "?w x" for x using name that by (simp add: off_heap_def)
  note k = kept_changed [where w = ?w, OF u(1) changed_only_write [OF m] this]
  define s' where "s' = u\<lparr>phys := m, filesystems := fat16_fs_addr l # replicate 11 0\<rparr>"
  have same: "kheap_inv s'" "kheap_live s' = kheap_live u" "kheap_pages s' = kheap_pages u"
    using keptD(1) [OF k(1)] k(2)
    by (simp_all add: s'_def kheap_inv_def kheap_live_def kheap_pages_def kchunks_def)
  have r: "first_zero 0 (replicate 12 0) = Some 0" "(replicate 12 0)[0 := fat16_fs_addr l] = fat16_fs_addr l # replicate 11 0"
    by (simp_all add: numeral_eq_Suc)
  have "fs_init l s = Inr s'"
    by (simp add: fs_init_def fs_load_def fs_static_load_def fat16_init_def fs_insert_filesystem_def fs_get_free_filesystem_def
        lameos_max_filesystems_def lameos_max_file_descriptors_def r s'_def u_def m_def Let_def)
  then show thesis by (rule that) (use same u m in \<open>simp_all add: s'_def u_def\<close>)
qed

lemma mount_files:
  assumes sys: "system_ok F" and inv: "kheap_inv s" and pages: "6 \<le> kheap_pages s" and io: "disk_addr (sys_io F) \<noteq> 0"
    and reg: "filesystems s = fat16_fs_addr (sys_layout F) # ps" "fat16_fs_addr (sys_layout F) \<noteq> 0"
    and none: "file_descriptors s = replicate 512 0"
  obtains s' where "disk_search_and_init (sys_io F) (kernel_filesystems (sys_io F) (sys_layout F)) s = Inr s'"
    and "fat16_table F (\<lambda>_. None) s'" and "kheap_pages s' + 5 = kheap_pages s" and "kheap_live s \<subseteq> kheap_live s'"
    and "\<And>x. kheap_stable s x \<Longrightarrow> \<not> local_byte (sys_layout F) x \<Longrightarrow> phys s' x = phys s x" and "disk_only s s'"
proof -
  let ?io = "sys_io F" and ?l = "sys_layout F"
  obtain regs pending polls where dev: "ata ?io regs pending polls (sys_image F)" using sys by (auto simp: system_ok_def)
  have S: "stack_layout ?l" "fat_disk (sys_image F) (sys_spc F) (sys_reserved F) (sys_root F) (sys_slots F) (sys_end F)"
    using sys by (simp_all add: system_ok_def)
  define u where "u = s\<lparr>the_disk := \<lparr>disk_type = lameos_disk_type_real, sector_size = lameos_sector_size,
            disk_id = 0, disk_filesystem = 0, fs_private = 0\<rparr>\<rparr>"
  have u: "kheap_inv u" "6 \<le> kheap_pages u" "disk_id (the_disk u) = 0" "sector_size (the_disk u) = 512" "filesystems u = filesystems s"
    "file_descriptors u = file_descriptors s" "kheap_live u = kheap_live s" "kheap_pages u = kheap_pages s" "phys u = phys s"
    using inv pages by (simp_all add: u_def lameos_sector_size_def)
  obtain p cs fs ds dir s' where m: "fat16_resolve ?io ?l u = Some (0, s')" "kheap_inv s'"
    "mounted ?io (sys_image F) (sys_spc F) (sys_reserved F) (sys_root F) (sys_slots F) (sys_end F) p cs fs ds dir s'"
    "the_disk s' = volume_disk ?l p (the_disk u)" "kheap_live s' = (\<lambda>a. (a, 4096)) ` {p, cs, fs, ds, dir} \<union> kheap_live u"
    "kheap_pages s' + 5 = kheap_pages u" "\<And>x. kheap_stable u x \<Longrightarrow> \<not> local_byte ?l x \<Longrightarrow> phys s' x = phys u x"
    "dir \<notin> {p, cs, fs, ds}" "disk_only u s'"
    by (rule mount_disk [OF dev S(1) u(1,2) io u(3,4) S(2)]) (rule that; assumption)
  note fd = disk_only_files(1) [OF m(9)]
  have "s'\<lparr>the_disk := (the_disk s')\<lparr>disk_filesystem := fat16_fs_addr ?l\<rparr>\<rparr> = s'\<lparr>the_disk := the_disk s'\<rparr>"
    by (simp add: m(4) volume_disk_def)
  then have "disk_search_and_init ?io (kernel_filesystems ?io ?l) s = Inr s'"
    using m(1) reg by (simp add: disk_search_and_init_def fs_resolve_def kernel_filesystems_def fat16_fs_def u(5) flip: u_def)
  moreover have "fat16_table F (\<lambda>_. None) s'"
  proof -
    have "fat16_mounted F p cs fs ds dir s'" using sys m(2,3,5,8) by (simp add: fat16_mounted_def)
    then have "fat16_ready F s'" unfolding fat16_ready_def by blast
    moreover have "fds_ok s'" using m(2) fd none u(6) by (simp add: fds_ok_def lameos_max_file_descriptors_def)
    ultimately show ?thesis using m(4) fd none u(6) by (simp add: files_rel_def volume_disk_def)
  qed
  moreover have "disk_only s s'" by (rule disk_only_trans [OF disk_only_disk m(9) [unfolded u_def]])
  ultimately show thesis
    using m(5,6,7) u(7,8,9) by (intro that [of s']) (auto simp: kheap_stable_def)
qed

section \<open>Typed replies\<close>

text \<open>The files in the table are files of the volume, in slots of the descriptor table.\<close>

definition table_ok :: "'d fat_system \<Rightarrow> u8 list open_files \<Rightarrow> bool" where
  "table_ok F A \<longleftrightarrow> (\<forall>i f n. A i = Some (f, n) \<longrightarrow> i < 512 \<and> f \<in> set (root_files F))"

text \<open>What a user may get for a call.\<close>

fun reply_ok :: "file_call \<Rightarrow> reply \<Rightarrow> bool" where
  "reply_ok (Open_File _ _ _ _) (Code v) \<longleftrightarrow> 0 \<le> sint v \<and> sint v \<le> 512"
| "reply_ok (Close_File _) (Code v) \<longleftrightarrow> v \<in> {0, - eio}"
| "reply_ok (Seek_File _ _ _) (Code v) \<longleftrightarrow> v \<in> {0, - eio, - eunimp, - einvarg}"
| "reply_ok (Stat_File _ _) (Code v) \<longleftrightarrow> v = - eio"
| "reply_ok (Stat_File _ _) (Stat_Reply flags sz) \<longleftrightarrow> flags \<in> {0, 1}"
| "reply_ok (Read_File _ n _) (Code v) \<longleftrightarrow> v = - einvarg"
| "reply_ok (Read_File _ n _) (Data bs) \<longleftrightarrow> length bs = unat n"
| "reply_ok _ _ \<longleftrightarrow> False"

lemma free_slot_less: "free_slot A = Some i \<Longrightarrow> i < 512"
  by (auto simp: free_slot_def find_Some_iff)

lemma open_file_slot: "open_file A fd = Some fn \<Longrightarrow> A (nat (sint fd) - 1) = Some fn"
  by (auto simp: open_file_def split: if_splits)

lemma root_find_mem: "root_find F names = Some f \<Longrightarrow> f \<in> set (root_files F)"
  by (auto simp: root_find_def find_Some_iff split: list.splits)

lemma table_ok_close: "table_ok F A \<Longrightarrow> table_ok F (A(i := None))"
  unfolding table_ok_def by (metis fun_upd_apply option.distinct(1))

lemma spec_call_typed:
  assumes ok: "table_ok F A" and call: "spec_call (fat16_files F) c A = Some (r, A')"
  shows "table_ok F A'" and "reply_ok c r"
proof -
  have "table_ok F A' \<and> reply_ok c r"
  proof (cases c)
    case (Open_File filename mode_str t mode)
    show ?thesis
    proof (cases "\<exists>f i. root_find F (path_names t) = Some f \<and> free_slot A = Some i \<and> r = Code (of_nat (i + 1)) \<and> A' = A(i \<mapsto> (f, 0))")
      case True
      then obtain f i where fi: "root_find F (path_names t) = Some f" "free_slot A = Some i" "r = Code (of_nat (i + 1))"
        "A' = A(i \<mapsto> (f, 0))" by blast
      have i: "i < 512" by (rule free_slot_less [OF fi(2)])
      then have "sint (of_nat (i + 1) :: i32) = int (i + 1)" by (intro sint_of_nat_u32) simp
      then show ?thesis using ok i fi(3,4) root_find_mem [OF fi(1)] Open_File by (auto simp: table_ok_def)
    next
      case False
      then have "r = Code 0" "A' = A" using call Open_File by (auto split: option.splits if_splits)
      then show ?thesis using ok Open_File by simp
    qed
  next
    case (Close_File fd)
    then show ?thesis using ok call table_ok_close [OF ok] by (auto split: if_splits)
  next
    case (Seek_File fd offset whence)
    show ?thesis
    proof (cases "open_file A fd")
      case None
      then show ?thesis using ok call Seek_File by auto
    next
      case (Some fn)
      obtain f n where fn: "open_file A fd = Some (f, n)" using Some by (cases fn) auto
      obtain res n' where sk: "spec_seek (entry_size f) n offset whence = (res, n')" by fastforce
      have "r = Code res" "A' = A(nat (sint fd) - 1 \<mapsto> (f, n'))" using call Seek_File fn sk by auto
      moreover have "res \<in> {0, - eio, - eunimp, - einvarg}" using sk by (auto simp: spec_seek_def split: if_splits)
      ultimately show ?thesis using ok open_file_slot [OF fn] Seek_File by (auto simp: table_ok_def)
    qed
  next
    case (Stat_File fd buf)
    then show ?thesis
      using ok call by (cases "open_file A fd") (auto simp: entry_flags_def file_stat_read_only_def)
  next
    case (Read_File fd n out)
    then show ?thesis
      using ok call by (cases "open_file A fd") (auto simp: entry_data_def split: if_splits)
  qed
  then show "table_ok F A'" "reply_ok c r" by simp_all
qed

section \<open>A small system\<close>

definition sample_system :: "sample_device fat_system" where
  "sample_system = \<lparr>sys_io = image_ports volume_image, sys_layout = sample_layout, sys_image = volume_image,
     sys_spc = 1, sys_reserved = 1, sys_root = 3, sys_slots = 16, sys_end = 3\<rparr>"

text \<open>The path \<open>0:/blank.bin\<close> at 0x510 and the mode \<open>r\<close> at 0x600.\<close>

definition user_path :: "u8 list" where
  "user_path = [0x30, 0x3A, 0x2F] @ blank_bin"

definition user_kernel :: "sample_device files" where
  "user_kernel = file_kernel\<lparr>phys := (put_bytes 0x510 (user_path @ [0]) (\<lambda>_. 0))(0x600 := 0x72)\<rparr>"

lemma sample_root: "root_files sample_system = [disk_entry volume_image 3 0, disk_entry volume_image 3 1]"
proof -
  have "entries_kept volume_image (512 * 3) 3 = Suc (Suc 0)" using volume_entries(1) by simp
  then show ?thesis by (simp add: root_files_def sample_system_def)
qed

lemma disk_entry_nth: "b < 32 \<Longrightarrow> disk_entry img R j ! b = img (512 * R + 32 * j + b)"
  by (simp add: disk_entry_def)

lemma sample_names:
  "name_key (disk_entry volume_image 3 0) = blank_bin" "name_key (disk_entry volume_image 3 1) = [0xE5]"
  by (simp_all only: name_key_def volume_entries(3,4)) (simp_all add: blank_bin_def tolower_def)

lemma sample_system_ok: "system_ok sample_system"
proof -
  have "entry_ends (disk_entry volume_image 3 0)" "entry_ends (disk_entry volume_image 3 1)" using volume_entries(2) by simp_all
  moreover have "disk_entry volume_image 3 1 ! 11 = 0" by (simp add: disk_entry_nth volume_image_def)
  ultimately have "list_all plain_entry (root_files sample_system)"
    by (simp add: sample_root plain_entry_def volume_entries(6) fat_file_subdirectory_def)
  moreover have "distinct (map name_key (root_files sample_system))"
    unfolding sample_root list.map sample_names by (simp add: blank_bin_def)
  ultimately show ?thesis
    using image_ata [of volume_image] sample_stack volume_disk_ok
    unfolding system_ok_def by (auto simp: sample_system_def)
qed

lemma sample_ids:
  "disk_addr (sys_io sample_system) \<noteq> 0" "fat16_fs_addr (sys_layout sample_system) = 0x2000"
  "off_heap (fat16_fs_addr (sys_layout sample_system) + 24) 6"
  by (simp_all add: sample_system_def image_ports_def sample_layout_def off_heap_low)

lemma boot_from:
  assumes "system_ok F" and "disk_addr (sys_io F) \<noteq> 0" and "fat16_fs_addr (sys_layout F) \<noteq> 0"
    and "off_heap (fat16_fs_addr (sys_layout F) + 24) 6" and inv: "kheap_inv s" and pages: "6 \<le> kheap_pages s"
  obtains s' where "and_then (fs_init (sys_layout F) s)
      (disk_search_and_init (sys_io F) (kernel_filesystems (sys_io F) (sys_layout F))) = Inr s'"
    and "fat16_table F (\<lambda>_. None) s'" and "kheap_pages s' + 5 = kheap_pages s" and "kheap_live s \<subseteq> kheap_live s'"
    and "\<And>x. \<lbrakk> kheap_stable s x; \<not> local_byte (sys_layout F) x; \<not> in_region (fat16_fs_addr (sys_layout F) + 24) 6 x \<rbrakk> \<Longrightarrow>
      phys s' x = phys s x"
    and "files.more s' = files.more s" and "cr0 s' = cr0 s"
proof -
  obtain s1 where i: "fs_init (sys_layout F) s = Inr s1" "kheap_inv s1" "kheap_live s1 = kheap_live s"
    "kheap_pages s1 = kheap_pages s" "\<And>x. \<not> in_region (fat16_fs_addr (sys_layout F) + 24) 6 x \<Longrightarrow> phys s1 x = phys s x"
    "file_descriptors s1 = replicate 512 0" "filesystems s1 = fat16_fs_addr (sys_layout F) # replicate 11 0"
    "files.more s1 = files.more s" "cr0 s1 = cr0 s"
    by (rule fs_init_registers [OF inv assms(4)]) (rule that; assumption)
  have pages1: "6 \<le> kheap_pages s1" using i(4) pages by simp
  obtain s' where m: "disk_search_and_init (sys_io F) (kernel_filesystems (sys_io F) (sys_layout F)) s1 = Inr s'"
    "fat16_table F (\<lambda>_. None) s'" "kheap_pages s' + 5 = kheap_pages s1" "kheap_live s1 \<subseteq> kheap_live s'"
    "\<And>x. kheap_stable s1 x \<Longrightarrow> \<not> local_byte (sys_layout F) x \<Longrightarrow> phys s' x = phys s1 x" "disk_only s1 s'"
    by (rule mount_files [OF assms(1) i(2) pages1 assms(2) i(7) assms(3) i(6)]) (rule that; assumption)
  show thesis by (rule that [of s']) (use i(1,3-5,8,9) m disk_only_files [OF m(6)] in \<open>simp_all add: kheap_stable_def\<close>)
qed

lemma boot_files:
  assumes "system_ok F" and "disk_addr (sys_io F) \<noteq> 0" and "fat16_fs_addr (sys_layout F) \<noteq> 0"
    and "off_heap (fat16_fs_addr (sys_layout F) + 24) 6"
  shows "\<exists>s'. and_then (fs_init (sys_layout F) (kheap_init s))
      (disk_search_and_init (sys_io F) (kernel_filesystems (sys_io F) (sys_layout F))) = Inr s' \<and>
    fat16_table F (\<lambda>_. None) s' \<and> kheap_pages s' = 25595 \<and>
    (\<forall>x. \<not> in_heap x \<and> \<not> in_table boot_heap x \<and> \<not> local_byte (sys_layout F) x \<and>
       \<not> in_region (fat16_fs_addr (sys_layout F) + 24) 6 x \<longrightarrow> phys s' x = phys s x)"
proof -
  note h = kheap_init_state [of s]
  have k: "kheap_inv (kheap_init s)" "6 \<le> kheap_pages (kheap_init s)" using h by simp_all
  obtain s' where b: "and_then (fs_init (sys_layout F) (kheap_init s))
      (disk_search_and_init (sys_io F) (kernel_filesystems (sys_io F) (sys_layout F))) = Inr s'"
    "fat16_table F (\<lambda>_. None) s'" "kheap_pages s' + 5 = kheap_pages (kheap_init s)"
    "\<And>x. \<lbrakk> kheap_stable (kheap_init s) x; \<not> local_byte (sys_layout F) x; \<not> in_region (fat16_fs_addr (sys_layout F) + 24) 6 x \<rbrakk> \<Longrightarrow>
      phys s' x = phys (kheap_init s) x"
    by (rule boot_from [OF assms k]) (rule that; assumption)
  then show ?thesis using h by (auto simp: kheap_stable_def)
qed

text \<open>Low memory is outside the heap and away from the driver.\<close>

lemma low_memory:
  assumes "x < 0x700"
  shows "\<not> in_heap x" and "\<not> in_table boot_heap x" and "\<not> fat16_scratch sample_layout x" and "\<not> local_byte sample_layout x"
    and "\<not> in_region (0x2000 + 24) 6 x"
proof -
  have x: "unat x < 0x700" using assms by (simp add: word_less_nat_alt)
  have far: "\<not> in_region a k x" if "0x2000 \<le> unat a" "unat k \<le> 0x1000" "unat a < 0x600000" for a k
    using x that unfolding in_region_def by (auto simp: word_less_nat_alt unat_sub_if' split: if_splits)
  show "\<not> in_heap x" "\<not> in_table boot_heap x"
    using x unfolding in_table_def in_heap_def in_region_def boot_heap_simps
    by (auto simp: word_less_nat_alt word_le_nat_alt unat_sub_if' split: if_splits)
  show "\<not> fat16_scratch sample_layout x" "\<not> local_byte sample_layout x" "\<not> in_region (0x2000 + 24) 6 x"
    using far by (simp_all add: fat16_scratch_def local_byte_def sample_layout_def)
qed

lemma low_region:
  assumes "in_region a n x" and "unat a + unat n \<le> 0x700"
  shows "x < 0x700"
  using assms unfolding in_region_def by (auto simp: word_less_nat_alt unat_sub_if' split: if_splits)

lemma user_kernel_text:
  assumes "\<And>x. x < 0x700 \<Longrightarrow> m x = phys user_kernel x"
  shows "cstr_at m 0x510 user_path" and "file_mode_get_by_string 0x600 m = FILE_MODE_READ"
proof -
  have len: "length user_path = 12" by (simp add: user_path_def blank_bin_def)
  have reg: "in_region 0x510 14 (0x510 + of_nat i :: u32)" if "i \<le> 12" for i using that by (simp add: in_region_of_nat)
  have m: "m (0x510 + of_nat i) = (user_path @ [0]) ! i" if "i \<le> 12" for i
  proof -
    have r: "in_region 0x510 14 (0x510 + of_nat i :: u32)" by (rule reg [OF that])
    have "(0x510 + of_nat i :: u32) \<noteq> 0x600" using r by (auto simp: in_region_def)
    then show ?thesis using assms low_region [OF r] that len by (simp add: user_kernel_def put_bytes_nth)
  qed
  have "0 \<notin> set user_path" by (simp add: user_path_def blank_bin_def)
  moreover have "m (0x510 + of_nat 12) = 0" using m [of 12] len by (simp add: nth_append)
  moreover have "m (0x510 + of_nat i) = user_path ! i" if "i < 12" for i using m [of i] that len by (simp add: nth_append)
  ultimately show "cstr_at m 0x510 user_path" unfolding cstr_at_iff len by (auto simp: in_set_conv_nth len)
  show "file_mode_get_by_string 0x600 m = FILE_MODE_READ"
    using assms [of "0x600"] by (simp add: file_mode_get_by_string_def user_kernel_def)
qed

lemma user_call_ok:
  assumes ph: "\<And>x. x < 0x700 \<Longrightarrow> phys s x = phys user_kernel x" and pages: "8 \<le> kheap_pages s"
  shows "call_ok 3 (fat16_scratch sample_layout) (Open_File 0x510 0x600 user_path FILE_MODE_READ) s"
proof -
  have st: "kheap_stable s x" if "x < 0x700" for x using low_memory(1,2) [OF that] by (simp add: kheap_stable_def)
  have len: "length user_path = 12" "path_parts (drop 3 user_path) = [blank_bin]"
    by (simp_all add: user_path_def blank_bin_def path_parts.simps Let_def)
  have "kheap_stable s (0x510 + of_nat j)" if "j \<le> 12" for j
  proof (rule st, rule low_region)
    show "in_region 0x510 13 (0x510 + of_nat j :: u32)" using that by (simp add: in_region_of_nat)
  qed simp
  then show ?thesis using user_kernel_text [OF ph] st [of "0x600"] pages len by simp
qed

lemma booted_user:
  obtains s where "and_then (fs_init sample_layout (kheap_init user_kernel))
      (disk_search_and_init (image_ports volume_image) (kernel_filesystems (image_ports volume_image) sample_layout)) = Inr s"
    and "fat16_table sample_system (\<lambda>_. None) s"
    and "call_ok 3 (fat16_scratch sample_layout) (Open_File 0x510 0x600 user_path FILE_MODE_READ) s"
proof -
  have fields: "sys_io sample_system = image_ports volume_image" "sys_layout sample_system = sample_layout"
    by (simp_all add: sample_system_def)
  have "fat16_fs_addr (sys_layout sample_system) \<noteq> 0" by (simp add: sample_ids(2))
  from boot_files [OF sample_system_ok sample_ids(1) this sample_ids(3), of user_kernel] obtain s where
    b: "and_then (fs_init sample_layout (kheap_init user_kernel))
      (disk_search_and_init (image_ports volume_image) (kernel_filesystems (image_ports volume_image) sample_layout)) = Inr s"
    "fat16_table sample_system (\<lambda>_. None) s" "kheap_pages s = 25595"
    "\<And>x. \<not> in_heap x \<and> \<not> in_table boot_heap x \<and> \<not> local_byte sample_layout x \<and> \<not> in_region (0x2000 + 24) 6 x \<Longrightarrow>
      phys s x = phys user_kernel x"
    unfolding fields sample_ids(2) [unfolded fields] by blast
  have ph: "phys s x = phys user_kernel x" if "x < 0x700" for x by (rule b(4)) (use low_memory [OF that] in blast)
  have "8 \<le> kheap_pages s" using b(3) by simp
  from user_call_ok [OF ph this] b(1,2) show thesis by (intro that)
qed

lemma empty_slot: "free_slot (\<lambda>_. None) = Some 0"
proof -
  have "[0..<512] = 0 # [1..<512]" by (subst upt_rec) simp
  then show ?thesis by (simp add: free_slot_def)
qed

text \<open>The first file is opened, asked for its size, read, advanced and closed.\<close>

lemma sample_reads:
  "root_find sample_system (path_names user_path) = Some (disk_entry volume_image 3 0)"
  "entry_flags (disk_entry volume_image 3 0) = 0" "entry_size (disk_entry volume_image 3 0) = 2"
  "entry_data sample_system (disk_entry volume_image 3 0) 0 2 = Some [0x48, 0x69]"
  "entry_cluster (disk_entry volume_image 3 0) = 2"
proof -
  have "path_valid user_path" by (simp add: path_valid_def user_path_def blank_bin_def isdigit_def word_sle_eq)
  then have "path_names user_path = [blank_bin]"
    by (simp add: path_names_def) (simp add: user_path_def blank_bin_def path_parts.simps Let_def)
  moreover have "same_name (entry_name (disk_entry volume_image 3 0)) blank_bin"
    unfolding volume_entries(3) by (simp add: blank_bin_def same_name_def tolower_def)
  ultimately show "root_find sample_system (path_names user_path) = Some (disk_entry volume_image 3 0)"
    by (simp add: root_find_def sample_root)
  show "entry_flags (disk_entry volume_image 3 0) = 0"
    by (simp add: entry_flags_def volume_entries(6) fat_file_read_only_def)
  have len: "length (disk_entry volume_image 3 0) = 32" by (simp add: disk_entry_def)
  have e: "entry_mem (disk_entry volume_image 3 0) a = volume_image (1536 + unat a)" if "unat a < 32" for a
    using that len by (simp add: entry_mem_def disk_entry_nth)
  have img: "volume_image 1556 = 0" "volume_image 1557 = 0" "volume_image 1562 = 2" "volume_image 1563 = 0"
    "volume_image 1564 = 2" "volume_image 1565 = 0" "volume_image 1566 = 0" "volume_image 1567 = 0"
    by (simp_all add: volume_image_def)
  show "entry_size (disk_entry volume_image 3 0) = 2"
    by (simp add: entry_size_def item_filesize_def load32_def e img)
  show cl: "entry_cluster (disk_entry volume_image 3 0) = 2"
    by (simp add: entry_cluster_def fat16_get_first_cluster_def item_high_cluster_def item_low_cluster_def load16_def e img)
  have pos: "entry_pos sample_system (disk_entry volume_image 3 0) 0 j = Some (2048 + j)" if "j < 2" for j
    using that by (simp add: entry_pos_def cl sample_system_def file_pos_def)
  have "[0..<2] = [0, Suc 0]" by (simp add: numeral_2_eq_2)
  then show "entry_data sample_system (disk_entry volume_image 3 0) 0 2 = Some [0x48, 0x69]"
    using pos [of 0] pos [of "Suc 0"]
    by (simp add: entry_data_def) (simp add: sample_system_def volume_image_def)
qed

lemma sample_content:
  "one_cluster sample_system (disk_entry volume_image 3 0)"
  "entry_content sample_system (disk_entry volume_image 3 0) = [0x48, 0x69]"
proof -
  show one: "one_cluster sample_system (disk_entry volume_image 3 0)"
    by (simp add: one_cluster_def sample_reads(3,5) first_cluster_ok_def) (simp add: sample_system_def)
  show "entry_content sample_system (disk_entry volume_image 3 0) = [0x48, 0x69]"
    using one_cluster_data [OF one] sample_reads(4) by (simp add: sample_reads(3))
qed

section \<open>Properties\<close>

text \<open>C6. From the first instruction after the heap is set up, in any memory: \<open>fs_init\<close> registers the driver and
  \<open>disk_search_and_init\<close> mounts the disk. The kernel is then ready for files: the descriptor table stands
  for the empty table of open files, five pages are taken, and memory outside the heap, its table and
  the driver's own objects is as it was.\<close>

theorem boot_mounts_files:
  assumes "system_ok F" and "disk_addr (sys_io F) \<noteq> 0" and "fat16_fs_addr (sys_layout F) \<noteq> 0"
    and "off_heap (fat16_fs_addr (sys_layout F) + 24) 6"
  shows "\<exists>s'. and_then (fs_init (sys_layout F) (kheap_init s))
      (disk_search_and_init (sys_io F) (kernel_filesystems (sys_io F) (sys_layout F))) = Inr s' \<and>
    fat16_table F (\<lambda>_. None) s' \<and> kheap_pages s' = 25595 \<and>
    (\<forall>x. \<not> in_heap x \<and> \<not> in_table boot_heap x \<and> \<not> local_byte (sys_layout F) x \<and>
       \<not> in_region (fat16_fs_addr (sys_layout F) + 24) 6 x \<longrightarrow> phys s' x = phys s x)"
  by (rule boot_files [OF assms])

theorem boot_mounts_files_witness:
  "\<exists>s'. and_then (fs_init (sys_layout sample_system) (kheap_init user_kernel)) (disk_search_and_init (sys_io sample_system)
     (kernel_filesystems (sys_io sample_system) (sys_layout sample_system))) = Inr s' \<and>
   file_descriptors s' ! 511 = 0 \<and> kheap_pages s' = 25595"
proof -
  have "fat16_fs_addr (sys_layout sample_system) \<noteq> 0" by (simp add: sample_ids(2))
  from boot_mounts_files [OF sample_system_ok sample_ids(1) this sample_ids(3), of user_kernel] obtain s' where
    "and_then (fs_init (sys_layout sample_system) (kheap_init user_kernel)) (disk_search_and_init (sys_io sample_system)
       (kernel_filesystems (sys_io sample_system) (sys_layout sample_system))) = Inr s'"
    "fat16_table sample_system (\<lambda>_. None) s'" "kheap_pages s' = 25595" by blast
  with files_relD(6) [OF this(2), of 511] show ?thesis by simp
qed

text \<open>C5. The calls of the file layer on a mounted FAT16 disk refine the table of open files: for every sequence
  of calls that the specification gives replies for, the kernel returns from every call with exactly
  these replies, and its descriptors, items and pages stand for the table the specification ends with.
  Numbers, positions, sizes, flags, bytes and error codes are all part of the replies.\<close>

theorem file_calls_refine:
  assumes "fat16_table F A s" and "disk_addr (sys_io F) \<noteq> 0" and "fat16_fs_addr (sys_layout F) \<noteq> 0"
    and "calls_ok (sys_io F) (kernel_filesystems (sys_io F) (sys_layout F)) 3 (fat16_scratch (sys_layout F)) cs s"
    and "spec_calls (fat16_files F) cs A = Some (rs, A')"
  shows "\<exists>s'. exec_calls (sys_io F) (kernel_filesystems (sys_io F) (sys_layout F)) cs s = Inr (rs, s') \<and> fat16_table F A' s'"
  using fat16.calls_sim [where fss = "kernel_filesystems (sys_io F) (sys_layout F)" and fsp = "fat16_fs_addr (sys_layout F)",
      OF assms(1) refl assms(2) _ assms(3) _ assms(5)] assms(4)
  by (simp add: kernel_filesystems_def)

theorem file_calls_refine_witness:
  "\<exists>s s'. and_then (fs_init sample_layout (kheap_init user_kernel)) (disk_search_and_init (image_ports volume_image)
      (kernel_filesystems (image_ports volume_image) sample_layout)) = Inr s \<and>
    exec_calls (image_ports volume_image) (kernel_filesystems (image_ports volume_image) sample_layout)
      [Open_File 0x510 0x600 user_path FILE_MODE_READ, Stat_File 1 0x620, Read_File 1 2 0x640, Seek_File 1 1 1, Close_File 1] s =
    Inr ([Code 1, Stat_Reply 0 2, Data [0x48, 0x69], Code 0, Code 0], s')"
proof -
  let ?fss = "kernel_filesystems (sys_io sample_system) (sys_layout sample_system)"
  let ?cs = "[Open_File 0x510 0x600 user_path FILE_MODE_READ, Stat_File 1 0x620, Read_File 1 2 0x640, Seek_File 1 1 1, Close_File 1]"
  have fields: "sys_io sample_system = image_ports volume_image" "sys_layout sample_system = sample_layout"
    by (simp_all add: sample_system_def)
  obtain s where s: "and_then (fs_init sample_layout (kheap_init user_kernel))
      (disk_search_and_init (image_ports volume_image) (kernel_filesystems (image_ports volume_image) sample_layout)) = Inr s"
    "fat16_table sample_system (\<lambda>_. None) s" "call_ok 3 (fat16_scratch sample_layout) (Open_File 0x510 0x600 user_path FILE_MODE_READ) s"
    by (rule booted_user)
  have "\<not> fat16_scratch sample_layout x" if "in_region 0x640 2 x" for x by (rule low_memory(3) [OF low_region [OF that]]) simp
  moreover have "off_heap 0x620 8" "off_heap 0x640 2" by (simp_all add: off_heap_low)
  ultimately have ok: "calls_ok (sys_io sample_system) ?fss 3 (fat16_scratch (sys_layout sample_system)) ?cs s"
    using s(3) unfolding fields by (simp del: call_ok.simps(1) exec_call.simps split: sum.split prod.split)
  have names: "path_names user_path \<noteq> []" using sample_reads(1) by (auto simp: root_find_def)
  have "unat (2 :: u32) = 2" by simp
  then have spec: "spec_calls (fat16_files sample_system) ?cs (\<lambda>_. None) = Some ([Code 1, Stat_Reply 0 2, Data [0x48, 0x69], Code 0, Code 0], (\<lambda>_. None))"
    using names by (simp add: sample_reads empty_slot open_file_def spec_seek_def word_le_nat_alt)
  have "fat16_fs_addr (sys_layout sample_system) \<noteq> 0" by (simp add: sample_ids(2))
  from file_calls_refine [OF s(2) sample_ids(1) this ok spec] s(1) show ?thesis unfolding fields by blast
qed

text \<open>Every call on a mounted disk that the specification defines returns a reply of its type - a number up
  to 512 or 0, the error codes of that call, flags 0 or 1 with a size, as many bytes as were asked for -
  and the table stays well formed: its files are files of the volume, in slots of the table.\<close>

theorem file_call_typed:
  assumes "fat16_table F A s" and "disk_addr (sys_io F) \<noteq> 0" and "fat16_fs_addr (sys_layout F) \<noteq> 0" and "table_ok F A"
    and "call_ok 3 (fat16_scratch (sys_layout F)) c s" and "spec_call (fat16_files F) c A \<noteq> None"
  shows "\<exists>r A' s'. exec_call (sys_io F) (kernel_filesystems (sys_io F) (sys_layout F)) c s = Inr (r, s') \<and>
    reply_ok c r \<and> fat16_table F A' s' \<and> table_ok F A'"
proof -
  obtain r A' where r: "spec_call (fat16_files F) c A = Some (r, A')" using assms(6) by auto
  have "kernel_filesystems (sys_io F) (sys_layout F) (fat16_fs_addr (sys_layout F)) = Some (fat16_fs (sys_io F) (sys_layout F))"
    by (simp add: kernel_filesystems_def)
  from fat16.call_sim [where fss = "kernel_filesystems (sys_io F) (sys_layout F)" and fsp = "fat16_fs_addr (sys_layout F)",
      OF assms(1) refl assms(2) this assms(3) _ r] assms(5) obtain s' where
    "exec_call (sys_io F) (kernel_filesystems (sys_io F) (sys_layout F)) c s = Inr (r, s')" "fat16_table F A' s'" by auto
  with spec_call_typed [OF assms(4) r] show ?thesis by blast
qed

theorem file_call_typed_witness:
  "\<exists>s v s'. and_then (fs_init sample_layout (kheap_init user_kernel)) (disk_search_and_init (image_ports volume_image)
      (kernel_filesystems (image_ports volume_image) sample_layout)) = Inr s \<and>
    exec_call (image_ports volume_image) (kernel_filesystems (image_ports volume_image) sample_layout)
      (Open_File 0x510 0x600 user_path FILE_MODE_READ) s = Inr (Code v, s') \<and> 0 \<le> sint v \<and> sint v \<le> 512"
proof -
  have fields: "sys_io sample_system = image_ports volume_image" "sys_layout sample_system = sample_layout"
    by (simp_all add: sample_system_def)
  let ?c = "Open_File 0x510 0x600 user_path FILE_MODE_READ"
  obtain s where s: "and_then (fs_init sample_layout (kheap_init user_kernel))
      (disk_search_and_init (image_ports volume_image) (kernel_filesystems (image_ports volume_image) sample_layout)) = Inr s"
    "fat16_table sample_system (\<lambda>_. None) s" "call_ok 3 (fat16_scratch sample_layout) ?c s"
    by (rule booted_user)
  have "path_names user_path \<noteq> []" using sample_reads(1) by (auto simp: root_find_def)
  then have spec: "spec_call (fat16_files sample_system) ?c (\<lambda>_. None) \<noteq> None" by (simp add: sample_reads empty_slot)
  have "table_ok sample_system (\<lambda>_. None)" by (simp add: table_ok_def)
  moreover have "fat16_fs_addr (sys_layout sample_system) \<noteq> 0" by (simp add: sample_ids(2))
  ultimately obtain r s' where r: "exec_call (image_ports volume_image) (kernel_filesystems (image_ports volume_image) sample_layout) ?c s = Inr (r, s')"
    "reply_ok ?c r"
    using file_call_typed [OF s(2) sample_ids(1) _ _ _ spec] s(3) unfolding fields by blast
  then obtain v where "r = Code v" "0 \<le> sint v" "sint v \<le> 512" by (cases r) auto
  with r(1) s(1) show ?thesis by blast
qed

end
