(* ===== verification/ProcessLoad.thy ===== *)
theory ProcessLoad
  imports Kernel HeapSpace FileSystem
begin

text \<open>
  \<open>process_load_binary\<close> of \<open>src/task/process.c\<close> over a driver that keeps the contract of \<open>Driver\<close>: the file is
  opened, asked for its size, read into a new block and closed again, whatever files are open.
\<close>

section \<open>The loader\<close>

text \<open>The process has the \<open>n\<close> bytes \<open>bs\<close> in a new block; every block of the heap is still there, and nothing stable has
  changed but the bytes of \<open>w\<close> and the two fields of the process.\<close>

definition file_loaded ::
  "(ptr \<Rightarrow> bool) \<Rightarrow> ptr \<Rightarrow> u32 \<Rightarrow> u8 list \<Rightarrow> 'a kheap_scheme \<Rightarrow> ptr \<Rightarrow> u32 \<Rightarrow> 'a kheap_scheme \<Rightarrow> bool" where
  "file_loaded w process n bs s p k s' \<longleftrightarrow> process_ptr (phys s') process = p \<and> process_size (phys s') process = n \<and>
     (p, k) \<in> kheap_live s' \<and> (p, k) \<notin> kheap_live s \<and> n \<le> k \<and> bytes_at (phys s') p (unat n) = bs \<and>
     kheap_live s \<subseteq> kheap_live s' \<and>
     (\<forall>x. kheap_stable s x \<and> \<not> w x \<and> \<not> in_region (process + 4212) 4 x \<and> \<not> in_region (process + 4220) 4 x \<longrightarrow>
        phys s' x = phys s x)"

locale program_loader = file_driver ops dsk D V
  for ops :: "('d, 'a) process_table_scheme filesystem" and dsk :: ptr
    and D :: "(('d, 'a) process_table_scheme, 'f) driver_data" and V :: "'f volume"
begin

lemma new_number:
  assumes "i < 511"
  shows "(of_nat (i + 1) :: i32) \<noteq> 0" and "nat (sint (of_nat (i + 1) :: i32)) - 1 = i"
    and "open_file (A(i \<mapsto> v)) (of_nat (i + 1)) = Some v"
proof -
  have "sint (of_nat (i + 1) :: i32) = int (i + 1)" by (rule sint_of_nat_u32) (use assms in simp)
  then show "nat (sint (of_nat (i + 1) :: i32)) - 1 = i" and "open_file (A(i \<mapsto> v)) (of_nat (i + 1)) = Some v"
    and "(of_nat (i + 1) :: i32) \<noteq> 0"
    using assms by (auto simp: open_file_def simp del: of_nat_Suc of_nat_add)
qed

text \<open>The block for the file, and the read into it.\<close>

lemma load_read:
  assumes rel: "files_rel D dsk fsp A s" and fss: "fss fsp = Some ops" and fn: "open_file A fd = Some (f, 0)"
    and bs: "file_bytes V f 0 (unat n) = Some bs" "n \<noteq> 0" and room: "kheap_room n s"
  obtains p k s1 s2 where "outside_files s s2" and "kheap_pages s2 + blocks_for n = kheap_pages s" and "kzalloc n s = (p, s1)" and "p \<noteq> 0" and "fread fss p n 1 fd s1 = Inr (1, s2)"
    and "files_rel D dsk fsp A s2" and "table_same D A s s2" and "kheap_live s2 = insert (p, k) (kheap_live s)"
    and "(p, k) \<notin> kheap_live s" and "n \<le> k" and "bytes_at (phys s2) p (unat n) = bs"
    and "\<And>x. kheap_stable s x \<Longrightarrow> \<not> drv_scratch D x \<Longrightarrow> \<not> in_pages (drv_base D s) x \<Longrightarrow> phys s2 x = phys s x"
proof -
  note R = files_relD [OF rel]
  obtain p s1 where alloc: "kzalloc n s = (p, s1)" by (cases "kzalloc n s") blast
  obtain k where z: "kept (\<lambda>_. False) s s1" "kheap_live s1 = insert (p, k) (kheap_live s)" "n \<le> k" "(p, k) \<notin> kheap_live s" "p \<noteq> 0"
    "\<And>x. kheap_stable s x \<Longrightarrow> \<not> in_region p k x"
    by (rule kept_kzalloc [OF R(2) room alloc]) (rule that; assumption)
  have rel1: "files_rel D dsk fsp A s1" and base1: "drv_base D s1 = drv_base D s" and same1: "table_same D A s s1"
    using rel_kept [OF rel z(1)] by simp_all
  have l1: "(p, k) \<in> kheap_live s1" using z(2) by simp
  have no: "(p, k) \<notin> page_blocks B" if "page_blocks B \<subseteq> kheap_live s" for B using z(4) that by blast
  have nb: "(p, k) \<notin> page_blocks (drv_base D s1)" unfolding base1 by (rule no [OF base_live [OF R(3)]])
  have ns: "(p, k) \<notin> page_blocks (slot_pages D s1 (file_descriptors s1 ! j))" if "A j \<noteq> None" for j
    using no [OF slot_pages_live [OF rel that]] same1 that by (simp add: table_same_def)
  have free: "buffer_free D A p n s1" by (rule fresh_buffer [OF rel1 l1 z(3) nb ns])
  obtain s2 where f: "fread fss p n 1 fd s1 = Inr (1, s2)" "bytes_at (phys s2) p (unat n) = bs"
    "changed_only (\<lambda>x. drv_scratch D x \<or> in_region p n x \<or> in_pages (drv_base D s1) x) s1 s2"
    "files_rel D dsk fsp A s2" "table_same D A s1 s2" "kchunks s2 = kchunks s1" "outside_files s1 s2"
    by (rule fread_open [where fss = fss, OF rel1 fss fn bs free]) (rule that; assumption)
  have "phys s2 x = phys s x" if "kheap_stable s x" "\<not> drv_scratch D x" "\<not> in_pages (drv_base D s) x" for x
  proof -
    have "\<not> in_region p n x" using z(6) [OF that(1)] in_region_mono [OF _ z(3)] by blast
    then show ?thesis using changed_only_same [OF f(3), of x] keptD(5) [OF z(1) that(1)] that(2,3) base1 by simp
  qed
  moreover have "kheap_live s2 = insert (p, k) (kheap_live s)" using z(2) f(6) by (simp add: kheap_live_def)
  moreover have "kheap_pages s2 + blocks_for n = kheap_pages s"
    using kzalloc_count [OF R(2) room] f(6) by (simp add: alloc kheap_pages_def)
  ultimately show thesis using that [OF outside_trans [OF kept_outside [OF z(1)] f(7)] _ alloc z(5) f(1,4) table_same_trans [OF same1 f(5)] _ z(4,3) f(2)] by blast
qed

text \<open>The address and the size are stored in the struct of the process.\<close>

lemma load_store:
  assumes rel: "files_rel D dsk fsp A s" and b: "(b, k) \<in> kheap_live s" "4224 \<le> k"
    and m: "m = store32 (store32 (phys s) (b + 4212) p) (b + 4220) n"
  shows "files_rel D dsk fsp A (s\<lparr>phys := m\<rparr>)" and "table_same D A s (s\<lparr>phys := m\<rparr>)" and "kchunks (s\<lparr>phys := m\<rparr>) = kchunks s"
    and "process_ptr m b = p" and "process_size m b = n"
    and "\<not> in_region (b + 4212) 4 x \<Longrightarrow> \<not> in_region (b + 4220) 4 x \<Longrightarrow> m x = phys s x"
    and "in_region (b + 4212) 4 x \<Longrightarrow> in_region b k x" and "in_region (b + 4220) 4 x \<Longrightarrow> in_region b k x"
proof -
  have out: "m y = phys s y" if "\<not> in_region (b + 4212) 4 y" "\<not> in_region (b + 4220) 4 y" for y
    unfolding m using that by (simp add: store32_other)
  have sub: "in_region b k y" if "in_region (b + 4212) 4 y \<or> in_region (b + 4220) 4 y" for y
    using that field_in_struct [of 4212 4224 b y] field_in_struct [of 4220 4224 b y] in_region_mono [OF _ b(2)] by auto
  show "in_region (b + 4212) 4 x \<Longrightarrow> in_region b k x" "in_region (b + 4220) 4 x \<Longrightarrow> in_region b k x"
    "\<not> in_region (b + 4212) 4 x \<Longrightarrow> \<not> in_region (b + 4220) 4 x \<Longrightarrow> m x = phys s x"
    using out sub by blast+
  have k: "k \<noteq> 4096" using b(2) by auto
  have "m y = phys s y" if "\<not> in_region b k y" for y using out sub that by blast
  note w = rel_block_write [OF rel b(1) k this]
  show "files_rel D dsk fsp A (s\<lparr>phys := m\<rparr>)" "table_same D A s (s\<lparr>phys := m\<rparr>)" "kchunks (s\<lparr>phys := m\<rparr>) = kchunks s"
    by (rule w; assumption)+
  show "process_ptr m b = p" "process_size m b = n"
    using load32_store32_apart [OF offsets_apart [of 4220 4212 b]] by (simp_all add: m process_ptr_def process_size_def)
qed

text \<open>Everything between opening and closing.\<close>

lemma load_body:
  assumes rel: "files_rel D dsk fsp A s" and fss: "fss fsp = Some ops" and fn: "open_file A fd = Some (f, 0)"
    and bs: "file_bytes V f 0 (unat (file_size V f)) = Some bs" "file_size V f \<noteq> 0" and room: "kheap_room (file_size V f) s"
    and stat: "off_heap (stat_buffer pf) 8" and proc: "(process, kp) \<in> kheap_live s" "4224 \<le> kp"
  obtains p k s' where "outside_files s s'" and "kheap_pages s' + blocks_for (file_size V f) = kheap_pages s"
    and "load_binary_body pf fss fd process s = Inr (0, s')" and "files_rel D dsk fsp A s'"
    and "table_same D A s s'" and "kheap_live s' = insert (p, k) (kheap_live s)" and "(p, k) \<notin> kheap_live s"
    and "file_size V f \<le> k" and "bytes_at (phys s') p (unat (file_size V f)) = bs"
    and "process_ptr (phys s') process = p" and "process_size (phys s') process = file_size V f"
    and "\<And>x. \<lbrakk> kheap_stable s x; \<not> drv_scratch D x; \<not> in_pages (drv_base D s) x; \<not> in_region (stat_buffer pf) 8 x;
      \<not> in_region (process + 4212) 4 x; \<not> in_region (process + 4220) 4 x \<rbrakk> \<Longrightarrow> phys s' x = phys s x"
proof -
  let ?n = "file_size V f"
  have fd: "fd \<noteq> 0" using fn by (auto simp: open_file_def)
  obtain m where m: "fstat fss fd (stat_buffer pf) s = Inr (0, s\<lparr>phys := m\<rparr>)"
    "\<And>x. \<not> in_region (stat_buffer pf) 8 x \<Longrightarrow> m x = phys s x" "load32 m (stat_buffer pf + 4) = ?n"
    "files_rel D dsk fsp A (s\<lparr>phys := m\<rparr>)" "table_same D A s (s\<lparr>phys := m\<rparr>)" "kchunks (s\<lparr>phys := m\<rparr>) = kchunks s"
    by (rule fstat_open [where fss = fss, OF rel fss fn stat]) (rule that; assumption)
  define s1 where "s1 = s\<lparr>phys := m\<rparr>"
  have live1: "kheap_live s1 = kheap_live s" and room1: "kheap_room ?n s1"
    using m(6) room by (simp_all add: s1_def kheap_live_def kheap_room_def)
  obtain p k s2 s3 where ex: "outside_files s1 s3" "kheap_pages s3 + blocks_for ?n = kheap_pages s1" and l: "kzalloc ?n s1 = (p, s2)" "p \<noteq> 0" "fread fss p ?n 1 fd s2 = Inr (1, s3)" "files_rel D dsk fsp A s3"
    "table_same D A s1 s3" "kheap_live s3 = insert (p, k) (kheap_live s1)" "(p, k) \<notin> kheap_live s1" "?n \<le> k"
    "bytes_at (phys s3) p (unat ?n) = bs"
    "\<And>x. kheap_stable s1 x \<Longrightarrow> \<not> drv_scratch D x \<Longrightarrow> \<not> in_pages (drv_base D s1) x \<Longrightarrow> phys s3 x = phys s1 x"
    by (rule load_read [where fss = fss, OF m(4) [folded s1_def] fss fn bs room1]) (rule that; assumption)
  define m' where "m' = store32 (store32 (phys s3) (process + 4212) p) (process + 4220) ?n"
  have proc3: "(process, kp) \<in> kheap_live s3" using proc(1) l(6) live1 by simp
  note st = load_store [OF l(4) proc3 proc(2) m'_def]
  have pk: "(p, k) \<in> kheap_live s3" "(process, kp) \<noteq> (p, k)" using l(6,7) proc(1) live1 by auto
  note ap = kmalloc_heap.live_apart [OF files_relD(2) [OF l(4)] proc3 pk]
  have "m' (p + of_nat j) = phys s3 (p + of_nat j)" if "j < unat ?n" for j
  proof -
    have "in_region p ?n (p + of_nat j)" using that unat_range_u32 [of ?n] by (subst in_region_of_nat) simp_all
    then have "\<not> in_region process kp (p + of_nat j)" using apart_not_in [OF ap] in_region_mono [OF _ l(8)] by blast
    then show ?thesis using st(6-8) by blast
  qed
  then have bytes: "bytes_at m' p (unat ?n) = bs" using l(9) bytes_at_cong [of "unat ?n" m' p "phys s3"] by simp
  show thesis
  proof (rule that [where s' = "s3\<lparr>phys := m'\<rparr>", OF _ _ _ st(1) _ _ _ l(8)])
    show "outside_files s (s3\<lparr>phys := m'\<rparr>)" using ex(1) by (simp add: s1_def outside_files_def)
    show "kheap_pages (s3\<lparr>phys := m'\<rparr>) + blocks_for ?n = kheap_pages s"
      using ex(2) st(3) m(6) by (simp add: s1_def kheap_pages_def)
    show "load_binary_body pf fss fd process s = Inr (0, s3\<lparr>phys := m'\<rparr>)"
      using fd m(1,3) l(1-3) by (simp add: load_binary_body_def lameos_ok_def s1_def m'_def Let_def)
    show "table_same D A s (s3\<lparr>phys := m'\<rparr>)"
      by (rule table_same_trans [OF m(5) table_same_trans [OF l(5) [unfolded s1_def] st(2)]])
    show "kheap_live (s3\<lparr>phys := m'\<rparr>) = insert (p, k) (kheap_live s)" using st(3) l(6) live1 by (simp add: kheap_live_def)
    show "(p, k) \<notin> kheap_live s" using l(7) live1 by simp
    fix x assume x: "kheap_stable s x" "\<not> drv_scratch D x" "\<not> in_pages (drv_base D s) x" "\<not> in_region (stat_buffer pf) 8 x"
      "\<not> in_region (process + 4212) 4 x" "\<not> in_region (process + 4220) 4 x"
    have "drv_base D s1 = drv_base D s" using m(5) by (simp add: table_same_def s1_def)
    moreover have "kheap_stable s1 x" using x(1) live1 by (simp add: kheap_stable_def)
    ultimately have "phys s3 x = phys s1 x" using l(10) x(2,3) by simp
    then show "phys (s3\<lparr>phys := m'\<rparr>) x = phys s x" using st(6) [OF x(5,6)] m(2) [OF x(4)] by (simp add: s1_def)
  qed (use bytes st(4,5) in simp_all)
qed

text \<open>Closing a file opened since \<open>s0\<close> leaves the blocks of then alone.\<close>

lemma close_new:
  assumes rel: "files_rel D dsk fsp A s" and fss: "fss fsp = Some ops" and fn: "open_file A fd = Some (f, n)"
    and i: "i = nat (sint fd) - 1" and new: "\<forall>a \<in> slot_pages D s (file_descriptors s ! i). \<forall>k. (a, k) \<notin> kheap_live s0"
    and sub: "kheap_live s0 \<subseteq> kheap_live s"
  obtains s' where "outside_files s s'" and "kheap_pages s \<le> kheap_pages s'" and "fclose fss fd s = Inr (0, s')"
    and "files_rel D dsk fsp (A(i := None)) s'"
    and "kheap_live s' = kheap_live s - page_blocks (slot_pages D s (file_descriptors s ! i))" and "kheap_live s0 \<subseteq> kheap_live s'"
    and "\<And>q l x. (q, l) \<in> kheap_live s' \<Longrightarrow> in_region q l x \<Longrightarrow> phys s' x = phys s x"
    and "\<And>x. kheap_stable s0 x \<Longrightarrow> phys s' x = phys s x"
    and "file_descriptors s' = (file_descriptors s)[i := 0]" and "drv_base D s' = drv_base D s"
proof -
  let ?P = "slot_pages D s (file_descriptors s ! i)"
  note R = files_relD [OF rel]
  have "A i \<noteq> None" using fn i by (auto simp: open_file_def split: if_splits)
  note live = slot_pages_live [OF rel this]
  obtain s' where c: "fclose fss fd s = Inr (0, s')" "files_rel D dsk fsp (A(i := None)) s'" "kheap_live s' = kheap_live s - page_blocks ?P"
    "\<And>x. kheap_stable s x \<Longrightarrow> \<not> in_pages ?P x \<Longrightarrow> phys s' x = phys s x" "outside_files s s'"
    "file_descriptors s' = (file_descriptors s)[i := 0]" "drv_base D s' = drv_base D s"
    by (rule fclose_open [where fss = fss, OF rel fss fn i]) (rule that; assumption)
  have sub': "kheap_live s0 \<subseteq> kheap_live s'" using sub new c(3) by auto
  have old: "\<not> in_pages ?P x" if "(q, l) \<in> kheap_live s'" "in_region q l x" for q l x
    by (rule block_not_in_pages [OF R(2) live _ _ that(2)]) (use that(1) c(3) in blast)+
  have "phys s' x = phys s x" if "(q, l) \<in> kheap_live s'" "in_region q l x" for q l x
    using c(4) [OF stable_live [OF R(2) _ that(2)] old [OF that]] that(1) c(3) by blast
  moreover have "phys s' x = phys s x" if "kheap_stable s0 x" for x
  proof (rule c(4) [OF stable_mono [OF sub that]])
    show "\<not> in_pages ?P x" using that old sub' in_pages_stable(2) [OF R(2) live] unfolding kheap_stable_def by blast
  qed
  moreover have "kheap_pages s \<le> kheap_pages s'"
    by (rule kheap_pages_mono [OF files_relD(2) [OF c(2)] R(2)]) (use c(3) in blast)
  ultimately show thesis by (intro that [OF c(5) _ c(1-3) sub' _ _ c(6,7)])
qed

lemma free_slot_None: "free_slot A = Some i \<Longrightarrow> A i = None"
  by (auto simp: free_slot_def find_Some_iff)

lemma loaded_table_same:
  assumes rel: "files_rel D dsk fsp A s"
    and loaded: "file_loaded (\<lambda>x. drv_scratch D x \<or> in_pages (drv_base D s) x \<or> in_region (stat_buffer pf) 8 x) process n bs s p k s'"
    and stat: "off_heap (stat_buffer pf) 8" and proc: "(process, kp) \<in> kheap_live s" "4224 \<le> kp"
    and same: "file_descriptors s' = file_descriptors s" "drv_base D s' = drv_base D s"
  shows "table_same D A s s'"
proof -
  note R = files_relD [OF rel]
  have "slot_pages D s' (file_descriptors s ! j) = slot_pages D s (file_descriptors s ! j)" if j: "A j \<noteq> None" for j
  proof -
    let ?B = "slot_pages D s (file_descriptors s ! j)"
    note live = slot_pages_live [OF rel j]
    obtain f n where fn: "A j = Some (f, n)" using j by auto
    have "pages_same ?B s s'"
    proof (rule pages_sameI)
      show "page_blocks ?B \<subseteq> kheap_live s'" using live loaded by (auto simp: file_loaded_def)
      fix x assume x: "in_pages ?B x"
      have "(process, kp) \<notin> page_blocks ?B" using proc(2) by auto
      note nb = block_not_in_pages [OF R(2) live proc(1) this]
      have "\<not> in_region (process + g) 4 x" if "unat g + 4 \<le> 4224" for g
        using nb x in_region_mono [OF _ proc(2)] field_in_struct [of g 4224 process x] that by auto
      moreover have "\<not> drv_scratch D x" "\<not> in_region (stat_buffer pf) 8 x"
        using in_pages_stable(2) [OF R(2) live x] scratch_off off_heap_not_in [OF stat] by blast+
      moreover have "\<not> in_pages (drv_base D s) x" by (rule pages_apart [OF R(2) live base_live [OF R(3)] R(9) [OF j] x])
      ultimately show "phys s' x = phys s x"
        using loaded in_pages_stable(1) [OF R(2) live x] by (simp add: file_loaded_def)
    qed
    then show ?thesis by (rule slot_same(2) [OF R(8) [OF fn]])
  qed
  then show ?thesis using same by (simp add: table_same_def)
qed

text \<open>The whole call. What was in the heap before is still there, and the open files are the same.\<close>

lemma load_binary:
  assumes rel: "files_rel D dsk fsp A s" and io: "disk_addr io = dsk" "dsk \<noteq> 0" and fss: "fss fsp = Some ops" "fsp \<noteq> 0"
    and ok: "call_ok (drv_need D) (drv_scratch D) (Open_File filename (mode_literal pf) t FILE_MODE_READ) s"
    and src: "path_names t \<noteq> []" "find_file V (path_names t) = Some f" and slot: "free_slot A = Some i" "i < 511"
    and bs: "file_bytes V f 0 (unat (file_size V f)) = Some bs" "file_size V f \<noteq> 0"
    and room: "unat (file_size V f) \<le> 4294963200"
      "free_run ((2 * length (path_names t) + 2 + drv_need D + 1) * blocks_for (file_size V f)) s"
    and stat: "off_heap (stat_buffer pf) 8" and proc: "(process, kp) \<in> kheap_live s" "4224 \<le> kp"
  shows "\<exists>p k s'. process_load_binary io pf fss filename process s = Inr (0, s') \<and> files_rel D dsk fsp A s' \<and> table_same D A s s' \<and> outside_files s s' \<and>
    kheap_pages s \<le> kheap_pages s' + (2 * length (path_names t) + 2 + drv_need D + blocks_for (file_size V f)) \<and>
    file_loaded (\<lambda>x. drv_scratch D x \<or> in_pages (drv_base D s) x \<or> in_region (stat_buffer pf) 8 x) process (file_size V f) bs s p k s'"
proof -
  obtain s1 where o: "fopen io fss filename (mode_literal pf) s = Inr (of_nat (i + 1), s1)" "files_rel D dsk fsp (A(i \<mapsto> (f, 0))) s1"
    "kheap_live s \<subseteq> kheap_live s1" "\<And>x. kheap_stable s x \<Longrightarrow> \<not> drv_scratch D x \<Longrightarrow> phys s1 x = phys s x"
    "\<And>a k. a \<in> slot_pages D s1 (file_descriptors s1 ! i) \<Longrightarrow> (a, k) \<notin> kheap_live s"
    "drv_base D s1 = drv_base D s" "outside_files s s1" "kheap_pages s \<le> kheap_pages s1 + (2 * length (path_names t) + 2 + drv_need D)"
    "file_descriptors s1 = (file_descriptors s)[i := file_descriptors s1 ! i]"
    by (rule open_found [where fss = fss, OF rel io fss ok src slot(1)]) (rule that; assumption)
  let ?fd = "of_nat (i + 1) :: i32" and ?A = "A(i \<mapsto> (f, 0))" and ?P = "slot_pages D s1 (file_descriptors s1 ! i)"
  note fd = new_number [OF slot(2)]
  have A: "?A(i := None) = A" using free_slot_None [OF slot(1)] by auto
  have n: "0 < file_size V f" using bs(2) by (simp add: word_neq_0_conv)
  note inv = files_relD(2) [OF rel] files_relD(2) [OF o(2)]
  note room1 = free_run_room [OF inv(2) n room(1) free_run_survives [OF inv o(3) o(8) room(2)]]
  have proc1: "(process, kp) \<in> kheap_live s1" using proc(1) o(3) by blast
  obtain p k s2 where eb: "outside_files s1 s2" "kheap_pages s2 + blocks_for (file_size V f) = kheap_pages s1" and b: "load_binary_body pf fss ?fd process s1 = Inr (0, s2)" "files_rel D dsk fsp ?A s2" "table_same D ?A s1 s2"
    "kheap_live s2 = insert (p, k) (kheap_live s1)" "(p, k) \<notin> kheap_live s1" "file_size V f \<le> k"
    "bytes_at (phys s2) p (unat (file_size V f)) = bs" "process_ptr (phys s2) process = p" "process_size (phys s2) process = file_size V f"
    "\<And>x. \<lbrakk> kheap_stable s1 x; \<not> drv_scratch D x; \<not> in_pages (drv_base D s1) x; \<not> in_region (stat_buffer pf) 8 x;
      \<not> in_region (process + 4212) 4 x; \<not> in_region (process + 4220) 4 x \<rbrakk> \<Longrightarrow> phys s2 x = phys s1 x"
    by (rule load_body [where fss = fss, OF o(2) fss(1) fd(3) bs room1 stat proc1 proc(2)]) (rule that; assumption)
  have P: "slot_pages D s2 (file_descriptors s2 ! i) = ?P" using b(3) by (simp add: table_same_def)
  have new: "\<forall>a \<in> slot_pages D s2 (file_descriptors s2 ! i). \<forall>k. (a, k) \<notin> kheap_live s" using o(5) P by simp
  have sub: "kheap_live s \<subseteq> kheap_live s2" using o(3) b(4) by blast
  obtain s3 where ec: "outside_files s2 s3" "kheap_pages s2 \<le> kheap_pages s3" and c: "fclose fss ?fd s2 = Inr (0, s3)" "files_rel D dsk fsp (?A(i := None)) s3" "kheap_live s3 = kheap_live s2 - page_blocks ?P"
    "kheap_live s \<subseteq> kheap_live s3" "\<And>q l x. (q, l) \<in> kheap_live s3 \<Longrightarrow> in_region q l x \<Longrightarrow> phys s3 x = phys s2 x"
    "\<And>x. kheap_stable s x \<Longrightarrow> phys s3 x = phys s2 x"
    "file_descriptors s3 = (file_descriptors s2)[i := 0]" "drv_base D s3 = drv_base D s2"
    by (rule close_new [where fss = fss, OF b(2) fss(1) fd(3) fd(2) [symmetric] new sub, unfolded P]) (rule that; assumption)
  have pk: "(p, k) \<in> kheap_live s3" using b(4,5) c(3) slot_pages_live [OF o(2), of i] by auto
  have field: "load32 (phys s3) (process + g) = load32 (phys s2) (process + g)" if "unat g + 4 \<le> 4224" for g
  proof (rule load32_struct [of _ 4224])
    show "phys s3 x = phys s2 x" if "in_region process 4224 x" for x
      by (rule c(5) [OF _ in_region_mono [OF that proc(2)]]) (use proc(1) c(4) in blast)
  qed (use that in simp)
  have "bytes_at (phys s3) p (unat (file_size V f)) = bytes_at (phys s2) p (unat (file_size V f))"
  proof (rule bytes_at_cong, rule c(5) [OF pk])
    show "in_region p k (p + of_nat j)" if "j < unat (file_size V f)" for j
      using that b(6) unat_range_u32 [of "file_size V f"] by (subst in_region_of_nat) (simp_all add: word_le_nat_alt)
  qed
  moreover have "phys s3 x = phys s x" if "kheap_stable s x" "\<not> drv_scratch D x" "\<not> in_pages (drv_base D s) x"
    "\<not> in_region (stat_buffer pf) 8 x" "\<not> in_region (process + 4212) 4 x" "\<not> in_region (process + 4220) 4 x" for x
    using c(6) [OF that(1)] b(10) [OF stable_mono [OF o(3) that(1)] that(2) _ that(4-6)] o(4,6) that by simp
  moreover have "(p, k) \<notin> kheap_live s" using b(5) o(3) by blast
  ultimately have loaded: "file_loaded (\<lambda>x. drv_scratch D x \<or> in_pages (drv_base D s) x \<or> in_region (stat_buffer pf) 8 x)
      process (file_size V f) bs s p k s3"
    using pk c(4) b(6-9) field [of 4212] field [of 4220] by (simp add: file_loaded_def process_ptr_def process_size_def)
  have "file_descriptors s ! i = 0" by (rule files_relD(6) [OF rel free_slot_None [OF slot(1)]]) (use slot(2) in simp)
  then have zero: "(file_descriptors s)[i := 0] = file_descriptors s" by (metis list_update_id)
  have e: "file_descriptors s2 = file_descriptors s1" using b(3) by (simp add: table_same_def)
  have "file_descriptors s3 = file_descriptors s" unfolding c(7) e by (subst o(9)) (simp add: zero)
  moreover have "drv_base D s3 = drv_base D s" using c(8) b(3) o(6) by (simp add: table_same_def)
  ultimately have "table_same D A s s3" by (rule loaded_table_same [OF rel loaded stat proc])
  moreover note loaded
  moreover have "process_load_binary io pf fss filename process s = Inr (0, s3)"
    using o(1) b(1) c(1) by (simp add: process_load_binary_def)
  moreover have "outside_files s s3" by (rule outside_trans [OF o(7) outside_trans [OF eb(1) ec(1)]])
  moreover have "kheap_pages s \<le> kheap_pages s3 + (2 * length (path_names t) + 2 + drv_need D + blocks_for (file_size V f))"
    using o(8) eb(2) ec(2) by simp
  ultimately show ?thesis using c(2) A by auto
qed

text \<open>A path that names nothing.\<close>

lemma load_missing:
  assumes rel: "files_rel D dsk fsp A s" and io: "disk_addr io = dsk" "dsk \<noteq> 0" and fss: "fss fsp = Some ops" "fsp \<noteq> 0"
    and ok: "call_ok (drv_need D) (drv_scratch D) (Open_File filename (mode_literal pf) t FILE_MODE_READ) s"
    and none: "path_names t = [] \<or> find_file V (path_names t) = None \<or> free_slot A = None"
  shows "\<exists>s'. process_load_binary io pf fss filename process s = Inr (- eio, s') \<and> files_rel D dsk fsp A s'"
proof -
  have "spec_call V (Open_File filename (mode_literal pf) t FILE_MODE_READ) A = Some (Code 0, A)"
    using none by (auto split: option.splits)
  from open_sim [where fss = fss, OF rel io fss ok this] obtain s' where
    s': "exec_call io fss (Open_File filename (mode_literal pf) t FILE_MODE_READ) s = Inr (Code 0, s')" "files_rel D dsk fsp A s'" by blast
  then have "fopen io fss filename (mode_literal pf) s = Inr (0, s')"
    by (cases "fopen io fss filename (mode_literal pf) s") (auto split: prod.splits)
  then have "process_load_binary io pf fss filename process s = Inr (- eio, s')"
    by (simp add: process_load_binary_def load_binary_body_def fclose_def)
  with s'(2) show ?thesis by blast
qed

end

interpretation fat16_loader:
  program_loader "fat16_fs (sys_io F) (sys_layout F)" "disk_addr (sys_io F)" "fat16_driver F" "fat16_files F"
  for F :: "'d fat_system"
  by (intro program_loader.intro) (rule fat16.file_driver_axioms)

section \<open>A process on the sample disk\<close>

definition loader_kernel :: "sample_device kernel" where
  "loader_kernel = boot_kernel\<lparr>phys := phys user_kernel\<rparr>"

text \<open>Two words of stack, the mode at 0x600, and two words that are not read here.\<close>

definition sample_frame :: process_frame where
  "sample_frame = \<lparr>stat_buffer = 0x620, mode_literal = 0x600, after_processes = 0, uninitialised = 0\<rparr>"

abbreviation sample_boot :: "halt + sample_device kernel" where
  "sample_boot \<equiv> and_then (fs_init sample_layout (snd (kzalloc 4224 (kheap_init loader_kernel))))
     (disk_search_and_init (image_ports volume_image) (kernel_filesystems (image_ports volume_image) sample_layout))"

abbreviation sample_process :: ptr where "sample_process \<equiv> fst (kzalloc 4224 (kheap_init loader_kernel))"

lemma booted_loader:
  obtains s k where "sample_boot = Inr s" and "fat16_table sample_system (\<lambda>_. None) s" and "(sample_process, k) \<in> kheap_live s"
    and "4224 \<le> k" and "call_ok 3 (fat16_scratch sample_layout) (Open_File 0x510 0x600 user_path FILE_MODE_READ) s"
    and "free_run 1312 s" and "files.more s = files.more loader_kernel"
    and "\<And>x. x < 0x700 \<Longrightarrow> kheap_stable s x \<and> \<not> fat16_scratch sample_layout x"
proof -
  have fields: "sys_io sample_system = image_ports volume_image" "sys_layout sample_system = sample_layout"
    by (simp_all add: sample_system_def)
  let ?s0 = "kheap_init loader_kernel" and ?s1 = "snd (kzalloc 4224 (kheap_init loader_kernel))"
  note h = kheap_init_state [of loader_kernel]
  have inv: "kheap_inv ?s0" using h by simp_all
  have n: "(0 :: u32) < 4224" "unat (4224 :: u32) \<le> 4294963200" "blocks_for 4224 = 2" by (simp_all add: blocks_for_def)
  have "free_run (blocks_for 4224) ?s0" unfolding n(3) by (rule free_run_less [OF free_run_init]) simp
  then have room: "kheap_room 4224 ?s0" by (rule free_run_room [OF inv n(1,2)])
  have alloc: "kzalloc 4224 ?s0 = (sample_process, ?s1)" by simp
  obtain k where z: "kept (\<lambda>_. False) ?s0 ?s1" "kheap_live ?s1 = insert (sample_process, k) (kheap_live ?s0)" "4224 \<le> k"
    by (rule kept_kzalloc [OF inv room alloc]) (rule that; assumption)
  have pages: "kheap_pages ?s1 = 25598" using kzalloc_count [OF inv room] h by (simp add: blocks_for_def)
  have ne: "fat16_fs_addr (sys_layout sample_system) \<noteq> 0" "6 \<le> kheap_pages ?s1" by (simp_all add: sample_ids(2) pages)
  obtain s where b0: "and_then (fs_init (sys_layout sample_system) ?s1)
      (disk_search_and_init (sys_io sample_system) (kernel_filesystems (sys_io sample_system) (sys_layout sample_system))) = Inr s"
    "fat16_table sample_system (\<lambda>_. None) s" "kheap_pages s + 5 = kheap_pages ?s1" "kheap_live ?s1 \<subseteq> kheap_live s"
    "\<And>x. \<lbrakk> kheap_stable ?s1 x; \<not> local_byte (sys_layout sample_system) x;
      \<not> in_region (fat16_fs_addr (sys_layout sample_system) + 24) 6 x \<rbrakk> \<Longrightarrow> phys s x = phys ?s1 x"
    "files.more s = files.more ?s1"
    by (rule boot_from [OF sample_system_ok sample_ids(1) ne(1) sample_ids(3) keptD(1) [OF z(1)] ne(2)]) (rule that; assumption)
  note b = b0(1) [unfolded fields] b0(2-4) b0(5) [unfolded fields sample_ids(2) [unfolded fields]]
  have "phys s x = phys user_kernel x" if "x < 0x700" for x
  proof -
    note low = low_memory [OF that]
    have st: "kheap_stable ?s0 x" "kheap_stable ?s1 x" using low(1,2) by (simp_all add: kheap_stable_def)
    have "phys s x = phys ?s1 x" by (rule b(5) [OF st(2) low(4,5)])
    also have "\<dots> = phys ?s0 x" by (rule keptD(5) [OF z(1) st(1)]) simp
    also have "\<dots> = phys user_kernel x" using h low(2) by (simp add: loader_kernel_def)
    finally show ?thesis .
  qed
  moreover have "8 \<le> kheap_pages s" using b(3) pages by simp
  ultimately have "call_ok 3 (fat16_scratch sample_layout) (Open_File 0x510 0x600 user_path FILE_MODE_READ) s" by (rule user_call_ok)
  moreover have "free_run 1312 s"
    by (rule free_run_survives [OF inv files_relD(2) [OF b(2)], of 7])
       (use h b(3) pages free_run_less [OF free_run_init, of "(7 + 1) * 1312"] in simp_all)
  moreover have "files.more (kheap_init loader_kernel) = files.more loader_kernel"
    by (simp add: kheap_init_eq)
  then have "files.more s = files.more loader_kernel"
    using b0(6) keptD(3) [OF z(1)] by (auto simp: changed_only_def)
  moreover have "kheap_stable s x \<and> \<not> fat16_scratch sample_layout x" if "x < 0x700" for x
    using low_memory(1-3) [OF that] by (simp add: kheap_stable_def)
  ultimately show thesis using b(1,2,4) z(2,3) by (intro that [of s k]) auto
qed

section \<open>Properties\<close>

text \<open>C9. On a mounted FAT16 disk, with any files open and a number left, \<open>process_load_binary\<close> returns 0 for a file of
  the root directory that fits in its first cluster (up to 64 KiB on the disk of LameOS), if eight times the blocks of the file are free in a row (the call takes up to
  seven single blocks before it needs the run): the struct of the process gets the address of a new block and the size of the
  file, the block holds the bytes of the file as the FAT16 format places them, the table of open files is what it
  was, every block of the heap is still there, and nothing else that is stable has changed but the
  driver's own data and the buffer for the size.\<close>

theorem process_load_binary_loads:
  assumes "fat16_table F A s" and "disk_addr (sys_io F) \<noteq> 0" and "fat16_fs_addr (sys_layout F) \<noteq> 0"
    and "call_ok 3 (fat16_scratch (sys_layout F)) (Open_File filename (mode_literal pf) t FILE_MODE_READ) s"
    and "root_find F (path_names t) = Some f" and "one_cluster F f"
    and "free_slot A = Some i" and "i < 511"
    and "free_run (8 * blocks_for (entry_size f)) s"
    and "off_heap (stat_buffer pf) 8" and "(process, kp) \<in> kheap_live s" and "4224 \<le> kp"
  shows "\<exists>p k s'. process_load_binary (sys_io F) pf (kernel_filesystems (sys_io F) (sys_layout F)) filename process s = Inr (0, s') \<and>
    fat16_table F A s' \<and> table_same (fat16_driver F) A s s' \<and> outside_files s s' \<and> kheap_pages s \<le> kheap_pages s' + (7 + blocks_for (entry_size f)) \<and>
    file_loaded (\<lambda>x. fat16_scratch (sys_layout F) x \<or> in_pages (fat16_base s) x \<or> in_region (stat_buffer pf) 8 x)
      process (entry_size f) (entry_content F f) s p k s'"
proof -
  note data = one_cluster_data [OF assms(6)]
  have fss: "kernel_filesystems (sys_io F) (sys_layout F) (fat16_fs_addr (sys_layout F)) = Some (fat16_fs (sys_io F) (sys_layout F))"
    by (simp add: kernel_filesystems_def)
  have ne: "path_names t \<noteq> []" "entry_size f \<noteq> 0" "unat (entry_size f) \<le> 4294963200" and len: "length (path_names t) = 1"
    using assms(5) data by (auto simp: root_find_def entry_data_def split: if_splits list.splits)
  have run: "free_run ((2 * length (path_names t) + 2 + 3 + 1) * blocks_for (entry_size f)) s" using assms(9) by (simp add: len)
  show ?thesis
    using fat16_loader.load_binary [where F = F and fss = "kernel_filesystems (sys_io F) (sys_layout F)" and fsp = "fat16_fs_addr (sys_layout F)",
      unfolded fat16_driver_simps fat16_files_simps,
      OF assms(1) refl assms(2) fss assms(3,4) ne(1) assms(5,7,8) data ne(2,3) run assms(10-12)]
    by (simp add: len)
qed

theorem process_load_binary_loads_witness:
  "\<exists>s s'. sample_boot = Inr s \<and> process_load_binary (image_ports volume_image) sample_frame
      (kernel_filesystems (image_ports volume_image) sample_layout) 0x510 sample_process s = Inr (0, s') \<and>
    process_size (phys s') sample_process = 2 \<and> bytes_at (phys s') (process_ptr (phys s') sample_process) 2 = [0x48, 0x69]"
proof -
  have fields: "sys_io sample_system = image_ports volume_image" "sys_layout sample_system = sample_layout"
    by (simp_all add: sample_system_def)
  let ?fss = "kernel_filesystems (sys_io sample_system) (sys_layout sample_system)"
  let ?open = "Open_File 0x510 (mode_literal sample_frame) user_path FILE_MODE_READ"
  obtain s k where s: "sample_boot = Inr s" "fat16_table sample_system (\<lambda>_. None) s" "(sample_process, k) \<in> kheap_live s" "4224 \<le> k"
    "call_ok 3 (fat16_scratch sample_layout) (Open_File 0x510 0x600 user_path FILE_MODE_READ) s" "free_run 1312 s"
    by (rule booted_loader) (rule that; assumption)
  have ok: "call_ok 3 (fat16_scratch (sys_layout sample_system)) ?open s"
    using s(5) unfolding fields by (simp add: sample_frame_def del: call_ok.simps)
  have ne: "fat16_fs_addr (sys_layout sample_system) \<noteq> 0" by (simp add: sample_ids(2))
  have run: "free_run (8 * blocks_for (entry_size (disk_entry volume_image 3 0))) s" using free_run_less [OF s(6), of 8] by (simp add: sample_reads blocks_for_def)
  have "one_cluster sample_system (disk_entry volume_image 3 0)" by (rule sample_content)
  from process_load_binary_loads [OF s(2) sample_ids(1) ne ok sample_reads(1) this empty_slot _ run _ s(3,4)]
  obtain p k s' where "process_load_binary (sys_io sample_system) sample_frame ?fss 0x510 sample_process s = Inr (0, s')"
    "file_loaded (\<lambda>x. fat16_scratch (sys_layout sample_system) x \<or> in_pages (fat16_base s) x \<or> in_region (stat_buffer sample_frame) 8 x)
      sample_process (entry_size (disk_entry volume_image 3 0)) [0x48, 0x69] s p k s'"
    by (auto simp: off_heap_low sample_frame_def sample_content(2))
  then show ?thesis using s(1) unfolding fields by (auto simp: file_loaded_def sample_reads)
qed

text \<open>C10. A program that cannot be opened - its path is malformed or names no file, or no number is left - is
  refused: \<open>process_load_binary\<close> returns \<open>-EIO\<close>, after closing number 0, and the table of open files is
  what it was.\<close>

theorem process_load_binary_refused:
  assumes "fat16_table F A s" and "disk_addr (sys_io F) \<noteq> 0" and "fat16_fs_addr (sys_layout F) \<noteq> 0"
    and "call_ok 3 (fat16_scratch (sys_layout F)) (Open_File filename (mode_literal pf) t FILE_MODE_READ) s"
    and "path_names t = [] \<or> root_find F (path_names t) = None \<or> free_slot A = None"
  shows "\<exists>s'. process_load_binary (sys_io F) pf (kernel_filesystems (sys_io F) (sys_layout F)) filename process s = Inr (- eio, s') \<and>
    fat16_table F A s'"
proof -
  have fss: "kernel_filesystems (sys_io F) (sys_layout F) (fat16_fs_addr (sys_layout F)) = Some (fat16_fs (sys_io F) (sys_layout F))"
    by (simp add: kernel_filesystems_def)
  show ?thesis
    by (rule fat16_loader.load_missing [where F = F and fss = "kernel_filesystems (sys_io F) (sys_layout F)" and fsp = "fat16_fs_addr (sys_layout F)", unfolded fat16_driver_simps fat16_files_simps,
      OF assms(1) refl assms(2) fss assms(3-5)])
qed

theorem process_load_binary_refused_witness:
  "\<exists>s s'. sample_boot = Inr s \<and> process_load_binary (image_ports volume_image) sample_frame
      (kernel_filesystems (image_ports volume_image) sample_layout) 0x511 sample_process s = Inr (- eio, s')"
proof -
  have fields: "sys_io sample_system = image_ports volume_image" "sys_layout sample_system = sample_layout"
    by (simp_all add: sample_system_def)
  obtain s k where s: "sample_boot = Inr s" "fat16_table sample_system (\<lambda>_. None) s"
    "call_ok 3 (fat16_scratch sample_layout) (Open_File 0x510 0x600 user_path FILE_MODE_READ) s"
    by (rule booted_loader) (rule that; assumption)
  have t: "user_path = 0x30 # tl user_path" "length (tl user_path) = 11" "path_names (tl user_path) = []"
    "path_parts (drop 3 user_path) = [blank_bin]" "length (path_parts (drop 3 (tl user_path))) = 1"
    by (simp_all add: path_names_def path_valid_def) (simp_all add: user_path_def blank_bin_def isdigit_def word_sle_eq path_parts.simps Let_def)
  have "kheap_stable s (0x511 + of_nat j)" if "j \<le> 11" for j
    using s(3) that t(1,2) by (auto dest!: spec [of _ "Suc j"])
  moreover have "cstr_at (phys s) 0x510 (0x30 # tl user_path)" using s(3) t(1) by simp
  then have "cstr_at (phys s) 0x511 (tl user_path)" by simp
  ultimately have ok: "call_ok 3 (fat16_scratch (sys_layout sample_system))
      (Open_File 0x511 (mode_literal sample_frame) (tl user_path) FILE_MODE_READ) s"
    using s(3) t by (simp add: sample_frame_def)
  have ne: "fat16_fs_addr (sys_layout sample_system) \<noteq> 0" by (simp add: sample_ids(2))
  from process_load_binary_refused [OF s(2) sample_ids(1) ne ok disjI1, OF t(3)] s(1) show ?thesis unfolding fields by blast
qed

end
