(* ===== verification/ProcessStart.thy ===== *)
theory ProcessStart
  imports ProcessLoad TaskList
begin

text \<open>
  \<open>process_load\<close> of \<open>src/task/process.c\<close> from the first step to the last: the struct of the process and its stack on
  the heap, the program from the disk, a task with its own address space, and the pages a program sees.
\<close>

section \<open>The struct of the process\<close>

definition filled :: "ptr \<Rightarrow> ptr \<Rightarrow> ptr \<Rightarrow> u16 \<Rightarrow> mem \<Rightarrow> mem" where
  "filled process filename stack nr m =
     store16 (store32 (strncpy (process_filename process) filename max_path m) (process + 4216) stack) process nr"

lemma in_substruct:
  assumes "unat f + unat k \<le> unat n" and "in_region (p + f) k x"
  shows "in_region p n x"
proof -
  define d where "d = x - (p + f)"
  have d: "unat d < unat k" and x: "x - p = f + d" using assms(2) by (simp_all add: in_region_def word_less_nat_alt d_def)
  have "unat f + unat d < 2 ^ 32" using assms(1) d unat_range_u32 [of n] by linarith
  then have "unat (x - p) = unat f + unat d" by (simp add: x unat_word_ariths)
  then show ?thesis using assms(1) d by (simp add: in_region_def word_less_nat_alt)
qed

lemma cstr_from_bytes: "(\<And>j. j \<le> length u \<Longrightarrow> m (p + of_nat j) = (u @ [0]) ! j) \<Longrightarrow> 0 \<notin> set u \<Longrightarrow> cstr_at m p u"
  unfolding cstr_at_iff by (auto simp: nth_append in_set_conv_nth)

lemma filled_struct:
  assumes name: "cstr_at m filename t" and len: "length t < 2 ^ 31"
    and away: "\<And>j. j \<le> length t \<Longrightarrow> \<not> in_region process 4224 (filename + of_nat j)"
  shows "\<not> in_region process 110 x \<Longrightarrow> \<not> in_region (process + 4216) 4 x \<Longrightarrow> filled process filename stack nr m x = m x"
    and "process_stack (filled process filename stack nr m) process = stack"
    and "process_id (filled process filename stack nr m) process = nr"
    and "process_ptr (filled process filename stack nr m) process = process_ptr m process"
    and "process_size (filled process filename stack nr m) process = process_size m process"
    and "cstr_at (filled process filename stack nr m) (process_filename process) (take 107 t)"
proof -
  define k where "k = min 107 (length t)"
  define m1 where "m1 = put_bytes (process + 2) (take k t @ [0]) m"
  have lk: "length (take k t @ [0]) = Suc k" "Suc k \<le> 108" by (simp_all add: k_def)
  have kn: "unat (of_nat (Suc k) :: u32) = Suc k" by (rule unat_of_nat_u32) (use lk(2) in simp)
  have sub: "in_region process 110 x" if "in_region (process + 2) (of_nat (Suc k)) x" for x
    by (rule in_substruct [OF _ that]) (use kn lk(2) in simp)
  have sub': "in_region process 4224 x" if "in_region process 110 x" for x by (rule in_region_mono [OF that]) simp
  have out1: "m1 x = m x" if "\<not> in_region process 110 x" for x
    unfolding m1_def by (rule put_bytes_out) (use lk sub that in auto)
  have "apart (process + 2) (of_nat (Suc k)) filename (of_nat (Suc (length t)))"
    unfolding apart_iff
  proof
    show "\<not> in_region (process + 2) (of_nat (Suc k)) filename" using away [of 0] sub sub' by auto
    show "\<not> in_region filename (of_nat (Suc (length t))) (process + 2)"
    proof
      assume a: "in_region filename (of_nat (Suc (length t))) (process + 2)"
      define j where "j = unat (process + 2 - filename)"
      have "unat (of_nat (Suc (length t)) :: u32) = Suc (length t)" by (rule unat_of_nat_u32) (use len in simp)
      then have "j \<le> length t" using a unfolding in_region_def word_less_nat_alt j_def by simp
      moreover have "filename + of_nat j = process + 2" by (simp add: j_def)
      moreover have "in_region process 4224 (process + 2)" by (simp add: in_region_def)
      ultimately show False using away [of j] by simp
    qed
  qed
  moreover have "k = min (nat (sint (max_path - 1))) (length t)" by (simp add: max_path_def k_def)
  ultimately have copy: "strncpy (process_filename process) filename max_path m = m1"
    using strncpy_cstr [OF name len] by (simp add: m1_def process_filename_def)
  define m2 where "m2 = store32 m1 (process + 4216) stack"
  have f: "filled process filename stack nr m = store16 m2 process nr" by (simp add: filled_def copy m2_def)
  have w: "\<not> in_region process 110 x" if "in_region (process + g) 4 x" "110 \<le> unat g" "unat g \<le> 4220" for g x
  proof -
    define d where "d = x - (process + g)"
    have d: "unat d < 4" and x: "x - process = g + d" using that(1) by (simp_all add: in_region_def word_less_nat_alt d_def)
    then have "unat (x - process) = unat g + unat d" using that(3) by (simp add: unat_word_ariths)
    then show ?thesis using that(2) by (simp add: in_region_def word_less_nat_alt)
  qed
  have small: "in_region process 110 x" if "in_region process 2 x" for x by (rule in_region_mono [OF that]) simp
  have last: "load32 (store16 m2 process nr) (process + g) = load32 m2 (process + g)" if "110 \<le> unat g" "unat g \<le> 4220" for g
    by (rule load32_cong, rule store16_other) (use w [OF _ that] small in blast)
  show "filled process filename stack nr m x = m x" if "\<not> in_region process 110 x" "\<not> in_region (process + 4216) 4 x"
  proof -
    have "\<not> in_region process 2 x" using small that(1) by blast
    then show ?thesis using that by (simp add: f store16_other m2_def store32_other out1)
  qed
  show "process_stack (filled process filename stack nr m) process = stack"
    unfolding f process_stack_def using last [of 4216] by (simp add: m2_def)
  show "process_id (filled process filename stack nr m) process = nr" unfolding f process_id_def by simp
  have ends: "load32 (filled process filename stack nr m) (process + g) = load32 m (process + g)" if "g = 4212 \<or> g = 4220" for g
  proof -
    have g: "110 \<le> unat g" "unat g \<le> 4220" "apart (process + 4216) 4 (process + g) 4" using that by (auto simp: apart_def)
    have "load32 m1 (process + g) = load32 m (process + g)" by (rule load32_cong, rule out1) (rule w [OF _ g(1,2)])
    then show ?thesis using last [OF g(1,2)] load32_store32_apart [OF g(3)] by (simp add: f m2_def)
  qed
  show "process_ptr (filled process filename stack nr m) process = process_ptr m process"
    "process_size (filled process filename stack nr m) process = process_size m process"
    using ends [of 4212] ends [of 4220] by (simp_all add: process_ptr_def process_size_def)
  have ks: "take k t = take 107 t" "length (take 107 t) = k" by (simp_all add: k_def min_def)
  have "filled process filename stack nr m (process + 2 + of_nat j) = (take k t @ [0]) ! j" if j: "j \<le> k" for j
  proof -
    have u: "unat (2 + of_nat j :: u32) = 2 + j" "unat (of_nat j :: u32) = j" "j \<le> 107" using j lk(2) by (simp_all add: unat_word_ariths)
    have "\<not> in_region process 2 (process + 2 + of_nat j)"
      using u(1) by (simp add: in_region_def word_less_nat_alt add.assoc)
    moreover have "\<not> in_region (process + 4216) 4 (process + 2 + of_nat j)"
    proof
      assume "in_region (process + 4216) 4 (process + 2 + of_nat j)"
      from w [OF this] have "\<not> in_region process 110 (process + 2 + of_nat j)" by simp
      then show False using u(1,3) by (simp add: in_region_def word_less_nat_alt add.assoc)
    qed
    moreover have "m1 (process + 2 + of_nat j) = (take k t @ [0]) ! j"
      unfolding m1_def by (rule put_bytes_nth) (use lk j in simp_all)
    ultimately show ?thesis by (simp add: f store16_other m2_def store32_other)
  qed
  from this [unfolded ks(1)] show "cstr_at (filled process filename stack nr m) (process_filename process) (take 107 t)"
    by (intro cstr_from_bytes) (use cstr_at_no_nul [OF name] in \<open>auto simp: process_filename_def k_def dest: in_set_takeD\<close>)
qed

section \<open>The address space of the process\<close>

lemma map_new_process:
  assumes live: "task_live s t" and ident: "\<And>va. translate (task_space (phys s) t) (phys s) va = Some va"
    and P: "(process, kp) \<in> kheap_live s" "4224 \<le> kp"
    and prog: "(process_ptr (phys s) process, k) \<in> kheap_live s" "unat (process_size (phys s) process) < 2 ^ 31"
    and stack: "(process_stack (phys s) process, ks) \<in> kheap_live s"
  defines "m \<equiv> store32 (phys s) (process + 112) t" and "pages \<equiv> space_pages (phys s) (task_page_directory (phys s) t)"
  obtains m' where "process_map_memory process m = (0, m')" and "process_task m' process = t" and "task_space m' t = task_space (phys s) t"
    and "\<And>x. \<not> in_region (process + 112) 4 x \<Longrightarrow> (\<And>q. q \<in> pages \<Longrightarrow> \<not> in_region q 4096 x) \<Longrightarrow> m' x = phys s x"
    and "\<And>va. translate (task_space (phys s) t) m' va =
      (if 0x3FB \<le> unat va div 4096 \<and> unat va div 4096 < 0x3FF then Some (process_stack (phys s) process + (va - 0x3FB000))
       else if 0x400 \<le> unat va div 4096 \<and> unat va div 4096 < 0x400 + process_pages (phys s) process
       then Some (process_ptr (phys s) process + (va - 0x400000)) else Some va)"
proof -
  have inv: "kheap_inv s" and tl: "(t, 4096) \<in> kheap_live s" and sl: "space_live s (task_page_directory (phys s) t)"
    and tn: "t \<notin> pages" using live by (simp_all add: task_live_def pages_def)
  let ?c = "task_page_directory (phys s) t"
  have pl: "(q, 4096) \<in> kheap_live s" if "q \<in> pages" for q using sl that by (simp add: space_live_def pages_def)
  have far: "\<not> in_region q 4096 x" if "in_region process 4224 x" "(q, 4096) \<in> kheap_live s" for q x
  proof -
    have "(q, 4096) \<noteq> (process, kp)" using P(2) by auto
    from apart_not_in [OF kmalloc_heap.live_apart [OF inv that(2) P(1) this] in_region_mono [OF that(1) P(2)]] show ?thesis .
  qed
  have sub: "in_region process 4224 x" if "in_region (process + 112) 4 x" for x
    by (rule field_in_struct [OF _ that]) simp
  have m: "m x = phys s x" if "\<not> in_region (process + 112) 4 x" for x using that by (simp add: m_def store32_other)
  have same: "\<forall>q \<in> pages. \<forall>x. in_region q 4096 x \<longrightarrow> m x = phys s x" using far pl sub m by blast
  note sp = space_pages_cong [OF same [unfolded pages_def]]
  have task: "task_page_directory m t = ?c"
    unfolding task_page_directory_def
  proof (rule load32_cong, rule m)
    show "\<not> in_region (process + 112) 4 x" if "in_region t 4 x" for x
      using far [OF sub tl] in_region_mono [OF that, of 4096] by auto
  qed
  have fields: "process_task m process = t" "process_ptr m process = process_ptr (phys s) process"
    "process_stack m process = process_stack (phys s) process" "process_size m process = process_size (phys s) process"
    using load32_store32_apart [OF offsets_apart [of 112 4212 process]] load32_store32_apart [OF offsets_apart [of 112 4216 process]]
      load32_store32_apart [OF offsets_apart [of 112 4220 process]]
    by (simp_all add: m_def process_task_def process_ptr_def process_stack_def process_size_def)
  have sp0: "process_space m process = task_space (phys s) t" and cl: "load32 (phys s) ?c = task_space (phys s) t"
    using sp(1) by (simp_all add: process_space_def task_space_def fields task)
  have dt: "dir_table m (process_space m process) i \<in> pages" if "i < 1024" for i
    using sp(1,2) that by (auto simp: space_pages_def pages_def process_space_def task_space_def fields task)
  have apart: "process_apart m process"
    unfolding process_apart_def fields
  proof (intro allI impI)
    fix x i assume x: "in_region process 4224 x \<or> in_region t 4 x" and i: "i < (1024 :: nat)"
    note q = dt [OF i]
    have "\<not> in_region (dir_table m (process_space m process) i) 4096 x" if "in_region t 4096 x"
      using two_pages [OF inv tl pl [OF q] _ that] tn q by auto
    then show "\<not> in_region (dir_table m (process_space m process) i) 4096 x"
      using x far [OF _ pl [OF q]] in_region_mono [of t 4 x 4096] by auto
  qed
  have ok: "chunk_ok (task_page_directory m (process_task m process)) m" and pr: "tables_present (process_space m process) m"
    using sl sp(3,4) by (simp_all add: fields task sp0 cl space_live_def)
  obtain q where q: "process_ptr (phys s) process = page_addr q" "q < 29696" by (rule heap_page [OF inv prog(1)])
  obtain r where r: "process_stack (phys s) process = page_addr r" "r < 29696" by (rule heap_page [OF inv stack])
  have n: "process_pages m process \<le> 2 ^ 19" "process_pages m process = process_pages (phys s) process"
    using prog(2) by (simp_all add: process_pages_def fields)
  have bounds: "q + process_pages m process < 2 ^ 20" "0x400 + process_pages m process \<le> 2 ^ 20" "r + 4 < 2 ^ 20"
    using n(1) q(2) r(2) by simp_all
  obtain m' where m': "process_map_memory process m = (0, m')" "same_space (task_page_directory m (process_task m process)) m m'"
    "\<And>va. translate (process_space m process) m' va =
      (if 0x3FB \<le> unat va div 4096 \<and> unat va div 4096 < 0x3FF then Some (process_stack m process + (va - 0x3FB000))
       else if 0x400 \<le> unat va div 4096 \<and> unat va div 4096 < 0x400 + process_pages m process
       then Some (process_ptr m process + (va - 0x400000)) else translate (process_space m process) m va)"
    using map_memory_layout [OF ok pr apart _ bounds(1,2) _ bounds(3)] q(1) r(1) by (auto simp: fields)
  note ends = process_fields_same [OF apart m'(2)]
  have walk: "translate (task_space (phys s) t) m va = Some va" for va
    using space_walk_cong [OF same [unfolded pages_def], of va] sl ident [of va] by (simp add: cl space_live_def)
  show thesis
  proof (rule that [OF m'(1)])
    show "process_task m' process = t" using ends(1) by (simp add: fields)
    show "task_space m' t = task_space (phys s) t"
      using ends(5) m'(2) sp(1) by (simp add: fields task task_space_def same_space_def)
    show "m' x = phys s x" if "\<not> in_region (process + 112) 4 x" "\<And>q. q \<in> pages \<Longrightarrow> \<not> in_region q 4096 x" for x
    proof -
      have "\<not> in_region (dir_table m (load32 m ?c) i) 4096 x" if "i < 1024" for i
        using dt [OF that] \<open>\<And>q. q \<in> pages \<Longrightarrow> \<not> in_region q 4096 x\<close> by (simp add: process_space_def task_space_def fields task)
      then have "m' x = m x" using m'(2) by (simp add: same_space_def fields task)
      then show ?thesis using m [OF that(1)] by simp
    qed
  qed (use m'(3) n(2) walk in \<open>simp add: sp0 fields\<close>)
qed

section \<open>Frames\<close>

lemma task_chain_cong:
  "task_chain m p prev ts \<Longrightarrow> (\<And>u. u \<in> set ts \<Longrightarrow> task_next m' u = task_next m u \<and> task_prev m' u = task_prev m u) \<Longrightarrow>
   task_chain m' p prev ts"
  by (induction ts arbitrary: p prev) simp_all

lemma tasks_ok_same:
  assumes ok: "tasks_ok s ts" and inv: "kheap_inv s'" and live: "kheap_live s \<subseteq> kheap_live s'"
    and list: "task_head s' = task_head s" "task_tail s' = task_tail s" "current_task s' = current_task s"
    and same: "\<And>q x. q \<in> set ts \<Longrightarrow> in_region q 4096 x \<Longrightarrow> phys s' x = phys s x"
  shows "tasks_ok s' ts"
proof -
  have "task_chain (phys s') (task_head s) 0 ts"
    by (rule task_chain_cong [of "phys s"]) (use ok same task_word [of _ "phys s'" "phys s"] in \<open>simp_all add: tasks_ok_def\<close>)
  then show ?thesis using ok inv live list by (auto simp: tasks_ok_def)
qed

lemma outside_process:
  fixes s s' :: "('d, 'a) process_table_scheme"
  assumes "outside_files s s'"
  shows "task_head s' = task_head s" and "task_tail s' = task_tail s" and "current_task s' = current_task s"
    and "processes s' = processes s" and "current_process s' = current_process s" and "kernel_chunk s' = kernel_chunk s"
    and "data_segments s' = data_segments s" and "process_table.more s' = process_table.more s"
    and "cr0 s' = cr0 s"
  using assms by (cases s; cases s'; simp add: outside_files_def)+

lemma more_process:
  fixes s s' :: "('d, 'a) process_table_scheme"
  assumes "files.more s' = files.more s"
  shows "task_head s' = task_head s" and "task_tail s' = task_tail s" and "current_task s' = current_task s"
    and "processes s' = processes s" and "process_table.more s' = process_table.more s"
  using assms by (cases s; cases s'; simp)+

text \<open>Two blocks at one address are the same.\<close>

lemma live_block_unique: "kheap_inv s \<Longrightarrow> (p, k) \<in> kheap_live s \<Longrightarrow> (p, l) \<in> kheap_live s \<Longrightarrow> k = l"
proof (rule ccontr)
  assume a: "kheap_inv s" "(p, k) \<in> kheap_live s" "(p, l) \<in> kheap_live s" "k \<noteq> l"
  then have "apart p k p l" by (intro kmalloc_heap.live_apart) simp_all
  then show False using kmalloc_heap.live_nonnull [OF a(1,2)] by (simp add: apart_def)
qed

section \<open>The task\<close>

text \<open>The task and the map, once the struct is filled.\<close>

definition task_ready :: "ptr \<Rightarrow> ptr \<Rightarrow> mem \<Rightarrow> bool" where
  "task_ready process t m \<longleftrightarrow> process_task m process = t \<and> task_process m t = process \<and>
     load32 m (task_registers t + 28) = lameos_program_virtual_address \<and>
     load32 m (task_registers t + 40) = lameos_program_virtual_stack_address_start \<and>
     load32 m (task_registers t + 32) = user_code_segment \<and> load32 m (task_registers t + 44) = user_data_segment"

lemma task_readyI:
  assumes fields: "\<And>f v. (f, v) \<in> set (task_fields c process) \<Longrightarrow> load32 m (t + f) = v"
    and same: "\<And>x. in_region t 4096 x \<Longrightarrow> m' x = m x" and "process_task m' process = t"
  shows "task_ready process t m'"
proof -
  have "load32 m' (t + f) = v" if "(f, v) \<in> set (task_fields c process)" for f v
  proof -
    have "unat f + 4 \<le> unat (4096 :: u32)" using that by (auto simp: task_fields_def)
    from load32_struct [OF this same] fields [OF that] show ?thesis by simp
  qed
  then show ?thesis using assms(3)
    by (simp add: task_ready_def task_process_def task_registers_def task_fields_def add.assoc)
qed

lemma start_task:
  fixes s :: "('d, 'a) process_table_scheme"
  assumes ok: "tasks_ok s ts" and room: "1027 \<le> kheap_pages s"
    and P: "(process, kp) \<in> kheap_live s" "4224 \<le> kp"
    and prog: "(process_ptr (phys s) process, k) \<in> kheap_live s" "unat (process_size (phys s) process) < 2 ^ 31"
    and stack: "(process_stack (phys s) process, ks) \<in> kheap_live s"
  obtains t s1 m' where "task_new process s = (t, s1)" and "t \<noteq> 0"
    and "process_map_memory process (store32 (phys s1) (process + 112) t) = (0, m')"
    and "tasks_ok (s1\<lparr>phys := m'\<rparr>) (ts @ [t])" and "kheap_live s \<subseteq> kheap_live (s1\<lparr>phys := m'\<rparr>)"
    and "\<exists>m h c. s1 = s\<lparr>phys := m, task_tail := t, task_head := h, current_task := c\<rparr>"
    and "\<And>q l x. \<lbrakk> (q, l) \<in> kheap_live s; q \<notin> set ts; in_region q l x; \<not> in_region (process + 112) 4 x \<rbrakk> \<Longrightarrow> m' x = phys s x"
    and "task_ready process t m'"
    and "\<And>va. translate (process_space m' process) m' va =
      (if 0x3FB \<le> unat va div 4096 \<and> unat va div 4096 < 0x3FF then Some (process_stack (phys s) process + (va - 0x3FB000))
       else if 0x400 \<le> unat va div 4096 \<and> unat va div 4096 < 0x400 + process_pages (phys s) process
       then Some (process_ptr (phys s) process + (va - 0x400000)) else Some va)"
    and "\<And>x. \<lbrakk> kheap_stable s x; \<forall>q \<in> set ts. \<not> in_region q 4096 x; \<not> in_region (process + 112) 4 x \<rbrakk> \<Longrightarrow> m' x = phys s x"
proof -
  have inv: "kheap_inv s" and tasks: "\<And>q. q \<in> set ts \<Longrightarrow> (q, 4096) \<in> kheap_live s" using ok by (simp_all add: tasks_ok_def)
  obtain t s1 where n: "task_new process s = (t, s1)" "t \<notin> set ts" "tasks_ok s1 (ts @ [t])"
    "\<And>f v. (f, v) \<in> set (task_fields (task_page_directory (phys s1) t) process) \<Longrightarrow> load32 (phys s1) (t + f) = v"
    "\<And>va. translate (task_space (phys s1) t) (phys s1) va = Some va" "task_live s1 t"
    "\<exists>m h c. s1 = s\<lparr>phys := m, task_tail := t, task_head := h, current_task := c\<rparr>"
    "\<And>q l x. (q, l) \<in> kheap_live s \<Longrightarrow> (ts = [] \<or> q \<noteq> last ts) \<Longrightarrow> in_region q l x \<Longrightarrow> phys s1 x = phys s x"
    "kheap_live s \<subseteq> kheap_live s1" "\<And>l. (t, l) \<notin> kheap_live s"
    "\<And>q l. q \<in> space_pages (phys s1) (task_page_directory (phys s1) t) \<Longrightarrow> (q, l) \<notin> kheap_live s"
    "\<And>x. kheap_stable s x \<Longrightarrow> (ts = [] \<or> \<not> in_region (last ts) 4096 x) \<Longrightarrow> phys s1 x = phys s x"
    by (rule new_task [OF ok room, of process]) (rule that; assumption)
  let ?pages = "space_pages (phys s1) (task_page_directory (phys s1) t)"
  have inv1: "kheap_inv s1" and t1: "(t, 4096) \<in> kheap_live s1" and tp: "t \<notin> ?pages"
    and pl: "\<And>q. q \<in> ?pages \<Longrightarrow> (q, 4096) \<in> kheap_live s1" using n(6) by (simp_all add: task_live_def space_live_def)
  have PT: "process \<notin> set ts" using live_block_unique [OF inv tasks P(1)] P(2) by auto
  have old: "phys s1 x = phys s x" if "(q, l) \<in> kheap_live s" "q \<notin> set ts" "in_region q l x" for q l x
    by (rule n(8) [OF that(1) _ that(3)]) (use that(2) last_in_set in blast)
  have field: "load32 (phys s1) (process + f) = load32 (phys s) (process + f)" if "unat f + 4 \<le> 4224" for f
    by (rule load32_struct [of _ 4224]) (use that old [OF P(1) PT] in_region_mono [OF _ P(2)] in auto)
  have fs: "process_ptr (phys s1) process = process_ptr (phys s) process" "process_stack (phys s1) process = process_stack (phys s) process"
    "process_size (phys s1) process = process_size (phys s) process" "process_pages (phys s1) process = process_pages (phys s) process"
    by (simp_all add: process_ptr_def process_stack_def process_size_def process_pages_def field)
  have P1: "(process, kp) \<in> kheap_live s1" and prog1: "(process_ptr (phys s1) process, k) \<in> kheap_live s1"
    "unat (process_size (phys s1) process) < 2 ^ 31" and stack1: "(process_stack (phys s1) process, ks) \<in> kheap_live s1"
    using P(1) prog stack n(9) by (auto simp: fs)
  obtain m' where m: "process_map_memory process (store32 (phys s1) (process + 112) t) = (0, m')" "process_task m' process = t"
    "task_space m' t = task_space (phys s1) t"
    "\<And>x. \<not> in_region (process + 112) 4 x \<Longrightarrow> (\<And>q. q \<in> ?pages \<Longrightarrow> \<not> in_region q 4096 x) \<Longrightarrow> m' x = phys s1 x"
    "\<And>va. translate (task_space (phys s1) t) m' va =
      (if 0x3FB \<le> unat va div 4096 \<and> unat va div 4096 < 0x3FF then Some (process_stack (phys s1) process + (va - 0x3FB000))
       else if 0x400 \<le> unat va div 4096 \<and> unat va div 4096 < 0x400 + process_pages (phys s1) process
       then Some (process_ptr (phys s1) process + (va - 0x400000)) else Some va)"
    by (rule map_new_process [OF n(6,5) P1 P(2) prog1 stack1]) blast
  have inP: "in_region process kp x" if "in_region (process + 112) 4 x" for x
    using field_in_struct [of 112 4224 process x] that in_region_mono [OF _ P(2)] by simp
  have live': "m' x = phys s1 x" if x: "(q, l) \<in> kheap_live s1" "in_region q l x" "\<not> in_region (process + 112) 4 x" "q \<notin> ?pages" for q l x
  proof (rule m(4) [OF x(3)])
    fix a assume "a \<in> ?pages"
    then have "(a, 4096) \<in> kheap_live s1" "(a, 4096) \<noteq> (q, l)" using pl x(4) by auto
    from apart_not_in [OF kmalloc_heap.live_apart [OF inv1 this(1) x(1) this(2)] x(2)] show "\<not> in_region a 4096 x" .
  qed
  have page: "m' x = phys s1 x" if q: "q \<in> set (ts @ [t])" and x: "in_region q 4096 x" for q x
  proof (rule live')
    have q1: "(q, 4096) \<in> kheap_live s1" using q tasks n(9) t1 by auto
    then show "(q, 4096) \<in> kheap_live s1" .
    have "(q, 4096) \<noteq> (process, kp)" using P(2) by auto
    from apart_not_in2 [OF kmalloc_heap.live_apart [OF inv1 q1 P1 this] x] inP show "\<not> in_region (process + 112) 4 x" by blast
    show "q \<notin> ?pages" using q tasks n(11) [of q 4096] tp by auto
  qed (rule x)
  have tab: "m' x = phys s1 x" if "in_table boot_heap x" for x
  proof (rule m(4))
    show "\<not> in_region (process + 112) 4 x" using kheap_live_not_in_table [OF inv1 P1] inP that by blast
    show "\<not> in_region q 4096 x" if "q \<in> ?pages" for q
      using kheap_live_not_in_table [OF inv1 pl [OF that]] \<open>in_table boot_heap x\<close> by blast
  qed
  have "kernel_heap (s1\<lparr>phys := m'\<rparr>) = boot_heap" using kheap_inv_repr [OF inv1] by simp
  from kheap_same_table [OF inv1 this] tab have h: "kheap_inv (s1\<lparr>phys := m'\<rparr>)" "kchunks (s1\<lparr>phys := m'\<rparr>) = kchunks s1" by simp_all
  then have live: "kheap_live (s1\<lparr>phys := m'\<rparr>) = kheap_live s1" by (simp add: kheap_live_def)
  show thesis
  proof (rule that [OF n(1) _ m(1)])
    show "t \<noteq> 0" using kmalloc_heap.live_nonnull [OF inv1 t1] by simp
    show "tasks_ok (s1\<lparr>phys := m'\<rparr>) (ts @ [t])" by (rule tasks_ok_same [OF n(3) h(1)]) (use live page in auto)
    show "kheap_live s \<subseteq> kheap_live (s1\<lparr>phys := m'\<rparr>)" using live n(9) by simp
    show "\<exists>m h c. s1 = s\<lparr>phys := m, task_tail := t, task_head := h, current_task := c\<rparr>" by (rule n(7))
    show "m' x = phys s x" if "(q, l) \<in> kheap_live s" "q \<notin> set ts" "in_region q l x" "\<not> in_region (process + 112) 4 x" for q l x
      using live' [of q l x] that n(9) n(11) [of q l] old [OF that(1-3)] by auto
    show "m' x = phys s x" if x: "kheap_stable s x" "\<forall>q \<in> set ts. \<not> in_region q 4096 x" "\<not> in_region (process + 112) 4 x" for x
    proof -
      have "m' x = phys s1 x"
      proof (rule m(4) [OF x(3)])
        show "\<not> in_region q 4096 x" if "q \<in> ?pages" for q
          by (rule stable_not_new [OF inv1 pl [OF that] n(11) [OF that] n(9) x(1)])
      qed
      moreover have "ts = [] \<or> \<not> in_region (last ts) 4096 x" using x(2) last_in_set by blast
      ultimately show ?thesis using n(12) [OF x(1)] by simp
    qed
    show "task_ready process t m'" by (rule task_readyI [OF n(4) page m(2)]) simp_all
  qed (use m(2,3,5) in \<open>simp add: process_space_def fs\<close>)
qed

section \<open>The struct, the program and the stack\<close>

lemma live_size:
  assumes "kheap_inv s" and "(p, k) \<in> kheap_live s"
  shows "unat k \<le> 104857600"
proof -
  obtain q n where q: "(q, n) \<in> set (allocs 0 (kchunks s))" "k = of_nat (4096 * n)"
    using assms(2) unfolding kheap_live_def live_of_iff by blast
  have "n \<le> 25600" using allocs_range [OF q(1)] kheap_inv_size [OF assms(1)] by simp
  then show ?thesis using unat_of_nat_u32 [of "4096 * n"] by (simp add: q(2))
qed

lemma new_block:
  assumes inv: "kheap_inv s" and n: "0 < n" "unat n \<le> 4294963200" and run: "free_run (blocks_for n) s"
  obtains p k s1 where "kzalloc n s = (p, s1)" and "kept (\<lambda>_. False) s s1" and "kheap_live s1 = insert (p, k) (kheap_live s)" and "n \<le> k"
    and "(p, k) \<notin> kheap_live s" and "p \<noteq> 0" and "\<And>x. in_region p n x \<Longrightarrow> phys s1 x = 0"
    and "\<And>x. kheap_stable s x \<Longrightarrow> \<not> in_region p k x" and "kheap_pages s1 + blocks_for n = kheap_pages s"
proof -
  note room = free_run_room [OF inv n run]
  obtain p s1 where a: "kzalloc n s = (p, s1)" by (cases "kzalloc n s") blast
  obtain k where "kept (\<lambda>_. False) s s1" "kheap_live s1 = insert (p, k) (kheap_live s)" "n \<le> k" "(p, k) \<notin> kheap_live s" "p \<noteq> 0"
    "\<And>x. in_region p n x \<Longrightarrow> phys s1 x = 0" "\<And>x. kheap_stable s x \<Longrightarrow> \<not> in_region p k x"
    by (rule kept_kzalloc [OF inv room a]) (rule that; assumption)
  from that [OF a this] kzalloc_count [OF inv room] a show thesis by simp
qed

lemma call_ok_kept:
  assumes "call_ok need scratch (Open_File filename mode_str t mode) s" and "kept (\<lambda>_. False) s s'"
    and "2 * length (path_parts (drop 3 t)) + 3 + need \<le> kheap_pages s'"
  shows "call_ok need scratch (Open_File filename mode_str t mode) s'"
proof -
  have same: "phys s' x = phys s x" and st: "kheap_stable s' x" if "kheap_stable s x" for x
    using keptD(5,6) [OF assms(2) that] by simp_all
  have "cstr_at (phys s') filename t = cstr_at (phys s) filename t" by (rule cstr_at_cong, rule same) (use assms(1) in simp)
  moreover have "file_mode_get_by_string mode_str (phys s') = file_mode_get_by_string mode_str (phys s)"
    using same [of mode_str] assms(1) unfolding file_mode_get_by_string_def call_ok.simps by presburger
  ultimately show ?thesis using assms(1,3) st by simp
qed

lemma zero_struct: "(\<And>x. in_region p sizeof_process x \<Longrightarrow> m x = 0) \<Longrightarrow> process_init p m = m"
  unfolding process_init_def by (rule ext) (simp add: memset_apply)

section \<open>What a started process is\<close>

text \<open>The process is in the table and its task at the end of the list of tasks; in the address space of the task
  the program lies at \<open>0x400000\<close> and 16 KiB of zeros below \<open>0x3FF000\<close>, and every other page is itself. Nothing
  stable has changed but the bytes of \<open>w\<close> and the older tasks.\<close>

definition process_started ::
  "(ptr \<Rightarrow> bool) \<Rightarrow> u8 list \<Rightarrow> u8 list \<Rightarrow> nat \<Rightarrow> ptr list \<Rightarrow> ptr \<Rightarrow> ('d, 'a) process_table_scheme \<Rightarrow> ('d, 'a) process_table_scheme \<Rightarrow> bool" where
  "process_started w bs t nr ts P s s' \<longleftrightarrow>
     (let T = process_task (phys s') P; space = process_space (phys s') P; n = process_pages (phys s') P
      in processes s' = (processes s)[nr := P] \<and> current_process s' = current_process s \<and>
        kernel_chunk s' = kernel_chunk s \<and> cr0 s' = cr0 s \<and> process_table.more s' = process_table.more s \<and>
        process_id (phys s') P = of_nat nr \<and> cstr_at (phys s') (process_filename P) (take 107 t) \<and>
        process_size (phys s') P = of_nat (length bs) \<and> kheap_live s \<subseteq> kheap_live s' \<and>
        (\<forall>x. kheap_stable s x \<and> \<not> w x \<and> (\<forall>q \<in> set ts. \<not> in_region q 4096 x) \<longrightarrow> phys s' x = phys s x) \<and>
        tasks_ok s' (ts @ [T]) \<and> task_ready P T (phys s') \<and>
        (\<forall>i < length bs. virt_load space (phys s') (0x400000 + of_nat i) = Some (bs ! i)) \<and>
        (\<forall>i < 16384. virt_load space (phys s') (0x3FB000 + of_nat i) = Some 0) \<and>
        (\<forall>va. unat va < 0x3FB000 \<or> 0x3FF000 \<le> unat va \<and> unat va < 0x400000 \<or> 0x400000 + 4096 * n \<le> unat va \<longrightarrow>
           translate space (phys s') va = Some va))"

lemma process_startedD:
  assumes "process_started w bs t nr ts P s s'"
  shows "processes s' = (processes s)[nr := P]"
    and "i < length bs \<Longrightarrow> virt_load (process_space (phys s') P) (phys s') (0x400000 + of_nat i) = Some (bs ! i)"
    and "tasks_ok s' (ts @ [process_task (phys s') P])" and "task_ready P (process_task (phys s') P) (phys s')"
    and "kernel_chunk s' = kernel_chunk s" and "cr0 s' = cr0 s" and "process_table.more s' = process_table.more s"
    and "unat va < 0x3FB000 \<or> 0x3FF000 \<le> unat va \<and> unat va < 0x400000 \<Longrightarrow> translate (process_space (phys s') P) (phys s') va = Some va"
    and "i < 16384 \<Longrightarrow> virt_load (process_space (phys s') P) (phys s') (0x3FB000 + of_nat i) = Some 0"
    and "kheap_live s \<subseteq> kheap_live s'"
    and "\<lbrakk> kheap_stable s x; \<not> w x; \<forall>q \<in> set ts. \<not> in_region q 4096 x \<rbrakk> \<Longrightarrow> phys s' x = phys s x"
  using assms unfolding process_started_def Let_def by blast+

lemma started_space:
  assumes walk: "\<And>va. translate d m va = (if 0x3FB \<le> unat va div 4096 \<and> unat va div 4096 < 0x3FF then Some (S + (va - 0x3FB000))
       else if 0x400 \<le> unat va div 4096 \<and> unat va div 4096 < 0x400 + n then Some (p + (va - 0x400000)) else Some va)"
    and bytes: "\<And>i. i < k \<Longrightarrow> m (p + of_nat i) = bs ! i" "k \<le> 4096 * n" "k < 2 ^ 31"
    and zero: "\<And>x. in_region S 16384 x \<Longrightarrow> m x = 0"
  shows "i < k \<Longrightarrow> virt_load d m (0x400000 + of_nat i) = Some (bs ! i)"
    and "i < 16384 \<Longrightarrow> virt_load d m (0x3FB000 + of_nat i) = Some 0"
    and "unat va < 0x3FB000 \<or> 0x3FF000 \<le> unat va \<and> unat va < 0x400000 \<or> 0x400000 + 4096 * n \<le> unat va \<Longrightarrow> translate d m va = Some va"
proof -
  have u: "unat (0x400000 + of_nat i :: u32) = 0x400000 + i" if "i < 2 ^ 31" for i using that by (simp add: unat_word_ariths)
  show "virt_load d m (0x400000 + of_nat i) = Some (bs ! i)" if i: "i < k"
  proof -
    have "unat (0x400000 + of_nat i :: u32) = 0x400000 + i" using u i bytes(3) by simp
    moreover have "(0x400000 + i) div 4096 = 0x400 + i div 4096" "i div 4096 < n" using i bytes(2) by simp_all
    ultimately have "translate d m (0x400000 + of_nat i) = Some (p + of_nat i)" unfolding walk by simp
    then show ?thesis using bytes(1) [OF i] by (simp add: virt_load_def)
  qed
  show "virt_load d m (0x3FB000 + of_nat i) = Some 0" if i: "i < 16384"
  proof -
    have "unat (0x3FB000 + of_nat i :: u32) = 0x3FB000 + i" using i by (simp add: unat_word_ariths)
    moreover have "(0x3FB000 + i) div 4096 = 0x3FB + i div 4096" "i div 4096 < 4" using i by simp_all
    ultimately have "translate d m (0x3FB000 + of_nat i) = Some (S + of_nat i)" unfolding walk by simp
    moreover have "in_region S 16384 (S + of_nat i)" using i by (simp add: in_region_of_nat)
    ultimately show ?thesis using zero by (simp add: virt_load_def)
  qed
  show "translate d m va = Some va" if "unat va < 0x3FB000 \<or> 0x3FF000 \<le> unat va \<and> unat va < 0x400000 \<or> 0x400000 + 4096 * n \<le> unat va"
  proof -
    have "\<not> (0x3FB \<le> unat va div 4096 \<and> unat va div 4096 < 0x3FF)" "\<not> (0x400 \<le> unat va div 4096 \<and> unat va div 4096 < 0x400 + n)"
      using that by linarith+
    then show ?thesis unfolding walk by (simp only: if_False)
  qed
qed

lemma processes_frame [simp]:
  "kheap_inv (s\<lparr>processes := ps\<rparr>) = kheap_inv s" "kheap_live (s\<lparr>processes := ps\<rparr>) = kheap_live s"
  "tasks_ok (s\<lparr>processes := ps\<rparr>) ts = tasks_ok s ts"
  by (simp_all add: kheap_inv_def kheap_live_def kchunks_def tasks_ok_def)

text \<open>The struct but for the word at 112.\<close>

lemma kept_fields:
  assumes keep: "\<And>x. in_region P 4224 x \<Longrightarrow> \<not> in_region (P + 112) 4 x \<Longrightarrow> m' x = m x"
  shows "process_id m' P = process_id m P" and "process_size m' P = process_size m P"
    and "cstr_at m' (process_filename P) (take 107 t) = cstr_at m (process_filename P) (take 107 t)"
proof -
  have at: "m' (P + of_nat j) = m (P + of_nat j)" if "j < 4224" "j < 112 \<or> 116 \<le> j" for j
  proof (rule keep)
    show "in_region P 4224 (P + of_nat j)" using that by (simp add: in_region_of_nat)
    have "unat (of_nat j - 112 :: u32) \<ge> 4"
      using that by (auto simp: unat_sub_if')
    then show "\<not> in_region (P + 112) 4 (P + of_nat j)" by (simp add: in_region_def word_less_nat_alt)
  qed
  show "process_id m' P = process_id m P" using at [of 0] at [of 1] by (simp add: process_id_def load16_def)
  show "process_size m' P = process_size m P"
    using at [of 4220] at [of 4221] at [of 4222] at [of 4223] by (simp add: process_size_def load32_def add.assoc)
  show "cstr_at m' (process_filename P) (take 107 t) = cstr_at m (process_filename P) (take 107 t)"
  proof (rule cstr_at_cong)
    fix i assume "i \<le> length (take 107 t)"
    then show "m' (process_filename P + of_nat i) = m (process_filename P + of_nat i)"
      using at [of "2 + i"] by (simp add: process_filename_def add.assoc)
  qed
qed

lemma process_started_from:
  assumes "process_started v bs t nr ts P u s'" and "outside_files s u" and "kheap_live s \<subseteq> kheap_live u"
    and "\<And>x. kheap_stable s x \<Longrightarrow> \<not> w x \<Longrightarrow> \<not> v x \<and> phys u x = phys s x"
  shows "process_started w bs t nr ts P s s'"
proof -
  have "phys s' x = phys s x" if "kheap_stable s x" "\<not> w x" "\<forall>q \<in> set ts. \<not> in_region q 4096 x" for x
    using process_startedD(11) [OF assms(1) stable_mono [OF assms(3) that(1)] _ that(3)] assms(4) [OF that(1,2)] by simp
  then show ?thesis
    using assms(1,3) outside_process [OF assms(2)] unfolding process_started_def Let_def by auto
qed

text \<open>The struct is filled: the program and the stack are in blocks of their own.\<close>

definition process_filled :: "u8 list \<Rightarrow> u8 list \<Rightarrow> nat \<Rightarrow> ptr list \<Rightarrow> ptr \<Rightarrow> 'a kheap_scheme \<Rightarrow> bool" where
  "process_filled bs t nr ts P u \<longleftrightarrow> (\<exists>kp k ks.
     (P, kp) \<in> kheap_live u \<and> (process_ptr (phys u) P, k) \<in> kheap_live u \<and> (process_stack (phys u) P, ks) \<in> kheap_live u \<and>
     4224 \<le> kp \<and> 16384 \<le> ks \<and> (process_ptr (phys u) P, k) \<noteq> (P, kp) \<and> (process_stack (phys u) P, ks) \<noteq> (P, kp) \<and>
     {P, process_ptr (phys u) P, process_stack (phys u) P} \<inter> set ts = {} \<and>
     process_size (phys u) P = of_nat (length bs) \<and> length bs < 2 ^ 31 \<and> length bs \<le> unat k \<and>
     process_id (phys u) P = of_nat nr \<and> cstr_at (phys u) (process_filename P) (take 107 t) \<and>
     (\<forall>i < length bs. phys u (process_ptr (phys u) P + of_nat i) = bs ! i) \<and>
     (\<forall>x. in_region (process_stack (phys u) P) 16384 x \<longrightarrow> phys u x = 0))"

lemma start_filled:
  fixes u :: "('d, 'a) process_table_scheme"
  assumes tasks: "tasks_ok u ts" and room: "1027 \<le> kheap_pages u" and fill: "process_filled bs t nr ts P u"
  obtains T s m' where "task_new P u = (T, s)" and "T \<noteq> 0" and "process_map_memory P (store32 (phys s) (P + 112) T) = (0, m')"
    and "process_started (in_region (P + 112) 4) bs t nr ts P u (s\<lparr>phys := m', processes := (processes s)[nr := P]\<rparr>)"
    and "\<exists>m h c. s = u\<lparr>phys := m, task_tail := T, task_head := h, current_task := c\<rparr>"
    and "\<forall>q. (q, 4096) \<in> kheap_live u \<and> q \<notin> set ts \<longrightarrow> (\<forall>x. in_region q 4096 x \<longrightarrow> m' x = phys u x)"
proof -
  let ?p = "process_ptr (phys u) P" and ?S = "process_stack (phys u) P"
  obtain kp k ks where f: "(P, kp) \<in> kheap_live u" "(?p, k) \<in> kheap_live u" "(?S, ks) \<in> kheap_live u"
    "4224 \<le> kp" "16384 \<le> ks" "(?p, k) \<noteq> (P, kp)" "(?S, ks) \<noteq> (P, kp)" "{P, ?p, ?S} \<inter> set ts = {}"
    "process_size (phys u) P = of_nat (length bs)" "length bs < 2 ^ 31" "length bs \<le> unat k"
    "process_id (phys u) P = of_nat nr" "cstr_at (phys u) (process_filename P) (take 107 t)"
    "\<And>i. i < length bs \<Longrightarrow> phys u (?p + of_nat i) = bs ! i" "\<And>x. in_region ?S 16384 x \<Longrightarrow> phys u x = 0"
    using fill unfolding process_filled_def by blast
  have inv: "kheap_inv u" using tasks by (simp add: tasks_ok_def)
  have sz: "unat (process_size (phys u) P) = length bs" using f(9,10) by simp
  then have small: "unat (process_size (phys u) P) < 2 ^ 31" using f(10) by simp
  obtain T s m' where e: "task_new P u = (T, s)" "T \<noteq> 0" "process_map_memory P (store32 (phys s) (P + 112) T) = (0, m')"
    "tasks_ok (s\<lparr>phys := m'\<rparr>) (ts @ [T])" "kheap_live u \<subseteq> kheap_live (s\<lparr>phys := m'\<rparr>)"
    "\<exists>m h c. s = u\<lparr>phys := m, task_tail := T, task_head := h, current_task := c\<rparr>"
    "\<And>q l x. \<lbrakk> (q, l) \<in> kheap_live u; q \<notin> set ts; in_region q l x; \<not> in_region (P + 112) 4 x \<rbrakk> \<Longrightarrow> m' x = phys u x"
    "task_ready P T m'"
    "\<And>va. translate (process_space m' P) m' va =
      (if 0x3FB \<le> unat va div 4096 \<and> unat va div 4096 < 0x3FF then Some (?S + (va - 0x3FB000))
       else if 0x400 \<le> unat va div 4096 \<and> unat va div 4096 < 0x400 + process_pages (phys u) P
       then Some (?p + (va - 0x400000)) else Some va)"
    "\<And>x. \<lbrakk> kheap_stable u x; \<forall>q \<in> set ts. \<not> in_region q 4096 x; \<not> in_region (P + 112) 4 x \<rbrakk> \<Longrightarrow> m' x = phys u x"
    by (rule start_task [OF tasks room f(1,4,2) small f(3)]) (rule that; assumption)
  have inP: "in_region P kp x" if "in_region (P + 112) 4 x" for x
    using field_in_struct [of 112 4224 P x] that in_region_mono [OF _ f(4)] by simp
  have other: "m' x = phys u x" if "(q, l) \<in> kheap_live u" "q \<notin> set ts" "(q, l) \<noteq> (P, kp)" "in_region q l x" for q l x
    using e(7) [OF that(1,2,4)] apart_not_in2 [OF kmalloc_heap.live_apart [OF inv that(1) f(1) that(3)] that(4)] inP by blast
  have keep: "m' x = phys u x" if "in_region P 4224 x" "\<not> in_region (P + 112) 4 x" for x
    by (rule e(7) [OF f(1) _ in_region_mono [OF that(1) f(4)] that(2)]) (use f(8) in simp)
  note g = kept_fields [OF keep]
  have prog: "m' (?p + of_nat i) = bs ! i" if "i < length bs" for i
    by (subst other [OF f(2) _ f(6)]) (use that f in \<open>simp_all add: in_region_of_nat\<close>)
  have zero: "m' x = 0" if "in_region ?S 16384 x" for x
    by (subst other [OF f(3) _ f(7) in_region_mono [OF that f(5)]]) (use that f in simp_all)
  have np: "process_pages m' P = process_pages (phys u) P" using g(2) by (simp add: process_pages_def)
  have bound: "length bs \<le> 4096 * process_pages (phys u) P" by (simp add: process_pages_def sz)
  note w = started_space [OF e(9) prog bound f(10) zero]
  have T: "process_task m' P = T" using e(8) by (simp add: task_ready_def)
  let ?s = "s\<lparr>phys := m', processes := (processes s)[nr := P]\<rparr>"
  have sel: "processes s = processes u" "current_process s = current_process u" "kernel_chunk s = kernel_chunk u" "cr0 s = cr0 u"
    "process_table.more s = process_table.more u" using e(6) by auto
  have ls: "kheap_live u \<subseteq> kheap_live ?s" using e(5) by simp
  have ok: "tasks_ok ?s (ts @ [T])" using e(4) by simp
  have ph: "phys ?s = m'" by simp
  have "process_started (in_region (P + 112) 4) bs t nr ts P u ?s"
    unfolding process_started_def Let_def ph T np
    by (intro conjI allI impI ls ok e(8) w; (elim conjE)?) (use sel g f(9,12,13) e(10) in simp_all)
  moreover have "\<forall>q. (q, 4096) \<in> kheap_live u \<and> q \<notin> set ts \<longrightarrow> (\<forall>x. in_region q 4096 x \<longrightarrow> m' x = phys u x)"
    using other [where l = 4096] f(4) by force
  ultimately show thesis by (intro that [OF e(1-3) _ e(6)])
qed

text \<open>The first free place of the table.\<close>

lemma free_process:
  assumes "length (processes s) = 12" and "first_zero 0 (processes s) = Some nr"
  shows "nr < 12" and "process_get_free_slot s = of_nat nr" and "\<not> (of_nat nr :: i32) <s 0" and "process_get pf (of_nat nr) s = 0"
    and "unat (of_nat nr :: i32) = nr" and "ucast (of_nat nr :: i32) = (of_nat nr :: u16)"
proof -
  show nr: "nr < 12" using first_zero_Some [OF assms(2)] assms(1) by auto
  have z: "processes s ! nr = 0" using first_zero_Some [OF assms(2)] by auto
  show u: "unat (of_nat nr :: i32) = nr" using nr by simp
  have si: "sint (of_nat nr :: i32) = int nr" by (rule sint_of_nat_u32) (use nr in simp)
  then show neg: "\<not> (of_nat nr :: i32) <s 0" by (simp add: word_sless_alt)
  show "process_get_free_slot s = of_nat nr" by (simp add: process_get_free_slot_def assms(2))
  show "process_get pf (of_nat nr) s = 0"
    using neg si nr z assms(1) u by (simp add: process_get_def lameos_max_processes_def word_sless_alt)
  show "ucast (of_nat nr :: i32) = (of_nat nr :: u16)" using nr by (simp add: unsigned_of_nat take_bit_nat_eq_self)
qed

context program_loader
begin

text \<open>Up to the program: the struct is new, and so is the block of the program.\<close>

lemma load_struct:
  assumes rel: "files_rel D dsk fsp A s" and io: "disk_addr io = dsk" "dsk \<noteq> 0" and fss: "fss fsp = Some ops" "fsp \<noteq> 0"
    and ok: "call_ok (drv_need D) (drv_scratch D) (Open_File filename (mode_literal pf) t FILE_MODE_READ) s"
    and src: "path_names t \<noteq> []" "find_file V (path_names t) = Some f" and slot: "free_slot A = Some i" "i < 511"
    and bs: "file_bytes V f 0 (unat (file_size V f)) = Some bs" "file_size V f \<noteq> 0"
    and K: "K = 2 * length (path_names t) + 2 + drv_need D"
    and room: "unat (file_size V f) \<le> 4294963200" "free_run (4 * (K + 1) * (blocks_for (file_size V f) + 3)) s"
      "K + blocks_for (file_size V f) + 1033 \<le> kheap_pages s"
    and stat: "off_heap (stat_buffer pf) 8"
  obtains P kp s1 p k s3 where "kzalloc sizeof_process s = (P, s1)" and "P \<noteq> 0" and "process_init P (phys s1) = phys s1"
    and "process_load_data io pf fss filename P s1 = Inr (0, s3)" and "files_rel D dsk fsp A s3" and "table_same D A s s3"
    and "outside_files s s3" and "kheap_pages s \<le> kheap_pages s3 + (2 + K + blocks_for (file_size V f))"
    and "kheap_live s \<subseteq> kheap_live s3" and "(P, kp) \<in> kheap_live s3" and "(P, kp) \<notin> kheap_live s" and "4224 \<le> kp"
    and "(p, k) \<in> kheap_live s3" and "(p, k) \<notin> kheap_live s" and "(p, k) \<noteq> (P, kp)" and "file_size V f \<le> k"
    and "process_ptr (phys s3) P = p" and "process_size (phys s3) P = file_size V f"
    and "bytes_at (phys s3) p (unat (file_size V f)) = bs" and "\<And>x. kheap_stable s x \<Longrightarrow> \<not> in_region P kp x"
    and "\<And>x. \<lbrakk> kheap_stable s x; \<not> drv_scratch D x; \<not> in_pages (drv_base D s) x; \<not> in_region (stat_buffer pf) 8 x \<rbrakk> \<Longrightarrow>
      phys s3 x = phys s x"
proof -
  let ?b = "blocks_for (file_size V f)"
  note inv = files_relD(2) [OF rel]
  have sz: "sizeof_process = 4224" "blocks_for 4224 = 2" by (simp_all add: sizeof_process_def lameos_max_program_allocations_def blocks_for_def)
  have le: "2 \<le> 4 * (K + 1) * (?b + 3)" "(2 + 1) * ((K + 1) * ?b) \<le> 4 * (K + 1) * (?b + 3)" by (simp_all add: algebra_simps)
  have n: "(0 :: u32) < 4224" "unat (4224 :: u32) \<le> 4294963200" by simp_all
  obtain P kp s1 where z: "kzalloc 4224 s = (P, s1)" "kept (\<lambda>_. False) s s1" "kheap_live s1 = insert (P, kp) (kheap_live s)" "4224 \<le> kp"
    "(P, kp) \<notin> kheap_live s" "P \<noteq> 0" "\<And>x. in_region P 4224 x \<Longrightarrow> phys s1 x = 0"
    "\<And>x. kheap_stable s x \<Longrightarrow> \<not> in_region P kp x" "kheap_pages s1 + blocks_for 4224 = kheap_pages s"
    by (rule new_block [OF inv n free_run_less [OF room(2) le(1), folded sz(2)]]) (rule that; assumption)
  note k1 = rel_kept [OF rel z(2)]
  have pages: "kheap_pages s = kheap_pages s1 + 2" using z(9) sz(2) by simp
  have run1: "free_run ((K + 1) * ?b) s1"
    by (rule free_run_survives [OF inv keptD(1,2) [OF z(2)] eq_refl [OF pages] free_run_less [OF room(2) le(2)]])
  have len: "length (path_names t) = length (path_parts (drop 3 t))" using src(1) by (simp add: path_names_def split: if_splits)
  have ok1: "call_ok (drv_need D) (drv_scratch D) (Open_File filename (mode_literal pf) t FILE_MODE_READ) s1"
    by (rule call_ok_kept [OF ok z(2)]) (use room(3) pages len in \<open>simp add: K\<close>)
  have P1: "(P, kp) \<in> kheap_live s1" using z(3) by simp
  obtain p k s3 where b: "process_load_binary io pf fss filename P s1 = Inr (0, s3)" "files_rel D dsk fsp A s3" "table_same D A s1 s3"
    "outside_files s1 s3" "kheap_pages s1 \<le> kheap_pages s3 + (K + ?b)"
    "file_loaded (\<lambda>x. drv_scratch D x \<or> in_pages (drv_base D s1) x \<or> in_region (stat_buffer pf) 8 x) P (file_size V f) bs s1 p k s3"
    using load_binary [where fss = fss, OF k1(1) io fss ok1 src slot bs room(1) run1 [unfolded K] stat P1 z(4)] unfolding K by auto
  note l = b(6) [unfolded file_loaded_def]
  show thesis
  proof (rule that [of P s1 s3 kp p k])
    show "process_init P (phys s1) = phys s1" by (rule zero_struct) (use z(7) sz(1) in simp)
    show "process_load_data io pf fss filename P s1 = Inr (0, s3)" using b(1) by (simp add: process_load_data_def)
    show "table_same D A s s3" by (rule table_same_trans [OF k1(3) b(3)]) simp_all
    show "outside_files s s3" by (rule outside_trans [OF kept_outside [OF z(2)] b(4)])
    show "(P, kp) \<in> kheap_live s3" "(p, k) \<notin> kheap_live s" "(p, k) \<noteq> (P, kp)" using l P1 z(3) by auto
    show "phys s3 x = phys s x" if x: "kheap_stable s x" "\<not> drv_scratch D x" "\<not> in_pages (drv_base D s) x" "\<not> in_region (stat_buffer pf) 8 x" for x
    proof -
      have "\<not> in_region (P + g) 4 x" if "unat g + 4 \<le> 4224" for g
        using z(8) [OF x(1)] in_region_mono [OF _ z(4)] field_in_struct [of g 4224 P x] that by auto
      then have "phys s3 x = phys s1 x" using l keptD(6) [OF z(2) x(1)] x(2-4) k1(2) by simp
      then show ?thesis using keptD(5) [OF z(2) x(1)] by simp
    qed
  qed (use z l b pages sz in auto)
qed

text \<open>The stack is new, and the struct is filled.\<close>

lemma load_stack:
  assumes rel: "files_rel D dsk fsp A s" and P: "(P, kp) \<in> kheap_live s" "4224 \<le> kp" and run: "free_run 4 s"
    and name: "cstr_at (phys s) filename t" "length t < 2 ^ 31" "\<forall>j \<le> length t. kheap_stable s (filename + of_nat j)"
    and away: "\<forall>j \<le> length t. \<not> in_region P kp (filename + of_nat j)"
  obtains S ks s1 m where "kzalloc lameos_user_program_stack_size s = (S, s1)" and "S \<noteq> 0" and "m = filled P filename S nr (phys s1)"
    and "files_rel D dsk fsp A (s1\<lparr>phys := m\<rparr>)" and "table_same D A s (s1\<lparr>phys := m\<rparr>)" and "outside_files s s1"
    and "kheap_live (s1\<lparr>phys := m\<rparr>) = insert (S, ks) (kheap_live s)" and "(S, ks) \<notin> kheap_live s" and "16384 \<le> ks"
    and "kheap_pages (s1\<lparr>phys := m\<rparr>) + 4 = kheap_pages s"
    and "process_stack m P = S" and "process_id m P = nr" and "process_ptr m P = process_ptr (phys s) P"
    and "process_size m P = process_size (phys s) P" and "cstr_at m (process_filename P) (take 107 t)"
    and "\<And>x. in_region S 16384 x \<Longrightarrow> m x = 0" and "\<And>x. kheap_stable s x \<Longrightarrow> \<not> in_region P kp x \<Longrightarrow> m x = phys s x"
proof -
  note inv = files_relD(2) [OF rel]
  have sz: "lameos_user_program_stack_size = 16384" "blocks_for 16384 = 4" "(0 :: u32) < 16384" "unat (16384 :: u32) \<le> 4294963200"
    by (simp_all add: lameos_user_program_stack_size_def blocks_for_def)
  obtain S ks s1 where z: "kzalloc 16384 s = (S, s1)" "kept (\<lambda>_. False) s s1" "kheap_live s1 = insert (S, ks) (kheap_live s)" "16384 \<le> ks"
    "(S, ks) \<notin> kheap_live s" "S \<noteq> 0" "\<And>x. in_region S 16384 x \<Longrightarrow> phys s1 x = 0"
    "\<And>x. kheap_stable s x \<Longrightarrow> \<not> in_region S ks x" "kheap_pages s1 + blocks_for 16384 = kheap_pages s"
    by (rule new_block [OF inv sz(3,4) run [folded sz(2)]]) (rule that; assumption)
  have k1: "files_rel D dsk fsp A s1" "table_same D A s s1" by (rule rel_kept [OF rel z(2)]; simp)+
  have P1: "(P, kp) \<in> kheap_live s1" using P(1) z(3) by simp
  have same: "phys s1 x = phys s x" if "kheap_stable s x" for x using keptD(5) [OF z(2) that] by simp
  have stP: "kheap_stable s x" if "in_region P kp x" for x by (rule stable_live [OF inv P(1) that])
  have n1: "cstr_at (phys s1) filename t" by (rule iffD1 [OF cstr_at_cong name(1)], rule same [symmetric]) (use name(3) in simp)
  have aw: "\<not> in_region P 4224 (filename + of_nat j)" if "j \<le> length t" for j
    using away that in_region_mono [OF _ P(2)] by blast
  define m where "m = filled P filename S nr (phys s1)"
  note f = filled_struct [where stack = S and nr = nr, OF n1 name(2) aw, folded m_def]
  have inP: "in_region P kp x" if "in_region P 110 x \<or> in_region (P + 4216) 4 x" for x
    using that in_region_mono [OF _ P(2)] field_in_struct [of 4216 4224 P x] in_region_mono [of P 110 x 4224] by auto
  have out: "m x = phys s1 x" if "\<not> in_region P kp x" for x using f(1) inP that by blast
  have kp: "kp \<noteq> 4096" using P(2) by auto
  note w = rel_block_write [OF k1(1) P1 kp out]
  have fld: "load32 (phys s1) (P + g) = load32 (phys s) (P + g)" if "unat g + 4 \<le> 4224" for g
    by (rule load32_struct [of _ 4224]) (use that same stP in_region_mono [OF _ P(2)] in auto)
  show thesis
  proof (rule that [of S s1 m ks])
    show "m = filled P filename S nr (phys s1)" by (rule m_def)
    show "files_rel D dsk fsp A (s1\<lparr>phys := m\<rparr>)" by (rule w(1))
    show "table_same D A s (s1\<lparr>phys := m\<rparr>)" by (rule table_same_trans [OF k1(2) w(2)])
    show "outside_files s s1" by (rule kept_outside [OF z(2)])
    show "kheap_live (s1\<lparr>phys := m\<rparr>) = insert (S, ks) (kheap_live s)" using w(3) z(3) by (simp add: kheap_live_def)
    show "kheap_pages (s1\<lparr>phys := m\<rparr>) + 4 = kheap_pages s" using w(3) z(9) sz(2) by (simp add: kheap_pages_def)
    show "m x = 0" if "in_region S 16384 x" for x
    proof -
      have "(S, ks) \<in> kheap_live s1" "(S, ks) \<noteq> (P, kp)" using z(3,5) P(1) by auto
      from apart_not_in2 [OF kmalloc_heap.live_apart [OF keptD(1) [OF z(2)] this(1) P1 this(2)] in_region_mono [OF that z(4)]]
      show ?thesis using out z(7) [OF that] by simp
    qed
    show "m x = phys s x" if "kheap_stable s x" "\<not> in_region P kp x" for x using out [OF that(2)] same [OF that(1)] by simp
    show "process_ptr m P = process_ptr (phys s) P" "process_size m P = process_size (phys s) P"
      using f(4,5) fld by (simp_all add: process_ptr_def process_size_def)
  qed (use z f sz in simp_all)
qed

text \<open>The tasks lie apart from everything the load has written so far.\<close>

lemma tasks_filled:
  assumes rel: "files_rel D dsk fsp A s" and tasks: "tasks_ok s ts" "set ts \<inter> open_pages D A s = {}" and stat: "off_heap (stat_buffer pf) 8"
    and inv: "kheap_inv u" and live: "kheap_live s \<subseteq> kheap_live u" and out: "outside_files s u"
    and same: "\<And>x. \<lbrakk> kheap_stable s x; \<not> drv_scratch D x; \<not> in_pages (drv_base D s) x; \<not> in_region (stat_buffer pf) 8 x \<rbrakk> \<Longrightarrow> phys u x = phys s x"
  shows "tasks_ok u ts"
proof (rule tasks_ok_same [OF tasks(1) inv live])
  note R = files_relD [OF rel]
  fix q x assume q: "q \<in> set ts" and x: "in_region q 4096 x"
  have l: "(q, 4096) \<in> kheap_live s" using q tasks(1) by (simp add: tasks_ok_def)
  have "(q, 4096) \<notin> page_blocks (drv_base D s)" using q tasks(2) by (auto simp: open_pages_def)
  then have "\<not> in_pages (drv_base D s) x" by (rule block_not_in_pages [OF R(2) base_live [OF R(3)] l _ x])
  moreover have "in_heap x" by (rule live_in_heap [OF R(2) l x])
  ultimately show "phys u x = phys s x" using same [OF stable_live [OF R(2) l x]] scratch_off off_heap_not_in [OF stat] by blast
qed (simp_all add: outside_process [OF out])

text \<open>Up to the filled struct.\<close>

lemma load_filled:
  assumes rel: "files_rel D dsk fsp A s" and io: "disk_addr io = dsk" "dsk \<noteq> 0" and fss: "fss fsp = Some ops" "fsp \<noteq> 0"
    and ok: "call_ok (drv_need D) (drv_scratch D) (Open_File filename (mode_literal pf) t FILE_MODE_READ) s"
    and src: "path_names t \<noteq> []" "find_file V (path_names t) = Some f" and slot: "free_slot A = Some i" "i < 511"
    and bs: "file_bytes V f 0 (unat (file_size V f)) = Some bs" "file_size V f \<noteq> 0"
    and K: "K = 2 * length (path_names t) + 2 + drv_need D"
    and room: "unat (file_size V f) \<le> 4294963200" "free_run (4 * (K + 1) * (blocks_for (file_size V f) + 3)) s"
      "K + blocks_for (file_size V f) + 1033 \<le> kheap_pages s"
    and stat: "off_heap (stat_buffer pf) 8"
    and tasks: "tasks_ok s ts" "set ts \<inter> open_pages D A s = {}"
    and name: "\<forall>j \<le> length t. \<not> drv_scratch D (filename + of_nat j) \<and> \<not> in_pages (drv_base D s) (filename + of_nat j) \<and>
      \<not> in_region (stat_buffer pf) 8 (filename + of_nat j)"
  obtains P s1 s3 S s4 m where "kzalloc sizeof_process s = (P, s1)" and "P \<noteq> 0" and "process_init P (phys s1) = phys s1"
    and "process_load_data io pf fss filename P s1 = Inr (0, s3)" and "kzalloc lameos_user_program_stack_size s3 = (S, s4)" and "S \<noteq> 0"
    and "m = filled P filename S (of_nat nr) (phys s4)" and "files_rel D dsk fsp A (s4\<lparr>phys := m\<rparr>)"
    and "open_pages D A (s4\<lparr>phys := m\<rparr>) = open_pages D A s" and "outside_files s (s4\<lparr>phys := m\<rparr>)" and "kheap_live s \<subseteq> kheap_live (s4\<lparr>phys := m\<rparr>)"
    and "1027 \<le> kheap_pages (s4\<lparr>phys := m\<rparr>)" and "tasks_ok (s4\<lparr>phys := m\<rparr>) ts" and "process_filled bs t nr ts P (s4\<lparr>phys := m\<rparr>)"
    and "\<And>x. kheap_stable s x \<Longrightarrow> \<not> in_region (P + 112) 4 x"
    and "\<And>x. \<lbrakk> kheap_stable s x; \<not> drv_scratch D x; \<not> in_pages (drv_base D s) x; \<not> in_region (stat_buffer pf) 8 x \<rbrakk> \<Longrightarrow> m x = phys s x"
proof -
  let ?n = "file_size V f" and ?b = "blocks_for (file_size V f)"
  note inv = files_relD(2) [OF rel]
  obtain P kp s1 p k s3 where l: "kzalloc sizeof_process s = (P, s1)" "P \<noteq> 0" "process_init P (phys s1) = phys s1"
    "process_load_data io pf fss filename P s1 = Inr (0, s3)" "files_rel D dsk fsp A s3" "table_same D A s s3"
    "outside_files s s3" "kheap_pages s \<le> kheap_pages s3 + (2 + K + ?b)"
    "kheap_live s \<subseteq> kheap_live s3" "(P, kp) \<in> kheap_live s3" "(P, kp) \<notin> kheap_live s" "4224 \<le> kp"
    "(p, k) \<in> kheap_live s3" "(p, k) \<notin> kheap_live s" "(p, k) \<noteq> (P, kp)" "?n \<le> k"
    "process_ptr (phys s3) P = p" "process_size (phys s3) P = ?n"
    "bytes_at (phys s3) p (unat ?n) = bs" "\<And>x. kheap_stable s x \<Longrightarrow> \<not> in_region P kp x"
    "\<And>x. \<lbrakk> kheap_stable s x; \<not> drv_scratch D x; \<not> in_pages (drv_base D s) x; \<not> in_region (stat_buffer pf) 8 x \<rbrakk> \<Longrightarrow>
      phys s3 x = phys s x"
    by (rule load_struct [where fss = fss, OF rel io fss ok src slot bs K room stat]) (rule that; assumption)
  note inv3 = files_relD(2) [OF l(5)]
  have st: "kheap_stable s (filename + of_nat j)" if "j \<le> length t" for j using ok that by simp
  have name3: "cstr_at (phys s3) filename t"
    by (rule iffD1 [OF cstr_at_cong], rule l(21) [symmetric]) (use st name ok in auto)
  have run4: "free_run 4 s3"
    by (rule free_run_survives [OF inv inv3 l(9,8)], rule free_run_less [OF room(2)]) (simp add: algebra_simps)
  have len: "length t < 2 ^ 31" using ok by simp
  have st3: "\<forall>j \<le> length t. kheap_stable s3 (filename + of_nat j)" "\<forall>j \<le> length t. \<not> in_region P kp (filename + of_nat j)"
    using stable_mono [OF l(9) st] l(20) [OF st] by blast+
  obtain S ks s4 m where z: "kzalloc lameos_user_program_stack_size s3 = (S, s4)" "S \<noteq> 0" "m = filled P filename S (of_nat nr) (phys s4)"
    "files_rel D dsk fsp A (s4\<lparr>phys := m\<rparr>)" "table_same D A s3 (s4\<lparr>phys := m\<rparr>)" "outside_files s3 s4"
    "kheap_live (s4\<lparr>phys := m\<rparr>) = insert (S, ks) (kheap_live s3)" "(S, ks) \<notin> kheap_live s3" "16384 \<le> ks"
    "kheap_pages (s4\<lparr>phys := m\<rparr>) + 4 = kheap_pages s3"
    "process_stack m P = S" "process_id m P = of_nat nr" "process_ptr m P = process_ptr (phys s3) P"
    "process_size m P = process_size (phys s3) P" "cstr_at m (process_filename P) (take 107 t)"
    "\<And>x. in_region S 16384 x \<Longrightarrow> m x = 0" "\<And>x. kheap_stable s3 x \<Longrightarrow> \<not> in_region P kp x \<Longrightarrow> m x = phys s3 x"
    by (rule load_stack [where nr = "of_nat nr", OF l(5,10,12) run4 name3 len st3]) (rule that; assumption)
  let ?u = "s4\<lparr>phys := m\<rparr>"
  note invu = files_relD(2) [OF z(4)]
  have lu: "kheap_live s \<subseteq> kheap_live ?u" using l(9) z(7) by blast
  have out: "outside_files s ?u" using outside_trans [OF l(7) z(6)] by (simp add: outside_files_def)
  have same: "m x = phys s x" if "kheap_stable s x" "\<not> drv_scratch D x" "\<not> in_pages (drv_base D s) x" "\<not> in_region (stat_buffer pf) 8 x" for x
    using l(21) [OF that] z(17) [OF stable_mono [OF l(9) that(1)] l(20) [OF that(1)]] by simp
  have tasks_u: "tasks_ok ?u ts" by (rule tasks_filled [OF rel tasks stat invu lu out]) (simp add: same)
  have far: "\<not> in_region (P + 112) 4 x" if "kheap_stable s x" for x
    using l(20) [OF that] field_in_struct [of 112 4224 P x] in_region_mono [OF _ l(12)] by auto
  have nb: "length bs = unat ?n" using l(19) by auto
  have "process_filled bs t nr ts P ?u"
    unfolding process_filled_def
  proof (intro exI conjI)
    show "(P, kp) \<in> kheap_live ?u" "(process_ptr (phys ?u) P, k) \<in> kheap_live ?u" "(process_stack (phys ?u) P, ks) \<in> kheap_live ?u"
      using l(10,13,17) z(7,11,13) by simp_all
    have tu: "(q, 4096) \<in> kheap_live s" if "q \<in> set ts" for q using that tasks(1) by (simp add: tasks_ok_def)
    then have tu': "(q, 4096) \<in> kheap_live ?u" if "q \<in> set ts" for q using that lu by blast
    have "process_stack (phys ?u) P \<notin> set ts" using live_block_unique [OF invu tu', of S ks] z(7,9,11) by auto
    moreover have "P \<notin> set ts" using live_block_unique [OF invu tu', of P kp] l(10,12) z(7) by auto
    moreover have "process_ptr (phys ?u) P \<notin> set ts" using live_block_unique [OF inv3 _ l(13)] tu l(9,14,17) z(13) by auto
    ultimately show "{P, process_ptr (phys ?u) P, process_stack (phys ?u) P} \<inter> set ts = {}" by blast
    show "\<forall>i < length bs. phys ?u (process_ptr (phys ?u) P + of_nat i) = bs ! i"
    proof (intro allI impI)
      fix i assume i: "i < length bs"
      have x: "in_region p k (p + of_nat i)" using i nb l(16) unat_range_u32 [of ?n] by (subst in_region_of_nat) (simp_all add: word_le_nat_alt)
      note np = apart_not_in2 [OF kmalloc_heap.live_apart [OF inv3 l(13,10,15)] x]
      have "m (p + of_nat i) = phys s3 (p + of_nat i)" by (rule z(17) [OF stable_live [OF inv3 l(13) x] np])
      also have "\<dots> = bs ! i" using l(19) i nb by (auto simp: bytes_at_def)
      finally show "phys ?u (process_ptr (phys ?u) P + of_nat i) = bs ! i" using l(17) z(13) by simp
    qed
    show "length bs < 2 ^ 31" using live_size [OF inv3 l(13)] l(16) nb by (simp add: word_le_nat_alt)
    show "length bs \<le> unat k" using l(16) nb by (simp add: word_le_nat_alt)
  qed (use l z nb in auto)
  moreover have "1027 \<le> kheap_pages ?u" using z(10) l(8) room(3) by simp
  moreover have "open_pages D A ?u = open_pages D A s" by (simp add: open_pages_same [OF l(6)] open_pages_same [OF z(5)])
  ultimately show thesis by (intro that [OF l(1-4) z(1-4) _ out lu _ tasks_u _ far same])
qed

text \<open>The whole load.\<close>

lemma load_process:
  assumes rel: "files_rel D dsk fsp A s" and io: "disk_addr io = dsk" "dsk \<noteq> 0" and fss: "fss fsp = Some ops" "fsp \<noteq> 0"
    and ok: "call_ok (drv_need D) (drv_scratch D) (Open_File filename (mode_literal pf) t FILE_MODE_READ) s"
    and src: "path_names t \<noteq> []" "find_file V (path_names t) = Some f" and slot: "free_slot A = Some i" "i < 511"
    and bs: "file_bytes V f 0 (unat (file_size V f)) = Some bs" "file_size V f \<noteq> 0"
    and K: "K = 2 * length (path_names t) + 2 + drv_need D"
    and room: "unat (file_size V f) \<le> 4294963200" "free_run (4 * (K + 1) * (blocks_for (file_size V f) + 3)) s"
      "K + blocks_for (file_size V f) + 1033 \<le> kheap_pages s"
    and stat: "off_heap (stat_buffer pf) 8"
    and tasks: "tasks_ok s ts" "set ts \<inter> open_pages D A s = {}"
    and name: "\<forall>j \<le> length t. \<not> drv_scratch D (filename + of_nat j) \<and> \<not> in_pages (drv_base D s) (filename + of_nat j) \<and>
      \<not> in_region (stat_buffer pf) 8 (filename + of_nat j)"
    and table: "length (processes s) = 12" "first_zero 0 (processes s) = Some nr"
  defines "w \<equiv> \<lambda>x. drv_scratch D x \<or> in_pages (drv_base D s) x \<or> in_region (stat_buffer pf) 8 x"
  shows "\<exists>P s'. process_load io pf fss filename process s = Inr (0, P, s') \<and> files_rel D dsk fsp A s' \<and> process_started w bs t nr ts P s s'"
proof -
  obtain P s1 s3 S s4 m where l: "kzalloc sizeof_process s = (P, s1)" "P \<noteq> 0" "process_init P (phys s1) = phys s1"
    "process_load_data io pf fss filename P s1 = Inr (0, s3)" "kzalloc lameos_user_program_stack_size s3 = (S, s4)" "S \<noteq> 0"
    "m = filled P filename S (of_nat nr) (phys s4)" "files_rel D dsk fsp A (s4\<lparr>phys := m\<rparr>)"
    "open_pages D A (s4\<lparr>phys := m\<rparr>) = open_pages D A s" "outside_files s (s4\<lparr>phys := m\<rparr>)" "kheap_live s \<subseteq> kheap_live (s4\<lparr>phys := m\<rparr>)"
    "1027 \<le> kheap_pages (s4\<lparr>phys := m\<rparr>)" "tasks_ok (s4\<lparr>phys := m\<rparr>) ts" "process_filled bs t nr ts P (s4\<lparr>phys := m\<rparr>)"
    "\<And>x. kheap_stable s x \<Longrightarrow> \<not> in_region (P + 112) 4 x"
    "\<And>x. \<lbrakk> kheap_stable s x; \<not> drv_scratch D x; \<not> in_pages (drv_base D s) x; \<not> in_region (stat_buffer pf) 8 x \<rbrakk> \<Longrightarrow> m x = phys s x"
    by (rule load_filled [where fss = fss, OF rel io fss ok src slot bs K room stat tasks name]) (rule that; assumption)
  define u where "u = s4\<lparr>phys := m\<rparr>"
  note lu = l(8-14) [folded u_def]
  obtain T s5 m' where e: "task_new P u = (T, s5)" "T \<noteq> 0" "process_map_memory P (store32 (phys s5) (P + 112) T) = (0, m')"
    "process_started (in_region (P + 112) 4) bs t nr ts P u (s5\<lparr>phys := m', processes := (processes s5)[nr := P]\<rparr>)"
    "\<exists>m h c. s5 = u\<lparr>phys := m, task_tail := T, task_head := h, current_task := c\<rparr>"
    "\<forall>q. (q, 4096) \<in> kheap_live u \<and> q \<notin> set ts \<longrightarrow> (\<forall>x. in_region q 4096 x \<longrightarrow> m' x = phys u x)"
    by (rule start_filled [OF lu(6,5,7)]) (rule that; assumption)
  define s' where "s' = s5\<lparr>phys := m', processes := (processes s5)[nr := P]\<rparr>"
  note st = e(4) [folded s'_def]
  note pr = free_process [OF table]
  then have nr: "(12 \<le> nr) = False" by simp
  have "process_load io pf fss filename process s = Inr (0, P, s')"
    using l(1,2,4-6) e(1-3)
    by (simp add: nr lameos_max_processes_def process_load_def process_load_for_slot_def load_for_slot_body_def pr l(3) filled_def l(7) u_def s'_def Let_def iserr_def)
  moreover have "files_rel D dsk fsp A s'"
  proof (rule rel_pages_same(1) [OF lu(1)])
    show "kheap_inv s'" using process_startedD(3) [OF st] by (simp add: tasks_ok_def)
    show "the_disk s' = the_disk u" "file_descriptors s' = file_descriptors u" using e(5) by (auto simp: s'_def)
    note lp = open_pages_live [OF lu(1)]
    show "pages_same (open_pages D A u) u s'"
    proof (rule pages_sameI)
      show "page_blocks (open_pages D A u) \<subseteq> kheap_live s'" using lp process_startedD(10) [OF st] by blast
      fix x assume "in_pages (open_pages D A u) x"
      then obtain q where q: "q \<in> open_pages D A u" "in_region q 4096 x" by (auto simp: in_pages_def)
      then have "(q, 4096) \<in> kheap_live u" "q \<notin> set ts" using lp tasks(2) lu(2) by auto
      then show "phys s' x = phys u x" using e(6) q(2) by (simp add: s'_def)
    qed
  qed
  moreover have "process_started w bs t nr ts P s s'" 
    by (rule process_started_from [OF st lu(3,4)]) (use l(15,16) in \<open>simp add: u_def w_def\<close>)
  ultimately show ?thesis by blast
qed

end

section \<open>Properties\<close>

lemma start_room:
  assumes "kheap_inv s" and "free_run (32 * (b + 40)) s"
  shows "free_run (4 * (7 + 1) * (b + 3)) s" and "7 + b + 1033 \<le> kheap_pages s"
proof -
  show "free_run (4 * (7 + 1) * (b + 3)) s" by (rule free_run_less [OF assms(2)]) simp
  show "7 + b + 1033 \<le> kheap_pages s" using free_run_pages [OF assms] by simp
qed

lemma start_fat16:
  assumes "fat16_table F A s" and "disk_addr (sys_io F) \<noteq> 0" and "fat16_fs_addr (sys_layout F) \<noteq> 0"
    and "call_ok 3 (fat16_scratch (sys_layout F)) (Open_File filename (mode_literal pf) t FILE_MODE_READ) s"
    and "root_find F (path_names t) = Some f" and "entry_data F f 0 (unat (entry_size f)) = Some bs"
    and "free_slot A = Some i" and "i < 511"
    and "free_run (32 * (blocks_for (entry_size f) + 40)) s"
    and "off_heap (stat_buffer pf) 8"
    and "tasks_ok s ts" and "set ts \<inter> open_pages (fat16_driver F) A s = {}"
    and "\<forall>j \<le> length t. \<not> fat16_scratch (sys_layout F) (filename + of_nat j) \<and> \<not> in_pages (fat16_base s) (filename + of_nat j) \<and>
      \<not> in_region (stat_buffer pf) 8 (filename + of_nat j)"
    and "length (processes s) = 12" and "first_zero 0 (processes s) = Some nr"
  shows "\<exists>P s'. process_load (sys_io F) pf (kernel_filesystems (sys_io F) (sys_layout F)) filename process s = Inr (0, P, s') \<and>
    fat16_table F A s' \<and>
    process_started (\<lambda>x. fat16_scratch (sys_layout F) x \<or> in_pages (fat16_base s) x \<or> in_region (stat_buffer pf) 8 x) bs t nr ts P s s'"
proof -
  have fss: "kernel_filesystems (sys_io F) (sys_layout F) (fat16_fs_addr (sys_layout F)) = Some (fat16_fs (sys_io F) (sys_layout F))"
    by (simp add: kernel_filesystems_def)
  have ne: "path_names t \<noteq> []" "entry_size f \<noteq> 0" "unat (entry_size f) \<le> 4294963200" and len: "7 = 2 * length (path_names t) + 2 + 3"
    using assms(5,6) by (auto simp: root_find_def entry_data_def split: if_splits list.splits)
  note room = start_room [OF files_relD(2) [OF assms(1)] assms(9)]
  show ?thesis
    by (rule fat16_loader.load_process [where F = F and fss = "kernel_filesystems (sys_io F) (sys_layout F)" and fsp = "fat16_fs_addr (sys_layout F)",
      unfolded fat16_driver_simps fat16_files_simps,
      OF assms(1) refl assms(2) fss assms(3,4) ne(1) assms(5,7,8,6) ne(2) len ne(3) room assms(10-15)])
qed

text \<open>C8. \<open>process_load\<close> from the path to the runnable task, on a mounted FAT16 disk with any files open: for a file of
  the root directory that fits in its first cluster (up to 64 KiB on the disk of LameOS), a free place in the table of processes and enough free blocks in a row, it
  returns 0 and a process in the first free place, with its name, its size and a new task at the end of
  the list of tasks whose saved registers start the program in user mode. In the address space of the
  task the bytes of the file, as the FAT16 format places them, lie at \<open>0x400000\<close>, a stack of 16 KiB of zeros ends at \<open>0x3FF000\<close>, and every
  other page is itself. The blocks of the heap, the open files and the older tasks are still there, and
  nothing else that is stable has changed but the local objects of the driver and the buffer for the size.\<close>

theorem process_load_starts:
  assumes "fat16_table F A s" and "disk_addr (sys_io F) \<noteq> 0" and "fat16_fs_addr (sys_layout F) \<noteq> 0"
    and "call_ok 3 (fat16_scratch (sys_layout F)) (Open_File filename (mode_literal pf) t FILE_MODE_READ) s"
    and "root_find F (path_names t) = Some f" and "one_cluster F f"
    and "free_slot A = Some i" and "i < 511"
    and "free_run (32 * (blocks_for (entry_size f) + 40)) s"
    and "off_heap (stat_buffer pf) 8"
    and "tasks_ok s ts" and "set ts \<inter> open_pages (fat16_driver F) A s = {}"
    and "\<forall>j \<le> length t. \<not> fat16_scratch (sys_layout F) (filename + of_nat j) \<and> \<not> in_pages (fat16_base s) (filename + of_nat j) \<and>
      \<not> in_region (stat_buffer pf) 8 (filename + of_nat j)"
    and "length (processes s) = 12" and "first_zero 0 (processes s) = Some nr"
  shows "\<exists>P s'. process_load (sys_io F) pf (kernel_filesystems (sys_io F) (sys_layout F)) filename process s = Inr (0, P, s') \<and>
    fat16_table F A s' \<and>
    process_started (\<lambda>x. fat16_scratch (sys_layout F) x \<or> in_pages (fat16_base s) x \<or> in_region (stat_buffer pf) 8 x)
      (entry_content F f) t nr ts P s s'"
  by (rule start_fat16 [OF assms(1-5) one_cluster_data [OF assms(6)] assms(7-15)])

theorem process_load_starts_witness:
  "\<exists>s P s'. sample_boot = Inr s \<and> process_load (image_ports volume_image) sample_frame
      (kernel_filesystems (image_ports volume_image) sample_layout) 0x510 0 s = Inr (0, P, s') \<and>
    processes s' = P # replicate 11 0 \<and>
    virt_load (process_space (phys s') P) (phys s') 0x400001 = Some 0x69"
proof -
  have fields: "sys_io sample_system = image_ports volume_image" "sys_layout sample_system = sample_layout"
    by (simp_all add: sample_system_def)
  let ?fss = "kernel_filesystems (sys_io sample_system) (sys_layout sample_system)"
  let ?open = "Open_File 0x510 (mode_literal sample_frame) user_path FILE_MODE_READ"
  obtain s k where s: "sample_boot = Inr s" "fat16_table sample_system (\<lambda>_. None) s"
    "call_ok 3 (fat16_scratch sample_layout) (Open_File 0x510 0x600 user_path FILE_MODE_READ) s"
    "free_run 1312 s" "files.more s = files.more loader_kernel"
    "\<And>x. x < 0x700 \<Longrightarrow> kheap_stable s x \<and> \<not> fat16_scratch sample_layout x"
    by (rule booted_loader) (rule that; assumption)
  have ok: "call_ok 3 (fat16_scratch (sys_layout sample_system)) ?open s"
    using s(3) unfolding fields by (simp add: sample_frame_def del: call_ok.simps)
  have ne: "fat16_fs_addr (sys_layout sample_system) \<noteq> 0" by (simp add: sample_ids(2))
  have run: "free_run (32 * (blocks_for (entry_size (disk_entry volume_image 3 0)) + 40)) s" using s(4) by (simp add: sample_reads blocks_for_def)
  have more: "task_head s = 0" "task_tail s = 0" "current_task s = 0" "processes s = replicate 12 0"
    using more_process [OF s(5)] by (simp_all add: loader_kernel_def boot_kernel_def kheap.defs)
  have tasks: "tasks_ok s []" using files_relD(2) [OF s(2)] more by (simp add: tasks_ok_def)
  have len: "length user_path = 12" by (simp add: user_path_def blank_bin_def)
  have low: "0x510 + of_nat j < (0x700 :: u32)" if "j \<le> 12" for j
    by (rule low_region [of "0x510" 13]) (use that in \<open>simp_all add: in_region_of_nat\<close>)
  have name: "\<forall>j \<le> length user_path. \<not> fat16_scratch (sys_layout sample_system) (0x510 + of_nat j) \<and>
      \<not> in_pages (fat16_base s) (0x510 + of_nat j) \<and> \<not> in_region (stat_buffer sample_frame) 8 (0x510 + of_nat j)"
  proof (intro allI impI conjI)
    fix j assume j: "j \<le> length user_path"
    note lo = low [of j]
    show "\<not> fat16_scratch (sys_layout sample_system) (0x510 + of_nat j)" using s(6) lo j len by (simp add: fields)
    have "apart 0x620 8 0x510 13" by (simp add: apart_def)
    then show "\<not> in_region (stat_buffer sample_frame) 8 (0x510 + of_nat j)"
      using apart_not_in [of "0x620" 8 "0x510" 13] j len by (simp add: sample_frame_def in_region_of_nat)
    have "\<not> in_heap (0x510 + of_nat j)" using low_memory(1) lo j len by simp
    then show "\<not> in_pages (fat16_base s) (0x510 + of_nat j)"
      using in_pages_stable(2) [OF files_relD(2) [OF s(2)] fat16.base_live [OF files_relD(3) [OF s(2)]]] by auto
  qed
  have table: "length (processes s) = 12" "first_zero 0 (processes s) = Some 0" by (simp_all add: more numeral_eq_Suc)
  have zero: "(0 :: nat) < 511" "off_heap (stat_buffer sample_frame) 8" "set [] \<inter> open_pages (fat16_driver sample_system) (\<lambda>_. None) s = {}"
    by (simp_all add: off_heap_low sample_frame_def)
  obtain P s' where p: "process_load (sys_io sample_system) sample_frame ?fss 0x510 0 s = Inr (0, P, s')"
    "process_started (\<lambda>x. fat16_scratch (sys_layout sample_system) x \<or> in_pages (fat16_base s) x \<or> in_region (stat_buffer sample_frame) 8 x)
      [0x48, 0x69] user_path 0 [] P s s'"
    using process_load_starts [where pf = sample_frame and process = 0, OF s(2) sample_ids(1) ne ok sample_reads(1) sample_content(1) empty_slot zero(1)
        run zero(2) tasks zero(3) name table] unfolding sample_content(2) by blast
  have "processes s' = P # replicate 11 0" using process_startedD(1) [OF p(2)] more(4) by (simp add: numeral_eq_Suc)
  moreover have "virt_load (process_space (phys s') P) (phys s') (0x400000 + of_nat 1) = Some ([0x48, 0x69] ! 1)"
    by (rule process_startedD(2) [OF p(2)]) simp
  ultimately show ?thesis using s(1) p(1) unfolding fields by auto
qed

end
