(* ===== verification/KeyCall.thy ===== *)
theory KeyCall
  imports Interrupt
begin

text \<open>
  Hardware interrupts: a key press and an interrupt without a handler of its own are answered on the
  kernel stack, acknowledged, and invisible to the code they interrupt.
\<close>

section \<open>The message of the keyboard\<close>

definition key_text :: "u8 list" where
  "key_text = map of_char ''Key pressed.''"

lemma key_text_facts: "length key_text = 12" "10 \<notin> set key_text"
  by (simp_all add: key_text_def)

lemma write_bytes_more: "terminal.more (write_bytes t s) = terminal.more s"
  by (induction t arbitrary: s) simp_all

lemma print_key: "print_literal (''Key pressed.'' @ [CHR 0x0A]) s = term_writechar 10 15 (write_bytes key_text s)"
  by (simp add: print_literal_def key_text_def write_bytes_def)

lemma same_terminal:
  fixes s s' :: "'a terminal_scheme"
  assumes "terminal.more s' = terminal.more s"
  shows "s' = s\<lparr>phys := phys s', video_mem := video_mem s', term_row := term_row s', term_col := term_col s'\<rparr>"
  using assms by (cases s; cases s'; simp)

text \<open>The message is shown from the cursor on, then the cursor moves to the start of the next row; nothing but
  the screen and the cursor changes.\<close>

lemma key_message:
  assumes "fits s 12"
  defines "s' \<equiv> print_literal (''Key pressed.'' @ [CHR 0x0A]) s"
  shows "\<forall>k < fb_cells. cell s' k = (if cursor s \<le> k \<and> k < cursor s + 12 then term_make_char (key_text ! (k - cursor s)) 15 else cell s k)"
    and "\<And>x. \<not> in_framebuffer s x \<Longrightarrow> phys s' x = phys s x" and "term_col s' = 0"
    and "s' = s\<lparr>phys := phys s', term_row := term_row s', term_col := 0\<rparr>"
proof -
  have "printed key_text s (write_bytes key_text s)"
    by (rule write_bytes_printed) (use assms key_text_facts in simp_all)
  then have p: "video_mem (write_bytes key_text s) = video_mem s"
    "\<forall>k < fb_cells. cell (write_bytes key_text s) k =
       (if cursor s \<le> k \<and> k < cursor s + 12 then term_make_char (key_text ! (k - cursor s)) 15 else cell s k)"
    "\<forall>x. \<not> in_framebuffer s x \<longrightarrow> phys (write_bytes key_text s) x = phys s x"
    by (simp_all add: printed_def key_text_facts(1))
  have s': "s' = (write_bytes key_text s)\<lparr>term_row := term_row (write_bytes key_text s) + 1, term_col := 0\<rparr>"
    unfolding s'_def print_key by (simp add: term_writechar_def)
  have c: "cell s' k = cell (write_bytes key_text s) k" for k by (simp add: s' cell_def cell_addr_def)
  show "\<forall>k < fb_cells. cell s' k = (if cursor s \<le> k \<and> k < cursor s + 12 then term_make_char (key_text ! (k - cursor s)) 15 else cell s k)"
    unfolding c by (rule p(2))
  show "phys s' x = phys s x" if "\<not> in_framebuffer s x" for x using p(3) that by (simp add: s')
  show "term_col s' = 0" by (simp add: s')
  have "s' = s\<lparr>phys := phys s', video_mem := video_mem s', term_row := term_row s', term_col := term_col s'\<rparr>"
    by (rule same_terminal) (simp add: s' write_bytes_more)
  moreover have "video_mem s' = video_mem s" "term_col s' = 0" by (simp_all add: s' p(1))
  ultimately show "s' = s\<lparr>phys := phys s', term_row := term_row s', term_col := 0\<rparr>" by (cases s; cases s') simp
qed

lemma cell_write:
  assumes "\<And>x. in_framebuffer s x \<Longrightarrow> m x = phys s x" and "k < fb_cells"
  shows "cell (s\<lparr>phys := m\<rparr>) k = cell s k"
proof -
  have "in_framebuffer s (cell_addr s k)" "in_framebuffer s (cell_addr s k + 1)"
  proof -
    have "in_framebuffer s (video_mem s + of_nat j)" if "j < 4000" for j
      using that by (simp add: in_framebuffer_def in_region_of_nat)
    from this [of "2 * k"] this [of "2 * k + 1"] assms(2) show "in_framebuffer s (cell_addr s k)" "in_framebuffer s (cell_addr s k + 1)"
      by (simp_all add: cell_addr_def algebra_simps)
  qed
  then show ?thesis using assms(1) by (simp add: cell_def cell_addr_def load16_def)
qed

text \<open>What the frame on the stack gives back, if the handler leaves it alone.\<close>

lemma frame_returns:
  assumes "\<And>x. in_region frame 52 x \<Longrightarrow> m x = push_frame_at esp frame r m0 x"
  shows "pop_frame frame (load32 m (frame + 28)) m = r"
proof -
  have "load32 m (frame + 28) = load32 (push_frame_at esp frame r m0) (frame + 28)"
    by (rule load32_struct [of _ 52]) (use assms in auto)
  also have "\<dots> = r_eax r" by (rule push_frame_at_field) (simp add: frame_fields_def)
  finally have "pop_frame frame (load32 m (frame + 28)) m = pop_frame frame (r_eax r) (push_frame_at esp frame r m0)"
    using pop_frame_cong [OF assms] by simp
  then show ?thesis by (simp add: pop_push_frame_at)
qed

text \<open>What \<open>iret\<close> takes from a frame with an error code: every word of the processor one place too early.\<close>

definition shifted :: "u32 \<Rightarrow> registers \<Rightarrow> registers" where
  "shifted code r = r\<lparr>r_ip := code, r_cs := r_ip r, r_flags := r_cs r, r_esp := r_flags r, r_ss := r_esp r\<rparr>"

definition error_fields :: "ptr \<Rightarrow> u32 \<Rightarrow> registers \<Rightarrow> (u32 \<times> u32) list" where
  "error_fields esp code r = [(52, r_ss r), (48, r_esp r), (44, r_flags r), (40, r_cs r), (36, r_ip r), (32, code),
    (28, r_eax r), (24, r_ecx r), (20, r_edx r), (16, r_ebx r), (12, esp), (8, r_ebp r), (4, r_esi r), (0, r_edi r)]"

lemma error_frame_returns:
  shows "pop_frame frame (load32 (push_error_frame esp frame code r m) (frame + 28)) (push_error_frame esp frame code r m) = shifted code r"
    and "\<not> in_region frame 56 x \<Longrightarrow> push_error_frame esp frame code r m x = m x"
proof -
  have e: "push_error_frame esp frame code r m = store_fields frame (error_fields esp code r) m"
    by (simp add: push_error_frame_def store_fields_def error_fields_def)
  have f: "load32 (push_error_frame esp frame code r m) (frame + k) = v" if "(k, v) \<in> set (error_fields esp code r)" for k v
    unfolding e by (rule load_store_fields [OF _ that]) (simp add: field_list_def error_fields_def)
  show "pop_frame frame (load32 (push_error_frame esp frame code r m) (frame + 28)) (push_error_frame esp frame code r m) = shifted code r"
    using f [of 0 "r_edi r"] f [unfolded error_fields_def] by (simp add: pop_frame_def shifted_def error_fields_def)
  show "\<not> in_region frame 56 x \<Longrightarrow> push_error_frame esp frame code r m x = m x"
    unfolding e by (rule store_fields_struct) (auto simp: error_fields_def)
qed

section \<open>Properties\<close>


definition key_kernel :: "sample_device interrupts" where
  "key_kernel = call_kernel\<lparr>video_mem := 0xB8000, term_row := 0, term_col := 0\<rparr>"


end
