(* ===== verification/KernelBoot.thy ===== *)
theory KernelBoot
  imports ProcessStart KeyCall
begin

text \<open>
  \<open>kernel_main\<close> of \<open>src/kernel.c\<close> from its first call to the first instruction of the program: the screen, the tables
  of the processor, the heap, the disk, paging, the system calls and the first process, in the order of the
  code (\<open>boot_mounts\<close>, \<open>boot_tables_up\<close>, \<open>boot_paged\<close>, \<open>boot_loads\<close>, \<open>first_task\<close>). The statements on the parts compose because
  each leaves the bytes of the others alone.
\<close>

section \<open>The welcome\<close>

definition welcome_text :: "u8 list" where "welcome_text = map of_char ''Welcome to LameOS!''"
definition prompt_text :: "u8 list" where "prompt_text = map of_char ''--> ''"

text \<open>The cells of the screen after the welcome.\<close>

definition welcome_cell :: "nat \<Rightarrow> u16" where
  "welcome_cell k = (if k < 18 then term_make_char (welcome_text ! k) 15
     else if 160 \<le> k \<and> k < 164 then term_make_char (prompt_text ! (k - 160)) 15 else term_make_char 0x20 0)"

definition cleared :: "nat \<Rightarrow> 'a terminal_scheme \<Rightarrow> 'a terminal_scheme \<Rightarrow> bool" where
  "cleared n s s' \<longleftrightarrow> (\<exists>m. s' = s\<lparr>phys := m\<rparr> \<and> (\<forall>x. \<not> in_framebuffer s x \<longrightarrow> m x = phys s x)) \<and>
     (\<forall>k < n. cell s' k = term_make_char 0x20 0)"

lemma putchar_cell:
  "term_putchar (of_nat x) (of_nat y) c color s = s\<lparr>phys := store16 (phys s) (cell_addr s (80 * y + x)) (term_make_char c color)\<rparr>"
  by (simp add: term_putchar_def cell_addr_def vga_width_def algebra_simps)

lemma cleared_Suc:
  assumes "cleared n s s'" and "n < 2000" and "n = 80 * y + x"
  shows "cleared (Suc n) s (term_putchar (of_nat x) (of_nat y) 0x20 0 s')"
proof -
  obtain m where m: "s' = s\<lparr>phys := m\<rparr>" "\<And>x. \<not> in_framebuffer s x \<Longrightarrow> m x = phys s x" "\<And>k. k < n \<Longrightarrow> cell s' k = term_make_char 0x20 0"
    using assms(1) by (auto simp: cleared_def)
  let ?m = "store16 m (cell_addr s n) (term_make_char 0x20 0)"
  have addr: "cell_addr (s\<lparr>phys := u\<rparr>) k = cell_addr s k" for u k by (simp add: cell_addr_def)
  have new: "term_putchar (of_nat x) (of_nat y) 0x20 0 s' = s\<lparr>phys := ?m\<rparr>" by (simp add: putchar_cell m(1) addr flip: assms(3))
  have "?m a = phys s a" if "\<not> in_framebuffer s a" for a
  proof -
    have "\<not> in_region (cell_addr s n) 2 a" using cell_in_framebuffer [of n s a] that assms(2) by auto
    then show ?thesis by (simp add: store16_other m(2) [OF that])
  qed
  moreover have "load16 ?m (cell_addr s k) = term_make_char 0x20 0" if "k < Suc n" for k
  proof (cases "k = n")
    case False
    then have "apart (cell_addr s n) 2 (cell_addr s k) 2" using cells_apart [of n k s] assms(2) that by simp
    then show ?thesis using m(3) [of k] False that by (simp add: load16_store16_apart cell_def m(1) addr)
  qed simp
  ultimately show ?thesis unfolding new cleared_def by (auto simp: cell_def addr)
qed

lemma cleared_row:
  assumes "cleared (80 * y) s s'" and "y < 25"
  shows "k \<le> 80 \<Longrightarrow> cleared (80 * y + k) s (fold (\<lambda>x. term_putchar (of_nat x) (of_nat y) 0x20 0) [0..<k] s')"
proof (induction k)
  case (Suc k)
  have "cleared (Suc (80 * y + k)) s (term_putchar (of_nat k) (of_nat y) 0x20 0 (fold (\<lambda>x. term_putchar (of_nat x) (of_nat y) 0x20 0) [0..<k] s'))"
    by (rule cleared_Suc) (use Suc assms(2) in simp_all)
  then show ?case by simp
qed (use assms in simp)

lemma cleared_screen:
  "n \<le> 25 \<Longrightarrow> cleared (80 * n) s (fold (\<lambda>y. fold (\<lambda>x. term_putchar (of_nat x) (of_nat y) 0x20 0) [0..<80]) [0..<n] s)"
proof (induction n)
  case 0
  have "s = s\<lparr>phys := phys s\<rparr>" by simp
  then show ?case unfolding cleared_def by (intro conjI exI [of _ "phys s"]) simp_all
next
  case (Suc n)
  then have "cleared (80 * n) s (fold (\<lambda>y. fold (\<lambda>x. term_putchar (of_nat x) (of_nat y) 0x20 0) [0..<80]) [0..<n] s)" "n < 25" by simp_all
  from cleared_row [OF this, of 80] show ?case by (simp add: add.commute)
qed

lemma term_initialize_clears:
  obtains m where "term_initialize s = s\<lparr>phys := m, video_mem := 0xB8000, term_row := 0, term_col := 0\<rparr>"
    and "\<And>x. \<not> in_region 0xB8000 4000 x \<Longrightarrow> m x = phys s x"
    and "\<And>k. k < 2000 \<Longrightarrow> cell (term_initialize s) k = term_make_char 0x20 0"
proof -
  define u where "u = s\<lparr>term_row := 0, term_col := 0, video_mem := 0xB8000\<rparr>"
  have t: "term_initialize s = fold (\<lambda>y. fold (\<lambda>x. term_putchar (of_nat x) (of_nat y) 0x20 0) [0..<80]) [0..<25] u"
    by (simp add: term_initialize_def u_def vga_width_def vga_height_def)
  from cleared_screen [of 25 u] obtain m where m: "term_initialize s = u\<lparr>phys := m\<rparr>" "\<forall>x. \<not> in_framebuffer u x \<longrightarrow> m x = phys u x"
    "\<forall>k < 2000. cell (term_initialize s) k = term_make_char 0x20 0"
    unfolding cleared_def t [symmetric] by auto
  have fb: "in_framebuffer u x \<longleftrightarrow> in_region 0xB8000 4000 x" for x by (simp add: in_framebuffer_def u_def)
  show thesis by (rule that [of m]) (use m fb in \<open>simp_all add: u_def\<close>)
qed

lemma welcome_screen:
  obtains m r c where "print_literal (''Welcome to LameOS!'' @ [CHR 0x0A, CHR 0x0A] @ ''--> '') (term_initialize s) =
      s\<lparr>phys := m, video_mem := 0xB8000, term_row := r, term_col := c\<rparr>"
    and "\<And>x. \<not> in_region 0xB8000 4000 x \<Longrightarrow> m x = phys s x"
    and "\<And>k. k < 2000 \<Longrightarrow> load16 m (0xB8000 + of_nat (2 * k)) = welcome_cell k"
proof -
  obtain m0 where i: "term_initialize s = s\<lparr>phys := m0, video_mem := 0xB8000, term_row := 0, term_col := 0\<rparr>"
    "\<And>x. \<not> in_region 0xB8000 4000 x \<Longrightarrow> m0 x = phys s x"
    "\<And>k. k < 2000 \<Longrightarrow> cell (term_initialize s) k = term_make_char 0x20 0"
    by (rule term_initialize_clears) (rule that; assumption)
  define u where "u = term_initialize s"
  define v where "v = write_bytes welcome_text u"
  define v' where "v' = v\<lparr>term_row := term_row v + 1 + 1, term_col := 0\<rparr>"
  define w where "w = write_bytes prompt_text v'"
  have len: "length welcome_text = 18" "10 \<notin> set welcome_text" "length prompt_text = 4" "10 \<notin> set prompt_text"
    by (simp_all add: welcome_text_def prompt_text_def)
  have u: "cursor u = 0" "video_mem u = 0xB8000" "term_col u = 0" by (simp_all add: u_def i(1) cursor_def)
  have p1: "printed welcome_text u v"
    unfolding v_def by (rule write_bytes_printed) (simp_all add: fits_def u len vga_width_def)
  have vm: "video_mem v = 0xB8000" using p1 u by (simp add: printed_def)
  have "cursor v = 18" using p1 u len by (simp add: printed_def)
  then have rv: "unat (term_row v) = 0" by (auto simp: cursor_def vga_width_def)
  then have "term_row v = 0" by (simp add: unat_eq_0)
  then have c: "cursor v' = 160" by (simp add: v'_def cursor_def vga_width_def)
  have p2: "printed prompt_text v' w"
    unfolding w_def by (rule write_bytes_printed) (simp_all add: fits_def c len vga_width_def, simp add: v'_def)
  have w: "print_literal (''Welcome to LameOS!'' @ [CHR 0x0A, CHR 0x0A] @ ''--> '') (term_initialize s) = w"
  proof -
    have "print_literal (''Welcome to LameOS!'' @ [CHR 0x0A, CHR 0x0A] @ ''--> '') u =
        write_bytes prompt_text (term_writechar 10 15 (term_writechar 10 15 v))"
      by (simp add: print_literal_def write_bytes_def v_def welcome_text_def prompt_text_def)
    also have "\<dots> = w" by (simp add: w_def v'_def writechar_newline)
    finally show ?thesis by (simp add: u_def)
  qed
  have cells: "cell w k = welcome_cell k" if "k < 2000" for k
  proof -
    have "cell v' k = cell v k" by (simp add: v'_def cell_def cell_addr_def)
    then show ?thesis
      using p1 p2 that i(3) [OF that] by (auto simp: printed_def u c len welcome_cell_def simp flip: u_def)
  qed
  have fb: "in_framebuffer u x \<longleftrightarrow> in_region 0xB8000 4000 x" "in_framebuffer v' x \<longleftrightarrow> in_region 0xB8000 4000 x" for x
    by (simp_all add: in_framebuffer_def u v'_def vm)
  have out: "phys w x = phys s x" if "\<not> in_region 0xB8000 4000 x" for x
    using p1 p2 i(2) [OF that] that fb by (simp add: printed_def v'_def) (simp add: u_def i(1))
  have vw: "video_mem w = 0xB8000" using p2 vm by (simp add: printed_def v'_def)
  have "terminal.more w = terminal.more s"
    by (simp add: w_def v'_def v_def write_bytes_more) (simp add: u_def i(1))
  then have "w = s\<lparr>phys := phys w, video_mem := video_mem w, term_row := term_row w, term_col := term_col w\<rparr>" by (rule same_terminal)
  note eq = trans [OF w this, unfolded vw]
  show thesis by (rule that [OF eq]) (use cells out in \<open>simp_all add: cell_def cell_addr_def vw\<close>)
qed

section \<open>The tables of the kernel\<close>

text \<open>The objects the linker places, and the local objects of the driver and of \<open>process_load_binary\<close>.\<close>

definition boot_tables :: "image \<Rightarrow> (ptr \<times> u32) list" where
  "boot_tables im = [(0xB8000, 4000), (gdt_real_addr im, 48), (idt_descriptors (im_idt im), 2048),
     (idtr_descriptor (im_idt im), 6), (tss_addr im, 100)]"

definition table_byte :: "image \<Rightarrow> ptr \<Rightarrow> bool" where
  "table_byte im x \<longleftrightarrow> list_ex (\<lambda>(a, n). in_region a n x) (boot_tables im)"

definition driver_byte :: "image \<Rightarrow> ptr \<Rightarrow> bool" where
  "driver_byte im x \<longleftrightarrow> fat16_scratch (im_layout im) x \<or> in_region (fat16_fs_addr (im_layout im) + 24) 6 x \<or>
     in_region (stat_buffer (im_process im)) 8 x"

definition literal_byte :: "image \<Rightarrow> ptr \<Rightarrow> bool" where
  "literal_byte im x \<longleftrightarrow> in_region (image.blank_bin im) 13 x \<or> x = mode_literal (im_process im)"

text \<open>The objects lie apart from each other and outside the heap and its table.\<close>

definition image_ok :: "image \<Rightarrow> bool" where
  "image_ok im \<longleftrightarrow> all_apart (boot_tables im) \<and>
     off_heap (fat16_fs_addr (im_layout im) + 24) 6 \<and> off_heap (stat_buffer (im_process im)) 8 \<and>
     (\<forall>x. table_byte im x \<or> literal_byte im x \<longrightarrow> \<not> in_heap x \<and> \<not> in_table boot_heap x \<and> \<not> driver_byte im x) \<and>
     (\<forall>x. literal_byte im x \<longrightarrow> \<not> table_byte im x)"

text \<open>What the tables hold once they are set up.\<close>

definition screen_up :: "mem \<Rightarrow> bool" where
  "screen_up m \<longleftrightarrow> (\<forall>k < 2000. load16 m (0xB8000 + of_nat (2 * k)) = welcome_cell k)"

definition segments_up :: "image \<Rightarrow> mem \<Rightarrow> bool" where
  "segments_up im m \<longleftrightarrow> (\<forall>i < 6. describes m (gdt_real_addr im + 8 * of_nat i) (kernel_gdt (tss_addr im) ! i))"

definition gates_up :: "image \<Rightarrow> mem \<Rightarrow> bool" where
  "gates_up im m \<longleftrightarrow> (\<forall>j < 256. gate m (idt_descriptors (im_idt im) + 8 * of_nat j) = (handler_of (im_idt im) j, 0x08, 0, 0xEE))"

definition tss_up :: "image \<Rightarrow> mem \<Rightarrow> bool" where
  "tss_up im m \<longleftrightarrow> load32 m (tss_addr im + 4) = 0x600000 \<and> load32 m (tss_addr im + 8) = 0x10"

lemma part_of_region:
  assumes "in_region (a + of_nat k) (of_nat n) x" and "k + n \<le> l" and "l < 2 ^ 32"
  shows "in_region a (of_nat l) x"
proof (rule in_substruct [OF _ assms(1)])
  have "unat (of_nat k :: u32) = k" "unat (of_nat n :: u32) = n" "unat (of_nat l :: u32) = l"
    using assms(2,3) by (simp_all add: unsigned_of_nat take_bit_nat_eq_self)
  then show "unat (of_nat k :: u32) + unat (of_nat n :: u32) \<le> unat (of_nat l :: u32)" using assms(2) by simp
qed

lemma tables_cong:
  shows "(\<And>x. in_region 0xB8000 4000 x \<Longrightarrow> m' x = m x) \<Longrightarrow> screen_up m' = screen_up m"
    and "(\<And>x. in_region (gdt_real_addr im) 48 x \<Longrightarrow> m' x = m x) \<Longrightarrow> segments_up im m' = segments_up im m"
    and "(\<And>x. in_region (idt_descriptors (im_idt im)) 2048 x \<Longrightarrow> m' x = m x) \<Longrightarrow> gates_up im m' = gates_up im m"
    and "(\<And>x. in_region (tss_addr im) 100 x \<Longrightarrow> m' x = m x) \<Longrightarrow> tss_up im m' = tss_up im m"
proof -
  show "screen_up m' = screen_up m" if same: "\<And>x. in_region 0xB8000 4000 x \<Longrightarrow> m' x = m x"
  proof -
    have "load16 m' (0xB8000 + of_nat (2 * k)) = load16 m (0xB8000 + of_nat (2 * k))" if "k < 2000" for k
      by (rule load16_cong, rule same) (use part_of_region [of "0xB8000" "2 * k" 2 _ 4000] that in simp)
    then show ?thesis by (simp add: screen_up_def)
  qed
  show "segments_up im m' = segments_up im m" if same: "\<And>x. in_region (gdt_real_addr im) 48 x \<Longrightarrow> m' x = m x"
  proof -
    have "describes m' (gdt_real_addr im + 8 * of_nat i) e = describes m (gdt_real_addr im + 8 * of_nat i) e" if "i < 6" for i e
      by (rule describes_cong, rule same) (use part_of_region [of "gdt_real_addr im" "8 * i" 8 _ 48] that in simp)
    then show ?thesis by (simp add: segments_up_def)
  qed
  show "gates_up im m' = gates_up im m" if same: "\<And>x. in_region (idt_descriptors (im_idt im)) 2048 x \<Longrightarrow> m' x = m x"
  proof -
    have "gate m' (idt_descriptors (im_idt im) + 8 * of_nat j) = gate m (idt_descriptors (im_idt im) + 8 * of_nat j)" if "j < 256" for j
    proof (rule gate_cong, rule same)
      fix x assume "in_region (idt_descriptors (im_idt im) + 8 * of_nat j) 8 x"
      then show "in_region (idt_descriptors (im_idt im)) 2048 x"
        using part_of_region [of "idt_descriptors (im_idt im)" "8 * j" 8 x 2048] that by simp
    qed
    then show ?thesis by (simp add: gates_up_def)
  qed
  show "tss_up im m' = tss_up im m" if same: "\<And>x. in_region (tss_addr im) 100 x \<Longrightarrow> m' x = m x"
    using load32_struct [of 4 100 "tss_addr im" m' m, OF _ same] load32_struct [of 8 100 "tss_addr im" m' m, OF _ same]
    by (simp add: tss_up_def)
qed

text \<open>The tables are apart from each other.\<close>

lemma image_tables:
  assumes "image_ok im"
  shows "in_region 0xB8000 4000 x \<Longrightarrow> \<not> in_region (gdt_real_addr im) 48 x \<and> \<not> in_region (idt_descriptors (im_idt im)) 2048 x \<and>
      \<not> in_region (idtr_descriptor (im_idt im)) 6 x \<and> \<not> in_region (tss_addr im) 100 x"
    and "in_region (gdt_real_addr im) 48 x \<Longrightarrow> \<not> in_region (idt_descriptors (im_idt im)) 2048 x \<and>
      \<not> in_region (idtr_descriptor (im_idt im)) 6 x \<and> \<not> in_region (tss_addr im) 100 x"
    and "in_region (idt_descriptors (im_idt im)) 2048 x \<Longrightarrow> \<not> in_region (tss_addr im) 100 x"
    and "apart (idt_descriptors (im_idt im)) 2048 (idtr_descriptor (im_idt im)) 6"
    and "table_byte im x \<longleftrightarrow> in_region 0xB8000 4000 x \<or> in_region (gdt_real_addr im) 48 x \<or>
      in_region (idt_descriptors (im_idt im)) 2048 x \<or> in_region (idtr_descriptor (im_idt im)) 6 x \<or> in_region (tss_addr im) 100 x"
  using assms apart_not_in2 [of _ _ _ _ x] by (simp_all add: image_ok_def boot_tables_def table_byte_def) blast+

text \<open>The screen and the segments.\<close>

definition welcomed :: "ptr \<Rightarrow> 'a terminal_scheme \<Rightarrow> 'a terminal_scheme" where
  "welcomed gdt s = (let s2 = print_literal (''Welcome to LameOS!'' @ [CHR 0x0A, CHR 0x0A] @ ''--> '') (term_initialize s)
     in s2\<lparr>phys := memset gdt 0 48 (phys s2)\<rparr>)"

lemma boot_segments:
  fixes s :: "('d, 'a) kernel_scheme"
  assumes "image_ok im"
  obtains m r c where "gdt_structured_to_gdt (gdt_real_addr im) (kernel_gdt (tss_addr im)) lameos_total_gdt_segments
      (welcomed (gdt_real_addr im) s) = Inr (s\<lparr>phys := m, video_mem := 0xB8000, term_row := r, term_col := c\<rparr>)"
    and "screen_up m" and "segments_up im m"
    and "\<And>x. \<not> in_region 0xB8000 4000 x \<Longrightarrow> \<not> in_region (gdt_real_addr im) 48 x \<Longrightarrow> m x = phys s x"
proof -
  let ?gdt = "gdt_real_addr im"
  define s2 where "s2 = print_literal (''Welcome to LameOS!'' @ [CHR 0x0A, CHR 0x0A] @ ''--> '') (term_initialize s)"
  obtain m2 r c where w: "s2 = s\<lparr>phys := m2, video_mem := 0xB8000, term_row := r, term_col := c\<rparr>"
    "\<And>x. \<not> in_region 0xB8000 4000 x \<Longrightarrow> m2 x = phys s x"
    "\<And>k. k < 2000 \<Longrightarrow> load16 m2 (0xB8000 + of_nat (2 * k)) = welcome_cell k"
    by (rule welcome_screen [where s = s, folded s2_def]) (rule that; assumption)
  let ?s3 = "s2\<lparr>phys := memset ?gdt 0 48 (phys s2)\<rparr>"
  have "list_all encodable (kernel_gdt (tss_addr im))" "length (kernel_gdt (tss_addr im)) = 6"
    by (simp_all add: kernel_gdt_def encodable_def)
  then have "\<forall>i < 6. encodable (kernel_gdt (tss_addr im) ! i)" by (simp add: list_all_length)
  from gdt_loop [OF this, of 6 ?gdt ?s3] obtain m where
    m: "fold (\<lambda>i r. and_then r (encodeGdtEntry (?gdt + 8 * of_nat i) (kernel_gdt (tss_addr im) ! i))) [0..<6] (Inr ?s3) =
      Inr (?s3\<lparr>phys := m\<rparr>)" "\<forall>i < 6. describes m (?gdt + 8 * of_nat i) (kernel_gdt (tss_addr im) ! i)"
    "\<forall>x. \<not> in_region ?gdt 48 x \<longrightarrow> m x = phys ?s3 x" by auto
  have out: "m x = m2 x" if "\<not> in_region ?gdt 48 x" for x using m(3) that by (simp add: w(1))
  have "screen_up m = screen_up m2" by (rule tables_cong(1), rule out) (use image_tables(1) [OF assms(1)] in blast)
  then have screen: "screen_up m" using w(3) by (simp add: screen_up_def)
  have wd: "welcomed ?gdt s = ?s3" by (simp only: welcomed_def Let_def s2_def)
  have eq: "gdt_structured_to_gdt ?gdt (kernel_gdt (tss_addr im)) lameos_total_gdt_segments (welcomed ?gdt s) =
      Inr (s\<lparr>phys := m, video_mem := 0xB8000, term_row := r, term_col := c\<rparr>)"
    using m(1) by (simp add: gdt_structured_to_gdt_def lameos_total_gdt_segments_def wd) (simp add: w(1))
  show thesis by (rule that [OF eq]) (use screen m(2) out w(2) in \<open>simp_all add: segments_up_def\<close>)
qed

text \<open>The gates and the task state segment.\<close>

lemma boot_gates:
  assumes "image_ok im"
  obtains m where "(let s7 = idt_init (im_idt im) s in tss_load 0x28 (s7\<lparr>phys := setup_tss (tss_addr im) (phys s7)\<rparr>)) =
      s\<lparr>phys := m, idtr := (2047, idt_descriptors (im_idt im)), task_register := 0x28\<rparr>"
    and "gates_up im m" and "tss_up im m"
    and "\<And>x. \<lbrakk> \<not> in_region (idt_descriptors (im_idt im)) 2048 x; \<not> in_region (idtr_descriptor (im_idt im)) 6 x; \<not> in_region (tss_addr im) 100 x \<rbrakk> \<Longrightarrow>
      m x = phys s x"
proof -
  let ?il = "im_idt im" and ?t = "tss_addr im"
  obtain m7 where i: "idt_init ?il s = s\<lparr>phys := m7, idtr := (2047, idt_descriptors ?il)\<rparr>"
    "\<forall>j < 256. gate m7 (idt_descriptors ?il + 8 * of_nat j) = (handler_of ?il j, 0x08, 0, 0xEE)"
    "\<forall>x. \<not> in_region (idt_descriptors ?il) 2048 x \<and> \<not> in_region (idtr_descriptor ?il) 6 x \<longrightarrow> m7 x = phys s x"
    using idt_init_state [OF image_tables(4) [OF assms]] by blast
  let ?m = "setup_tss ?t m7"
  have sub: "in_region ?t 100 x" if "in_region (?t + 4) 4 x \<or> in_region (?t + 8) 4 x" for x
    using that field_in_struct [of 4 100 ?t x] field_in_struct [of 8 100 ?t x] by auto
  have out: "?m x = m7 x" if "\<not> in_region ?t 100 x" for x
  proof -
    have "\<not> in_region (?t + 4) 4 x" "\<not> in_region (?t + 8) 4 x" using that sub by blast+
    with that show ?thesis by (simp add: setup_tss_def store32_other sizeof_tss_def)
  qed
  have ap: "apart (?t + 8) 4 (?t + 4) 4" by (simp add: apart_def)
  have "tss_up im ?m" using load32_store32_apart [OF ap] by (simp add: tss_up_def setup_tss_def kernel_data_selector_def)
  moreover have "gates_up im ?m = gates_up im m7" by (rule tables_cong(3), rule out) (use image_tables(3) [OF assms] in blast)
  then have "gates_up im ?m" using i(2) by (simp add: gates_up_def)
  ultimately show thesis by (intro that [of ?m]) (use i(3) out in \<open>simp_all add: i(1) tss_load_def\<close>)
qed

section \<open>From the first call to paging\<close>

text \<open>What the kernel image holds when it is entered: the two string literals and zeros for the global variables.\<close>

definition cold_start :: "image \<Rightarrow> ('d, 'a) kernel_scheme \<Rightarrow> bool" where
  "cold_start im s \<longleftrightarrow> cstr_at (phys s) (image.blank_bin im) user_path \<and> phys s (mode_literal (im_process im)) = 0x72 \<and>
     processes s = replicate 12 0 \<and> current_task s = 0 \<and> task_head s = 0 \<and> task_tail s = 0 \<and>
     isr80h_commands s = replicate 1024 None"

lemma more_kernel:
  fixes s s' :: "('d, 'a) kernel_scheme"
  assumes "files.more s' = files.more s"
  shows "processes s' = processes s" and "current_task s' = current_task s" and "task_head s' = task_head s"
    and "task_tail s' = task_tail s" and "isr80h_commands s' = isr80h_commands s" and "gdtr s' = gdtr s"
  using assms by (cases s; cases s'; simp)+

lemma boot_heap_write:
  fixes s :: "('d, 'a) files_scheme"
  assumes "kheap_inv s" and "\<And>x. \<not> w x \<Longrightarrow> m x = phys s x" and "\<And>x. w x \<Longrightarrow> \<not> in_table boot_heap x"
  shows "kheap_inv (s\<lparr>phys := m\<rparr>)" and "kheap_live (s\<lparr>phys := m\<rparr>) = kheap_live s" and "kheap_pages (s\<lparr>phys := m\<rparr>) = kheap_pages s"
proof -
  note k = kept_changed [OF assms(1) changed_only_write [OF assms(2)] assms(3)]
  show "kheap_inv (s\<lparr>phys := m\<rparr>)" "kheap_live (s\<lparr>phys := m\<rparr>) = kheap_live s" "kheap_pages (s\<lparr>phys := m\<rparr>) = kheap_pages s"
    using keptD(1) [OF k(1)] k(2) by (simp_all add: kheap_live_def kheap_pages_def)
qed

text \<open>Until the heap is there and the disk mounted.\<close>

lemma boot_mounts:
  fixes s :: "('d, 'a) kernel_scheme"
  assumes sys: "system_ok F" "disk_addr (sys_io F) \<noteq> 0" "fat16_fs_addr (sys_layout F) \<noteq> 0" "im_layout im = sys_layout F"
    and im: "image_ok im" and cold: "cold_start im s"
  obtains s4 v s6 where "gdt_structured_to_gdt (gdt_real_addr im) (kernel_gdt (tss_addr im)) lameos_total_gdt_segments
      (welcomed (gdt_real_addr im) s) = Inr s4"
    and "v = kheap_init (gdt_load (gdt_real_addr im) 48 s4)"
    and "and_then (fs_init (sys_layout F) v) (disk_search_and_init (sys_io F) (kernel_filesystems (sys_io F) (sys_layout F))) = Inr s6"
    and "fat16_table F (\<lambda>_. None) s6" and "kheap_pages s6 = 25595" and "free_run 4265 s6"
    and "gdtr s6 = (48, gdt_real_addr im)" and "cold_start im s6" and "screen_up (phys s6)" and "segments_up im (phys s6)"
    and "\<And>x. \<lbrakk> \<not> in_heap x; \<not> in_table boot_heap x; \<not> table_byte im x; \<not> driver_byte im x \<rbrakk> \<Longrightarrow> phys s6 x = phys s x"
proof -
  let ?gdt = "gdt_real_addr im"
  obtain m4 r c where g: "gdt_structured_to_gdt ?gdt (kernel_gdt (tss_addr im)) lameos_total_gdt_segments
      (welcomed ?gdt s) = Inr (s\<lparr>phys := m4, video_mem := 0xB8000, term_row := r, term_col := c\<rparr>)"
    "screen_up m4" "segments_up im m4" "\<And>x. \<not> in_region 0xB8000 4000 x \<Longrightarrow> \<not> in_region ?gdt 48 x \<Longrightarrow> m4 x = phys s x"
    by (rule boot_segments [OF im, of s]) (rule that; assumption)
  define s4 where "s4 = s\<lparr>phys := m4, video_mem := 0xB8000, term_row := r, term_col := c\<rparr>"
  define v where "v = kheap_init (gdt_load ?gdt 48 s4)"
  have heap: "kheap_inv v" "6 \<le> kheap_pages v" "kheap_pages v = 25600" "\<And>x. \<not> in_table boot_heap x \<Longrightarrow> phys v x = m4 x"
    "free_run 25600 v"
    using kheap_init_state [of "gdt_load ?gdt 48 s4"] free_run_init [of "gdt_load ?gdt 48 s4"]
    by (simp_all add: v_def gdt_load_def s4_def)
  have more: "gdtr v = (48, ?gdt)" "processes v = processes s" "current_task v = current_task s" "task_head v = task_head s"
    "task_tail v = task_tail s" "isr80h_commands v = isr80h_commands s"
    by (simp_all add: v_def kheap_init_eq gdt_load_def s4_def)
  have name: "off_heap (fat16_fs_addr (sys_layout F) + 24) 6" using im sys(4) by (simp add: image_ok_def)
  obtain s6 where b: "and_then (fs_init (sys_layout F) v) (disk_search_and_init (sys_io F) (kernel_filesystems (sys_io F) (sys_layout F))) = Inr s6"
    "fat16_table F (\<lambda>_. None) s6" "kheap_pages s6 + 5 = kheap_pages v" "kheap_live v \<subseteq> kheap_live s6"
    "\<And>x. \<lbrakk> kheap_stable v x; \<not> local_byte (sys_layout F) x; \<not> in_region (fat16_fs_addr (sys_layout F) + 24) 6 x \<rbrakk> \<Longrightarrow> phys s6 x = phys v x"
    "files.more s6 = files.more v"
    by (rule boot_from [OF sys(1-3) name heap(1,2)]) (rule that; assumption)
  note fields = more_kernel [OF b(6), unfolded more]
  have local: "fat16_scratch (sys_layout F) x" if "local_byte (sys_layout F) x" for x
    using sys(1) that by (simp add: fat16_scratch_def system_ok_def)
  have keep: "phys s6 x = m4 x" if "\<not> in_heap x" "\<not> in_table boot_heap x" "\<not> driver_byte im x" for x
    using b(5) [of x] heap(4) [of x] that local by (auto simp: kheap_stable_def driver_byte_def sys(4))
  have safe: "\<not> in_heap x \<and> \<not> in_table boot_heap x \<and> \<not> driver_byte im x" if "table_byte im x \<or> literal_byte im x" for x
    using im that unfolding image_ok_def by blast
  have tab: "table_byte im x" if "in_region 0xB8000 4000 x \<or> in_region ?gdt 48 x" for x
    using image_tables(5) [OF im] that by blast
  have "screen_up (phys s6) = screen_up m4" "segments_up im (phys s6) = segments_up im m4"
    by (rule tables_cong(1,2), rule keep; use safe tab in blast)+
  then have up: "screen_up (phys s6)" "segments_up im (phys s6)" using g(2,3) by simp_all
  have old: "phys s6 x = phys s x" if "\<not> in_heap x" "\<not> in_table boot_heap x" "\<not> table_byte im x" "\<not> driver_byte im x" for x
    using keep [OF that(1,2,4)] g(4) [of x] tab [of x] that(3) by auto
  have lit: "phys s6 x = phys s x" if "literal_byte im x" for x
    by (rule old) (use that safe im in \<open>auto simp: image_ok_def\<close>)
  have len: "length user_path = 12" by (simp add: user_path_def Fat16Find.blank_bin_def)
  have "cstr_at (phys s6) (image.blank_bin im) user_path = cstr_at (phys s) (image.blank_bin im) user_path"
    by (rule cstr_at_cong, rule lit) (simp add: literal_byte_def in_region_of_nat len)
  then have cold6: "cold_start im s6"
    using cold fields lit [of "mode_literal (im_process im)"] by (simp add: cold_start_def literal_byte_def)
  have run: "free_run 4265 s6"
    by (rule free_run_survives [OF heap(1) files_relD(2) [OF b(2)] b(4), of 5])
       (use b(3) free_run_less [OF heap(5)] in simp_all)
  show thesis
    by (rule that [OF g(1) [folded s4_def] v_def b(1,2) _ run fields(6) cold6 up old]) (use b(3) heap(3) in simp_all)
qed

text \<open>Until the gates and the task state segment are set up; what is left of the start.\<close>

definition tables_up :: "image \<Rightarrow> mem \<Rightarrow> bool" where
  "tables_up im m \<longleftrightarrow> screen_up m \<and> segments_up im m \<and> gates_up im m \<and> tss_up im m"

lemma tables_up_cong:
  assumes "\<And>x. table_byte im x \<Longrightarrow> m' x = m x" and "image_ok im"
  shows "tables_up im m' = tables_up im m"
proof -
  have "screen_up m' = screen_up m" "segments_up im m' = segments_up im m" "gates_up im m' = gates_up im m" "tss_up im m' = tss_up im m"
    by (rule tables_cong, rule assms(1), use image_tables(5) [OF assms(2)] in blast)+
  then show ?thesis by (simp add: tables_up_def)
qed

definition boot_rest ::
  "'d ports \<Rightarrow> image \<Rightarrow> u32 \<Rightarrow> u32 \<Rightarrow> ('d, 'a) kernel_scheme \<Rightarrow> halt + registers \<times> ('d, 'a) kernel_scheme" where
  "boot_rest io im kesp kflags s9 =
     and_then (isr80h_register_commands s9) (\<lambda>s10.
     and_then (process_load io (im_process im) (kernel_filesystems io (im_layout im)) (image.blank_bin im) 0 s10) (\<lambda>(res, process, s11).
       if res \<noteq> lameos_ok then Inl (Panic (''Failed to load blank.bin!'' @ [CHR 0x0A]))
       else task_run_first_ever_task kesp kflags s11))"

lemma boot_tables_up:
  fixes s :: "('d, 'a) kernel_scheme"
  assumes sys: "system_ok F" "disk_addr (sys_io F) \<noteq> 0" "fat16_fs_addr (sys_layout F) \<noteq> 0" "im_layout im = sys_layout F"
    and im: "image_ok im" and cold: "cold_start im s"
  obtains u where "kernel_main (sys_io F) im kesp kflags s = boot_rest (sys_io F) im kesp kflags (setup_paging u)"
    and "fat16_table F (\<lambda>_. None) u" and "kheap_pages u = 25595" and "free_run 4265 u" and "cold_start im u"
    and "gdtr u = (48, gdt_real_addr im)" and "idtr u = (2047, idt_descriptors (im_idt im))" and "task_register u = 0x28"
    and "tables_up im (phys u)"
    and "\<And>x. \<lbrakk> \<not> in_heap x; \<not> in_table boot_heap x; \<not> table_byte im x; \<not> driver_byte im x \<rbrakk> \<Longrightarrow> phys u x = phys s x"
proof -
  obtain s4 v s6 where b: "gdt_structured_to_gdt (gdt_real_addr im) (kernel_gdt (tss_addr im)) lameos_total_gdt_segments
      (welcomed (gdt_real_addr im) s) = Inr s4"
    "v = kheap_init (gdt_load (gdt_real_addr im) 48 s4)"
    "and_then (fs_init (sys_layout F) v) (disk_search_and_init (sys_io F) (kernel_filesystems (sys_io F) (sys_layout F))) = Inr s6"
    "fat16_table F (\<lambda>_. None) s6" "kheap_pages s6 = 25595" "free_run 4265 s6" "gdtr s6 = (48, gdt_real_addr im)" "cold_start im s6"
    "screen_up (phys s6)" "segments_up im (phys s6)"
    "\<And>x. \<lbrakk> \<not> in_heap x; \<not> in_table boot_heap x; \<not> table_byte im x; \<not> driver_byte im x \<rbrakk> \<Longrightarrow> phys s6 x = phys s x"
    by (rule boot_mounts [OF sys im cold]) (rule that; assumption)
  obtain m where g: "(let s7 = idt_init (im_idt im) s6 in tss_load 0x28 (s7\<lparr>phys := setup_tss (tss_addr im) (phys s7)\<rparr>)) =
      s6\<lparr>phys := m, idtr := (2047, idt_descriptors (im_idt im)), task_register := 0x28\<rparr>"
    "gates_up im m" "tss_up im m"
    "\<And>x. \<lbrakk> \<not> in_region (idt_descriptors (im_idt im)) 2048 x; \<not> in_region (idtr_descriptor (im_idt im)) 6 x; \<not> in_region (tss_addr im) 100 x \<rbrakk> \<Longrightarrow>
      m x = phys s6 x"
    by (rule boot_gates [OF im, of s6]) (rule that; assumption)
  define u where "u = s6\<lparr>phys := m, idtr := (2047, idt_descriptors (im_idt im)), task_register := 0x28\<rparr>"
  have main: "kernel_main (sys_io F) im kesp kflags s = boot_rest (sys_io F) im kesp kflags (setup_paging u)"
  proof -
    have "kernel_main (sys_io F) im kesp kflags s =
        and_then (gdt_structured_to_gdt (gdt_real_addr im) (kernel_gdt (tss_addr im)) lameos_total_gdt_segments (welcomed (gdt_real_addr im) s)) (\<lambda>s4.
        and_then (and_then (fs_init (im_layout im) (kheap_init (gdt_load (gdt_real_addr im) 48 s4)))
            (disk_search_and_init (sys_io F) (kernel_filesystems (sys_io F) (im_layout im)))) (\<lambda>s6.
          boot_rest (sys_io F) im kesp kflags
            (setup_paging (let s7 = idt_init (im_idt im) s6 in tss_load 0x28 (s7\<lparr>phys := setup_tss (tss_addr im) (phys s7)\<rparr>)))))"
      by (simp only: kernel_main_def welcomed_def boot_rest_def Let_def and_then_assoc)
    then show ?thesis by (simp only: b(1,3) b(2) [symmetric] sys(4) and_then_simps g(1) u_def)
  qed
  let ?w = "table_byte im"
  have safe: "\<not> in_heap x \<and> \<not> in_table boot_heap x \<and> \<not> driver_byte im x" if "table_byte im x \<or> literal_byte im x" for x
    using im that unfolding image_ok_def by blast
  have out: "m x = phys s6 x" if "\<not> ?w x" for x by (rule g(4)) (use that image_tables(5) [OF im] in blast)+
  have h: "kheap_inv (s6\<lparr>phys := m\<rparr>)" "kheap_live (s6\<lparr>phys := m\<rparr>) = kheap_live s6" "kheap_pages (s6\<lparr>phys := m\<rparr>) = kheap_pages s6"
    by (rule boot_heap_write [OF files_relD(2) [OF b(4)], of ?w]; use out safe in blast)+
  have hu: "kheap_inv u" "kheap_live u = kheap_live s6" "kheap_pages u = kheap_pages s6"
    using h by (simp_all add: u_def kheap_inv_def kheap_live_def kheap_pages_def kchunks_def)
  have "fat16_table F (\<lambda>_. None) u"
    by (rule fat16.rel_heap_kept(1) [OF b(4) hu(1)]) (use hu(2) out safe in \<open>auto simp: u_def\<close>)
  moreover have "free_run 4265 u" using b(6) free_run_cong [OF hu(2)] by simp
  moreover have "cold_start im u"
  proof -
    have lit: "m x = phys s6 x" if "literal_byte im x" for x by (rule out) (use that im in \<open>auto simp: image_ok_def\<close>)
    have len: "length user_path = 12" by (simp add: user_path_def Fat16Find.blank_bin_def)
    have "cstr_at m (image.blank_bin im) user_path = cstr_at (phys s6) (image.blank_bin im) user_path"
      by (rule cstr_at_cong, rule lit) (simp add: literal_byte_def in_region_of_nat len)
    then show ?thesis using b(8) lit [of "mode_literal (im_process im)"] by (simp add: cold_start_def literal_byte_def u_def)
  qed
  moreover have "tables_up im (phys u)"
  proof -
    have "screen_up m = screen_up (phys s6)" "segments_up im m = segments_up im (phys s6)"
      by (rule tables_cong(1,2), rule g(4); use image_tables(1,2) [OF im] in blast)+
    then show ?thesis using b(9,10) g(2,3) by (simp add: tables_up_def u_def)
  qed
  moreover have "phys u x = phys s x" if "\<not> in_heap x" "\<not> in_table boot_heap x" "\<not> table_byte im x" "\<not> driver_byte im x" for x
    using b(11) [OF that] out [OF that(3)] by (simp add: u_def)
  ultimately show thesis by (intro that [OF main]) (use b(5,7) hu(3) in \<open>simp_all add: u_def\<close>)
qed

section \<open>The first task\<close>

text \<open>The running system: one process with one task in user mode in its own address space, the kernel's space still the
  identity, and every table of the kernel in place.\<close>

definition kernel_running :: "'d fat_system \<Rightarrow> image \<Rightarrow> u8 list \<Rightarrow> ptr \<Rightarrow> ('d, 'a) kernel_scheme \<Rightarrow> bool" where
  "kernel_running F im bs P s \<longleftrightarrow>
     (let T = process_task (phys s) P; n = process_pages (phys s) P
      in processes s = P # replicate 11 0 \<and> process_id (phys s) P = 0 \<and>
        cstr_at (phys s) (process_filename P) user_path \<and> process_size (phys s) P = of_nat (length bs) \<and>
        tasks_ok s [T] \<and> current_task s = T \<and> task_ready P T (phys s) \<and>
        cr3 s = process_space (phys s) P \<and> bit (cr0 s) 31 \<and> data_segments s = 0x23 \<and>
        (\<forall>i < length bs. virt_load (cr3 s) (phys s) (0x400000 + of_nat i) = Some (bs ! i)) \<and>
        (\<forall>i < 16384. virt_load (cr3 s) (phys s) (0x3FB000 + of_nat i) = Some 0) \<and>
        (\<forall>va. unat va < 0x3FB000 \<or> 0x3FF000 \<le> unat va \<and> unat va < 0x400000 \<or> 0x400000 + 4096 * n \<le> unat va \<longrightarrow>
           translate (cr3 s) (phys s) va = Some va) \<and>
        (\<forall>va. translate (load32 (phys s) (kernel_chunk s)) (phys s) va = Some va) \<and>
        tables_up im (phys s) \<and> gdtr s = (48, gdt_real_addr im) \<and> idtr s = (2047, idt_descriptors (im_idt im)) \<and> task_register s = 0x28 \<and>
        isr80h_commands s = (replicate 1024 None)[0 := Some isr80h_command0_sum, 1 := Some isr80h_command1_print] \<and>
        fat16_table F (\<lambda>_. None) s)"

lemma first_task:
  fixes s :: "('d, 'a) kernel_scheme"
  assumes ok: "tasks_ok s [T]" and ready: "task_ready P T (phys s)"
  obtains r where "task_run_first_ever_task kesp kflags s = Inr (r, s\<lparr>current_task := T, cr3 := process_space (phys s) P,
      current_directory := process_space (phys s) P, data_segments := 0x23\<rparr>)"
    and "r_ip r = 0x400000" and "r_cs r = 0x1B" and "r_esp r = 0x3FF000" and "r_ss r = 0x23" and "r_flags r = kflags OR 0x200"
proof -
  have t: "(T, 4096) \<in> kheap_live s" "task_head s = T" "current_task s = T" and inv: "kheap_inv s"
    using ok by (simp_all add: tasks_ok_def)
  have "T \<noteq> 0" using kmalloc_heap.live_nonnull [OF inv t(1)] by simp
  let ?m = "phys s" and ?r = "task_registers T"
  define r where "r = \<lparr>r_edi = load32 ?m ?r, r_esi = load32 ?m (?r + 4), r_ebp = kesp, r_ebx = load32 ?m (?r + 12), r_edx = load32 ?m (?r + 16),
     r_ecx = load32 ?m (?r + 20), r_eax = load32 ?m (?r + 24), r_ip = 0x400000, r_cs = 0x1B, r_flags = kflags OR 0x200, r_esp = 0x3FF000, r_ss = 0x23\<rparr>"
  have "task_run_first_ever_task kesp kflags s = Inr (r, s\<lparr>current_task := T, cr3 := process_space (phys s) P,
      current_directory := process_space (phys s) P, data_segments := 0x23\<rparr>)"
    using t(2,3) ready \<open>T \<noteq> 0\<close>
    by (simp add: r_def task_run_first_ever_task_def task_switch_def paging_switch_def paging_load_directory_def task_return_def Let_def
        task_ready_def process_space_def task_space_def lameos_program_virtual_address_def lameos_program_virtual_stack_address_start_def
        user_code_segment_def user_data_segment_def)
  then show thesis by (rule that) (simp_all add: r_def)
qed

text \<open>A file of one cluster has at most 32 blocks.\<close>

lemma boot_small_file:
  assumes "system_ok F" and "one_cluster F f"
  shows "blocks_for (entry_size f) \<le> 32"
proof -
  have "sys_spc F < 256"
    using assms(1) unsigned_less [of "hdr_sectors_per_cluster (boot_bytes (sys_image F)) 0", where 'a = nat]
    by (auto simp: system_ok_def fat_disk_def)
  then have "unat (entry_size f) \<le> 130560" using assms(2) by (simp add: one_cluster_def)
  then have "(unat (entry_size f) + 4095) div 4096 \<le> 134655 div 4096" by (intro div_le_mono) simp
  then show ?thesis by (simp add: blocks_for_def)
qed

text \<open>Turning paging on and registering the system calls.\<close>

lemma boot_paged:
  fixes u :: "('d, 'a) kernel_scheme"
  assumes rel: "fat16_table F (\<lambda>_. None) u" and pages: "kheap_pages u = 25595" and run: "free_run 4265 u"
    and cmds: "isr80h_commands u = replicate 1024 None"
  obtains m chunk dir ts v where "isr80h_register_commands (setup_paging u) = Inr v"
    and "v = u\<lparr>phys := m, kernel_chunk := chunk, cr3 := dir, current_directory := dir, cr0 := cr0 u OR 0x80000000,
      isr80h_commands := (replicate 1024 None)[0 := Some isr80h_command0_sum, 1 := Some isr80h_command1_print]\<rparr>"
    and "space_built u (ucast (paging_is_writeable OR paging_is_present OR paging_access_from_all)) chunk dir ts (u\<lparr>phys := m\<rparr>)"
    and "kheap_inv v" and "kheap_pages v = 24569" and "free_run 3239 v" and "kheap_live v = kheap_live (u\<lparr>phys := m\<rparr>)"
    and "kheap_live u \<subseteq> kheap_live v" and "\<And>x. kheap_stable u x \<Longrightarrow> m x = phys u x"
    and "fat16_table F (\<lambda>_. None) v" and "fat16_base v = fat16_base u"
proof -
  have "1026 \<le> kheap_pages u" using pages by simp
  then obtain m chunk and dir :: ptr and ts where p: "setup_paging u = u\<lparr>phys := m, kernel_chunk := chunk, cr3 := load32 m chunk,
      current_directory := load32 m chunk, cr0 := cr0 u OR 0x80000000\<rparr>"
    "kheap_inv (setup_paging u)" "kheap_pages (setup_paging u) + 1026 = kheap_pages u" "kheap_live u \<subseteq> kheap_live (setup_paging u)"
    "\<And>r. free_run (r + 1026) u \<Longrightarrow> free_run r (setup_paging u)" "\<And>x. kheap_stable u x \<Longrightarrow> m x = phys u x"
    "space_built u (ucast (paging_is_writeable OR paging_is_present OR paging_access_from_all)) chunk dir ts (u\<lparr>phys := m\<rparr>)"
    by (rule setup_paging_state [OF files_relD(2) [OF rel]]) (rule that; assumption)
  have dir: "load32 m chunk = dir" using p(7) by (simp add: space_built_def)
  let ?cmds = "(replicate 1024 None)[0 := Some isr80h_command0_sum, 1 := Some isr80h_command1_print]"
  define v where "v = (setup_paging u)\<lparr>isr80h_commands := ?cmds\<rparr>"
  have reg: "isr80h_register_commands (setup_paging u) = Inr v"
    unfolding v_def by (rule isr80h_register_empty) (simp add: p(1) cmds)
  have v: "v = u\<lparr>phys := m, kernel_chunk := chunk, cr3 := dir, current_directory := dir, cr0 := cr0 u OR 0x80000000,
      isr80h_commands := ?cmds\<rparr>" by (simp add: v_def p(1) dir)
  have h: "kheap_inv v" "kheap_live v = kheap_live (setup_paging u)" "kheap_pages v = kheap_pages (setup_paging u)"
    using p(2) by (simp_all add: v_def kheap_inv_def kheap_live_def kheap_pages_def kchunks_def)
  have fr: "free_run 3239 v" using p(5) [of 3239] run free_run_cong [OF h(2)] by simp
  have lv: "kheap_live v = kheap_live (u\<lparr>phys := m\<rparr>)" by (simp add: v kheap_live_def kchunks_def)
  have live: "kheap_live u \<subseteq> kheap_live v" using p(4) h(2) by simp
  note rk = fat16.rel_heap_kept [OF rel h(1), unfolded fat16_driver_simps]
  have table: "fat16_table F (\<lambda>_. None) v" "fat16_base v = fat16_base u"
    by (rule rk(1,2); use live p(6) in \<open>simp add: v\<close>)+
  show thesis by (rule that [OF reg v p(7) h(1) _ fr lv live p(6) table]) (use p(3) h(3) pages in simp_all)
qed

lemma boot_path: "length user_path = 12" "path_names user_path = [Fat16Find.blank_bin]" "path_parts (drop 3 user_path) = [Fat16Find.blank_bin]"
proof -
  have "path_valid user_path" by (simp add: path_valid_def user_path_def Fat16Find.blank_bin_def isdigit_def word_sle_eq)
  then show "path_names user_path = [Fat16Find.blank_bin]"
    by (simp add: path_names_def) (simp add: user_path_def Fat16Find.blank_bin_def path_parts.simps Let_def)
  show "length user_path = 12" "path_parts (drop 3 user_path) = [Fat16Find.blank_bin]"
    by (simp_all add: user_path_def Fat16Find.blank_bin_def path_parts.simps Let_def)
qed

text \<open>Nothing the heap or the page tables take changes what the load finds.\<close>

lemma cold_kept:
  fixes u v :: "('d, 'a) kernel_scheme"
  assumes im: "image_ok im" and cold: "cold_start im u" and more: "processes v = processes u" "current_task v = current_task u"
      "task_head v = task_head u" "task_tail v = task_tail u"
    and same: "\<And>x. \<not> in_heap x \<Longrightarrow> \<not> in_table boot_heap x \<Longrightarrow> phys v x = phys u x"
  shows "cstr_at (phys v) (image.blank_bin im) user_path" and "phys v (mode_literal (im_process im)) = 0x72"
    and "processes v = replicate 12 0" and "current_task v = 0" and "task_head v = 0" and "task_tail v = 0"
proof -
  have lit: "phys v x = phys u x" if "literal_byte im x" for x
    by (rule same) (use im that in \<open>unfold image_ok_def, blast\<close>)+
  have "cstr_at (phys v) (image.blank_bin im) user_path = cstr_at (phys u) (image.blank_bin im) user_path"
    by (rule cstr_at_cong, rule lit) (simp add: literal_byte_def in_region_of_nat boot_path(1))
  then show "cstr_at (phys v) (image.blank_bin im) user_path" "phys v (mode_literal (im_process im)) = 0x72"
    "processes v = replicate 12 0" "current_task v = 0" "task_head v = 0" "task_tail v = 0"
    using cold lit [of "mode_literal (im_process im)"] by (simp_all add: cold_start_def literal_byte_def more)
qed

text \<open>The program is loaded.\<close>

lemma boot_loads:
  fixes v :: "('d, 'a) kernel_scheme"
  assumes sys: "system_ok F" "disk_addr (sys_io F) \<noteq> 0" "fat16_fs_addr (sys_layout F) \<noteq> 0" "im_layout im = sys_layout F"
    and im: "image_ok im" and v: "cstr_at (phys v) (image.blank_bin im) user_path"
      "phys v (mode_literal (im_process im)) = 0x72" "processes v = replicate 12 0" "current_task v = 0" "task_head v = 0" "task_tail v = 0"
    and rel: "fat16_table F (\<lambda>_. None) v" and pages: "kheap_pages v = 24569" and run: "free_run 3239 v"
    and f: "root_find F [Fat16Find.blank_bin] = Some f" "one_cluster F f"
  obtains P s' where "process_load (sys_io F) (im_process im) (kernel_filesystems (sys_io F) (im_layout im)) (image.blank_bin im) 0 v = Inr (0, P, s')"
    and "fat16_table F (\<lambda>_. None) s'"
    and "process_started (\<lambda>x. fat16_scratch (sys_layout F) x \<or> in_pages (fat16_base v) x \<or> in_region (stat_buffer (im_process im)) 8 x)
      (entry_content F f) user_path 0 [] P v s'"
proof -
  let ?pf = "im_process im"
  have lit: "\<not> in_heap x \<and> \<not> in_table boot_heap x \<and> \<not> driver_byte im x" if "literal_byte im x" for x
    using im that unfolding image_ok_def by blast
  then have st: "kheap_stable v x" if "literal_byte im x" for x using that by (simp add: kheap_stable_def)
  have path: "literal_byte im (image.blank_bin im + of_nat j)" if "j \<le> 12" for j
    using that by (simp add: literal_byte_def in_region_of_nat)
  have ok: "call_ok 3 (fat16_scratch (sys_layout F)) (Open_File (image.blank_bin im) (mode_literal ?pf) user_path FILE_MODE_READ) v"
    using v(1,2) st path pages boot_path by (simp add: file_mode_get_by_string_def literal_byte_def)
  have base: "page_blocks (fat16_base v) \<subseteq> kheap_live v" by (rule fat16.base_live [OF files_relD(3) [OF rel], unfolded fat16_driver_simps])
  have name: "\<forall>j \<le> length user_path. \<not> fat16_scratch (sys_layout F) (image.blank_bin im + of_nat j) \<and>
      \<not> in_pages (fat16_base v) (image.blank_bin im + of_nat j) \<and> \<not> in_region (stat_buffer ?pf) 8 (image.blank_bin im + of_nat j)"
    using lit [OF path] in_pages_stable(2) [OF files_relD(2) [OF rel] base] by (auto simp: boot_path(1) driver_byte_def sys(4))
  have "32 * (blocks_for (entry_size f) + 40) \<le> 3239" using boot_small_file [OF sys(1) f(2)] by simp
  then have run': "free_run (32 * (blocks_for (entry_size f) + 40)) v" by (rule free_run_less [OF run])
  have stat: "off_heap (stat_buffer ?pf) 8" using im by (simp add: image_ok_def)
  have tasks: "tasks_ok v []" using files_relD(2) [OF rel] v(4-6) by (simp add: tasks_ok_def)
  have found: "root_find F (path_names user_path) = Some f" using f(1) by (simp add: boot_path(2))
  have table: "length (processes v) = 12" "first_zero 0 (processes v) = Some 0" by (simp_all add: v(3) numeral_eq_Suc)
  have zero: "(0 :: nat) < 511" "set [] \<inter> open_pages (fat16_driver F) (\<lambda>_. None) v = {}" by simp_all
  from start_fat16 [where process = 0, OF rel sys(2,3) ok found one_cluster_data [OF f(2)] empty_slot zero(1) run' stat tasks zero(2) name table]
  show thesis unfolding sys(4) by (elim exE conjE) (rule that [unfolded sys(4)]; assumption)
qed

text \<open>What the load leaves of the kernel: its page tables, its tables and its registers.\<close>

lemma boot_kept:
  fixes u v s' :: "('d, 'a) kernel_scheme"
  assumes built: "space_built u (ucast (paging_is_writeable OR paging_is_present OR paging_access_from_all)) chunk dir ts (u\<lparr>phys := m\<rparr>)"
    and v: "kheap_inv v" "kheap_live v = kheap_live (u\<lparr>phys := m\<rparr>)" "phys v = m" and B: "page_blocks B \<subseteq> kheap_live u"
    and off: "\<And>x. w x \<Longrightarrow> \<not> in_heap x"
    and same: "\<And>x. kheap_stable v x \<Longrightarrow> \<not> (w x \<or> in_pages B x) \<Longrightarrow> phys s' x = phys v x"
  shows "load32 (phys s') chunk = dir" and "translate dir (phys s') va = Some va"
proof -
  have sp: "kheap_live v = page_blocks (set (chunk # dir # ts)) \<union> kheap_live u" "\<forall>p \<in> set (chunk # dir # ts). \<forall>l. (p, l) \<notin> kheap_live u"
    using built v(2) by (simp_all add: space_built_def)
  have "phys s' x = phys (u\<lparr>phys := m\<rparr>) x" if q: "q \<in> set (chunk # dir # ts)" "in_region q 4096 x" for q x
  proof -
    have live: "(q, 4096) \<in> kheap_live v" using sp(1) q(1) by blast
    have "(q, 4096) \<notin> page_blocks B" using B sp(2) q(1) by blast
    then have "\<not> in_pages B x" using block_not_in_pages [OF v(1) _ live _ q(2)] B sp(1) by blast
    moreover have "\<not> w x" using off live_in_heap [OF v(1) live q(2)] by blast
    ultimately show ?thesis using same [OF stable_live [OF v(1) live q(2)]] v(3) by simp
  qed
  then have pages: "\<forall>q \<in> set (chunk # dir # ts). \<forall>x. in_region q 4096 x \<longrightarrow> phys s' x = phys (u\<lparr>phys := m\<rparr>) x" by blast
  show "load32 (phys s') chunk = dir" "translate dir (phys s') va = Some va"
    by (rule space_built_stays(1,2) [OF built setup_flags pages])+
qed

lemma more_registers:
  fixes s s' :: "('d, 'a) kernel_scheme"
  assumes "process_table.more s' = process_table.more s"
  shows "isr80h_commands s' = isr80h_commands s" and "idtr s' = idtr s" and "gdtr s' = gdtr s" and "task_register s' = task_register s"
  using assms by (cases s; cases s'; simp)+

lemma task_switched:
  fixes s :: "('d, 'a) kernel_scheme"
  assumes "tasks_ok s [T]"
  shows "tasks_ok (s\<lparr>current_task := T, cr3 := a, current_directory := b, data_segments := c\<rparr>) [T]"
    and "fat16_table F A s \<Longrightarrow> fat16_table F A (s\<lparr>current_task := T, cr3 := a, current_directory := b, data_segments := c\<rparr>)"
proof -
  define s' where "s' = s\<lparr>current_task := T, cr3 := a, current_directory := b, data_segments := c\<rparr>"
  have same: "kheap_inv s' = kheap_inv s" "kheap_live s' = kheap_live s" "phys s' = phys s" "task_head s' = task_head s"
    "task_tail s' = task_tail s" "current_task s' = T" "the_disk s' = the_disk s" "file_descriptors s' = file_descriptors s"
    by (simp_all add: s'_def kheap_inv_def kheap_live_def kchunks_def)
  then have "tasks_ok s' [T]" using assms by (simp add: tasks_ok_def)
  moreover have "fat16_table F A s'" if "fat16_table F A s"
    by (rule fat16.rel_heap_kept(1) [OF that]) (use assms in \<open>simp_all add: same tasks_ok_def\<close>)
  ultimately show "tasks_ok (s\<lparr>current_task := T, cr3 := a, current_directory := b, data_segments := c\<rparr>) [T]"
    "fat16_table F A s \<Longrightarrow> fat16_table F A (s\<lparr>current_task := T, cr3 := a, current_directory := b, data_segments := c\<rparr>)"
    by (simp_all add: s'_def)
qed

text \<open>The state the kernel is left in, from what the load and the steps before it establish.\<close>

lemma boot_running:
  fixes v s1 :: "('d, 'a) kernel_scheme"
  assumes st: "process_started w bs user_path 0 [] P v s1" and table: "fat16_table F (\<lambda>_. None) s1"
    and v: "processes v = replicate 12 0" "kernel_chunk v = chunk" "bit (cr0 v) 31" "gdtr v = (48, gdt_real_addr im)"
      "idtr v = (2047, idt_descriptors (im_idt im))" "task_register v = 0x28"
      "isr80h_commands v = (replicate 1024 None)[0 := Some isr80h_command0_sum, 1 := Some isr80h_command1_print]"
    and space: "load32 (phys s1) chunk = dir" "\<And>va. translate dir (phys s1) va = Some va" and up: "tables_up im (phys s1)"
  shows "kernel_running F im bs P (s1\<lparr>current_task := process_task (phys s1) P, cr3 := process_space (phys s1) P,
      current_directory := process_space (phys s1) P, data_segments := 0x23\<rparr>)"
proof -
  let ?T = "process_task (phys s1) P"
  define s' where "s' = s1\<lparr>current_task := ?T, cr3 := process_space (phys s1) P,
      current_directory := process_space (phys s1) P, data_segments := 0x23\<rparr>"
  note st = st [unfolded process_started_def Let_def, simplified]
  have regs: "gdtr s' = (48, gdt_real_addr im)" "idtr s' = (2047, idt_descriptors (im_idt im))" "task_register s' = 0x28"
    "isr80h_commands s' = (replicate 1024 None)[0 := Some isr80h_command0_sum, 1 := Some isr80h_command1_print]"
    "kernel_chunk s' = chunk" "bit (cr0 s') 31"
    using more_registers [of s1 v] st v(2-7) by (simp_all add: s'_def)
  have same: "phys s' = phys s1" "current_task s' = ?T" "cr3 s' = process_space (phys s1) P" "data_segments s' = 0x23"
    by (simp_all add: s'_def)
  have tasks: "tasks_ok s1 [?T]" using st by simp
  have task: "tasks_ok s' [?T]" "fat16_table F (\<lambda>_. None) s'"
    unfolding s'_def by (rule task_switched(1) [OF tasks], rule task_switched(2) [OF tasks table])
  have "replicate 12 (0 :: ptr) = 0 # replicate 11 0" by (simp add: numeral_eq_Suc)
  then have procs: "processes s' = P # replicate 11 0" using st v(1) by (simp add: s'_def)
  have name: "take 107 user_path = user_path" by (simp add: boot_path(1))
  have "kernel_running F im bs P s'"
    unfolding kernel_running_def Let_def same regs(5) procs
    by (intro conjI) (use st up regs(1-4,6) task space in \<open>simp_all add: name\<close>)
  then show ?thesis by (simp only: s'_def)
qed

lemma load_keeps:
  fixes u v s1 :: "('d, 'a) kernel_scheme"
  assumes lay: "im_layout im = sys_layout F" and im: "image_ok im" and rel: "fat16_table F (\<lambda>_. None) u"
    and built: "space_built u (ucast (paging_is_writeable OR paging_is_present OR paging_access_from_all)) chunk dir ts (u\<lparr>phys := m\<rparr>)"
    and v: "kheap_inv v" "kheap_live v = kheap_live (u\<lparr>phys := m\<rparr>)" "phys v = m" "fat16_base v = fat16_base u"
      "\<forall>x. kheap_stable u x \<longrightarrow> m x = phys u x"
    and st: "process_started (\<lambda>x. fat16_scratch (sys_layout F) x \<or> in_pages (fat16_base v) x \<or> in_region (stat_buffer (im_process im)) 8 x)
      bs t nr [] P v s1"
  shows "load32 (phys s1) chunk = dir" and "translate dir (phys s1) va = Some va"
    and "\<lbrakk> \<not> in_heap x; \<not> in_table boot_heap x; \<not> driver_byte im x \<rbrakk> \<Longrightarrow> phys s1 x = phys u x"
proof -
  let ?w = "\<lambda>x. fat16_scratch (sys_layout F) x \<or> in_region (stat_buffer (im_process im)) 8 x"
  have base: "page_blocks (fat16_base u) \<subseteq> kheap_live u" by (rule fat16.base_live [OF files_relD(3) [OF rel], unfolded fat16_driver_simps])
  have off: "\<not> in_heap x" if "?w x" for x
    using fat16_scratch_off [of "sys_layout F" x] im that by (auto simp: image_ok_def off_heap_def)
  have keep: "phys s1 x = phys v x" if "kheap_stable v x" "\<not> (?w x \<or> in_pages (fat16_base u) x)" for x
    by (rule process_startedD(11) [OF st]) (use that v(4) in auto)
  show "load32 (phys s1) chunk = dir" "translate dir (phys s1) va = Some va"
    by (rule boot_kept [where w = ?w, OF built v(1-3) base off keep]; assumption)+
  show "phys s1 x = phys u x" if "\<not> in_heap x" "\<not> in_table boot_heap x" "\<not> driver_byte im x" for x
  proof -
    have "\<not> in_pages (fat16_base u) x" using in_pages_stable(2) [OF files_relD(2) [OF rel] base] that(1) by blast
    then have "phys s1 x = phys v x" using keep that by (simp add: driver_byte_def lay kheap_stable_def)
    then show ?thesis using v(3,5) that by (simp add: kheap_stable_def)
  qed
qed

section \<open>Properties\<close>

text \<open>C7. The start of the kernel, from the first call of \<open>kernel_main\<close> to user mode. On an ATA disk with a FAT16
  volume that holds \<open>blank.bin\<close> in its root directory, in its first cluster, and with the image of the kernel
  in memory and its global variables zero, \<open>kernel_main\<close> neither panics nor halts: it leaves for the first instruction of
  the program, at \<open>0x400000\<close> with the stack at \<open>0x3FF000\<close>, the selectors of user mode and interrupts on. Then
  the one process is \<open>blank.bin\<close> with one task, through whose page tables the bytes of the file and a zeroed stack are
  seen; the page tables of the kernel are still the identity; the screen shows the welcome; segments, gates, task state
  segment and their registers are as specified; both system calls are registered; no file is open
  on the mounted disk. Memory outside the heap and its table, these tables and the local objects of the driver and the
  loader is as it was.\<close>

theorem kernel_main_starts:
  fixes s :: "('d, 'a) kernel_scheme"
  assumes "system_ok F" and "disk_addr (sys_io F) \<noteq> 0" and "fat16_fs_addr (sys_layout F) \<noteq> 0" and "im_layout im = sys_layout F"
    and "image_ok im" and "cold_start im s" and "root_find F [Fat16Find.blank_bin] = Some f" and "one_cluster F f"
  shows "\<exists>r P s'. kernel_main (sys_io F) im kesp kflags s = Inr (r, s') \<and>
    r_ip r = 0x400000 \<and> r_cs r = 0x1B \<and> r_esp r = 0x3FF000 \<and> r_ss r = 0x23 \<and> r_flags r = kflags OR 0x200 \<and>
    kernel_running F im (entry_content F f) P s' \<and>
    (\<forall>x. \<not> in_heap x \<and> \<not> in_table boot_heap x \<and> \<not> table_byte im x \<and> \<not> driver_byte im x \<longrightarrow> phys s' x = phys s x)"
proof -
  let ?bs = "entry_content F f"
  obtain u where u: "kernel_main (sys_io F) im kesp kflags s = boot_rest (sys_io F) im kesp kflags (setup_paging u)"
    "fat16_table F (\<lambda>_. None) u" "kheap_pages u = 25595" "free_run 4265 u" "cold_start im u"
    "gdtr u = (48, gdt_real_addr im)" "idtr u = (2047, idt_descriptors (im_idt im))" "task_register u = 0x28" "tables_up im (phys u)"
    "\<And>x. \<lbrakk> \<not> in_heap x; \<not> in_table boot_heap x; \<not> table_byte im x; \<not> driver_byte im x \<rbrakk> \<Longrightarrow> phys u x = phys s x"
    by (rule boot_tables_up [OF assms(1-6)]) (rule that; assumption)
  have "isr80h_commands u = replicate 1024 None" using u(5) by (simp add: cold_start_def)
  then obtain m chunk dir ts v where v: "isr80h_register_commands (setup_paging u) = Inr v"
    "v = u\<lparr>phys := m, kernel_chunk := chunk, cr3 := dir, current_directory := dir, cr0 := cr0 u OR 0x80000000,
      isr80h_commands := (replicate 1024 None)[0 := Some isr80h_command0_sum, 1 := Some isr80h_command1_print]\<rparr>"
    "space_built u (ucast (paging_is_writeable OR paging_is_present OR paging_access_from_all)) chunk dir ts (u\<lparr>phys := m\<rparr>)"
    "kheap_inv v" "kheap_pages v = 24569" "free_run 3239 v" "kheap_live v = kheap_live (u\<lparr>phys := m\<rparr>)"
    "kheap_live u \<subseteq> kheap_live v" "\<And>x. kheap_stable u x \<Longrightarrow> m x = phys u x" "fat16_table F (\<lambda>_. None) v" "fat16_base v = fat16_base u"
    by (rule boot_paged [OF u(2-4)]) (rule that; assumption)
  have pv: "phys v = m" by (simp add: v(2))
  have out: "m x = phys u x" "kheap_stable v x" if "\<not> in_heap x" "\<not> in_table boot_heap x" for x
    using v(9) [of x] that by (simp_all add: kheap_stable_def)
  let ?w = "\<lambda>x. fat16_scratch (sys_layout F) x \<or> in_region (stat_buffer (im_process im)) 8 x"
  have cold: "cstr_at (phys v) (image.blank_bin im) user_path" "phys v (mode_literal (im_process im)) = 0x72"
    "processes v = replicate 12 0" "current_task v = 0" "task_head v = 0" "task_tail v = 0"
    by (rule cold_kept [OF assms(5) u(5)]; simp add: v(2) out(1))+
  obtain P s1 where l: "process_load (sys_io F) (im_process im) (kernel_filesystems (sys_io F) (im_layout im)) (image.blank_bin im) 0 v = Inr (0, P, s1)"
    "fat16_table F (\<lambda>_. None) s1"
    "process_started (\<lambda>x. fat16_scratch (sys_layout F) x \<or> in_pages (fat16_base v) x \<or> in_region (stat_buffer (im_process im)) 8 x)
      ?bs user_path 0 [] P v s1"
    by (rule boot_loads [OF assms(1-5) cold v(10,5,6) assms(7,8)]) (rule that; assumption)
  obtain r where r: "task_run_first_ever_task kesp kflags s1 = Inr (r, s1\<lparr>current_task := process_task (phys s1) P,
      cr3 := process_space (phys s1) P, current_directory := process_space (phys s1) P, data_segments := 0x23\<rparr>)"
    "r_ip r = 0x400000" "r_cs r = 0x1B" "r_esp r = 0x3FF000" "r_ss r = 0x23" "r_flags r = kflags OR 0x200"
    by (rule first_task [OF process_startedD(3) [OF l(3), simplified] process_startedD(4) [OF l(3)]]) (rule that; assumption)
  have main: "kernel_main (sys_io F) im kesp kflags s = Inr (r, s1\<lparr>current_task := process_task (phys s1) P,
      cr3 := process_space (phys s1) P, current_directory := process_space (phys s1) P, data_segments := 0x23\<rparr>)"
    by (simp add: u(1) boot_rest_def v(1) l(1) r(1) lameos_ok_def)
  have "\<forall>x. kheap_stable u x \<longrightarrow> m x = phys u x" using v(9) by blast
  note kept = load_keeps [OF assms(4,5) u(2) v(3,4,7) pv v(11) this l(3)]
  have space: "load32 (phys s1) chunk = dir" "\<And>va. translate dir (phys s1) va = Some va" by (rule kept; assumption)+
  have "tables_up im (phys s1) = tables_up im (phys u)"
    by (rule tables_up_cong [OF kept(3) assms(5)]) (use assms(5) in \<open>unfold image_ok_def, blast\<close>)+
  then have up: "tables_up im (phys s1)" using u(9) by simp
  have "kernel_running F im ?bs P (s1\<lparr>current_task := process_task (phys s1) P, cr3 := process_space (phys s1) P,
      current_directory := process_space (phys s1) P, data_segments := 0x23\<rparr>)"
    by (rule boot_running [OF l(3,2) cold(3) _ _ _ _ _ _ space up]) (simp_all add: v(2) u(6-8) bit_simps)
  moreover have "phys s1 x = phys s x" if "\<not> in_heap x" "\<not> in_table boot_heap x" "\<not> table_byte im x" "\<not> driver_byte im x" for x
    using kept(3) [OF that(1,2,4)] u(10) [OF that] by simp
  ultimately show ?thesis
    by (intro exI [of _ r] exI [of _ P] exI conjI) (rule main, use r(2-6) in simp_all)
qed

text \<open>The kernel at 1 MiB, its literals in low memory, and the sample disk.\<close>

definition sample_kernel_image :: image where
  "sample_kernel_image = \<lparr>im_layout = sample_layout, im_idt = sample_idt, im_process = sample_frame,
     tss_addr = 0x10A000, gdt_real_addr = 0x10A100, blank_bin = 0x510\<rparr>"

lemma in_regionsE:
  assumes "list_ex (\<lambda>(a, n). in_region a n x) T"
  obtains a n where "(a, n) \<in> set T" and "in_region a n x"
  using assms by (auto simp: list_ex_iff)

lemma regions_apart:
  assumes "list_all (\<lambda>(a, n). list_all (\<lambda>(b, k). apart a n b k) D) T"
    and "list_ex (\<lambda>(a, n). in_region a n x) T"
  shows "\<not> list_ex (\<lambda>(b, k). in_region b k x) D"
proof
  assume "list_ex (\<lambda>(b, k). in_region b k x) D"
  then obtain b k where b: "(b, k) \<in> set D" "in_region b k x" by (rule in_regionsE)
  obtain a n where a: "(a, n) \<in> set T" "in_region a n x" using assms(2) by (rule in_regionsE)
  have "apart a n b k" using assms(1) a(1) b(1) by (fastforce simp: list_all_iff)
  then show False using a(2) b(2) apart_not_in by blast
qed

lemma sample_kernel_image_ok: "image_ok sample_kernel_image"
proof -
  let ?im = sample_kernel_image
  let ?D = "[(0x5E0000, 512), (0x5D0000, 32), (0x5D1000, 32), (0x5D2000, 2), (0x5D3000, 108), (0x2018, 6), (0x620, 8)] :: (ptr \<times> u32) list"
  let ?T = "[(0xB8000, 4000), (0x10A100, 48), (0x109000, 2048), (0x109800, 6), (0x10A000, 100)] :: (ptr \<times> u32) list"
  let ?L = "[(0x510, 13), (0x600, 1)] :: (ptr \<times> u32) list"
  have table: "table_byte ?im x \<longleftrightarrow> list_ex (\<lambda>(a, n). in_region a n x) ?T" for x
    by (simp add: table_byte_def boot_tables_def sample_kernel_image_def sample_idt_def)
  have literal: "literal_byte ?im x \<Longrightarrow> list_ex (\<lambda>(a, n). in_region a n x) ?L" for x
    by (auto simp: literal_byte_def sample_kernel_image_def sample_frame_def)
  have driver: "driver_byte ?im x \<Longrightarrow> list_ex (\<lambda>(a, n). in_region a n x) ?D" for x
    by (auto simp: driver_byte_def sample_kernel_image_def fat16_scratch_def local_byte_def sample_layout_def sample_frame_def)
  have apart: "list_all (\<lambda>(a, n). list_all (\<lambda>(b, k). apart a n b k) ?D) (?T @ ?L)"
    "list_all (\<lambda>(a, n). list_all (\<lambda>(b, k). apart a n b k) ?T) ?L" by (simp_all add: apart_def)
  have low: "off_heap a n" if "(a, n) \<in> set (?T @ ?L)" for a n using that by (auto simp: off_heap_low)
  have safe: "\<not> in_heap x \<and> \<not> in_table boot_heap x \<and> \<not> driver_byte ?im x" if x: "list_ex (\<lambda>(a, n). in_region a n x) (?T @ ?L)" for x
  proof -
    obtain a n where a: "(a, n) \<in> set (?T @ ?L)" "in_region a n x" using x by (rule in_regionsE)
    have "\<not> driver_byte ?im x" using regions_apart [OF apart(1) x] driver by blast
    then show ?thesis using low [OF a(1)] a(2) by (simp add: off_heap_def)
  qed
  have "all_apart (boot_tables ?im)"
    by (simp add: boot_tables_def sample_kernel_image_def sample_idt_def apart_def)
  moreover have "off_heap (fat16_fs_addr (im_layout ?im) + 24) 6" "off_heap (stat_buffer (im_process ?im)) 8"
    by (simp_all add: sample_kernel_image_def sample_layout_def sample_frame_def off_heap_low)
  moreover have "\<not> in_heap x \<and> \<not> in_table boot_heap x \<and> \<not> driver_byte ?im x" if "table_byte ?im x \<or> literal_byte ?im x" for x
    by (rule safe) (use that table literal in auto)
  moreover have "\<not> table_byte ?im x" if "literal_byte ?im x" for x
    using regions_apart [OF apart(2) literal [OF that]] table by blast
  ultimately show ?thesis unfolding image_ok_def by blast
qed

theorem kernel_main_starts_witness:
  "\<exists>r s'. kernel_main (image_ports volume_image) sample_kernel_image 0x5FFF00 0x2 loader_kernel = Inr (r, s') \<and>
    r_ip r = 0x400000 \<and> virt_load (cr3 s') (phys s') 0x400001 = Some 0x69 \<and> load16 (phys s') 0xB8000 = 0x0F57"
proof -
  have fields: "sys_io sample_system = image_ports volume_image" "sys_layout sample_system = sample_layout"
    by (simp_all add: sample_system_def)
  have ne: "fat16_fs_addr (sys_layout sample_system) \<noteq> 0" by (simp add: sample_ids(2))
  have lay: "im_layout sample_kernel_image = sys_layout sample_system" by (simp add: fields sample_kernel_image_def)
  have cold: "cold_start sample_kernel_image loader_kernel"
  proof -
    have "cstr_at (phys user_kernel) 0x510 user_path" by (rule user_kernel_text) simp
    moreover have "phys user_kernel 0x600 = 0x72" by (simp add: user_kernel_def)
    ultimately show ?thesis
      by (simp add: cold_start_def sample_kernel_image_def sample_frame_def loader_kernel_def boot_kernel_def kheap.defs)
  qed
  have found: "root_find sample_system [Fat16Find.blank_bin] = Some (disk_entry volume_image 3 0)"
    using sample_reads(1) by (simp add: boot_path(2))
  obtain r P and s' :: "sample_device kernel" where k:
    "kernel_main (sys_io sample_system) sample_kernel_image 0x5FFF00 0x2 loader_kernel = Inr (r, s')" "r_ip r = 0x400000"
    "kernel_running sample_system sample_kernel_image [0x48, 0x69] P s'"
    using kernel_main_starts [where kesp = "0x5FFF00" and kflags = "0x2", OF sample_system_ok sample_ids(1) ne lay sample_kernel_image_ok cold found sample_content(1)]
    unfolding sample_content(2) by blast
  note run = k(3) [unfolded kernel_running_def Let_def]
  have bytes: "\<forall>i < length [0x48, 0x69 :: u8]. virt_load (cr3 s') (phys s') (0x400000 + of_nat i) = Some ([0x48, 0x69] ! i)" using run by blast
  have "virt_load (cr3 s') (phys s') (0x400000 + of_nat 1) = Some ([0x48, 0x69] ! 1)" by (rule bytes [rule_format]) simp
  moreover have "screen_up (phys s')" using run by (simp add: tables_up_def)
  note screen = this [unfolded screen_up_def, rule_format, of 0]
  have "load16 (phys s') 0xB8000 = 0x0F57"
    using screen by (simp add: welcome_cell_def welcome_text_def term_make_char_def)
  ultimately show ?thesis using k(1,2) by (simp add: fields)
qed

end
