(* ===== verification/Spec2Isabelle.thy ===== *)
theory Spec2Isabelle
  imports HeapRun PrintCall ColorShow KernelBoot
begin

text \<open>
  A model of LameOS, a 32-bit x86 kernel in C under \<open>src/src\<close>, and the theorems that make its
  components correct. File names below are relative to \<open>src/src\<close>.

  \<^bold>\<open>The program.\<close> \<open>kernel_main\<close> (\<open>kernel.c\<close>) sets up the screen, the segment descriptors, the kernel
  heap, the file layer, the disk, the interrupt table, the task state segment and paging, registers
  the system calls, loads the program \<open>blank.bin\<close> and starts the first task. Everything else runs
  under system calls: the wrapper in \<open>idt/idt.asm\<close> saves the registers of the task, the handler in
  \<open>idt/idt.c\<close> switches to the address space of the kernel, runs a command of \<open>isr80h/\<close> and returns
  through the task's. The heap serves every other component; the file layer parses a path, asks the
  FAT16 driver, which reads the disk through streams over the sectors of an ATA disk.

  \<^bold>\<open>How it is modelled.\<close> Memory is one function from 32-bit addresses to bytes (\<open>phys\<close>), and every C
  object whose address matters (heap table, page tables, descriptors, paths, tasks, processes, FAT
  structs) is bytes at the offsets the i686 compiler gives it, read by accessor definitions. Other
  globals are fields of records that extend each other in the order of the components: \<open>terminal\<close>,
  \<open>kheap\<close>, \<open>paging\<close>, \<open>disk_io\<close>, \<open>files\<close>, \<open>tasks\<close>, \<open>process_table\<close>, \<open>interrupts\<close>, \<open>kernel\<close>. Integers keep
  their width as words. Error codes are the negative words of the source; a halt (a panic, a call or
  access through a bad pointer, a loop that cannot end) is the left side of a sum, see \<open>halt\<close> in
  \<open>Prelude\<close>. A loop that need not end is a \<open>partial_function\<close> whose value is then \<open>None\<close>, so a theorem
  that gives \<open>Some\<close> or \<open>Inr\<close> states that the code returns. No fuel is used.

  \<^bold>\<open>Theories.\<close>
  \<^item> \<open>Prelude\<close>: words, regions of memory, the result type, status codes and constants (\<open>status.h\<close>,
    \<open>config.h\<close>).
  \<^item> \<open>Memory\<close> (\<open>memory/memory.c\<close>), \<open>CString\<close> (\<open>string/string.c\<close>): closed forms of the routines, and
    what the string functions compute on strings in memory.
  \<^item> \<open>Terminal\<close>, \<open>ColorShow\<close> (\<open>kernel.c\<close>): the screen; what \<open>print\<close> shows and leaves alone while the string
    fits (\<open>fits\<close>), and what it overwrites behind the screen when it does not, as there is no scrolling.
  \<^item> \<open>Heap\<close> (\<open>memory/heap/heap.c\<close>): the block allocator, refined to first-fit allocation on a list of
    free and used chunks (\<open>heap_repr\<close>). \<open>KHeap\<close> (\<open>kheap.c\<close>): the kernel heap, as the locales
    \<open>allocator\<close>, \<open>page_allocator\<close> and \<open>zeroing_allocator\<close> with their laws interpreted on \<open>kmalloc\<close>,
    \<open>kzalloc\<close> and \<open>kfree\<close>; every client uses the laws. \<open>HeapRun\<close>: a step relation for whole traces.
    \<open>HeapSpace\<close>: the free blocks as a set, and the runs of free blocks that survive allocations,
    from which clients know that a sequence of requests is served.
  \<^item> \<open>Paging\<close> (\<open>memory/paging\<close>): the page tables, with the locale \<open>page_map\<close>; \<open>Virtual\<close>: the page walk
    and accesses through it.
  \<^item> \<open>Gdt\<close> (\<open>gdt/gdt.c\<close>): the encoding of descriptors and what the processor reads from it.
  \<^item> \<open>PathParser\<close> (\<open>fs/pparser.c\<close>): the parts of a path as a linked list in memory, and its release.
  \<^item> \<open>Disk\<close> (\<open>disk/disk.c\<close>, \<open>io/\<close>): programmed input and output. The device is a parameter \<open>io\<close>; the
    hypothesis \<open>ata\<close> states the documented behaviour of an ATA disk with the contents \<open>img\<close>, and
    \<open>image_ports\<close> is a device that has it. \<open>Streamer\<close> (\<open>disk/streamer.c\<close>): byte streams over sectors.
    \<open>Frame\<close>: what a step of a client of heap and streams leaves alone.
  \<^item> \<open>File\<close> (\<open>fs/file.c\<close>): the descriptor table, its invariant \<open>fds_ok\<close>, and the operations over a
    driver, an argument that maps addresses of \<open>struct filesystem\<close> objects to their functions.
  \<^item> \<open>Fat16\<close> (\<open>fs/fat/fat16.c\<close>): the driver. \<open>Fat16Read\<close>: reading a file. The format says where
    the bytes of a file are (\<open>file_byte\<close>), the driver looks elsewhere (\<open>file_pos\<close>): it multiplies the start of the
    allocation table by the offset of an entry. Both agree within the first cluster, up to 64 KiB on the
    disk of LameOS, and the statements about the bytes of a file are about those (\<open>one_cluster\<close>);
    \<open>Fat16Entry\<close>: the names of entries; \<open>Fat16Dir\<close>: counting and loading a directory; \<open>Fat16Mount\<close>:
    resolving a disk; \<open>Fat16Find\<close>: the search of a directory and opening a file.
  \<^item> \<open>Driver\<close>: the specification of the file layer, a table of open files over an abstract volume
    (\<open>spec_call\<close>), and the contract of a driver, the locale \<open>file_driver\<close>. \<open>FileCalls\<close>: inside the
    locale, each call of \<open>fs/file.c\<close> simulates its specification (\<open>files_rel\<close> relates the tables).
    \<open>Fat16Driver\<close>: the contract holds of \<open>fat16_fs\<close> (the interpretation \<open>fat16\<close>). \<open>FileSystem\<close>: from the
    start of the kernel to any sequence of calls on files. A read of the specified volume gives the bytes the driver
    addresses, beyond the first cluster as well. The specification is partial where the
    code has no defined behaviour to promise: closing a number that is not open, and reads that
    start inside a sector and leave it or run past the chain of the file.
  \<^item> \<open>Task\<close>, \<open>TaskCopy\<close>, \<open>TaskList\<close> (\<open>task/task.c\<close>, \<open>task.asm\<close>): saved registers, strings copied out
    of a task's address space, the list of tasks. \<open>Process\<close> (\<open>task/process.c\<close>): the process table and
    the address space of a process. \<open>ProcessLoad\<close>: in the locale \<open>program_loader\<close>, which is
    \<open>file_driver\<close> over the state of the process table, loading a program from any driver; then from
    the FAT16 disk. \<open>ProcessStart\<close>: \<open>process_load\<close> from the first step to the last, up to the
    runnable task and what its address space shows (\<open>process_started\<close>).
  \<^item> \<open>Interrupt\<close> (\<open>idt/\<close>, \<open>isr80h/\<close>): the gates, the commands and the call of \<open>sum\<close> from user code to
    user code; \<open>PrintCall\<close>: the call of \<open>print\<close>; \<open>KeyCall\<close>: the keyboard and other hardware
    interrupts, those whose vectors push an error code included. The frame of an interrupt lies where the page
    tables of the task map the kernel stack (\<open>kernel_frame\<close>).
  \<^item> \<open>Kernel\<close>: \<open>kernel_main\<close>. \<open>KernelBoot\<close>: its whole run, from the first call to the first instruction of
    \<open>blank.bin\<close>, composed of the statements on its parts; \<open>kernel_running\<close> says what it leaves.

  \<^bold>\<open>Lemmas.\<close> Each component has its closed forms first, then the invariant (\<open>kheap_inv\<close>, \<open>fds_ok\<close>,
  \<open>chunk_ok\<close>, \<open>task_chain\<close>, \<open>mounted\<close>, \<open>files_rel\<close>) with its preservation, then frames: \<open>kheap_stable\<close> bytes are those
  no allocation changes, \<open>changed_only\<close> and \<open>kept\<close> bound what an operation writes. The numbered
  statements are the properties.

  \<^bold>\<open>Parameters.\<close> The device; the addresses of the objects the linker or the stack frame places
  (\<open>layout\<close>, \<open>idt_layout\<close>, \<open>process_frame\<close>, \<open>kernel_image\<close>) with hypotheses that they lie apart from
  each other and from the heap; the stack pointer and flags of the kernel at an interrupt. For the
  start of the kernel these hypotheses are \<open>image_ok\<close>, and \<open>cold_start\<close> states what the image holds.

  \<^bold>\<open>Not modelled.\<close> \<open>boot/boot.asm\<close> and \<open>kernel.asm\<close> (real mode, the switch to protected mode);
  interrupts that arrive in kernel code, when the processor pushes no stack pointer; the access-rights bits of the page walk (present is
  checked, user and write bits are not); instruction execution of user programs. A write past the
  end of a C array that hits another object is a \<open>Bad_Pointer\<close> or, in physical memory, the bytes
  that are there.
\<close>

end
